(* ===== verification/Prelude.thy ===== *)
theory Prelude
  imports Main "HOL-Library.Char_ord" "HOL-Library.List_Lexorder"
begin

text \<open>
  The vocabulary every component of the development shares.

  A Python function that may raise is a HOL function into \<open>'a result\<close>: \<open>Inl e\<close> is the
  exception that leaves the function, \<open>Inr x\<close> the returned value. The exception classes the
  modules declare (\<^verbatim>\<open>ProtocolError\<close>, \<^verbatim>\<open>ContractError\<close>, \<^verbatim>\<open>PoolError\<close>, \<^verbatim>\<open>ModelCheckError\<close>)
  are \<open>Err message\<close>; what the interpreter raises by itself has constructors of its own, so that
  an uncaught \<^verbatim>\<open>TypeError\<close> is never confused with a refusal the module meant.

  The collections \<open>py_defs\<close> (definitions a component proof unfolds), \<open>only_Err_intros\<close> (what a
  computation may raise) and \<open>result_elims\<close> (what a returned value says of the steps before it)
  gather the facts the component proofs share.
\<close>

named_theorems py_defs \<open>definitions of validation helpers unfolded by the component proofs\<close>
named_theorems only_Err_intros \<open>computations that raise only the module's own exception\<close>
named_theorems result_elims \<open>elimination rules for successful results\<close>

datatype py_exc =
    Err string
  | TypeError
  | KeyError string
  | OverflowError
  | AssertionError
  | ValueError
  | RecursionError

type_synonym 'a result = "py_exc + 'a"

section \<open>The exception monad\<close>

definition bindE :: "'a result \<Rightarrow> ('a \<Rightarrow> 'b result) \<Rightarrow> 'b result" where
  "bindE m f = (case m of Inl e \<Rightarrow> Inl e | Inr x \<Rightarrow> f x)"

definition require :: "bool \<Rightarrow> string \<Rightarrow> unit result" where
  "require b message = (if b then Inr () else Inl (Err message))"

lemma bindE_Inl [simp]: "bindE (Inl e) f = Inl e"
  by (simp add: bindE_def)

lemma bindE_Inr [simp]: "bindE (Inr x) f = f x"
  by (simp add: bindE_def)

lemma bindE_assoc: "bindE (bindE m f) g = bindE m (\<lambda>x. bindE (f x) g)"
  by (simp add: bindE_def split: sum.split)

lemma bindE_eq_Inr_iff: "bindE m f = Inr y \<longleftrightarrow> (\<exists>x. m = Inr x \<and> f x = Inr y)"
  by (simp add: bindE_def split: sum.split)

lemma bindE_eq_Inl_iff:
  "bindE m f = Inl e \<longleftrightarrow> m = Inl e \<or> (\<exists>x. m = Inr x \<and> f x = Inl e)"
  by (auto simp: bindE_def split: sum.split)

lemma bindE_InrE [elim!, result_elims]:
  assumes "bindE m f = Inr y"
  obtains x where "m = Inr x" and "f x = Inr y"
  using assms by (auto simp: bindE_eq_Inr_iff)

lemma bindE_cong [fundef_cong]:
  "m = n \<Longrightarrow> (\<And>x. n = Inr x \<Longrightarrow> f x = g x) \<Longrightarrow> bindE m f = bindE n g"
  by (cases n) simp_all

lemma require_eq_Inr_iff [simp]: "require b message = Inr u \<longleftrightarrow> b"
  by (simp add: require_def)

lemma require_eq_Inl_iff: "require b message = Inl e \<longleftrightarrow> \<not> b \<and> e = Err message"
  by (auto simp: require_def)

lemma require_True [simp]: "require True message = Inr ()"
  by (simp add: require_def)

lemma require_False [simp]: "require False message = Inl (Err message)"
  by (simp add: require_def)

lemma bindE_require:
  "bindE (require b message) f = (if b then f () else Inl (Err message))"
  by (simp add: require_def)

text \<open>
  \<open>only_Err m\<close>: the computation raises nothing but the module's own exception class, the one the
  callers catch.
\<close>

definition only_Err :: "'a result \<Rightarrow> bool" where
  "only_Err m \<longleftrightarrow> (\<forall>e. m = Inl e \<longrightarrow> (\<exists>message. e = Err message))"

lemma only_Err_Inr [only_Err_intros]: "only_Err (Inr x)"
  by (simp add: only_Err_def)

lemma only_Err_Inl [only_Err_intros]: "only_Err (Inl (Err message))"
  by (simp add: only_Err_def)

lemma only_Err_require [only_Err_intros]: "only_Err (require b message)"
  by (simp add: only_Err_def require_def)

lemma only_Err_bindE [only_Err_intros]:
  "only_Err m \<Longrightarrow> (\<And>x. m = Inr x \<Longrightarrow> only_Err (f x)) \<Longrightarrow> only_Err (bindE m f)"
  by (auto simp: only_Err_def bindE_eq_Inl_iff)

lemma only_Err_if [only_Err_intros]:
  "(b \<Longrightarrow> only_Err m) \<Longrightarrow> (\<not> b \<Longrightarrow> only_Err n) \<Longrightarrow> only_Err (if b then m else n)"
  by simp

lemma only_ErrE:
  assumes "only_Err m"
  obtains (raises) message where "m = Inl (Err message)" | (returns) x where "m = Inr x"
  using assms by (cases m) (auto simp: only_Err_def)

text \<open>Left-to-right evaluation of a comprehension whose element expression may raise.\<close>

fun mapE :: "('a \<Rightarrow> 'b result) \<Rightarrow> 'a list \<Rightarrow> 'b list result" where
  "mapE f [] = Inr []"
| "mapE f (x # xs) = bindE (f x) (\<lambda>y. bindE (mapE f xs) (\<lambda>ys. Inr (y # ys)))"

text \<open>A \<^verbatim>\<open>for\<close> loop that threads a state and may raise.\<close>

fun foldE :: "('s \<Rightarrow> 'a \<Rightarrow> 's result) \<Rightarrow> 's \<Rightarrow> 'a list \<Rightarrow> 's result" where
  "foldE f s [] = Inr s"
| "foldE f s (x # xs) = bindE (f s x) (\<lambda>t. foldE f t xs)"

lemma mapE_length: "mapE f xs = Inr ys \<Longrightarrow> length ys = length xs"
  by (induction xs arbitrary: ys) auto

lemma mapE_elem: "mapE f xs = Inr ys \<Longrightarrow> y \<in> set ys \<Longrightarrow> \<exists>x\<in>set xs. f x = Inr y"
  by (induction xs arbitrary: ys) auto

lemma foldE_append: "foldE f s (xs @ ys) = bindE (foldE f s xs) (\<lambda>t. foldE f t ys)"
  by (induction xs arbitrary: s) (simp_all add: bindE_assoc)

lemma foldE_invariant:
  assumes "foldE f s xs = Inr t" and "P s"
    and "\<And>s x t. x \<in> set xs \<Longrightarrow> P s \<Longrightarrow> f s x = Inr t \<Longrightarrow> P t"
  shows "P t"
  using assms by (induction xs arbitrary: s) auto

lemma foldE_returns:
  "(\<And>s x. x \<in> set xs \<Longrightarrow> \<exists>t. f s x = Inr t) \<Longrightarrow> \<exists>t. foldE f s xs = Inr t"
proof (induction xs arbitrary: s)
  case (Cons x xs)
  from Cons.prems [of x s] obtain t where "f s x = Inr t" by auto
  with Cons.IH [of t] Cons.prems show ?case by auto
qed simp

section \<open>Strings and characters\<close>

text \<open>
  A Python \<^verbatim>\<open>str\<close> is a list of characters; \<open>code c\<close> is the code point. HOL's \<open>char\<close> covers
  the code points below 256, and every pattern and literal of the modelled modules is ASCII.
\<close>

definition code :: "char \<Rightarrow> nat" where
  "code c = of_char c"

definition is_digit :: "char \<Rightarrow> bool" where
  "is_digit c \<longleftrightarrow> 48 \<le> code c \<and> code c \<le> 57"

definition is_lower :: "char \<Rightarrow> bool" where
  "is_lower c \<longleftrightarrow> 97 \<le> code c \<and> code c \<le> 122"

definition is_upper :: "char \<Rightarrow> bool" where
  "is_upper c \<longleftrightarrow> 65 \<le> code c \<and> code c \<le> 90"

definition is_alnum :: "char \<Rightarrow> bool" where
  "is_alnum c \<longleftrightarrow> is_digit c \<or> is_lower c \<or> is_upper c"

definition is_lower_hex :: "char \<Rightarrow> bool" where
  "is_lower_hex c \<longleftrightarrow> is_digit c \<or> (97 \<le> code c \<and> code c \<le> 102)"

lemmas char_class_defs =
  code_def is_digit_def is_lower_def is_upper_def is_alnum_def is_lower_hex_def

text \<open>Decimal text: \<^verbatim>\<open>str(n)\<close>, and the value \<^verbatim>\<open>int(text, 10)\<close> of a string of digits.\<close>

definition digit_char :: "nat \<Rightarrow> char" where
  "digit_char d = char_of (48 + d)"

fun str_nat :: "nat \<Rightarrow> string" where
  "str_nat n = (if n < 10 then [digit_char n] else str_nat (n div 10) @ [digit_char (n mod 10)])"

declare str_nat.simps [simp del]

definition str_int :: "int \<Rightarrow> string" where
  "str_int i = (if i < 0 then CHR ''-'' # str_nat (nat (- i)) else str_nat (nat i))"

definition digits_value :: "string \<Rightarrow> nat" where
  "digits_value s = fold (\<lambda>c acc. 10 * acc + (code c - 48)) s 0"

lemma digits_value_snoc: "digits_value (s @ [c]) = 10 * digits_value s + (code c - 48)"
  by (simp add: digits_value_def)

lemma code_digit_char: "d < 10 \<Longrightarrow> code (digit_char d) = 48 + d"
  by (simp add: code_def digit_char_def)

lemma is_digit_digit_char: "d < 10 \<Longrightarrow> is_digit (digit_char d)"
  by (simp add: is_digit_def code_digit_char)

lemma str_nat_digits: "list_all is_digit (str_nat n)"
proof (induction n rule: str_nat.induct)
  case (1 n)
  then show ?case
    by (subst str_nat.simps) (auto simp: is_digit_digit_char)
qed

lemma str_nat_not_Nil: "str_nat n \<noteq> []"
  by (subst str_nat.simps) simp

text \<open>Printing a natural number and reading it back is the identity.\<close>

lemma digits_value_str_nat: "digits_value (str_nat n) = n"
proof (induction n rule: str_nat.induct)
  case (1 n)
  show ?case
  proof (cases "n < 10")
    case True
    then show ?thesis
      by (subst str_nat.simps) (simp add: digits_value_def code_digit_char)
  next
    case False
    with 1 have "digits_value (str_nat (n div 10)) = n div 10" by simp
    with False show ?thesis
      by (subst str_nat.simps) (simp add: digits_value_snoc code_digit_char)
  qed
qed

text \<open>Reading canonical decimal text and printing it back is the identity, too.\<close>

lemma digit_char_code: "is_digit c \<Longrightarrow> digit_char (code c - 48) = c"
  by (simp add: digit_char_def is_digit_def code_def)

lemma digits_value_pos:
  "list_all is_digit s \<Longrightarrow> s \<noteq> [] \<Longrightarrow> hd s \<noteq> CHR ''0'' \<Longrightarrow> 0 < digits_value s"
proof (induction s rule: rev_induct)
  case (snoc c s)
  show ?case
  proof (cases "s = []")
    case True
    have "char_of (48 :: nat) = CHR ''0''" by code_simp
    with True snoc have "code c \<noteq> 48"
      using digit_char_code [of c] by (auto simp: digit_char_def)
    with True snoc show ?thesis by (simp add: digits_value_def is_digit_def)
  next
    case False
    with snoc show ?thesis by (simp add: digits_value_snoc)
  qed
qed simp

lemma str_nat_digits_value:
  "list_all is_digit s \<Longrightarrow> s \<noteq> [] \<Longrightarrow> hd s \<noteq> CHR ''0'' \<Longrightarrow> str_nat (digits_value s) = s"
proof (induction s rule: rev_induct)
  case (snoc c s)
  then have c: "is_digit c" by simp
  show ?case
  proof (cases "s = []")
    case True
    with c show ?thesis
      by (subst str_nat.simps) (auto simp: digits_value_def digit_char_code is_digit_def)
  next
    case False
    with snoc have s: "str_nat (digits_value s) = s" "0 < digits_value s"
      using digits_value_pos by auto
    from c have "code c - 48 < 10" by (auto simp: is_digit_def)
    with s show ?thesis
      by (subst str_nat.simps) (simp add: digits_value_snoc digit_char_code c)
  qed
qed simp

text \<open>Substring test, \<^verbatim>\<open>needle in text\<close>.\<close>

fun is_prefix :: "string \<Rightarrow> string \<Rightarrow> bool" where
  "is_prefix [] s = True"
| "is_prefix (c # cs) [] = False"
| "is_prefix (c # cs) (d # ds) = (c = d \<and> is_prefix cs ds)"

fun contains :: "string \<Rightarrow> string \<Rightarrow> bool" where
  "contains needle [] = (needle = [])"
| "contains needle (c # cs) = (is_prefix needle (c # cs) \<or> contains needle cs)"

lemma is_prefix_append [simp]: "is_prefix p (p @ s)"
  by (induction p) simp_all

lemma contains_append: "contains needle (pre @ needle @ post)"
proof (induction pre)
  case Nil
  then show ?case
    by (cases "needle @ post") (auto simp flip: append_assoc, metis is_prefix_append)
qed simp

text \<open>\<^verbatim>\<open>", ".join(parts)\<close>.\<close>

fun join_with :: "string \<Rightarrow> string list \<Rightarrow> string" where
  "join_with sep [] = []"
| "join_with sep [x] = x"
| "join_with sep (x # y # ys) = x @ sep @ join_with sep (y # ys)"

section \<open>Lists\<close>

lemma list_update_all:
  "list_all P xs \<Longrightarrow> P x \<Longrightarrow> list_all P (xs[i := x])"
  by (auto simp: list_all_iff dest!: set_update_subset_insert [THEN subsetD])

lemma list_all_nthD: "list_all P xs \<Longrightarrow> i < length xs \<Longrightarrow> P (xs ! i)"
  by (simp add: list_all_length)

lemma mapE_enumerate_json:
  assumes "\<And>i x. x \<in> set xs \<Longrightarrow> f (i, g x) = Inr x"
  shows "mapE f (enumerate n (map g xs)) = Inr xs"
  using assms by (induction xs arbitrary: n) simp_all

lemma mapE_enumerate_elem:
  "mapE f (enumerate n xs) = Inr ys \<Longrightarrow> y \<in> set ys \<Longrightarrow> \<exists>i x. f (i, x) = Inr y"
  using mapE_elem by (metis prod.exhaust)

lemma sort_key_again: "sort_key f (sort_key f xs) = sort_key f xs"
  by (simp add: sorted_sort_id sort_key_id_if_sorted)

end
