(* ===== verification/PyValue.thy ===== *)
theory PyValue
  imports Prelude
begin

text \<open>
  The dynamically typed values the modules exchange: what \<^verbatim>\<open>json.loads\<close> builds and what the
  contract functions receive as \<^verbatim>\<open>Any\<close> or \<^verbatim>\<open>Mapping[str, Any]\<close>. A \<^verbatim>\<open>dict\<close> is its list of
  items in insertion order. A \<^verbatim>\<open>float\<close> carries its \<^verbatim>\<open>repr\<close> (which identifies it) and, when it
  is integral, the integer it equals: that is all the modules ever ask of one.

  Below the data type: \<^verbatim>\<open>dict.get\<close>, Python equality, \<^verbatim>\<open>repr\<close> of a list of strings (used in
  error messages), \<^verbatim>\<open>json.dumps\<close> in the canonical form the modules hash
  (\<^verbatim>\<open>sort_keys=True, separators=(",", ":"), ensure_ascii=True\<close>), and the regular expressions
  that several modules declare under the same name.
\<close>

datatype json =
    JNull
  | JBool bool
  | JInt int
  | JFloat string "int option"
  | JStr string
  | JArr "json list"
  | JObj "(string \<times> json) list"

type_synonym pydict = "(string \<times> json) list"

section \<open>Dictionaries\<close>

definition dict_get :: "pydict \<Rightarrow> string \<Rightarrow> json" where
  "dict_get d k = (case map_of d k of None \<Rightarrow> JNull | Some v \<Rightarrow> v)"

definition dict_get_default :: "pydict \<Rightarrow> string \<Rightarrow> json \<Rightarrow> json" where
  "dict_get_default d k v0 = (case map_of d k of None \<Rightarrow> v0 | Some v \<Rightarrow> v)"

definition dict_keys :: "pydict \<Rightarrow> string list" where
  "dict_keys d = map fst d"

text \<open>\<^verbatim>\<open>d[k] = v\<close>: an existing key keeps its place, a new one goes to the end.\<close>

fun dict_set :: "('k \<times> 'v) list \<Rightarrow> 'k \<Rightarrow> 'v \<Rightarrow> ('k \<times> 'v) list" where
  "dict_set [] k v = [(k, v)]"
| "dict_set ((k', v') # d) k v = (if k' = k then (k, v) # d else (k', v') # dict_set d k v)"

definition opt_str :: "string option \<Rightarrow> json" where
  "opt_str x = (case x of None \<Rightarrow> JNull | Some s \<Rightarrow> JStr s)"

definition opt_bool :: "bool option \<Rightarrow> json" where
  "opt_bool x = (case x of None \<Rightarrow> JNull | Some b \<Rightarrow> JBool b)"

lemma dict_get_Cons [simp]:
  "dict_get ((k', v) # d) k = (if k' = k then v else dict_get d k)"
  by (simp add: dict_get_def)

lemma dict_get_Nil [simp]: "dict_get [] k = JNull"
  by (simp add: dict_get_def)

lemma map_of_dict_set: "map_of (dict_set d k v) = (map_of d)(k \<mapsto> v)"
  by (induction d) auto

lemma dict_get_dict_set [simp]:
  "dict_get (dict_set d k v) k' = (if k' = k then v else dict_get d k')"
  by (simp add: dict_get_def map_of_dict_set)

lemma keys_dict_set: "set (map fst (dict_set d k v)) = insert k (set (map fst d))"
  by (induction d k v rule: dict_set.induct) (auto split: if_splits)

lemma distinct_dict_set: "distinct (map fst d) \<Longrightarrow> distinct (map fst (dict_set d k v))"
proof (induction d k v rule: dict_set.induct)
  case (2 k' v' d k v)
  show ?case
  proof (cases "k' = k")
    case False
    with 2 have "k' \<notin> set (map fst (dict_set d k v))" by (simp add: keys_dict_set del: set_map)
    with False 2 show ?thesis by simp
  qed (use 2 in simp)
qed simp

lemma opt_str_simps [simp]:
  "opt_str None = JNull" "opt_str (Some s) = JStr s"
  "opt_str x = JNull \<longleftrightarrow> x = None" "opt_str x = JStr s \<longleftrightarrow> x = Some s"
  by (simp_all add: opt_str_def split: option.split)

lemma opt_str_inject [simp]: "opt_str x = opt_str y \<longleftrightarrow> x = y"
  by (cases x; cases y) simp_all

section \<open>Equality and hashing\<close>

text \<open>
  Python's \<^verbatim>\<open>==\<close> identifies \<^verbatim>\<open>True\<close> with \<open>1\<close> and an integral float with its integer, compares
  lists element by element and dictionaries as maps.
\<close>

definition num_val :: "json \<Rightarrow> int option" where
  "num_val v = (case v of JBool b \<Rightarrow> Some (if b then 1 else 0) | JInt i \<Rightarrow> Some i
     | JFloat r i \<Rightarrow> i | _ \<Rightarrow> None)"

fun py_eq :: "json \<Rightarrow> json \<Rightarrow> bool"
  and py_eq_list :: "json list \<Rightarrow> json list \<Rightarrow> bool"
  and py_eq_sub :: "pydict \<Rightarrow> pydict \<Rightarrow> bool" where
  "py_eq (JStr s) v = (v = JStr s)"
| "py_eq JNull v = (v = JNull)"
| "py_eq (JArr xs) v = (case v of JArr ys \<Rightarrow> py_eq_list xs ys | _ \<Rightarrow> False)"
| "py_eq (JObj d) v = (case v of JObj e \<Rightarrow> length d = length e \<and> py_eq_sub d e | _ \<Rightarrow> False)"
| "py_eq (JBool b) v = (num_val v = Some (if b then 1 else 0))"
| "py_eq (JInt i) v = (num_val v = Some i)"
| "py_eq (JFloat r i) v = (case i of
      None \<Rightarrow> v = JFloat r None \<and> r \<noteq> ''nan'' | Some n \<Rightarrow> num_val v = Some n)"
| "py_eq_list [] ys = (ys = [])"
| "py_eq_list (x # xs) ys = (case ys of [] \<Rightarrow> False | y # ys' \<Rightarrow> py_eq x y \<and> py_eq_list xs ys')"
| "py_eq_sub [] e = True"
| "py_eq_sub ((k, v) # d) e =
     ((case map_of e k of None \<Rightarrow> False | Some w \<Rightarrow> py_eq v w) \<and> py_eq_sub d e)"

text \<open>
  \<^verbatim>\<open>value in SET\<close> hashes the value first: a list or a dictionary raises \<^verbatim>\<open>TypeError\<close>. The sets
  of the modules hold strings only.
\<close>

definition in_str_set :: "json \<Rightarrow> string list \<Rightarrow> bool result" where
  "in_str_set v names = (case v of
      JArr _ \<Rightarrow> Inl TypeError
    | JObj _ \<Rightarrow> Inl TypeError
    | JStr s \<Rightarrow> Inr (s \<in> set names)
    | _ \<Rightarrow> Inr False)"

section \<open>Printing\<close>

definition hex_char :: "nat \<Rightarrow> char" where
  "hex_char d = (if d < 10 then char_of (48 + d) else char_of (87 + d))"

definition hex2 :: "nat \<Rightarrow> string" where
  "hex2 n = [hex_char (n div 16), hex_char (n mod 16)]"

text \<open>\<^verbatim>\<open>repr\<close> of a string, as it appears in \<^verbatim>\<open>f"{sorted(names)}"\<close>.\<close>

definition repr_char :: "char \<Rightarrow> char \<Rightarrow> string" where
  "repr_char quote c = (let n = code c in
     if c = quote \<or> n = 92 then [CHR 0x5C, c]
     else if n = 10 then [CHR 0x5C, CHR ''n'']
     else if n = 13 then [CHR 0x5C, CHR ''r'']
     else if n = 9 then [CHR 0x5C, CHR ''t'']
     else if n < 32 \<or> (127 \<le> n \<and> n \<le> 160) \<or> n = 173 then [CHR 0x5C, CHR ''x''] @ hex2 n
     else [c])"

definition repr_str :: "string \<Rightarrow> string" where
  "repr_str s =
     (let quote = (if CHR 0x27 \<in> set s \<and> CHR 0x22 \<notin> set s then CHR 0x22 else CHR 0x27)
      in quote # concat (map (repr_char quote) s) @ [quote])"

definition repr_str_list :: "string list \<Rightarrow> string" where
  "repr_str_list xs = ''['' @ join_with '', '' (map repr_str xs) @ '']''"

text \<open>
  \<^verbatim>\<open>str\<close> of a scalar, as an f-string prints it. The modules print a value this way only after a
  set lookup, which has already raised on lists and dictionaries.
\<close>

definition str_scalar :: "json \<Rightarrow> string" where
  "str_scalar v = (case v of JNull \<Rightarrow> ''None'' | JBool b \<Rightarrow> (if b then ''True'' else ''False'')
     | JInt i \<Rightarrow> str_int i | JFloat r i \<Rightarrow> r | JStr s \<Rightarrow> s | JArr _ \<Rightarrow> [] | JObj _ \<Rightarrow> [])"

text \<open>\<^verbatim>\<open>json.dumps\<close> with \<^verbatim>\<open>ensure_ascii=True\<close>: a string literal.\<close>

definition json_char :: "char \<Rightarrow> string" where
  "json_char c = (let n = code c in
     if n = 34 \<or> n = 92 then [CHR 0x5C, c]
     else if n = 10 then [CHR 0x5C, CHR ''n'']
     else if n = 13 then [CHR 0x5C, CHR ''r'']
     else if n = 9 then [CHR 0x5C, CHR ''t'']
     else if n = 12 then [CHR 0x5C, CHR ''f'']
     else if n = 8 then [CHR 0x5C, CHR ''b'']
     else if n < 32 \<or> 126 < n then [CHR 0x5C, CHR ''u'', CHR ''0'', CHR ''0''] @ hex2 n
     else [c])"

definition json_string :: "string \<Rightarrow> string" where
  "json_string s = CHR 0x22 # concat (map json_char s) @ [CHR 0x22]"

definition json_float :: "string \<Rightarrow> string" where
  "json_float r = (if r = ''nan'' then ''NaN'' else if r = ''inf'' then ''Infinity''
     else if r = ''-inf'' then ''-Infinity'' else r)"

fun canonical :: "json \<Rightarrow> string" where
  "canonical JNull = ''null''"
| "canonical (JBool b) = (if b then ''true'' else ''false'')"
| "canonical (JInt i) = str_int i"
| "canonical (JFloat r i) = json_float r"
| "canonical (JStr s) = json_string s"
| "canonical (JArr xs) = ''['' @ join_with '','' (map canonical xs) @ '']''"
| "canonical (JObj d) = ''{'' @ join_with '',''
     (map (\<lambda>(k, text). json_string k @ '':'' @ text)
       (sort_key fst (map (\<lambda>(k, v). (k, canonical v)) d))) @ ''}''"

section \<open>The patterns the modules share\<close>

text \<open>\<^verbatim>\<open>DIGEST = ^[0-9a-f]{64}$\<close> and \<^verbatim>\<open>COMMIT = ^[0-9a-f]{40}$\<close>, under \<^verbatim>\<open>fullmatch\<close>.\<close>

definition is_sha256_text :: "string \<Rightarrow> bool" where
  "is_sha256_text s \<longleftrightarrow> length s = 64 \<and> list_all is_lower_hex s"

definition is_commit_text :: "string \<Rightarrow> bool" where
  "is_commit_text s \<longleftrightarrow> length s = 40 \<and> list_all is_lower_hex s"

text \<open>\<^verbatim>\<open>IDENTIFIER = ^[a-zA-Z0-9][a-zA-Z0-9._:-]{2,127}$\<close>.\<close>

definition is_identifier_char :: "char \<Rightarrow> bool" where
  "is_identifier_char c \<longleftrightarrow> is_alnum c \<or> c \<in> set ''._:-''"

definition is_identifier_text :: "string \<Rightarrow> bool" where
  "is_identifier_text s = (case s of [] \<Rightarrow> False
     | c # cs \<Rightarrow> is_alnum c \<and> list_all is_identifier_char cs \<and> 2 \<le> length cs \<and> length cs \<le> 127)"

text \<open>\<^verbatim>\<open>SLUG = ^[a-z][a-z0-9-]{2,95}$\<close>.\<close>

definition is_slug_char :: "char \<Rightarrow> bool" where
  "is_slug_char c \<longleftrightarrow> is_lower c \<or> is_digit c \<or> c = CHR ''-''"

definition is_slug_text :: "string \<Rightarrow> bool" where
  "is_slug_text s = (case s of [] \<Rightarrow> False
     | c # cs \<Rightarrow> is_lower c \<and> list_all is_slug_char cs \<and> 2 \<le> length cs \<and> length cs \<le> 95)"

text \<open>\<^verbatim>\<open>FAILURE_CODE = ^[a-z][a-z0-9_.-]{2,95}$\<close>.\<close>

definition is_failure_char :: "char \<Rightarrow> bool" where
  "is_failure_char c \<longleftrightarrow> is_lower c \<or> is_digit c \<or> c \<in> set ''_.-''"

definition is_failure_text :: "string \<Rightarrow> bool" where
  "is_failure_text s = (case s of [] \<Rightarrow> False
     | c # cs \<Rightarrow> is_lower c \<and> list_all is_failure_char cs \<and> 2 \<le> length cs \<and> length cs \<le> 95)"

lemmas pattern_defs =
  is_sha256_text_def is_commit_text_def is_identifier_text_def is_identifier_char_def
  is_slug_text_def is_slug_char_def is_failure_text_def is_failure_char_def char_class_defs

section \<open>Exact key sets\<close>

text \<open>
  \<^verbatim>\<open>_expect_exact_keys\<close>, which both protocol models declare: the expected set is given as the
  list of its elements, and the message lists the differences sorted.
\<close>

definition missing_keys :: "pydict \<Rightarrow> string list \<Rightarrow> string list" where
  "missing_keys d expected = sort (filter (\<lambda>k. k \<notin> set (dict_keys d)) expected)"

definition extra_keys :: "pydict \<Rightarrow> string list \<Rightarrow> string list" where
  "extra_keys d expected = sort (filter (\<lambda>k. k \<notin> set expected) (dict_keys d))"

definition keys_mismatch :: "pydict \<Rightarrow> string list \<Rightarrow> string \<Rightarrow> string" where
  "keys_mismatch d expected field = field @ '' keys mismatch: missing=''
     @ repr_str_list (missing_keys d expected) @ '', extra='' @ repr_str_list (extra_keys d expected)"

definition expect_exact_keys :: "pydict \<Rightarrow> string list \<Rightarrow> string \<Rightarrow> unit result" where
  "expect_exact_keys d expected field =
     require (set (dict_keys d) = set expected) (keys_mismatch d expected field)"

lemma expect_exact_keys_iff [simp]:
  "expect_exact_keys d expected field = Inr u \<longleftrightarrow> set (dict_keys d) = set expected"
  by (simp add: expect_exact_keys_def)

section \<open>Checked scalars\<close>

text \<open>The \<^verbatim>\<open>_expect_*\<close> functions of the protocol models; a \<^verbatim>\<open>bool\<close> is not accepted as an integer.\<close>

definition expect_digest :: "json \<Rightarrow> string \<Rightarrow> string result" where
  "expect_digest v field = (case v of
      JStr s \<Rightarrow> if is_sha256_text s then Inr s
                else Inl (Err (field @ '' must be a lowercase SHA-256 digest''))
    | _ \<Rightarrow> Inl (Err (field @ '' must be a lowercase SHA-256 digest'')))"

definition expect_identifier :: "json \<Rightarrow> string \<Rightarrow> string result" where
  "expect_identifier v field = (case v of
      JStr s \<Rightarrow> if is_identifier_text s then Inr s
                else Inl (Err (field @ '' has an invalid identifier''))
    | _ \<Rightarrow> Inl (Err (field @ '' has an invalid identifier'')))"

definition expect_positive :: "json \<Rightarrow> string \<Rightarrow> int result" where
  "expect_positive v field = (case v of
      JInt i \<Rightarrow> if 0 < i then Inr i else Inl (Err (field @ '' must be a positive integer''))
    | _ \<Rightarrow> Inl (Err (field @ '' must be a positive integer'')))"

lemma expect_digest_iff [simp]:
  "expect_digest v field = Inr s \<longleftrightarrow> v = JStr s \<and> is_sha256_text s"
  by (auto simp: expect_digest_def split: json.splits)

lemma expect_identifier_iff [simp]:
  "expect_identifier v field = Inr s \<longleftrightarrow> v = JStr s \<and> is_identifier_text s"
  by (auto simp: expect_identifier_def split: json.splits)

lemma expect_positive_iff [simp]:
  "expect_positive v field = Inr i \<longleftrightarrow> v = JInt i \<and> 0 < i"
  by (auto simp: expect_positive_def split: json.splits)

lemma expect_ok [simp]:
  "is_sha256_text s \<Longrightarrow> expect_digest (JStr s) field = Inr s"
  "is_identifier_text s \<Longrightarrow> expect_identifier (JStr s) field = Inr s"
  "0 < i \<Longrightarrow> expect_positive (JInt i) field = Inr i"
  by simp_all

lemma only_Err_expect [only_Err_intros]:
  "only_Err (expect_digest v field)"
  "only_Err (expect_identifier v field)"
  "only_Err (expect_positive v field)"
  "only_Err (expect_exact_keys d ks field)"
  by (auto simp: only_Err_def expect_digest_def expect_identifier_def expect_positive_def
      expect_exact_keys_def require_eq_Inl_iff split: json.splits if_splits)

section \<open>Duplicate-free parsing\<close>

text \<open>
  \<^verbatim>\<open>_pairs\<close>, the \<^verbatim>\<open>object_pairs_hook\<close> every loader passes to \<^verbatim>\<open>json.loads\<close>: the items of one
  object become a dictionary unless a key repeats.
\<close>

definition pairs :: "pydict \<Rightarrow> pydict result" where
  "pairs items = foldE (\<lambda>d (k, v).
     if k \<in> fst ` set d then Inl (Err (''duplicate JSON key: '' @ k)) else Inr (dict_set d k v)) [] items"

lemma dict_set_fresh: "k \<notin> fst ` set d \<Longrightarrow> dict_set d k v = d @ [(k, v)]"
  by (induction d) auto

lemma pairs_aux:
  "distinct (map fst d) \<Longrightarrow>
   foldE (\<lambda>d (k, v). if k \<in> fst ` set d then Inl (Err (''duplicate JSON key: '' @ k))
      else Inr (dict_set d k v)) d items = Inr d' \<longleftrightarrow>
   distinct (map fst (d @ items)) \<and> d' = d @ items"
proof (induction items arbitrary: d)
  case Nil
  then show ?case by auto
next
  case (Cons kv items)
  obtain k v where kv: "kv = (k, v)" by (cases kv)
  show ?case
  proof (cases "k \<in> fst ` set d")
    case True
    with Cons.prems kv show ?thesis by auto
  next
    case False
    with Cons.prems have "distinct (map fst (d @ [(k, v)]))" by auto
    from Cons.IH [OF this] False kv show ?thesis by (simp add: dict_set_fresh)
  qed
qed

text \<open>It succeeds exactly on items with distinct keys, and then keeps them in order.\<close>

lemma pairs_iff: "pairs items = Inr d \<longleftrightarrow> distinct (map fst items) \<and> d = items"
  unfolding pairs_def using pairs_aux [of "[]" items d] by simp

section \<open>Fixture expectations\<close>

text \<open>
  The part of \<^verbatim>\<open>run_fixture\<close> both protocol models share word for word: the prefix of a step's
  messages, and the comparison of the reported error with the step's \<^verbatim>\<open>error_contains\<close>.
\<close>

definition where_step :: "string \<Rightarrow> nat \<Rightarrow> string" where
  "where_step scenario_id i = ''scenario '' @ scenario_id @ '' step '' @ str_nat i"

definition check_error :: "string \<Rightarrow> nat \<Rightarrow> json \<Rightarrow> string option \<Rightarrow> unit result" where
  "check_error scenario_id i error_contains err =
     (if error_contains \<noteq> JNull then
        (case error_contains of
           JStr needle \<Rightarrow>
             bindE (require (needle \<noteq> []) ''error_contains must be null or non-empty text'') (\<lambda>_.
             require (case err of None \<Rightarrow> False | Some m \<Rightarrow> contains needle m)
               (where_step scenario_id i @ '' error mismatch''))
         | _ \<Rightarrow> Inl (Err ''error_contains must be null or non-empty text''))
      else require (err = None) (where_step scenario_id i @ '' had unexpected error''))"

section \<open>Sample digests\<close>

text \<open>Two digests for the witnesses.\<close>

definition digest_a :: string where "digest_a = replicate 64 (CHR ''a'')"
definition digest_b :: string where "digest_b = replicate 64 (CHR ''b'')"

lemma sample_digests [simp]: "is_sha256_text digest_a" "is_sha256_text digest_b"
  "digest_a \<noteq> digest_b" "digest_b \<noteq> digest_a"
  by code_simp+

section \<open>Equality of documents\<close>

text \<open>Documents without floats and without repeated keys are equal to themselves in Python, too.\<close>

fun plain :: "json \<Rightarrow> bool" where
  "plain (JFloat r i) = False"
| "plain (JArr xs) = list_all plain xs"
| "plain (JObj d) = (distinct (map fst d) \<and> list_all (plain \<circ> snd) d)"
| "plain _ = True"

lemma py_eq_list_refl: "(\<And>x. x \<in> set xs \<Longrightarrow> py_eq x x) \<Longrightarrow> py_eq_list xs xs"
  by (induction xs) simp_all

lemma py_eq_sub_refl:
  "(\<And>k v. (k, v) \<in> set d \<Longrightarrow> map_of e k = Some v \<and> py_eq v v) \<Longrightarrow> py_eq_sub d e"
proof (induction d)
  case (Cons kv d)
  obtain k v where kv: "kv = (k, v)" by (cases kv)
  with Cons.prems [of k v] have "map_of e k = Some v" "py_eq v v" by simp_all
  moreover have "py_eq_sub d e" by (rule Cons.IH) (rule Cons.prems, simp)
  ultimately show ?case by (simp add: kv)
qed simp

lemma py_eq_refl: "plain v \<Longrightarrow> py_eq v v"
proof (induction v)
  case (JArr xs)
  then show ?case by (auto simp: list_all_iff intro: py_eq_list_refl)
next
  case (JObj d)
  then have "py_eq_sub d d"
    by (intro py_eq_sub_refl) (force simp: list_all_iff)
  then show ?case by simp
qed (simp_all add: num_val_def)

lemma plain_opt [simp]: "plain (opt_str x)" "plain (opt_bool y)"
  by (simp_all add: opt_str_def opt_bool_def split: option.split)

end
