(* ===== verification/Sha256.thy ===== *)
theory Sha256
  imports PyValue "HOL-Library.Word"
begin

text \<open>
  \<^verbatim>\<open>hashlib.sha256(...).hexdigest()\<close>, as FIPS 180-4 defines it, over 32-bit words whose addition
  wraps, and \<^verbatim>\<open>sha256(value)\<close> of the protocol modules: the digest of the canonical JSON text.
  The components need one fact of it, proved at the end: the result always has the shape the
  modules' own \<^verbatim>\<open>DIGEST\<close> pattern accepts.
\<close>

unbundle bit_operations_syntax

type_synonym u32 = "32 word"

definition k256 :: "u32 list" where
  "k256 = [
    1116352408, 1899447441, 3049323471, 3921009573, 961987163, 1508970993, 2453635748, 2870763221,
    3624381080, 310598401, 607225278, 1426881987, 1925078388, 2162078206, 2614888103, 3248222580,
    3835390401, 4022224774, 264347078, 604807628, 770255983, 1249150122, 1555081692, 1996064986,
    2554220882, 2821834349, 2952996808, 3210313671, 3336571891, 3584528711, 113926993, 338241895,
    666307205, 773529912, 1294757372, 1396182291, 1695183700, 1986661051, 2177026350, 2456956037,
    2730485921, 2820302411, 3259730800, 3345764771, 3516065817, 3600352804, 4094571909, 275423344,
    430227734, 506948616, 659060556, 883997877, 958139571, 1322822218, 1537002063, 1747873779,
    1955562222, 2024104815, 2227730452, 2361852424, 2428436474, 2756734187, 3204031479, 3329325298]"

definition h256 :: "u32 list" where
  "h256 = [
    1779033703, 3144134277, 1013904242, 2773480762, 1359893119, 2600822924, 528734635, 1541459225]"

definition small_sigma0 :: "u32 \<Rightarrow> u32" where
  "small_sigma0 x = word_rotr 7 x XOR word_rotr 18 x XOR drop_bit 3 x"

definition small_sigma1 :: "u32 \<Rightarrow> u32" where
  "small_sigma1 x = word_rotr 17 x XOR word_rotr 19 x XOR drop_bit 10 x"

definition big_sigma0 :: "u32 \<Rightarrow> u32" where
  "big_sigma0 x = word_rotr 2 x XOR word_rotr 13 x XOR word_rotr 22 x"

definition big_sigma1 :: "u32 \<Rightarrow> u32" where
  "big_sigma1 x = word_rotr 6 x XOR word_rotr 11 x XOR word_rotr 25 x"

definition choice :: "u32 \<Rightarrow> u32 \<Rightarrow> u32 \<Rightarrow> u32" where
  "choice x y z = (x AND y) XOR (NOT x AND z)"

definition majority :: "u32 \<Rightarrow> u32 \<Rightarrow> u32 \<Rightarrow> u32" where
  "majority x y z = (x AND y) XOR (x AND z) XOR (y AND z)"

text \<open>Padding to a multiple of 64 bytes, with the bit length in the last eight.\<close>

fun be_bytes :: "nat \<Rightarrow> nat \<Rightarrow> nat list" where
  "be_bytes 0 n = []"
| "be_bytes (Suc k) n = be_bytes k (n div 256) @ [n mod 256]"

definition pad :: "nat list \<Rightarrow> nat list" where
  "pad bytes = bytes @ [128] @ replicate ((119 - length bytes mod 64) mod 64) 0
     @ be_bytes 8 (8 * length bytes)"

fun words_of :: "nat list \<Rightarrow> u32 list" where
  "words_of (a # b # c # d # rest) =
     word_of_nat (((a * 256 + b) * 256 + c) * 256 + d) # words_of rest"
| "words_of _ = []"

text \<open>The message schedule, kept newest word first.\<close>

fun extend_schedule :: "nat \<Rightarrow> u32 list \<Rightarrow> u32 list" where
  "extend_schedule 0 ws = ws"
| "extend_schedule (Suc n) ws = extend_schedule n
     ((small_sigma1 (ws ! 1) + ws ! 6 + small_sigma0 (ws ! 14) + ws ! 15) # ws)"

definition schedule :: "u32 list \<Rightarrow> u32 list" where
  "schedule block = rev (extend_schedule 48 (rev block))"

fun round256 :: "u32 list \<Rightarrow> u32 \<times> u32 \<Rightarrow> u32 list" where
  "round256 [a, b, c, d, e, f, g, h] (k, w) =
     (let t1 = h + big_sigma1 e + choice e f g + k + w;
          t2 = big_sigma0 a + majority a b c
      in [t1 + t2, a, b, c, d + t1, e, f, g])"
| "round256 st kw = st"

definition compress :: "u32 list \<Rightarrow> u32 list \<Rightarrow> u32 list" where
  "compress st block =
     map2 (+) st (foldl round256 st (zip k256 (schedule block)))"

fun blocks_of :: "nat \<Rightarrow> u32 list \<Rightarrow> u32 list list" where
  "blocks_of 0 ws = []"
| "blocks_of (Suc n) ws = (if ws = [] then [] else take 16 ws # blocks_of n (drop 16 ws))"

definition sha256_words :: "nat list \<Rightarrow> u32 list" where
  "sha256_words bytes =
     (let ws = words_of (pad bytes) in foldl compress h256 (blocks_of (length ws) ws))"

definition hex_word :: "u32 \<Rightarrow> string" where
  "hex_word w = map (\<lambda>i. hex_char (unat w div 16 ^ i mod 16)) [7, 6, 5, 4, 3, 2, 1, 0]"

definition sha256_hexdigest :: "string \<Rightarrow> string" where
  "sha256_hexdigest text = concat (map hex_word (sha256_words (map code text)))"

text \<open>\<^verbatim>\<open>sha256(value)\<close> of the protocol modules.\<close>

definition sha256 :: "json \<Rightarrow> string" where
  "sha256 value = sha256_hexdigest (canonical value)"

section \<open>The shape of a digest\<close>

lemma length_round256: "length st = 8 \<Longrightarrow> length (round256 st kw) = 8"
  by (cases "(st, kw)" rule: round256.cases) (simp_all add: Let_def)

lemma length_foldl_round256: "length st = 8 \<Longrightarrow> length (foldl round256 st kws) = 8"
  by (induction kws arbitrary: st) (simp_all add: length_round256)

lemma length_compress: "length st = 8 \<Longrightarrow> length (compress st block) = 8"
  by (simp add: compress_def length_foldl_round256)

lemma length_foldl_compress: "length st = 8 \<Longrightarrow> length (foldl compress st bs) = 8"
  by (induction bs arbitrary: st) (simp_all add: length_compress)

lemma length_sha256_words: "length (sha256_words bytes) = 8"
  by (simp add: sha256_words_def Let_def length_foldl_compress h256_def)

lemma hex_char_lower_hex: "d < 16 \<Longrightarrow> is_lower_hex (hex_char d)"
  by (auto simp: hex_char_def is_lower_hex_def is_digit_def code_def)

lemma length_hex_word: "length (hex_word w) = 8"
  by (simp add: hex_word_def)

lemma hex_word_lower_hex: "list_all is_lower_hex (hex_word w)"
  by (simp add: hex_word_def hex_char_lower_hex)

text \<open>Every digest the modules compute matches their own \<^verbatim>\<open>DIGEST\<close> pattern.\<close>

lemma sha256_hexdigest_shape: "is_sha256_text (sha256_hexdigest text)"
proof -
  have "length (sha256_hexdigest text) = 8 * length (sha256_words (map code text))"
    by (simp add: sha256_hexdigest_def length_concat comp_def length_hex_word sum_list_triv)
  moreover have "list_all is_lower_hex (sha256_hexdigest text)"
    using hex_word_lower_hex by (fastforce simp: sha256_hexdigest_def list_all_iff)
  ultimately show ?thesis
    by (simp add: is_sha256_text_def length_sha256_words)
qed

lemma sha256_shape [simp]: "is_sha256_text (sha256 value)"
  by (simp add: sha256_def sha256_hexdigest_shape)

end
