(* ===== verification/FencedProtocol.thy ===== *)
theory FencedProtocol
  imports Prelude
begin

text \<open>
  The contract the repository's three delivery protocols share, as locales.

  Each protocol module offers one operation that takes an immutable state and a command and either
  raises or returns the successor state (\<^verbatim>\<open>apply\<close> in \<^verbatim>\<open>daily_briefing_atomicity_model.py\<close> and
  \<^verbatim>\<open>fabrication_recovery_protocol.py\<close>, \<^verbatim>\<open>transition_delivery\<close> in \<^verbatim>\<open>daily_briefing_receipts.py\<close>).
  Their callers run a sequence of commands and keep the old state whenever one is refused, as
  \<^verbatim>\<open>attempt\<close> and the fixture runners do: \<open>run_commands\<close> is that client. What the client may rely on
  is stated as the assumptions of the locales and discharged by an interpretation in the theory
  of each protocol.
\<close>

text \<open>The state a client holds after one command: the successor, or the old state on an error.\<close>

definition state_after :: "('s \<Rightarrow> 'c \<Rightarrow> 's result) \<Rightarrow> 's \<Rightarrow> 'c \<Rightarrow> 's" where
  "state_after step s c = (case step s c of Inl e \<Rightarrow> s | Inr t \<Rightarrow> t)"

fun run_commands :: "('s \<Rightarrow> 'c \<Rightarrow> 's result) \<Rightarrow> 's \<Rightarrow> 'c list \<Rightarrow> 's" where
  "run_commands step s [] = s"
| "run_commands step s (c # cs) = run_commands step (state_after step s c) cs"

lemma run_commands_append:
  "run_commands step s (cs @ ds) = run_commands step (run_commands step s cs) ds"
  by (induction cs arbitrary: s) simp_all

lemma state_after_cases:
  obtains (refused) e where "step s c = Inl e" "state_after step s c = s"
  | (accepted) t where "step s c = Inr t" "state_after step s c = t"
  by (cases "step s c") (simp_all add: state_after_def)

text \<open>
  At-least-once delivery: \<open>redelivered p cs ds\<close> when \<open>ds\<close> is \<open>cs\<close> with any command that satisfies
  \<open>p\<close> repeated any number of times right after itself.
\<close>

inductive redelivered :: "('c \<Rightarrow> bool) \<Rightarrow> 'c list \<Rightarrow> 'c list \<Rightarrow> bool" for p where
  none: "redelivered p [] []"
| deliver: "redelivered p cs ds \<Longrightarrow> redelivered p (c # cs) (c # ds)"
| again: "redelivered p (c # cs) (c # ds) \<Longrightarrow> p c \<Longrightarrow> redelivered p (c # cs) (c # c # ds)"

inductive_cases redelivered_NilE: "redelivered p [] ds"

section \<open>The locales\<close>

locale validated_protocol =
  fixes valid :: "'s \<Rightarrow> bool"
    and step :: "'s \<Rightarrow> 'c \<Rightarrow> 's result"
  assumes step_valid: "valid s \<Longrightarrow> step s c = Inr t \<Longrightarrow> valid t"
begin

lemma state_after_valid: "valid s \<Longrightarrow> valid (state_after step s c)"
  by (cases rule: state_after_cases [of step s c]) (auto dest: step_valid)

lemma run_valid: "valid s \<Longrightarrow> valid (run_commands step s cs)"
  by (induction cs arbitrary: s) (simp_all add: state_after_valid)

text \<open>An invariant of accepted steps between valid states is an invariant of every run.\<close>

lemma run_invariant:
  assumes "valid s" and "I s"
    and "\<And>s c t. valid s \<Longrightarrow> I s \<Longrightarrow> step s c = Inr t \<Longrightarrow> I t"
  shows "I (run_commands step s cs)"
  using assms(1,2)
proof (induction cs arbitrary: s)
  case Nil
  then show ?case by simp
next
  case (Cons c cs)
  have "I (state_after step s c)"
    by (cases rule: state_after_cases [of step s c]) (auto intro: Cons.prems assms(3))
  with Cons.IH [OF state_after_valid] Cons.prems(1) show ?case by simp
qed

end

text \<open>
  A preorder that no accepted command leaves: fences only grow, identities and terminal records
  never change.
\<close>

locale ordered_protocol = validated_protocol valid step
  for valid :: "'s \<Rightarrow> bool" and step :: "'s \<Rightarrow> 'c \<Rightarrow> 's result" +
  fixes le :: "'s \<Rightarrow> 's \<Rightarrow> bool"
  assumes le_refl: "le s s"
    and le_trans: "le s t \<Longrightarrow> le t u \<Longrightarrow> le s u"
    and step_le: "valid s \<Longrightarrow> step s c = Inr t \<Longrightarrow> le s t"
begin

lemma state_after_le: "valid s \<Longrightarrow> le s (state_after step s c)"
  by (cases rule: state_after_cases [of step s c]) (auto intro: le_refl dest: step_le)

lemma run_le: "valid s \<Longrightarrow> le s (run_commands step s cs)"
proof (induction cs arbitrary: s)
  case Nil
  show ?case by (simp add: le_refl)
next
  case (Cons c cs)
  from Cons.prems have "le s (state_after step s c)" by (rule state_after_le)
  moreover have "le (state_after step s c) (run_commands step (state_after step s c) cs)"
    by (rule Cons.IH [OF state_after_valid [OF Cons.prems]])
  ultimately show ?case by (auto intro: le_trans)
qed

text \<open>Any two points of a run are ordered the way they occur.\<close>

lemma run_prefix_le:
  "valid s \<Longrightarrow> le (run_commands step s cs) (run_commands step s (cs @ ds))"
  by (simp add: run_commands_append run_le run_valid)

end

text \<open>Commands that may be delivered again: the second application changes nothing.\<close>

locale replayable_protocol = validated_protocol valid step
  for valid :: "'s \<Rightarrow> bool" and step :: "'s \<Rightarrow> 'c \<Rightarrow> 's result" +
  fixes replayable :: "'c \<Rightarrow> bool"
  assumes step_replay: "valid s \<Longrightarrow> replayable c \<Longrightarrow> step s c = Inr t \<Longrightarrow> step t c = Inr t"
begin

lemma state_after_again:
  "valid s \<Longrightarrow> replayable c \<Longrightarrow>
   state_after step (state_after step s c) c = state_after step s c"
  by (cases rule: state_after_cases [of step s c])
     (auto simp: state_after_def dest: step_replay)

text \<open>A run with redelivered commands ends where the run without them ends.\<close>

lemma run_redelivered:
  "redelivered replayable cs ds \<Longrightarrow> valid s \<Longrightarrow> run_commands step s ds = run_commands step s cs"
proof (induction arbitrary: s rule: redelivered.induct)
  case none
  show ?case by simp
next
  case (deliver cs ds c)
  then show ?case by (simp add: state_after_valid)
next
  case (again c cs ds)
  then show ?case by (auto simp: state_after_again)
qed

end

end
