(* ===== verification/BriefingAtomicity.thy ===== *)
theory BriefingAtomicity
  imports Sha256 FencedProtocol
begin

text \<open>
  \<^verbatim>\<open>scripts/daily_briefing_atomicity_model.py\<close>: the state machine that delivers one daily briefing
  at most once. A run is claimed under a fence, composed, delivered under one attempt id, and
  recorded; a delivery whose outcome is unknown is \<^verbatim>\<open>ambiguous\<close> until a receipt or a proof of
  absence settles it. The dataclass \<^verbatim>\<open>DeliveryState\<close> is the record \<open>delivery_state\<close>; its
  annotated types replace the \<^verbatim>\<open>isinstance\<close> tests of \<^verbatim>\<open>validate\<close> on fields that cannot be of
  another type. \<open>apply_command\<close> is \<^verbatim>\<open>apply\<close>, one definition per command kind.
\<close>

definition MODEL_VERSION :: string where
  "MODEL_VERSION = ''daily-briefing-atomicity/v1''"

definition FIXTURE_VERSION :: string where
  "FIXTURE_VERSION = ''daily-briefing-atomicity-fixture/v1''"

definition MAX_SCENARIOS :: nat where
  "MAX_SCENARIOS = 64"

definition MAX_STEPS :: nat where
  "MAX_STEPS = 128"

definition PHASES :: "string list" where
  "PHASES = [''pending'', ''claimed'', ''composed'', ''delivery_started'', ''ambiguous'', ''delivered'']"

definition COMMAND_FIELDS :: "(string \<times> string list) list" where
  "COMMAND_FIELDS = [
    (''claim'', [''kind'', ''fence'', ''owner_digest'']),
    (''compose'', [''kind'', ''fence'', ''input_digest'', ''composition_digest'']),
    (''begin_delivery'', [''kind'', ''fence'', ''destination_digest'', ''attempt_id'']),
    (''mark_ambiguous'', [''kind'', ''fence'', ''attempt_id'']),
    (''record_receipt'', [''kind'', ''fence'', ''attempt_id'', ''receipt_digest'']),
    (''takeover'', [''kind'', ''fence'', ''owner_digest'']),
    (''prove_absent'', [''kind'', ''fence'', ''attempt_id'', ''reconciliation_digest''])]"

section \<open>The state and its validation\<close>

record delivery_state =
  model_version :: string
  run_id :: string
  input_digest :: string
  policy_digest :: string
  phase :: string
  fence :: int
  owner_digest :: "string option"
  composition_digest :: "string option"
  destination_digest :: "string option"
  attempt_id :: "string option"
  receipt_digest :: "string option"
  reconciled_attempt_id :: "string option"
  reconciliation_digest :: "string option"

definition validate_pending :: "delivery_state \<Rightarrow> unit result" where
  "validate_pending s =
     bindE (require (fence s = 0 \<and> owner_digest s = None)
       ''pending state cannot have an owner or fence'') (\<lambda>_.
     require (composition_digest s = None \<and> destination_digest s = None \<and> attempt_id s = None
         \<and> receipt_digest s = None \<and> reconciled_attempt_id s = None \<and> reconciliation_digest s = None)
       ''pending state contains delivery data'')"

definition validate_reconciliation :: "delivery_state \<Rightarrow> unit result" where
  "validate_reconciliation s =
     bindE (require ((reconciled_attempt_id s = None) = (reconciliation_digest s = None))
       ''reconciliation identity and digest must be paired'') (\<lambda>_.
     if reconciled_attempt_id s \<noteq> None then
       bindE (expect_identifier (opt_str (reconciled_attempt_id s)) ''state.reconciled_attempt_id'') (\<lambda>_.
       bindE (expect_digest (opt_str (reconciliation_digest s)) ''state.reconciliation_digest'') (\<lambda>_.
       Inr ()))
     else Inr ())"

definition validate_active :: "delivery_state \<Rightarrow> unit result" where
  "validate_active s =
     (if phase s = ''claimed'' then
        require (composition_digest s = None \<and> destination_digest s = None \<and> attempt_id s = None
            \<and> receipt_digest s = None \<and> reconciled_attempt_id s = None \<and> reconciliation_digest s = None)
          ''claimed state contains composed or delivery data''
      else
        bindE (expect_digest (opt_str (composition_digest s)) ''state.composition_digest'') (\<lambda>_.
        if phase s = ''composed'' then
          require (destination_digest s = None \<and> attempt_id s = None \<and> receipt_digest s = None)
            ''composed state contains an active delivery''
        else
          bindE (expect_digest (opt_str (destination_digest s)) ''state.destination_digest'') (\<lambda>_.
          bindE (expect_identifier (opt_str (attempt_id s)) ''state.attempt_id'') (\<lambda>_.
          if phase s = ''delivery_started'' \<or> phase s = ''ambiguous'' then
            require (receipt_digest s = None) (phase s @ '' state cannot contain a delivery receipt'')
          else if phase s = ''delivered'' then
            bindE (expect_digest (opt_str (receipt_digest s)) ''state.receipt_digest'') (\<lambda>_. Inr ())
          else Inr ()))))"

definition validate :: "delivery_state \<Rightarrow> unit result" where
  "validate s =
     bindE (require (model_version s = MODEL_VERSION) ''state model_version is unsupported'') (\<lambda>_.
     bindE (expect_identifier (JStr (run_id s)) ''state.run_id'') (\<lambda>_.
     bindE (expect_digest (JStr (input_digest s)) ''state.input_digest'') (\<lambda>_.
     bindE (expect_digest (JStr (policy_digest s)) ''state.policy_digest'') (\<lambda>_.
     bindE (require (phase s \<in> set PHASES) (''unsupported phase: '' @ phase s)) (\<lambda>_.
     if phase s = ''pending'' then validate_pending s
     else
       bindE (expect_positive (JInt (fence s)) ''state.fence'') (\<lambda>_.
       bindE (require (owner_digest s \<noteq> None) ''non-pending state must have an owner'') (\<lambda>_.
       bindE (expect_digest (opt_str (owner_digest s)) ''state.owner_digest'') (\<lambda>_.
       bindE (validate_reconciliation s) (\<lambda>_.
       validate_active s)))))))))"

definition initial :: "json \<Rightarrow> json \<Rightarrow> json \<Rightarrow> delivery_state result" where
  "initial run input policy =
     bindE (expect_identifier run ''run_id'') (\<lambda>run_id.
     bindE (expect_digest input ''input_digest'') (\<lambda>input_digest.
     bindE (expect_digest policy ''policy_digest'') (\<lambda>policy_digest.
     let s = \<lparr>model_version = MODEL_VERSION, run_id = run_id, input_digest = input_digest,
       policy_digest = policy_digest, phase = ''pending'', fence = 0, owner_digest = None,
       composition_digest = None, destination_digest = None, attempt_id = None,
       receipt_digest = None, reconciled_attempt_id = None, reconciliation_digest = None\<rparr>
     in bindE (validate s) (\<lambda>_. Inr s))))"

text \<open>\<^verbatim>\<open>asdict(state)\<close>, in field order.\<close>

definition asdict :: "delivery_state \<Rightarrow> json" where
  "asdict s = JObj [
     (''model_version'', JStr (model_version s)), (''run_id'', JStr (run_id s)),
     (''input_digest'', JStr (input_digest s)), (''policy_digest'', JStr (policy_digest s)),
     (''phase'', JStr (phase s)), (''fence'', JInt (fence s)),
     (''owner_digest'', opt_str (owner_digest s)),
     (''composition_digest'', opt_str (composition_digest s)),
     (''destination_digest'', opt_str (destination_digest s)),
     (''attempt_id'', opt_str (attempt_id s)), (''receipt_digest'', opt_str (receipt_digest s)),
     (''reconciled_attempt_id'', opt_str (reconciled_attempt_id s)),
     (''reconciliation_digest'', opt_str (reconciliation_digest s))]"

definition state_sha256 :: "delivery_state \<Rightarrow> string result" where
  "state_sha256 s = bindE (validate s) (\<lambda>_. Inr (sha256 (asdict s)))"

section \<open>Commands\<close>

text \<open>\<^verbatim>\<open>_command\<close>: the kind, the command's own key set, and its fence.\<close>

definition command_header :: "json \<Rightarrow> (pydict \<times> string \<times> int) result" where
  "command_header command = (case command of
      JObj d \<Rightarrow>
        (case dict_get d ''kind'' of
           JStr kind \<Rightarrow>
             (case map_of COMMAND_FIELDS kind of
                None \<Rightarrow> Inl (Err ''command kind is unsupported'')
              | Some keys \<Rightarrow>
                  bindE (expect_exact_keys d keys (''command.'' @ kind)) (\<lambda>_.
                  bindE (expect_positive (dict_get d ''fence'') ''fence'') (\<lambda>f. Inr (d, kind, f))))
         | _ \<Rightarrow> Inl (Err ''command kind is unsupported''))
    | _ \<Rightarrow> Inl (Err ''command must be an object''))"

definition require_fence :: "delivery_state \<Rightarrow> int \<Rightarrow> unit result" where
  "require_fence s f = require (f = fence s)
     (''stale or future fence: expected '' @ str_int (fence s) @ '', got '' @ str_int f)"

text \<open>The tail of \<^verbatim>\<open>apply\<close>: \<^verbatim>\<open>next_state.validate(); return next_state\<close>.\<close>

definition commit :: "delivery_state \<Rightarrow> delivery_state result" where
  "commit s = bindE (validate s) (\<lambda>_. Inr s)"

definition apply_claim :: "delivery_state \<Rightarrow> pydict \<Rightarrow> int \<Rightarrow> delivery_state result" where
  "apply_claim s d f =
     bindE (expect_digest (dict_get d ''owner_digest'') ''owner_digest'') (\<lambda>owner.
     if phase s = ''pending'' then
       commit (s\<lparr>phase := ''claimed'', fence := f, owner_digest := Some owner\<rparr>)
     else if f = fence s \<and> Some owner = owner_digest s then Inr s
     else Inl (Err ''run is already claimed; use takeover''))"

definition apply_takeover :: "delivery_state \<Rightarrow> pydict \<Rightarrow> int \<Rightarrow> delivery_state result" where
  "apply_takeover s d f =
     bindE (expect_digest (dict_get d ''owner_digest'') ''owner_digest'') (\<lambda>owner.
     if phase s = ''pending'' then Inl (Err ''pending run must be claimed, not taken over'')
     else if f \<le> fence s then Inl (Err ''takeover fence must be newer than current fence'')
     else commit (s\<lparr>phase := (if phase s = ''delivery_started'' then ''ambiguous'' else phase s),
       fence := f, owner_digest := Some owner\<rparr>))"

definition apply_compose :: "delivery_state \<Rightarrow> pydict \<Rightarrow> int \<Rightarrow> delivery_state result" where
  "apply_compose s d f =
     bindE (require_fence s f) (\<lambda>_.
     bindE (expect_digest (dict_get d ''input_digest'') ''input_digest'') (\<lambda>input.
     bindE (expect_digest (dict_get d ''composition_digest'') ''composition_digest'') (\<lambda>composition.
     if input \<noteq> input_digest s then Inl (Err ''composition input does not match run input'')
     else if phase s = ''claimed'' then
       commit (s\<lparr>phase := ''composed'', composition_digest := Some composition\<rparr>)
     else if phase s \<in> {''composed'', ''delivery_started'', ''ambiguous'', ''delivered''}
         \<and> composition_digest s = Some composition then Inr s
     else Inl (Err ''composition conflicts with durable state''))))"

definition apply_begin_delivery :: "delivery_state \<Rightarrow> pydict \<Rightarrow> int \<Rightarrow> delivery_state result" where
  "apply_begin_delivery s d f =
     bindE (require_fence s f) (\<lambda>_.
     bindE (expect_digest (dict_get d ''destination_digest'') ''destination_digest'') (\<lambda>destination.
     bindE (expect_identifier (dict_get d ''attempt_id'') ''attempt_id'') (\<lambda>attempt.
     if reconciled_attempt_id s = Some attempt then
       Inl (Err ''a reconciled-absent attempt ID cannot be reused'')
     else if phase s = ''composed'' then
       commit (s\<lparr>phase := ''delivery_started'', destination_digest := Some destination,
         attempt_id := Some attempt, receipt_digest := None\<rparr>)
     else if phase s \<in> {''delivery_started'', ''ambiguous'', ''delivered''}
         \<and> destination_digest s = Some destination \<and> attempt_id s = Some attempt then Inr s
     else Inl (Err ''another delivery attempt is already durable''))))"

definition apply_mark_ambiguous :: "delivery_state \<Rightarrow> pydict \<Rightarrow> int \<Rightarrow> delivery_state result" where
  "apply_mark_ambiguous s d f =
     bindE (require_fence s f) (\<lambda>_.
     bindE (expect_identifier (dict_get d ''attempt_id'') ''attempt_id'') (\<lambda>attempt.
     if attempt_id s \<noteq> Some attempt then
       Inl (Err ''ambiguous marker does not match active attempt'')
     else if phase s = ''delivery_started'' then commit (s\<lparr>phase := ''ambiguous''\<rparr>)
     else if phase s = ''ambiguous'' then Inr s
     else Inl (Err ''only an in-flight delivery can become ambiguous'')))"

definition apply_record_receipt :: "delivery_state \<Rightarrow> pydict \<Rightarrow> int \<Rightarrow> delivery_state result" where
  "apply_record_receipt s d f =
     bindE (require_fence s f) (\<lambda>_.
     bindE (expect_identifier (dict_get d ''attempt_id'') ''attempt_id'') (\<lambda>attempt.
     bindE (expect_digest (dict_get d ''receipt_digest'') ''receipt_digest'') (\<lambda>receipt.
     if attempt_id s \<noteq> Some attempt then Inl (Err ''receipt does not match active attempt'')
     else if phase s \<in> {''delivery_started'', ''ambiguous''} then
       commit (s\<lparr>phase := ''delivered'', receipt_digest := Some receipt\<rparr>)
     else if phase s = ''delivered'' \<and> receipt_digest s = Some receipt then Inr s
     else Inl (Err ''receipt conflicts with durable delivery state''))))"

definition apply_prove_absent :: "delivery_state \<Rightarrow> pydict \<Rightarrow> int \<Rightarrow> delivery_state result" where
  "apply_prove_absent s d f =
     bindE (require_fence s f) (\<lambda>_.
     bindE (expect_identifier (dict_get d ''attempt_id'') ''attempt_id'') (\<lambda>attempt.
     bindE (expect_digest (dict_get d ''reconciliation_digest'') ''reconciliation_digest'') (\<lambda>evidence.
     if phase s = ''ambiguous'' \<and> attempt_id s = Some attempt then
       commit (s\<lparr>phase := ''composed'', destination_digest := None, attempt_id := None,
         receipt_digest := None, reconciled_attempt_id := Some attempt,
         reconciliation_digest := Some evidence\<rparr>)
     else if phase s = ''composed'' \<and> reconciled_attempt_id s = Some attempt
         \<and> reconciliation_digest s = Some evidence then Inr s
     else Inl (Err ''absence proof must match the current ambiguous attempt''))))"

definition dispatch :: "string \<Rightarrow> delivery_state \<Rightarrow> pydict \<Rightarrow> int \<Rightarrow> delivery_state result" where
  "dispatch kind s d f =
     (if kind = ''claim'' then apply_claim s d f
      else if kind = ''takeover'' then apply_takeover s d f
      else if kind = ''compose'' then apply_compose s d f
      else if kind = ''begin_delivery'' then apply_begin_delivery s d f
      else if kind = ''mark_ambiguous'' then apply_mark_ambiguous s d f
      else if kind = ''record_receipt'' then apply_record_receipt s d f
      else if kind = ''prove_absent'' then apply_prove_absent s d f
      else Inl (Err (''unsupported command kind: '' @ kind)))"

definition apply_command :: "delivery_state \<Rightarrow> json \<Rightarrow> delivery_state result" where
  "apply_command s command =
     bindE (validate s) (\<lambda>_.
     bindE (command_header command) (\<lambda>(d, kind, f). dispatch kind s d f))"

section \<open>Attempts and fixtures\<close>

record attempt_result =
  ok :: bool
  changed :: bool
  state :: delivery_state
  before_sha256 :: string
  command_sha256 :: string
  after_sha256 :: string
  error :: "string option"

definition attempt :: "delivery_state \<Rightarrow> json \<Rightarrow> attempt_result result" where
  "attempt s command =
     bindE (state_sha256 s) (\<lambda>before.
     let command_digest = sha256 command in
     (case apply_command s command of
        Inl (Err message) \<Rightarrow> Inr \<lparr>ok = False, changed = False, state = s, before_sha256 = before,
          command_sha256 = command_digest, after_sha256 = before, error = Some message\<rparr>
      | Inl e \<Rightarrow> Inl e
      | Inr next_state \<Rightarrow>
          bindE (state_sha256 next_state) (\<lambda>after.
          Inr \<lparr>ok = True, changed = (after \<noteq> before), state = next_state, before_sha256 = before,
            command_sha256 = command_digest, after_sha256 = after, error = None\<rparr>)))"

definition step_receipt :: "attempt_result \<Rightarrow> json" where
  "step_receipt r = JObj [(''ok'', JBool (ok r)), (''changed'', JBool (changed r)),
     (''before_sha256'', JStr (before_sha256 r)), (''command_sha256'', JStr (command_sha256 r)),
     (''after_sha256'', JStr (after_sha256 r)), (''error'', opt_str (error r))]"

text \<open>One step of a fixture scenario: run the command and compare with what the step expects.\<close>

definition run_step ::
  "string \<Rightarrow> delivery_state \<times> json list \<Rightarrow> nat \<times> json \<Rightarrow> (delivery_state \<times> json list) result" where
  "run_step scenario_id acc indexed = (case (acc, indexed) of ((s, receipts), (i, raw)) \<Rightarrow>
     (case raw of
        JObj step \<Rightarrow>
          bindE (expect_exact_keys step [''command'', ''expect_ok'', ''expect_changed'', ''error_contains'']
            (''scenario.'' @ scenario_id @ ''.steps['' @ str_nat i @ '']'')) (\<lambda>_.
          (case dict_get step ''command'' of
             JObj command \<Rightarrow>
               bindE (attempt s (JObj command)) (\<lambda>r.
               bindE (require (dict_get step ''expect_ok'' = JBool (ok r))
                 (where_step scenario_id i @ '' ok mismatch'')) (\<lambda>_.
               bindE (require (dict_get step ''expect_changed'' = JBool (changed r))
                 (where_step scenario_id i @ '' change mismatch'')) (\<lambda>_.
               bindE (check_error scenario_id i (dict_get step ''error_contains'') (error r)) (\<lambda>_.
               Inr (state r, receipts @ [step_receipt r])))))
           | _ \<Rightarrow> Inl (Err (where_step scenario_id i @ '' command must be an object''))))
      | _ \<Rightarrow> Inl (Err (where_step scenario_id i @ '' must be an object''))))"

definition run_scenario_body :: "pydict \<Rightarrow> string \<Rightarrow> pydict \<Rightarrow> json result" where
  "run_scenario_body scenario scenario_id start =
     bindE (expect_exact_keys start [''run_id'', ''input_digest'', ''policy_digest'']
       (''scenario.'' @ scenario_id @ ''.initial'')) (\<lambda>_.
     bindE (initial (dict_get start ''run_id'') (dict_get start ''input_digest'')
       (dict_get start ''policy_digest'')) (\<lambda>s0.
     (case dict_get scenario ''steps'' of
        JArr steps \<Rightarrow>
          bindE (require (1 \<le> length steps \<and> length steps \<le> MAX_STEPS)
            (''scenario '' @ scenario_id @ '' has invalid steps'')) (\<lambda>_.
          bindE (foldE (run_step scenario_id) (s0, []) (enumerate 0 steps)) (\<lambda>(s, receipts).
          bindE (in_str_set (dict_get scenario ''expected_final_phase'') PHASES) (\<lambda>known.
          bindE (require (known \<and> dict_get scenario ''expected_final_phase'' = JStr (phase s))
            (''scenario '' @ scenario_id @ '' final phase mismatch: expected ''
              @ str_scalar (dict_get scenario ''expected_final_phase'') @ '', got '' @ phase s)) (\<lambda>_.
          bindE (state_sha256 s) (\<lambda>final.
          Inr (JObj [(''scenario_id'', JStr scenario_id), (''final_phase'', JStr (phase s)),
            (''final_state_sha256'', JStr final), (''steps'', JArr receipts)]))))))
      | _ \<Rightarrow> Inl (Err (''scenario '' @ scenario_id @ '' has invalid steps'')))))"

definition run_scenario :: "nat \<times> json \<Rightarrow> json result" where
  "run_scenario indexed = (case indexed of (i, raw) \<Rightarrow>
     (case raw of
        JObj scenario \<Rightarrow>
          bindE (expect_exact_keys scenario [''id'', ''initial'', ''steps'', ''expected_final_phase'']
            (''scenario['' @ str_nat i @ '']'')) (\<lambda>_.
          bindE (expect_identifier (dict_get scenario ''id'') (''scenario['' @ str_nat i @ ''].id'')) (\<lambda>scenario_id.
          (case dict_get scenario ''initial'' of
             JObj start \<Rightarrow> run_scenario_body scenario scenario_id start
           | _ \<Rightarrow> Inl (Err (''scenario '' @ scenario_id @ '' initial must be an object'')))))
      | _ \<Rightarrow> Inl (Err (''scenario '' @ str_nat i @ '' must be an object''))))"

definition run_fixture :: "pydict \<Rightarrow> json result" where
  "run_fixture value =
     bindE (expect_exact_keys value [''schema_version'', ''scenarios''] ''fixture'') (\<lambda>_.
     bindE (require (dict_get value ''schema_version'' = JStr FIXTURE_VERSION)
       ''fixture schema_version is unsupported'') (\<lambda>_.
     (case dict_get value ''scenarios'' of
        JArr scenarios \<Rightarrow>
          bindE (require (1 \<le> length scenarios \<and> length scenarios \<le> MAX_SCENARIOS)
            ''fixture scenarios must be a bounded non-empty array'') (\<lambda>_.
          bindE (mapE run_scenario (enumerate 0 scenarios)) (\<lambda>receipts.
          Inr (JObj [(''model_version'', JStr MODEL_VERSION),
            (''fixture_version'', JStr FIXTURE_VERSION),
            (''scenario_count'', JInt (int (length receipts))),
            (''receipt_sha256'', JStr (sha256 (JArr receipts))),
            (''scenarios'', JArr receipts)])))
      | _ \<Rightarrow> Inl (Err ''fixture scenarios must be a bounded non-empty array''))))"

section \<open>Valid states\<close>

definition valid :: "delivery_state \<Rightarrow> bool" where
  "valid s \<longleftrightarrow> validate s = Inr ()"

definition in_flight :: "delivery_state \<Rightarrow> bool" where
  "in_flight s \<longleftrightarrow> phase s \<in> {''delivery_started'', ''ambiguous'', ''delivered''}"

text \<open>What \<^verbatim>\<open>validate\<close> accepts, as one conjunction.\<close>

lemma valid_iff:
  "valid s \<longleftrightarrow>
     model_version s = MODEL_VERSION \<and> is_identifier_text (run_id s) \<and>
     is_sha256_text (input_digest s) \<and> is_sha256_text (policy_digest s) \<and> phase s \<in> set PHASES \<and>
     (if phase s = ''pending'' then
        fence s = 0 \<and> owner_digest s = None \<and> composition_digest s = None \<and>
        destination_digest s = None \<and> attempt_id s = None \<and> receipt_digest s = None \<and>
        reconciled_attempt_id s = None \<and> reconciliation_digest s = None
      else 0 < fence s \<and> (\<exists>w. owner_digest s = Some w \<and> is_sha256_text w) \<and>
        (reconciled_attempt_id s = None \<longleftrightarrow> reconciliation_digest s = None) \<and>
        (\<forall>a. reconciled_attempt_id s = Some a \<longrightarrow> is_identifier_text a) \<and>
        (\<forall>e. reconciliation_digest s = Some e \<longrightarrow> is_sha256_text e) \<and>
        (if phase s = ''claimed'' then
           composition_digest s = None \<and> destination_digest s = None \<and> attempt_id s = None \<and>
           receipt_digest s = None \<and> reconciled_attempt_id s = None
         else (\<exists>c. composition_digest s = Some c \<and> is_sha256_text c) \<and>
           (if phase s = ''composed'' then
              destination_digest s = None \<and> attempt_id s = None \<and> receipt_digest s = None
            else (\<exists>d. destination_digest s = Some d \<and> is_sha256_text d) \<and>
              (\<exists>a. attempt_id s = Some a \<and> is_identifier_text a) \<and>
              (if phase s = ''delivered'' then \<exists>r. receipt_digest s = Some r \<and> is_sha256_text r
               else receipt_digest s = None))))"
  unfolding valid_def validate_def validate_pending_def validate_reconciliation_def validate_active_def
  by (auto simp: bindE_eq_Inr_iff PHASES_def)

lemma commit_iff [simp]: "commit s = Inr t \<longleftrightarrow> t = s \<and> valid s"
  by (auto simp: commit_def bindE_eq_Inr_iff valid_def)

lemma command_header_iff:
  "command_header c = Inr (d, kind, f) \<longleftrightarrow>
     c = JObj d \<and> dict_get d ''kind'' = JStr kind \<and> dict_get d ''fence'' = JInt f \<and> 0 < f \<and>
     (\<exists>keys. map_of COMMAND_FIELDS kind = Some keys \<and> set (dict_keys d) = set keys)"
proof (cases c)
  case (JObj e)
  note obj = this
  show ?thesis
  proof (cases "dict_get e ''kind''")
    case (JStr k)
    with obj show ?thesis
      by (cases "map_of COMMAND_FIELDS k")
        (simp_all add: command_header_def bindE_eq_Inr_iff, safe, simp_all)
  qed (use obj in \<open>auto simp: command_header_def\<close>)
qed (simp_all add: command_header_def)

lemmas apply_defs =
  apply_claim_def apply_takeover_def apply_compose_def apply_begin_delivery_def
  apply_mark_ambiguous_def apply_record_receipt_def apply_prove_absent_def require_fence_def

section \<open>The abstract protocol\<close>

text \<open>
  The steps the protocol promises, without commands, parsing or error messages: one rule per kind
  of state change, its guard as premises.
\<close>

inductive advance :: "delivery_state \<Rightarrow> delivery_state \<Rightarrow> bool" where
  claim: "phase s = ''pending'' \<Longrightarrow> 0 < f \<Longrightarrow> is_sha256_text w \<Longrightarrow>
    advance s (s\<lparr>phase := ''claimed'', fence := f, owner_digest := Some w\<rparr>)"
| takeover: "phase s \<noteq> ''pending'' \<Longrightarrow> fence s < f \<Longrightarrow> is_sha256_text w \<Longrightarrow>
    advance s (s\<lparr>phase := (if phase s = ''delivery_started'' then ''ambiguous'' else phase s),
      fence := f, owner_digest := Some w\<rparr>)"
| compose: "phase s = ''claimed'' \<Longrightarrow> is_sha256_text c \<Longrightarrow>
    advance s (s\<lparr>phase := ''composed'', composition_digest := Some c\<rparr>)"
| begin_delivery: "phase s = ''composed'' \<Longrightarrow> is_sha256_text d \<Longrightarrow> is_identifier_text a \<Longrightarrow>
    reconciled_attempt_id s \<noteq> Some a \<Longrightarrow>
    advance s (s\<lparr>phase := ''delivery_started'', destination_digest := Some d,
      attempt_id := Some a, receipt_digest := None\<rparr>)"
| mark_ambiguous: "phase s = ''delivery_started'' \<Longrightarrow> advance s (s\<lparr>phase := ''ambiguous''\<rparr>)"
| record_receipt: "phase s \<in> {''delivery_started'', ''ambiguous''} \<Longrightarrow> is_sha256_text r \<Longrightarrow>
    advance s (s\<lparr>phase := ''delivered'', receipt_digest := Some r\<rparr>)"
| prove_absent: "phase s = ''ambiguous'' \<Longrightarrow> attempt_id s = Some a \<Longrightarrow> is_sha256_text e \<Longrightarrow>
    advance s (s\<lparr>phase := ''composed'', destination_digest := None, attempt_id := None,
      receipt_digest := None, reconciled_attempt_id := Some a, reconciliation_digest := Some e\<rparr>)"

lemma advance_valid: "advance s t \<Longrightarrow> valid s \<Longrightarrow> valid t"
  by (induction rule: advance.induct) (auto simp: valid_iff PHASES_def split: if_splits)

lemma advance_changes: "advance s t \<Longrightarrow> phase t \<noteq> phase s \<or> fence s < fence t"
  by (induction rule: advance.induct) auto

lemma advance_neq: "advance s t \<Longrightarrow> t \<noteq> s"
  using advance_changes by fastforce

section \<open>What a command does\<close>

definition command_kind :: "json \<Rightarrow> string" where
  "command_kind c = (case c of JObj d \<Rightarrow> (case dict_get d ''kind'' of JStr k \<Rightarrow> k | _ \<Rightarrow> []) | _ \<Rightarrow> [])"

definition command_fence :: "json \<Rightarrow> int" where
  "command_fence c = (case c of JObj d \<Rightarrow> (case dict_get d ''fence'' of JInt f \<Rightarrow> f | _ \<Rightarrow> 0) | _ \<Rightarrow> 0)"

lemma dispatchE:
  assumes "dispatch kind s d f = Inr t"
  obtains (claim) "kind = ''claim''" "apply_claim s d f = Inr t"
  | (takeover) "kind = ''takeover''" "apply_takeover s d f = Inr t"
  | (compose) "kind = ''compose''" "apply_compose s d f = Inr t"
  | (begin_delivery) "kind = ''begin_delivery''" "apply_begin_delivery s d f = Inr t"
  | (mark_ambiguous) "kind = ''mark_ambiguous''" "apply_mark_ambiguous s d f = Inr t"
  | (record_receipt) "kind = ''record_receipt''" "apply_record_receipt s d f = Inr t"
  | (prove_absent) "kind = ''prove_absent''" "apply_prove_absent s d f = Inr t"
  using assms unfolding dispatch_def by (simp split: if_splits)

lemma apply_command_iff:
  "apply_command s c = Inr t \<longleftrightarrow> valid s \<and>
     (\<exists>d. c = JObj d \<and> command_header c = Inr (d, command_kind c, command_fence c)
       \<and> dispatch (command_kind c) s d (command_fence c) = Inr t)"
  by (auto simp: apply_command_def valid_def bindE_eq_Inr_iff command_header_iff
      command_kind_def command_fence_def)

lemma apply_commandE:
  assumes "apply_command s c = Inr t"
  obtains d where "valid s" "c = JObj d" "0 < command_fence c"
    "command_header c = Inr (d, command_kind c, command_fence c)"
    "dispatch (command_kind c) s d (command_fence c) = Inr t"
  using assms unfolding apply_command_iff by (auto simp: command_header_iff)

lemma takeover_started:
  "phase s = ''delivery_started'' \<Longrightarrow> fence s < f \<Longrightarrow> is_sha256_text w \<Longrightarrow>
   advance s (s\<lparr>phase := ''ambiguous'', fence := f, owner_digest := Some w\<rparr>)"
  using advance.takeover [of s f w] by simp

lemma takeover_other:
  "phase s \<noteq> ''delivery_started'' \<Longrightarrow> phase s \<noteq> ''pending'' \<Longrightarrow> fence s < f \<Longrightarrow> is_sha256_text w \<Longrightarrow>
   advance s (s\<lparr>fence := f, owner_digest := Some w\<rparr>)"
  using advance.takeover [of s f w] by simp

lemmas advance_intros = advance.intros takeover_started takeover_other

text \<open>An accepted command either is a no-op or takes one abstract step.\<close>

lemma dispatch_advance: "dispatch kind s d f = Inr t \<Longrightarrow> 0 < f \<Longrightarrow> t = s \<or> advance s t"
  by (erule dispatchE) (auto simp: apply_defs not_le intro: advance_intros split: if_splits)

lemma apply_advance: "apply_command s c = Inr t \<Longrightarrow> t = s \<or> advance s t"
  by (auto elim!: apply_commandE dest: dispatch_advance)

lemma apply_source_valid: "apply_command s c = Inr t \<Longrightarrow> valid s"
  by (simp add: apply_command_iff)

lemma apply_target_valid: "apply_command s c = Inr t \<Longrightarrow> valid t"
  using apply_advance advance_valid apply_source_valid by blast

text \<open>The fence of an accepted command is the fence of the state it leaves behind.\<close>

lemma valid_pending_fence: "valid s \<Longrightarrow> phase s = ''pending'' \<Longrightarrow> fence s = 0"
  by (simp add: valid_iff)

lemma dispatch_fence:
  "dispatch kind s d f = Inr t \<Longrightarrow> 0 < f \<Longrightarrow> valid s \<Longrightarrow> fence t = f \<and> fence s \<le> f"
  by (erule dispatchE) (auto simp: apply_defs valid_pending_fence split: if_splits)

lemma apply_fence:
  "apply_command s c = Inr t \<Longrightarrow> fence t = command_fence c \<and> fence s \<le> fence t"
  by (auto elim!: apply_commandE dest: dispatch_fence)

text \<open>Applied to its own result, every command but \<^verbatim>\<open>takeover\<close> is a no-op.\<close>

lemma apply_claim_replay: "apply_claim s d f = Inr t \<Longrightarrow> apply_claim t d f = Inr t"
  by (auto simp: apply_claim_def split: if_splits)

lemma apply_compose_replay: "apply_compose s d f = Inr t \<Longrightarrow> apply_compose t d f = Inr t"
  by (auto simp: apply_compose_def require_fence_def split: if_splits)

lemma apply_begin_delivery_replay:
  assumes "apply_begin_delivery s d f = Inr t"
  shows "apply_begin_delivery t d f = Inr t"
proof -
  from assms obtain x a where "f = fence t"
    "dict_get d ''destination_digest'' = JStr x" "is_sha256_text x"
    "dict_get d ''attempt_id'' = JStr a" "is_identifier_text a" "reconciled_attempt_id t \<noteq> Some a"
    "phase t \<in> {''delivery_started'', ''ambiguous'', ''delivered''}"
    "destination_digest t = Some x" "attempt_id t = Some a"
    by (auto simp: apply_begin_delivery_def require_fence_def split: if_splits)
  then show ?thesis by (auto simp: apply_begin_delivery_def require_fence_def)
qed

lemma apply_mark_ambiguous_replay:
  "apply_mark_ambiguous s d f = Inr t \<Longrightarrow> apply_mark_ambiguous t d f = Inr t"
  by (auto simp: apply_mark_ambiguous_def require_fence_def split: if_splits)

lemma apply_record_receipt_replay:
  assumes "apply_record_receipt s d f = Inr t"
  shows "apply_record_receipt t d f = Inr t"
proof -
  from assms obtain a r where args: "f = fence s"
    "dict_get d ''attempt_id'' = JStr a" "is_identifier_text a"
    "dict_get d ''receipt_digest'' = JStr r" "is_sha256_text r" "attempt_id s = Some a"
    by (auto simp: apply_record_receipt_def require_fence_def split: if_split_asm)
  with assms have "t = s\<lparr>phase := ''delivered'', receipt_digest := Some r\<rparr>
      \<or> t = s \<and> phase s = ''delivered'' \<and> receipt_digest s = Some r"
    by (simp add: apply_record_receipt_def require_fence_def split: if_split_asm)
  with args show ?thesis by (elim disjE) (simp_all add: apply_record_receipt_def require_fence_def)
qed

lemma apply_prove_absent_replay:
  assumes "apply_prove_absent s d f = Inr t"
  shows "apply_prove_absent t d f = Inr t"
proof -
  from assms obtain a e where args: "f = fence s"
    "dict_get d ''attempt_id'' = JStr a" "is_identifier_text a"
    "dict_get d ''reconciliation_digest'' = JStr e" "is_sha256_text e"
    by (auto simp: apply_prove_absent_def require_fence_def split: if_split_asm)
  with assms have "fence t = fence s \<and> phase t = ''composed'' \<and> reconciled_attempt_id t = Some a
      \<and> reconciliation_digest t = Some e"
    by (simp add: apply_prove_absent_def require_fence_def split: if_split_asm)
  with args show ?thesis by (simp add: apply_prove_absent_def require_fence_def)
qed

lemmas apply_replays =
  apply_claim_replay apply_compose_replay apply_begin_delivery_replay
  apply_mark_ambiguous_replay apply_record_receipt_replay apply_prove_absent_replay

lemma dispatch_replay:
  "dispatch kind s d f = Inr t \<Longrightarrow> kind \<noteq> ''takeover'' \<Longrightarrow> dispatch kind t d f = Inr t"
  by (erule dispatchE) (simp_all add: dispatch_def apply_replays)

lemma apply_replay:
  "apply_command s c = Inr t \<Longrightarrow> command_kind c \<noteq> ''takeover'' \<Longrightarrow> apply_command t c = Inr t"
  using apply_target_valid by (auto simp: apply_command_iff dispatch_replay)



section \<open>Refinement of the abstract protocol\<close>

lemma apply_commandI:
  assumes "valid s" "dict_get d ''kind'' = JStr k" "dict_get d ''fence'' = JInt f" "0 < f"
    "map_of COMMAND_FIELDS k = Some (dict_keys d)" "dispatch k s d f = Inr t"
  shows "\<exists>c. apply_command s c = Inr t"
proof
  have "command_header (JObj d) = Inr (d, k, f)"
    using assms by (auto simp: command_header_iff)
  with assms show "apply_command s (JObj d) = Inr t"
    by (simp add: apply_command_def valid_def)
qed

lemma valid_fence_pos: "valid s \<Longrightarrow> phase s \<noteq> ''pending'' \<Longrightarrow> 0 < fence s"
  by (simp add: valid_iff)

lemma valid_input: "valid s \<Longrightarrow> is_sha256_text (input_digest s)"
  by (simp add: valid_iff)

lemma valid_attempt: "valid s \<Longrightarrow> phase s \<in> {''delivery_started'', ''ambiguous''} \<Longrightarrow>
  \<exists>a. attempt_id s = Some a \<and> is_identifier_text a"
  by (auto simp: valid_iff)

lemmas dict_eval = dict_get_def dict_keys_def COMMAND_FIELDS_def dispatch_def apply_defs

text \<open>Every abstract step is the effect of some command.\<close>

lemma advance_commanded:
  assumes "advance s t" "valid s"
  shows "\<exists>c. apply_command s c = Inr t"
proof -
  have vt: "valid t" by (rule advance_valid [OF assms])
  from assms(1) show ?thesis
  proof cases
    case (claim f w)
    show ?thesis
      by (rule apply_commandI [where d = "[(''kind'', JStr ''claim''), (''fence'', JInt f),
          (''owner_digest'', JStr w)]" and k = "''claim''" and f = f])
        (use claim vt assms(2) in \<open>simp_all add: dict_eval\<close>)
  next
    case (takeover f w)
    show ?thesis
      by (rule apply_commandI [where d = "[(''kind'', JStr ''takeover''), (''fence'', JInt f),
          (''owner_digest'', JStr w)]" and k = "''takeover''" and f = f])
        (use takeover vt assms(2) valid_fence_pos [OF assms(2)] in \<open>simp_all add: dict_eval\<close>)
  next
    case (compose c)
    show ?thesis
      by (rule apply_commandI [where d = "[(''kind'', JStr ''compose''), (''fence'', JInt (fence s)),
          (''input_digest'', JStr (input_digest s)), (''composition_digest'', JStr c)]"
          and k = "''compose''" and f = "fence s"])
        (use compose vt assms(2) valid_fence_pos [OF assms(2)] valid_input [OF assms(2)]
          in \<open>simp_all add: dict_eval\<close>)
  next
    case (begin_delivery x a)
    show ?thesis
      by (rule apply_commandI [where d = "[(''kind'', JStr ''begin_delivery''), (''fence'', JInt (fence s)),
          (''destination_digest'', JStr x), (''attempt_id'', JStr a)]"
          and k = "''begin_delivery''" and f = "fence s"])
        (use begin_delivery vt assms(2) valid_fence_pos [OF assms(2)] in \<open>simp_all add: dict_eval\<close>)
  next
    case mark_ambiguous
    with valid_attempt [OF assms(2)] obtain a where a: "attempt_id s = Some a" "is_identifier_text a"
      by auto
    show ?thesis
      by (rule apply_commandI [where d = "[(''kind'', JStr ''mark_ambiguous''), (''fence'', JInt (fence s)),
          (''attempt_id'', JStr a)]" and k = "''mark_ambiguous''" and f = "fence s"])
        (use mark_ambiguous a vt assms(2) valid_fence_pos [OF assms(2)] in \<open>simp_all add: dict_eval\<close>)
  next
    case (record_receipt r)
    with valid_attempt [OF assms(2)] obtain a where a: "attempt_id s = Some a" "is_identifier_text a"
      by auto
    from record_receipt have "phase s \<noteq> ''pending''" by auto
    then show ?thesis
      by (intro apply_commandI [where d = "[(''kind'', JStr ''record_receipt''), (''fence'', JInt (fence s)),
          (''attempt_id'', JStr a), (''receipt_digest'', JStr r)]"
          and k = "''record_receipt''" and f = "fence s"])
        (use record_receipt a vt assms(2) valid_fence_pos [OF assms(2)] in \<open>simp_all add: dict_eval\<close>)
  next
    case (prove_absent a e)
    with valid_attempt [OF assms(2)] have "is_identifier_text a" by auto
    then show ?thesis
      by (intro apply_commandI [where d = "[(''kind'', JStr ''prove_absent''), (''fence'', JInt (fence s)),
          (''attempt_id'', JStr a), (''reconciliation_digest'', JStr e)]"
          and k = "''prove_absent''" and f = "fence s"])
        (use prove_absent vt assms(2) valid_fence_pos [OF assms(2)] in \<open>simp_all add: dict_eval\<close>)
  qed
qed

section \<open>What no command undoes\<close>

definition same_run :: "delivery_state \<Rightarrow> delivery_state \<Rightarrow> bool" where
  "same_run s t \<longleftrightarrow> model_version t = model_version s \<and> run_id t = run_id s
     \<and> input_digest t = input_digest s \<and> policy_digest t = policy_digest s"

text \<open>\<open>t\<close> differs from \<open>s\<close> at most in who holds the run.\<close>

definition same_record :: "delivery_state \<Rightarrow> delivery_state \<Rightarrow> bool" where
  "same_record s t \<longleftrightarrow> t = s\<lparr>fence := fence t, owner_digest := owner_digest t\<rparr>"

definition delivery_le :: "delivery_state \<Rightarrow> delivery_state \<Rightarrow> bool" where
  "delivery_le s t \<longleftrightarrow> same_run s t \<and> fence s \<le> fence t
     \<and> (fence t = fence s \<longrightarrow> owner_digest t = owner_digest s)
     \<and> (composition_digest s \<noteq> None \<longrightarrow> composition_digest t = composition_digest s)
     \<and> (phase s = ''delivered'' \<longrightarrow> same_record s t)"

lemma same_record_phase: "same_record s t \<Longrightarrow> phase t = phase s"
  unfolding same_record_def by (erule ssubst) simp

lemma same_record_trans:
  assumes "same_record s t" "same_record t u"
  shows "same_record s u"
proof -
  have "u = s\<lparr>fence := fence t, owner_digest := owner_digest t,
      fence := fence u, owner_digest := owner_digest u\<rparr>"
    using assms unfolding same_record_def by metis
  then show ?thesis unfolding same_record_def by simp
qed

lemma delivery_le_refl: "delivery_le s s"
  by (simp add: delivery_le_def same_run_def same_record_def)

lemma delivery_le_trans:
  assumes "delivery_le s t" "delivery_le t u"
  shows "delivery_le s u"
proof -
  have "phase s = ''delivered'' \<Longrightarrow> same_record s u"
    using assms same_record_phase same_record_trans unfolding delivery_le_def by metis
  moreover have "same_run s u \<and> fence s \<le> fence u"
    using assms by (simp add: delivery_le_def same_run_def)
  moreover have "fence u = fence s \<Longrightarrow> owner_digest u = owner_digest s"
    using assms unfolding delivery_le_def by (metis order_antisym)
  moreover have "composition_digest s \<noteq> None \<Longrightarrow> composition_digest u = composition_digest s"
    using assms unfolding delivery_le_def by metis
  ultimately show ?thesis unfolding delivery_le_def by blast
qed

lemma valid_uncomposed: "valid s \<Longrightarrow> phase s \<in> {''pending'', ''claimed''} \<Longrightarrow> composition_digest s = None"
  by (auto simp: valid_iff)

lemma advance_same_record: "advance s t \<Longrightarrow> phase s = ''delivered'' \<Longrightarrow> same_record s t"
  by (induction rule: advance.induct) (auto simp: same_record_def)

lemma advance_le: "advance s t \<Longrightarrow> valid s \<Longrightarrow> delivery_le s t"
  unfolding delivery_le_def
proof (intro conjI impI)
  assume "advance s t" "valid s"
  then show "same_run s t" "fence s \<le> fence t"
    "fence t = fence s \<Longrightarrow> owner_digest t = owner_digest s"
    by (induction rule: advance.induct) (simp_all add: same_run_def valid_pending_fence)
  show "composition_digest t = composition_digest s" if "composition_digest s \<noteq> None"
    using \<open>advance s t\<close> \<open>valid s\<close> that by (induction rule: advance.induct) (simp_all add: valid_uncomposed)
  show "same_record s t" if "phase s = ''delivered''"
    using \<open>advance s t\<close> that by (rule advance_same_record)
qed

lemma apply_le: "apply_command s c = Inr t \<Longrightarrow> delivery_le s t"
  using apply_advance advance_le apply_source_valid delivery_le_refl by blast

definition replayable_command :: "json \<Rightarrow> bool" where
  "replayable_command c \<longleftrightarrow> command_kind c \<noteq> ''takeover''"

interpretation briefing: ordered_protocol valid apply_command delivery_le
  by unfold_locales (blast intro: apply_target_valid delivery_le_refl delivery_le_trans apply_le)+

interpretation briefing_replay: replayable_protocol valid apply_command replayable_command
  by unfold_locales (simp add: replayable_command_def apply_replay)

section \<open>Attempts\<close>

lemma only_Err_case_obj [only_Err_intros]:
  "(\<And>d. v = JObj d \<Longrightarrow> only_Err (f d)) \<Longrightarrow> only_Err (case v of JObj d \<Rightarrow> f d | _ \<Rightarrow> Inl (Err m))"
  by (cases v) (simp_all add: only_Err_intros)

lemma only_Err_case_str [only_Err_intros]:
  "(\<And>d. v = JStr d \<Longrightarrow> only_Err (f d)) \<Longrightarrow> only_Err (case v of JStr d \<Rightarrow> f d | _ \<Rightarrow> Inl (Err m))"
  by (cases v) (simp_all add: only_Err_intros)

lemma only_Err_validate [only_Err_intros]: "only_Err (validate s)"
  unfolding validate_def validate_pending_def validate_reconciliation_def validate_active_def
  by (intro only_Err_intros)

lemma only_Err_command_header [only_Err_intros]: "only_Err (command_header c)"
  unfolding command_header_def
  by (intro only_Err_intros) (auto simp: only_Err_intros split: option.split intro!: only_Err_intros)

lemma only_Err_dispatch [only_Err_intros]: "only_Err (dispatch k s d f)"
  unfolding dispatch_def apply_defs commit_def by (intro only_Err_intros)

lemma only_Err_apply [only_Err_intros]: "only_Err (apply_command s c)"
  unfolding apply_command_def by (intro only_Err_intros) (auto intro!: only_Err_intros split: prod.split)

lemma state_sha256_valid: "valid s \<Longrightarrow> state_sha256 s = Inr (sha256 (asdict s))"
  by (simp add: state_sha256_def valid_def)

lemma attempt_eq:
  assumes "valid s"
  shows "attempt s c = Inr (case apply_command s c of
     Inr t \<Rightarrow> \<lparr>ok = True, changed = (sha256 (asdict t) \<noteq> sha256 (asdict s)), state = t,
       before_sha256 = sha256 (asdict s), command_sha256 = sha256 c,
       after_sha256 = sha256 (asdict t), error = None\<rparr>
   | Inl e \<Rightarrow> \<lparr>ok = False, changed = False, state = s, before_sha256 = sha256 (asdict s),
       command_sha256 = sha256 c, after_sha256 = sha256 (asdict s),
       error = (case e of Err m \<Rightarrow> Some m)\<rparr>)"
  using only_Err_apply [of s c]
  by (cases rule: only_ErrE)
     (auto simp: attempt_def state_sha256_valid assms dest: apply_target_valid)

lemma attempt_state: "attempt s c = Inr r \<Longrightarrow> state r = state_after apply_command s c \<and> valid s"
proof -
  assume a: "attempt s c = Inr r"
  then have "valid s" by (auto simp: attempt_def state_sha256_def valid_def)
  with a show ?thesis
    by (cases "apply_command s c") (auto simp: attempt_eq state_after_def)
qed

section \<open>Fixtures\<close>

definition step_command :: "json \<Rightarrow> json" where
  "step_command raw = (case raw of JObj step \<Rightarrow> dict_get step ''command'' | _ \<Rightarrow> JNull)"

lemma run_step_state:
  assumes "run_step sid (s, receipts) (i, raw) = Inr (t, receipts')"
  shows "t = state_after apply_command s (step_command raw) \<and> length receipts' = Suc (length receipts)"
  using assms unfolding run_step_def
  by (cases raw; cases "dict_get (case raw of JObj d \<Rightarrow> d) ''command''")
     (auto simp: step_command_def dest: attempt_state)

lemma run_steps_state:
  "foldE (run_step sid) (s, receipts) (enumerate i steps) = Inr (t, receipts') \<Longrightarrow>
   t = run_commands apply_command s (map step_command steps)
     \<and> length receipts' = length receipts + length steps"
proof (induction steps arbitrary: s receipts i)
  case Nil
  then show ?case by simp
next
  case (Cons raw steps)
  from Cons.prems obtain s1 r1 where 1: "run_step sid (s, receipts) (i, raw) = Inr (s1, r1)"
    and 2: "foldE (run_step sid) (s1, r1) (enumerate (Suc i) steps) = Inr (t, receipts')"
    by (auto simp: bindE_eq_Inr_iff)
  with Cons.IH [OF 2] run_step_state [OF 1] show ?case by simp
qed


section \<open>Properties\<close>

definition sample_start :: delivery_state where
  "sample_start = \<lparr>model_version = MODEL_VERSION, run_id = ''run-1'', input_digest = digest_a,
     policy_digest = digest_b, phase = ''pending'', fence = 0, owner_digest = None,
     composition_digest = None, destination_digest = None, attempt_id = None,
     receipt_digest = None, reconciled_attempt_id = None, reconciliation_digest = None\<rparr>"

definition cmd_claim :: json where
  "cmd_claim = JObj [(''kind'', JStr ''claim''), (''fence'', JInt 1), (''owner_digest'', JStr digest_a)]"

definition cmd_compose :: json where
  "cmd_compose = JObj [(''kind'', JStr ''compose''), (''fence'', JInt 1),
     (''input_digest'', JStr digest_a), (''composition_digest'', JStr digest_b)]"

definition cmd_begin :: "string \<Rightarrow> json" where
  "cmd_begin a = JObj [(''kind'', JStr ''begin_delivery''), (''fence'', JInt 1),
     (''destination_digest'', JStr digest_a), (''attempt_id'', JStr a)]"

definition cmd_ambiguous :: "string \<Rightarrow> json" where
  "cmd_ambiguous a = JObj [(''kind'', JStr ''mark_ambiguous''), (''fence'', JInt 1), (''attempt_id'', JStr a)]"

definition cmd_receipt :: "string \<Rightarrow> json" where
  "cmd_receipt a = JObj [(''kind'', JStr ''record_receipt''), (''fence'', JInt 1),
     (''attempt_id'', JStr a), (''receipt_digest'', JStr digest_a)]"

definition cmd_absent :: "string \<Rightarrow> json" where
  "cmd_absent a = JObj [(''kind'', JStr ''prove_absent''), (''fence'', JInt 1),
     (''attempt_id'', JStr a), (''reconciliation_digest'', JStr digest_b)]"

lemmas cmd_defs = cmd_claim_def cmd_compose_def cmd_begin_def cmd_ambiguous_def cmd_receipt_def cmd_absent_def

text \<open>The states those commands lead through; \<open>r\<close> is the attempt reconciled last, if any.\<close>

definition sample_composed :: "string option \<Rightarrow> delivery_state" where
  "sample_composed r = sample_start\<lparr>phase := ''composed'', fence := 1, owner_digest := Some digest_a,
     composition_digest := Some digest_b, reconciled_attempt_id := r,
     reconciliation_digest := map_option (\<lambda>_. digest_b) r\<rparr>"

definition sample_sent :: "string \<Rightarrow> string option \<Rightarrow> string \<Rightarrow> delivery_state" where
  "sample_sent p r a = (sample_composed r)\<lparr>phase := p, destination_digest := Some digest_a,
     attempt_id := Some a, receipt_digest := (if p = ''delivered'' then Some digest_a else None)\<rparr>"

lemma sample_ids [simp]: "is_identifier_text ''run-1''" "is_identifier_text ''try-1''"
    "is_identifier_text ''try-2''"
  by code_simp+

lemma sample_start_valid: "valid sample_start"
  by (simp add: sample_start_def valid_iff PHASES_def)

lemma sample_composed_valid: "pred_option is_identifier_text r \<Longrightarrow> valid (sample_composed r)"
  by (cases r) (simp_all add: sample_composed_def sample_start_def valid_iff PHASES_def)

lemma sample_sent_valid:
  "pred_option is_identifier_text r \<Longrightarrow> is_identifier_text a \<Longrightarrow>
   p \<in> {''delivery_started'', ''ambiguous'', ''delivered''} \<Longrightarrow> valid (sample_sent p r a)"
  by (cases r) (auto simp: sample_sent_def sample_composed_def sample_start_def valid_iff PHASES_def)

lemma sample_initial: "initial (JStr ''run-1'') (JStr digest_a) (JStr digest_b) = Inr sample_start"
  using sample_start_valid by (simp add: initial_def sample_start_def valid_def)

lemmas sample_eval = apply_command_def command_header_def cmd_defs expect_exact_keys_def dict_eval commit_def

lemma sample_claim: "apply_command sample_start cmd_claim =
  Inr (sample_start\<lparr>phase := ''claimed'', fence := 1, owner_digest := Some digest_a\<rparr>)"
proof -
  have "valid (sample_start\<lparr>phase := ''claimed'', fence := 1, owner_digest := Some digest_a\<rparr>)"
    by (simp add: sample_start_def valid_iff PHASES_def)
  with sample_start_valid show ?thesis by (simp add: sample_eval sample_start_def valid_def)
qed

lemma sample_compose: "apply_command (sample_start\<lparr>phase := ''claimed'', fence := 1,
  owner_digest := Some digest_a\<rparr>) cmd_compose = Inr (sample_composed None)"
proof -
  have "valid (sample_start\<lparr>phase := ''claimed'', fence := 1, owner_digest := Some digest_a\<rparr>)"
    by (simp add: sample_start_def valid_iff PHASES_def)
  with sample_composed_valid [of None] show ?thesis
    by (simp add: sample_eval sample_composed_def sample_start_def valid_def)
qed

lemma sample_begin:
  assumes "pred_option is_identifier_text r" "is_identifier_text a" "r \<noteq> Some a"
  shows "apply_command (sample_composed r) (cmd_begin a) = Inr (sample_sent ''delivery_started'' r a)"
  using assms sample_composed_valid [of r] sample_sent_valid [of r a "''delivery_started''"]
  by (simp add: sample_eval sample_sent_def sample_composed_def sample_start_def valid_def)

lemma sample_ambiguous:
  assumes "pred_option is_identifier_text r" "is_identifier_text a"
  shows "apply_command (sample_sent ''delivery_started'' r a) (cmd_ambiguous a)
    = Inr (sample_sent ''ambiguous'' r a)"
  using assms sample_sent_valid [of r a "''delivery_started''"] sample_sent_valid [of r a "''ambiguous''"]
  by (simp add: sample_eval sample_sent_def sample_composed_def sample_start_def valid_def)

lemma sample_receipt:
  assumes "pred_option is_identifier_text r" "is_identifier_text a"
  shows "apply_command (sample_sent ''delivery_started'' r a) (cmd_receipt a)
    = Inr (sample_sent ''delivered'' r a)"
  using assms sample_sent_valid [of r a "''delivery_started''"] sample_sent_valid [of r a "''delivered''"]
  by (simp add: sample_eval sample_sent_def sample_composed_def sample_start_def valid_def)

lemma sample_absent:
  assumes "pred_option is_identifier_text r" "is_identifier_text a"
  shows "apply_command (sample_sent ''ambiguous'' r a) (cmd_absent a) = Inr (sample_composed (Some a))"
  using assms sample_sent_valid [of r a "''ambiguous''"] sample_composed_valid [of "Some a"]
  by (simp add: sample_eval sample_sent_def sample_composed_def sample_start_def valid_def)

lemma sample_fields [simp]: "phase (sample_sent p r a) = p" "attempt_id (sample_sent p r a) = Some a"
  "attempt_id (sample_composed r) = None" "reconciled_attempt_id (sample_composed r) = r"
  by (simp_all add: sample_sent_def sample_composed_def sample_start_def)

lemmas sample_run = state_after_def sample_claim sample_compose sample_begin sample_ambiguous
  sample_receipt sample_absent

text \<open>
  C1. The commands implement the abstract protocol exactly: from a valid state the states that some
  command changes to are the successors of the relation \<open>advance\<close>, and no others.
\<close>

theorem briefing_refines_advance:
  assumes "valid s"
  shows "(\<exists>c. apply_command s c = Inr t \<and> t \<noteq> s) \<longleftrightarrow> advance s t"
  using apply_advance advance_commanded [OF _ assms] advance_neq by blast

theorem briefing_refines_advance_witness:
  "(\<exists>c. apply_command sample_start c = Inr (sample_start\<lparr>phase := ''claimed'', fence := 3,
      owner_digest := Some digest_b\<rparr>)
    \<and> sample_start\<lparr>phase := ''claimed'', fence := 3, owner_digest := Some digest_b\<rparr> \<noteq> sample_start)"
  unfolding briefing_refines_advance [OF sample_start_valid]
  by (rule advance.claim) (simp_all add: sample_start_def)

text \<open>
  C2. Delivery happens at most once and is never forgotten: along any sequence of commands from an
  initial state, states stay valid and keep the run's identity, the composition is fixed once it is
  set, and once the run is delivered every later state has the same attempt, destination and receipt.
\<close>

theorem briefing_exactly_once:
  assumes "initial run input policy = Inr s0"
    and "s = run_commands apply_command s0 cs" and "t = run_commands apply_command s0 (cs @ ds)"
  shows "valid s \<and> same_run s0 s \<and> fence s \<le> fence t
    \<and> (composition_digest s \<noteq> None \<longrightarrow> composition_digest t = composition_digest s)
    \<and> (phase s = ''delivered'' \<longrightarrow> phase t = ''delivered'' \<and> attempt_id t = attempt_id s
         \<and> destination_digest t = destination_digest s \<and> receipt_digest t = receipt_digest s
         \<and> receipt_digest t \<noteq> None)"
proof -
  from assms(1) have v0: "valid s0" by (auto simp: initial_def valid_def Let_def)
  have v: "valid s" unfolding assms(2) by (rule briefing.run_valid [OF v0])
  have 1: "delivery_le s0 s" unfolding assms(2) by (rule briefing.run_le [OF v0])
  have 2: "delivery_le s t" unfolding assms(2,3) by (rule briefing.run_prefix_le [OF v0])
  have "phase t = ''delivered'' \<and> attempt_id t = attempt_id s
      \<and> destination_digest t = destination_digest s \<and> receipt_digest t = receipt_digest s
      \<and> receipt_digest t \<noteq> None" if d: "phase s = ''delivered''"
  proof -
    from v d have "receipt_digest s \<noteq> None" by (auto simp: valid_iff)
    moreover from 2 d have "t = s\<lparr>fence := fence t, owner_digest := owner_digest t\<rparr>"
      unfolding delivery_le_def same_record_def by blast
    then obtain f w where "t = s\<lparr>fence := f, owner_digest := w\<rparr>" by blast
    ultimately show ?thesis using d by simp
  qed
  with v 1 2 show ?thesis unfolding delivery_le_def by blast
qed

theorem briefing_exactly_once_witness:
  "phase (run_commands apply_command sample_start
     ([cmd_claim, cmd_compose, cmd_begin ''try-1'', cmd_receipt ''try-1''] @ [cmd_begin ''try-2'']))
   = ''delivered''"
  using briefing_exactly_once [OF sample_initial refl refl, of
      "[cmd_claim, cmd_compose, cmd_begin ''try-1'', cmd_receipt ''try-1'']" "[cmd_begin ''try-2'']"]
  by (simp add: sample_run)

text \<open>
  C3. Fencing: an accepted command leaves the state under its own fence, and fences never decrease,
  so a command that carries an older fence than the state is refused with an error, whatever it
  asks; an unchanged fence means an unchanged owner.
\<close>

theorem briefing_fencing:
  "(apply_command s c = Inr t \<longrightarrow> fence t = command_fence c \<and> fence s \<le> fence t
      \<and> (fence t = fence s \<longrightarrow> owner_digest t = owner_digest s))
   \<and> (command_fence c < fence s \<longrightarrow> (\<exists>message. apply_command s c = Inl (Err message)))"
proof -
  have "\<exists>message. apply_command s c = Inl (Err message)" if "command_fence c < fence s"
  proof (rule only_ErrE [OF only_Err_apply [of s c]])
    fix u assume "apply_command s c = Inr u"
    from apply_fence [OF this] that show ?thesis by simp
  qed blast
  moreover have "fence t = fence s \<longrightarrow> owner_digest t = owner_digest s" if "apply_command s c = Inr t"
    using apply_le [OF that] by (simp add: delivery_le_def)
  ultimately show ?thesis using apply_fence by blast
qed

theorem briefing_fencing_witness:
  "\<exists>message. apply_command (sample_start\<lparr>phase := ''claimed'', fence := 2,
     owner_digest := Some digest_b\<rparr>) cmd_compose = Inl (Err message)"
  using briefing_fencing [where s = "sample_start\<lparr>phase := ''claimed'', fence := 2,
     owner_digest := Some digest_b\<rparr>" and c = cmd_compose]
  by (simp add: cmd_compose_def command_fence_def dict_get_def)

text \<open>
  A delivery attempt in flight is never dropped silently: the only command that removes or
  replaces the recorded attempt is \<^verbatim>\<open>prove_absent\<close> in the \<^verbatim>\<open>ambiguous\<close> phase for that very attempt,
  and the result records the attempt as reconciled with the digest of the evidence.
\<close>

lemma briefing_attempt_retained:
  assumes "attempt_id s = Some a" and "apply_command s c = Inr t" and "attempt_id t \<noteq> Some a"
  shows "phase s = ''ambiguous'' \<and> phase t = ''composed'' \<and> attempt_id t = None
    \<and> reconciled_attempt_id t = Some a \<and> (\<exists>e. reconciliation_digest t = Some e \<and> is_sha256_text e)"
proof -
  from assms have "advance s t" using apply_advance by fastforce
  moreover have "phase s \<noteq> ''composed''"
    using apply_source_valid [OF assms(2)] assms(1) by (auto simp: valid_iff)
  ultimately show ?thesis using assms(1,3)
    by (induction rule: advance.induct) simp_all
qed

theorem briefing_attempt_retained_witness:
  "apply_command (sample_sent ''ambiguous'' None ''try-1'') (cmd_absent ''try-1'')
     = Inr (sample_composed (Some ''try-1''))
   \<and> reconciled_attempt_id (sample_composed (Some ''try-1'')) = Some ''try-1''"
  using briefing_attempt_retained [OF _ sample_absent [of None "''try-1''"], of "''try-1''"]
  by (simp add: sample_absent)

text \<open>
  Commands other than \<^verbatim>\<open>takeover\<close> may be delivered more than once: repeating any of them any
  number of times right after itself does not change where a run from a valid state ends.
\<close>

lemma briefing_redelivery:
  assumes "redelivered (\<lambda>c. command_kind c \<noteq> ''takeover'') cs ds" and "valid s"
  shows "run_commands apply_command s ds = run_commands apply_command s cs"
  using briefing_replay.run_redelivered assms unfolding replayable_command_def by blast

theorem briefing_redelivery_witness:
  "run_commands apply_command sample_start [cmd_claim, cmd_claim, cmd_compose]
   = run_commands apply_command sample_start [cmd_claim, cmd_compose]"
proof (rule briefing_redelivery [OF _ sample_start_valid])
  have "command_kind cmd_claim \<noteq> ''takeover''"
    by (simp add: cmd_claim_def command_kind_def dict_get_def)
  then show "redelivered (\<lambda>c. command_kind c \<noteq> ''takeover'') [cmd_claim, cmd_compose]
      [cmd_claim, cmd_claim, cmd_compose]"
    by (intro redelivered.intros)
qed

text \<open>
  \<^verbatim>\<open>attempt\<close> returns on every valid state and every command value, and is atomic: it holds the
  successor that \<^verbatim>\<open>apply\<close> returns, or on a refusal the old state with both digests equal, \<^verbatim>\<open>changed\<close>
  false and the message; \<^verbatim>\<open>changed\<close> is never reported for an unchanged state.
\<close>

lemma briefing_attempt_atomic:
  assumes "valid s"
  shows "\<exists>r. attempt s c = Inr r \<and> valid (state r) \<and> state r = state_after apply_command s c
    \<and> before_sha256 r = sha256 (asdict s) \<and> after_sha256 r = sha256 (asdict (state r))
    \<and> (changed r \<longrightarrow> state r \<noteq> s) \<and> (ok r \<longleftrightarrow> error r = None)
    \<and> (if ok r then apply_command s c = Inr (state r)
       else \<exists>message. apply_command s c = Inl (Err message) \<and> error r = Some message \<and> \<not> changed r)"
  using only_Err_apply [of s c]
  by (cases rule: only_ErrE)
     (auto simp: attempt_eq assms state_after_def dest: apply_target_valid)

theorem briefing_attempt_atomic_witness:
  "\<exists>r. attempt sample_start cmd_claim = Inr r \<and> valid (state r)"
  using briefing_attempt_atomic [OF sample_start_valid, of cmd_claim] by blast

text \<open>
  What a fixture scenario reports is what its commands do: when the runner accepts a scenario,
  the final phase and state digest in its receipt are those of the state that the scenario's commands
  lead to from its initial state, and there is one receipt per step.
\<close>

lemma briefing_scenario_sound:
  assumes "run_scenario_body scenario sid start = Inr receipt"
  shows "\<exists>s0 steps receipts t. initial (dict_get start ''run_id'') (dict_get start ''input_digest'')
        (dict_get start ''policy_digest'') = Inr s0
    \<and> dict_get scenario ''steps'' = JArr steps \<and> steps \<noteq> [] \<and> length steps \<le> MAX_STEPS
    \<and> t = run_commands apply_command s0 (map step_command steps)
    \<and> dict_get scenario ''expected_final_phase'' = JStr (phase t)
    \<and> receipt = JObj [(''scenario_id'', JStr sid), (''final_phase'', JStr (phase t)),
        (''final_state_sha256'', JStr (sha256 (asdict t))), (''steps'', JArr receipts)]
    \<and> length receipts = length steps"
proof -
  from assms obtain s0 steps t receipts where *: "initial (dict_get start ''run_id'')
      (dict_get start ''input_digest'') (dict_get start ''policy_digest'') = Inr s0"
    "dict_get scenario ''steps'' = JArr steps" "1 \<le> length steps" "length steps \<le> MAX_STEPS"
    and run: "foldE (run_step sid) (s0, []) (enumerate 0 steps) = Inr (t, receipts)"
    and fin: "dict_get scenario ''expected_final_phase'' = JStr (phase t)"
      "bindE (state_sha256 t) (\<lambda>final. Inr (JObj [(''scenario_id'', JStr sid),
        (''final_phase'', JStr (phase t)), (''final_state_sha256'', JStr final),
        (''steps'', JArr receipts)])) = Inr receipt"
    unfolding run_scenario_body_def
    by (cases "dict_get scenario ''steps''") (auto split: prod.splits)
  from fin(2) have "receipt = JObj [(''scenario_id'', JStr sid), (''final_phase'', JStr (phase t)),
        (''final_state_sha256'', JStr (sha256 (asdict t))), (''steps'', JArr receipts)]"
    by (auto simp: state_sha256_def)
  with * fin(1) run_steps_state [OF run] show ?thesis by auto
qed

definition sample_step :: pydict where
  "sample_step = [(''command'', cmd_compose), (''expect_ok'', JBool False),
     (''expect_changed'', JBool False), (''error_contains'', JStr ''stale or future fence'')]"

definition sample_scenario :: pydict where
  "sample_scenario = [(''id'', JStr ''compose-early''), (''steps'', JArr [JObj sample_step]),
     (''expected_final_phase'', JStr ''pending'')]"

definition sample_initial_object :: pydict where
  "sample_initial_object = [(''run_id'', JStr ''run-1''), (''input_digest'', JStr digest_a),
     (''policy_digest'', JStr digest_b)]"

lemma sample_refusal:
  "apply_command sample_start cmd_compose = Inl (Err ''stale or future fence: expected 0, got 1'')"
proof -
  have "str_int 0 = ''0''" "str_int 1 = ''1''" by code_simp+
  with sample_start_valid show ?thesis by (simp add: sample_eval sample_start_def valid_def)
qed

lemma sample_step_runs:
  "\<exists>r. run_step sid (sample_start, []) (0, JObj sample_step) = Inr (sample_start, [r])"
proof -
  have *: "contains ''stale or future fence'' ''stale or future fence: expected 0, got 1''" by code_simp
  have **: "set (dict_keys sample_step) = {''command'', ''expect_ok'', ''expect_changed'', ''error_contains''}"
    by (simp add: sample_step_def dict_keys_def)
  obtain d where d: "cmd_compose = JObj d" by (simp add: cmd_compose_def)
  show ?thesis
    using attempt_eq [OF sample_start_valid, of cmd_compose] *
    by (simp add: run_step_def ** expect_exact_keys_def)
       (simp add: sample_step_def dict_get_def d sample_refusal [unfolded d] check_error_def)
qed

theorem briefing_scenario_sound_witness:
  "\<exists>receipt t. run_scenario_body sample_scenario ''compose-early'' sample_initial_object = Inr receipt
    \<and> t = run_commands apply_command sample_start [cmd_compose] \<and> phase t = ''pending''"
proof -
  obtain r where r: "run_step ''compose-early'' (sample_start, []) (0, JObj sample_step)
      = Inr (sample_start, [r])" using sample_step_runs by blast
  have "phase sample_start = ''pending''" by (simp add: sample_start_def)
  then obtain receipt where
    body: "run_scenario_body sample_scenario ''compose-early'' sample_initial_object = Inr receipt"
    by (simp add: run_scenario_body_def sample_scenario_def sample_initial_object_def dict_get_def
        dict_keys_def expect_exact_keys_def sample_initial MAX_STEPS_def r in_str_set_def PHASES_def
        state_sha256_valid [OF sample_start_valid])
  from briefing_scenario_sound [OF body] body show ?thesis
    by (auto simp: sample_scenario_def sample_initial_object_def dict_get_def sample_initial
        step_command_def sample_step_def)
qed

text \<open>
  Only the latest reconciled attempt is remembered: after two attempts have been proved absent,
  the id of the first is accepted for a new delivery, while the id of the second is refused.
\<close>

lemma briefing_older_attempt_reusable:
  "let s = run_commands apply_command sample_start [cmd_claim, cmd_compose,
       cmd_begin ''try-1'', cmd_ambiguous ''try-1'', cmd_absent ''try-1'',
       cmd_begin ''try-2'', cmd_ambiguous ''try-2'', cmd_absent ''try-2'']
   in apply_command s (cmd_begin ''try-1'') = Inr (s\<lparr>phase := ''delivery_started'',
         destination_digest := Some digest_a, attempt_id := Some ''try-1''\<rparr>)
     \<and> apply_command s (cmd_begin ''try-2'') = Inl (Err ''a reconciled-absent attempt ID cannot be reused'')"
proof -
  have "apply_command (sample_composed (Some ''try-2'')) (cmd_begin ''try-2'')
      = Inl (Err ''a reconciled-absent attempt ID cannot be reused'')"
    using sample_composed_valid [of "Some ''try-2''"]
    by (simp add: sample_eval sample_composed_def sample_start_def valid_def)
  moreover have "sample_sent ''delivery_started'' (Some ''try-2'') ''try-1'' =
      (sample_composed (Some ''try-2''))\<lparr>phase := ''delivery_started'',
        destination_digest := Some digest_a, attempt_id := Some ''try-1''\<rparr>"
    by (simp add: sample_sent_def sample_composed_def sample_start_def)
  ultimately show ?thesis by (simp add: sample_run Let_def)
qed

end
