(* ===== verification/FabricationRecovery.thy ===== *)
theory FabricationRecovery
  imports Sha256 FencedProtocol
begin

text \<open>
  \<^verbatim>\<open>scripts/fabrication_recovery_protocol.py\<close>: the recovery oracle for a fabrication job that fenced
  workers execute and a message broker redelivers. A job is claimed under a fence and a delivery
  count, writes numbered checkpoints, and ends completed or, after a failure, in the dead-letter
  queue; the broker message is acknowledged only against the digest of the terminal record.
  \<open>job_state\<close> is the dataclass \<^verbatim>\<open>JobState\<close>, \<open>apply_command\<close> the function \<^verbatim>\<open>apply\<close>.
\<close>

definition MODEL_VERSION :: string where
  "MODEL_VERSION = ''fabrication-recovery-protocol/v1''"

definition FIXTURE_VERSION :: string where
  "FIXTURE_VERSION = ''fabrication-recovery-fixture/v1''"

definition MAX_SCENARIOS :: nat where
  "MAX_SCENARIOS = 64"

definition MAX_STEPS :: nat where
  "MAX_STEPS = 160"

definition PHASES :: "string list" where
  "PHASES = [''queued'', ''running'', ''failed'', ''completed'', ''dead-lettered'']"

definition COMMAND_FIELDS :: "(string \<times> string list) list" where
  "COMMAND_FIELDS = [
    (''claim'', [''kind'', ''fence'', ''worker_digest'', ''delivery_count'']),
    (''checkpoint'', [''kind'', ''fence'', ''worker_digest'', ''sequence'', ''checkpoint_digest'',
       ''provider_task_digest'', ''artifact_ref_digest'']),
    (''complete'', [''kind'', ''fence'', ''worker_digest'', ''final_artifact_digest'']),
    (''fail'', [''kind'', ''fence'', ''worker_digest'', ''failure_code'', ''retryable'']),
    (''dead_letter'', [''kind'', ''fence'', ''worker_digest'', ''dlq_digest'']),
    (''ack'', [''kind'', ''terminal_digest''])]"

section \<open>Checked scalars\<close>

definition optional_digest :: "json \<Rightarrow> string \<Rightarrow> string option result" where
  "optional_digest v field =
     (if v = JNull then Inr None else bindE (expect_digest v field) (\<lambda>d. Inr (Some d)))"

definition expect_nonnegative :: "json \<Rightarrow> string \<Rightarrow> int result" where
  "expect_nonnegative v field = (case v of
      JInt i \<Rightarrow> if 0 \<le> i then Inr i else Inl (Err (field @ '' must be a non-negative integer''))
    | _ \<Rightarrow> Inl (Err (field @ '' must be a non-negative integer'')))"

definition expect_failure_code :: "json \<Rightarrow> string \<Rightarrow> string result" where
  "expect_failure_code v field = (case v of
      JStr s \<Rightarrow> if is_failure_text s then Inr s else Inl (Err (field @ '' has an invalid failure code''))
    | _ \<Rightarrow> Inl (Err (field @ '' has an invalid failure code'')))"

lemma optional_digest_iff [simp]:
  "optional_digest v field = Inr r \<longleftrightarrow> v = opt_str r \<and> pred_option is_sha256_text r"
  by (cases r) (auto simp: optional_digest_def opt_str_def bindE_eq_Inr_iff)

lemma expect_nonnegative_iff [simp]:
  "expect_nonnegative v field = Inr i \<longleftrightarrow> v = JInt i \<and> 0 \<le> i"
  by (auto simp: expect_nonnegative_def split: json.splits)

lemma expect_failure_code_iff [simp]:
  "expect_failure_code v field = Inr s \<longleftrightarrow> v = JStr s \<and> is_failure_text s"
  by (auto simp: expect_failure_code_def split: json.splits)

lemma only_Err_expect_job [only_Err_intros]:
  "only_Err (optional_digest v field)" "only_Err (expect_nonnegative v field)"
  "only_Err (expect_failure_code v field)"
  unfolding optional_digest_def
  by (intro only_Err_intros)
     (auto simp: only_Err_def expect_nonnegative_def expect_failure_code_def split: json.splits)

section \<open>The state and its validation\<close>

record job_state =
  model_version :: string
  job_id :: string
  message_id :: string
  max_deliveries :: int
  phase :: string
  fence :: int
  worker_digest :: "string option"
  delivery_count :: int
  checkpoint_sequence :: int
  checkpoint_digest :: "string option"
  provider_task_digest :: "string option"
  artifact_ref_digest :: "string option"
  final_artifact_digest :: "string option"
  failure_code :: "string option"
  retryable :: "bool option"
  dlq_digest :: "string option"
  acked :: bool

definition validate_checkpoint :: "job_state \<Rightarrow> unit result" where
  "validate_checkpoint s =
     (if checkpoint_sequence s = 0 then
        require (checkpoint_digest s = None \<and> provider_task_digest s = None \<and> artifact_ref_digest s = None)
          ''checkpoint metadata requires a positive checkpoint sequence''
      else
        bindE (expect_digest (opt_str (checkpoint_digest s)) ''state.checkpoint_digest'') (\<lambda>_.
        bindE (optional_digest (opt_str (provider_task_digest s)) ''state.provider_task_digest'') (\<lambda>_.
        bindE (optional_digest (opt_str (artifact_ref_digest s)) ''state.artifact_ref_digest'') (\<lambda>_.
        Inr ()))))"

definition validate_queued :: "job_state \<Rightarrow> unit result" where
  "validate_queued s =
     bindE (require (fence s = 0 \<and> worker_digest s = None) ''queued state cannot have an active lease'') (\<lambda>_.
     bindE (require (delivery_count s = 0) ''initial queued state must have zero deliveries'') (\<lambda>_.
     require (final_artifact_digest s = None \<and> failure_code s = None \<and> retryable s = None
         \<and> dlq_digest s = None \<and> \<not> acked s) ''queued state contains terminal metadata''))"

definition validate_leased :: "job_state \<Rightarrow> unit result" where
  "validate_leased s =
     (if phase s = ''running'' then
        require (final_artifact_digest s = None \<and> failure_code s = None \<and> retryable s = None
          \<and> dlq_digest s = None \<and> \<not> acked s) ''running state contains terminal metadata''
      else if phase s = ''failed'' then
        bindE (expect_failure_code (opt_str (failure_code s)) ''state.failure_code'') (\<lambda>_.
        bindE (require (retryable s \<noteq> None) ''failed state requires retryable boolean'') (\<lambda>_.
        bindE (require (final_artifact_digest s = None \<and> dlq_digest s = None)
          ''failed state contains incompatible terminal data'') (\<lambda>_.
        require (\<not> acked s) ''failed state cannot be broker-acked'')))
      else if phase s = ''completed'' then
        bindE (expect_digest (opt_str (final_artifact_digest s)) ''state.final_artifact_digest'') (\<lambda>_.
        require (failure_code s = None \<and> retryable s = None \<and> dlq_digest s = None)
          ''completed state contains failure or DLQ data'')
      else if phase s = ''dead-lettered'' then
        bindE (expect_failure_code (opt_str (failure_code s)) ''state.failure_code'') (\<lambda>_.
        bindE (require (retryable s \<noteq> None) ''dead-lettered state requires original retryable boolean'') (\<lambda>_.
        bindE (expect_digest (opt_str (dlq_digest s)) ''state.dlq_digest'') (\<lambda>_.
        require (final_artifact_digest s = None) ''dead-lettered state contains final artifact'')))
      else Inr ())"

definition validate :: "job_state \<Rightarrow> unit result" where
  "validate s =
     bindE (require (model_version s = MODEL_VERSION) ''state model_version is unsupported'') (\<lambda>_.
     bindE (expect_identifier (JStr (job_id s)) ''state.job_id'') (\<lambda>_.
     bindE (expect_identifier (JStr (message_id s)) ''state.message_id'') (\<lambda>_.
     bindE (expect_positive (JInt (max_deliveries s)) ''state.max_deliveries'') (\<lambda>_.
     bindE (require (phase s \<in> set PHASES) (''unsupported state phase: '' @ phase s)) (\<lambda>_.
     bindE (expect_nonnegative (JInt (fence s)) ''state.fence'') (\<lambda>_.
     bindE (expect_nonnegative (JInt (delivery_count s)) ''state.delivery_count'') (\<lambda>_.
     bindE (expect_nonnegative (JInt (checkpoint_sequence s)) ''state.checkpoint_sequence'') (\<lambda>_.
     bindE (require (delivery_count s \<le> max_deliveries s)
       ''state delivery_count exceeds max_deliveries'') (\<lambda>_.
     bindE (validate_checkpoint s) (\<lambda>_.
     if phase s = ''queued'' then validate_queued s
     else
       bindE (expect_positive (JInt (fence s)) ''state.fence'') (\<lambda>_.
       bindE (expect_positive (JInt (delivery_count s)) ''state.delivery_count'') (\<lambda>_.
       bindE (expect_digest (opt_str (worker_digest s)) ''state.worker_digest'') (\<lambda>_.
       validate_leased s)))))))))))))"

definition initial :: "json \<Rightarrow> json \<Rightarrow> json \<Rightarrow> job_state result" where
  "initial job message deliveries =
     bindE (expect_identifier job ''job_id'') (\<lambda>job_id.
     bindE (expect_identifier message ''message_id'') (\<lambda>message_id.
     bindE (expect_positive deliveries ''max_deliveries'') (\<lambda>max_deliveries.
     let s = \<lparr>model_version = MODEL_VERSION, job_id = job_id, message_id = message_id,
       max_deliveries = max_deliveries, phase = ''queued'', fence = 0, worker_digest = None,
       delivery_count = 0, checkpoint_sequence = 0, checkpoint_digest = None,
       provider_task_digest = None, artifact_ref_digest = None, final_artifact_digest = None,
       failure_code = None, retryable = None, dlq_digest = None, acked = False\<rparr>
     in bindE (validate s) (\<lambda>_. Inr s))))"

definition terminal_record :: "job_state \<Rightarrow> json" where
  "terminal_record s = JObj [
     (''model_version'', JStr (model_version s)), (''job_id'', JStr (job_id s)),
     (''message_id'', JStr (message_id s)), (''phase'', JStr (phase s)), (''fence'', JInt (fence s)),
     (''delivery_count'', JInt (delivery_count s)),
     (''checkpoint_sequence'', JInt (checkpoint_sequence s)),
     (''checkpoint_digest'', opt_str (checkpoint_digest s)),
     (''provider_task_digest'', opt_str (provider_task_digest s)),
     (''artifact_ref_digest'', opt_str (artifact_ref_digest s)),
     (''final_artifact_digest'', opt_str (final_artifact_digest s)),
     (''failure_code'', opt_str (failure_code s)), (''retryable'', opt_bool (retryable s)),
     (''dlq_digest'', opt_str (dlq_digest s))]"

definition terminal_digest :: "job_state \<Rightarrow> string result" where
  "terminal_digest s =
     bindE (validate s) (\<lambda>_.
     bindE (require (phase s \<in> {''completed'', ''dead-lettered''})
       ''terminal digest requires committed terminal state'') (\<lambda>_.
     Inr (sha256 (terminal_record s))))"

definition asdict :: "job_state \<Rightarrow> json" where
  "asdict s = JObj [
     (''model_version'', JStr (model_version s)), (''job_id'', JStr (job_id s)),
     (''message_id'', JStr (message_id s)), (''max_deliveries'', JInt (max_deliveries s)),
     (''phase'', JStr (phase s)), (''fence'', JInt (fence s)),
     (''worker_digest'', opt_str (worker_digest s)),
     (''delivery_count'', JInt (delivery_count s)),
     (''checkpoint_sequence'', JInt (checkpoint_sequence s)),
     (''checkpoint_digest'', opt_str (checkpoint_digest s)),
     (''provider_task_digest'', opt_str (provider_task_digest s)),
     (''artifact_ref_digest'', opt_str (artifact_ref_digest s)),
     (''final_artifact_digest'', opt_str (final_artifact_digest s)),
     (''failure_code'', opt_str (failure_code s)), (''retryable'', opt_bool (retryable s)),
     (''dlq_digest'', opt_str (dlq_digest s)), (''acked'', JBool (acked s))]"

definition state_sha256 :: "job_state \<Rightarrow> string result" where
  "state_sha256 s = bindE (validate s) (\<lambda>_. Inr (sha256 (asdict s)))"

section \<open>Commands\<close>

definition parse_command :: "json \<Rightarrow> (pydict \<times> string) result" where
  "parse_command command = (case command of
      JObj d \<Rightarrow>
        (case dict_get d ''kind'' of
           JStr kind \<Rightarrow>
             (case map_of COMMAND_FIELDS kind of
                None \<Rightarrow> Inl (Err ''command kind is unsupported'')
              | Some keys \<Rightarrow>
                  bindE (expect_exact_keys d keys (''command.'' @ kind)) (\<lambda>_. Inr (d, kind)))
         | _ \<Rightarrow> Inl (Err ''command kind is unsupported''))
    | _ \<Rightarrow> Inl (Err ''command must be an object''))"

definition require_owner :: "job_state \<Rightarrow> json \<Rightarrow> json \<Rightarrow> (int \<times> string) result" where
  "require_owner s f w =
     bindE (expect_positive f ''fence'') (\<lambda>parsed_fence.
     bindE (expect_digest w ''worker_digest'') (\<lambda>parsed_worker.
     if phase s = ''queued'' then Inl (Err ''queued job has no active owner'')
     else if parsed_fence \<noteq> fence s \<or> Some parsed_worker \<noteq> worker_digest s then
       Inl (Err ''stale or non-owning worker mutation'')
     else Inr (parsed_fence, parsed_worker)))"

text \<open>The tail of \<^verbatim>\<open>apply\<close>: \<^verbatim>\<open>next_state.validate(); return next_state\<close>.\<close>

definition commit :: "job_state \<Rightarrow> job_state result" where
  "commit s = bindE (validate s) (\<lambda>_. Inr s)"

definition apply_claim :: "job_state \<Rightarrow> pydict \<Rightarrow> job_state result" where
  "apply_claim s d =
     bindE (expect_positive (dict_get d ''fence'') ''fence'') (\<lambda>f.
     bindE (expect_digest (dict_get d ''worker_digest'') ''worker_digest'') (\<lambda>worker.
     bindE (expect_positive (dict_get d ''delivery_count'') ''delivery_count'') (\<lambda>delivery.
     if delivery > max_deliveries s then Inl (Err ''delivery_count exceeds max_deliveries'')
     else if phase s = ''queued'' then
       (if f \<le> fence s \<or> delivery \<le> delivery_count s then
          Inl (Err ''initial claim must advance fence and delivery'')
        else commit (s\<lparr>phase := ''running'', fence := f, worker_digest := Some worker,
               delivery_count := delivery\<rparr>))
     else if phase s = ''running'' \<and> f = fence s \<and> Some worker = worker_digest s
         \<and> delivery = delivery_count s then Inr s
     else if phase s = ''running'' then
       (if f \<le> fence s \<or> delivery \<le> delivery_count s then
          Inl (Err ''takeover must advance both fence and delivery_count'')
        else commit (s\<lparr>fence := f, worker_digest := Some worker, delivery_count := delivery\<rparr>))
     else if phase s = ''failed'' then
       (if retryable s \<noteq> Some True then Inl (Err ''non-retryable failure cannot be reclaimed'')
        else if f \<le> fence s \<or> delivery \<le> delivery_count s then
          Inl (Err ''retry claim must advance both fence and delivery_count'')
        else commit (s\<lparr>phase := ''running'', fence := f, worker_digest := Some worker,
               delivery_count := delivery, failure_code := None, retryable := None\<rparr>))
     else Inl (Err ''terminal job cannot be reclaimed for execution''))))"

definition apply_checkpoint :: "job_state \<Rightarrow> pydict \<Rightarrow> job_state result" where
  "apply_checkpoint s d =
     bindE (require_owner s (dict_get d ''fence'') (dict_get d ''worker_digest'')) (\<lambda>(f, worker).
     if phase s \<noteq> ''running'' then Inl (Err ''checkpoint requires running state'')
     else
       bindE (expect_positive (dict_get d ''sequence'') ''sequence'') (\<lambda>sequence.
       bindE (expect_digest (dict_get d ''checkpoint_digest'') ''checkpoint_digest'') (\<lambda>checkpoint.
       bindE (optional_digest (dict_get d ''provider_task_digest'') ''provider_task_digest'') (\<lambda>provider.
       bindE (optional_digest (dict_get d ''artifact_ref_digest'') ''artifact_ref_digest'') (\<lambda>artifact_ref.
       if sequence = checkpoint_sequence s then
         (if Some checkpoint = checkpoint_digest s \<and> provider = provider_task_digest s
              \<and> artifact_ref = artifact_ref_digest s then Inr s
          else Inl (Err ''checkpoint sequence conflicts with durable data''))
       else if sequence \<le> checkpoint_sequence s then Inl (Err ''checkpoint sequence is stale'')
       else if sequence \<noteq> checkpoint_sequence s + 1 then
         Inl (Err ''checkpoint sequence must advance by exactly one'')
       else commit (s\<lparr>fence := f, worker_digest := Some worker, checkpoint_sequence := sequence,
              checkpoint_digest := Some checkpoint, provider_task_digest := provider,
              artifact_ref_digest := artifact_ref\<rparr>))))))"

definition apply_complete :: "job_state \<Rightarrow> pydict \<Rightarrow> job_state result" where
  "apply_complete s d =
     bindE (require_owner s (dict_get d ''fence'') (dict_get d ''worker_digest'')) (\<lambda>(f, worker).
     bindE (expect_digest (dict_get d ''final_artifact_digest'') ''final_artifact_digest'') (\<lambda>artifact.
     if phase s = ''completed'' \<and> final_artifact_digest s = Some artifact \<and> f = fence s
         \<and> Some worker = worker_digest s then Inr s
     else if phase s \<noteq> ''running'' then Inl (Err ''completion requires running state'')
     else if checkpoint_sequence s = 0 then
       Inl (Err ''completion requires at least one durable checkpoint'')
     else commit (s\<lparr>phase := ''completed'', final_artifact_digest := Some artifact\<rparr>)))"

definition apply_fail :: "job_state \<Rightarrow> pydict \<Rightarrow> job_state result" where
  "apply_fail s d =
     bindE (require_owner s (dict_get d ''fence'') (dict_get d ''worker_digest'')) (\<lambda>(f, worker).
     bindE (expect_failure_code (dict_get d ''failure_code'') ''failure_code'') (\<lambda>failure.
     (case dict_get d ''retryable'' of
        JBool again \<Rightarrow>
          if phase s = ''failed'' \<and> failure_code s = Some failure \<and> retryable s = Some again
              \<and> f = fence s \<and> Some worker = worker_digest s then Inr s
          else if phase s \<noteq> ''running'' then Inl (Err ''failure recording requires running state'')
          else commit (s\<lparr>phase := ''failed'', failure_code := Some failure, retryable := Some again\<rparr>)
      | _ \<Rightarrow> Inl (Err ''retryable must be boolean''))))"

definition apply_dead_letter :: "job_state \<Rightarrow> pydict \<Rightarrow> job_state result" where
  "apply_dead_letter s d =
     bindE (require_owner s (dict_get d ''fence'') (dict_get d ''worker_digest'')) (\<lambda>(f, worker).
     bindE (expect_digest (dict_get d ''dlq_digest'') ''dlq_digest'') (\<lambda>dlq.
     if phase s = ''dead-lettered'' \<and> dlq_digest s = Some dlq \<and> f = fence s
         \<and> Some worker = worker_digest s then Inr s
     else if phase s \<noteq> ''failed'' then Inl (Err ''dead-lettering requires committed failure state'')
     else if retryable s = Some True \<and> delivery_count s < max_deliveries s then
       Inl (Err ''retryable failure cannot enter DLQ before max deliveries'')
     else commit (s\<lparr>phase := ''dead-lettered'', dlq_digest := Some dlq\<rparr>)))"

definition apply_ack :: "job_state \<Rightarrow> pydict \<Rightarrow> job_state result" where
  "apply_ack s d =
     bindE (expect_digest (dict_get d ''terminal_digest'') ''terminal_digest'') (\<lambda>expected.
     bindE (terminal_digest s) (\<lambda>actual.
     if expected \<noteq> actual then Inl (Err ''broker ACK does not match committed terminal state'')
     else if acked s then Inr s
     else commit (s\<lparr>acked := True\<rparr>)))"

definition dispatch :: "string \<Rightarrow> job_state \<Rightarrow> pydict \<Rightarrow> job_state result" where
  "dispatch kind s d =
     (if kind = ''claim'' then apply_claim s d
      else if kind = ''checkpoint'' then apply_checkpoint s d
      else if kind = ''complete'' then apply_complete s d
      else if kind = ''fail'' then apply_fail s d
      else if kind = ''dead_letter'' then apply_dead_letter s d
      else if kind = ''ack'' then apply_ack s d
      else Inl (Err (''unsupported command kind: '' @ kind)))"

definition apply_command :: "job_state \<Rightarrow> json \<Rightarrow> job_state result" where
  "apply_command s command =
     bindE (validate s) (\<lambda>_.
     bindE (parse_command command) (\<lambda>(d, kind). dispatch kind s d))"

section \<open>Attempts and fixtures\<close>

record attempt_result =
  ok :: bool
  changed :: bool
  state :: job_state
  before_sha256 :: string
  command_sha256 :: string
  after_sha256 :: string
  terminal :: "string option"
  error :: "string option"

text \<open>\<^verbatim>\<open>state.terminal_digest() if state.phase in {...} else None\<close>.\<close>

definition terminal_or_none :: "job_state \<Rightarrow> string option result" where
  "terminal_or_none s =
     (if phase s \<in> {''completed'', ''dead-lettered''} then bindE (terminal_digest s) (\<lambda>d. Inr (Some d))
      else Inr None)"

definition attempt :: "job_state \<Rightarrow> json \<Rightarrow> attempt_result result" where
  "attempt s command =
     bindE (state_sha256 s) (\<lambda>before.
     let command_digest = sha256 command in
     (case apply_command s command of
        Inl (Err message) \<Rightarrow> Inr \<lparr>ok = False, changed = False, state = s, before_sha256 = before,
          command_sha256 = command_digest, after_sha256 = before, terminal = None,
          error = Some message\<rparr>
      | Inl e \<Rightarrow> Inl e
      | Inr next_state \<Rightarrow>
          bindE (state_sha256 next_state) (\<lambda>after.
          bindE (terminal_or_none next_state) (\<lambda>digest.
          Inr \<lparr>ok = True, changed = (after \<noteq> before), state = next_state, before_sha256 = before,
            command_sha256 = command_digest, after_sha256 = after, terminal = digest,
            error = None\<rparr>))))"

definition step_receipt :: "attempt_result \<Rightarrow> json" where
  "step_receipt r = JObj [(''ok'', JBool (ok r)), (''changed'', JBool (changed r)),
     (''before_sha256'', JStr (before_sha256 r)), (''command_sha256'', JStr (command_sha256 r)),
     (''after_sha256'', JStr (after_sha256 r)), (''terminal_digest'', opt_str (terminal r)),
     (''error'', opt_str (error r))]"

text \<open>
  The command a fixture step runs: with \<^verbatim>\<open>terminal_digest_from_state\<close> the runner puts the digest of
  the current terminal record into an ACK.
\<close>

definition fixture_command :: "job_state \<Rightarrow> pydict \<Rightarrow> json \<Rightarrow> json result" where
  "fixture_command s command use_terminal = (case use_terminal of
      JBool True \<Rightarrow>
        bindE (require (dict_get command ''kind'' = JStr ''ack'')
          ''terminal_digest_from_state is valid only for ACK commands'') (\<lambda>_.
        bindE (terminal_digest s) (\<lambda>digest.
        Inr (JObj (dict_set command ''terminal_digest'' (JStr digest)))))
    | JBool False \<Rightarrow> Inr (JObj command)
    | _ \<Rightarrow> Inl (Err ''terminal_digest_from_state must be boolean''))"

definition run_step ::
  "string \<Rightarrow> job_state \<times> json list \<Rightarrow> nat \<times> json \<Rightarrow> (job_state \<times> json list) result" where
  "run_step scenario_id acc indexed = (case (acc, indexed) of ((s, receipts), (i, raw)) \<Rightarrow>
     (case raw of
        JObj step \<Rightarrow>
          bindE (expect_exact_keys step [''command'', ''terminal_digest_from_state'', ''expect_ok'',
            ''expect_changed'', ''error_contains'']
            (''scenario.'' @ scenario_id @ ''.steps['' @ str_nat i @ '']'')) (\<lambda>_.
          (case dict_get step ''command'' of
             JObj command \<Rightarrow>
               bindE (fixture_command s command (dict_get step ''terminal_digest_from_state'')) (\<lambda>issued.
               bindE (attempt s issued) (\<lambda>r.
               bindE (require (dict_get step ''expect_ok'' = JBool (ok r))
                 (where_step scenario_id i @ '' ok mismatch'')) (\<lambda>_.
               bindE (require (dict_get step ''expect_changed'' = JBool (changed r))
                 (where_step scenario_id i @ '' change mismatch'')) (\<lambda>_.
               bindE (check_error scenario_id i (dict_get step ''error_contains'') (error r)) (\<lambda>_.
               Inr (state r, receipts @ [step_receipt r]))))))
           | _ \<Rightarrow> Inl (Err (where_step scenario_id i @ '' command must be an object''))))
      | _ \<Rightarrow> Inl (Err (where_step scenario_id i @ '' must be an object''))))"

definition check_final :: "pydict \<Rightarrow> string \<Rightarrow> job_state \<Rightarrow> unit result" where
  "check_final scenario scenario_id s =
     bindE (in_str_set (dict_get scenario ''expected_final_phase'') PHASES) (\<lambda>known.
     bindE (require (known \<and> dict_get scenario ''expected_final_phase'' = JStr (phase s))
       (''scenario '' @ scenario_id @ '' final phase mismatch: expected ''
         @ str_scalar (dict_get scenario ''expected_final_phase'') @ '', got '' @ phase s)) (\<lambda>_.
     require (dict_get scenario ''expected_acked'' = JBool (acked s))
       (''scenario '' @ scenario_id @ '' final ACK state mismatch'')))"

definition run_scenario_body :: "pydict \<Rightarrow> string \<Rightarrow> pydict \<Rightarrow> json result" where
  "run_scenario_body scenario scenario_id start =
     bindE (expect_exact_keys start [''job_id'', ''message_id'', ''max_deliveries'']
       (''scenario.'' @ scenario_id @ ''.initial'')) (\<lambda>_.
     bindE (initial (dict_get start ''job_id'') (dict_get start ''message_id'')
       (dict_get start ''max_deliveries'')) (\<lambda>s0.
     (case dict_get scenario ''steps'' of
        JArr steps \<Rightarrow>
          bindE (require (1 \<le> length steps \<and> length steps \<le> MAX_STEPS)
            (''scenario '' @ scenario_id @ '' has invalid steps'')) (\<lambda>_.
          bindE (foldE (run_step scenario_id) (s0, []) (enumerate 0 steps)) (\<lambda>(s, receipts).
          bindE (check_final scenario scenario_id s) (\<lambda>_.
          bindE (state_sha256 s) (\<lambda>final.
          bindE (terminal_or_none s) (\<lambda>digest.
          Inr (JObj [(''scenario_id'', JStr scenario_id), (''final_phase'', JStr (phase s)),
            (''final_acked'', JBool (acked s)), (''final_state_sha256'', JStr final),
            (''terminal_digest'', opt_str digest), (''steps'', JArr receipts)]))))))
      | _ \<Rightarrow> Inl (Err (''scenario '' @ scenario_id @ '' has invalid steps'')))))"

definition run_scenario :: "nat \<times> json \<Rightarrow> json result" where
  "run_scenario indexed = (case indexed of (i, raw) \<Rightarrow>
     (case raw of
        JObj scenario \<Rightarrow>
          bindE (expect_exact_keys scenario
            [''id'', ''initial'', ''steps'', ''expected_final_phase'', ''expected_acked'']
            (''scenario['' @ str_nat i @ '']'')) (\<lambda>_.
          bindE (expect_identifier (dict_get scenario ''id'') (''scenario['' @ str_nat i @ ''].id'')) (\<lambda>scenario_id.
          (case dict_get scenario ''initial'' of
             JObj start \<Rightarrow> run_scenario_body scenario scenario_id start
           | _ \<Rightarrow> Inl (Err (''scenario '' @ scenario_id @ '' initial must be an object'')))))
      | _ \<Rightarrow> Inl (Err (''scenario '' @ str_nat i @ '' must be an object''))))"

definition run_fixture :: "pydict \<Rightarrow> json result" where
  "run_fixture value =
     bindE (expect_exact_keys value [''schema_version'', ''scenarios''] ''fixture'') (\<lambda>_.
     bindE (require (dict_get value ''schema_version'' = JStr FIXTURE_VERSION)
       ''fixture schema_version is unsupported'') (\<lambda>_.
     (case dict_get value ''scenarios'' of
        JArr scenarios \<Rightarrow>
          bindE (require (1 \<le> length scenarios \<and> length scenarios \<le> MAX_SCENARIOS)
            ''fixture scenarios must be a bounded non-empty array'') (\<lambda>_.
          bindE (mapE run_scenario (enumerate 0 scenarios)) (\<lambda>receipts.
          Inr (JObj [(''model_version'', JStr MODEL_VERSION),
            (''fixture_version'', JStr FIXTURE_VERSION),
            (''scenario_count'', JInt (int (length receipts))),
            (''receipt_sha256'', JStr (sha256 (JArr receipts))),
            (''scenarios'', JArr receipts)])))
      | _ \<Rightarrow> Inl (Err ''fixture scenarios must be a bounded non-empty array''))))"

section \<open>Valid states\<close>

definition valid :: "job_state \<Rightarrow> bool" where
  "valid s \<longleftrightarrow> validate s = Inr ()"

definition terminal_phase :: "job_state \<Rightarrow> bool" where
  "terminal_phase s \<longleftrightarrow> phase s \<in> {''completed'', ''dead-lettered''}"

definition clean :: "job_state \<Rightarrow> bool" where
  "clean s \<longleftrightarrow> final_artifact_digest s = None \<and> failure_code s = None \<and> retryable s = None
     \<and> dlq_digest s = None \<and> \<not> acked s"

definition base_ok :: "job_state \<Rightarrow> bool" where
  "base_ok s \<longleftrightarrow> model_version s = MODEL_VERSION \<and> is_identifier_text (job_id s)
     \<and> is_identifier_text (message_id s) \<and> 0 < max_deliveries s \<and> delivery_count s \<le> max_deliveries s
     \<and> 0 \<le> checkpoint_sequence s
     \<and> (if checkpoint_sequence s = 0
         then checkpoint_digest s = None \<and> provider_task_digest s = None \<and> artifact_ref_digest s = None
         else (\<exists>c. checkpoint_digest s = Some c \<and> is_sha256_text c)
           \<and> pred_option is_sha256_text (provider_task_digest s)
           \<and> pred_option is_sha256_text (artifact_ref_digest s))"

definition lease_ok :: "job_state \<Rightarrow> bool" where
  "lease_ok s \<longleftrightarrow> 0 < fence s \<and> 0 < delivery_count s \<and> (\<exists>w. worker_digest s = Some w \<and> is_sha256_text w)"

definition failure_ok :: "job_state \<Rightarrow> bool" where
  "failure_ok s \<longleftrightarrow> (\<exists>c. failure_code s = Some c \<and> is_failure_text c) \<and> retryable s \<noteq> None
     \<and> final_artifact_digest s = None"

lemmas shape_defs = base_ok_def lease_ok_def clean_def failure_ok_def

lemmas validate_defs = valid_def validate_def validate_queued_def validate_leased_def validate_checkpoint_def

text \<open>What \<^verbatim>\<open>validate\<close> accepts in each phase.\<close>

lemma valid_queued: "phase s = ''queued'' \<Longrightarrow>
  valid s \<longleftrightarrow> base_ok s \<and> fence s = 0 \<and> worker_digest s = None \<and> delivery_count s = 0 \<and> clean s"
  by (simp add: validate_defs shape_defs bindE_eq_Inr_iff PHASES_def) auto

lemma valid_running: "phase s = ''running'' \<Longrightarrow> valid s \<longleftrightarrow> base_ok s \<and> lease_ok s \<and> clean s"
  by (simp add: validate_defs shape_defs bindE_eq_Inr_iff PHASES_def) auto

lemma valid_failed: "phase s = ''failed'' \<Longrightarrow>
  valid s \<longleftrightarrow> base_ok s \<and> lease_ok s \<and> failure_ok s \<and> dlq_digest s = None \<and> \<not> acked s"
  by (simp add: validate_defs shape_defs bindE_eq_Inr_iff PHASES_def) auto

lemma valid_completed: "phase s = ''completed'' \<Longrightarrow>
  valid s \<longleftrightarrow> base_ok s \<and> lease_ok s \<and> (\<exists>a. final_artifact_digest s = Some a \<and> is_sha256_text a)
    \<and> failure_code s = None \<and> retryable s = None \<and> dlq_digest s = None"
  by (simp add: validate_defs shape_defs bindE_eq_Inr_iff PHASES_def) auto

lemma valid_dead_lettered: "phase s = ''dead-lettered'' \<Longrightarrow>
  valid s \<longleftrightarrow> base_ok s \<and> lease_ok s \<and> failure_ok s \<and> (\<exists>q. dlq_digest s = Some q \<and> is_sha256_text q)"
  by (simp add: validate_defs shape_defs bindE_eq_Inr_iff PHASES_def) auto

lemmas valid_by_phase = valid_queued valid_running valid_failed valid_completed valid_dead_lettered

lemma valid_phase:
  assumes "valid s"
  obtains "phase s = ''queued''" | "phase s = ''running''" | "phase s = ''failed''"
  | "phase s = ''completed''" | "phase s = ''dead-lettered''"
proof -
  have "phase s \<in> set PHASES" using assms by (simp add: valid_def validate_def bindE_eq_Inr_iff)
  then show ?thesis using that unfolding PHASES_def by auto
qed

lemma valid_lease: "valid s \<Longrightarrow> phase s \<noteq> ''queued'' \<Longrightarrow> lease_ok s"
  by (rule valid_phase [of s]) (simp_all add: valid_by_phase)

lemma job_commit_iff [simp]: "commit s = Inr t \<longleftrightarrow> t = s \<and> valid s"
  by (auto simp: commit_def bindE_eq_Inr_iff valid_def)

lemma require_owner_iff [simp]:
  "require_owner s f w = Inr r \<longleftrightarrow> phase s \<noteq> ''queued'' \<and> f = JInt (fence s) \<and> 0 < fence s
     \<and> (\<exists>x. worker_digest s = Some x \<and> w = JStr x \<and> is_sha256_text x \<and> r = (fence s, x))"
  by (auto simp: require_owner_def bindE_eq_Inr_iff split: if_splits)

lemma require_owner_ok [simp]:
  "phase s \<noteq> ''queued'' \<Longrightarrow> f = fence s \<Longrightarrow> 0 < f \<Longrightarrow> worker_digest s = Some w \<Longrightarrow> is_sha256_text w \<Longrightarrow>
   require_owner s (JInt f) (JStr w) = Inr (f, w)"
  by simp

lemma checked_ok [simp]:
  "pred_option is_sha256_text r \<Longrightarrow> optional_digest (opt_str r) field = Inr r"
  "is_failure_text e \<Longrightarrow> expect_failure_code (JStr e) field = Inr e"
  by simp_all

lemma terminal_digest_iff [simp]:
  "terminal_digest s = Inr d \<longleftrightarrow> valid s \<and> terminal_phase s \<and> d = sha256 (terminal_record s)"
  by (auto simp: terminal_digest_def bindE_eq_Inr_iff valid_def terminal_phase_def)

lemma terminal_digest_ok [simp]:
  "valid s \<Longrightarrow> terminal_phase s \<Longrightarrow> terminal_digest s = Inr (sha256 (terminal_record s))"
  by simp

lemma parse_command_iff:
  "parse_command c = Inr (d, kind) \<longleftrightarrow> c = JObj d \<and> dict_get d ''kind'' = JStr kind
     \<and> (\<exists>keys. map_of COMMAND_FIELDS kind = Some keys \<and> set (dict_keys d) = set keys)"
proof (cases c)
  case (JObj e)
  note obj = this
  show ?thesis
  proof (cases "dict_get e ''kind''")
    case (JStr k)
    with obj show ?thesis
      by (cases "map_of COMMAND_FIELDS k")
        (simp_all add: parse_command_def bindE_eq_Inr_iff, safe, simp_all)
  qed (use obj in \<open>auto simp: parse_command_def\<close>)
qed (simp_all add: parse_command_def)

section \<open>The abstract protocol\<close>

text \<open>The changes a job can undergo, one rule each, with its guard as premises.\<close>

inductive job_step :: "job_state \<Rightarrow> job_state \<Rightarrow> bool" where
  claim: "phase s = ''queued'' \<Longrightarrow> 0 < f \<Longrightarrow> 0 < n \<Longrightarrow> n \<le> max_deliveries s \<Longrightarrow> is_sha256_text w \<Longrightarrow>
    job_step s (s\<lparr>phase := ''running'', fence := f, worker_digest := Some w, delivery_count := n\<rparr>)"
| takeover: "phase s = ''running'' \<Longrightarrow> fence s < f \<Longrightarrow> delivery_count s < n \<Longrightarrow> n \<le> max_deliveries s \<Longrightarrow>
    is_sha256_text w \<Longrightarrow>
    job_step s (s\<lparr>fence := f, worker_digest := Some w, delivery_count := n\<rparr>)"
| retry: "phase s = ''failed'' \<Longrightarrow> retryable s = Some True \<Longrightarrow> fence s < f \<Longrightarrow> delivery_count s < n \<Longrightarrow>
    n \<le> max_deliveries s \<Longrightarrow> is_sha256_text w \<Longrightarrow>
    job_step s (s\<lparr>phase := ''running'', fence := f, worker_digest := Some w, delivery_count := n,
      failure_code := None, retryable := None\<rparr>)"
| checkpoint: "phase s = ''running'' \<Longrightarrow> is_sha256_text c \<Longrightarrow> pred_option is_sha256_text p \<Longrightarrow>
    pred_option is_sha256_text r \<Longrightarrow>
    job_step s (s\<lparr>checkpoint_sequence := checkpoint_sequence s + 1, checkpoint_digest := Some c,
      provider_task_digest := p, artifact_ref_digest := r\<rparr>)"
| complete: "phase s = ''running'' \<Longrightarrow> checkpoint_sequence s \<noteq> 0 \<Longrightarrow> is_sha256_text a \<Longrightarrow>
    job_step s (s\<lparr>phase := ''completed'', final_artifact_digest := Some a\<rparr>)"
| fail: "phase s = ''running'' \<Longrightarrow> is_failure_text e \<Longrightarrow>
    job_step s (s\<lparr>phase := ''failed'', failure_code := Some e, retryable := Some again\<rparr>)"
| dead_letter: "phase s = ''failed'' \<Longrightarrow> retryable s = Some True \<longrightarrow> max_deliveries s \<le> delivery_count s \<Longrightarrow>
    is_sha256_text q \<Longrightarrow> job_step s (s\<lparr>phase := ''dead-lettered'', dlq_digest := Some q\<rparr>)"
| ack: "terminal_phase s \<Longrightarrow> \<not> acked s \<Longrightarrow> job_step s (s\<lparr>acked := True\<rparr>)"

lemma job_step_valid: "job_step s t \<Longrightarrow> valid s \<Longrightarrow> valid t"
proof (induction rule: job_step.induct)
  case (ack s)
  then show ?case unfolding terminal_phase_def by (elim insertE emptyE) (simp_all add: valid_by_phase shape_defs)
qed (auto simp: valid_by_phase shape_defs)

lemma job_step_neq: "job_step s t \<Longrightarrow> t \<noteq> s"
proof -
  assume "job_step s t"
  then have "phase t \<noteq> phase s \<or> fence t \<noteq> fence s \<or> checkpoint_sequence t \<noteq> checkpoint_sequence s
      \<or> acked t \<noteq> acked s"
    by (induction rule: job_step.induct) simp_all
  then show ?thesis by auto
qed

section \<open>What a command does\<close>

definition command_kind :: "json \<Rightarrow> string" where
  "command_kind c = (case c of JObj d \<Rightarrow> (case dict_get d ''kind'' of JStr k \<Rightarrow> k | _ \<Rightarrow> []) | _ \<Rightarrow> [])"

lemma job_dispatchE:
  assumes "dispatch kind s d = Inr t"
  obtains (claim) "kind = ''claim''" "apply_claim s d = Inr t"
  | (checkpoint) "kind = ''checkpoint''" "apply_checkpoint s d = Inr t"
  | (complete) "kind = ''complete''" "apply_complete s d = Inr t"
  | (fail) "kind = ''fail''" "apply_fail s d = Inr t"
  | (dead_letter) "kind = ''dead_letter''" "apply_dead_letter s d = Inr t"
  | (ack) "kind = ''ack''" "apply_ack s d = Inr t"
  using assms unfolding dispatch_def by (simp split: if_splits)

lemma job_apply_command_iff:
  "apply_command s c = Inr t \<longleftrightarrow> valid s \<and>
     (\<exists>d. c = JObj d \<and> parse_command c = Inr (d, command_kind c) \<and> dispatch (command_kind c) s d = Inr t)"
  by (auto simp: apply_command_def valid_def bindE_eq_Inr_iff parse_command_iff command_kind_def)

lemma job_apply_commandE:
  assumes "apply_command s c = Inr t"
  obtains d where "valid s" "c = JObj d" "parse_command c = Inr (d, command_kind c)"
    "dispatch (command_kind c) s d = Inr t"
  using assms unfolding job_apply_command_iff by blast

lemma same_worker: "worker_digest s = Some w \<Longrightarrow> s\<lparr>worker_digest := Some w\<rparr> = s"
  by (cases s) simp

lemma apply_claim_step: "apply_claim s d = Inr t \<Longrightarrow> valid s \<Longrightarrow> t = s \<or> job_step s t"
  by (auto simp: apply_claim_def not_le not_less valid_queued intro: job_step.intros split: if_split_asm)

lemma apply_checkpoint_step: "apply_checkpoint s d = Inr t \<Longrightarrow> t = s \<or> job_step s t"
  by (auto simp: apply_checkpoint_def same_worker intro!: job_step.checkpoint split: if_split_asm)

lemma apply_complete_step: "apply_complete s d = Inr t \<Longrightarrow> t = s \<or> job_step s t"
  by (auto simp: apply_complete_def intro!: job_step.complete split: if_split_asm)

lemma apply_failE:
  assumes "apply_fail s d = Inr t"
  obtains w e again where "phase s \<noteq> ''queued''" "dict_get d ''fence'' = JInt (fence s)" "0 < fence s"
    "worker_digest s = Some w" "dict_get d ''worker_digest'' = JStr w" "is_sha256_text w"
    "dict_get d ''failure_code'' = JStr e" "is_failure_text e" "dict_get d ''retryable'' = JBool again"
    "phase s = ''failed'' \<and> failure_code s = Some e \<and> retryable s = Some again \<and> t = s
      \<or> phase s = ''running'' \<and> t = s\<lparr>phase := ''failed'', failure_code := Some e, retryable := Some again\<rparr>
          \<and> valid t"
  using assms by (auto simp: apply_fail_def split: if_split_asm json.splits)

lemma apply_fail_step: "apply_fail s d = Inr t \<Longrightarrow> t = s \<or> job_step s t"
  by (elim apply_failE) (auto intro: job_step.fail)

lemma apply_dead_letter_step: "apply_dead_letter s d = Inr t \<Longrightarrow> t = s \<or> job_step s t"
  by (auto simp: apply_dead_letter_def not_less intro: job_step.dead_letter split: if_split_asm)

lemma apply_ackE:
  assumes "apply_ack s d = Inr t"
  obtains "dict_get d ''terminal_digest'' = JStr (sha256 (terminal_record s))" "valid s" "terminal_phase s"
    "t = s \<and> acked s \<or> t = s\<lparr>acked := True\<rparr> \<and> valid t \<and> \<not> acked s"
proof -
  from assms obtain x y where x: "dict_get d ''terminal_digest'' = JStr x" and y: "terminal_digest s = Inr y"
    and t: "(if x \<noteq> y then Inl (Err ''broker ACK does not match committed terminal state'')
      else if acked s then Inr s else commit (s\<lparr>acked := True\<rparr>)) = Inr t"
    unfolding apply_ack_def expect_digest_iff by (elim bindE_InrE) auto
  from t have xy: "x = y" by (cases "x = y") simp_all
  from t xy have "t = s \<and> acked s \<or> t = s\<lparr>acked := True\<rparr> \<and> valid t \<and> \<not> acked s"
    by (cases "acked s") simp_all
  with x y xy that show ?thesis unfolding terminal_digest_iff by blast
qed

lemma apply_ack_step: "apply_ack s d = Inr t \<Longrightarrow> t = s \<or> job_step s t"
  by (erule apply_ackE) (blast intro: job_step.ack)

lemmas apply_steps = apply_claim_step apply_checkpoint_step apply_complete_step apply_fail_step
  apply_dead_letter_step apply_ack_step

lemma apply_job_step: "apply_command s c = Inr t \<Longrightarrow> t = s \<or> job_step s t"
  by (elim job_apply_commandE job_dispatchE) (simp_all add: apply_steps)

lemma job_apply_source_valid: "apply_command s c = Inr t \<Longrightarrow> valid s"
  by (simp add: job_apply_command_iff)

lemma job_apply_target_valid: "apply_command s c = Inr t \<Longrightarrow> valid t"
  using apply_job_step job_step_valid job_apply_source_valid by blast

text \<open>Applied to its own result, every command is a no-op.\<close>

lemma job_apply_claim_replay:
  assumes "apply_claim s d = Inr t"
  shows "apply_claim t d = Inr t"
proof -
  from assms obtain f w n where args: "dict_get d ''fence'' = JInt f" "0 < f"
    "dict_get d ''worker_digest'' = JStr w" "is_sha256_text w"
    "dict_get d ''delivery_count'' = JInt n" "0 < n" "n \<le> max_deliveries s"
    by (auto simp: apply_claim_def split: if_split_asm)
  with assms have "phase t = ''running'' \<and> fence t = f \<and> worker_digest t = Some w \<and> delivery_count t = n
      \<and> max_deliveries t = max_deliveries s"
    by (simp add: apply_claim_def split: if_split_asm)
  with args show ?thesis by (simp add: apply_claim_def)
qed

lemma apply_checkpoint_replay:
  assumes "apply_checkpoint s d = Inr t"
  shows "apply_checkpoint t d = Inr t"
proof -
  from assms obtain w n c p r where args: "phase s = ''running''" "dict_get d ''fence'' = JInt (fence s)"
    "0 < fence s" "worker_digest s = Some w" "dict_get d ''worker_digest'' = JStr w" "is_sha256_text w"
    "dict_get d ''sequence'' = JInt n" "0 < n"
    "dict_get d ''checkpoint_digest'' = JStr c" "is_sha256_text c"
    "dict_get d ''provider_task_digest'' = opt_str p" "pred_option is_sha256_text p"
    "dict_get d ''artifact_ref_digest'' = opt_str r" "pred_option is_sha256_text r"
    by (auto simp: apply_checkpoint_def split: if_split_asm)
  from assms args have t: "phase t = ''running'' \<and> fence t = fence s \<and> worker_digest t = Some w
      \<and> checkpoint_sequence t = n \<and> checkpoint_digest t = Some c \<and> provider_task_digest t = p
      \<and> artifact_ref_digest t = r"
    by (simp add: apply_checkpoint_def split: if_split_asm)
  with t args show ?thesis by (simp add: apply_checkpoint_def)
qed

lemma apply_complete_replay:
  assumes "apply_complete s d = Inr t"
  shows "apply_complete t d = Inr t"
proof -
  from assms obtain w a where args: "dict_get d ''fence'' = JInt (fence s)"
    "0 < fence s" "worker_digest s = Some w" "dict_get d ''worker_digest'' = JStr w" "is_sha256_text w"
    "dict_get d ''final_artifact_digest'' = JStr a" "is_sha256_text a" "phase s \<noteq> ''queued''"
    by (auto simp: apply_complete_def split: if_split_asm)
  from assms args have t: "phase t = ''completed'' \<and> fence t = fence s \<and> worker_digest t = Some w
      \<and> final_artifact_digest t = Some a"
    by (simp add: apply_complete_def split: if_split_asm)
  with t args show ?thesis by (simp add: apply_complete_def)
qed

lemma apply_fail_replay:
  assumes "apply_fail s d = Inr t"
  shows "apply_fail t d = Inr t"
  using assms
proof (rule apply_failE)
  fix w e again
  assume args: "phase s \<noteq> ''queued''" "dict_get d ''fence'' = JInt (fence s)" "0 < fence s"
    "worker_digest s = Some w" "dict_get d ''worker_digest'' = JStr w" "is_sha256_text w"
    "dict_get d ''failure_code'' = JStr e" "is_failure_text e" "dict_get d ''retryable'' = JBool again"
    and "phase s = ''failed'' \<and> failure_code s = Some e \<and> retryable s = Some again \<and> t = s
      \<or> phase s = ''running'' \<and> t = s\<lparr>phase := ''failed'', failure_code := Some e, retryable := Some again\<rparr>
          \<and> valid t"
  then have t: "phase t = ''failed''" "failure_code t = Some e" "retryable t = Some again"
    "fence t = fence s" "worker_digest t = worker_digest s" by auto
  with t args show ?thesis by (simp add: apply_fail_def)
qed

lemma apply_dead_letter_replay:
  assumes "apply_dead_letter s d = Inr t"
  shows "apply_dead_letter t d = Inr t"
proof -
  from assms obtain w q where args: "dict_get d ''fence'' = JInt (fence s)"
    "0 < fence s" "worker_digest s = Some w" "dict_get d ''worker_digest'' = JStr w" "is_sha256_text w"
    "dict_get d ''dlq_digest'' = JStr q" "is_sha256_text q" "phase s \<noteq> ''queued''"
    by (auto simp: apply_dead_letter_def split: if_split_asm)
  from assms args have t: "phase t = ''dead-lettered'' \<and> fence t = fence s \<and> worker_digest t = Some w
      \<and> dlq_digest t = Some q"
    by (simp add: apply_dead_letter_def split: if_split_asm)
  with t args show ?thesis by (simp add: apply_dead_letter_def)
qed

lemma terminal_record_acked [simp]: "terminal_record (s\<lparr>acked := b\<rparr>) = terminal_record s"
  by (simp add: terminal_record_def)

lemma apply_ack_replay:
  assumes "apply_ack s d = Inr t"
  shows "apply_ack t d = Inr t"
  using assms
proof (rule apply_ackE)
  assume d: "dict_get d ''terminal_digest'' = JStr (sha256 (terminal_record s))" "valid s" "terminal_phase s"
    "t = s \<and> acked s \<or> t = s\<lparr>acked := True\<rparr> \<and> valid t \<and> \<not> acked s"
  then have "valid t" "terminal_phase t" "terminal_record t = terminal_record s" "acked t"
    by (auto simp: terminal_phase_def)
  with d show ?thesis by (simp add: apply_ack_def)
qed

lemmas apply_replays = job_apply_claim_replay apply_checkpoint_replay apply_complete_replay
  apply_fail_replay apply_dead_letter_replay apply_ack_replay

lemma job_apply_replay: "apply_command s c = Inr t \<Longrightarrow> apply_command t c = Inr t"
proof -
  assume a: "apply_command s c = Inr t"
  have "dispatch k s d = Inr t \<Longrightarrow> dispatch k t d = Inr t" for k d
    by (erule job_dispatchE) (simp_all add: dispatch_def apply_replays)
  with a job_apply_target_valid [OF a] show ?thesis by (auto simp: job_apply_command_iff)
qed

section \<open>Refinement of the abstract protocol\<close>

lemma job_apply_commandI:
  assumes "valid s" "dict_get d ''kind'' = JStr k" "map_of COMMAND_FIELDS k = Some (dict_keys d)"
    "dispatch k s d = Inr t"
  shows "\<exists>c. apply_command s c = Inr t"
proof
  have "parse_command (JObj d) = Inr (d, k)" using assms by (auto simp: parse_command_iff)
  with assms show "apply_command s (JObj d) = Inr t" by (simp add: apply_command_def valid_def)
qed

lemmas command_eval = dict_get_def dict_keys_def COMMAND_FIELDS_def dispatch_def

lemma commit_valid [simp]: "valid s \<Longrightarrow> commit s = Inr s"
  by simp

text \<open>Every abstract step is the effect of some command.\<close>

lemma job_step_commanded:
  assumes "job_step s t" "valid s"
  shows "\<exists>c. apply_command s c = Inr t"
proof -
  have vt: "valid t" by (rule job_step_valid [OF assms])
  have q: "fence s = 0" "delivery_count s = 0" if "phase s = ''queued''"
    using that assms(2) by (simp_all add: valid_queued)
  have lease: "0 < fence s \<and> 0 < delivery_count s \<and> (\<exists>w. worker_digest s = Some w \<and> is_sha256_text w)"
    if "phase s \<noteq> ''queued''"
    using valid_lease [OF assms(2) that] by (simp add: lease_ok_def)
  from assms(1) show ?thesis
  proof cases
    case (claim f n w)
    show ?thesis
      by (rule job_apply_commandI [where d = "[(''kind'', JStr ''claim''), (''fence'', JInt f),
          (''worker_digest'', JStr w), (''delivery_count'', JInt n)]" and k = "''claim''"])
        (use claim vt assms(2) q in \<open>simp_all add: command_eval apply_claim_def\<close>)
  next
    case (takeover f n w)
    show ?thesis
      by (rule job_apply_commandI [where d = "[(''kind'', JStr ''claim''), (''fence'', JInt f),
          (''worker_digest'', JStr w), (''delivery_count'', JInt n)]" and k = "''claim''"])
        (use takeover vt assms(2) lease in \<open>simp_all add: command_eval apply_claim_def\<close>)
  next
    case (retry f n w)
    show ?thesis
      by (rule job_apply_commandI [where d = "[(''kind'', JStr ''claim''), (''fence'', JInt f),
          (''worker_digest'', JStr w), (''delivery_count'', JInt n)]" and k = "''claim''"])
        (use retry vt assms(2) lease in \<open>simp_all add: command_eval apply_claim_def\<close>)
  next
    case (checkpoint c p r)
    with lease obtain w where w: "0 < fence s" "worker_digest s = Some w" "is_sha256_text w" by auto
    have "0 \<le> checkpoint_sequence s"
      using assms(2) checkpoint by (simp add: valid_running base_ok_def)
    then show ?thesis
      by (intro job_apply_commandI [where d = "[(''kind'', JStr ''checkpoint''), (''fence'', JInt (fence s)),
          (''worker_digest'', JStr w), (''sequence'', JInt (checkpoint_sequence s + 1)),
          (''checkpoint_digest'', JStr c), (''provider_task_digest'', opt_str p),
          (''artifact_ref_digest'', opt_str r)]" and k = "''checkpoint''"])
        (use checkpoint w vt assms(2) in \<open>simp_all add: command_eval apply_checkpoint_def same_worker\<close>)
  next
    case (complete a)
    with lease obtain w where w: "0 < fence s" "worker_digest s = Some w" "is_sha256_text w" by auto
    show ?thesis
      by (rule job_apply_commandI [where d = "[(''kind'', JStr ''complete''), (''fence'', JInt (fence s)),
          (''worker_digest'', JStr w), (''final_artifact_digest'', JStr a)]" and k = "''complete''"])
        (use complete w vt assms(2) in \<open>simp_all add: command_eval apply_complete_def\<close>)
  next
    case (fail e again)
    with lease obtain w where w: "0 < fence s" "worker_digest s = Some w" "is_sha256_text w" by auto
    show ?thesis
      by (rule job_apply_commandI [where d = "[(''kind'', JStr ''fail''), (''fence'', JInt (fence s)),
          (''worker_digest'', JStr w), (''failure_code'', JStr e), (''retryable'', JBool again)]"
          and k = "''fail''"])
        (use fail w vt assms(2) in \<open>simp_all add: command_eval apply_fail_def\<close>)
  next
    case (dead_letter q)
    with lease obtain w where w: "0 < fence s" "worker_digest s = Some w" "is_sha256_text w" by auto
    show ?thesis
      by (rule job_apply_commandI [where d = "[(''kind'', JStr ''dead_letter''), (''fence'', JInt (fence s)),
          (''worker_digest'', JStr w), (''dlq_digest'', JStr q)]" and k = "''dead_letter''"])
        (use dead_letter w vt assms(2) in \<open>simp_all add: command_eval apply_dead_letter_def not_less\<close>)
  next
    case ack
    show ?thesis
      by (rule job_apply_commandI [where d = "[(''kind'', JStr ''ack''),
          (''terminal_digest'', JStr (sha256 (terminal_record s)))]" and k = "''ack''"])
        (use ack vt assms(2) in \<open>simp_all add: command_eval apply_ack_def\<close>)
  qed
qed

section \<open>What no command undoes\<close>

definition same_job :: "job_state \<Rightarrow> job_state \<Rightarrow> bool" where
  "same_job s t \<longleftrightarrow> model_version t = model_version s \<and> job_id t = job_id s
     \<and> message_id t = message_id s \<and> max_deliveries t = max_deliveries s"

definition same_checkpoint :: "job_state \<Rightarrow> job_state \<Rightarrow> bool" where
  "same_checkpoint s t \<longleftrightarrow> checkpoint_digest t = checkpoint_digest s
     \<and> provider_task_digest t = provider_task_digest s \<and> artifact_ref_digest t = artifact_ref_digest s"

definition same_outcome :: "job_state \<Rightarrow> job_state \<Rightarrow> bool" where
  "same_outcome s t \<longleftrightarrow> t = s\<lparr>acked := acked t\<rparr>"

definition job_le :: "job_state \<Rightarrow> job_state \<Rightarrow> bool" where
  "job_le s t \<longleftrightarrow> same_job s t
     \<and> (if fence t = fence s then delivery_count t = delivery_count s \<and> worker_digest t = worker_digest s
        else fence s < fence t \<and> delivery_count s < delivery_count t)
     \<and> (if checkpoint_sequence t = checkpoint_sequence s then same_checkpoint s t
        else checkpoint_sequence s < checkpoint_sequence t)
     \<and> (terminal_phase s \<longrightarrow> same_outcome s t) \<and> (acked s \<longrightarrow> acked t)"

lemma same_outcome_phase: "same_outcome s t \<Longrightarrow> terminal_phase t = terminal_phase s"
  unfolding same_outcome_def terminal_phase_def by (erule ssubst) simp

lemma same_outcome_trans: "same_outcome s t \<Longrightarrow> same_outcome t u \<Longrightarrow> same_outcome s u"
proof -
  assume "same_outcome s t" "same_outcome t u"
  then have "u = s\<lparr>acked := acked t, acked := acked u\<rparr>" unfolding same_outcome_def by metis
  then show ?thesis unfolding same_outcome_def by simp
qed

lemma job_le_refl: "job_le s s"
  by (simp add: job_le_def same_job_def same_checkpoint_def same_outcome_def)

lemma job_le_trans:
  assumes "job_le s t" "job_le t u"
  shows "job_le s u"
proof -
  have "terminal_phase s \<Longrightarrow> same_outcome s u"
    using assms same_outcome_phase same_outcome_trans unfolding job_le_def by metis
  moreover have "same_job s u" "acked s \<longrightarrow> acked u"
    using assms by (simp_all add: job_le_def same_job_def)
  moreover have "if fence u = fence s
      then delivery_count u = delivery_count s \<and> worker_digest u = worker_digest s
      else fence s < fence u \<and> delivery_count s < delivery_count u"
    using assms by (auto simp: job_le_def split: if_split_asm)
  moreover have "if checkpoint_sequence u = checkpoint_sequence s then same_checkpoint s u
      else checkpoint_sequence s < checkpoint_sequence u"
    using assms by (auto simp: job_le_def same_checkpoint_def split: if_split_asm)
  ultimately show ?thesis unfolding job_le_def by blast
qed

lemma queued_unleased: "valid s \<Longrightarrow> phase s = ''queued'' \<Longrightarrow> fence s = 0 \<and> delivery_count s = 0"
  by (simp add: valid_queued)

lemma job_step_le: "job_step s t \<Longrightarrow> valid s \<Longrightarrow> job_le s t"
  by (induction rule: job_step.induct)
     (simp_all add: job_le_def same_job_def same_checkpoint_def same_outcome_def terminal_phase_def
        queued_unleased)

lemma job_apply_le: "apply_command s c = Inr t \<Longrightarrow> job_le s t"
  using apply_job_step job_step_le job_apply_source_valid job_le_refl by blast

interpretation job: ordered_protocol valid apply_command job_le
  by unfold_locales (blast intro: job_apply_target_valid job_le_refl job_le_trans job_apply_le)+

interpretation job_replay: replayable_protocol valid apply_command "\<lambda>_. True"
  by unfold_locales (simp add: job_apply_replay)

text \<open>What holds of every job a client can reach, beyond what \<^verbatim>\<open>validate\<close> checks.\<close>

definition outcome_ok :: "job_state \<Rightarrow> bool" where
  "outcome_ok s \<longleftrightarrow> (acked s \<longrightarrow> terminal_phase s)
     \<and> (phase s = ''completed'' \<longrightarrow> 1 \<le> checkpoint_sequence s)
     \<and> (phase s = ''dead-lettered'' \<and> retryable s = Some True \<longrightarrow> delivery_count s = max_deliveries s)"

lemma valid_base: "valid s \<Longrightarrow> base_ok s"
  by (rule valid_phase [of s]) (simp_all add: valid_by_phase)

lemma valid_acked: "valid s \<Longrightarrow> acked s \<Longrightarrow> terminal_phase s"
  by (rule valid_phase [of s]) (simp_all add: valid_by_phase clean_def terminal_phase_def)

lemma job_step_outcome: "job_step s t \<Longrightarrow> valid s \<Longrightarrow> outcome_ok s \<Longrightarrow> outcome_ok t"
proof -
  assume st: "job_step s t" "valid s" and ok: "outcome_ok s"
  have "acked t \<longrightarrow> terminal_phase t" using valid_acked job_step_valid [OF st] by blast
  moreover have "phase t = ''completed'' \<longrightarrow> 1 \<le> checkpoint_sequence t"
    using st(1) valid_base [OF st(2)] ok
    by (induction rule: job_step.induct) (simp_all add: outcome_ok_def base_ok_def)
  moreover have "phase t = ''dead-lettered'' \<and> retryable t = Some True \<longrightarrow> delivery_count t = max_deliveries t"
    using st(1) valid_base [OF st(2)] ok
    by (induction rule: job_step.induct) (auto simp: outcome_ok_def base_ok_def)
  ultimately show ?thesis by (simp add: outcome_ok_def)
qed

lemma run_outcome: "valid s \<Longrightarrow> outcome_ok s \<Longrightarrow> outcome_ok (run_commands apply_command s cs)"
  by (rule job.run_invariant) (use apply_job_step job_step_outcome in blast)+

text \<open>How often ownership changes hands.\<close>

fun lease_grants :: "job_state \<Rightarrow> json list \<Rightarrow> nat" where
  "lease_grants s [] = 0"
| "lease_grants s (c # cs) =
     (if fence (state_after apply_command s c) = fence s then 0 else 1)
     + lease_grants (state_after apply_command s c) cs"

lemma lease_grants_bound:
  "valid s \<Longrightarrow> delivery_count s + int (lease_grants s cs) \<le> delivery_count (run_commands apply_command s cs)"
proof (induction cs arbitrary: s)
  case Nil
  then show ?case by simp
next
  case (Cons c cs)
  let ?t = "state_after apply_command s c"
  have "job_le s ?t" by (rule job.state_after_le [OF Cons.prems])
  then have "delivery_count s + (if fence ?t = fence s then 0 else 1) \<le> delivery_count ?t"
    by (simp add: job_le_def split: if_split_asm)
  with Cons.IH [OF job.state_after_valid [OF Cons.prems], of c] show ?case
    by (simp split: if_split_asm)
qed

section \<open>Attempts and fixtures, executed\<close>

lemma job_only_Err_validate [only_Err_intros]: "only_Err (validate s)"
  unfolding validate_def validate_checkpoint_def validate_queued_def validate_leased_def
  by (intro only_Err_intros)

lemma only_Err_terminal_digest [only_Err_intros]: "only_Err (terminal_digest s)"
  unfolding terminal_digest_def by (intro only_Err_intros)

lemma only_Err_require_owner [only_Err_intros]: "only_Err (require_owner s f w)"
  unfolding require_owner_def by (intro only_Err_intros)

lemma only_Err_parse_command [only_Err_intros]: "only_Err (parse_command c)"
  unfolding parse_command_def
  by (auto simp: only_Err_def bindE_eq_Inl_iff expect_exact_keys_def require_eq_Inl_iff
      split: json.splits option.splits)

lemma only_Err_case_bool [only_Err_intros]:
  "(\<And>b. v = JBool b \<Longrightarrow> only_Err (f b)) \<Longrightarrow> only_Err (case v of JBool b \<Rightarrow> f b | _ \<Rightarrow> Inl (Err m))"
  by (cases v) (simp_all add: only_Err_intros)

lemma only_Err_pair [only_Err_intros]:
  "(\<And>a b. p = (a, b) \<Longrightarrow> only_Err (f a b)) \<Longrightarrow> only_Err (case p of (a, b) \<Rightarrow> f a b)"
  by (cases p) simp

lemma job_only_Err_dispatch [only_Err_intros]: "only_Err (dispatch k s d)"
  unfolding dispatch_def apply_claim_def apply_checkpoint_def apply_complete_def apply_fail_def
    apply_dead_letter_def apply_ack_def commit_def
  by (intro only_Err_intros)

lemma job_only_Err_apply: "only_Err (apply_command s c)"
  unfolding apply_command_def by (intro only_Err_intros)

lemma job_state_sha256_valid: "valid s \<Longrightarrow> state_sha256 s = Inr (sha256 (asdict s))"
  by (simp add: state_sha256_def valid_def)

definition outcome_digest :: "job_state \<Rightarrow> string option" where
  "outcome_digest s = (if terminal_phase s then Some (sha256 (terminal_record s)) else None)"

lemma terminal_or_none_valid: "valid s \<Longrightarrow> terminal_or_none s = Inr (outcome_digest s)"
  unfolding terminal_or_none_def outcome_digest_def terminal_phase_def [symmetric] by simp

lemma job_attempt_eq:
  assumes "valid s"
  shows "attempt s c = Inr (case apply_command s c of
     Inr t \<Rightarrow> \<lparr>ok = True, changed = (sha256 (asdict t) \<noteq> sha256 (asdict s)), state = t,
       before_sha256 = sha256 (asdict s), command_sha256 = sha256 c,
       after_sha256 = sha256 (asdict t), terminal = outcome_digest t, error = None\<rparr>
   | Inl e \<Rightarrow> \<lparr>ok = False, changed = False, state = s, before_sha256 = sha256 (asdict s),
       command_sha256 = sha256 c, after_sha256 = sha256 (asdict s), terminal = None,
       error = (case e of Err m \<Rightarrow> Some m)\<rparr>)"
proof (cases rule: only_ErrE [OF job_only_Err_apply [of s c]])
  case (2 t)
  then have "valid t" by (rule job_apply_target_valid)
  with 2 assms show ?thesis
    by (simp add: attempt_def job_state_sha256_valid terminal_or_none_valid Let_def)
qed (simp add: attempt_def job_state_sha256_valid assms Let_def)

lemma job_attempt_state: "attempt s c = Inr r \<Longrightarrow> state r = state_after apply_command s c \<and> valid s"
proof -
  assume a: "attempt s c = Inr r"
  then have "valid s" by (auto simp: attempt_def state_sha256_def valid_def)
  with a show ?thesis
    by (cases "apply_command s c") (auto simp: job_attempt_eq state_after_def)
qed

text \<open>The commands a fixture issues depend on the state when it asks for the terminal digest.\<close>

fun issued_commands :: "job_state \<Rightarrow> json list \<Rightarrow> json list" where
  "issued_commands s [] = []"
| "issued_commands s (raw # steps) = (case raw of
      JObj step \<Rightarrow>
        (case dict_get step ''command'' of
           JObj command \<Rightarrow>
             (case fixture_command s command (dict_get step ''terminal_digest_from_state'') of
                Inr c \<Rightarrow> c # issued_commands (state_after apply_command s c) steps
              | Inl e \<Rightarrow> [])
         | _ \<Rightarrow> [])
    | _ \<Rightarrow> [])"

lemma run_stepE:
  assumes "run_step sid (s, receipts) (i, raw) = Inr (t, receipts')"
  obtains step command c where "raw = JObj step" "dict_get step ''command'' = JObj command"
    "fixture_command s command (dict_get step ''terminal_digest_from_state'') = Inr c"
    "t = state_after apply_command s c" "length receipts' = Suc (length receipts)"
proof (cases raw)
  case (JObj step)
  note raw = this
  show ?thesis
  proof (cases "dict_get step ''command''")
    case (JObj command)
    from assms raw JObj that show ?thesis
      by (auto simp: run_step_def dest: job_attempt_state)
  qed (use assms raw in \<open>auto simp: run_step_def\<close>)
qed (use assms in \<open>auto simp: run_step_def\<close>)

lemma job_run_steps_state:
  "foldE (run_step sid) (s, receipts) (enumerate i steps) = Inr (t, receipts') \<Longrightarrow>
   t = run_commands apply_command s (issued_commands s steps)
     \<and> length (issued_commands s steps) = length steps
     \<and> length receipts' = length receipts + length steps"
proof (induction steps arbitrary: s receipts i)
  case Nil
  then show ?case by simp
next
  case (Cons raw steps)
  from Cons.prems obtain s1 r1 where 1: "run_step sid (s, receipts) (i, raw) = Inr (s1, r1)"
    and 2: "foldE (run_step sid) (s1, r1) (enumerate (Suc i) steps) = Inr (t, receipts')"
    by (auto simp: bindE_eq_Inr_iff)
  from 1 show ?case by (rule run_stepE) (use Cons.IH [OF 2] in simp)
qed


section \<open>Properties\<close>

definition sample_job :: job_state where
  "sample_job = \<lparr>model_version = MODEL_VERSION, job_id = ''job-1'', message_id = ''msg-1'',
     max_deliveries = 2, phase = ''queued'', fence = 0, worker_digest = None,
     delivery_count = 0, checkpoint_sequence = 0, checkpoint_digest = None,
     provider_task_digest = None, artifact_ref_digest = None, final_artifact_digest = None,
     failure_code = None, retryable = None, dlq_digest = None, acked = False\<rparr>"

definition sample_running :: "int \<Rightarrow> job_state" where
  "sample_running n = sample_job\<lparr>phase := ''running'', fence := n, worker_digest := Some digest_a,
     delivery_count := n\<rparr>"

definition cmd_claim :: "int \<Rightarrow> json" where
  "cmd_claim n = JObj [(''kind'', JStr ''claim''), (''fence'', JInt n), (''worker_digest'', JStr digest_a),
     (''delivery_count'', JInt n)]"

definition cmd_complete :: json where
  "cmd_complete = JObj [(''kind'', JStr ''complete''), (''fence'', JInt 1), (''worker_digest'', JStr digest_a),
     (''final_artifact_digest'', JStr digest_b)]"

lemma sample_names [simp]: "is_identifier_text ''job-1''" "is_identifier_text ''msg-1''"
    "is_failure_text ''disk.full''"
  by code_simp+

lemma sample_job_valid: "valid sample_job"
  by (simp add: sample_job_def valid_queued shape_defs)

lemma job_sample_initial: "initial (JStr ''job-1'') (JStr ''msg-1'') (JInt 2) = Inr sample_job"
  using sample_job_valid by (simp add: initial_def sample_job_def valid_def)

lemma sample_running_valid: "n \<in> {1, 2} \<Longrightarrow> valid (sample_running n)"
  by (auto simp: sample_running_def sample_job_def valid_running shape_defs)

lemmas sample_eval = apply_command_def parse_command_def expect_exact_keys_def command_eval

lemma job_sample_claim: "apply_command sample_job (cmd_claim 1) = Inr (sample_running 1)"
  using sample_job_valid sample_running_valid [of 1]
  by (simp add: sample_eval apply_claim_def cmd_claim_def valid_def sample_running_def sample_job_def commit_def)

lemma sample_takeover: "apply_command (sample_running 1) (cmd_claim 2) = Inr (sample_running 2)"
  using sample_running_valid [of 1] sample_running_valid [of 2]
  by (simp add: sample_eval apply_claim_def cmd_claim_def valid_def sample_running_def sample_job_def commit_def)

lemma sample_third_claim:
  "apply_command (sample_running 2) (cmd_claim 3) = Inl (Err ''delivery_count exceeds max_deliveries'')"
  using sample_running_valid [of 2]
  by (simp add: sample_eval apply_claim_def cmd_claim_def valid_def sample_running_def sample_job_def)

lemma sample_stale:
  "apply_command (sample_running 2) cmd_complete = Inl (Err ''stale or non-owning worker mutation'')"
  using sample_running_valid [of 2]
  by (simp add: sample_eval apply_complete_def require_owner_def cmd_complete_def valid_def
      sample_running_def sample_job_def)

lemma sample_running_fields [simp]:
  "fence (sample_running n) = n" "fence sample_job = 0" "delivery_count (sample_running n) = n"
  "phase (sample_running n) = ''running''" "max_deliveries sample_job = 2"
  by (simp_all add: sample_running_def sample_job_def)

lemmas sample_run = state_after_def job_sample_claim sample_takeover sample_third_claim sample_stale

text \<open>
  C4. The commands implement the abstract job protocol exactly: from a valid state the states that
  some command changes to are the successors of the relation \<open>job_step\<close>, and no others.
\<close>

theorem job_refines_steps:
  assumes "valid s"
  shows "(\<exists>c. apply_command s c = Inr t \<and> t \<noteq> s) \<longleftrightarrow> job_step s t"
  using apply_job_step job_step_commanded [OF _ assms] job_step_neq by blast

theorem job_refines_steps_witness:
  "\<exists>c. apply_command (sample_running 1) c = Inr ((sample_running 1)\<lparr>phase := ''failed'',
      failure_code := Some ''disk.full'', retryable := Some True\<rparr>)
    \<and> (sample_running 1)\<lparr>phase := ''failed'', failure_code := Some ''disk.full'',
        retryable := Some True\<rparr> \<noteq> sample_running 1"
  unfolding job_refines_steps [OF sample_running_valid [of 1, simplified]]
  by (rule job_step.fail) simp_all

text \<open>
  C5. Progress is never lost: between any two points of a run from an initial state the job keeps
  its identity and budget; an unchanged fence means the same worker and delivery, a changed one a
  larger fence and a larger delivery count; checkpoints are never rolled back or rewritten; and a
  completed or dead-lettered job never changes again but for its acknowledgement, which stays.
\<close>

theorem job_run_monotone:
  assumes "initial job message deliveries = Inr s0"
    and "s = run_commands apply_command s0 cs" and "t = run_commands apply_command s0 (cs @ ds)"
  shows "valid s \<and> same_job s0 s
    \<and> (if fence t = fence s then delivery_count t = delivery_count s \<and> worker_digest t = worker_digest s
       else fence s < fence t \<and> delivery_count s < delivery_count t)
    \<and> (if checkpoint_sequence t = checkpoint_sequence s then same_checkpoint s t
       else checkpoint_sequence s < checkpoint_sequence t)
    \<and> (phase s \<in> {''completed'', ''dead-lettered''} \<longrightarrow> t = s\<lparr>acked := acked t\<rparr>)
    \<and> (acked s \<longrightarrow> acked t)"
proof -
  from assms(1) have v0: "valid s0" by (auto simp: initial_def valid_def Let_def)
  have "valid s" unfolding assms(2) by (rule job.run_valid [OF v0])
  moreover have "job_le s0 s" unfolding assms(2) by (rule job.run_le [OF v0])
  moreover have "job_le s t" unfolding assms(2,3) by (rule job.run_prefix_le [OF v0])
  ultimately show ?thesis
    unfolding job_le_def same_outcome_def terminal_phase_def by blast
qed

theorem job_run_monotone_witness:
  "valid (run_commands apply_command sample_job [cmd_claim 1, cmd_claim 2])
    \<and> fence (run_commands apply_command sample_job [cmd_claim 1])
      < fence (run_commands apply_command sample_job ([cmd_claim 1] @ [cmd_claim 2]))"
  using job_run_monotone [OF job_sample_initial refl refl, of "[cmd_claim 1]" "[cmd_claim 2]"]
    job_run_monotone [OF job_sample_initial refl refl, of "[cmd_claim 1, cmd_claim 2]" "[]"]
  by (simp add: sample_run)

text \<open>
  C6. What a finished job guarantees: along every run from an initial state, an acknowledged job is
  completed or dead-lettered, a completed job has at least one durable checkpoint, and a
  dead-lettered job whose failure was retryable has used up its deliveries.
\<close>

theorem job_outcomes:
  assumes "initial job message deliveries = Inr s0" and "s = run_commands apply_command s0 cs"
  shows "(acked s \<longrightarrow> phase s \<in> {''completed'', ''dead-lettered''})
    \<and> (phase s = ''completed'' \<longrightarrow> 1 \<le> checkpoint_sequence s)
    \<and> (phase s = ''dead-lettered'' \<and> retryable s = Some True \<longrightarrow> delivery_count s = max_deliveries s)"
proof -
  from assms(1) have "valid s0" "outcome_ok s0"
    by (auto simp: initial_def valid_def Let_def outcome_ok_def)
  then have "outcome_ok s" unfolding assms(2) by (rule run_outcome)
  then show ?thesis unfolding outcome_ok_def terminal_phase_def .
qed

theorem job_outcomes_witness:
  "\<not> acked (run_commands apply_command sample_job [cmd_claim 1])"
  using job_outcomes [OF job_sample_initial refl, of "[cmd_claim 1]"] by (simp add: sample_run)

text \<open>
  C7. The delivery budget holds: in any run from an initial state, ownership of the job is granted
  at most \<^verbatim>\<open>max_deliveries\<close> times, retries and takeovers included.
\<close>

theorem job_delivery_budget:
  assumes "initial job message deliveries = Inr s0"
  shows "int (lease_grants s0 cs) \<le> max_deliveries s0"
proof -
  from assms have v0: "valid s0" and d0: "delivery_count s0 = 0"
    by (auto simp: initial_def valid_def Let_def)
  let ?t = "run_commands apply_command s0 cs"
  have "delivery_count ?t \<le> max_deliveries ?t"
    using valid_base [OF job.run_valid [OF v0]] by (simp add: base_ok_def)
  moreover have "max_deliveries ?t = max_deliveries s0"
    using job.run_le [OF v0] by (simp add: job_le_def same_job_def)
  ultimately show ?thesis using lease_grants_bound [OF v0, of cs] d0 by simp
qed

theorem job_delivery_budget_witness:
  "lease_grants sample_job [cmd_claim 1, cmd_claim 2, cmd_claim 3] \<le> 2"
  using job_delivery_budget [OF job_sample_initial, of "[cmd_claim 1, cmd_claim 2, cmd_claim 3]"] by simp

text \<open>
  Every command may be delivered more than once: repeating commands any number of times right
  after themselves does not change where a run from a valid state ends.
\<close>

lemma job_redelivery:
  assumes "redelivered (\<lambda>_. True) cs ds" and "valid s"
  shows "run_commands apply_command s ds = run_commands apply_command s cs"
  using assms by (rule job_replay.run_redelivered)

theorem job_redelivery_witness:
  "run_commands apply_command sample_job [cmd_claim 1, cmd_claim 1, cmd_claim 2]
   = run_commands apply_command sample_job [cmd_claim 1, cmd_claim 2]"
  by (rule job_redelivery [OF _ sample_job_valid]) (intro redelivered.intros TrueI)

text \<open>
  \<^verbatim>\<open>attempt\<close> returns on every valid state and every command value, keeps the old state on a
  refusal and holds the successor otherwise, and reports a terminal digest exactly for an accepted
  command that leaves a terminal job: the digest an ACK for that state has to carry.
\<close>

lemma job_attempt_atomic:
  assumes "valid s"
  shows "\<exists>r. attempt s c = Inr r \<and> valid (state r) \<and> state r = state_after apply_command s c
    \<and> after_sha256 r = sha256 (asdict (state r)) \<and> (changed r \<longrightarrow> state r \<noteq> s)
    \<and> (ok r \<longleftrightarrow> apply_command s c = Inr (state r))
    \<and> (ok r \<longleftrightarrow> error r = None) \<and> (\<not> ok r \<longrightarrow> \<not> changed r \<and> terminal r = None)
    \<and> (ok r \<longrightarrow> (terminal r \<noteq> None \<longleftrightarrow> phase (state r) \<in> {''completed'', ''dead-lettered''})
        \<and> (\<forall>d. terminal r = Some d \<longrightarrow> terminal_digest (state r) = Inr d))"
  using job_only_Err_apply [of s c]
proof (cases rule: only_ErrE)
  case (raises m)
  then show ?thesis by (simp add: job_attempt_eq assms state_after_def)
next
  case (returns t)
  then have "valid t" by (rule job_apply_target_valid)
  with returns show ?thesis
    by (simp add: job_attempt_eq assms state_after_def outcome_digest_def)
       (auto simp: terminal_phase_def)
qed

theorem job_attempt_atomic_witness:
  "\<exists>r. attempt (sample_running 2) cmd_complete = Inr r \<and> state r = sample_running 2 \<and> \<not> changed r"
  using job_attempt_atomic [OF sample_running_valid [of 2, simplified], of cmd_complete]
  by (auto simp: sample_run)

text \<open>
  What a recovery fixture reports is what its commands do: when the runner accepts a scenario,
  the final phase, acknowledgement and digests in its receipt are those of the state that the issued
  commands lead to from the initial state, and there is one receipt per step.
\<close>

lemma job_scenario_sound:
  assumes "run_scenario_body scenario sid start = Inr receipt"
  shows "\<exists>s0 steps receipts t. initial (dict_get start ''job_id'') (dict_get start ''message_id'')
        (dict_get start ''max_deliveries'') = Inr s0
    \<and> dict_get scenario ''steps'' = JArr steps \<and> steps \<noteq> [] \<and> length steps \<le> MAX_STEPS
    \<and> t = run_commands apply_command s0 (issued_commands s0 steps)
    \<and> length (issued_commands s0 steps) = length steps \<and> length receipts = length steps
    \<and> dict_get scenario ''expected_final_phase'' = JStr (phase t)
    \<and> dict_get scenario ''expected_acked'' = JBool (acked t)
    \<and> receipt = JObj [(''scenario_id'', JStr sid), (''final_phase'', JStr (phase t)),
        (''final_acked'', JBool (acked t)), (''final_state_sha256'', JStr (sha256 (asdict t))),
        (''terminal_digest'', opt_str (outcome_digest t)), (''steps'', JArr receipts)]"
proof -
  from assms obtain s0 steps t receipts where *: "initial (dict_get start ''job_id'')
      (dict_get start ''message_id'') (dict_get start ''max_deliveries'') = Inr s0"
    "dict_get scenario ''steps'' = JArr steps" "1 \<le> length steps" "length steps \<le> MAX_STEPS"
    and run: "foldE (run_step sid) (s0, []) (enumerate 0 steps) = Inr (t, receipts)"
    and check: "check_final scenario sid t = Inr ()"
    and fin: "bindE (state_sha256 t) (\<lambda>final. bindE (terminal_or_none t) (\<lambda>digest.
        Inr (JObj [(''scenario_id'', JStr sid), (''final_phase'', JStr (phase t)),
            (''final_acked'', JBool (acked t)), (''final_state_sha256'', JStr final),
            (''terminal_digest'', opt_str digest), (''steps'', JArr receipts)]))) = Inr receipt"
    unfolding run_scenario_body_def
    by (cases "dict_get scenario ''steps''") (auto split: prod.splits)
  from fin have "valid t" by (auto simp: state_sha256_def valid_def)
  with fin have "receipt = JObj [(''scenario_id'', JStr sid), (''final_phase'', JStr (phase t)),
        (''final_acked'', JBool (acked t)), (''final_state_sha256'', JStr (sha256 (asdict t))),
        (''terminal_digest'', opt_str (outcome_digest t)), (''steps'', JArr receipts)]"
    by (simp add: job_state_sha256_valid terminal_or_none_valid)
  moreover from check have "dict_get scenario ''expected_final_phase'' = JStr (phase t)"
    "dict_get scenario ''expected_acked'' = JBool (acked t)"
    by (auto simp: check_final_def)
  ultimately show ?thesis using * job_run_steps_state [OF run] by auto
qed

definition sample_step :: pydict where
  "sample_step = [(''command'', cmd_complete), (''terminal_digest_from_state'', JBool False),
     (''expect_ok'', JBool False), (''expect_changed'', JBool False),
     (''error_contains'', JStr ''no active owner'')]"

definition sample_scenario :: pydict where
  "sample_scenario = [(''id'', JStr ''early''), (''steps'', JArr [JObj sample_step]),
     (''expected_final_phase'', JStr ''queued''), (''expected_acked'', JBool False)]"

definition sample_start :: pydict where
  "sample_start = [(''job_id'', JStr ''job-1''), (''message_id'', JStr ''msg-1''),
     (''max_deliveries'', JInt 2)]"

lemma job_sample_refusal: "apply_command sample_job cmd_complete = Inl (Err ''queued job has no active owner'')"
  using sample_job_valid
  by (simp add: sample_eval apply_complete_def require_owner_def cmd_complete_def valid_def sample_job_def)

lemma job_sample_step_runs:
  "\<exists>r. run_step sid (sample_job, []) (0, JObj sample_step) = Inr (sample_job, [r])"
proof -
  have *: "contains ''no active owner'' ''queued job has no active owner''" by code_simp
  have **: "set (dict_keys sample_step) = {''command'', ''terminal_digest_from_state'', ''expect_ok'',
      ''expect_changed'', ''error_contains''}"
    by (simp add: sample_step_def dict_keys_def)
  obtain d where d: "cmd_complete = JObj d" by (simp add: cmd_complete_def)
  show ?thesis
    using job_attempt_eq [OF sample_job_valid, of cmd_complete] *
    by (simp add: run_step_def ** expect_exact_keys_def)
       (simp add: sample_step_def dict_get_def d job_sample_refusal [unfolded d] check_error_def
          fixture_command_def)
qed

theorem job_scenario_sound_witness:
  "\<exists>receipt. run_scenario_body sample_scenario ''early'' sample_start = Inr receipt
    \<and> phase (run_commands apply_command sample_job (issued_commands sample_job [JObj sample_step])) = ''queued''"
proof -
  obtain r where r: "run_step ''early'' (sample_job, []) (0, JObj sample_step) = Inr (sample_job, [r])"
    using job_sample_step_runs by blast
  have "phase sample_job = ''queued''" "\<not> acked sample_job" by (simp_all add: sample_job_def)
  then obtain receipt where
    body: "run_scenario_body sample_scenario ''early'' sample_start = Inr receipt"
    by (simp add: run_scenario_body_def sample_scenario_def sample_start_def dict_get_def
        dict_keys_def expect_exact_keys_def job_sample_initial MAX_STEPS_def r in_str_set_def PHASES_def
        check_final_def job_state_sha256_valid [OF sample_job_valid] terminal_or_none_valid [OF sample_job_valid])
  from job_scenario_sound [OF body] body show ?thesis
    by (auto simp: sample_scenario_def sample_start_def dict_get_def job_sample_initial)
qed

end
