(* ===== verification/RecoverySupervisor.thy ===== *)
theory RecoverySupervisor
  imports FencedProtocol "HOL-Library.Product_Lexorder" "HOL-Library.AList"
begin

text \<open>
  \<^verbatim>\<open>formal/continuous_recovery_supervisor.py\<close>: the repository's own finite model of the recovery
  supervisor, which it explores to a bounded depth. The state, the events, \<^verbatim>\<open>transition\<close>,
  \<^verbatim>\<open>invariant_errors\<close> and the breadth-first \<^verbatim>\<open>explore\<close> are modelled as written; the theorems hold for
  runs of any length, and \<open>explore\<close> is proved to visit exactly the states within its depth.
  A slot index is a natural number: \<^verbatim>\<open>enabled_events\<close> only produces positions of \<^verbatim>\<open>slots\<close>, and
  \<^verbatim>\<open>transition\<close> refuses every other event first.
\<close>

definition MAX_MODEL_WORKERS :: nat where "MAX_MODEL_WORKERS = 3"
definition MODEL_MAX_RESTARTS :: int where "MODEL_MAX_RESTARTS = 2"
definition MODEL_MAX_BACKOFF_SECONDS :: int where "MODEL_MAX_BACKOFF_SECONDS = 4"
definition MODEL_DEPTH :: nat where "MODEL_DEPTH = 10"

lemmas model_bounds =
  MAX_MODEL_WORKERS_def MODEL_MAX_RESTARTS_def MODEL_MAX_BACKOFF_SECONDS_def

datatype phase = RUNNING | BACKOFF | STOPPING | KILLING | STOPPED | STUCK

datatype event_kind =
    CRASH | STABLE_EXIT | BACKOFF_ELAPSED | WINDOW_ELAPSED | STOP_REQUESTED
  | CHILD_EXITED | TERMINATE_GRACE_EXPIRED | KILL_GRACE_EXPIRED

fun kind_value :: "event_kind \<Rightarrow> string" where
  "kind_value CRASH = ''crash''"
| "kind_value STABLE_EXIT = ''stable_exit''"
| "kind_value BACKOFF_ELAPSED = ''backoff_elapsed''"
| "kind_value WINDOW_ELAPSED = ''window_elapsed''"
| "kind_value STOP_REQUESTED = ''stop_requested''"
| "kind_value CHILD_EXITED = ''child_exited''"
| "kind_value TERMINATE_GRACE_EXPIRED = ''terminate_grace_expired''"
| "kind_value KILL_GRACE_EXPIRED = ''kill_grace_expired''"

record event =
  kind :: event_kind
  slot :: "nat option"

definition global_event :: "event_kind \<Rightarrow> event" where
  "global_event k = \<lparr>kind = k, slot = None\<rparr>"

definition slot_event :: "event_kind \<Rightarrow> nat \<Rightarrow> event" where
  "slot_event k i = \<lparr>kind = k, slot = Some i\<rparr>"

definition label :: "event \<Rightarrow> string" where
  "label e = (case slot e of None \<Rightarrow> kind_value (kind e)
     | Some i \<Rightarrow> kind_value (kind e) @ ''['' @ str_nat (i + 1) @ '']'')"

record slot_state =
  phase :: phase
  attempts :: int
  backoff_seconds :: int
  generation :: int

record supervisor_state =
  stopping :: bool
  operator_stop :: bool
  budget_exhausted :: bool
  terminate_grace_elapsed :: bool
  kill_grace_elapsed :: bool
  kill_timeout :: bool
  slots :: "slot_state list"

definition expected_backoff :: "int \<Rightarrow> int \<Rightarrow> int result" where
  "expected_backoff n maximum =
     (if n < 1 then Inl (Err ''backoff attempts must be positive'')
      else Inr (min maximum (2 ^ nat (n - 1))))"

definition initial_state :: "int \<Rightarrow> supervisor_state result" where
  "initial_state worker_count =
     bindE (require (1 \<le> worker_count \<and> worker_count \<le> int MAX_MODEL_WORKERS)
       ''model worker count is outside 1..3'') (\<lambda>_.
     Inr \<lparr>stopping = False, operator_stop = False, budget_exhausted = False,
       terminate_grace_elapsed = False, kill_grace_elapsed = False, kill_timeout = False,
       slots = replicate (nat worker_count)
         \<lparr>phase = RUNNING, attempts = 0, backoff_seconds = 0, generation = 0\<rparr>\<rparr>)"

section \<open>Events\<close>

definition event_key :: "event \<Rightarrow> string \<times> int" where
  "event_key e = (kind_value (kind e), case slot e of None \<Rightarrow> -1 | Some i \<Rightarrow> int i)"

definition running_events :: "nat \<times> slot_state \<Rightarrow> event list" where
  "running_events p = (case p of (i, s) \<Rightarrow>
     if phase s = RUNNING then
       [slot_event CRASH i, slot_event STABLE_EXIT i]
         @ (if attempts s \<noteq> 0 then [slot_event WINDOW_ELAPSED i] else [])
     else if phase s = BACKOFF then [slot_event BACKOFF_ELAPSED i]
     else [])"

definition stopping_events :: "nat \<times> slot_state \<Rightarrow> event list" where
  "stopping_events p = (case p of (i, s) \<Rightarrow>
     if phase s \<in> {STOPPING, KILLING} then [slot_event CHILD_EXITED i] else [])"

definition enabled_events :: "supervisor_state \<Rightarrow> event list" where
  "enabled_events s =
     (if kill_timeout s then []
      else sort_key event_key
        (if \<not> stopping s then
           global_event STOP_REQUESTED # concat (map running_events (enumerate 0 (slots s)))
         else
           concat (map stopping_events (enumerate 0 (slots s)))
           @ (if \<not> terminate_grace_elapsed s \<and> list_ex (\<lambda>x. phase x = STOPPING) (slots s)
              then [global_event TERMINATE_GRACE_EXPIRED] else [])
           @ (if terminate_grace_elapsed s \<and> \<not> kill_grace_elapsed s
                 \<and> list_ex (\<lambda>x. phase x = KILLING) (slots s)
              then [global_event KILL_GRACE_EXPIRED] else [])))"

section \<open>Transitions\<close>

definition stop_slot :: "nat option \<Rightarrow> int option \<Rightarrow> nat \<times> slot_state \<Rightarrow> slot_state" where
  "stop_slot exited_slot exited_attempts p = (case p of (i, s) \<Rightarrow>
     if Some i = exited_slot then
       s\<lparr>phase := STOPPED,
         attempts := (case exited_attempts of Some n \<Rightarrow> n | None \<Rightarrow> attempts s),
         backoff_seconds := 0\<rparr>
     else if phase s = RUNNING then s\<lparr>phase := STOPPING, backoff_seconds := 0\<rparr>
     else if phase s = BACKOFF then s\<lparr>phase := STOPPED, backoff_seconds := 0\<rparr>
     else s)"

definition stop_slots :: "slot_state list \<Rightarrow> nat option \<Rightarrow> int option \<Rightarrow> slot_state list" where
  "stop_slots xs exited_slot exited_attempts =
     map (stop_slot exited_slot exited_attempts) (enumerate 0 xs)"

definition crash :: "supervisor_state \<Rightarrow> nat \<Rightarrow> supervisor_state result" where
  "crash s i =
     (let x = slots s ! i; n = attempts x + 1 in
      if n > MODEL_MAX_RESTARTS then
        Inr (s\<lparr>stopping := True, budget_exhausted := True,
               slots := stop_slots (slots s) (Some i) (Some n)\<rparr>)
      else
        bindE (expected_backoff n MODEL_MAX_BACKOFF_SECONDS) (\<lambda>delay.
        Inr (s\<lparr>slots := (slots s)[i := x\<lparr>phase := BACKOFF, attempts := n, backoff_seconds := delay\<rparr>]\<rparr>)))"

definition stable_exit :: "supervisor_state \<Rightarrow> nat \<Rightarrow> supervisor_state result" where
  "stable_exit s i =
     bindE (expected_backoff 1 MODEL_MAX_BACKOFF_SECONDS) (\<lambda>delay.
     Inr (s\<lparr>slots := (slots s)[i := (slots s ! i)\<lparr>phase := BACKOFF, attempts := 1,
            backoff_seconds := delay\<rparr>]\<rparr>))"

definition window_elapsed :: "supervisor_state \<Rightarrow> nat \<Rightarrow> supervisor_state result" where
  "window_elapsed s i = Inr (s\<lparr>slots := (slots s)[i := (slots s ! i)\<lparr>attempts := 0\<rparr>]\<rparr>)"

definition backoff_elapsed :: "supervisor_state \<Rightarrow> nat \<Rightarrow> supervisor_state result" where
  "backoff_elapsed s i =
     (let x = slots s ! i in
      Inr (s\<lparr>slots := (slots s)[i := x\<lparr>phase := RUNNING, backoff_seconds := 0,
             generation := generation x + 1\<rparr>]\<rparr>))"

definition child_exited :: "supervisor_state \<Rightarrow> nat \<Rightarrow> supervisor_state result" where
  "child_exited s i =
     Inr (s\<lparr>slots := (slots s)[i := (slots s ! i)\<lparr>phase := STOPPED, backoff_seconds := 0\<rparr>]\<rparr>)"

definition move_phase :: "phase \<Rightarrow> phase \<Rightarrow> slot_state \<Rightarrow> slot_state" where
  "move_phase p q x = (if phase x = p then x\<lparr>phase := q\<rparr> else x)"

definition terminate_grace_expired :: "supervisor_state \<Rightarrow> supervisor_state" where
  "terminate_grace_expired s =
     s\<lparr>terminate_grace_elapsed := True, slots := map (move_phase STOPPING KILLING) (slots s)\<rparr>"

definition kill_grace_expired :: "supervisor_state \<Rightarrow> supervisor_state" where
  "kill_grace_expired s =
     s\<lparr>kill_grace_elapsed := True, kill_timeout := True,
       slots := map (move_phase KILLING STUCK) (slots s)\<rparr>"

definition stop_requested :: "supervisor_state \<Rightarrow> supervisor_state" where
  "stop_requested s =
     s\<lparr>stopping := True, operator_stop := True, slots := stop_slots (slots s) None None\<rparr>"

text \<open>\<^verbatim>\<open>assert event.slot is not None and slot is not None\<close>.\<close>

definition with_slot :: "event \<Rightarrow> (nat \<Rightarrow> 'a result) \<Rightarrow> 'a result" where
  "with_slot e f = (case slot e of None \<Rightarrow> Inl AssertionError | Some i \<Rightarrow> f i)"

definition transition :: "supervisor_state \<Rightarrow> event \<Rightarrow> supervisor_state result" where
  "transition s e =
     (if e \<notin> set (enabled_events s) then Inl (Err (''disabled transition: '' @ label e))
      else case kind e of
        STOP_REQUESTED \<Rightarrow> Inr (stop_requested s)
      | CRASH \<Rightarrow> with_slot e (crash s)
      | STABLE_EXIT \<Rightarrow> with_slot e (stable_exit s)
      | WINDOW_ELAPSED \<Rightarrow> with_slot e (window_elapsed s)
      | BACKOFF_ELAPSED \<Rightarrow> with_slot e (backoff_elapsed s)
      | CHILD_EXITED \<Rightarrow> with_slot e (child_exited s)
      | TERMINATE_GRACE_EXPIRED \<Rightarrow> Inr (terminate_grace_expired s)
      | KILL_GRACE_EXPIRED \<Rightarrow> Inr (kill_grace_expired s))"

section \<open>The checked invariant\<close>

definition flag :: "bool \<Rightarrow> string \<Rightarrow> string list" where
  "flag b message = (if b then [message] else [])"

definition slot_errors :: "nat \<times> slot_state \<Rightarrow> string list" where
  "slot_errors p = (case p of (i, x) \<Rightarrow>
     (let where = ''['' @ str_nat (i + 1) @ '']'' in
      flag (\<not> (0 \<le> attempts x \<and> attempts x \<le> MODEL_MAX_RESTARTS + 1)) (''attempt_bound'' @ where)
      @ flag (generation x < 0) (''generation_nonnegative'' @ where)
      @ (if phase x = BACKOFF then
           (if \<not> (1 \<le> attempts x \<and> attempts x \<le> MODEL_MAX_RESTARTS)
            then [''backoff_has_admissible_attempt'' @ where]
            else flag (Inr (backoff_seconds x) \<noteq> expected_backoff (attempts x) MODEL_MAX_BACKOFF_SECONDS)
                   (''backoff_is_exact_and_capped'' @ where))
         else flag (backoff_seconds x \<noteq> 0) (''delay_only_in_backoff'' @ where))))"

definition invariant_errors :: "supervisor_state \<Rightarrow> string list" where
  "invariant_errors s =
     flag (\<not> (1 \<le> length (slots s) \<and> length (slots s) \<le> MAX_MODEL_WORKERS)) ''worker_count_is_bounded''
     @ flag ((operator_stop s \<or> budget_exhausted s \<or> terminate_grace_elapsed s \<or> kill_grace_elapsed s
              \<or> kill_timeout s) \<and> \<not> stopping s) ''stop_flags_imply_stopping''
     @ flag (kill_grace_elapsed s \<and> \<not> terminate_grace_elapsed s) ''kill_grace_follows_terminate_grace''
     @ flag (kill_timeout s \<and> \<not> kill_grace_elapsed s) ''kill_timeout_follows_kill_grace''
     @ flag (kill_timeout s \<and> \<not> list_ex (\<lambda>x. phase x = STUCK) (slots s)) ''kill_timeout_has_stuck_child''
     @ flag (stopping s \<and> list_ex (\<lambda>x. phase x = BACKOFF) (slots s)) ''no_pending_respawn_after_stop''
     @ flag (\<not> stopping s \<and> list_ex (\<lambda>x. phase x \<in> {STOPPING, KILLING, STOPPED, STUCK}) (slots s))
         ''shutdown_phase_requires_stop''
     @ flag (length (filter (\<lambda>x. phase x \<in> {RUNNING, STOPPING, KILLING, STUCK}) (slots s)) > MAX_MODEL_WORKERS)
         ''at_most_three_live_children''
     @ concat (map slot_errors (enumerate 0 (slots s)))"

definition is_terminal :: "supervisor_state \<Rightarrow> bool" where
  "is_terminal s \<longleftrightarrow> stopping s \<and> list_all (\<lambda>x. phase x \<in> {STOPPED, STUCK}) (slots s)"


section \<open>Bounded exploration\<close>

text \<open>The name of the enumeration member, as \<^verbatim>\<open>repr\<close> prints it inside a trace.\<close>

fun kind_name :: "event_kind \<Rightarrow> string" where
  "kind_name CRASH = ''CRASH''"
| "kind_name STABLE_EXIT = ''STABLE_EXIT''"
| "kind_name BACKOFF_ELAPSED = ''BACKOFF_ELAPSED''"
| "kind_name WINDOW_ELAPSED = ''WINDOW_ELAPSED''"
| "kind_name STOP_REQUESTED = ''STOP_REQUESTED''"
| "kind_name CHILD_EXITED = ''CHILD_EXITED''"
| "kind_name TERMINATE_GRACE_EXPIRED = ''TERMINATE_GRACE_EXPIRED''"
| "kind_name KILL_GRACE_EXPIRED = ''KILL_GRACE_EXPIRED''"

definition repr_event :: "event \<Rightarrow> string" where
  "repr_event e = ''Event(kind=<EventKind.'' @ kind_name (kind e) @ '': '' @ [CHR 0x27]
     @ kind_value (kind e) @ [CHR 0x27] @ ''>, slot=''
     @ (case slot e of None \<Rightarrow> ''None'' | Some i \<Rightarrow> str_nat i) @ '')''"

definition repr_trace :: "event list \<Rightarrow> string" where
  "repr_trace es = (case es of [e] \<Rightarrow> ''('' @ repr_event e @ '',)''
     | _ \<Rightarrow> ''('' @ join_with '', '' (map repr_event es) @ '')'')"

record exploration =
  todo :: "(supervisor_state \<times> nat \<times> event list) list"
  seen :: "(supervisor_state \<times> nat) list"
  transitions :: nat
  terminal_states :: "supervisor_state list"
  clean_shutdown_witness :: "string list"
  budget_exhaustion_witness :: "string list"
  kill_timeout_witness :: "string list"

definition note_terminal :: "supervisor_state \<Rightarrow> event list \<Rightarrow> exploration \<Rightarrow> exploration" where
  "note_terminal s trace x =
     (if is_terminal s then
        (let labels = map label trace in
         x\<lparr>terminal_states := List.insert s (terminal_states x),
           clean_shutdown_witness :=
             (if operator_stop s \<and> \<not> kill_timeout s \<and> clean_shutdown_witness x = [] then labels
              else clean_shutdown_witness x),
           budget_exhaustion_witness :=
             (if budget_exhausted s \<and> budget_exhaustion_witness x = [] then labels
              else budget_exhaustion_witness x),
           kill_timeout_witness :=
             (if kill_timeout s \<and> kill_timeout_witness x = [] then labels
              else kill_timeout_witness x)\<rparr>)
      else x)"

definition respawned :: "supervisor_state \<Rightarrow> supervisor_state \<Rightarrow> bool" where
  "respawned s t \<longleftrightarrow> list_ex (\<lambda>(old, new).
     generation new > generation old \<or> phase new \<in> {RUNNING, BACKOFF}) (zip (slots s) (slots t))"

definition expand_event ::
  "supervisor_state \<Rightarrow> nat \<Rightarrow> event list \<Rightarrow> exploration \<Rightarrow> event \<Rightarrow> exploration result" where
  "expand_event s d trace x e =
     bindE (transition s e) (\<lambda>t.
     bindE (require (\<not> (stopping s \<and> respawned s t)) (''respawn after stop via '' @ label e)) (\<lambda>_.
     Inr (if (case map_of (seen x) t of None \<Rightarrow> True | Some m \<Rightarrow> d + 1 < m)
          then x\<lparr>transitions := transitions x + 1, seen := AList.update t (d + 1) (seen x),
                 todo := todo x @ [(t, d + 1, trace @ [e])]\<rparr>
          else x\<lparr>transitions := transitions x + 1\<rparr>)))"

text \<open>One iteration of the \<^verbatim>\<open>while queue\<close> loop, after the \<^verbatim>\<open>popleft\<close>.\<close>

definition visit ::
  "nat \<Rightarrow> exploration \<Rightarrow> supervisor_state \<Rightarrow> nat \<Rightarrow> event list \<Rightarrow> exploration result" where
  "visit depth x s d trace =
     (let errors = invariant_errors s in
      bindE (require (errors = []) (''invariant failure after '' @ repr_trace trace @ '': ''
        @ join_with '', '' errors)) (\<lambda>_.
      let x = note_terminal s trace x in
      if depth \<le> d then Inr x else foldE (expand_event s d trace) x (enabled_events s)))"

text \<open>
  Termination: a popped entry at depth \<open>d\<close> is replaced by at most \<open>3 * workers + 3\<close> entries at
  depth \<open>d + 1\<close>, none of them beyond the bound.
\<close>

definition branching :: "supervisor_state \<Rightarrow> nat" where
  "branching s = 3 * length (slots s) + 3"

definition weight :: "nat \<Rightarrow> supervisor_state \<times> nat \<times> event list \<Rightarrow> nat" where
  "weight depth q = (case q of (s, d, trace) \<Rightarrow> (branching s + 1) ^ (depth - d))"

definition todo_weight :: "nat \<Rightarrow> exploration \<Rightarrow> nat" where
  "todo_weight depth x = sum_list (map (weight depth) (todo x))"

lemma enabled_length: "length (enabled_events s) \<le> branching s"
proof -
  have c: "length (concat (map f (enumerate 0 xs))) \<le> 3 * length xs"
    if "\<And>p. length (f p) \<le> 3" for f :: "nat \<times> slot_state \<Rightarrow> event list" and xs
  proof -
    have "sum_list (map (length \<circ> f) ys) \<le> 3 * length ys" for ys
      using that by (induction ys) (simp_all add: add_mono)
    from this [of "enumerate 0 xs"] show ?thesis by (simp add: length_concat)
  qed
  have "length (running_events p) \<le> 3" "length (stopping_events p) \<le> 3" for p
    by (auto simp: running_events_def stopping_events_def split: prod.splits)
  with c [of running_events "slots s"] c [of stopping_events "slots s"] show ?thesis
    by (simp add: enabled_events_def branching_def)
qed

lemma transition_slots: "transition s e = Inr t \<Longrightarrow> length (slots t) = length (slots s)"
  by (auto simp: transition_def with_slot_def crash_def stable_exit_def window_elapsed_def
      backoff_elapsed_def child_exited_def Let_def stop_requested_def terminate_grace_expired_def
      kill_grace_expired_def stop_slots_def split: if_split_asm event_kind.splits option.splits)

lemma expand_event_weight:
  assumes "expand_event s d trace x e = Inr y" "d < depth"
  shows "todo_weight depth y \<le> todo_weight depth x + (branching s + 1) ^ (depth - Suc d)"
  using assms
  by (auto simp: expand_event_def todo_weight_def weight_def branching_def dest!: transition_slots
      split: if_split_asm)

lemma expand_weight:
  assumes "foldE (expand_event s d trace) x es = Inr y" "d < depth"
  shows "todo_weight depth y \<le> todo_weight depth x + length es * (branching s + 1) ^ (depth - Suc d)"
  using assms
proof (induction es arbitrary: x)
  case (Cons e es)
  then obtain z where z: "expand_event s d trace x e = Inr z"
    "foldE (expand_event s d trace) z es = Inr y" by auto
  from Cons.IH [OF z(2) Cons.prems(2)] expand_event_weight [OF z(1) Cons.prems(2)]
  show ?case by (simp add: algebra_simps)
qed simp

lemma note_terminal_todo [simp]: "todo (note_terminal s trace x) = todo x"
  "seen (note_terminal s trace x) = seen x"
  by (simp_all add: note_terminal_def Let_def)

lemma visit_weight:
  assumes "visit depth (x\<lparr>todo := rest\<rparr>) s d trace = Inr y" "todo x = (s, d, trace) # rest"
  shows "todo_weight depth y < todo_weight depth x"
proof (cases "depth \<le> d")
  case True
  with assms show ?thesis
    by (auto simp: visit_def Let_def todo_weight_def weight_def)
next
  case False
  let ?x = "note_terminal s trace (x\<lparr>todo := rest\<rparr>)"
  from False assms have "foldE (expand_event s d trace) ?x (enabled_events s) = Inr y"
    by (auto simp: visit_def Let_def)
  from expand_weight [OF this] False have
    "todo_weight depth y \<le> todo_weight depth ?x
       + length (enabled_events s) * (branching s + 1) ^ (depth - Suc d)" by simp
  also have "\<dots> \<le> todo_weight depth ?x + branching s * (branching s + 1) ^ (depth - Suc d)"
    using enabled_length [of s] by simp
  also have "\<dots> < todo_weight depth ?x + (branching s + 1) ^ Suc (depth - Suc d)"
    by simp
  also have "Suc (depth - Suc d) = depth - d" using False by simp
  finally show ?thesis using assms(2) by (simp add: todo_weight_def weight_def)
qed

function explore_loop :: "nat \<Rightarrow> exploration \<Rightarrow> exploration result" where
  "explore_loop depth x = (case todo x of
      [] \<Rightarrow> Inr x
    | (s, d, trace) # rest \<Rightarrow>
        bindE (visit depth (x\<lparr>todo := rest\<rparr>) s d trace) (\<lambda>y. explore_loop depth y))"
  by pat_completeness auto

termination
  by (relation "measure (\<lambda>(depth, x). todo_weight depth x)") (auto dest: visit_weight)

declare explore_loop.simps [simp del]

record exploration_receipt =
  workers :: int
  states :: nat
  transition_count :: nat
  terminal_count :: nat
  maximum_depth :: nat
  clean_shutdown :: "string list"
  budget_exhaustion :: "string list"
  kill_timeout_trace :: "string list"

definition explore :: "int \<Rightarrow> nat \<Rightarrow> exploration_receipt result" where
  "explore worker_count depth =
     bindE (initial_state worker_count) (\<lambda>start.
     bindE (explore_loop depth \<lparr>todo = [(start, 0, [])], seen = [(start, 0)], transitions = 0,
       terminal_states = [], clean_shutdown_witness = [], budget_exhaustion_witness = [],
       kill_timeout_witness = []\<rparr>) (\<lambda>x.
     bindE (require (clean_shutdown_witness x \<noteq> []) ''no bounded clean-shutdown witness was reachable'') (\<lambda>_.
     bindE (require (budget_exhaustion_witness x \<noteq> []) ''no bounded restart-exhaustion witness was reachable'') (\<lambda>_.
     bindE (require (kill_timeout_witness x \<noteq> []) ''no bounded kill-timeout witness was reachable'') (\<lambda>_.
     Inr \<lparr>workers = worker_count, states = length (seen x), transition_count = transitions x,
       terminal_count = length (terminal_states x), maximum_depth = depth,
       clean_shutdown = clean_shutdown_witness x, budget_exhaustion = budget_exhaustion_witness x,
       kill_timeout_trace = kill_timeout_witness x\<rparr>)))))"
section \<open>The step relation\<close>

lemma enumerate_mem: "(i, x) \<in> set (enumerate 0 xs) \<longleftrightarrow> i < length xs \<and> x = xs ! i"
  by (auto simp: in_set_enumerate_eq)

lemma slot_event_simps [simp]:
  "kind (slot_event k i) = k" "slot (slot_event k i) = Some i"
  "kind (global_event k) = k" "slot (global_event k) = None"
  "slot_event k i = slot_event k' i' \<longleftrightarrow> k = k' \<and> i = i'" "global_event k = global_event k' \<longleftrightarrow> k = k'"
  "slot_event k i \<noteq> global_event k'" "global_event k' \<noteq> slot_event k i"
  by (auto simp: slot_event_def global_event_def)

definition delay :: "int \<Rightarrow> int" where
  "delay n = min MODEL_MAX_BACKOFF_SECONDS (2 ^ nat (n - 1))"

lemma expected_backoff_delay: "1 \<le> n \<Longrightarrow> expected_backoff n MODEL_MAX_BACKOFF_SECONDS = Inr (delay n)"
  by (simp add: expected_backoff_def delay_def)

text \<open>
  The transitions as a relation, one rule per outcome: the guard that \<^verbatim>\<open>enabled_events\<close> computes and
  the effect that \<^verbatim>\<open>transition\<close> computes.
\<close>

inductive sup_step :: "supervisor_state \<Rightarrow> event \<Rightarrow> supervisor_state \<Rightarrow> bool" where
  stop: "\<not> kill_timeout s \<Longrightarrow> \<not> stopping s \<Longrightarrow> sup_step s (global_event STOP_REQUESTED) (stop_requested s)"
| restart: "\<not> kill_timeout s \<Longrightarrow> \<not> stopping s \<Longrightarrow> i < length (slots s) \<Longrightarrow> x = slots s ! i \<Longrightarrow>
    phase x = RUNNING \<Longrightarrow> attempts x < MODEL_MAX_RESTARTS \<Longrightarrow>
    sup_step s (slot_event CRASH i) (s\<lparr>slots := (slots s)[i := x\<lparr>phase := BACKOFF,
      attempts := attempts x + 1, backoff_seconds := delay (attempts x + 1)\<rparr>]\<rparr>)"
| exhausted: "\<not> kill_timeout s \<Longrightarrow> \<not> stopping s \<Longrightarrow> i < length (slots s) \<Longrightarrow> x = slots s ! i \<Longrightarrow>
    phase x = RUNNING \<Longrightarrow> MODEL_MAX_RESTARTS \<le> attempts x \<Longrightarrow>
    sup_step s (slot_event CRASH i) (s\<lparr>stopping := True, budget_exhausted := True,
      slots := stop_slots (slots s) (Some i) (Some (attempts x + 1))\<rparr>)"
| stable: "\<not> kill_timeout s \<Longrightarrow> \<not> stopping s \<Longrightarrow> i < length (slots s) \<Longrightarrow> x = slots s ! i \<Longrightarrow>
    phase x = RUNNING \<Longrightarrow>
    sup_step s (slot_event STABLE_EXIT i) (s\<lparr>slots := (slots s)[i := x\<lparr>phase := BACKOFF,
      attempts := 1, backoff_seconds := delay 1\<rparr>]\<rparr>)"
| window: "\<not> kill_timeout s \<Longrightarrow> \<not> stopping s \<Longrightarrow> i < length (slots s) \<Longrightarrow> x = slots s ! i \<Longrightarrow>
    phase x = RUNNING \<Longrightarrow> attempts x \<noteq> 0 \<Longrightarrow>
    sup_step s (slot_event WINDOW_ELAPSED i) (s\<lparr>slots := (slots s)[i := x\<lparr>attempts := 0\<rparr>]\<rparr>)"
| respawn: "\<not> kill_timeout s \<Longrightarrow> \<not> stopping s \<Longrightarrow> i < length (slots s) \<Longrightarrow> x = slots s ! i \<Longrightarrow>
    phase x = BACKOFF \<Longrightarrow>
    sup_step s (slot_event BACKOFF_ELAPSED i) (s\<lparr>slots := (slots s)[i := x\<lparr>phase := RUNNING,
      backoff_seconds := 0, generation := generation x + 1\<rparr>]\<rparr>)"
| exited: "\<not> kill_timeout s \<Longrightarrow> stopping s \<Longrightarrow> i < length (slots s) \<Longrightarrow> x = slots s ! i \<Longrightarrow>
    phase x \<in> {STOPPING, KILLING} \<Longrightarrow>
    sup_step s (slot_event CHILD_EXITED i) (s\<lparr>slots := (slots s)[i := x\<lparr>phase := STOPPED,
      backoff_seconds := 0\<rparr>]\<rparr>)"
| terminate: "\<not> kill_timeout s \<Longrightarrow> stopping s \<Longrightarrow> \<not> terminate_grace_elapsed s \<Longrightarrow>
    \<exists>x\<in>set (slots s). phase x = STOPPING \<Longrightarrow>
    sup_step s (global_event TERMINATE_GRACE_EXPIRED) (terminate_grace_expired s)"
| kill: "\<not> kill_timeout s \<Longrightarrow> stopping s \<Longrightarrow> terminate_grace_elapsed s \<Longrightarrow> \<not> kill_grace_elapsed s \<Longrightarrow>
    \<exists>x\<in>set (slots s). phase x = KILLING \<Longrightarrow>
    sup_step s (global_event KILL_GRACE_EXPIRED) (kill_grace_expired s)"

inductive_cases sup_step_slotE: "sup_step s (slot_event k i) t"
inductive_cases sup_step_globalE: "sup_step s (global_event k) t"

lemma enabled_cases:
  assumes "e \<in> set (enabled_events s)"
  obtains (stop) "e = global_event STOP_REQUESTED" "\<not> kill_timeout s" "\<not> stopping s"
  | (running) i k where "e = slot_event k i" "k \<in> {CRASH, STABLE_EXIT}" "\<not> kill_timeout s" "\<not> stopping s"
      "i < length (slots s)" "phase (slots s ! i) = RUNNING"
  | (window) i where "e = slot_event WINDOW_ELAPSED i" "\<not> kill_timeout s" "\<not> stopping s"
      "i < length (slots s)" "phase (slots s ! i) = RUNNING" "attempts (slots s ! i) \<noteq> 0"
  | (respawn) i where "e = slot_event BACKOFF_ELAPSED i" "\<not> kill_timeout s" "\<not> stopping s"
      "i < length (slots s)" "phase (slots s ! i) = BACKOFF"
  | (exited) i where "e = slot_event CHILD_EXITED i" "\<not> kill_timeout s" "stopping s"
      "i < length (slots s)" "phase (slots s ! i) \<in> {STOPPING, KILLING}"
  | (terminate) "e = global_event TERMINATE_GRACE_EXPIRED" "\<not> kill_timeout s" "stopping s"
      "\<not> terminate_grace_elapsed s" "\<exists>x\<in>set (slots s). phase x = STOPPING"
  | (kill) "e = global_event KILL_GRACE_EXPIRED" "\<not> kill_timeout s" "stopping s"
      "terminate_grace_elapsed s" "\<not> kill_grace_elapsed s" "\<exists>x\<in>set (slots s). phase x = KILLING"
proof -
  from assms have k: "\<not> kill_timeout s" by (auto simp: enabled_events_def split: if_split_asm)
  show ?thesis
  proof (cases "stopping s")
    case True
    with assms k that show ?thesis
      by (auto simp: enabled_events_def stopping_events_def enumerate_mem list_ex_iff split: if_split_asm)
  next
    case False
    with assms k that show ?thesis
      by (auto simp: enabled_events_def set_insort_key running_events_def enumerate_mem split: if_split_asm)
  qed
qed

lemma slot_enabled:
  assumes "i < length (slots s)" "\<not> kill_timeout s"
  shows "\<not> stopping s \<Longrightarrow> phase (slots s ! i) = RUNNING \<Longrightarrow> slot_event CRASH i \<in> set (enabled_events s)"
    "\<not> stopping s \<Longrightarrow> phase (slots s ! i) = RUNNING \<Longrightarrow> slot_event STABLE_EXIT i \<in> set (enabled_events s)"
    "\<not> stopping s \<Longrightarrow> phase (slots s ! i) = RUNNING \<Longrightarrow> attempts (slots s ! i) \<noteq> 0 \<Longrightarrow>
       slot_event WINDOW_ELAPSED i \<in> set (enabled_events s)"
    "\<not> stopping s \<Longrightarrow> phase (slots s ! i) = BACKOFF \<Longrightarrow> slot_event BACKOFF_ELAPSED i \<in> set (enabled_events s)"
    "stopping s \<Longrightarrow> phase (slots s ! i) \<in> {STOPPING, KILLING} \<Longrightarrow>
       slot_event CHILD_EXITED i \<in> set (enabled_events s)"
proof -
  have mem: "(i, slots s ! i) \<in> set (enumerate 0 (slots s))" using assms by (simp add: enumerate_mem)
  show "\<not> stopping s \<Longrightarrow> phase (slots s ! i) = RUNNING \<Longrightarrow> slot_event CRASH i \<in> set (enabled_events s)"
    "\<not> stopping s \<Longrightarrow> phase (slots s ! i) = RUNNING \<Longrightarrow> slot_event STABLE_EXIT i \<in> set (enabled_events s)"
    "\<not> stopping s \<Longrightarrow> phase (slots s ! i) = RUNNING \<Longrightarrow> attempts (slots s ! i) \<noteq> 0 \<Longrightarrow>
       slot_event WINDOW_ELAPSED i \<in> set (enabled_events s)"
    "\<not> stopping s \<Longrightarrow> phase (slots s ! i) = BACKOFF \<Longrightarrow> slot_event BACKOFF_ELAPSED i \<in> set (enabled_events s)"
    using assms(2) by (auto simp: enabled_events_def set_insort_key running_events_def intro!: bexI [OF _ mem])
      (rule exI [of _ "slots s ! i"], simp)
  show "stopping s \<Longrightarrow> phase (slots s ! i) \<in> {STOPPING, KILLING} \<Longrightarrow>
       slot_event CHILD_EXITED i \<in> set (enabled_events s)"
    using assms(2) by (auto simp: enabled_events_def stopping_events_def intro!: bexI [OF _ mem])
qed

lemma global_enabled:
  assumes "\<not> kill_timeout s"
  shows "\<not> stopping s \<Longrightarrow> global_event STOP_REQUESTED \<in> set (enabled_events s)"
    "stopping s \<Longrightarrow> \<not> terminate_grace_elapsed s \<Longrightarrow> \<exists>x\<in>set (slots s). phase x = STOPPING \<Longrightarrow>
       global_event TERMINATE_GRACE_EXPIRED \<in> set (enabled_events s)"
    "stopping s \<Longrightarrow> terminate_grace_elapsed s \<Longrightarrow> \<not> kill_grace_elapsed s \<Longrightarrow>
       \<exists>x\<in>set (slots s). phase x = KILLING \<Longrightarrow> global_event KILL_GRACE_EXPIRED \<in> set (enabled_events s)"
  using assms by (simp_all add: enabled_events_def set_insort_key list_ex_iff)

lemmas transition_defs = transition_def with_slot_def crash_def stable_exit_def window_elapsed_def
  backoff_elapsed_def child_exited_def Let_def

definition attempts_nonneg :: "supervisor_state \<Rightarrow> bool" where
  "attempts_nonneg s \<longleftrightarrow> (\<forall>x\<in>set (slots s). 0 \<le> attempts x)"

lemma crash_transition:
  assumes "i < length (slots s)" "\<not> kill_timeout s" "\<not> stopping s" "phase (slots s ! i) = RUNNING"
    "attempts_nonneg s"
  shows "\<exists>t. transition s (slot_event CRASH i) = Inr t \<and> sup_step s (slot_event CRASH i) t"
proof (cases "attempts (slots s ! i) < MODEL_MAX_RESTARTS")
  case True
  with assms have "0 \<le> attempts (slots s ! i)" by (simp add: attempts_nonneg_def)
  with True assms slot_enabled [OF assms(1,2)] show ?thesis
    by (auto simp: transition_defs expected_backoff_delay intro: sup_step.restart)
next
  case False
  with assms slot_enabled [OF assms(1,2)] show ?thesis
    by (auto simp: transition_defs intro: sup_step.exhausted)
qed

text \<open>On every enabled event \<^verbatim>\<open>transition\<close> returns, and what it returns is a step.\<close>

lemma transition_enabled:
  assumes "e \<in> set (enabled_events s)" "attempts_nonneg s"
  shows "\<exists>t. transition s e = Inr t \<and> sup_step s e t"
  using assms(1)
proof (cases rule: enabled_cases)
  case (running i k)
  show ?thesis
  proof (cases "k = CRASH")
    case True
    with running assms(2) crash_transition show ?thesis by simp
  next
    case False
    with running have "k = STABLE_EXIT" by simp
    with running assms(1) show ?thesis
      by (auto simp: transition_defs expected_backoff_delay intro: sup_step.stable)
  qed
next
  case (exited i)
  with assms(1) show ?thesis by (auto simp: transition_defs intro: sup_step.exited)
qed (use assms(1) in \<open>auto simp: transition_defs intro: sup_step.intros\<close>)

lemma transition_sup_step:
  "attempts_nonneg s \<Longrightarrow> transition s e = Inr t \<Longrightarrow> sup_step s e t \<and> e \<in> set (enabled_events s)"
proof -
  assume a: "attempts_nonneg s" "transition s e = Inr t"
  then have "e \<in> set (enabled_events s)" by (auto simp: transition_def split: if_split_asm)
  with transition_enabled [OF this] a show ?thesis by auto
qed

section \<open>The inductive invariant\<close>

text \<open>
  What one slot may look like, given the stop flags. It is stronger than what
  \<^verbatim>\<open>invariant_errors\<close> checks: that a running slot has not used up its restarts, and which flag each
  shutdown phase goes with, is needed for the induction.
\<close>

definition slot_ok :: "bool \<Rightarrow> bool \<Rightarrow> bool \<Rightarrow> slot_state \<Rightarrow> bool" where
  "slot_ok st tg kg x \<longleftrightarrow> 0 \<le> generation x \<and> 0 \<le> attempts x \<and> attempts x \<le> MODEL_MAX_RESTARTS + 1
     \<and> backoff_seconds x = (if phase x = BACKOFF then delay (attempts x) else 0)
     \<and> (case phase x of
          RUNNING \<Rightarrow> \<not> st \<and> attempts x \<le> MODEL_MAX_RESTARTS
        | BACKOFF \<Rightarrow> \<not> st \<and> 1 \<le> attempts x \<and> attempts x \<le> MODEL_MAX_RESTARTS
        | STOPPING \<Rightarrow> st \<and> \<not> tg
        | KILLING \<Rightarrow> st \<and> tg \<and> \<not> kg
        | STOPPED \<Rightarrow> st
        | STUCK \<Rightarrow> st \<and> kg)"

definition sup_inv :: "supervisor_state \<Rightarrow> bool" where
  "sup_inv s \<longleftrightarrow> 1 \<le> length (slots s) \<and> length (slots s) \<le> MAX_MODEL_WORKERS
     \<and> (operator_stop s \<or> budget_exhausted s \<or> terminate_grace_elapsed s \<longrightarrow> stopping s)
     \<and> (kill_grace_elapsed s \<longrightarrow> terminate_grace_elapsed s)
     \<and> (kill_timeout s \<longleftrightarrow> kill_grace_elapsed s)
     \<and> (kill_timeout s \<longrightarrow> (\<exists>x\<in>set (slots s). phase x = STUCK))
     \<and> (\<forall>x\<in>set (slots s). slot_ok (stopping s) (terminate_grace_elapsed s) (kill_grace_elapsed s) x)"

lemma sup_inv_slot:
  "sup_inv s \<Longrightarrow> i < length (slots s) \<Longrightarrow>
   slot_ok (stopping s) (terminate_grace_elapsed s) (kill_grace_elapsed s) (slots s ! i)"
  by (simp add: sup_inv_def)

lemma sup_inv_nonneg: "sup_inv s \<Longrightarrow> attempts_nonneg s"
  by (simp add: sup_inv_def attempts_nonneg_def slot_ok_def)

lemma slot_errors_ok: "slot_ok st tg kg x \<Longrightarrow> slot_errors (i, x) = []"
  by (auto simp: slot_ok_def slot_errors_def flag_def expected_backoff_delay Let_def split: phase.splits)

lemma sup_inv_errors: "sup_inv s \<Longrightarrow> invariant_errors s = []"
proof -
  assume inv: "sup_inv s"
  then have "slot_errors p = []" if "p \<in> set (enumerate 0 (slots s))" for p
    using that by (cases p) (auto simp: enumerate_mem intro: slot_errors_ok [OF sup_inv_slot])
  then have slots: "concat (map slot_errors (enumerate 0 (slots s))) = []" by simp
  have "length (filter (\<lambda>x. phase x \<in> {RUNNING, STOPPING, KILLING, STUCK}) (slots s)) \<le> MAX_MODEL_WORKERS"
    using inv length_filter_le le_trans unfolding sup_inv_def by blast
  moreover have "\<not> (stopping s \<and> list_ex (\<lambda>x. phase x = BACKOFF) (slots s))"
    "\<not> (\<not> stopping s \<and> list_ex (\<lambda>x. phase x \<in> {STOPPING, KILLING, STOPPED, STUCK}) (slots s))"
    using inv by (fastforce simp: sup_inv_def slot_ok_def list_ex_iff)+
  moreover have "kill_timeout s \<longrightarrow> list_ex (\<lambda>x. phase x = STUCK) (slots s)"
    using inv by (simp add: sup_inv_def list_ex_iff)
  ultimately show ?thesis using inv slots unfolding invariant_errors_def sup_inv_def
    by (simp add: flag_def) auto
qed

lemma stop_slots_length [simp]: "length (stop_slots xs e n) = length xs"
  by (simp add: stop_slots_def)

lemma stop_slots_nth: "i < length xs \<Longrightarrow> stop_slots xs e n ! i = stop_slot e n (i, xs ! i)"
  by (simp add: stop_slots_def nth_enumerate_eq)

lemma stop_slots_mem:
  "y \<in> set (stop_slots xs e n) \<Longrightarrow> \<exists>i<length xs. y = stop_slot e n (i, xs ! i)"
  by (auto simp: in_set_conv_nth stop_slots_nth)

lemma stop_slot_ok:
  assumes "slot_ok False tg kg x" "\<not> tg" "\<not> kg" "e = Some i \<longrightarrow> (\<exists>m. n = Some m \<and> 0 \<le> m \<and> m \<le> MODEL_MAX_RESTARTS + 1)"
  shows "slot_ok True tg kg (stop_slot e n (i, x))"
  using assms by (cases "phase x") (auto simp: slot_ok_def stop_slot_def)

lemma sup_inv_update:
  assumes "sup_inv s" "\<not> kill_timeout s"
    "slot_ok (stopping s) (terminate_grace_elapsed s) (kill_grace_elapsed s) y"
  shows "sup_inv (s\<lparr>slots := (slots s)[i := y]\<rparr>)"
  using assms set_update_subset_insert [of "slots s" i y] by (auto simp: sup_inv_def)

lemma sup_step_inv: "sup_step s e t \<Longrightarrow> sup_inv s \<Longrightarrow> sup_inv t"
proof (induction rule: sup_step.induct)
  case (stop s)
  then have "\<forall>y\<in>set (stop_slots (slots s) None None). slot_ok True False False y"
    by (auto simp: sup_inv_def intro!: stop_slot_ok dest!: stop_slots_mem)
  with stop show ?case by (simp add: sup_inv_def stop_requested_def)
next
  case (restart s i x)
  then have "slot_ok False (terminate_grace_elapsed s) (kill_grace_elapsed s)
      (x\<lparr>phase := BACKOFF, attempts := attempts x + 1, backoff_seconds := delay (attempts x + 1)\<rparr>)"
    using sup_inv_slot [of s i] by (simp add: slot_ok_def)
  with restart show ?case by (simp add: sup_inv_update)
next
  case (exhausted s i x)
  then have x: "0 \<le> attempts x" "attempts x \<le> MODEL_MAX_RESTARTS" using sup_inv_slot [of s i] by (auto simp: slot_ok_def)
  have "\<forall>y\<in>set (stop_slots (slots s) (Some i) (Some (attempts x + 1))). slot_ok True False False y"
    using exhausted x
    by (auto simp: sup_inv_def intro!: stop_slot_ok dest!: stop_slots_mem)
  with exhausted show ?case by (simp add: sup_inv_def)
next
  case (stable s i x)
  then have "slot_ok False (terminate_grace_elapsed s) (kill_grace_elapsed s)
      (x\<lparr>phase := BACKOFF, attempts := 1, backoff_seconds := delay 1\<rparr>)"
    using sup_inv_slot [of s i] by (simp add: slot_ok_def model_bounds)
  with stable show ?case by (simp add: sup_inv_update)
next
  case (window s i x)
  then have "slot_ok False (terminate_grace_elapsed s) (kill_grace_elapsed s) (x\<lparr>attempts := 0\<rparr>)"
    using sup_inv_slot [of s i] by (simp add: slot_ok_def model_bounds)
  with window show ?case by (simp add: sup_inv_update)
next
  case (respawn s i x)
  then have "slot_ok False (terminate_grace_elapsed s) (kill_grace_elapsed s)
      (x\<lparr>phase := RUNNING, backoff_seconds := 0, generation := generation x + 1\<rparr>)"
    using sup_inv_slot [of s i] by (simp add: slot_ok_def)
  with respawn show ?case by (simp add: sup_inv_update)
next
  case (exited s i x)
  then have "slot_ok True (terminate_grace_elapsed s) (kill_grace_elapsed s)
      (x\<lparr>phase := STOPPED, backoff_seconds := 0\<rparr>)"
    using sup_inv_slot [of s i] by (simp add: slot_ok_def)
  with exited show ?case by (simp add: sup_inv_update)
next
  case (terminate s)
  have "slot_ok True True False (move_phase STOPPING KILLING x)" if "slot_ok True False False x" for x
    using that by (cases "phase x") (simp_all add: slot_ok_def move_phase_def)
  with terminate show ?case by (auto simp: sup_inv_def terminate_grace_expired_def)
next
  case (kill s)
  have "slot_ok True True True (move_phase KILLING STUCK x)" if "slot_ok True True False x" for x
    using that by (cases "phase x") (simp_all add: slot_ok_def move_phase_def)
  moreover from kill(5) have "\<exists>x\<in>set (slots s). phase (move_phase KILLING STUCK x) = STUCK"
    by (auto simp: move_phase_def)
  ultimately show ?case using kill by (auto simp: sup_inv_def kill_grace_expired_def)
qed

lemma initial_inv: "initial_state n = Inr s \<Longrightarrow> sup_inv s"
  by (auto simp: initial_state_def sup_inv_def slot_ok_def model_bounds)

lemma transition_step: "sup_inv s \<Longrightarrow> transition s e = Inr t \<Longrightarrow> sup_step s e t"
  using transition_sup_step sup_inv_nonneg by blast

interpretation supervisor: validated_protocol sup_inv transition
  by unfold_locales (blast intro: sup_step_inv dest: transition_step)

section \<open>Shutdown\<close>

text \<open>After a stop no slot runs or waits to run again, and no generation grows.\<close>

lemma sup_step_stopped:
  assumes "sup_step s e t" "stopping s" "sup_inv s"
  shows "stopping t" "\<And>i. i < length (slots s) \<Longrightarrow> generation (slots t ! i) = generation (slots s ! i)"
proof -
  from assms(1,2) show "stopping t"
    by (induction rule: sup_step.induct) (simp_all add: terminate_grace_expired_def kill_grace_expired_def)
  from assms(1,2) show "generation (slots t ! i) = generation (slots s ! i)" if "i < length (slots s)" for i
    using that
    by (induction rule: sup_step.induct)
       (auto simp: terminate_grace_expired_def kill_grace_expired_def move_phase_def nth_list_update)
qed

lemma stopped_phase: "sup_inv s \<Longrightarrow> stopping s \<Longrightarrow> x \<in> set (slots s) \<Longrightarrow> phase x \<notin> {RUNNING, BACKOFF}"
  by (auto simp: sup_inv_def slot_ok_def split: phase.splits)

lemma sup_step_length: "sup_step s e t \<Longrightarrow> length (slots t) = length (slots s)"
  by (induction rule: sup_step.induct)
     (simp_all add: stop_requested_def terminate_grace_expired_def kill_grace_expired_def)

text \<open>What is left to do once the supervisor is stopping.\<close>

definition waiting :: "slot_state \<Rightarrow> nat" where
  "waiting x = (if phase x \<in> {STOPPING, KILLING} then 1 else 0)"

definition shutdown_left :: "supervisor_state \<Rightarrow> nat" where
  "shutdown_left s = sum_list (map waiting (slots s))
     + (if terminate_grace_elapsed s then 0 else 1) + (if kill_grace_elapsed s then 0 else 1)"

lemma shutdown_left_bound: "shutdown_left s \<le> length (slots s) + 2"
proof -
  have "sum_list (map waiting xs) \<le> length xs" for xs
    by (induction xs) (simp_all add: waiting_def)
  from this [of "slots s"] show ?thesis by (simp add: shutdown_left_def)
qed

lemma waiting_update:
  "i < length xs \<Longrightarrow> waiting (xs ! i) = 1 \<Longrightarrow> waiting y = 0 \<Longrightarrow>
   sum_list (map waiting (xs[i := y])) < sum_list (map waiting xs)"
proof (induction xs arbitrary: i)
  case (Cons x xs)
  then show ?case by (cases i) simp_all
qed simp

lemma shutdown_decreases:
  assumes "sup_step s e t" "stopping s"
  shows "shutdown_left t < shutdown_left s"
  using assms
proof (induction rule: sup_step.induct)
  case (exited s i x)
  then show ?case
    by (simp add: shutdown_left_def waiting_update [of i "slots s"] waiting_def)
next
  case (terminate s)
  have "map waiting (map (move_phase STOPPING KILLING) xs) = map waiting xs" for xs
    by (simp add: waiting_def move_phase_def)
  with terminate show ?case by (simp add: shutdown_left_def terminate_grace_expired_def del: map_map)
next
  case (kill s)
  have "sum_list (map waiting (map (move_phase KILLING STUCK) xs)) \<le> sum_list (map waiting xs)" for xs
    by (induction xs) (simp_all add: waiting_def move_phase_def)
  with kill show ?case
    by (simp add: shutdown_left_def kill_grace_expired_def le_imp_less_Suc del: map_map)
qed simp_all

lemma enabled_empty_iff: "sup_inv s \<Longrightarrow> enabled_events s = [] \<longleftrightarrow> is_terminal s"
proof
  assume inv: "sup_inv s" and none: "enabled_events s = []"
  have st: "stopping s"
  proof (rule ccontr)
    assume a: "\<not> stopping s"
    with inv have "\<not> kill_timeout s" by (auto simp: sup_inv_def)
    from global_enabled(1) [OF this a] none show False by simp
  qed
  have "phase x \<in> {STOPPED, STUCK}" if "x \<in> set (slots s)" for x
  proof (cases "kill_timeout s")
    case True
    with that inv show ?thesis by (cases "phase x") (auto simp: sup_inv_def slot_ok_def)
  next
    case False
    from that obtain i where "i < length (slots s)" "x = slots s ! i" by (auto simp: in_set_conv_nth)
    with slot_enabled(5) [OF _ False, of i] st none have "phase x \<notin> {STOPPING, KILLING}" by auto
    with stopped_phase [OF inv st that] show ?thesis by (cases "phase x") simp_all
  qed
  with st show "is_terminal s" by (simp add: is_terminal_def list_all_iff)
next
  assume inv: "sup_inv s" and fin: "is_terminal s"
  have over: "phase x \<in> {STOPPED, STUCK}" if "x \<in> set (slots s)" for x
    using fin that by (simp add: is_terminal_def list_all_iff)
  have "e \<notin> set (enabled_events s)" for e
  proof
    assume "e \<in> set (enabled_events s)"
    then show False
    proof (cases rule: enabled_cases)
      case (exited i)
      with over [OF nth_mem, of i] show False by auto
    qed (use fin in \<open>auto simp: is_terminal_def dest: over\<close>)
  qed
  then show "enabled_events s = []" by (metis last_in_set)
qed

text \<open>A run of the supervisor is a sequence of transitions that all return.\<close>

lemma run_inv: "foldE transition s es = Inr t \<Longrightarrow> sup_inv s \<Longrightarrow> sup_inv t"
  by (rule foldE_invariant [where P = sup_inv]) (blast intro: supervisor.step_valid)+

lemma run_stopped:
  assumes "foldE transition s es = Inr t" "sup_inv s" "stopping s"
  shows "stopping t \<and> length (slots t) = length (slots s)
    \<and> (\<forall>i<length (slots s). generation (slots t ! i) = generation (slots s ! i))
    \<and> length es + shutdown_left t \<le> shutdown_left s"
  using assms
proof (induction es arbitrary: s)
  case Nil
  then show ?case by simp
next
  case (Cons e es)
  then obtain u where u: "transition s e = Inr u" "foldE transition u es = Inr t" by auto
  from transition_step [OF Cons.prems(2) u(1)] have st: "sup_step s e u" .
  note stopped = sup_step_stopped [OF st Cons.prems(3,2)]
  from Cons.IH [OF u(2) sup_step_inv [OF st Cons.prems(2)] stopped(1)]
    shutdown_decreases [OF st Cons.prems(3)] stopped(2) sup_step_length [OF st]
  show ?case by auto
qed

section \<open>Exploration is exhaustive\<close>

inductive reach :: "supervisor_state \<Rightarrow> nat \<Rightarrow> supervisor_state \<Rightarrow> bool" for s0 where
  start: "reach s0 0 s0"
| step: "reach s0 k s \<Longrightarrow> transition s e = Inr t \<Longrightarrow> reach s0 (Suc k) t"

lemma reach_inv: "reach s0 k s \<Longrightarrow> sup_inv s0 \<Longrightarrow> sup_inv s"
  by (induction rule: reach.induct) (auto intro: supervisor.step_valid)

lemma reach_run: "reach s0 k s \<longleftrightarrow> (\<exists>es. length es = k \<and> foldE transition s0 es = Inr s)"
proof
  assume "reach s0 k s"
  then show "\<exists>es. length es = k \<and> foldE transition s0 es = Inr s"
  proof (induction rule: reach.induct)
    case (step k s e t)
    then obtain es where "length es = k" "foldE transition s0 es = Inr s" by blast
    with step have "length (es @ [e]) = Suc k \<and> foldE transition s0 (es @ [e]) = Inr t"
      by (simp add: foldE_append)
    then show ?case by blast
  qed auto
next
  assume "\<exists>es. length es = k \<and> foldE transition s0 es = Inr s"
  then obtain es where "length es = k" "foldE transition s0 es = Inr s" by blast
  then show "reach s0 k s"
  proof (induction es arbitrary: k s rule: rev_induct)
    case (snoc e es)
    then show ?case by (auto simp: foldE_append intro: reach.step)
  qed (auto intro: reach.start)
qed

lemma no_respawn:
  assumes "sup_inv s" "stopping s" "transition s e = Inr t"
  shows "\<not> respawned s t"
proof -
  from transition_step [OF assms(1,3)] have st: "sup_step s e t" .
  have inv: "sup_inv t" by (rule sup_step_inv [OF st assms(1)])
  note stopped = sup_step_stopped [OF st assms(2,1)]
  have len: "length (slots t) = length (slots s)" by (rule sup_step_length [OF st])
  show ?thesis
    unfolding respawned_def list_ex_iff
    using stopped(2) stopped_phase [OF inv stopped(1)] len by (auto simp: set_zip)
qed

text \<open>What one processed event does to the exploration.\<close>

lemma expand_event_effect:
  assumes "sup_inv s" "e \<in> set (enabled_events s)"
  obtains t y where "transition s e = Inr t" "expand_event s d trace x e = Inr y"
    "if (case map_of (seen x) t of None \<Rightarrow> True | Some m \<Rightarrow> d + 1 < m)
     then seen y = AList.update t (d + 1) (seen x) \<and> todo y = todo x @ [(t, d + 1, trace @ [e])]
     else seen y = seen x \<and> todo y = todo x"
proof -
  from transition_enabled [OF assms(2) sup_inv_nonneg [OF assms(1)]] obtain t
    where t: "transition s e = Inr t" by blast
  with no_respawn [OF assms(1) _ t] that show ?thesis
    by (cases "case map_of (seen x) t of None \<Rightarrow> True | Some m \<Rightarrow> d + 1 < m")
       (simp_all add: expand_event_def)
qed

definition found :: "exploration \<Rightarrow> supervisor_state \<Rightarrow> nat \<Rightarrow> bool" where
  "found x s k \<longleftrightarrow> (\<exists>m\<le>k. map_of (seen x) s = Some m)"

definition explored :: "nat \<Rightarrow> exploration \<Rightarrow> supervisor_state \<Rightarrow> nat \<Rightarrow> bool" where
  "explored depth x s m \<longleftrightarrow> (\<exists>trace. (s, m, trace) \<in> set (todo x)) \<or> depth \<le> m
     \<or> (\<forall>e t. transition s e = Inr t \<longrightarrow> found x t (Suc m))"

definition sound :: "supervisor_state \<Rightarrow> nat \<Rightarrow> exploration \<Rightarrow> bool" where
  "sound s0 depth x \<longleftrightarrow> distinct (map fst (seen x)) \<and> found x s0 0
     \<and> (\<forall>(s, m)\<in>set (seen x). reach s0 m s \<and> m \<le> depth)
     \<and> (\<forall>(s, d, trace)\<in>set (todo x). reach s0 d s \<and> d \<le> depth \<and> found x s d)"

text \<open>All recorded states but the one being expanded are queued, too deep, or fully expanded.\<close>

definition frontier ::
  "nat \<Rightarrow> exploration \<Rightarrow> (supervisor_state \<Rightarrow> nat \<Rightarrow> bool) \<Rightarrow> bool" where
  "frontier depth x P \<longleftrightarrow> (\<forall>s m. map_of (seen x) s = Some m \<longrightarrow> P s m \<or> explored depth x s m)"

lemma update_mem: "q \<in> set (AList.update k v xs) \<Longrightarrow> q = (k, v) \<or> q \<in> set xs"
  by (induction xs) (auto split: if_split_asm)

lemma found_update:
  assumes "found x u k" "case map_of (seen x) t of None \<Rightarrow> True | Some m \<Rightarrow> n < m"
    "seen y = AList.update t n (seen x)"
  shows "found y u k"
  using assms by (auto simp: found_def update_conv split: option.splits)

lemma explored_mono:
  assumes "explored depth x s m" "set (todo x) \<subseteq> set (todo y)" "\<And>u k. found x u k \<Longrightarrow> found y u k"
  shows "explored depth y s m"
  using assms unfolding explored_def by blast

lemma expand_event_keeps:
  assumes s: "sup_inv s" "reach s0 d s" "d < depth" and e: "e \<in> set (enabled_events s)"
    and x: "sound s0 depth x" "frontier depth x P" and y: "expand_event s d trace x e = Inr y"
  shows "sound s0 depth y \<and> frontier depth y P \<and> (\<forall>u k. found x u k \<longrightarrow> found y u k)
    \<and> (\<forall>t. transition s e = Inr t \<longrightarrow> found y t (Suc d))"
proof -
  obtain t z where t: "transition s e = Inr t" and z: "expand_event s d trace x e = Inr z"
    and eff: "if (case map_of (seen x) t of None \<Rightarrow> True | Some m \<Rightarrow> d + 1 < m)
     then seen z = AList.update t (d + 1) (seen x) \<and> todo z = todo x @ [(t, d + 1, trace @ [e])]
     else seen z = seen x \<and> todo z = todo x"
    by (rule expand_event_effect [OF s(1) e])
  from y z have "z = y" by simp
  note eff = eff [unfolded this]
  have r: "reach s0 (Suc d) t" using s(2) t by (rule reach.step)
  show ?thesis
  proof (cases "case map_of (seen x) t of None \<Rightarrow> True | Some m \<Rightarrow> d + 1 < m")
    case True
    with eff have seen: "seen y = AList.update t (d + 1) (seen x)"
      and todo: "todo y = todo x @ [(t, d + 1, trace @ [e])]" by simp_all
    have f: "found y u k" if "found x u k" for u k by (rule found_update [OF that True seen])
    have ft: "found y t (Suc d)" by (simp add: found_def seen update_conv)
    have "sound s0 depth y"
      using x(1) r s(3) f ft unfolding sound_def
      by (auto simp: seen todo distinct_update dest!: update_mem)
    moreover have "frontier depth y P"
      unfolding frontier_def
    proof (intro allI impI)
      fix u m assume u: "map_of (seen y) u = Some m"
      show "P u m \<or> explored depth y u m"
      proof (cases "u = t")
        case True
        with u have "m = d + 1" by (simp add: seen update_conv)
        with True todo show ?thesis by (auto simp: explored_def)
      next
        case False
        with u have "map_of (seen x) u = Some m" by (simp add: seen update_conv)
        with x(2) have "P u m \<or> explored depth x u m" by (simp add: frontier_def)
        then show ?thesis using explored_mono [of depth x u m y] f todo by auto
      qed
    qed
    ultimately show ?thesis using f ft t by auto
  next
    case False
    with eff have same: "seen y = seen x" "todo y = todo x" by simp_all
    then have f: "found y = found x" by (simp add: fun_eq_iff found_def)
    then have "explored depth y u m = explored depth x u m" for u m by (simp add: explored_def same)
    moreover from False have "found x t (Suc d)" by (auto simp: found_def split: option.splits)
    ultimately show ?thesis using x t f by (simp add: sound_def frontier_def same)
  qed
qed

lemma expand_keeps:
  assumes "sup_inv s" "reach s0 d s" "d < depth" "set es \<subseteq> set (enabled_events s)"
    "sound s0 depth x" "frontier depth x P" "foldE (expand_event s d trace) x es = Inr y"
  shows "sound s0 depth y \<and> frontier depth y P \<and> (\<forall>u k. found x u k \<longrightarrow> found y u k)
    \<and> (\<forall>e\<in>set es. \<forall>t. transition s e = Inr t \<longrightarrow> found y t (Suc d))"
  using assms(4-7)
proof (induction es arbitrary: x)
  case Nil
  then show ?case by simp
next
  case (Cons e es)
  then obtain z where z: "expand_event s d trace x e = Inr z"
    "foldE (expand_event s d trace) z es = Inr y" by auto
  from Cons.prems have e: "e \<in> set (enabled_events s)" by simp
  note 1 = expand_event_keeps [OF assms(1-3) e Cons.prems(2,3) z(1)]
  with Cons.IH [OF _ _ _ z(2)] Cons.prems(1) have 2: "sound s0 depth y \<and> frontier depth y P
      \<and> (\<forall>u k. found z u k \<longrightarrow> found y u k)
      \<and> (\<forall>e\<in>set es. \<forall>t. transition s e = Inr t \<longrightarrow> found y t (Suc d))" by simp
  with 1 show ?case by auto
qed

lemma visit_returns:
  assumes "sup_inv s"
  shows "\<exists>y. visit depth x s d trace = Inr y"
proof -
  have "\<exists>y. foldE (expand_event s d trace) z (enabled_events s) = Inr y" for z
    by (rule foldE_returns) (metis expand_event_effect [OF assms])
  then show ?thesis using sup_inv_errors [OF assms] by (simp add: visit_def Let_def)
qed

lemma visit_keeps:
  assumes inv: "sup_inv s0" and x: "sound s0 depth x" "frontier depth x (\<lambda>_ _. False)"
    and todo: "todo x = (s, d, trace) # rest" and y: "visit depth (x\<lparr>todo := rest\<rparr>) s d trace = Inr y"
  shows "sound s0 depth y \<and> frontier depth y (\<lambda>_ _. False)"
proof -
  let ?x = "note_terminal s trace (x\<lparr>todo := rest\<rparr>)"
  have f: "found ?x = found x" by (simp add: fun_eq_iff found_def)
  from x(1) todo have s: "reach s0 d s" "d \<le> depth" "found x s d" by (auto simp: sound_def)
  have sound: "sound s0 depth ?x" using x(1) todo f by (simp add: sound_def)
  have front: "frontier depth ?x (\<lambda>u m. u = s \<and> m = d)"
    unfolding frontier_def
  proof (intro allI impI)
    fix u m assume "map_of (seen ?x) u = Some m"
    with x(2) have "explored depth x u m" by (simp add: frontier_def)
    then show "(u = s \<and> m = d) \<or> explored depth ?x u m" using todo f by (auto simp: explored_def)
  qed
  show ?thesis
  proof (cases "depth \<le> d")
    case True
    with y have "y = ?x" by (auto simp: visit_def Let_def)
    moreover have "explored depth ?x s d" using True by (simp add: explored_def)
    ultimately show ?thesis using sound front by (auto simp: frontier_def)
  next
    case False
    with y have "foldE (expand_event s d trace) ?x (enabled_events s) = Inr y"
      by (auto simp: visit_def Let_def)
    from expand_keeps [OF reach_inv [OF s(1) inv] s(1) _ order_refl sound front this] False
    have *: "sound s0 depth y" "frontier depth y (\<lambda>u m. u = s \<and> m = d)"
      "\<forall>e\<in>set (enabled_events s). \<forall>t. transition s e = Inr t \<longrightarrow> found y t (Suc d)" by auto
    have "found y t (Suc d)" if "transition s e = Inr t" for e t
      using *(3) that by (auto simp: transition_def split: if_split_asm)
    then have "explored depth y s d" by (simp add: explored_def)
    with * show ?thesis by (auto simp: frontier_def)
  qed
qed

lemma explore_loop_correct:
  assumes "sup_inv s0" "sound s0 depth x" "frontier depth x (\<lambda>_ _. False)"
  shows "\<exists>y. explore_loop depth x = Inr y \<and> sound s0 depth y \<and> frontier depth y (\<lambda>_ _. False) \<and> todo y = []"
  using assms(2,3)
proof (induction depth x rule: explore_loop.induct)
  case (1 depth x)
  show ?case
  proof (cases "todo x")
    case Nil
    with 1 show ?thesis by (simp add: explore_loop.simps)
  next
    case (Cons q rest)
    obtain s d trace where q: "q = (s, d, trace)" by (cases q)
    note todo = Cons [unfolded q]
    from todo 1(2) have "reach s0 d s" by (auto simp: sound_def)
    from visit_returns [OF reach_inv [OF this assms(1)]] obtain y
      where y: "visit depth (x\<lparr>todo := rest\<rparr>) s d trace = Inr y" by blast
    from visit_keeps [OF assms(1) 1(2,3) todo y] 1(1) [OF todo refl refl y]
    show ?thesis by (auto simp: explore_loop.simps [of depth x] todo y)
  qed
qed

lemma explored_all:
  assumes "sound s0 depth y" "frontier depth y (\<lambda>_ _. False)" "todo y = []" "reach s0 k s" "k \<le> depth"
  shows "found y s k"
  using assms(4,5)
proof (induction rule: reach.induct)
  case start
  then show ?case using assms(1) by (simp add: sound_def)
next
  case (step k s e t)
  then obtain m where m: "m \<le> k" "map_of (seen y) s = Some m" by (auto simp: found_def)
  from assms(2) m have "explored depth y s m" by (simp add: frontier_def)
  moreover from step m have "\<not> depth \<le> m" by simp
  moreover have "set (todo y) = {}" using assms(3) by simp
  ultimately have "found y t (Suc m)" unfolding explored_def using step(2) by (metis empty_iff)
  with m show ?case by (force simp: found_def)
qed

lemma seen_exactly:
  assumes "sound s0 depth y" "frontier depth y (\<lambda>_ _. False)" "todo y = []"
  shows "fst ` set (seen y) = {s. \<exists>k\<le>depth. reach s0 k s}"
proof
  show "fst ` set (seen y) \<subseteq> {s. \<exists>k\<le>depth. reach s0 k s}"
    using assms(1) unfolding sound_def by fastforce
  show "{s. \<exists>k\<le>depth. reach s0 k s} \<subseteq> fst ` set (seen y)"
  proof
    fix s assume "s \<in> {s. \<exists>k\<le>depth. reach s0 k s}"
    then obtain k where "k \<le> depth" "reach s0 k s" by blast
    with explored_all [OF assms] obtain m where "map_of (seen y) s = Some m"
      unfolding found_def by blast
    then have "(s, m) \<in> set (seen y)" by (rule map_of_SomeD)
    then show "s \<in> fst ` set (seen y)" by force
  qed
qed

lemma explore_start:
  "sound s0 depth \<lparr>todo = [(s0, 0, [])], seen = [(s0, 0)], transitions = 0, terminal_states = [],
     clean_shutdown_witness = [], budget_exhaustion_witness = [], kill_timeout_witness = []\<rparr>
   \<and> frontier depth \<lparr>todo = [(s0, 0, [])], seen = [(s0, 0)], transitions = 0, terminal_states = [],
     clean_shutdown_witness = [], budget_exhaustion_witness = [], kill_timeout_witness = []\<rparr> (\<lambda>_ _. False)"
  by (auto simp: sound_def frontier_def found_def explored_def intro: reach.start split: if_split_asm)


section \<open>Properties\<close>

definition one_worker :: supervisor_state where
  "one_worker = \<lparr>stopping = False, operator_stop = False, budget_exhausted = False,
     terminate_grace_elapsed = False, kill_grace_elapsed = False, kill_timeout = False,
     slots = [\<lparr>phase = RUNNING, attempts = 0, backoff_seconds = 0, generation = 0\<rparr>]\<rparr>"

lemma one_worker_initial: "initial_state 1 = Inr one_worker"
  by (simp add: initial_state_def one_worker_def MAX_MODEL_WORKERS_def)

definition crash_then_stop :: "event list" where
  "crash_then_stop = [slot_event CRASH 0, slot_event BACKOFF_ELAPSED 0, global_event STOP_REQUESTED]"

definition stopping_worker :: supervisor_state where
  "stopping_worker = one_worker\<lparr>stopping := True, operator_stop := True,
     slots := [\<lparr>phase = STOPPING, attempts = 1, backoff_seconds = 0, generation = 1\<rparr>]\<rparr>"

lemma crash_then_stop_run: "foldE transition one_worker crash_then_stop = Inr stopping_worker"
  by code_simp

definition grace_run :: "event list" where
  "grace_run = [global_event TERMINATE_GRACE_EXPIRED, global_event KILL_GRACE_EXPIRED]"

lemma grace_run_ends: "foldE transition stopping_worker grace_run = Inr (stopping_worker\<lparr>
    terminate_grace_elapsed := True, kill_grace_elapsed := True, kill_timeout := True,
    slots := [\<lparr>phase = STUCK, attempts = 1, backoff_seconds = 0, generation = 1\<rparr>]\<rparr>)"
  by code_simp

text \<open>
  C8. The supervisor's invariant holds without a bound: after any sequence of transitions, of any
  length, from an initial state, \<^verbatim>\<open>invariant_errors\<close> is empty and the number of slots is the number
  of workers.
\<close>

theorem supervisor_invariant:
  assumes "initial_state n = Inr s0" and "foldE transition s0 es = Inr t"
  shows "invariant_errors t = [] \<and> int (length (slots t)) = n"
proof -
  have inv: "sup_inv s0" by (rule initial_inv [OF assms(1)])
  have "length (slots t) = length (slots s0)"
    using assms(2) by (rule foldE_invariant [where P = "\<lambda>s. length (slots s) = length (slots s0)"])
      (auto dest: transition_slots)
  moreover have "int (length (slots s0)) = n" using assms(1) by (auto simp: initial_state_def)
  ultimately show ?thesis using sup_inv_errors [OF run_inv [OF assms(2) inv]] by simp
qed

theorem supervisor_invariant_witness: "invariant_errors stopping_worker = []"
  using supervisor_invariant [OF one_worker_initial crash_then_stop_run] by blast

text \<open>
  \<^verbatim>\<open>transition\<close> is defined exactly on the enabled events: in every reachable state it returns for
  each event of \<^verbatim>\<open>enabled_events\<close>, and raises \<^verbatim>\<open>ModelCheckError\<close> for every other one; no assertion
  of the code fails.
\<close>

lemma supervisor_enabled:
  assumes "initial_state n = Inr s0" and "foldE transition s0 es = Inr t"
  shows "if e \<in> set (enabled_events t) then \<exists>u. transition t e = Inr u
    else transition t e = Inl (Err (''disabled transition: '' @ label e))"
proof -
  have "attempts_nonneg t" using sup_inv_nonneg run_inv [OF assms(2) initial_inv [OF assms(1)]] by blast
  then show ?thesis using transition_enabled by (auto simp: transition_def)
qed

theorem supervisor_enabled_witness:
  "\<exists>u. transition stopping_worker (slot_event CHILD_EXITED 0) = Inr u"
proof -
  have "slot_event CHILD_EXITED 0 \<in> set (enabled_events stopping_worker)" by code_simp
  then show ?thesis
    using supervisor_enabled [OF one_worker_initial crash_then_stop_run, of "slot_event CHILD_EXITED 0"]
    by simp
qed

text \<open>
  C9. No worker is started again after a stop, whatever follows: once a reachable state is stopping,
  every later state is stopping, no slot is running or waiting to respawn, and no generation changes.
\<close>

theorem supervisor_no_respawn:
  assumes "initial_state n = Inr s0" and "foldE transition s0 es = Inr s" and "stopping s"
    and "foldE transition s fs = Inr t"
  shows "stopping t \<and> map generation (slots t) = map generation (slots s)
    \<and> (\<forall>x\<in>set (slots t). phase x \<notin> {RUNNING, BACKOFF})"
proof -
  have inv: "sup_inv s" by (rule run_inv [OF assms(2) initial_inv [OF assms(1)]])
  note stopped = run_stopped [OF assms(4) inv assms(3)]
  from stopped have "map generation (slots t) = map generation (slots s)"
    by (auto intro!: nth_equalityI)
  with stopped stopped_phase [OF run_inv [OF assms(4) inv]] show ?thesis by blast
qed

theorem supervisor_no_respawn_witness:
  "\<exists>t. foldE transition stopping_worker grace_run = Inr t \<and> map generation (slots t) = [1]"
proof -
  have "stopping stopping_worker" "map generation (slots stopping_worker) = [1]"
    by (simp_all add: stopping_worker_def)
  with supervisor_no_respawn [OF one_worker_initial crash_then_stop_run _ grace_run_ends] grace_run_ends
  show ?thesis by auto
qed

text \<open>
  C10. Shutdown always ends: from a reachable stopping state every sequence of transitions has at
  most two more steps than there are workers, and the states where no event is enabled are exactly
  the terminal ones, with every slot stopped or stuck.
\<close>

theorem supervisor_shutdown_ends:
  assumes "initial_state n = Inr s0" and "foldE transition s0 es = Inr s" and "stopping s"
    and "foldE transition s fs = Inr t"
  shows "int (length fs) \<le> n + 2 \<and> (enabled_events t = [] \<longleftrightarrow> is_terminal t)
    \<and> (is_terminal t \<longrightarrow> (kill_timeout t \<longleftrightarrow> (\<exists>x\<in>set (slots t). phase x = STUCK)))"
proof -
  have inv: "sup_inv s" by (rule run_inv [OF assms(2) initial_inv [OF assms(1)]])
  have invt: "sup_inv t" by (rule run_inv [OF assms(4) inv])
  have "length (slots s) = length (slots s0)"
    using assms(2) by (rule foldE_invariant [where P = "\<lambda>s. length (slots s) = length (slots s0)"])
      (auto dest: transition_slots)
  moreover have "int (length (slots s0)) = n" using assms(1) by (auto simp: initial_state_def)
  moreover have "length fs \<le> length (slots s) + 2"
    using run_stopped [OF assms(4) inv assms(3)] shutdown_left_bound [of s] by simp
  moreover have "kill_timeout t \<longleftrightarrow> (\<exists>x\<in>set (slots t). phase x = STUCK)"
    using invt by (fastforce simp: sup_inv_def slot_ok_def)
  ultimately show ?thesis using enabled_empty_iff [OF invt] by auto
qed

theorem supervisor_shutdown_ends_witness:
  "length grace_run \<le> 3"
  using supervisor_shutdown_ends [OF one_worker_initial crash_then_stop_run _ grace_run_ends]
  by (simp add: stopping_worker_def)

text \<open>
  A crash either waits out an exponential, capped delay or stops the supervisor: in a reachable
  state that is not stopping, a crash of a running slot that has restarts left puts that slot alone
  into backoff with one more attempt, and a crash of a slot that has none left stops every slot.
\<close>

lemma supervisor_crash:
  assumes "initial_state n = Inr s0" and "foldE transition s0 es = Inr s"
    and "\<not> stopping s" and "i < length (slots s)" and "phase (slots s ! i) = RUNNING"
    and "a = attempts (slots s ! i)"
  shows "0 \<le> a \<and> a \<le> MODEL_MAX_RESTARTS
    \<and> (if a < MODEL_MAX_RESTARTS
       then transition s (slot_event CRASH i) = Inr (s\<lparr>slots := (slots s)[i := (slots s ! i)\<lparr>
           phase := BACKOFF, attempts := a + 1,
           backoff_seconds := min MODEL_MAX_BACKOFF_SECONDS (2 ^ nat a)\<rparr>]\<rparr>)
       else \<exists>t. transition s (slot_event CRASH i) = Inr t \<and> stopping t \<and> budget_exhausted t
         \<and> (\<forall>x\<in>set (slots t). phase x \<in> {STOPPING, STOPPED}) \<and> phase (slots t ! i) = STOPPED)"
proof -
  have inv: "sup_inv s" by (rule run_inv [OF assms(2) initial_inv [OF assms(1)]])
  then have k: "\<not> kill_timeout s" "\<not> terminate_grace_elapsed s" "\<not> kill_grace_elapsed s"
    using assms(3) by (auto simp: sup_inv_def)
  have a: "0 \<le> a" "a \<le> MODEL_MAX_RESTARTS"
    using sup_inv_slot [OF inv assms(4)] assms(5,6) by (auto simp: slot_ok_def)
  note enabled = slot_enabled(1) [OF assms(4) k(1) assms(3,5)]
  show ?thesis
  proof (cases "a < MODEL_MAX_RESTARTS")
    case True
    with a enabled assms(6) show ?thesis
      by (simp add: transition_defs expected_backoff_def)
  next
    case False
    let ?t = "s\<lparr>stopping := True, budget_exhausted := True,
      slots := stop_slots (slots s) (Some i) (Some (a + 1))\<rparr>"
    have t: "transition s (slot_event CRASH i) = Inr ?t"
      using False enabled assms(6) by (simp add: transition_defs)
    have invt: "sup_inv ?t" by (rule supervisor.step_valid [OF inv t])
    have "phase x \<in> {STOPPING, STOPPED}" if "x \<in> set (slots ?t)" for x
      using invt that k by (cases "phase x") (auto simp: sup_inv_def slot_ok_def)
    moreover have "phase (slots ?t ! i) = STOPPED" by (simp add: stop_slots_nth assms(4) stop_slot_def)
    ultimately show ?thesis using t a False by (intro conjI) auto
  qed
qed

theorem supervisor_crash_witness:
  "\<exists>t. transition one_worker (slot_event CRASH 0) = Inr t \<and> backoff_seconds (slots t ! 0) = 1"
  using supervisor_crash [OF one_worker_initial, of "[]" one_worker 0 0]
  by (simp add: one_worker_def model_bounds)

text \<open>
  \<^verbatim>\<open>explore\<close> is exhaustive to its depth and never reports a violation: its loop ends, and the
  exploration either returns the number of states reachable in at most \<^verbatim>\<open>depth\<close> transitions or
  raises because the depth was too small for one of the three witnesses; the invariant and respawn
  errors of the loop never occur.
\<close>

lemma explore_exhaustive:
  assumes "initial_state n = Inr s0"
  shows "case explore n depth of
      Inr r \<Rightarrow> states r = card {t. \<exists>es. length es \<le> depth \<and> foldE transition s0 es = Inr t}
    | Inl e \<Rightarrow> e \<in> {Err ''no bounded clean-shutdown witness was reachable'',
        Err ''no bounded restart-exhaustion witness was reachable'',
        Err ''no bounded kill-timeout witness was reachable''}"
proof -
  let ?x = "\<lparr>todo = [(s0, 0, [])], seen = [(s0, 0)], transitions = 0, terminal_states = [],
     clean_shutdown_witness = [], budget_exhaustion_witness = [], kill_timeout_witness = []\<rparr>"
  have "sound s0 depth ?x" "frontier depth ?x (\<lambda>_ _. False)" using explore_start by blast+
  from explore_loop_correct [OF initial_inv [OF assms] this] obtain y where
    y: "explore_loop depth ?x = Inr y" "sound s0 depth y" "frontier depth y (\<lambda>_ _. False)" "todo y = []"
    by blast
  have "{t. \<exists>es. length es \<le> depth \<and> foldE transition s0 es = Inr t} = fst ` set (seen y)"
    unfolding seen_exactly [OF y(2-4)] reach_run by auto
  moreover have "distinct (map fst (seen y))" using y(2) by (simp add: sound_def)
  then have "card (fst ` set (seen y)) = length (seen y)"
    by (metis distinct_card length_map set_map)
  ultimately have n: "card {t. \<exists>es. length es \<le> depth \<and> foldE transition s0 es = Inr t} = length (seen y)"
    by simp
  show ?thesis
    by (simp add: explore_def assms y(1) bindE_require n)
qed

definition states_of :: "exploration_receipt result \<Rightarrow> nat option" where
  "states_of r = (case r of Inr x \<Rightarrow> Some (states x) | Inl e \<Rightarrow> None)"

theorem explore_exhaustive_witness:
  "card {t. \<exists>es. length es \<le> 5 \<and> foldE transition one_worker es = Inr t} = 29"
proof -
  have "states_of (explore 1 5) = Some 29" by code_simp
  then show ?thesis
    using explore_exhaustive [OF one_worker_initial, of 5] by (simp add: states_of_def split: sum.splits)
qed

end
