(* ===== verification/RecoveryPool.thy ===== *)
theory RecoveryPool
  imports PyValue RecoverySupervisor Complex_Main
begin

text \<open>
  \<^verbatim>\<open>tools/run_continuous_artifact_recovery_pool.py\<close>: the production supervisor that runs one to three
  recovery workers. Modelled are the parsing of its environment, \<^verbatim>\<open>RestartBudget\<close> and the supervision
  loop of \<^verbatim>\<open>main\<close>.

  What the operating system decides is input: an iteration of the loop gets a \<open>tick\<close>, the readings of
  \<^verbatim>\<open>time.monotonic()\<close>, the answers of \<^verbatim>\<open>poll()\<close>, and the stop signals that are handled. The interpreter
  runs a handler between any two bytecodes of the main thread; a \<open>point\<close> names each stretch of the start-up
  and of the loop in which its effect is the same. What the loop does to processes is the list \<open>actions\<close>.
  Clock readings are rational numbers and their sums exact (the code adds floats); \<^verbatim>\<open>Popen\<close> succeeds and
  printing does not fail (an \<^verbatim>\<open>OSError\<close> of either ends \<^verbatim>\<open>main\<close> with code 2).
\<close>

definition MAX_WORKERS :: int where "MAX_WORKERS = 3"
definition DEFAULT_MAX_RESTARTS :: int where "DEFAULT_MAX_RESTARTS = 5"
definition DEFAULT_RESTART_WINDOW_SECONDS :: int where "DEFAULT_RESTART_WINDOW_SECONDS = 300"
definition DEFAULT_RESTART_BACKOFF_MAX_SECONDS :: int where "DEFAULT_RESTART_BACKOFF_MAX_SECONDS = 60"
definition DEFAULT_STABLE_RUNTIME_SECONDS :: int where "DEFAULT_STABLE_RUNTIME_SECONDS = 120"
definition DEFAULT_SHUTDOWN_GRACE_SECONDS :: int where "DEFAULT_SHUTDOWN_GRACE_SECONDS = 30"
definition DEFAULT_KILL_GRACE_SECONDS :: int where "DEFAULT_KILL_GRACE_SECONDS = 5"

lemmas pool_constants = MAX_WORKERS_def DEFAULT_MAX_RESTARTS_def DEFAULT_RESTART_WINDOW_SECONDS_def
  DEFAULT_RESTART_BACKOFF_MAX_SECONDS_def DEFAULT_STABLE_RUNTIME_SECONDS_def
  DEFAULT_SHUTDOWN_GRACE_SECONDS_def DEFAULT_KILL_GRACE_SECONDS_def

section \<open>Configuration\<close>

text \<open>\<^verbatim>\<open>(?:0|[1-9][0-9]*)\Z\<close>, matched against the whole text.\<close>

definition canonical_unsigned_decimal :: "string \<Rightarrow> bool" where
  "canonical_unsigned_decimal s \<longleftrightarrow> s = ''0'' \<or>
     (case s of [] \<Rightarrow> False | c # cs \<Rightarrow> is_digit c \<and> c \<noteq> CHR ''0'' \<and> list_all is_digit cs)"

text \<open>
  \<^verbatim>\<open>int(raw, 10)\<close> refuses more than 4300 digits with a \<^verbatim>\<open>ValueError\<close>, the interpreter's default limit
  since Python 3.11.
\<close>

definition MAX_STR_DIGITS :: nat where "MAX_STR_DIGITS = 4300"

definition int_of_digits :: "string \<Rightarrow> int result" where
  "int_of_digits s =
     (if length s > MAX_STR_DIGITS then Inl ValueError else Inr (int (digits_value s)))"

definition bounded_int ::
  "string option \<Rightarrow> string \<Rightarrow> int \<Rightarrow> int \<Rightarrow> int \<Rightarrow> int result" where
  "bounded_int raw name dflt lo hi = (case raw of
      None \<Rightarrow> Inr dflt
    | Some text \<Rightarrow>
        bindE (require (canonical_unsigned_decimal text)
          (name @ '' must be an integer encoded as canonical unsigned decimal text'')) (\<lambda>_.
        bindE (int_of_digits text) (\<lambda>value.
        bindE (require (lo \<le> value \<and> value \<le> hi)
          (name @ '' must be between '' @ str_int lo @ '' and '' @ str_int hi)) (\<lambda>_.
        Inr value))))"

definition worker_count :: "string option \<Rightarrow> int result" where
  "worker_count raw = bounded_int raw ''ARTIFACT_RECOVERY_WORKER_COUNT'' 3 1 MAX_WORKERS"

definition is_prefix_char :: "char \<Rightarrow> bool" where
  "is_prefix_char c \<longleftrightarrow> is_alnum c \<or> c \<in> set ''._-''"

definition worker_id_prefix :: "string option \<Rightarrow> string result" where
  "worker_id_prefix raw =
     (let value = (case raw of None \<Rightarrow> ''continuous-recovery'' | Some text \<Rightarrow> text) in
      bindE (require (case value of [] \<Rightarrow> False
          | c # cs \<Rightarrow> is_alnum c \<and> list_all is_prefix_char cs \<and> length cs \<le> 95)
        (''ARTIFACT_RECOVERY_WORKER_ID_PREFIX must be 1..96 ASCII ''
         @ ''letters, digits, dots, underscores, or hyphens and start ''
         @ ''with an alphanumeric character'')) (\<lambda>_.
      Inr value))"

record pool_config =
  count :: int
  prefix :: string
  max_restarts :: int
  restart_window_seconds :: int
  restart_backoff_max_seconds :: int
  stable_runtime_seconds :: int
  shutdown_grace_seconds :: int
  kill_grace_seconds :: int

definition read_config :: "(string \<Rightarrow> string option) \<Rightarrow> pool_config result" where
  "read_config getenv =
     bindE (worker_count (getenv ''ARTIFACT_RECOVERY_WORKER_COUNT'')) (\<lambda>n.
     bindE (worker_id_prefix (getenv ''ARTIFACT_RECOVERY_WORKER_ID_PREFIX'')) (\<lambda>pre.
     bindE (bounded_int (getenv ''ARTIFACT_RECOVERY_MAX_RESTARTS'')
       ''ARTIFACT_RECOVERY_MAX_RESTARTS'' DEFAULT_MAX_RESTARTS 0 100) (\<lambda>restarts.
     bindE (bounded_int (getenv ''ARTIFACT_RECOVERY_RESTART_WINDOW_SECONDS'')
       ''ARTIFACT_RECOVERY_RESTART_WINDOW_SECONDS'' DEFAULT_RESTART_WINDOW_SECONDS 10 86400) (\<lambda>window.
     bindE (bounded_int (getenv ''ARTIFACT_RECOVERY_RESTART_BACKOFF_MAX_SECONDS'')
       ''ARTIFACT_RECOVERY_RESTART_BACKOFF_MAX_SECONDS'' DEFAULT_RESTART_BACKOFF_MAX_SECONDS 1 3600) (\<lambda>backoff.
     bindE (bounded_int (getenv ''ARTIFACT_RECOVERY_STABLE_RUNTIME_SECONDS'')
       ''ARTIFACT_RECOVERY_STABLE_RUNTIME_SECONDS'' DEFAULT_STABLE_RUNTIME_SECONDS 1 86400) (\<lambda>stable.
     bindE (bounded_int (getenv ''ARTIFACT_RECOVERY_SHUTDOWN_GRACE_SECONDS'')
       ''ARTIFACT_RECOVERY_SHUTDOWN_GRACE_SECONDS'' DEFAULT_SHUTDOWN_GRACE_SECONDS 1 3600) (\<lambda>shutdown.
     bindE (bounded_int (getenv ''ARTIFACT_RECOVERY_KILL_GRACE_SECONDS'')
       ''ARTIFACT_RECOVERY_KILL_GRACE_SECONDS'' DEFAULT_KILL_GRACE_SECONDS 1 60) (\<lambda>kill.
     Inr \<lparr>count = n, prefix = pre, max_restarts = restarts, restart_window_seconds = window,
       restart_backoff_max_seconds = backoff, stable_runtime_seconds = stable,
       shutdown_grace_seconds = shutdown, kill_grace_seconds = kill\<rparr>))))))))"

section \<open>The restart budget\<close>

text \<open>\<^verbatim>\<open>_events\<close>: the restart times of each slot, oldest first.\<close>

type_synonym history = "(nat \<times> rat list) list"

definition events_of :: "history \<Rightarrow> nat \<Rightarrow> rat list" where
  "events_of h i = (case map_of h i of None \<Rightarrow> [] | Some ts \<Rightarrow> ts)"

definition reset :: "history \<Rightarrow> nat \<Rightarrow> history" where
  "reset h i = filter (\<lambda>p. fst p \<noteq> i) h"

text \<open>\<^verbatim>\<open>float(n)\<close> for a power of two or a configured limit: exact, until the range of a double ends.\<close>

definition float_of :: "int \<Rightarrow> rat result" where
  "float_of n = (if n < 2 ^ 1024 then Inr (of_int n) else Inl OverflowError)"

definition record_exit ::
  "pool_config \<Rightarrow> history \<Rightarrow> nat \<Rightarrow> rat \<Rightarrow> (bool \<times> rat \<times> nat \<times> history) result" where
  "record_exit cfg h i observed_at =
     (let cutoff = observed_at - of_int (restart_window_seconds cfg);
          kept = dropWhile (\<lambda>t. t < cutoff) (events_of h i) @ [observed_at];
          n = length kept;
          allowed = int n \<le> max_restarts cfg
      in bindE (float_of (restart_backoff_max_seconds cfg)) (\<lambda>limit.
         bindE (float_of (2 ^ (n - 1))) (\<lambda>power.
         Inr (allowed, min limit power, n, dict_set h i kept))))"

section \<open>The supervision loop\<close>

datatype action =
    Spawn nat string
  | Terminate nat
  | Kill nat
  | Scheduled nat int nat rat
  | Exhausted nat nat
  | Undead

record pool =
  halting :: bool
  exit_code :: int
  shutdown_deadline :: "rat option"
  kill_deadline :: "rat option"
  kill_sent :: bool
  children :: "nat list"
  started_at :: "(nat \<times> rat) list"
  pending_respawns :: "(nat \<times> rat) list"
  restarts :: history
  actions :: "action list"

text \<open>
  Where a signal may be handled: before an iteration looks at its children; before child \<open>i\<close> is polled
  or the answer tested against \<^verbatim>\<open>stopping\<close>; after that test and before the restart of slot \<open>i\<close> is entered
  or refused; around the message about slot \<open>i\<close>; before the test \<^verbatim>\<open>if stopping\<close> after the reaping loop;
  after it and before the due slots are listed; before the listed slot \<open>i\<close> is looked at; after its worker
  is started and before it is a child; between that and the \<^verbatim>\<open>del\<close>; and while the loop sleeps.
\<close>

datatype point =
    AtTop
  | BeforePoll nat
  | BeforeSchedule nat
  | AfterSchedule nat
  | AfterReap
  | BeforeRespawns
  | BeforeSpawn nat
  | DuringSpawn nat
  | AfterSpawn nat
  | AtSleep

text \<open>
  The handlers that run at a point and found \<^verbatim>\<open>stopping\<close> unset, in the order in which their bodies run,
  each with its reading of the clock and the children whose \<^verbatim>\<open>poll()\<close> answers that they have exited. There
  is more than one if a handler is interrupted by another between its test and its assignment.
\<close>

type_synonym stops = "(rat \<times> (nat \<Rightarrow> bool)) list"

record tick =
  now :: rat
  status :: "nat \<Rightarrow> int option"
  exited_reap :: "nat \<Rightarrow> bool"
  now_stop :: rat
  exited_late :: "nat \<Rightarrow> bool"
  now_respawn :: rat
  now_spawn :: "nat \<Rightarrow> rat"
  signals :: "point \<Rightarrow> stops"

definition terminate_children :: "(nat \<Rightarrow> bool) \<Rightarrow> pool \<Rightarrow> pool" where
  "terminate_children exited p = p\<lparr>actions := actions p @ map Terminate (filter (\<lambda>i. \<not> exited i) (children p))\<rparr>"

definition request_stop :: "pool_config \<Rightarrow> (rat \<times> (nat \<Rightarrow> bool)) \<Rightarrow> pool \<Rightarrow> pool" where
  "request_stop cfg h p =
     terminate_children (snd h) (p\<lparr>halting := True, pending_respawns := [],
       shutdown_deadline := Some (fst h + of_int (shutdown_grace_seconds cfg))\<rparr>)"

definition handle_signal :: "pool_config \<Rightarrow> stops \<Rightarrow> pool \<Rightarrow> pool" where
  "handle_signal cfg hs p = (if halting p then p else fold (request_stop cfg) hs p)"

definition spawn :: "pool_config \<Rightarrow> rat \<Rightarrow> nat \<Rightarrow> pool \<Rightarrow> pool" where
  "spawn cfg t i p =
     p\<lparr>started_at := dict_set (started_at p) i t,
       actions := actions p @ [Spawn i (prefix cfg @ ''-'' @ str_nat (i + 1))]\<rparr>"

text \<open>\<^verbatim>\<open>children[index] = spawn(index)\<close>: the new worker is a child only after \<^verbatim>\<open>spawn\<close> has returned.\<close>

definition start_child :: "pool_config \<Rightarrow> (point \<Rightarrow> stops) \<Rightarrow> rat \<Rightarrow> nat \<Rightarrow> pool \<Rightarrow> pool" where
  "start_child cfg sigs t i p =
     (let q = handle_signal cfg (sigs (DuringSpawn i)) (spawn cfg t i p)
      in q\<lparr>children := children q @ [i]\<rparr>)"

definition empty_pool :: pool where
  "empty_pool = \<lparr>halting = False, exit_code = 0, shutdown_deadline = None, kill_deadline = None,
     kill_sent = False, children = [], started_at = [], pending_respawns = [], restarts = [], actions = []\<rparr>"

text \<open>The start-up: it does not look at \<^verbatim>\<open>stopping\<close>, so the remaining workers start after a signal as well.\<close>

definition initial_pool :: "pool_config \<Rightarrow> (point \<Rightarrow> stops) \<Rightarrow> (nat \<Rightarrow> rat) \<Rightarrow> pool" where
  "initial_pool cfg sigs clock =
     fold (\<lambda>i p. start_child cfg sigs (clock i) i (handle_signal cfg (sigs (BeforeSpawn i)) p))
       [0..<nat (count cfg)] empty_pool"

text \<open>The restart history an exit is recorded in: forgotten when the worker ran long enough.\<close>

definition exit_history :: "pool_config \<Rightarrow> tick \<Rightarrow> pool \<Rightarrow> nat \<Rightarrow> history" where
  "exit_history cfg k p i =
     (let began = (case map_of (started_at p) i of None \<Rightarrow> now k | Some t \<Rightarrow> t);
          runtime = max 0 (now k - began)
      in if of_int (stable_runtime_seconds cfg) \<le> runtime then reset (restarts p) i else restarts p)"

text \<open>The \<^verbatim>\<open>for\<close> loop over \<^verbatim>\<open>list(children.items())\<close>; it ends early when the budget is exhausted.\<close>

fun reap :: "pool_config \<Rightarrow> tick \<Rightarrow> nat list \<Rightarrow> pool \<Rightarrow> pool result" where
  "reap cfg k [] p = Inr p"
| "reap cfg k (i # is) p0 =
     (let p = handle_signal cfg (signals k (BeforePoll i)) p0 in
      case status k i of
        None \<Rightarrow> reap cfg k is p
      | Some st \<Rightarrow>
        (let q0 = p\<lparr>children := remove1 i (children p), started_at := filter (\<lambda>x. fst x \<noteq> i) (started_at p)\<rparr>
         in if halting q0 then reap cfg k is q0
            else
              (let q = handle_signal cfg (signals k (BeforeSchedule i)) q0 in
               bindE (record_exit cfg (exit_history cfg k p i) i (now k)) (\<lambda>(allowed, wait, n, h').
               if \<not> allowed then
                 (let r = handle_signal cfg (signals k (AfterSchedule i))
                    (q\<lparr>restarts := h', actions := actions q @ [Exhausted (i + 1) n], exit_code := 2\<rparr>)
                  in Inr (terminate_children (exited_reap k)
                       (r\<lparr>halting := True, pending_respawns := [],
                          shutdown_deadline := Some (now k + of_int (shutdown_grace_seconds cfg))\<rparr>)))
               else
                 (let r = handle_signal cfg (signals k (AfterSchedule i))
                    (q\<lparr>restarts := h', pending_respawns := dict_set (pending_respawns q) i (now k + wait)\<rparr>)
                  in reap cfg k is (r\<lparr>actions := actions r @ [Scheduled (i + 1) st n wait]\<rparr>))))))"

datatype outcome = Continue pool | Return int pool

text \<open>The branch \<^verbatim>\<open>if stopping\<close>.\<close>

definition stop_phase :: "pool_config \<Rightarrow> tick \<Rightarrow> pool \<Rightarrow> outcome" where
  "stop_phase cfg k p =
     (let live = filter (\<lambda>i. \<not> exited_late k i) (children p);
          q = p\<lparr>children := live, 
            started_at := filter (\<lambda>x. \<not> (fst x \<in> set (children p) \<and> exited_late k (fst x))) (started_at p)\<rparr>
      in if live \<noteq> [] \<and> (case shutdown_deadline q of None \<Rightarrow> False | Some d \<Rightarrow> d \<le> now_stop k) then
           (if \<not> kill_sent q then
              Continue (q\<lparr>actions := actions q @ map Kill live, kill_sent := True,
                kill_deadline := Some (now_stop k + of_int (kill_grace_seconds cfg))\<rparr>)
            else if (case kill_deadline q of None \<Rightarrow> False | Some d \<Rightarrow> d \<le> now_stop k) then
              Return 2 (q\<lparr>actions := actions q @ [Undead]\<rparr>)
            else Continue q)
         else if live \<noteq> [] then Continue q
         else Return (exit_code q) q)"

text \<open>
  The \<^verbatim>\<open>for\<close> loop over \<^verbatim>\<open>list(pending_respawns.items())\<close>. The list is a snapshot: a stop signal handled
  while the loop runs clears the dictionary and leaves the snapshot, so a due entry is still spawned
  and its \<^verbatim>\<open>del\<close> raises \<^verbatim>\<open>KeyError\<close>.
\<close>

fun respawn :: "pool_config \<Rightarrow> tick \<Rightarrow> (nat \<times> rat) list \<Rightarrow> pool \<Rightarrow> pool result" where
  "respawn cfg k [] p = Inr p"
| "respawn cfg k ((i, due_at) # ps) p0 =
     (let p = handle_signal cfg (signals k (BeforeSpawn i)) p0 in
      if now_respawn k < due_at then respawn cfg k ps p
      else
        (let q = handle_signal cfg (signals k (AfterSpawn i)) (start_child cfg (signals k) (now_spawn k i) i p) in
         if i \<in> fst ` set (pending_respawns q) then
           respawn cfg k ps (q\<lparr>pending_respawns := filter (\<lambda>x. fst x \<noteq> i) (pending_respawns q)\<rparr>)
         else Inl (KeyError (str_nat i))))"

text \<open>One iteration of \<^verbatim>\<open>while children or pending_respawns\<close>.\<close>

definition iteration :: "pool_config \<Rightarrow> tick \<Rightarrow> pool \<Rightarrow> outcome result" where
  "iteration cfg k p0 =
     (let p = handle_signal cfg (signals k AtTop) p0 in
      bindE (reap cfg k (children p) p) (\<lambda>q0.
      let q = handle_signal cfg (signals k AfterReap) q0 in
      if halting q then Inr (stop_phase cfg k q)
      else
        (let r0 = handle_signal cfg (signals k BeforeRespawns) q in
         bindE (respawn cfg k (pending_respawns r0) r0) (\<lambda>r.
         Inr (Continue (handle_signal cfg (signals k AtSleep) r))))))"

fun supervise :: "pool_config \<Rightarrow> tick list \<Rightarrow> pool \<Rightarrow> outcome result" where
  "supervise cfg [] p = Inr (if children p = [] \<and> pending_respawns p = [] then Return (exit_code p) p else Continue p)"
| "supervise cfg (k # ks) p =
     (if children p = [] \<and> pending_respawns p = [] then Inr (Return (exit_code p) p)
      else bindE (iteration cfg k p) (\<lambda>out. case out of
        Continue q \<Rightarrow> supervise cfg ks q
      | Return n q \<Rightarrow> Inr (Return n q)))"

section \<open>Parsing\<close>

lemma canonical_str_nat: "canonical_unsigned_decimal s \<longleftrightarrow> (\<exists>n. s = str_nat n)"
proof
  assume a: "canonical_unsigned_decimal s"
  show "\<exists>n. s = str_nat n"
  proof (cases "s = ''0''")
    case True
    then have "s = str_nat 0" by (subst str_nat.simps) (simp add: digit_char_def, code_simp)
    then show ?thesis ..
  next
    case False
    with a have "list_all is_digit s" "s \<noteq> []" "hd s \<noteq> CHR ''0''"
      by (auto simp: canonical_unsigned_decimal_def split: list.splits)
    then have "s = str_nat (digits_value s)" by (rule str_nat_digits_value [symmetric])
    then show ?thesis ..
  qed
next
  assume "\<exists>n. s = str_nat n"
  then obtain n where s: "s = str_nat n" ..
  have "n = 0 \<or> hd (str_nat n) \<noteq> CHR ''0''"
  proof (induction n rule: str_nat.induct)
    case (1 n)
    show ?case
    proof (cases "n < 10")
      case True
      have "digit_char n \<noteq> CHR ''0''" if "0 < n"
      proof
        assume "digit_char n = CHR ''0''"
        then have "code (digit_char n) = code (CHR ''0'')" by simp
        also have "\<dots> = 48" by code_simp
        finally show False using code_digit_char [OF True] that by simp
      qed
      with True show ?thesis by (subst str_nat.simps) auto
    next
      case False
      with 1 have "hd (str_nat (n div 10)) \<noteq> CHR ''0''" by auto
      with False str_nat_not_Nil [of "n div 10"] show ?thesis by (subst str_nat.simps) simp
    qed
  qed
  moreover have "str_nat 0 = ''0''" by (subst str_nat.simps) (simp add: digit_char_def, code_simp)
  ultimately show "canonical_unsigned_decimal s"
    using str_nat_digits [of n] str_nat_not_Nil [of n] s
    by (auto simp: canonical_unsigned_decimal_def split: list.splits)
qed

lemma bounded_int_Some:
  "bounded_int (Some text) name d lo hi = Inr v \<longleftrightarrow>
     0 \<le> v \<and> text = str_nat (nat v) \<and> length text \<le> MAX_STR_DIGITS \<and> lo \<le> v \<and> v \<le> hi"
  by (auto simp: bounded_int_def int_of_digits_def bindE_eq_Inr_iff canonical_str_nat digits_value_str_nat
      split: if_split_asm)

lemma bounded_int_bounds:
  "bounded_int raw name d lo hi = Inr v \<Longrightarrow> lo \<le> d \<and> d \<le> hi \<longrightarrow> lo \<le> v \<and> v \<le> hi"
  by (cases raw) (auto simp: bounded_int_Some, simp_all add: bounded_int_def)

definition config_ok :: "pool_config \<Rightarrow> bool" where
  "config_ok cfg \<longleftrightarrow> 1 \<le> count cfg \<and> count cfg \<le> MAX_WORKERS \<and> 0 \<le> max_restarts cfg \<and> max_restarts cfg \<le> 100
     \<and> 10 \<le> restart_window_seconds cfg \<and> restart_window_seconds cfg \<le> 86400
     \<and> 1 \<le> restart_backoff_max_seconds cfg \<and> restart_backoff_max_seconds cfg \<le> 3600
     \<and> 1 \<le> stable_runtime_seconds cfg \<and> stable_runtime_seconds cfg \<le> 86400
     \<and> 1 \<le> shutdown_grace_seconds cfg \<and> shutdown_grace_seconds cfg \<le> 3600
     \<and> 1 \<le> kill_grace_seconds cfg \<and> kill_grace_seconds cfg \<le> 60"

lemma read_config_ok: "read_config getenv = Inr cfg \<Longrightarrow> config_ok cfg"
  unfolding read_config_def worker_count_def
  by (elim bindE_InrE, (drule bounded_int_bounds)+) (auto simp: config_ok_def pool_constants)

section \<open>The sliding window\<close>

lemma dropWhile_sorted:
  "sorted ts \<Longrightarrow> dropWhile (\<lambda>t. t < (c :: rat)) ts = filter (\<lambda>t. c \<le> t) ts"
proof (induction ts)
  case (Cons t ts)
  show ?case
  proof (cases "t < c")
    case True
    with Cons show ?thesis by simp
  next
    case False
    with Cons have "\<forall>u\<in>set ts. c \<le> u" by auto
    with False show ?thesis by simp
  qed
qed simp

definition window_count :: "pool_config \<Rightarrow> history \<Rightarrow> nat \<Rightarrow> rat \<Rightarrow> nat" where
  "window_count cfg h i t =
     length (filter (\<lambda>u. t - of_int (restart_window_seconds cfg) \<le> u) (events_of h i)) + 1"

lemma record_exit_eq:
  assumes "config_ok cfg" "sorted (events_of h i)" "n = window_count cfg h i t" "n \<le> 1024"
  shows "record_exit cfg h i t = Inr (int n \<le> max_restarts cfg,
    min (of_int (restart_backoff_max_seconds cfg)) (2 ^ (n - 1)), n,
    dict_set h i (filter (\<lambda>u. t - of_int (restart_window_seconds cfg) \<le> u) (events_of h i) @ [t]))"
proof -
  have "(2 :: int) ^ (n - 1) < 2 ^ 1024" using assms(4) by (intro power_strict_increasing) auto
  moreover have "restart_backoff_max_seconds cfg < 2 ^ 1024" 
  proof -
    have "restart_backoff_max_seconds cfg < 2 ^ 12" using assms(1) by (simp add: config_ok_def)
    also have "(2 :: int) ^ 12 \<le> 2 ^ 1024" by (rule power_increasing) auto
    finally show ?thesis .
  qed
  ultimately show ?thesis
    using assms(3) by (simp add: record_exit_def Let_def dropWhile_sorted [OF assms(2)] window_count_def float_of_def)
qed

section \<open>The loop invariant\<close>

definition slots_ok :: "pool_config \<Rightarrow> pool \<Rightarrow> bool" where
  "slots_ok cfg p \<longleftrightarrow> distinct (children p @ map fst (pending_respawns p))
     \<and> set (children p @ map fst (pending_respawns p)) \<subseteq> {..<nat (count cfg)}"

fun is_exhausted :: "action \<Rightarrow> bool" where
  "is_exhausted (Exhausted i n) = True"
| "is_exhausted _ = False"

definition exhausted :: "pool \<Rightarrow> bool" where
  "exhausted p \<longleftrightarrow> list_ex is_exhausted (actions p)"

lemma not_exhausted_map [simp]:
  "\<not> list_ex is_exhausted (map Terminate js)" "\<not> list_ex is_exhausted (map Kill js)"
  by (induction js) simp_all

text \<open>
  The bound \<open>m\<close> on the restarts a stopped pool still has pending is 1, and 0 if no signal is handled
  between the test of \<^verbatim>\<open>stopping\<close> in the reaping loop and the entry of the restart.
\<close>

definition pool_inv :: "pool_config \<Rightarrow> nat \<Rightarrow> pool \<Rightarrow> bool" where
  "pool_inv cfg m p \<longleftrightarrow> slots_ok cfg p
     \<and> (halting p \<longrightarrow> length (pending_respawns p) \<le> m \<and> shutdown_deadline p \<noteq> None)
     \<and> (\<not> halting p \<longrightarrow> exit_code p = 0 \<and> (\<forall>i. int (length (events_of (restarts p) i)) \<le> max_restarts cfg))
     \<and> exit_code p = (if exhausted p then 2 else 0)"

text \<open>What the handlers at a point do: nothing, or they stop the pool once and ask its children to end.\<close>

lemma handle_signal_halting: "halting p \<Longrightarrow> handle_signal cfg hs p = p"
  by (simp add: handle_signal_def)

lemma handle_signal_Nil [simp]: "handle_signal cfg [] p = p"
  by (simp add: handle_signal_def)

lemma request_stops:
  "hs \<noteq> [] \<Longrightarrow> \<exists>d js. fold (request_stop cfg) hs p = p\<lparr>halting := True, pending_respawns := [],
     shutdown_deadline := Some d, actions := actions p @ map Terminate js\<rparr>"
proof (induction hs rule: rev_induct)
  case (snoc h hs)
  show ?case
  proof (cases "hs = []")
    case True
    then show ?thesis by (auto simp: request_stop_def terminate_children_def)
  next
    case False
    with snoc.IH obtain d js where "fold (request_stop cfg) hs p = p\<lparr>halting := True, pending_respawns := [],
      shutdown_deadline := Some d, actions := actions p @ map Terminate js\<rparr>" by blast
    then have "fold (request_stop cfg) (hs @ [h]) p = p\<lparr>halting := True, pending_respawns := [],
      shutdown_deadline := Some (fst h + of_int (shutdown_grace_seconds cfg)),
      actions := actions p @ map Terminate (js @ filter (\<lambda>i. \<not> snd h i) (children p))\<rparr>"
      by (simp add: request_stop_def terminate_children_def)
    then show ?thesis by blast
  qed
qed simp

lemma handle_signal_cases:
  obtains (same) "handle_signal cfg hs p = p" "halting p \<or> hs = []"
    | (stop) d js where "\<not> halting p" "hs \<noteq> []"
        "handle_signal cfg hs p = p\<lparr>halting := True, pending_respawns := [], shutdown_deadline := Some d,
           actions := actions p @ map Terminate js\<rparr>"
proof (cases "halting p \<or> hs = []")
  case True
  then show ?thesis by (auto simp: handle_signal_def intro: same)
next
  case False
  with request_stops [of hs cfg p] stop show ?thesis by (auto simp: handle_signal_def)
qed

lemma handle_signal_fields [simp]:
  "children (handle_signal cfg hs p) = children p" "started_at (handle_signal cfg hs p) = started_at p"
  "restarts (handle_signal cfg hs p) = restarts p" "exit_code (handle_signal cfg hs p) = exit_code p"
  "kill_sent (handle_signal cfg hs p) = kill_sent p"
  "exhausted (handle_signal cfg hs p) = exhausted p"
  "halting (handle_signal cfg hs p) \<longleftrightarrow> halting p \<or> hs \<noteq> []"
  by (rule handle_signal_cases [of cfg hs p], auto simp: exhausted_def)+

lemma handle_signal_inv: "pool_inv cfg m p \<Longrightarrow> pool_inv cfg m (handle_signal cfg hs p)"
  by (rule handle_signal_cases [of cfg hs p]) (auto simp: pool_inv_def slots_ok_def exhausted_def)

lemma fst_dict_set: "fst ` set (dict_set d k v) = insert k (fst ` set d)"
proof (induction d)
  case (Cons x d)
  then show ?case by (cases x) auto
qed simp

lemma distinct_keys_dict_set: "distinct (map fst d) \<Longrightarrow> distinct (map fst (dict_set d k v))"
  by (induction d) (auto simp: fst_dict_set)

lemma events_of_dict_set: "events_of (dict_set h i ts) j = (if j = i then ts else events_of h j)"
  by (simp add: events_of_def map_of_dict_set)

lemma map_of_filter_ne: "map_of (filter (\<lambda>p. fst p \<noteq> i) h) j = (if j = i then None else map_of h j)"
  by (induction h) auto

lemma events_of_reset: "events_of (reset h i) j = (if j = i then [] else events_of h j)"
  by (simp add: events_of_def reset_def map_of_filter_ne)

lemma record_exit_returns:
  assumes "config_ok cfg" "\<And>j. int (length (events_of h j)) \<le> max_restarts cfg"
  obtains allowed wait n h' where "record_exit cfg h i t = Inr (allowed, wait, n, h')"
    "allowed \<longleftrightarrow> int n \<le> max_restarts cfg" "length (events_of h' i) = n"
    "\<And>j. j \<noteq> i \<Longrightarrow> events_of h' j = events_of h j"
proof -
  let ?kept = "dropWhile (\<lambda>u. u < t - of_int (restart_window_seconds cfg)) (events_of h i) @ [t]"
  have "length ?kept \<le> length (events_of h i) + 1" by (simp add: length_dropWhile_le)
  with assms(2) [of i] assms(1) have "length ?kept \<le> 101" by (simp add: config_ok_def)
  then have "(2 :: int) ^ (length ?kept - 1) < 2 ^ 1024" by (intro power_strict_increasing) auto
  moreover have "restart_backoff_max_seconds cfg < 2 ^ 1024"
  proof -
    have "restart_backoff_max_seconds cfg < 2 ^ 12" using assms(1) by (simp add: config_ok_def)
    also have "(2 :: int) ^ 12 \<le> 2 ^ 1024" by (rule power_increasing) auto
    finally show ?thesis .
  qed
  ultimately have "record_exit cfg h i t = Inr (int (length ?kept) \<le> max_restarts cfg,
      min (of_int (restart_backoff_max_seconds cfg)) (of_int (2 ^ (length ?kept - 1))), length ?kept,
      dict_set h i ?kept)"
    unfolding record_exit_def Let_def float_of_def by simp
  then show ?thesis by (rule that) (simp_all add: events_of_dict_set)
qed

text \<open>
  Reaping keeps the invariant and always returns: the restart history is too short for an overflow.
\<close>

definition calm :: "tick \<Rightarrow> bool" where
  "calm k \<longleftrightarrow> (\<forall>i. signals k (BeforeSchedule i) = [])"

lemma remove_child_inv:
  assumes "pool_inv cfg m p" "i \<in> set (children p)"
  shows "pool_inv cfg m (p\<lparr>children := remove1 i (children p), started_at := sa\<rparr>)"
  using assms by (auto simp: pool_inv_def slots_ok_def exhausted_def dest: notin_set_remove1 [rotated])

lemma schedule_inv:
  assumes "pool_inv cfg m q" "i \<notin> set (children q)" "i < nat (count cfg)"
    "halting q \<Longrightarrow> pending_respawns q = [] \<and> 0 < m"
    "\<And>j. int (length (events_of h' j)) \<le> max_restarts cfg"
  shows "pool_inv cfg m (q\<lparr>restarts := h', pending_respawns := dict_set (pending_respawns q) i t\<rparr>)"
  using assms by (auto simp: pool_inv_def slots_ok_def fst_dict_set distinct_keys_dict_set exhausted_def)

lemma exhaust_inv:
  assumes "pool_inv cfg m q"
  shows "pool_inv cfg m (terminate_children ex ((handle_signal cfg hs
    (q\<lparr>restarts := h', actions := actions q @ [Exhausted i n], exit_code := 2\<rparr>))\<lparr>halting := True,
      pending_respawns := [], shutdown_deadline := Some d\<rparr>))"
proof -
  have "list_ex is_exhausted (actions (handle_signal cfg hs
      (q\<lparr>restarts := h', actions := actions q @ [Exhausted i n], exit_code := 2\<rparr>)))"
    by (rule handle_signal_cases [of cfg hs
          "q\<lparr>restarts := h', actions := actions q @ [Exhausted i n], exit_code := 2\<rparr>"]) auto
  with assms show ?thesis
    by (auto simp: terminate_children_def pool_inv_def slots_ok_def exhausted_def)
qed

lemma report_inv:
  "pool_inv cfg m r \<Longrightarrow> pool_inv cfg m (r\<lparr>actions := actions r @ [Scheduled i st n wait]\<rparr>)"
  by (auto simp: pool_inv_def slots_ok_def exhausted_def)

lemma reap_inv:
  assumes "config_ok cfg" "pool_inv cfg m p" "distinct is" "set is \<subseteq> set (children p)"
    and calm: "0 < m \<or> calm k"
  shows "\<exists>q. reap cfg k is p = Inr q \<and> pool_inv cfg m q"
  using assms(2-4)
proof (induction "is" arbitrary: p)
  case (Cons i "is")
  let ?p = "handle_signal cfg (signals k (BeforePoll i)) p"
  have p: "pool_inv cfg m ?p" by (rule handle_signal_inv [OF Cons.prems(1)])
  show ?case
  proof (cases "status k i")
    case None
    with Cons.IH [OF p] Cons.prems show ?thesis by (simp add: Let_def)
  next
    case (Some st)
    let ?gone = "?p\<lparr>children := remove1 i (children p), started_at := filter (\<lambda>x. fst x \<noteq> i) (started_at p)\<rparr>"
    let ?q = "handle_signal cfg (signals k (BeforeSchedule i)) ?gone"
    have q0: "pool_inv cfg m ?gone" using remove_child_inv [OF p, of i] Cons.prems(3) by simp
    have q: "pool_inv cfg m ?q" by (rule handle_signal_inv [OF q0])
    have ch: "set is \<subseteq> set (remove1 i (children p))" "distinct is" "i \<notin> set (remove1 i (children p))"
      "i < nat (count cfg)" using Cons.prems by (auto simp: pool_inv_def slots_ok_def)
    show ?thesis
    proof (cases "halting ?p")
      case True
      with Cons.IH [OF q0] ch Some show ?thesis by (simp add: Let_def)
    next
      case False
      let ?h = "exit_history cfg k ?p i"
      have hist: "int (length (events_of ?h j)) \<le> max_restarts cfg" for j
        using p False assms(1)
        by (simp add: exit_history_def Let_def pool_inv_def events_of_reset config_ok_def)
      then obtain allowed wait n h' where rec: "record_exit cfg ?h i (now k) = Inr (allowed, wait, n, h')"
        and h': "allowed \<longleftrightarrow> int n \<le> max_restarts cfg" "length (events_of h' i) = n"
          "\<And>j. j \<noteq> i \<Longrightarrow> events_of h' j = events_of ?h j"
        using record_exit_returns [OF assms(1), of ?h i "now k"] by blast
      show ?thesis
      proof (cases allowed)
        case True
        have len: "int (length (events_of h' j)) \<le> max_restarts cfg" for j
          using h' True hist by (cases "j = i") simp_all
        have "pending_respawns ?q = [] \<and> 0 < m" if "halting ?q"
          using that False calm
          by (cases rule: handle_signal_cases [of cfg "signals k (BeforeSchedule i)" ?gone]) (auto simp: calm_def)
        then have "pool_inv cfg m (?q\<lparr>restarts := h',
            pending_respawns := dict_set (pending_respawns ?q) i (now k + wait)\<rparr>)"
          using schedule_inv [OF q _ ch(4) _ len] ch(3) by simp
        note report_inv [OF handle_signal_inv [OF this]]
        from Cons.IH [OF this] ch False rec True Some show ?thesis by (simp add: Let_def)
      next
        case no: False
        with exhaust_inv [OF q] Some False rec show ?thesis by (simp add: Let_def)
      qed
    qed
  qed
qed simp

text \<open>
  A tick in which no stop signal is handled while due slots are being respawned: only then can the loop
  over the snapshot meet a slot that is pending no more.
\<close>

definition quiet :: "tick \<Rightarrow> bool" where
  "quiet k \<longleftrightarrow> (\<forall>i. signals k (BeforeSpawn i) = [] \<and> signals k (DuringSpawn i) = []
     \<and> signals k (AfterSpawn i) = [])"

lemma start_child_inv:
  assumes "pool_inv cfg m p" "i \<notin> set (children p)" "i < nat (count cfg)"
    "i \<notin> fst ` set (pending_respawns p)"
  shows "pool_inv cfg m (start_child cfg sigs t i p)"
proof -
  have "pool_inv cfg m (spawn cfg t i p)"
    using assms(1) by (auto simp: spawn_def pool_inv_def slots_ok_def exhausted_def)
  then have "pool_inv cfg m (handle_signal cfg (sigs (DuringSpawn i)) (spawn cfg t i p))" (is "pool_inv _ _ ?q")
    by (rule handle_signal_inv)
  moreover have "i \<notin> fst ` set (pending_respawns ?q)" "children ?q = children p"
    using assms(4)
    by (cases rule: handle_signal_cases [of cfg "sigs (DuringSpawn i)" "spawn cfg t i p"]) (auto simp: spawn_def)
  ultimately show ?thesis
    using assms(2,3) by (auto simp: start_child_def Let_def pool_inv_def slots_ok_def exhausted_def)
qed

text \<open>
  The loop over the snapshot returns a pool with the invariant, or it raises a \<^verbatim>\<open>KeyError\<close> and a stop
  signal was handled meanwhile.
\<close>

lemma respawn_inv:
  assumes "pool_inv cfg m p" "distinct (map fst ps)" "set (map fst ps) \<inter> set (children p) = {}"
    "set (map fst ps) \<subseteq> {..<nat (count cfg)}" "\<not> halting p \<Longrightarrow> set ps \<subseteq> set (pending_respawns p)"
    "halting p \<Longrightarrow> pending_respawns p = [] \<and> \<not> quiet k"
  shows "case respawn cfg k ps p of
      Inr q \<Rightarrow> pool_inv cfg m q
    | Inl e \<Rightarrow> (\<exists>i. e = KeyError (str_nat i)) \<and> \<not> quiet k"
  using assms
proof (induction ps arbitrary: p)
  case (Cons x ps)
  obtain i due where x: "x = (i, due)" by (cases x)
  let ?p = "handle_signal cfg (signals k (BeforeSpawn i)) p"
  have p: "pool_inv cfg m ?p" by (rule handle_signal_inv [OF Cons.prems(1)])
  have live: "set (x # ps) \<subseteq> set (pending_respawns ?p)" if "\<not> halting ?p"
    using that Cons.prems(5)
    by (cases rule: handle_signal_cases [of cfg "signals k (BeforeSpawn i)" p]) auto
  have halt: "pending_respawns ?p = [] \<and> \<not> quiet k" if "halting ?p"
    using that Cons.prems(6)
    by (cases rule: handle_signal_cases [of cfg "signals k (BeforeSpawn i)" p]) (auto simp: quiet_def)
  show ?case
  proof (cases "now_respawn k < due")
    case True
    with Cons.IH [OF p] Cons.prems(2-4) live halt show ?thesis by (simp add: x Let_def)
  next
    case False
    define s where "s = spawn cfg (now_spawn k i) i ?p"
    define u where "u = handle_signal cfg (signals k (DuringSpawn i)) s"
    define v where "v = u\<lparr>children := children u @ [i]\<rparr>"
    define q where "q = handle_signal cfg (signals k (AfterSpawn i)) v"
    have v_def': "v = start_child cfg (signals k) (now_spawn k i) i ?p"
      by (simp add: v_def u_def s_def start_child_def Let_def)
    have ps: "i \<notin> fst ` set ps" "i \<notin> set (children p)" "i < nat (count cfg)" using Cons.prems(2-4) x by auto
    have s: "pending_respawns s = pending_respawns ?p" "halting s = halting ?p" "children s = children p"
      by (simp_all add: s_def spawn_def)
    have u: "children u = children p" "\<not> halting u \<longrightarrow> pending_respawns u = pending_respawns ?p \<and> \<not> halting ?p"
      "halting u \<longrightarrow> pending_respawns u = [] \<and> \<not> quiet k"
      using halt s
      by (cases rule: handle_signal_cases [of cfg "signals k (DuringSpawn i)" s]; auto simp: u_def quiet_def)+
    have q: "children q = children p @ [i]" "\<not> halting q \<longrightarrow> pending_respawns q = pending_respawns ?p \<and> \<not> halting ?p"
      "halting q \<longrightarrow> pending_respawns q = [] \<and> \<not> quiet k"
      using u by (cases rule: handle_signal_cases [of cfg "signals k (AfterSpawn i)" v]; auto simp: q_def v_def quiet_def)+
    have step: "respawn cfg k (x # ps) p = (if i \<in> fst ` set (pending_respawns q) then
        respawn cfg k ps (q\<lparr>pending_respawns := filter (\<lambda>x. fst x \<noteq> i) (pending_respawns q)\<rparr>)
      else Inl (KeyError (str_nat i)))"
      using False by (simp add: x Let_def q_def v_def' del: image_iff)
    show ?thesis
    proof (cases "i \<in> fst ` set (pending_respawns q)")
      case True
      let ?r = "q\<lparr>pending_respawns := filter (\<lambda>x. fst x \<noteq> i) (pending_respawns q)\<rparr>"
      from True q have nh: "\<not> halting q" "pending_respawns q = pending_respawns ?p" "\<not> halting ?p" by auto
      have "q = s\<lparr>children := children p @ [i]\<rparr>"
        using nh(1) by (simp add: q_def v_def u_def s)
      moreover have "pool_inv cfg m ?p" "\<not> halting ?p" by (rule p, rule nh(3))
      ultimately have "pool_inv cfg m ?r"
        using ps(2,3) by (auto simp: s_def spawn_def pool_inv_def slots_ok_def exhausted_def distinct_map_filter)
      moreover have "set ps \<subseteq> set (pending_respawns ?r)" using live [OF nh(3)] nh(2) ps(1) by auto
      ultimately have "case respawn cfg k ps ?r of Inr q \<Rightarrow> pool_inv cfg m q
          | Inl e \<Rightarrow> (\<exists>i. e = KeyError (str_nat i)) \<and> \<not> quiet k"
        using Cons.IH [of ?r] Cons.prems(2-4) nh q(1) ps(1) x by auto
      with True step show ?thesis by simp
    next
      case False
      have "halting q"
      proof (rule ccontr)
        assume "\<not> halting q"
        with q live have "x \<in> set (pending_respawns q)" by auto
        with x False show False by force
      qed
      with q step False show ?thesis by auto
    qed
  qed
qed simp

fun pool_of :: "outcome \<Rightarrow> pool" where
  "pool_of (Continue p) = p"
| "pool_of (Return n p) = p"

text \<open>What an accepted outcome promises: the invariant and the exit code.\<close>

definition outcome_ok :: "pool_config \<Rightarrow> nat \<Rightarrow> outcome \<Rightarrow> bool" where
  "outcome_ok cfg m out \<longleftrightarrow> pool_inv cfg m (pool_of out) \<and> (case out of
      Continue q \<Rightarrow> True
    | Return n q \<Rightarrow> n = (if exhausted q \<or> children q \<noteq> [] then 2 else 0))"

lemma stop_phase_ok:
  assumes "pool_inv cfg m p" "halting p"
  shows "outcome_ok cfg m (stop_phase cfg k p)"
  using assms
  by (auto simp: outcome_ok_def stop_phase_def Let_def pool_inv_def slots_ok_def exhausted_def split: option.split)

lemma iteration_inv:
  assumes "config_ok cfg" "pool_inv cfg m p" "0 < m \<or> calm k"
  shows "case iteration cfg k p of
      Inr out \<Rightarrow> outcome_ok cfg m out
    | Inl e \<Rightarrow> (\<exists>i. e = KeyError (str_nat i)) \<and> \<not> quiet k"
proof -
  let ?p = "handle_signal cfg (signals k AtTop) p"
  have p: "pool_inv cfg m ?p" by (rule handle_signal_inv [OF assms(2)])
  moreover from this have "distinct (children ?p)" by (simp add: pool_inv_def slots_ok_def)
  ultimately obtain q0 where q0: "reap cfg k (children ?p) ?p = Inr q0" "pool_inv cfg m q0"
    using reap_inv [OF assms(1) p _ _ assms(3)] by blast
  let ?q = "handle_signal cfg (signals k AfterReap) q0"
  have q: "pool_inv cfg m ?q" by (rule handle_signal_inv [OF q0(2)])
  show ?thesis
  proof (cases "halting ?q")
    case True
    with q0(1) stop_phase_ok [OF q True, of k] show ?thesis by (simp add: iteration_def Let_def)
  next
    case False
    let ?r = "handle_signal cfg (signals k BeforeRespawns) ?q"
    have r: "pool_inv cfg m ?r" by (rule handle_signal_inv [OF q])
    then have d: "distinct (map fst (pending_respawns ?r))"
      "set (map fst (pending_respawns ?r)) \<inter> set (children ?r) = {}"
      "set (map fst (pending_respawns ?r)) \<subseteq> {..<nat (count cfg)}"
      by (auto simp: pool_inv_def slots_ok_def simp del: handle_signal_fields)
    show ?thesis
    proof (cases "halting ?r")
      case True
      then have "pending_respawns ?r = []"
        using False
        by (cases rule: handle_signal_cases [of cfg "signals k BeforeRespawns" ?q]) auto
      with q0(1) False handle_signal_inv [OF r] show ?thesis
        by (simp add: iteration_def Let_def outcome_ok_def)
    next
      case nh: False
      have "case respawn cfg k (pending_respawns ?r) ?r of Inr q \<Rightarrow> pool_inv cfg m q
        | Inl e \<Rightarrow> (\<exists>i. e = KeyError (str_nat i)) \<and> \<not> quiet k"
        by (rule respawn_inv [OF r d]) (use nh in auto)
      with q0(1) False show ?thesis
        by (auto simp: iteration_def Let_def outcome_ok_def handle_signal_inv split: sum.splits)
    qed
  qed
qed

lemma supervise_inv:
  assumes "config_ok cfg" "pool_inv cfg m p" "0 < m \<or> list_all calm ks"
  shows "case supervise cfg ks p of
      Inr out \<Rightarrow> outcome_ok cfg m out
    | Inl e \<Rightarrow> (\<exists>i. e = KeyError (str_nat i)) \<and> \<not> list_all quiet ks"
  using assms(2,3)
proof (induction ks arbitrary: p)
  case Nil
  then show ?case by (auto simp: outcome_ok_def pool_inv_def)
next
  case (Cons k ks)
  show ?case
  proof (cases "children p = [] \<and> pending_respawns p = []")
    case True
    with Cons.prems(1) show ?thesis by (auto simp: outcome_ok_def pool_inv_def)
  next
    case False
    from Cons.prems(2) have "0 < m \<or> calm k" by auto
    note it = iteration_inv [OF assms(1) Cons.prems(1) this]
    show ?thesis
    proof (cases "iteration cfg k p")
      case (Inl e)
      with it False show ?thesis by auto
    next
      case (Inr out)
      with it have ok: "outcome_ok cfg m out" by simp
      show ?thesis
      proof (cases out)
        case (Continue q)
        with ok have "pool_inv cfg m q" by (simp add: outcome_ok_def)
        with Cons.IH [of q] Cons.prems(2) Continue Inr False show ?thesis by (auto split: sum.splits)
      next
        case (Return n q)
        with ok Inr False show ?thesis by auto
      qed
    qed
  qed
qed

lemma exhausted_iff: "exhausted q \<longleftrightarrow> (\<exists>i m. Exhausted i m \<in> set (actions q))"
proof -
  have "is_exhausted a \<longleftrightarrow> (\<exists>i m. a = Exhausted i m)" for a by (cases a) simp_all
  then show ?thesis by (auto simp: exhausted_def list_ex_iff)
qed

lemma three_slots:
  assumes "config_ok cfg" "pool_inv cfg m p"
  shows "length (children p) + length (pending_respawns p) \<le> 3"
proof -
  let ?slots = "children p @ map fst (pending_respawns p)"
  from assms(2) have d: "distinct ?slots" "set ?slots \<subseteq> {..<nat (count cfg)}"
    by (simp_all add: pool_inv_def slots_ok_def)
  from card_mono [OF _ d(2)] have "card (set ?slots) \<le> nat (count cfg)" by simp
  with d(1) have "length ?slots \<le> nat (count cfg)" by (simp only: distinct_card)
  moreover have "nat (count cfg) \<le> 3" using assms(1) by (auto simp: config_ok_def MAX_WORKERS_def)
  ultimately show ?thesis by simp
qed

lemma start_all_inv:
  assumes "pool_inv cfg m p" "pending_respawns p = []" "distinct (children p @ is)"
    "set is \<subseteq> {..<nat (count cfg)}"
  shows "pool_inv cfg m (fold (\<lambda>i p. start_child cfg sigs (clock i) i (handle_signal cfg (sigs (BeforeSpawn i)) p)) is p)"
  using assms
proof (induction "is" arbitrary: p)
  case (Cons i "is")
  let ?p = "handle_signal cfg (sigs (BeforeSpawn i)) p"
  let ?q = "start_child cfg sigs (clock i) i ?p"
  have p: "pool_inv cfg m ?p" by (rule handle_signal_inv [OF Cons.prems(1)])
  have e: "pending_respawns ?p = []"
    using Cons.prems(2) by (cases rule: handle_signal_cases [of cfg "sigs (BeforeSpawn i)" p]) auto
  then have "pending_respawns ?q = []"
    by (cases rule: handle_signal_cases [of cfg "sigs (DuringSpawn i)" "spawn cfg (clock i) i ?p"])
      (auto simp: start_child_def Let_def spawn_def)
  moreover have "pool_inv cfg m ?q"
    by (rule start_child_inv [OF p]) (use Cons.prems e in auto)
  moreover have "children ?q = children p @ [i]" by (simp add: start_child_def Let_def spawn_def)
  ultimately show ?case using Cons.IH [of ?q] Cons.prems by simp
qed simp

lemma initial_pool_inv: "config_ok cfg \<Longrightarrow> pool_inv cfg m (initial_pool cfg sigs clock)"
  unfolding initial_pool_def
  by (rule start_all_inv)
    (auto simp: pool_inv_def slots_ok_def empty_pool_def events_of_def config_ok_def exhausted_def)

section \<open>Stopping\<close>

fun is_spawn :: "action \<Rightarrow> bool" where
  "is_spawn (Spawn i name) = True"
| "is_spawn _ = False"

definition spawns :: "pool \<Rightarrow> action list" where
  "spawns p = filter is_spawn (actions p)"

lemma reap_halting:
  "halting p \<Longrightarrow> \<exists>q. reap cfg k is p = Inr q \<and> halting q \<and> actions q = actions p
     \<and> shutdown_deadline q = shutdown_deadline p \<and> kill_sent q = kill_sent p
     \<and> kill_deadline q = kill_deadline p \<and> exit_code q = exit_code p"
proof (induction "is" arbitrary: p)
  case (Cons i "is")
  show ?case
  proof (cases "status k i")
    case None
    with Cons show ?thesis by (simp add: Let_def handle_signal_halting)
  next
    case (Some st)
    with Cons.prems Cons.IH [of "p\<lparr>children := remove1 i (children p),
        started_at := filter (\<lambda>x. fst x \<noteq> i) (started_at p)\<rparr>"] show ?thesis
      by (simp add: Let_def handle_signal_halting)
  qed
qed simp

lemma iteration_halting:
  assumes "halting p"
  shows "\<exists>q. iteration cfg k p = Inr (stop_phase cfg k q) \<and> halting q \<and> actions q = actions p
     \<and> shutdown_deadline q = shutdown_deadline p \<and> kill_sent q = kill_sent p
     \<and> kill_deadline q = kill_deadline p \<and> exit_code q = exit_code p"
proof -
  from reap_halting [OF assms, of cfg k "children p"] obtain q where
    "reap cfg k (children p) p = Inr q" "halting q" "actions q = actions p"
    "shutdown_deadline q = shutdown_deadline p" "kill_sent q = kill_sent p"
    "kill_deadline q = kill_deadline p" "exit_code q = exit_code p" by blast
  then show ?thesis
    by (intro exI [of _ q]) (simp add: iteration_def Let_def handle_signal_halting assms)
qed

lemma stop_phase_spawns:
  "halting p \<Longrightarrow> halting (pool_of (stop_phase cfg k p)) \<and> spawns (pool_of (stop_phase cfg k p)) = spawns p"
  by (simp add: stop_phase_def Let_def spawns_def o_def)

lemma supervise_halting:
  "halting p \<Longrightarrow> \<exists>out. supervise cfg ks p = Inr out \<and> halting (pool_of out) \<and> spawns (pool_of out) = spawns p"
proof (induction ks arbitrary: p)
  case (Cons k ks)
  from iteration_halting [OF Cons.prems, of cfg k] obtain q where
    q: "iteration cfg k p = Inr (stop_phase cfg k q)" "halting q" "actions q = actions p" by blast
  note out = stop_phase_spawns [OF q(2), of cfg k]
  show ?case
  proof (cases "stop_phase cfg k q")
    case (Continue r)
    with out q Cons.IH [of r] Cons.prems show ?thesis by (auto simp: spawns_def)
  next
    case (Return n r)
    with out q Cons.prems show ?thesis by (auto simp: spawns_def)
  qed
qed simp

text \<open>
  A pass of a stopping pool either returns, with code 2 if a worker is left, or goes on: SIGKILL is sent
  on the first pass at or after the shutdown deadline, and from then on neither deadline moves.
\<close>

lemma stop_phase_pass:
  assumes "halting p" "shutdown_deadline p = Some d"
  obtains (ends) n q where "stop_phase cfg k p = Return n q" "children q \<noteq> [] \<longrightarrow> n = 2"
    | (waits) q where "stop_phase cfg k p = Continue q" "halting q" "shutdown_deadline q = Some d"
        "now_stop k < d" "kill_sent q = kill_sent p" "kill_deadline q = kill_deadline p"
    | (kills) q where "stop_phase cfg k p = Continue q" "halting q" "shutdown_deadline q = Some d"
        "d \<le> now_stop k" "\<not> kill_sent p" "kill_sent q"
        "kill_deadline q = Some (now_stop k + of_int (kill_grace_seconds cfg))"
    | (lingers) q where "stop_phase cfg k p = Continue q" "halting q" "shutdown_deadline q = Some d"
        "d \<le> now_stop k" "kill_sent p" "kill_sent q" "kill_deadline q = kill_deadline p"
        "\<forall>e. kill_deadline p = Some e \<longrightarrow> now_stop k < e"
proof -
  define live where "live = filter (\<lambda>i. \<not> exited_late k i) (children p)"
  define q where "q = p\<lparr>children := live,
    started_at := filter (\<lambda>x. \<not> (fst x \<in> set (children p) \<and> exited_late k (fst x))) (started_at p)\<rparr>"
  have sp: "stop_phase cfg k p = (if live \<noteq> [] \<and> d \<le> now_stop k then
           (if \<not> kill_sent p then
              Continue (q\<lparr>actions := actions q @ map Kill live, kill_sent := True,
                kill_deadline := Some (now_stop k + of_int (kill_grace_seconds cfg))\<rparr>)
            else if (case kill_deadline p of None \<Rightarrow> False | Some e \<Rightarrow> e \<le> now_stop k) then
              Return 2 (q\<lparr>actions := actions q @ [Undead]\<rparr>)
            else Continue q)
         else if live \<noteq> [] then Continue q
         else Return (exit_code q) q)"
    using assms by (simp add: stop_phase_def Let_def q_def live_def)
  have q: "halting q" "shutdown_deadline q = Some d" "kill_sent q = kill_sent p" "kill_deadline q = kill_deadline p"
    "children q = live" using assms by (simp_all add: q_def)
  show ?thesis
  proof (cases "live = []")
    case True
    with sp q ends show ?thesis by simp
  next
    case live: False
    show ?thesis
    proof (cases "d \<le> now_stop k")
      case False
      with sp q live waits show ?thesis by simp
    next
      case True
      show ?thesis
      proof (cases "kill_sent p")
        case False
        with sp q live True kills show ?thesis by simp
      next
        case sent: True
        show ?thesis
        proof (cases "kill_deadline p")
          case None
          with sp q live True sent lingers show ?thesis by simp
        next
          case (Some e)
          with sp q live True sent lingers ends show ?thesis by (cases "e \<le> now_stop k") simp_all
        qed
      qed
    qed
  qed
qed

definition ends_in_time :: "pool_config \<Rightarrow> tick list \<Rightarrow> pool \<Rightarrow> bool" where
  "ends_in_time cfg ks p \<longleftrightarrow> (\<exists>n q. supervise cfg ks p = Inr (Return n q) \<and> (children q \<noteq> [] \<longrightarrow> n = 2))"

lemma ends_in_time_Cons:
  assumes "halting p" "iteration cfg k p = Inr (stop_phase cfg k p1)"
    "\<And>q. stop_phase cfg k p1 = Continue q \<Longrightarrow> ends_in_time cfg ks q"
    "\<And>n q. stop_phase cfg k p1 = Return n q \<Longrightarrow> children q \<noteq> [] \<longrightarrow> n = 2"
  shows "ends_in_time cfg (k # ks) p"
proof (cases "children p = [] \<and> pending_respawns p = []")
  case False
  with assms show ?thesis by (cases "stop_phase cfg k p1") (auto simp: ends_in_time_def)
qed (simp add: ends_in_time_def)

text \<open>After SIGKILL the loop returns on the first pass at or after the kill deadline, if not earlier.\<close>

lemma killed_ends:
  assumes "halting p" "shutdown_deadline p = Some d" "kill_sent p" "kill_deadline p = Some e"
    "k' \<in> set ks" "d \<le> now_stop k'" "e \<le> now_stop k'"
  shows "ends_in_time cfg ks p"
  using assms
proof (induction ks arbitrary: p)
  case (Cons k ks)
  from iteration_halting [OF Cons.prems(1), of cfg k] obtain p1 where
    p1: "iteration cfg k p = Inr (stop_phase cfg k p1)" "halting p1" "shutdown_deadline p1 = Some d"
      "kill_sent p1" "kill_deadline p1 = Some e" using Cons.prems(2-4) by metis
  show ?case
  proof (rule ends_in_time_Cons [OF Cons.prems(1) p1(1)])
    fix q assume c: "stop_phase cfg k p1 = Continue q"
    have q: "halting q \<and> shutdown_deadline q = Some d \<and> kill_sent q \<and> kill_deadline q = Some e
      \<and> (now_stop k < d \<or> now_stop k < e)"
      by (rule stop_phase_pass [OF p1(2,3), of cfg k]) (use c p1(4,5) in auto)
    then have "k' \<in> set ks" using Cons.prems(5-7) by auto
    with q Cons.IH [of q] Cons.prems(6,7) show "ends_in_time cfg ks q" by simp
  next
    fix n q assume "stop_phase cfg k p1 = Return n q"
    then show "children q \<noteq> [] \<longrightarrow> n = 2" by (auto intro: stop_phase_pass [OF p1(2,3), of cfg k])
  qed
qed simp

lemma stopping_ends:
  assumes "1 \<le> kill_grace_seconds cfg" "halting p" "shutdown_deadline p = Some d" "\<not> kill_sent p"
    "sorted (map now_stop ks)" "k \<in> set ks" "d \<le> now_stop k"
    "k' \<in> set ks" "now_stop k + of_int (kill_grace_seconds cfg) \<le> now_stop k'"
  shows "ends_in_time cfg ks p"
  using assms(2-)
proof (induction ks arbitrary: p)
  case (Cons j ks)
  have "rat_of_int 1 \<le> of_int (kill_grace_seconds cfg)" using assms(1) unfolding of_int_le_iff .
  then have lt: "now_stop k < now_stop k'" using Cons.prems(8) by simp
  from iteration_halting [OF Cons.prems(1), of cfg j] obtain p1 where
    p1: "iteration cfg j p = Inr (stop_phase cfg j p1)" "halting p1" "shutdown_deadline p1 = Some d"
      "\<not> kill_sent p1" using Cons.prems(2,3) by metis
  have first: "now_stop j \<le> now_stop k" using Cons.prems(4,5) by auto
  show ?case
  proof (rule ends_in_time_Cons [OF Cons.prems(1) p1(1)])
    fix q assume c: "stop_phase cfg j p1 = Continue q"
    show "ends_in_time cfg ks q"
    proof (rule stop_phase_pass [OF p1(2,3), of cfg j])
      fix q' assume q': "stop_phase cfg j p1 = Continue q'" "halting q'" "shutdown_deadline q' = Some d"
        "d \<le> now_stop j" "\<not> kill_sent p1" "kill_sent q'"
        "kill_deadline q' = Some (now_stop j + of_int (kill_grace_seconds cfg))"
      have "k' \<in> set ks" using Cons.prems(7) first lt by auto
      with q' c show ?thesis
        using killed_ends [of q' d _ k' ks cfg] Cons.prems(6,8) lt first by fastforce
    next
      fix q' assume q': "stop_phase cfg j p1 = Continue q'" "halting q'" "shutdown_deadline q' = Some d"
        "now_stop j < d" "kill_sent q' = kill_sent p1"
      have "k \<in> set ks" "k' \<in> set ks" using Cons.prems(5-7) q'(4) lt by auto
      with q' c p1(4) show ?thesis using Cons.IH [of q'] Cons.prems(4,6,8) by simp
    qed (use c p1(4) in auto)
  next
    fix n q assume "stop_phase cfg j p1 = Return n q"
    then show "children q \<noteq> [] \<longrightarrow> n = 2" by (auto intro: stop_phase_pass [OF p1(2,3), of cfg j])
  qed
qed simp

section \<open>Properties\<close>

definition default_config :: pool_config where
  "default_config = \<lparr>count = 3, prefix = ''continuous-recovery'', max_restarts = 5,
     restart_window_seconds = 300, restart_backoff_max_seconds = 60, stable_runtime_seconds = 120,
     shutdown_grace_seconds = 30, kill_grace_seconds = 5\<rparr>"

lemma default_config_read: "read_config (\<lambda>_. None) = Inr default_config"
  by (simp add: read_config_def worker_count_def bounded_int_def worker_id_prefix_def default_config_def
      pool_constants is_prefix_char_def char_class_defs)

lemma default_config_ok: "config_ok default_config"
  by (rule read_config_ok [OF default_config_read])

text \<open>
  The configuration parser accepts exactly the canonical decimal texts of the numbers in range:
  an unset variable gives the default, a set one is accepted if and only if it is what \<^verbatim>\<open>str\<close> prints
  for a number between the bounds and is no longer than the interpreter converts; and a canonical text
  beyond that length raises \<^verbatim>\<open>ValueError\<close>, which \<^verbatim>\<open>main\<close> does not catch.
\<close>

lemma bounded_int_exact:
  "bounded_int None name d lo hi = Inr d
   \<and> (bounded_int (Some text) name d lo hi = Inr v \<longleftrightarrow>
        0 \<le> v \<and> text = str_nat (nat v) \<and> length text \<le> MAX_STR_DIGITS \<and> lo \<le> v \<and> v \<le> hi)
   \<and> (bounded_int (Some text) name d lo hi = Inl ValueError \<longleftrightarrow>
        (\<exists>n. text = str_nat n) \<and> MAX_STR_DIGITS < length text)"
  by (auto simp: bounded_int_Some) (auto simp: bounded_int_def int_of_digits_def bindE_eq_Inl_iff
      require_eq_Inl_iff canonical_str_nat not_less split: if_split_asm)

text \<open>
  Every accepted configuration is within the documented limits: one to three workers, at most 100
  restarts, and each time limit within its range.
\<close>

lemma pool_config_bounds:
  assumes "read_config getenv = Inr cfg"
  shows "1 \<le> count cfg \<and> count cfg \<le> 3 \<and> 0 \<le> max_restarts cfg \<and> max_restarts cfg \<le> 100
     \<and> 10 \<le> restart_window_seconds cfg \<and> restart_window_seconds cfg \<le> 86400
     \<and> 1 \<le> restart_backoff_max_seconds cfg \<and> restart_backoff_max_seconds cfg \<le> 3600
     \<and> 1 \<le> stable_runtime_seconds cfg \<and> 1 \<le> shutdown_grace_seconds cfg \<and> shutdown_grace_seconds cfg \<le> 3600
     \<and> 1 \<le> kill_grace_seconds cfg \<and> kill_grace_seconds cfg \<le> 60"
  using read_config_ok [OF assms] by (simp add: config_ok_def MAX_WORKERS_def)

text \<open>
  C11. The production budget refines the model's backoff: for an accepted configuration and a history in
  clock order, an exit counts one more than the earlier exits inside the window, is allowed up to
  \<^verbatim>\<open>max_restarts\<close>, and gets the delay that \<^verbatim>\<open>expected_backoff\<close> of the supervisor model prescribes;
  the history keeps exactly the exits inside the window.
\<close>

theorem record_refines_model:
  assumes "read_config getenv = Inr cfg" and "sorted (events_of h i)"
    and "n = length (filter (\<lambda>u. t - of_int (restart_window_seconds cfg) \<le> u) (events_of h i)) + 1"
    and "n \<le> 1024"
  shows "\<exists>h' wait. record_exit cfg h i t = Inr (int n \<le> max_restarts cfg, of_int wait, n, h')
    \<and> expected_backoff (int n) (restart_backoff_max_seconds cfg) = Inr wait
    \<and> events_of h' i = filter (\<lambda>u. t - of_int (restart_window_seconds cfg) \<le> u) (events_of h i) @ [t]
    \<and> (\<forall>j. j \<noteq> i \<longrightarrow> events_of h' j = events_of h j)"
proof -
  have w: "n = window_count cfg h i t" using assms(3) by (simp add: window_count_def)
  have "nat (int n - 1) = n - 1" using assms(3) by simp
  then have "expected_backoff (int n) (restart_backoff_max_seconds cfg)
      = Inr (min (restart_backoff_max_seconds cfg) (2 ^ (n - 1)))"
    using assms(3) by (simp add: expected_backoff_def)
  moreover have "min (rat_of_int b) (2 ^ m) = of_int (min b (2 ^ m))" for b m
    by (simp add: min_def)
  ultimately show ?thesis
    using record_exit_eq [OF read_config_ok [OF assms(1)] assms(2) w assms(4)]
    by (simp add: events_of_dict_set)
qed

theorem record_refines_model_witness:
  "\<exists>h'. record_exit default_config [(0, [1, 2])] 0 3 = Inr (True, 4, 3, h')"
  using record_refines_model [OF default_config_read, of "[(0, [1, 2])]" 0 3 3]
  by (auto simp: events_of_def default_config_def expected_backoff_def)

text \<open>
  C12. Supervision is safe, whatever stop signals are handled at whatever point of the start-up and of the
  loop, where starting a process and printing succeed: each slot has at most one child or one pending restart, never both, so at most three workers exist;
  a stopped pool has no pending restart, except for at most one if a signal is handled between the test of
  \<^verbatim>\<open>stopping\<close> and the entry of a restart; the loop returns 2 if and only if a restart budget is exhausted
  or a worker is left, and 0 otherwise; and the only exception it raises is a \<^verbatim>\<open>KeyError\<close>, and only if a
  signal was handled while due slots were being respawned.
\<close>

theorem pool_supervision_safe:
  assumes "read_config getenv = Inr cfg"
  shows "case supervise cfg ks (initial_pool cfg sigs clock) of
      Inr out \<Rightarrow>
        distinct (children (pool_of out) @ map fst (pending_respawns (pool_of out)))
        \<and> length (children (pool_of out)) + length (pending_respawns (pool_of out)) \<le> 3
        \<and> (halting (pool_of out) \<longrightarrow> length (pending_respawns (pool_of out)) \<le> 1)
        \<and> (halting (pool_of out) \<and> (\<forall>k\<in>set ks. \<forall>i. signals k (BeforeSchedule i) = [])
             \<longrightarrow> pending_respawns (pool_of out) = [])
        \<and> (\<forall>n q. out = Return n q \<longrightarrow>
             n = (if (\<exists>i m. Exhausted i m \<in> set (actions q)) \<or> children q \<noteq> [] then 2 else 0))
    | Inl e \<Rightarrow> (\<exists>i. e = KeyError (str_nat i))
        \<and> (\<exists>k\<in>set ks. \<exists>i. signals k (BeforeSpawn i) \<noteq> [] \<or> signals k (DuringSpawn i) \<noteq> []
             \<or> signals k (AfterSpawn i) \<noteq> [])"
proof (cases "supervise cfg ks (initial_pool cfg sigs clock)")
  case (Inl e)
  have ok: "config_ok cfg" by (rule read_config_ok [OF assms])
  from Inl supervise_inv [OF ok initial_pool_inv [OF ok], of 1 ks sigs clock] show ?thesis
    by (simp add: list_all_iff quiet_def)
next
  case (Inr out)
  have ok: "config_ok cfg" by (rule read_config_ok [OF assms])
  have inv: "outcome_ok cfg m out" if "0 < m \<or> list_all calm ks" for m
    using supervise_inv [OF ok initial_pool_inv [OF ok], of m ks sigs clock] that Inr by simp
  have "halting (pool_of out) \<longrightarrow> pending_respawns (pool_of out) = []"
    if "\<forall>k\<in>set ks. \<forall>i. signals k (BeforeSchedule i) = []"
    using inv [of 0] that by (auto simp: outcome_ok_def pool_inv_def list_all_iff calm_def)
  moreover note three_slots [OF ok, of 1 "pool_of out"]
  moreover have "exhausted q \<longleftrightarrow> (\<exists>i m. Exhausted i m \<in> set (actions q))" for q
    by (rule exhausted_iff)
  ultimately show ?thesis
    using inv [of 1] Inr by (auto simp: outcome_ok_def pool_inv_def slots_ok_def)
qed

text \<open>
  Ticks for the witnesses: the first worker exits at second 10 and is due again at second 11; a stop
  signal is handled while it is respawned at second 12.
\<close>

definition exit_tick :: tick where
  "exit_tick = \<lparr>now = 10, status = (\<lambda>i. if i = 0 then Some 1 else None), exited_reap = (\<lambda>_. False),
     now_stop = 10, exited_late = (\<lambda>_. False), now_respawn = 10, now_spawn = (\<lambda>_. 10), signals = (\<lambda>_. [])\<rparr>"

definition race_tick :: tick where
  "race_tick = \<lparr>now = 12, status = (\<lambda>_. None), exited_reap = (\<lambda>_. False), now_stop = 12,
     exited_late = (\<lambda>_. False), now_respawn = 12, now_spawn = (\<lambda>_. 12),
     signals = (\<lambda>x. if x = BeforeSpawn 0 then [(12, \<lambda>_. False)] else [])\<rparr>"

abbreviation no_signals :: "point \<Rightarrow> stops" where
  "no_signals \<equiv> \<lambda>_. []"

theorem pool_supervision_safe_witness:
  "case supervise default_config [exit_tick, race_tick] (initial_pool default_config no_signals (\<lambda>_. 0)) of
      Inr out \<Rightarrow> length (children (pool_of out)) + length (pending_respawns (pool_of out)) \<le> 3
    | Inl e \<Rightarrow> (\<exists>i. e = KeyError (str_nat i))"
  using pool_supervision_safe [OF default_config_read, of "[exit_tick, race_tick]" no_signals "\<lambda>_. 0"]
  by (auto split: sum.splits)

text \<open>
  Once the pool is halting, no worker is started again, and the loop raises nothing, whatever the
  clock, the processes and further signals do.
\<close>

lemma pool_no_respawn_when_halting:
  assumes "halting p"
  shows "\<exists>out. supervise cfg ks p = Inr out \<and> halting (pool_of out)
    \<and> filter is_spawn (actions (pool_of out)) = filter is_spawn (actions p)"
  using supervise_halting [OF assms] unfolding spawns_def by blast

definition halting_pool :: pool where
  "halting_pool = (initial_pool default_config no_signals (\<lambda>_. 0))\<lparr>halting := True, shutdown_deadline := Some 30\<rparr>"

theorem pool_no_respawn_when_halting_witness:
  "\<exists>out. supervise default_config [exit_tick] halting_pool = Inr out \<and> halting (pool_of out)"
  using pool_no_respawn_when_halting [of halting_pool default_config "[exit_tick]"]
  by (auto simp: halting_pool_def)

text \<open>
  C13. Shutdown is bounded by the two grace periods, however many passes the loop makes meanwhile: a
  halting pool that has not yet sent SIGKILL returns within any run of passes in clock order of which one
  is at or after the shutdown deadline and one the kill grace after that one, and if workers are still
  alive then it returns 2.
\<close>

theorem pool_shutdown_bounded:
  assumes "read_config getenv = Inr cfg" and "halting p" and "shutdown_deadline p = Some d" and "\<not> kill_sent p"
    and "sorted (map now_stop ks)" and "k \<in> set ks" and "d \<le> now_stop k"
    and "k' \<in> set ks" and "now_stop k + of_int (kill_grace_seconds cfg) \<le> now_stop k'"
  shows "\<exists>n q. supervise cfg ks p = Inr (Return n q) \<and> (children q \<noteq> [] \<longrightarrow> n = 2)"
proof -
  have "1 \<le> kill_grace_seconds cfg" using read_config_ok [OF assms(1)] by (simp add: config_ok_def)
  from stopping_ends [OF this assms(2-)] show ?thesis by (simp add: ends_in_time_def)
qed

text \<open>Passes before the deadline, at it, and a tenth of a second apart until the kill grace is over.\<close>

theorem pool_shutdown_bounded_witness:
  "\<exists>n q. supervise default_config
     (map (\<lambda>t. exit_tick\<lparr>now_stop := t\<rparr>) [29, 30, 301 / 10, 302 / 10, 349 / 10, 35]) halting_pool = Inr (Return n q)"
  using pool_shutdown_bounded [OF default_config_read, of halting_pool 30
      "map (\<lambda>t. exit_tick\<lparr>now_stop := t\<rparr>) [29, 30, 301 / 10, 302 / 10, 349 / 10, 35]"
      "exit_tick\<lparr>now_stop := 30\<rparr>" "exit_tick\<lparr>now_stop := 35\<rparr>"]
  by (auto simp: halting_pool_def default_config_def initial_pool_def empty_pool_def upt_rec start_child_def spawn_def)

text \<open>
  A stop signal handled while due slots are being respawned breaks the loop: the handler clears the
  dictionary whose snapshot the loop walks, and the \<^verbatim>\<open>del\<close> of the due slot raises a \<^verbatim>\<open>KeyError\<close> that
  \<^verbatim>\<open>main\<close> does not catch. It happens in a run of the default configuration: a worker exits at
  second 10, and SIGTERM is handled at second 12 while its restart is being executed.
\<close>

lemma pool_respawn_race:
  "supervise default_config [exit_tick, race_tick] (initial_pool default_config no_signals (\<lambda>_. 0))
     = Inl (KeyError ''0'')"
  by code_simp

text \<open>
  A stop signal handled during the start-up: the workers that are started after it are never asked to
  end. With the signal before the second of three workers only the first gets SIGTERM; the others are
  started and live until SIGKILL after the shutdown grace.
\<close>

lemma startup_stop_misses_workers:
  "filter (\<lambda>a. \<not> is_spawn a) (actions (initial_pool default_config
     (\<lambda>x. if x = BeforeSpawn 1 then [(0, \<lambda>_. False)] else []) (\<lambda>_. 0))) = [Terminate 0]
   \<and> children (initial_pool default_config (\<lambda>x. if x = BeforeSpawn 1 then [(0, \<lambda>_. False)] else []) (\<lambda>_. 0))
     = [0, 1, 2]"
  by code_simp

text \<open>
  A stop signal handled after the test of \<^verbatim>\<open>stopping\<close> and before the restart is entered leaves the one
  pending restart of a stopped pool; the loop does not execute it.
\<close>

lemma pool_late_restart:
  "(case iteration default_config
      (exit_tick\<lparr>signals := (\<lambda>x. if x = BeforeSchedule 0 then [(10, \<lambda>_. False)] else [])\<rparr>)
      (initial_pool default_config no_signals (\<lambda>_. 0)) of
      Inr (Continue q) \<Rightarrow> halting q \<and> pending_respawns q = [(0, 11)]
    | _ \<Rightarrow> False)"
  by code_simp

end
