(* ===== verification/PyRegex.thy ===== *)
theory PyRegex
  imports Prelude
begin

text \<open>
  The fragment of Python's \<^verbatim>\<open>re\<close> that the recovery tools use: character classes repeated between
  two bounds, sequence, alternative, option and the word boundary \<^verbatim>\<open>\b\<close>. \<open>ends r s i\<close> lists the
  positions at which a match of \<open>r\<close> that starts at \<open>i\<close> may end; \<^verbatim>\<open>search\<close> asks for any start and
  \<^verbatim>\<open>fullmatch\<close> for the whole text, so the order in which the engine backtracks does not matter.
  Beside it \<^verbatim>\<open>str.replace\<close>, \<^verbatim>\<open>str.lower\<close> on ASCII, and \<^verbatim>\<open>str.split('/')\<close>.
\<close>

datatype regex =
    Cls "char \<Rightarrow> bool" nat "nat option"
  | Boundary
  | Seq "regex list"
  | Alt "regex list"
  | Opt regex

section \<open>Character classes\<close>

text \<open>\<^verbatim>\<open>\w\<close> and \<^verbatim>\<open>\s\<close> of Unicode patterns, for the code points below 256.\<close>

definition is_word :: "char \<Rightarrow> bool" where
  "is_word c \<longleftrightarrow> is_alnum c \<or> c = CHR ''_''
     \<or> code c \<in> {170, 178, 179, 181, 185, 186, 188, 189, 190}
     \<or> (192 \<le> code c \<and> code c \<noteq> 215 \<and> code c \<noteq> 247)"

definition is_space :: "char \<Rightarrow> bool" where
  "is_space c \<longleftrightarrow> (9 \<le> code c \<and> code c \<le> 13) \<or> (28 \<le> code c \<and> code c \<le> 32)
     \<or> code c = 133 \<or> code c = 160"

definition lower_char :: "char \<Rightarrow> char" where
  "lower_char c = (if is_upper c then char_of (code c + 32) else c)"

definition lower :: "string \<Rightarrow> string" where
  "lower s = map lower_char s"

definition alnum_or :: "string \<Rightarrow> char \<Rightarrow> bool" where
  "alnum_or extra c \<longleftrightarrow> is_alnum c \<or> c \<in> set extra"

definition is_letter :: "char \<Rightarrow> bool" where
  "is_letter c \<longleftrightarrow> is_lower c \<or> is_upper c"

text \<open>A literal, and a literal under \<^verbatim>\<open>(?i)\<close>.\<close>

definition lit :: "string \<Rightarrow> regex" where
  "lit s = Seq (map (\<lambda>c. Cls ((=) c) 1 (Some 1)) s)"

definition ilit :: "string \<Rightarrow> regex" where
  "ilit s = Seq (map (\<lambda>c. Cls (\<lambda>d. lower_char d = c) 1 (Some 1)) s)"

section \<open>Matching\<close>

definition boundary_at :: "string \<Rightarrow> nat \<Rightarrow> bool" where
  "boundary_at s i \<longleftrightarrow>
     (0 < i \<and> i \<le> length s \<and> is_word (s ! (i - 1))) \<noteq> (i < length s \<and> is_word (s ! i))"

definition run_length :: "(char \<Rightarrow> bool) \<Rightarrow> string \<Rightarrow> nat \<Rightarrow> nat" where
  "run_length f s i = length (takeWhile f (drop i s))"

fun ends :: "regex \<Rightarrow> string \<Rightarrow> nat \<Rightarrow> nat list"
  and ends_seq :: "regex list \<Rightarrow> string \<Rightarrow> nat \<Rightarrow> nat list"
  and ends_alt :: "regex list \<Rightarrow> string \<Rightarrow> nat \<Rightarrow> nat list" where
  "ends (Cls f lo hi) s i =
     (let n = run_length f s i; m = (case hi of None \<Rightarrow> n | Some h \<Rightarrow> min h n)
      in [i + lo..<Suc (i + m)])"
| "ends Boundary s i = (if boundary_at s i then [i] else [])"
| "ends (Seq rs) s i = ends_seq rs s i"
| "ends (Alt rs) s i = ends_alt rs s i"
| "ends (Opt r) s i = i # ends r s i"
| "ends_seq [] s i = [i]"
| "ends_seq (r # rs) s i = concat (map (ends_seq rs s) (ends r s i))"
| "ends_alt [] s i = []"
| "ends_alt (r # rs) s i = ends r s i @ ends_alt rs s i"

definition re_search :: "regex \<Rightarrow> string \<Rightarrow> bool" where
  "re_search r s = list_ex (\<lambda>i. ends r s i \<noteq> []) [0..<Suc (length s)]"

definition re_fullmatch :: "regex \<Rightarrow> string \<Rightarrow> bool" where
  "re_fullmatch r s \<longleftrightarrow> length s \<in> set (ends r s 0)"

section \<open>String operations\<close>

text \<open>\<^verbatim>\<open>text.replace(old, new)\<close> for a non-empty \<^verbatim>\<open>old\<close>.\<close>

function replace_str :: "string \<Rightarrow> string \<Rightarrow> string \<Rightarrow> string" where
  "replace_str old new s = (case s of [] \<Rightarrow> []
     | c # cs \<Rightarrow> if is_prefix old s \<and> old \<noteq> [] then new @ replace_str old new (drop (length old) s)
                else c # replace_str old new cs)"
  by pat_completeness auto

termination
  by (relation "measure (\<lambda>(_, _, s). length s)") (auto simp: neq_Nil_conv)

declare replace_str.simps [simp del]

lemma replace_str_Nil [simp]: "replace_str old new [] = []"
  by (subst replace_str.simps) simp

lemma replace_str_prefix:
  "old \<noteq> [] \<Longrightarrow> replace_str old new (old @ s) = new @ replace_str old new s"
  by (cases old; simp; subst replace_str.simps; simp)

lemma replace_str_skip:
  "c \<notin> set s \<Longrightarrow> replace_str (c # old) new (s @ t) = s @ replace_str (c # old) new t"
proof (induction s)
  case (Cons d s)
  then show ?case by (subst replace_str.simps) simp
qed simp

fun split_on :: "char \<Rightarrow> string \<Rightarrow> string list" where
  "split_on sep [] = [[]]"
| "split_on sep (c # cs) = (if c = sep then [] # split_on sep cs
     else (case split_on sep cs of [] \<Rightarrow> [[c]] | w # ws \<Rightarrow> (c # w) # ws))"

lemma lower_char_idem [simp]: "lower_char (lower_char c) = lower_char c"
proof (cases "is_upper c")
  case True
  then have "code (char_of (code c + 32)) = code c + 32"
    by (simp add: is_upper_def code_def)
  with True show ?thesis by (simp add: lower_char_def is_upper_def)
qed (simp add: lower_char_def)

lemma lower_idem [simp]: "lower (lower s) = lower s"
  by (simp add: lower_def)

end
