(* ===== verification/Timestamps.thy ===== *)
theory Timestamps
  imports PyValue
begin

text \<open>
  The part of Python's \<^verbatim>\<open>datetime\<close> that the recovery tools rest on (\<^verbatim>\<open>parse_timestamp\<close> of
  \<^verbatim>\<open>src/tools/artifact_recovery/common.py\<close> and \<^verbatim>\<open>_parse_datetime\<close> of
  \<^verbatim>\<open>mutation_receipts_contract.py\<close>): \<^verbatim>\<open>datetime.fromisoformat\<close> as CPython 3.12 (the version the
  workflows pin) implements it, conversion to UTC, \<^verbatim>\<open>isoformat\<close>, and the instant a date denotes.

  \<^verbatim>\<open>fromisoformat\<close> reads the UTF-8 bytes of the text, NUL-terminated; the tail of a list of bytes
  is the C pointer, and reading past its end yields the terminator. It is more liberal than its
  documentation (it accepts \<open>12:30:+00:00\<close>, and ignores letters between a six-digit fraction and the
  offset), and the model keeps that. The lemmas show that the conversion to UTC preserves
  the instant, that it overflows exactly when the instant leaves the years 1 to 9999, and that
  the canonical text is read back as the same date.
\<close>

section \<open>Calendar\<close>

record datetime =
  dt_year :: nat
  dt_month :: nat
  dt_day :: nat
  dt_hour :: nat
  dt_minute :: nat
  dt_second :: nat
  dt_usec :: nat

definition is_leap :: "nat \<Rightarrow> bool" where
  "is_leap y \<longleftrightarrow> y mod 4 = 0 \<and> (y mod 100 \<noteq> 0 \<or> y mod 400 = 0)"

definition days_in_month :: "nat \<Rightarrow> nat \<Rightarrow> nat" where
  "days_in_month y m = (if m = 2 then if is_leap y then 29 else 28
     else if m \<in> {4, 6, 9, 11} then 30 else 31)"

definition days_before_year :: "nat \<Rightarrow> int" where
  "days_before_year y = (let z = int y - 1 in 365 * z + z div 4 - z div 100 + z div 400)"

definition days_before_month :: "nat \<Rightarrow> nat \<Rightarrow> nat" where
  "days_before_month y m = sum_list (map (days_in_month y) [1..<m])"

definition ymd2ord :: "nat \<Rightarrow> nat \<Rightarrow> nat \<Rightarrow> int" where
  "ymd2ord y m d = days_before_year y + int (days_before_month y m) + int d"

definition valid_date :: "nat \<Rightarrow> nat \<Rightarrow> nat \<Rightarrow> bool" where
  "valid_date y m d \<longleftrightarrow>
     1 \<le> y \<and> y \<le> 9999 \<and> 1 \<le> m \<and> m \<le> 12 \<and> 1 \<le> d \<and> d \<le> days_in_month y m"

definition valid_datetime :: "datetime \<Rightarrow> bool" where
  "valid_datetime t \<longleftrightarrow> valid_date (dt_year t) (dt_month t) (dt_day t) \<and>
     dt_hour t < 24 \<and> dt_minute t < 60 \<and> dt_second t < 60 \<and> dt_usec t < 1000000"

definition usec_per_day :: int where
  "usec_per_day = 86400000000"

definition usec_of_day :: "datetime \<Rightarrow> int" where
  "usec_of_day t = ((int (dt_hour t) * 60 + int (dt_minute t)) * 60 + int (dt_second t)) * 1000000
     + int (dt_usec t)"

text \<open>Microseconds since the day before 0001-01-01.\<close>

definition instant :: "datetime \<Rightarrow> int" where
  "instant t = ymd2ord (dt_year t) (dt_month t) (dt_day t) * usec_per_day + usec_of_day t"

definition min_instant :: int where
  "min_instant = usec_per_day"

definition max_instant :: int where
  "max_instant = 3652060 * usec_per_day - 1"

section \<open>\<^verbatim>\<open>datetime.fromisoformat\<close>\<close>

definition utf8 :: "string \<Rightarrow> nat list" where
  "utf8 s = concat (map (\<lambda>c. if code c < 128 then [code c]
     else [192 + code c div 64, 128 + code c mod 64]) s)"

definition digit_byte :: "nat \<Rightarrow> bool" where
  "digit_byte b \<longleftrightarrow> 48 \<le> b \<and> b \<le> 57"

definition byte_at :: "nat list \<Rightarrow> nat \<Rightarrow> nat" where
  "byte_at p i = (if i < length p then p ! i else 0)"

fun parse_digits :: "nat \<Rightarrow> nat \<Rightarrow> nat list \<Rightarrow> (nat \<times> nat list) option" where
  "parse_digits 0 v p = Some (v, p)"
| "parse_digits (Suc n) v [] = None"
| "parse_digits (Suc n) v (b # p) =
     (if digit_byte b then parse_digits n (10 * v + (b - 48)) p else None)"

text \<open>
  \<^verbatim>\<open>[HH[:?MM[:?SS]]]\<close> and the fraction after it. \<open>Stopped\<close> is the end of the text inside the loop
  (with a flag for a stray last byte), \<open>Fraction\<close> what is left for the fraction.
\<close>

datatype hms = Malformed | Stopped "nat list" bool | Fraction "nat list" "nat list"

function hms_loop :: "nat \<Rightarrow> bool \<Rightarrow> nat list \<Rightarrow> nat list \<Rightarrow> hms" where
  "hms_loop i has_separator vals p = (if 3 \<le> i then Fraction vals p else
     (case parse_digits 2 0 p of
        None \<Rightarrow> Malformed
      | Some (v, p') \<Rightarrow>
          (let c = byte_at p' 0; q = tl p'; vals' = vals @ [v];
               sep = (if i = 0 then c = 58 else has_separator)
           in if q = [] then Stopped vals' (c \<noteq> 0)
              else if sep \<and> c = 58 then hms_loop (Suc i) sep vals' q
              else if c = 46 \<or> c = 44 then Fraction vals' q
              else if \<not> sep then hms_loop (Suc i) sep vals' p'
              else Malformed)))"
  by pat_completeness auto

termination
  by (relation "measure (\<lambda>(i, _). 3 - i)") auto

declare hms_loop.simps [simp del]

definition val_at :: "nat list \<Rightarrow> nat \<Rightarrow> nat" where
  "val_at vals i = (if i < length vals then vals ! i else 0)"

type_synonym hmsf = "nat \<times> nat \<times> nat \<times> nat"

definition parse_hh_mm_ss_ff :: "nat list \<Rightarrow> (hmsf \<times> bool) option" where
  "parse_hh_mm_ss_ff p = (case hms_loop 0 True [] p of
      Malformed \<Rightarrow> None
    | Stopped vals stray \<Rightarrow> Some ((val_at vals 0, val_at vals 1, val_at vals 2, 0), stray)
    | Fraction vals q \<Rightarrow>
        (let n = min 6 (length q) in
         case parse_digits n 0 q of
           None \<Rightarrow> None
         | Some (f, r) \<Rightarrow>
             Some ((val_at vals 0, val_at vals 1, val_at vals 2, f * 10 ^ (6 - n)),
                   byte_at (dropWhile digit_byte r) 0 \<noteq> 0)))"

text \<open>The time and, when there is one, the offset in seconds and microseconds.\<close>

definition zone_byte :: "nat \<Rightarrow> bool" where
  "zone_byte b \<longleftrightarrow> b = 43 \<or> b = 45 \<or> b = 90"

definition parse_isoformat_time :: "nat list \<Rightarrow> (hmsf \<times> (int \<times> int) option) option" where
  "parse_isoformat_time p =
     (let zone = dropWhile (\<lambda>b. \<not> zone_byte b) p in
      case parse_hh_mm_ss_ff (takeWhile (\<lambda>b. \<not> zone_byte b) p) of
        None \<Rightarrow> None
      | Some (t, stray) \<Rightarrow>
          if zone = [] then (if stray then None else Some (t, None))
          else if hd zone = 90 then
            (if byte_at (tl zone) 0 \<noteq> 0 then None else Some (t, Some (0, 0)))
          else (case parse_hh_mm_ss_ff (tl zone) of
              None \<Rightarrow> None
            | Some ((h, m, s, us), rest) \<Rightarrow>
                if rest then None
                else (let sign = (if hd zone = 45 then - 1 else 1) in
                  Some (t, Some (sign * int (h * 3600 + m * 60 + s), sign * int us)))))"

fun ord2ymd :: "nat \<Rightarrow> nat \<Rightarrow> nat \<times> nat" where
  "ord2ymd y n = (let k = (if is_leap y then 366 else 365) in
     if n \<le> k then (y, n) else ord2ymd (Suc y) (n - k))"

declare ord2ymd.simps [simp del]

function day2md :: "nat \<Rightarrow> nat \<Rightarrow> nat \<Rightarrow> nat \<times> nat" where
  "day2md y m n = (if n \<le> days_in_month y m then (m, n)
     else day2md y (Suc m) (n - days_in_month y m))"
  by pat_completeness auto

termination
  by (relation "measure (\<lambda>(_, _, n). n)") (auto simp: days_in_month_def split: if_splits)

declare day2md.simps [simp del]

definition iso_to_ymd :: "nat \<Rightarrow> nat \<Rightarrow> nat \<Rightarrow> (nat \<times> nat \<times> nat) option" where
  "iso_to_ymd y week day =
     (let first = ymd2ord y 1 1; weekday = (first + 6) mod 7;
          monday = first - weekday + (if 3 < weekday then 7 else 0)
      in if y < 1 \<or> week = 0 \<or> 53 < week
           \<or> (week = 53 \<and> \<not> (weekday = 3 \<or> (weekday = 2 \<and> is_leap y)))
           \<or> day = 0 \<or> 7 < day then None
         else (let (yy, n) = ord2ymd 1 (nat (monday + int (week - 1) * 7 + int day - 1));
                   (m, d) = day2md yy 1 n
               in Some (yy, m, d)))"

definition parse_isoformat_date :: "nat list \<Rightarrow> nat \<Rightarrow> (nat \<times> nat \<times> nat) option" where
  "parse_isoformat_date p len = (case parse_digits 4 0 p of
      None \<Rightarrow> None
    | Some (y, p1) \<Rightarrow>
        (let uses_separator = (byte_at p1 0 = 45);
             p2 = (if uses_separator then tl p1 else p1) in
         if byte_at p2 0 = 87 then
           (case parse_digits 2 0 (tl p2) of
              None \<Rightarrow> None
            | Some (week, p3) \<Rightarrow>
                if length p - length p3 < len then
                  (if uses_separator \<and> byte_at p3 0 \<noteq> 45 then None
                   else (case parse_digits 1 0 (if uses_separator then tl p3 else p3) of
                       None \<Rightarrow> None
                     | Some (day, _) \<Rightarrow> iso_to_ymd y week day))
                else iso_to_ymd y week 1)
         else (case parse_digits 2 0 p2 of
             None \<Rightarrow> None
           | Some (m, p3) \<Rightarrow>
               if uses_separator \<and> byte_at p3 0 \<noteq> 45 then None
               else (case parse_digits 2 0 (if uses_separator then tl p3 else p3) of
                   None \<Rightarrow> None
                 | Some (d, p4) \<Rightarrow>
                     if length p - length p4 = len then Some (y, m, d) else None))))"

definition find_separator :: "nat list \<Rightarrow> nat option" where
  "find_separator p = (let n = length p in
     if n = 7 then Some 7
     else if byte_at p 4 = 45 then
       (if byte_at p 5 = 87 then
          (if 8 < n \<and> byte_at p 8 = 45 then
             (if n = 9 then None
              else if 10 < n \<and> digit_byte (byte_at p 10) then Some 8 else Some 10)
           else Some 8)
        else Some 10)
     else if byte_at p 4 = 87 then
       (let pos = 7 + length (takeWhile digit_byte (drop 7 p)) in
        if pos < 9 then Some pos else if even pos then Some 7 else Some 8)
     else Some 8)"

definition make_datetime :: "nat \<times> nat \<times> nat \<Rightarrow> hmsf \<Rightarrow> datetime" where
  "make_datetime ymd t = (case (ymd, t) of ((y, m, d), (hh, mm, ss, us)) \<Rightarrow>
     \<lparr>dt_year = y, dt_month = m, dt_day = d, dt_hour = hh, dt_minute = mm, dt_second = ss,
      dt_usec = us\<rparr>)"

text \<open>
  The date, and the offset in microseconds of its \<^verbatim>\<open>tzinfo\<close>; \<open>None\<close> is \<^verbatim>\<open>ValueError\<close>. An offset
  of zero seconds is UTC whatever its fraction is.
\<close>

definition zone_offset :: "int \<times> int \<Rightarrow> int" where
  "zone_offset z = (if fst z = 0 then 0 else fst z * 1000000 + snd z)"

definition fromisoformat :: "string \<Rightarrow> (datetime \<times> int option) option" where
  "fromisoformat s = (let p = utf8 s in
     if length p < 7 then None
     else (case find_separator p of
         None \<Rightarrow> None
       | Some k \<Rightarrow>
           (case parse_isoformat_date p k of
              None \<Rightarrow> None
            | Some ymd \<Rightarrow>
                (case (if k < length p
                       then parse_isoformat_time (drop (if byte_at p k < 128 then 1 else 2) (drop k p))
                       else Some ((0, 0, 0, 0), None)) of
                   None \<Rightarrow> None
                 | Some (t, zone) \<Rightarrow>
                     (let dt = make_datetime ymd t; off = map_option zone_offset zone in
                      if valid_datetime dt \<and>
                         (case off of None \<Rightarrow> True | Some z \<Rightarrow> \<bar>z\<bar> < usec_per_day)
                      then Some (dt, off) else None)))))"

section \<open>Conversion to UTC and \<^verbatim>\<open>isoformat\<close>\<close>

definition next_day :: "nat \<times> nat \<times> nat \<Rightarrow> (nat \<times> nat \<times> nat) result" where
  "next_day ymd = (case ymd of (y, m, d) \<Rightarrow>
     if d < days_in_month y m then Inr (y, m, Suc d)
     else if m < 12 then Inr (y, Suc m, 1)
     else if y < 9999 then Inr (Suc y, 1, 1)
     else Inl OverflowError)"

definition prev_day :: "nat \<times> nat \<times> nat \<Rightarrow> (nat \<times> nat \<times> nat) result" where
  "prev_day ymd = (case ymd of (y, m, d) \<Rightarrow>
     if 1 < d then Inr (y, m, d - 1)
     else if 1 < m then Inr (y, m - 1, days_in_month y (m - 1))
     else if 1 < y then Inr (y - 1, 12, 31)
     else Inl OverflowError)"

definition split_usec :: "int \<Rightarrow> hmsf" where
  "split_usec t = (let us = nat t in
     (us div 3600000000, us div 60000000 mod 60, us div 1000000 mod 60, us mod 1000000))"

text \<open>\<^verbatim>\<open>dt.astimezone(timezone.utc)\<close> for a date with the given offset.\<close>

definition to_utc :: "datetime \<Rightarrow> int \<Rightarrow> datetime result" where
  "to_utc dt off =
     (let t = usec_of_day dt - off; ymd = (dt_year dt, dt_month dt, dt_day dt) in
      bindE (if t < 0 then prev_day ymd else if usec_per_day \<le> t then next_day ymd else Inr ymd)
        (\<lambda>ymd'. Inr (make_datetime ymd' (split_usec (t mod usec_per_day)))))"

definition two_digits :: "nat \<Rightarrow> string" where
  "two_digits n = [digit_char (n div 10), digit_char (n mod 10)]"

definition four_digits :: "nat \<Rightarrow> string" where
  "four_digits n = two_digits (n div 100) @ two_digits (n mod 100)"

definition six_digits :: "nat \<Rightarrow> string" where
  "six_digits n = two_digits (n div 10000) @ four_digits (n mod 10000)"

definition isoformat_naive :: "datetime \<Rightarrow> string" where
  "isoformat_naive t = four_digits (dt_year t) @ ''-'' @ two_digits (dt_month t) @ ''-''
     @ two_digits (dt_day t) @ ''T'' @ two_digits (dt_hour t) @ '':'' @ two_digits (dt_minute t)
     @ '':'' @ two_digits (dt_second t)
     @ (if dt_usec t = 0 then [] else ''.'' @ six_digits (dt_usec t))"

definition isoformat_utc :: "datetime \<Rightarrow> string" where
  "isoformat_utc t = isoformat_naive t @ ''+00:00''"


section \<open>Calendar arithmetic\<close>

lemma days_before_month_Suc:
  "1 \<le> m \<Longrightarrow> days_before_month y (Suc m) = days_before_month y m + days_in_month y m"
  by (simp add: days_before_month_def)

lemma days_before_month_1 [simp]: "days_before_month y (Suc 0) = 0"
  by (simp add: days_before_month_def)

lemma days_before_december: "days_before_month y 12 = (if is_leap y then 335 else 334)"
  by (simp add: days_before_month_def days_in_month_def upt_conv_Cons)

lemma days_in_month_bounds: "28 \<le> days_in_month y m" "days_in_month y m \<le> 31"
  by (auto simp: days_in_month_def)

lemma days_in_december [simp]: "days_in_month y 12 = 31"
  by (simp add: days_in_month_def)

lemma div_step_int: "0 < k \<Longrightarrow>
    int y div int k = (int y - 1) div int k + (if y mod k = 0 then 1 else 0)"
proof -
  assume "0 < k"
  define q where "q = int y div int k"
  define r where "r = int y mod int k"
  have y: "int y = q * int k + r" by (simp add: q_def r_def)
  have r: "0 \<le> r" "r < int k" using \<open>0 < k\<close> by (simp_all add: r_def)
  have "y mod k = 0 \<longleftrightarrow> r = 0" by (simp add: r_def flip: zmod_int)
  moreover have "(int y - 1) div int k = (if r = 0 then q - 1 else q)"
  proof (cases "r = 0")
    case True
    with y \<open>0 < k\<close> have "int y - 1 = int k * (q - 1) + (int k - 1)" by (simp add: algebra_simps)
    from int_div_pos_eq [OF this] \<open>0 < k\<close> True show ?thesis by simp
  next
    case False
    with r have "0 \<le> r - 1" "r - 1 < int k" by auto
    moreover from y have "int y - 1 = int k * q + (r - 1)" by (simp add: algebra_simps)
    ultimately show ?thesis
      using False int_div_pos_eq [of "int y - 1" "int k" q "r - 1"] by simp
  qed
  ultimately show ?thesis by (auto simp: q_def)
qed

lemma leap_step:
  fixes z a b c :: int
  assumes "a' = a + (if P then 1 else 0)" and "b' = b + (if Q then 1 else 0)"
    and "c' = c + (if R then 1 else 0)" and "Q \<Longrightarrow> P" and "R \<Longrightarrow> Q"
  shows "365 * (z + 1) + a' - b' + c' =
    365 * z + a - b + c + (if P \<and> (\<not> Q \<or> R) then 366 else 365)"
  using assms by (cases P; cases Q; cases R) simp_all

lemma days_before_year_Suc:
  "days_before_year (Suc y) = days_before_year y + (if is_leap y then 366 else 365)"
proof -
  have z: "int (Suc y) - 1 = int y - 1 + 1" by simp
  have step: "(int y - 1 + 1) div k = (int y - 1) div k + (if y mod nat k = 0 then 1 else 0)"
    if "0 < k" for k
    using div_step_int [of "nat k" y] that by simp
  show ?thesis
    unfolding days_before_year_def is_leap_def Let_def z
  proof (rule leap_step)
    show "y mod 4 = 0" if "y mod 100 = 0"
      using that dvd_trans [of 4 100 y] by (simp only: mod_eq_0_iff_dvd) simp
    show "y mod 100 = 0" if "y mod 400 = 0"
      using that dvd_trans [of 100 400 y] by (simp only: mod_eq_0_iff_dvd) simp
  qed (use step [of 4] step [of 100] step [of 400] in \<open>simp_all only: nat_numeral zero_less_numeral\<close>)
qed

lemma days_before_year_mono: "y \<le> z \<Longrightarrow> days_before_year y \<le> days_before_year z"
proof (induction z rule: nat_induct_at_least [of y])
  case (Suc n)
  then show ?case by (simp add: days_before_year_Suc)
qed simp

lemma day_of_year_bound:
  assumes "1 \<le> m" and "m \<le> 12" and "d \<le> days_in_month y m"
  shows "days_before_month y m + d \<le> (if is_leap y then 366 else 365)"
proof -
  have "days_before_month y m + days_in_month y m \<le> days_before_month y 12 + 31"
    if "m \<le> 12" for m
    using that
  proof (induction m rule: inc_induct)
    case (step n)
    then show ?case
      by (cases "n = 0") (simp_all add: days_before_month_Suc days_before_month_def days_in_month_def)
  qed simp
  with assms show ?thesis by (fastforce simp: days_before_december split: if_splits)
qed

lemma ymd2ord_bounds:
  assumes "valid_date y m d"
  shows "1 \<le> ymd2ord y m d" and "ymd2ord y m d \<le> 3652059"
proof -
  have "days_before_year 1 \<le> days_before_year y"
    using assms by (intro days_before_year_mono) (simp add: valid_date_def)
  then show "1 \<le> ymd2ord y m d"
    using assms by (simp add: ymd2ord_def valid_date_def days_before_year_def)
  have "ymd2ord y m d \<le> days_before_year (Suc y)"
    using assms day_of_year_bound [of m d y]
    by (auto simp: ymd2ord_def valid_date_def days_before_year_Suc split: if_splits)
  also have "\<dots> \<le> days_before_year 10000"
    using assms by (intro days_before_year_mono) (simp add: valid_date_def)
  also have "\<dots> = 3652059" by (simp add: days_before_year_def)
  finally show "ymd2ord y m d \<le> 3652059" .
qed

lemma next_day_ordinal:
  assumes "valid_date y m d"
  shows "case next_day (y, m, d) of
      Inl e \<Rightarrow> e = OverflowError \<and> ymd2ord y m d = 3652059
    | Inr (y', m', d') \<Rightarrow> valid_date y' m' d' \<and> ymd2ord y' m' d' = ymd2ord y m d + 1"
proof -
  consider "d < days_in_month y m" | "d = days_in_month y m" "m < 12"
    | "d = days_in_month y m" "m = 12" "y < 9999" | "d = days_in_month y m" "m = 12" "y = 9999"
    using assms by (fastforce simp: valid_date_def)
  then show ?thesis
  proof cases
    case 2
    with assms days_in_month_bounds [of y "Suc m"] show ?thesis
      by (simp add: next_day_def valid_date_def ymd2ord_def days_before_month_Suc)
  next
    case 3
    with assms show ?thesis
      by (simp add: next_day_def valid_date_def ymd2ord_def days_before_december
          days_before_year_Suc days_in_month_def)
  next
    case 4
    then show ?thesis
      by (simp add: next_day_def ymd2ord_def days_before_december days_before_year_def is_leap_def)
  qed (use assms in \<open>simp_all add: next_day_def valid_date_def ymd2ord_def\<close>)
qed

lemma prev_day_ordinal:
  assumes "valid_date y m d"
  shows "case prev_day (y, m, d) of
      Inl e \<Rightarrow> e = OverflowError \<and> ymd2ord y m d = 1
    | Inr (y', m', d') \<Rightarrow> valid_date y' m' d' \<and> ymd2ord y' m' d' = ymd2ord y m d - 1"
proof -
  consider "1 < d" | "d = 1" "1 < m" | "d = 1" "m = 1" "1 < y" | "d = 1" "m = 1" "y = 1"
    using assms by (fastforce simp: valid_date_def)
  then show ?thesis
  proof cases
    case 2
    then obtain k where "m = Suc k" "1 \<le> k" by (cases m) auto
    with 2 assms days_in_month_bounds [of y k] show ?thesis
      by (simp add: prev_day_def valid_date_def ymd2ord_def days_before_month_Suc)
  next
    case 3
    then obtain k where "y = Suc k" "1 \<le> k" by (cases y) auto
    with 3 assms show ?thesis
      by (simp add: prev_day_def valid_date_def ymd2ord_def days_before_december
          days_before_year_Suc)
  qed (use assms in \<open>auto simp: prev_day_def valid_date_def ymd2ord_def days_before_year_def\<close>)
qed


section \<open>UTC\<close>

lemma usec_of_day_bounds:
  "valid_datetime t \<Longrightarrow> 0 \<le> usec_of_day t \<and> usec_of_day t < usec_per_day"
  by (auto simp: valid_datetime_def usec_of_day_def usec_per_day_def)

lemma split_usec_combines:
  assumes "0 \<le> t" and "t < usec_per_day"
  shows "usec_of_day (make_datetime ymd (split_usec t)) = t"
    and "valid_datetime (make_datetime ymd (split_usec t)) \<longleftrightarrow>
      valid_date (fst ymd) (fst (snd ymd)) (snd (snd ymd))"
proof -
  define n where "n = nat t"
  have t: "t = int n" and n: "n < 86400000000" using assms by (simp_all add: n_def usec_per_day_def)
  have "n div 3600000000 = n div 1000000 div 60 div 60" "n div 60000000 = n div 1000000 div 60"
    by (simp_all add: div_mult2_eq [symmetric])
  then have "((n div 3600000000 * 60 + n div 60000000 mod 60) * 60 + n div 1000000 mod 60)
      * 1000000 + n mod 1000000 = n"
    by (simp only: div_mult_mod_eq)
  from arg_cong [OF this, of int]
  have "((int (n div 3600000000) * 60 + int (n div 60000000 mod 60)) * 60
      + int (n div 1000000 mod 60)) * 1000000 + int (n mod 1000000) = int n"
    by (simp only: of_nat_add of_nat_mult of_nat_numeral)
  then show "usec_of_day (make_datetime ymd (split_usec t)) = t"
    by (simp only: t usec_of_day_def make_datetime_def split_usec_def Let_def nat_int split_beta
        prod.sel datetime.select_convs)
  have "n div 3600000000 < 24" using n by (simp add: div_less_iff_less_mult)
  then show "valid_datetime (make_datetime ymd (split_usec t)) \<longleftrightarrow>
      valid_date (fst ymd) (fst (snd ymd)) (snd (snd ymd))"
    by (simp add: t valid_datetime_def make_datetime_def split_usec_def split: prod.split)
qed

lemma instant_make:
  "instant (make_datetime (y, m, d) t) =
     ymd2ord y m d * usec_per_day + usec_of_day (make_datetime (y, m, d) t)"
  by (simp add: instant_def make_datetime_def split: prod.split)

text \<open>The conversion keeps the instant, or overflows because the instant has no UTC date.\<close>

lemma to_utc_correct:
  assumes dt: "valid_datetime dt" and off: "\<bar>off\<bar> < usec_per_day"
  shows "case to_utc dt off of
      Inl e \<Rightarrow> e = OverflowError \<and> (instant dt - off < min_instant \<or> max_instant < instant dt - off)
    | Inr u \<Rightarrow> valid_datetime u \<and> instant u = instant dt - off"
proof -
  define t where "t = usec_of_day dt - off"
  obtain y m d where ymd: "dt_year dt = y" "dt_month dt = m" "dt_day dt = d" by simp
  have date: "valid_date y m d" using dt ymd by (simp add: valid_datetime_def)
  have inst: "instant dt - off = ymd2ord y m d * usec_per_day + t"
    by (simp add: instant_def ymd t_def)
  have made: "valid_datetime (make_datetime (y', m', d') (split_usec (t mod usec_per_day))) \<and>
      instant (make_datetime (y', m', d') (split_usec (t mod usec_per_day)))
        = ymd2ord y' m' d' * usec_per_day + t mod usec_per_day"
    if "valid_date y' m' d'" for y' m' d'
    using that split_usec_combines [of "t mod usec_per_day" "(y', m', d')"]
    by (simp add: instant_make usec_per_day_def)
  have range: "- usec_per_day < t" "t < 2 * usec_per_day"
    using usec_of_day_bounds [OF dt] off by (auto simp: t_def)
  consider "t < 0" | "0 \<le> t" "t < usec_per_day" | "usec_per_day \<le> t" by linarith
  then show ?thesis
  proof cases
    case 1
    with range have "t mod usec_per_day = t + usec_per_day"
      by (intro int_mod_pos_eq [of _ _ "- 1"]) (auto simp: usec_per_day_def)
    with 1 inst made prev_day_ordinal [OF date] show ?thesis
      by (auto simp: to_utc_def Let_def ymd t_def [symmetric] min_instant_def usec_per_day_def
          algebra_simps
          split: sum.splits)
  next
    case 2
    with inst made [OF date] show ?thesis
      by (simp add: to_utc_def Let_def ymd t_def [symmetric])
  next
    case 3
    with range have "t mod usec_per_day = t - usec_per_day"
      by (intro int_mod_pos_eq [of _ _ 1]) (auto simp: usec_per_day_def)
    with 3 inst made next_day_ordinal [OF date] show ?thesis
      by (auto simp: to_utc_def Let_def ymd t_def [symmetric] max_instant_def usec_per_day_def
          algebra_simps split: sum.splits)
  qed
qed

lemma instant_bounds:
  assumes "valid_datetime t"
  shows "min_instant \<le> instant t \<and> instant t \<le> max_instant"
  using ymd2ord_bounds [of "dt_year t" "dt_month t" "dt_day t"] usec_of_day_bounds [OF assms] assms
  by (auto simp: instant_def min_instant_def max_instant_def usec_per_day_def valid_datetime_def)


section \<open>Canonical text is read back\<close>

definition two_bytes :: "nat \<Rightarrow> nat list" where
  "two_bytes n = [48 + n div 10, 48 + n mod 10]"

lemma utf8_append: "utf8 (s @ t) = utf8 s @ utf8 t"
  by (simp add: utf8_def)

lemma utf8_two_digits: "n < 100 \<Longrightarrow> utf8 (two_digits n) = two_bytes n"
  by (simp add: utf8_def two_digits_def two_bytes_def code_digit_char div_less_iff_less_mult)

lemma utf8_four_digits:
  "n < 10000 \<Longrightarrow> utf8 (four_digits n) = two_bytes (n div 100) @ two_bytes (n mod 100)"
  by (simp add: four_digits_def utf8_append utf8_two_digits div_less_iff_less_mult)

lemma utf8_six_digits:
  "n < 1000000 \<Longrightarrow> utf8 (six_digits n) =
     two_bytes (n div 10000) @ two_bytes (n mod 10000 div 100) @ two_bytes (n mod 10000 mod 100)"
  by (simp add: six_digits_def utf8_append utf8_two_digits utf8_four_digits div_less_iff_less_mult)

lemma two_bytes_digits:
  "n < 100 \<Longrightarrow> list_all digit_byte (two_bytes n)" "length (two_bytes n) = 2"
  by (auto simp: two_bytes_def digit_byte_def div_le_mono [of n 99 10, simplified])

lemma parse_two_bytes:
  assumes "n < 100"
  shows "parse_digits (Suc (Suc k)) v (two_bytes n @ p) = parse_digits k (100 * v + n) p"
proof -
  have "n div 10 \<le> 9" using assms by (simp add: div_le_mono [of n 99 10, simplified])
  moreover have "n mod 10 \<le> 9" by (simp add: less_Suc_eq_le [symmetric])
  moreover have "10 * (10 * v + n div 10) + n mod 10 = 100 * v + n"
    using mult_div_mod_eq [of 10 n] by (simp add: algebra_simps)
  ultimately show ?thesis by (simp add: two_bytes_def digit_byte_def add.assoc)
qed

lemma parse_byte_pairs:
  "list_all (\<lambda>n. n < 100) ns \<Longrightarrow> parse_digits (2 * length ns) v (concat (map two_bytes ns) @ p)
     = Some (foldl (\<lambda>v n. 100 * v + n) v ns, p)"
  by (induction ns arbitrary: v) (simp_all add: parse_two_bytes)

lemma parse_two [simp]: "n < 100 \<Longrightarrow> parse_digits 2 0 (two_bytes n @ p) = Some (n, p)"
  using parse_byte_pairs [of "[n]" 0 p] by simp

lemma parse_four:
  assumes "n < 10000"
  shows "parse_digits 4 0 (two_bytes (n div 100) @ two_bytes (n mod 100) @ p) = Some (n, p)"
  using parse_byte_pairs [of "[n div 100, n mod 100]" 0 p] assms
  by (simp add: div_less_iff_less_mult)

lemma parse_six:
  assumes "n < 1000000"
  shows "parse_digits 6 0 (two_bytes (n div 10000) @ two_bytes (n mod 10000 div 100)
    @ two_bytes (n mod 10000 mod 100) @ p) = Some (n, p)"
proof -
  have "100 * (100 * a + b) + c = 10000 * a + (100 * b + c)" for a b c :: nat by simp
  then have "100 * (100 * (n div 10000) + n mod 10000 div 100) + n mod 10000 mod 100 = n"
    by (simp only: mult_div_mod_eq)
  with parse_byte_pairs [of "[n div 10000, n mod 10000 div 100, n mod 10000 mod 100]" 0 p] assms
  show ?thesis by (simp add: div_less_iff_less_mult)
qed


definition date_bytes :: "datetime \<Rightarrow> nat list" where
  "date_bytes t = two_bytes (dt_year t div 100) @ two_bytes (dt_year t mod 100) @ 45 #
     two_bytes (dt_month t) @ 45 # two_bytes (dt_day t)"

definition time_bytes :: "datetime \<Rightarrow> nat list" where
  "time_bytes t = two_bytes (dt_hour t) @ 58 # two_bytes (dt_minute t) @ 58 # two_bytes (dt_second t)
     @ (if dt_usec t = 0 then [] else 46 # two_bytes (dt_usec t div 10000)
          @ two_bytes (dt_usec t mod 10000 div 100) @ two_bytes (dt_usec t mod 10000 mod 100))"

lemma valid_fields_small:
  assumes "valid_datetime t"
  shows "dt_year t < 10000" "dt_month t < 100" "dt_day t < 100" "dt_hour t < 100"
    "dt_minute t < 100" "dt_second t < 100" "dt_usec t < 1000000" "dt_month t < 20"
  using assms days_in_month_bounds(2) [of "dt_year t" "dt_month t"]
  by (auto simp: valid_datetime_def valid_date_def)

lemma utf8_isoformat:
  assumes "valid_datetime t"
  shows "utf8 (isoformat_utc t) = date_bytes t @ 84 # time_bytes t @ [43, 48, 48, 58, 48, 48]"
proof -
  have lit: "utf8 (CHR ''-'' # s) = 45 # utf8 s" "utf8 (CHR ''T'' # s) = 84 # utf8 s"
    "utf8 (CHR '':'' # s) = 58 # utf8 s" "utf8 (CHR ''.'' # s) = 46 # utf8 s"
    "utf8 (CHR ''+'' # s) = 43 # utf8 s" "utf8 (CHR ''0'' # s) = 48 # utf8 s" "utf8 [] = []" for s
    by (simp_all add: utf8_def code_def)
  show ?thesis
    unfolding isoformat_utc_def isoformat_naive_def date_bytes_def time_bytes_def
    using valid_fields_small [OF assms]
    by (simp add: utf8_append lit utf8_two_digits utf8_four_digits utf8_six_digits)
qed

lemma date_bytes_length: "length (date_bytes t) = 10"
  by (simp add: date_bytes_def two_bytes_def)

lemma find_separator_canonical:
  assumes "valid_datetime t"
  shows "find_separator (date_bytes t @ 84 # rest) = Some 10"
proof -
  have "dt_month t div 10 \<le> 1"
    using valid_fields_small(8) [OF assms] div_le_mono [of "dt_month t" 19 10] by simp
  then show ?thesis
    by (simp add: find_separator_def byte_at_def date_bytes_def two_bytes_def Let_def)
qed

lemma parse_date_canonical:
  assumes "valid_datetime t"
  shows "parse_isoformat_date (date_bytes t @ 84 # rest) 10 = Some (dt_year t, dt_month t, dt_day t)"
proof -
  note small = valid_fields_small [OF assms]
  define p where "p = date_bytes t @ 84 # rest"
  have p: "parse_digits 4 0 p = Some (dt_year t, 45 # two_bytes (dt_month t) @ 45 #
      two_bytes (dt_day t) @ 84 # rest)"
    using parse_four [OF small(1)] by (simp add: p_def date_bytes_def)
  have "dt_month t div 10 \<le> 1"
    using small(8) div_le_mono [of "dt_month t" 19 10] by simp
  then have w: "byte_at (two_bytes (dt_month t) @ q) 0 \<noteq> 87" for q
    by (simp add: byte_at_def two_bytes_def)
  have len: "length p = 11 + length rest" by (simp add: p_def date_bytes_length)
  have sep: "byte_at (45 # q) 0 = 45" for q by (simp add: byte_at_def)
  show ?thesis
    unfolding p_def [symmetric] parse_isoformat_date_def p
    by (simp add: Let_def sep w small len)
qed

lemma takeWhile_time_bytes:
  assumes "valid_datetime t"
  shows "takeWhile (\<lambda>b. \<not> zone_byte b) (time_bytes t @ 43 # r) = time_bytes t"
    and "dropWhile (\<lambda>b. \<not> zone_byte b) (time_bytes t @ 43 # r) = 43 # r"
proof -
  have two: "\<forall>b\<in>set (two_bytes n). \<not> zone_byte b" if "n < 100" for n
    using two_bytes_digits(1) [OF that] by (auto simp: list_all_iff digit_byte_def zone_byte_def)
  note small = valid_fields_small [OF assms]
  have "dt_usec t div 10000 < 100" "dt_usec t mod 10000 div 100 < 100" "dt_usec t mod 10000 mod 100 < 100"
    using small(7) by (simp_all add: div_less_iff_less_mult)
  with small two [of "dt_usec t mod 10000 mod 100"] two
  have "\<forall>b\<in>set (time_bytes t). \<not> zone_byte b"
    unfolding time_bytes_def by (auto simp: zone_byte_def)
  then show "takeWhile (\<lambda>b. \<not> zone_byte b) (time_bytes t @ 43 # r) = time_bytes t"
    and "dropWhile (\<lambda>b. \<not> zone_byte b) (time_bytes t @ 43 # r) = 43 # r"
    by (simp_all add: takeWhile_append2 dropWhile_append2 zone_byte_def)
qed

lemma hms_loop_separator:
  assumes "i < 3" and "n < 100" and "r \<noteq> []"
  shows "hms_loop i True vals (two_bytes n @ 58 # r) = hms_loop (Suc i) True (vals @ [n]) r"
  using assms by (subst hms_loop.simps) (simp add: Let_def byte_at_def)

lemma hms_loop_seconds:
  assumes "n < 100"
  shows "hms_loop 2 True vals (two_bytes n) = Stopped (vals @ [n]) False"
    and "r \<noteq> [] \<Longrightarrow> hms_loop 2 True vals (two_bytes n @ 46 # r) = Fraction (vals @ [n]) r"
  using assms parse_two [of n "[]"]
  by (subst hms_loop.simps, simp add: Let_def byte_at_def)+

lemma parse_time_canonical:
  assumes "valid_datetime t"
  shows "parse_hh_mm_ss_ff (time_bytes t)
    = Some ((dt_hour t, dt_minute t, dt_second t, dt_usec t), False)"
proof -
  note small = valid_fields_small [OF assms]
  define f where "f = two_bytes (dt_usec t div 10000) @ two_bytes (dt_usec t mod 10000 div 100)
    @ two_bytes (dt_usec t mod 10000 mod 100)"
  have f: "parse_digits 6 0 f = Some (dt_usec t, [])" "length f = 6" "f \<noteq> []"
    using parse_six [OF small(7), of "[]"] by (simp_all add: f_def two_bytes_digits two_bytes_def)
  have two: "two_bytes n \<noteq> []" "two_bytes n @ q \<noteq> []" for n q by (simp_all add: two_bytes_def)
  have loop: "hms_loop 0 True [] (time_bytes t) =
      (if dt_usec t = 0 then Stopped [dt_hour t, dt_minute t, dt_second t] False
       else Fraction [dt_hour t, dt_minute t, dt_second t] f)"
    unfolding time_bytes_def f_def [symmetric]
    by (simp add: hms_loop_separator hms_loop_seconds small two f numeral_2_eq_2 [symmetric])
  show ?thesis
    unfolding parse_hh_mm_ss_ff_def loop by (simp add: f val_at_def byte_at_def)
qed

lemma fromisoformat_canonical:
  assumes "valid_datetime t"
  shows "fromisoformat (isoformat_utc t) = Some (t, Some 0)"
proof -
  have zone: "parse_hh_mm_ss_ff [48, 48, 58, 48, 48] = Some ((0, 0, 0, 0), False)"
    by code_simp
  have dt: "make_datetime (dt_year t, dt_month t, dt_day t)
      (dt_hour t, dt_minute t, dt_second t, dt_usec t) = t"
    by (simp add: make_datetime_def)
  have rest: "parse_isoformat_time (time_bytes t @ [43, 48, 48, 58, 48, 48]) =
      Some ((dt_hour t, dt_minute t, dt_second t, dt_usec t), Some (0, 0))"
    unfolding parse_isoformat_time_def
    by (simp add: takeWhile_time_bytes parse_time_canonical assms zone Let_def)
  define b where "b = date_bytes t @ 84 # time_bytes t @ [43, 48, 48, 58, 48, 48]"
  have b: "\<not> length b < 7" "10 < length b" "byte_at b 10 = 84"
    "drop (Suc 0) (drop 10 b) = time_bytes t @ [43, 48, 48, 58, 48, 48]"
    by (simp_all add: b_def byte_at_def nth_append date_bytes_length)
  have sep: "find_separator b = Some 10"
    "parse_isoformat_date b 10 = Some (dt_year t, dt_month t, dt_day t)"
    using assms by (simp_all add: b_def find_separator_canonical parse_date_canonical)
  show ?thesis
    unfolding fromisoformat_def utf8_isoformat [OF assms] b_def [symmetric]
    using b by (simp add: Let_def sep rest dt assms zone_offset_def usec_per_day_def del: drop_drop)
qed

lemma fromisoformat_valid:
  "fromisoformat s = Some (dt, Some off) \<Longrightarrow> valid_datetime dt \<and> \<bar>off\<bar> < usec_per_day"
  by (auto simp: fromisoformat_def Let_def split: option.splits prod.splits if_splits)

lemma isoformat_naive_chars:
  assumes "valid_datetime t"
  shows "CHR ''+'' \<notin> set (isoformat_naive t)" and "CHR ''Z'' \<notin> set (isoformat_naive t)"
proof -
  have dig: "digit_char d \<noteq> CHR ''+''" "digit_char d \<noteq> CHR ''Z''" if "d < 10" for d
    using is_digit_digit_char [OF that] by (auto simp: is_digit_def code_def)
  have two: "c \<notin> set (two_digits n)" if "n < 100" "c = CHR ''+'' \<or> c = CHR ''Z''" for n c
    using that dig(1) [of "n div 10"] dig(1) [of "n mod 10"] dig(2) [of "n div 10"] dig(2) [of "n mod 10"]
    by (auto simp: two_digits_def div_less_iff_less_mult)
  have four: "c \<notin> set (four_digits n)" if "n < 10000" "c = CHR ''+'' \<or> c = CHR ''Z''" for n c
    using that two [of "n div 100" c] two [of "n mod 100" c]
    by (auto simp: four_digits_def div_less_iff_less_mult)
  have six: "c \<notin> set (six_digits n)" if "n < 1000000" "c = CHR ''+'' \<or> c = CHR ''Z''" for n c
    using that two [of "n div 10000" c] four [of "n mod 10000" c]
    by (auto simp: six_digits_def div_less_iff_less_mult)
  note small = valid_fields_small [OF assms]
  show "CHR ''+'' \<notin> set (isoformat_naive t)" and "CHR ''Z'' \<notin> set (isoformat_naive t)"
    unfolding isoformat_naive_def
    by (simp_all add: two four six small)
qed


lemma div_mod_radix:
  fixes k :: nat
  assumes "b < k"
  shows "(a * k + b) div k = a" and "(a * k + b) mod k = b"
  using assms by simp_all

lemma split_usec_of_day:
  assumes "valid_datetime t"
  shows "make_datetime (dt_year t, dt_month t, dt_day t) (split_usec (usec_of_day t)) = t"
proof -
  obtain h m s us where f: "dt_hour t = h" "dt_minute t = m" "dt_second t = s" "dt_usec t = us"
    by simp
  have lt: "m < 60" "s < 60" "us < 1000000" using assms f by (auto simp: valid_datetime_def)
  define n where "n = ((h * 60 + m) * 60 + s) * 1000000 + us"
  have n: "nat (usec_of_day t) = n"
    unfolding n_def usec_of_day_def f by (simp add: nat_add_distrib nat_mult_distrib)
  have q: "n div 1000000 = (h * 60 + m) * 60 + s" "n mod 1000000 = us"
    unfolding n_def using div_mod_radix [OF lt(3)] by blast+
  have "n div 60000000 = n div 1000000 div 60" "n div 3600000000 = n div 1000000 div 60 div 60"
    by (simp_all add: div_mult2_eq [symmetric])
  then have "n div 60000000 mod 60 = m" "n div 3600000000 = h" "n div 1000000 mod 60 = s"
    using q div_mod_radix [OF lt(2)] div_mod_radix [OF lt(1)] by (simp_all only:)
  with q n show ?thesis
    by (simp add: make_datetime_def split_usec_def Let_def f [symmetric])
qed

lemma to_utc_zero:
  assumes "valid_datetime t"
  shows "to_utc t 0 = Inr t"
proof -
  have "0 \<le> usec_of_day t" "usec_of_day t < usec_per_day"
    using usec_of_day_bounds [OF assms] by auto
  then show ?thesis
    using split_usec_of_day [OF assms] by (simp add: to_utc_def Let_def)
qed

end
