(* ===== verification/RecoveryCommon.thy ===== *)
theory RecoveryCommon
  imports PyRegex Timestamps Sha256
begin

text \<open>
  \<^verbatim>\<open>src/tools/artifact_recovery/common.py\<close>: the validation primitives the recovery tools share.
  \<^verbatim>\<open>RecoveryError\<close> is \<open>Err\<close>. Each checked scalar carries the name of the field its message
  mentions. \<^verbatim>\<open>validate_public_safety\<close> walks a document and searches every string in it for
  credentials, keys and addresses.

  The lemmas show what each primitive accepts, that a canonical timestamp is a fixed point of
  \<^verbatim>\<open>parse_timestamp\<close> and denotes the instant of the text it was made from, and that the walk
  accepts exactly the documents all of whose strings are clean.
\<close>

named_theorems refusal_intros \<open>computations that raise RecoveryError or OverflowError only\<close>

section \<open>Checked scalars\<close>

definition max_items :: nat where "max_items = 10000"
definition max_paths :: nat where "max_paths = 100"
definition max_string :: nat where "max_string = 512"

definition sha256_value :: "json \<Rightarrow> string" where
  "sha256_value v = sha256_hexdigest (canonical v)"

definition reject_duplicate_pairs :: "pydict \<Rightarrow> pydict result" where
  "reject_duplicate_pairs items = foldE (\<lambda>d (k, v).
     bindE (require (k \<notin> fst ` set d) (''duplicate JSON key: '' @ k)) (\<lambda>_. Inr (dict_set d k v)))
     [] items"

definition expect_object :: "json \<Rightarrow> string \<Rightarrow> pydict result" where
  "expect_object v field = (case v of JObj d \<Rightarrow> Inr d
     | _ \<Rightarrow> Inl (Err (field @ '' must be an object'')))"

definition expect_list :: "json \<Rightarrow> string \<Rightarrow> nat \<Rightarrow> json list result" where
  "expect_list v field maximum = (case v of
      JArr xs \<Rightarrow> bindE (require (length xs \<le> maximum)
        (field @ '' exceeds '' @ str_nat maximum @ '' items'')) (\<lambda>_. Inr xs)
    | _ \<Rightarrow> Inl (Err (field @ '' must be an array'')))"

definition expect_bool :: "json \<Rightarrow> string \<Rightarrow> bool result" where
  "expect_bool v field = (case v of JBool b \<Rightarrow> Inr b
     | _ \<Rightarrow> Inl (Err (field @ '' must be a boolean'')))"

definition expect_string :: "json \<Rightarrow> string \<Rightarrow> nat \<Rightarrow> string result" where
  "expect_string v field maximum = (case v of
      JStr s \<Rightarrow>
        bindE (require (s \<noteq> []) (field @ '' must be a non-empty string'')) (\<lambda>_.
        bindE (require (length s \<le> maximum)
          (field @ '' exceeds '' @ str_nat maximum @ '' characters'')) (\<lambda>_.
        bindE (require (list_all (\<lambda>c. 32 \<le> code c) s)
          (field @ '' contains a control character'')) (\<lambda>_. Inr s)))
    | _ \<Rightarrow> Inl (Err (field @ '' must be a non-empty string'')))"

definition optional_string :: "json \<Rightarrow> string \<Rightarrow> nat \<Rightarrow> string option result" where
  "optional_string v field maximum = (if v = JNull then Inr None
     else bindE (expect_string v field maximum) (\<lambda>s. Inr (Some s)))"

definition parse_timestamp :: "json \<Rightarrow> string \<Rightarrow> string result" where
  "parse_timestamp v field = (case v of
      JStr s \<Rightarrow>
        bindE (require (s \<noteq> []) (field @ '' must be a non-empty ISO-8601 timestamp'')) (\<lambda>_.
        (let normalized = (if last s = CHR ''Z'' then butlast s @ ''+00:00'' else s) in
         case fromisoformat normalized of
           None \<Rightarrow> Inl (Err (field @ '' must be ISO-8601''))
         | Some (parsed, None) \<Rightarrow> Inl (Err (field @ '' must include a timezone''))
         | Some (parsed, Some off) \<Rightarrow>
             bindE (to_utc parsed off) (\<lambda>u.
             Inr (replace_str ''+00:00'' ''Z'' (isoformat_utc u)))))
    | _ \<Rightarrow> Inl (Err (field @ '' must be a non-empty ISO-8601 timestamp'')))"

text \<open>\<^verbatim>\<open>now_utc\<close>, with the reading of the system clock as an argument.\<close>

definition now_utc :: "datetime \<Rightarrow> string option \<Rightarrow> string result" where
  "now_utc clock v = (case v of
      None \<Rightarrow> Inr (replace_str ''+00:00'' ''Z'' (isoformat_utc clock))
    | Some s \<Rightarrow> parse_timestamp (JStr s) ''--now'')"

section \<open>Public safety\<close>

definition TOKEN_RE :: regex where
  "TOKEN_RE = Seq [Boundary, Alt [
     Seq [lit ''gh'', Cls (\<lambda>c. c \<in> set ''pousr'') 1 (Some 1), lit ''_'', Cls (alnum_or ''_'') 20 None],
     Seq [lit ''sk-'', Cls (alnum_or ''_-'') 20 None]], Boundary]"

definition BEARER_RE :: regex where
  "BEARER_RE = Seq [Boundary, ilit ''bearer'', Cls is_space 1 None, Cls (alnum_or ''._~+/=-'') 8 None]"

definition PRIVATE_KEY_RE :: regex where
  "PRIVATE_KEY_RE = Seq [lit ''-----BEGIN '', Cls (\<lambda>c. is_upper c \<or> is_digit c \<or> c = CHR '' '') 0 None,
     lit ''PRIVATE KEY-----'']"

definition SECRET_ASSIGNMENT_RE :: regex where
  "SECRET_ASSIGNMENT_RE =
     (let gap = Opt (Cls (\<lambda>c. c \<in> set ''_ -'') 1 (Some 1)) in
      Seq [Boundary, Alt [Seq [ilit ''api'', gap, ilit ''key''], ilit ''password'',
             Seq [ilit ''private'', gap, ilit ''key''], ilit ''secret'', ilit ''token''], Boundary,
           Cls is_space 0 None, Cls (\<lambda>c. c \<in> set '':='') 1 (Some 1), Cls is_space 0 None,
           Cls (\<lambda>c. \<not> is_space c) 1 None])"

definition EMAIL_RE :: regex where
  "EMAIL_RE = Seq [Boundary, Cls (alnum_or ''._%+-'') 1 None, lit ''@'', Cls (alnum_or ''.-'') 1 None,
     lit ''.'', Cls is_letter 2 None, Boundary]"

text \<open>\<^verbatim>\<open>walk\<close> yields a document's nodes in pre-order, each with its path.\<close>

fun walk :: "json \<Rightarrow> string \<Rightarrow> (string \<times> json) list"
  and walk_items :: "pydict \<Rightarrow> string \<Rightarrow> (string \<times> json) list"
  and walk_elems :: "json list \<Rightarrow> string \<Rightarrow> nat \<Rightarrow> (string \<times> json) list" where
  "walk (JObj d) path = (path, JObj d) # walk_items d path"
| "walk (JArr xs) path = (path, JArr xs) # walk_elems xs path 0"
| "walk v path = [(path, v)]"
| "walk_items [] path = []"
| "walk_items ((k, v) # d) path = walk v (path @ ''.'' @ k) @ walk_items d path"
| "walk_elems [] path i = []"
| "walk_elems (v # vs) path i =
     walk v (path @ ''['' @ str_nat i @ '']'') @ walk_elems vs path (Suc i)"

definition check_safe :: "string \<times> json \<Rightarrow> unit result" where
  "check_safe node = (case node of (path, v) \<Rightarrow> (case v of
      JStr s \<Rightarrow>
        bindE (require (\<not> re_search TOKEN_RE s) (''credential-shaped token at '' @ path)) (\<lambda>_.
        bindE (require (\<not> re_search BEARER_RE s) (''bearer credential at '' @ path)) (\<lambda>_.
        bindE (require (\<not> re_search PRIVATE_KEY_RE s) (''private key material at '' @ path)) (\<lambda>_.
        bindE (require (\<not> re_search SECRET_ASSIGNMENT_RE s) (''secret assignment at '' @ path)) (\<lambda>_.
        bindE (require (\<not> re_search EMAIL_RE s) (''email-shaped personal data at '' @ path)) (\<lambda>_.
        require (length s \<le> 8192) (''unbounded string at '' @ path))))))
    | _ \<Rightarrow> Inr ()))"

definition validate_public_safety :: "json \<Rightarrow> unit result" where
  "validate_public_safety v = foldE (\<lambda>_ node. check_safe node) () (walk v ''$'')"

section \<open>GitHub identities\<close>

definition is_owner_text :: "string \<Rightarrow> bool" where
  "is_owner_text s \<longleftrightarrow> s \<noteq> [] \<and> length s \<le> 39 \<and> is_alnum (hd s) \<and> is_alnum (last s)
     \<and> list_all (alnum_or ''-'') s"

definition is_repo_text :: "string \<Rightarrow> bool" where
  "is_repo_text s \<longleftrightarrow> 1 \<le> length s \<and> length s \<le> 100 \<and> list_all (alnum_or ''_.-'') s"

definition is_branch_text :: "string \<Rightarrow> bool" where
  "is_branch_text s \<longleftrightarrow> 1 \<le> length s \<and> length s \<le> 200 \<and> list_all (alnum_or ''._/-'') s
     \<and> hd s \<noteq> CHR ''/'' \<and> last s \<notin> set ''./'' \<and> \<not> contains ''..'' s \<and> \<not> contains ''//'' s"

definition is_origin_id_text :: "string \<Rightarrow> bool" where
  "is_origin_id_text s \<longleftrightarrow> s \<noteq> [] \<and> length s \<le> 200 \<and> is_alnum (hd s)
     \<and> list_all (alnum_or ''._:/+-'') (tl s)"

definition normalize_repo :: "string \<Rightarrow> string \<Rightarrow> string result" where
  "normalize_repo owner repository =
     bindE (require (is_owner_text owner) (''invalid GitHub owner: '' @ owner)) (\<lambda>_.
     bindE (require (is_repo_text repository) (''invalid GitHub repository: '' @ repository)) (\<lambda>_.
     Inr (lower owner @ ''/'' @ lower repository)))"

definition normalize_branch :: "json \<Rightarrow> string \<Rightarrow> string option result" where
  "normalize_branch v field =
     bindE (optional_string v field 200) (\<lambda>branch.
     bindE (require (case branch of None \<Rightarrow> True | Some b \<Rightarrow> is_branch_text b)
       (field @ '' has an invalid Git ref shape'')) (\<lambda>_. Inr branch))"

definition normalize_sha :: "json \<Rightarrow> string \<Rightarrow> string option result" where
  "normalize_sha v field =
     bindE (optional_string v field 40) (\<lambda>sha.
     bindE (require (case sha of None \<Rightarrow> True | Some h \<Rightarrow> is_commit_text h)
       (field @ '' must be a lowercase full Git SHA'')) (\<lambda>_. Inr sha))"

definition normalize_visibility :: "json \<Rightarrow> string \<Rightarrow> string option result" where
  "normalize_visibility v field = (if v = JNull then Inr None
     else bindE (expect_string v field 16) (\<lambda>visibility.
          bindE (require (visibility \<in> {''public'', ''private'', ''internal''})
            (field @ '' must be public, private, internal, or null'')) (\<lambda>_. Inr (Some visibility))))"

text \<open>
  The groups of \<^verbatim>\<open>HTTPS_GITHUB_RE\<close>: owner, repository and, when the URL has them, kind and value.
  The classes of owner and repository exclude the slash, so both are maximal; the value is greedy
  and takes a trailing slash with it.
\<close>

definition strip_prefix :: "string \<Rightarrow> string \<Rightarrow> string option" where
  "strip_prefix p s = (if is_prefix p s then Some (drop (length p) s) else None)"

type_synonym url_groups = "string \<times> string \<times> (string \<times> string) option"

definition url_tail :: "string \<Rightarrow> string \<Rightarrow> (string \<times> string) option" where
  "url_tail kind rest = (case strip_prefix (''/'' @ kind @ ''/'') rest of
      None \<Rightarrow> None
    | Some v \<Rightarrow> if v \<noteq> [] \<and> list_all (alnum_or ''._/-'') v then Some (kind, v) else None)"

definition match_github_url :: "string \<Rightarrow> url_groups option" where
  "match_github_url s = (case strip_prefix ''https://github.com/'' s of
      None \<Rightarrow> None
    | Some rest \<Rightarrow>
        (let owner = takeWhile (alnum_or ''-'') rest; rest1 = dropWhile (alnum_or ''-'') rest in
         case rest1 of
           [] \<Rightarrow> None
         | c # rest2 \<Rightarrow>
             (let repo = takeWhile (alnum_or ''_.-'') rest2;
                  rest3 = dropWhile (alnum_or ''_.-'') rest2 in
              if c \<noteq> CHR ''/'' \<or> owner = [] \<or> repo = [] then None
              else if rest3 = [] \<or> rest3 = ''/'' then Some (owner, repo, None)
              else (case url_tail ''commit'' rest3 of
                  Some g \<Rightarrow> Some (owner, repo, Some g)
                | None \<Rightarrow> (case url_tail ''tree'' rest3 of
                      Some g \<Rightarrow> Some (owner, repo, Some g)
                    | None \<Rightarrow> map_option (\<lambda>g. (owner, repo, Some g)) (url_tail ''pull'' rest3))))))"

definition validate_github_url ::
  "string \<Rightarrow> string \<Rightarrow> string \<Rightarrow> (string \<times> (string \<times> string) option) result" where
  "validate_github_url v field repo_identity = (case match_github_url v of
      None \<Rightarrow> Inl (Err (field @ '' is not a canonical GitHub URL''))
    | Some (owner, repo, tail) \<Rightarrow>
        bindE (normalize_repo owner repo) (\<lambda>identity.
        bindE (require (identity = repo_identity) (field @ '' points outside '' @ repo_identity)) (\<lambda>_.
        Inr (identity, tail))))"

section \<open>Artifacts\<close>

record artifact =
  a_kind :: string
  a_name :: string
  a_sha256 :: "string option"
  a_locator :: "string option"
  a_commit_sha :: "string option"
  a_paths :: "string list"

definition artifact_json :: "artifact \<Rightarrow> json" where
  "artifact_json a = JObj [(''kind'', JStr (a_kind a)), (''name'', JStr (a_name a)),
     (''sha256'', opt_str (a_sha256 a)), (''locator'', opt_str (a_locator a)),
     (''commit_sha'', opt_str (a_commit_sha a)), (''paths'', JArr (map JStr (a_paths a)))]"

definition unsupported_keys :: "string \<Rightarrow> pydict \<Rightarrow> string list \<Rightarrow> unit result" where
  "unsupported_keys field d allowed =
     require (set (dict_keys d) \<subseteq> set allowed)
       (field @ '' has unsupported keys: '' @ repr_str_list (extra_keys d allowed))"

definition index_field :: "string \<Rightarrow> nat \<Rightarrow> string" where
  "index_field field i = field @ ''['' @ str_nat i @ '']''"

definition safe_path :: "string \<Rightarrow> nat \<times> json \<Rightarrow> string result" where
  "safe_path field p = (case p of (i, path) \<Rightarrow>
     bindE (expect_string path (index_field field i) 300) (\<lambda>item.
     bindE (require (\<not> is_prefix ''/'' item \<and> ''..'' \<notin> set (split_on (CHR ''/'') item))
       (index_field field i @ '' must be a safe relative path'')) (\<lambda>_. Inr item)))"

definition normalize_artifact :: "json \<Rightarrow> string \<Rightarrow> artifact option result" where
  "normalize_artifact v field = (if v = JNull then Inr None else
     bindE (expect_object v field) (\<lambda>d.
     bindE (unsupported_keys field d
       [''kind'', ''name'', ''sha256'', ''locator'', ''commit_sha'', ''paths'']) (\<lambda>_.
     bindE (expect_string (dict_get d ''kind'') (field @ ''.kind'') 32) (\<lambda>kind.
     bindE (require (kind \<in> {''archive'', ''file'', ''git_bundle'', ''draft'', ''directory''})
       (field @ ''.kind is unsupported'')) (\<lambda>_.
     bindE (expect_string (dict_get d ''name'') (field @ ''.name'') 200) (\<lambda>name.
     bindE (optional_string (dict_get d ''sha256'') (field @ ''.sha256'') 64) (\<lambda>digest.
     bindE (require (case digest of None \<Rightarrow> True | Some h \<Rightarrow> is_sha256_text h)
       (field @ ''.sha256 must be lowercase SHA-256'')) (\<lambda>_.
     bindE (optional_string (dict_get d ''locator'') (field @ ''.locator'') 300) (\<lambda>locator.
     bindE (normalize_sha (dict_get d ''commit_sha'') (field @ ''.commit_sha'')) (\<lambda>commit_sha.
     bindE (expect_list (dict_get_default d ''paths'' (JArr [])) (field @ ''.paths'') max_paths) (\<lambda>paths.
     bindE (mapE (safe_path (field @ ''.paths'')) (enumerate 0 paths)) (\<lambda>normalized_paths.
     Inr (Some \<lparr>a_kind = kind, a_name = name, a_sha256 = digest, a_locator = locator,
        a_commit_sha = commit_sha, a_paths = normalized_paths\<rparr>)))))))))))))"


section \<open>What the primitives accept\<close>

definition clean_string :: "nat \<Rightarrow> string \<Rightarrow> bool" where
  "clean_string maximum s \<longleftrightarrow> s \<noteq> [] \<and> length s \<le> maximum \<and> list_all (\<lambda>c. 32 \<le> code c) s"

lemma expect_object_iff [simp]: "expect_object v field = Inr d \<longleftrightarrow> v = JObj d"
  by (auto simp: expect_object_def split: json.splits)

lemma expect_bool_iff [simp]: "expect_bool v field = Inr b \<longleftrightarrow> v = JBool b"
  by (auto simp: expect_bool_def split: json.splits)

lemma expect_list_iff [simp]:
  "expect_list v field maximum = Inr xs \<longleftrightarrow> v = JArr xs \<and> length xs \<le> maximum"
  by (auto simp: expect_list_def bindE_eq_Inr_iff split: json.splits)

lemma expect_string_iff [simp]:
  "expect_string v field maximum = Inr s \<longleftrightarrow> v = JStr s \<and> clean_string maximum s"
  by (auto simp: expect_string_def clean_string_def bindE_eq_Inr_iff split: json.splits)

lemma optional_string_iff [simp]:
  "optional_string v field maximum = Inr x \<longleftrightarrow>
     v = opt_str x \<and> (case x of None \<Rightarrow> True | Some s \<Rightarrow> clean_string maximum s)"
  by (cases x) (auto simp: optional_string_def bindE_eq_Inr_iff)

lemma expect_returns [simp]:
  "expect_object (JObj d) field = Inr d"
  "expect_bool (JBool b) field = Inr b"
  "length xs \<le> maximum \<Longrightarrow> expect_list (JArr xs) field maximum = Inr xs"
  "clean_string maximum s \<Longrightarrow> expect_string (JStr s) field maximum = Inr s"
  "(case x of None \<Rightarrow> True | Some s \<Rightarrow> clean_string maximum s) \<Longrightarrow>
     optional_string (opt_str x) field maximum = Inr x"
  by simp_all

text \<open>\<open>refuses m\<close>: nothing but the declared error, or the overflow of a date, leaves \<open>m\<close>.\<close>

definition refuses :: "'a result \<Rightarrow> bool" where
  "refuses m \<longleftrightarrow> (\<forall>e. m = Inl e \<longrightarrow> e = OverflowError \<or> (\<exists>message. e = Err message))"

lemma only_Err_refuses: "only_Err m \<Longrightarrow> refuses m"
  by (auto simp: only_Err_def refuses_def)

lemma refuses_basic [refusal_intros]:
  "refuses (Inr x)" "refuses (Inl (Err message))" "refuses (Inl OverflowError)"
  "refuses (require b message)"
  by (auto simp: refuses_def require_eq_Inl_iff)

lemma refuses_bindE [refusal_intros]:
  "refuses m \<Longrightarrow> (\<And>x. m = Inr x \<Longrightarrow> refuses (f x)) \<Longrightarrow> refuses (bindE m f)"
  by (auto simp: refuses_def bindE_eq_Inl_iff)

lemma refuses_if [refusal_intros]:
  "(b \<Longrightarrow> refuses m) \<Longrightarrow> (\<not> b \<Longrightarrow> refuses n) \<Longrightarrow> refuses (if b then m else n)"
  by simp

lemma refuses_option [refusal_intros]:
  "(x = None \<Longrightarrow> refuses m) \<Longrightarrow> (\<And>y. x = Some y \<Longrightarrow> refuses (f y)) \<Longrightarrow>
     refuses (case x of None \<Rightarrow> m | Some y \<Rightarrow> f y)"
  by (cases x) simp_all

lemma refuses_pair [refusal_intros]:
  "(\<And>a b. p = (a, b) \<Longrightarrow> refuses (f a b)) \<Longrightarrow> refuses (case p of (a, b) \<Rightarrow> f a b)"
  by (cases p) simp

lemma refuses_mapE [refusal_intros]:
  "(\<And>x. x \<in> set xs \<Longrightarrow> refuses (f x)) \<Longrightarrow> refuses (mapE f xs)"
  by (induction xs) (auto intro!: refusal_intros)

lemma refuses_foldE [refusal_intros]:
  "(\<And>s x. x \<in> set xs \<Longrightarrow> refuses (f s x)) \<Longrightarrow> refuses (foldE f s xs)"
  by (induction xs arbitrary: s) (auto intro!: refusal_intros)

lemma refuses_expect [refusal_intros]:
  "refuses (expect_object v field)" "refuses (expect_bool v field)"
  "refuses (expect_list v field maximum)" "refuses (expect_string v field maximum)"
  "refuses (optional_string v field maximum)"
  unfolding expect_object_def expect_bool_def expect_list_def expect_string_def optional_string_def
  by (auto simp: refusal_intros intro!: refusal_intros split: json.split)

lemma refuses_check_safe [refusal_intros]: "refuses (check_safe node)"
  unfolding check_safe_def by (auto intro!: refusal_intros split: json.split prod.split)

lemma refuses_validate_public_safety [refusal_intros]: "refuses (validate_public_safety v)"
  unfolding validate_public_safety_def by (intro refusal_intros)

lemma refuses_normalize [refusal_intros]:
  "refuses (normalize_repo owner repository)" "refuses (normalize_branch v field)"
  "refuses (normalize_sha v field)" "refuses (normalize_visibility v field)"
  "refuses (unsupported_keys field d allowed)" "refuses (safe_path field p)"
  unfolding normalize_repo_def normalize_branch_def normalize_sha_def normalize_visibility_def
    unsupported_keys_def safe_path_def
  by (intro refusal_intros)+

lemma refuses_normalize_artifact [refusal_intros]: "refuses (normalize_artifact v field)"
  unfolding normalize_artifact_def by (intro refusal_intros)

lemma refuses_validate_github_url [refusal_intros]: "refuses (validate_github_url v field identity)"
  unfolding validate_github_url_def by (intro refusal_intros)

section \<open>Timestamps\<close>

definition timestamp :: "datetime \<Rightarrow> string" where
  "timestamp u = isoformat_naive u @ ''Z''"

lemma replace_offset:
  assumes "valid_datetime u"
  shows "replace_str ''+00:00'' ''Z'' (isoformat_utc u) = timestamp u"
    and "replace_str ''Z'' ''+00:00'' (timestamp u) = isoformat_utc u"
  using isoformat_naive_chars [OF assms] replace_str_prefix [of "''+00:00''" "''Z''" "[]"]
    replace_str_prefix [of "''Z''" "''+00:00''" "[]"]
  by (simp_all add: isoformat_utc_def timestamp_def replace_str_skip)

lemma parse_timestamp_cases:
  assumes "parse_timestamp v field = Inr s"
  obtains body dt off u where "v = JStr body"
    and "fromisoformat (if last body = CHR ''Z'' then butlast body @ ''+00:00'' else body) = Some (dt, Some off)"
    and "to_utc dt off = Inr u" and "valid_datetime u" and "instant u = instant dt - off"
    and "s = timestamp u"
proof -
  from assms obtain body dt off u where *: "v = JStr body"
    "fromisoformat (if last body = CHR ''Z'' then butlast body @ ''+00:00'' else body) = Some (dt, Some off)"
    "to_utc dt off = Inr u" "s = replace_str ''+00:00'' ''Z'' (isoformat_utc u)"
    by (auto simp: parse_timestamp_def Let_def bindE_eq_Inr_iff split: json.splits option.splits)
  with fromisoformat_valid [OF *(2)] to_utc_correct [of dt off]
  have "valid_datetime u" "instant u = instant dt - off" by simp_all
  with * that show thesis by (simp add: replace_offset)
qed

lemma parse_timestamp_canonical:
  assumes "valid_datetime u"
  shows "parse_timestamp (JStr (timestamp u)) field = Inr (timestamp u)"
proof -
  have "butlast (timestamp u) @ ''+00:00'' = isoformat_utc u" "last (timestamp u) = CHR ''Z''"
    "timestamp u \<noteq> []"
    by (simp_all add: timestamp_def isoformat_utc_def)
  with assms show ?thesis
    by (simp add: parse_timestamp_def Let_def fromisoformat_canonical to_utc_zero replace_offset)
qed

lemma now_utc_canonical:
  assumes "now_utc clock v = Inr now" and "valid_datetime clock"
  obtains u where "valid_datetime u" and "now = timestamp u"
  using assms parse_timestamp_cases
  by (cases v) (auto simp: now_utc_def replace_offset, metis)

lemma refuses_to_utc:
  "valid_datetime dt \<Longrightarrow> \<bar>off\<bar> < usec_per_day \<Longrightarrow> refuses (to_utc dt off)"
  using to_utc_correct [of dt off] by (auto simp: refuses_def)

lemma refuses_parse_timestamp [refusal_intros]: "refuses (parse_timestamp v field)"
  unfolding parse_timestamp_def Let_def
  by (auto intro!: refusal_intros refuses_to_utc dest: fromisoformat_valid
      split: json.split option.split)


section \<open>The strings a document publishes\<close>

fun strings_of :: "json \<Rightarrow> string set" where
  "strings_of (JStr s) = {s}"
| "strings_of (JArr xs) = \<Union> (strings_of ` set xs)"
| "strings_of (JObj d) = \<Union> ((strings_of \<circ> snd) ` set d)"
| "strings_of _ = {}"

definition publishable :: "string \<Rightarrow> bool" where
  "publishable s \<longleftrightarrow> length s \<le> 8192 \<and> \<not> re_search TOKEN_RE s \<and> \<not> re_search BEARER_RE s
     \<and> \<not> re_search PRIVATE_KEY_RE s \<and> \<not> re_search SECRET_ASSIGNMENT_RE s \<and> \<not> re_search EMAIL_RE s"

lemma walk_strings:
  "{s. JStr s \<in> snd ` set (walk v path)} = strings_of v"
  "{s. JStr s \<in> snd ` set (walk_items d path)} = (\<Union>(k, v)\<in>set d. strings_of v)"
  "{s. JStr s \<in> snd ` set (walk_elems vs path i)} = \<Union> (strings_of ` set vs)"
  by (induction v path and d path and vs path i rule: walk_walk_items_walk_elems.induct)
    (auto simp: image_Un Collect_disj_eq)

lemma foldE_unit: "foldE (\<lambda>_. f) () xs = Inr () \<longleftrightarrow> (\<forall>x\<in>set xs. f x = Inr ())"
  by (induction xs) (auto simp: bindE_eq_Inr_iff)

lemma only_Err_foldE: "(\<And>s x. only_Err (f s x)) \<Longrightarrow> only_Err (foldE f s xs)"
  by (induction xs arbitrary: s) (simp_all add: only_Err_intros)

lemma only_Err_check_safe: "only_Err (check_safe node)"
  unfolding check_safe_def by (auto intro!: only_Err_intros split: json.split prod.split)

lemma check_safe_iff:
  "check_safe (path, v) = Inr () \<longleftrightarrow> (\<forall>s. v = JStr s \<longrightarrow> publishable s)"
  by (auto simp: check_safe_def publishable_def bindE_eq_Inr_iff split: json.split)

lemma public_safety_iff:
  "validate_public_safety v = Inr () \<longleftrightarrow> strings_of v \<subseteq> {s. publishable s}"
  unfolding validate_public_safety_def foldE_unit walk_strings(1) [of v "''$''", symmetric]
  by (force simp: check_safe_iff)

text \<open>A pattern that needs a character the text does not have finds nothing.\<close>

fun dead :: "regex \<Rightarrow> string \<Rightarrow> bool" where
  "dead (Cls f lo hi) s \<longleftrightarrow> 0 < lo \<and> list_all (\<lambda>c. \<not> f c) s"
| "dead Boundary s \<longleftrightarrow> False"
| "dead (Seq rs) s \<longleftrightarrow> list_ex (\<lambda>r. dead r s) rs"
| "dead (Alt rs) s \<longleftrightarrow> list_all (\<lambda>r. dead r s) rs"
| "dead (Opt r) s \<longleftrightarrow> False"

lemma dead_ends:
  "dead r s \<Longrightarrow> ends r s i = []"
  "list_ex (\<lambda>r. dead r s) rs \<Longrightarrow> ends_seq rs s i = []"
  "list_all (\<lambda>r. dead r s) rs \<Longrightarrow> ends_alt rs s i = []"
proof (induction r s i and rs s i and rs s i rule: ends_ends_seq_ends_alt.induct)
  case (1 f lo hi s i)
  then have "takeWhile f (drop i s) = []"
    using set_drop_subset [of i s] by (cases "drop i s") (auto simp: list_all_iff)
  with 1 show ?case by (simp add: run_length_def split: option.split)
next
  case (7 r rs s i)
  then show ?case by (cases "dead r s") auto
qed auto

lemma dead_search: "dead r s \<Longrightarrow> \<not> re_search r s"
  by (simp add: re_search_def dead_ends list_ex_iff)

lemma dead_mono: "dead r t \<Longrightarrow> set s \<subseteq> set t \<Longrightarrow> dead r s"
  by (induction r t rule: dead.induct) (auto simp: list_all_iff list_ex_iff)

lemma hex_alphabet: "is_lower_hex c \<Longrightarrow> c \<in> set ''0123456789abcdef''"
proof -
  assume "is_lower_hex c"
  then have "code c \<in> set ([48..<58] @ [97..<103])"
    unfolding set_append set_upt by (auto simp: is_lower_hex_def is_digit_def)
  then have "char_of (code c) \<in> set (map char_of ([48..<58] @ [97..<103]))"
    unfolding set_map by (rule imageI)
  moreover have "map char_of ([48..<58] @ [97..<103]) = ''0123456789abcdef''" by code_simp
  ultimately show ?thesis by (simp add: code_def)
qed

definition inert :: "string \<Rightarrow> bool" where
  "inert s \<longleftrightarrow> dead TOKEN_RE s \<and> dead BEARER_RE s \<and> dead PRIVATE_KEY_RE s
     \<and> dead SECRET_ASSIGNMENT_RE s \<and> dead EMAIL_RE s"

lemma inert_publishable: "inert s \<Longrightarrow> length s \<le> 8192 \<Longrightarrow> publishable s"
  by (simp add: inert_def publishable_def dead_search)

lemma inert_mono: "inert t \<Longrightarrow> set s \<subseteq> set t \<Longrightarrow> inert s"
  unfolding inert_def using dead_mono by blast

lemma hex_publishable:
  assumes "is_sha256_text s"
  shows "publishable s"
proof (rule inert_publishable)
  have "inert ''0123456789abcdef''" by code_simp
  moreover have "set s \<subseteq> set ''0123456789abcdef''"
    using assms by (intro subsetI hex_alphabet) (simp add: is_sha256_text_def list_all_iff)
  ultimately show "inert s" by (rule inert_mono)
qed (use assms in \<open>simp add: is_sha256_text_def\<close>)

lemma sha256_value_shape [simp]: "is_sha256_text (sha256_value v)"
  by (simp add: sha256_value_def sha256_hexdigest_shape)

definition stamp_alphabet :: string where
  "stamp_alphabet = ''0123456789-T:.Z''"

lemma timestamp_publishable:
  assumes u: "valid_datetime u"
  shows "publishable (timestamp u)"
proof (rule inert_publishable)
  have dig: "digit_char d \<in> set stamp_alphabet" if "d < 10" for d
  proof -
    have "digit_char d \<in> set (map digit_char [0..<10])" unfolding set_map using that by (intro imageI) simp
    moreover have "map digit_char [0..<10] = ''0123456789''" by code_simp
    ultimately show ?thesis by (auto simp: stamp_alphabet_def)
  qed
  have two: "set (two_digits n) \<subseteq> set stamp_alphabet" if "n < 100" for n
    using that by (simp add: two_digits_def dig div_less_iff_less_mult)
  have four: "set (four_digits n) \<subseteq> set stamp_alphabet" if "n < 10000" for n
    using that two [of "n div 100"] two [of "n mod 100"]
    by (simp add: four_digits_def div_less_iff_less_mult)
  have six: "set (six_digits n) \<subseteq> set stamp_alphabet" if "n < 1000000" for n
    using that two [of "n div 10000"] four [of "n mod 10000"]
    by (simp add: six_digits_def div_less_iff_less_mult)
  have lits: "set ''-'' \<subseteq> set stamp_alphabet" "set ''T'' \<subseteq> set stamp_alphabet"
    "set '':'' \<subseteq> set stamp_alphabet" "set ''.'' \<subseteq> set stamp_alphabet" "set ''Z'' \<subseteq> set stamp_alphabet"
    by (simp_all add: stamp_alphabet_def)
  note small = valid_fields_small [OF u]
  have "set (timestamp u) \<subseteq> set stamp_alphabet"
    unfolding timestamp_def isoformat_naive_def set_append
    using two four six lits small by simp
  moreover have "inert stamp_alphabet" by code_simp
  ultimately show "inert (timestamp u)" by (metis inert_mono)
  show "length (timestamp u) \<le> 8192"
    by (simp add: timestamp_def isoformat_naive_def four_digits_def two_digits_def six_digits_def)
qed

section \<open>Strings without credentials\<close>

lemma ends_one: "ends (Cls f (Suc 0) (Some (Suc 0))) s i = (if i < length s \<and> f (s ! i) then [Suc i] else [])"
  by (cases "i < length s") (auto simp: run_length_def Cons_nth_drop_Suc [symmetric])

lemma lower_char_letter:
  "lower_char c = CHR ''b'' \<Longrightarrow> c = CHR ''b'' \<or> c = CHR ''B''"
  "lower_char c = CHR ''e'' \<Longrightarrow> c = CHR ''e'' \<or> c = CHR ''E''"
proof -
  have up: "c = char_of (code (lower_char c) - 32)" if "lower_char c \<noteq> c"
    using that by (auto simp: lower_char_def is_upper_def code_def split: if_splits)
  have "char_of (code (CHR ''b'') - 32) = CHR ''B''" "char_of (code (CHR ''e'') - 32) = CHR ''E''"
    by code_simp+
  with up show "lower_char c = CHR ''b'' \<Longrightarrow> c = CHR ''b'' \<or> c = CHR ''B''"
    "lower_char c = CHR ''e'' \<Longrightarrow> c = CHR ''e'' \<or> c = CHR ''E''" by metis+
qed

text \<open>A bearer credential needs its first two letters side by side.\<close>

fun letters_apart :: "string \<Rightarrow> bool" where
  "letters_apart (c # d # s) \<longleftrightarrow>
     \<not> (c \<in> set ''bB'' \<and> d \<in> set ''eE'') \<and> letters_apart (d # s)"
| "letters_apart s \<longleftrightarrow> True"

lemma letters_apart_nth:
  "letters_apart s \<Longrightarrow> Suc i < length s \<Longrightarrow> \<not> (s ! i \<in> set ''bB'' \<and> s ! Suc i \<in> set ''eE'')"
proof (induction s arbitrary: i rule: letters_apart.induct)
  case (1 c d s)
  show ?case
  proof (cases i)
    case 0
    with 1 show ?thesis by simp
  next
    case (Suc j)
    with 1 show ?thesis by (metis length_Cons letters_apart.simps(1) not_less_eq nth_Cons_Suc)
  qed
qed simp_all

lemma letters_apart_search:
  assumes "letters_apart s"
  shows "\<not> re_search BEARER_RE s"
proof
  assume "re_search BEARER_RE s"
  then obtain i where i: "ends BEARER_RE s i \<noteq> []" by (auto simp: re_search_def list_ex_iff)
  then have "Suc i < length s \<and> lower_char (s ! i) = CHR ''b'' \<and> lower_char (s ! Suc i) = CHR ''e''"
    by (simp add: BEARER_RE_def ilit_def ends_one del: ends.simps(1) split: if_splits)
  with letters_apart_nth [OF assms, of i] lower_char_letter show False by fastforce
qed

lemma dead_lit: "c \<in> set p \<Longrightarrow> c \<notin> set s \<Longrightarrow> dead (lit p) s"
  by (auto simp: lit_def list_ex_iff list_all_iff)

lemma dead_patterns:
  "\<not> {CHR ''g'', CHR ''h'', CHR ''_''} \<subseteq> set s \<Longrightarrow> \<not> {CHR ''k'', CHR ''-''} \<subseteq> set s \<Longrightarrow> dead TOKEN_RE s"
  "CHR ''Y'' \<notin> set s \<Longrightarrow> dead PRIVATE_KEY_RE s"
  "CHR '':'' \<notin> set s \<Longrightarrow> CHR ''='' \<notin> set s \<Longrightarrow> dead SECRET_ASSIGNMENT_RE s"
  "CHR ''@'' \<notin> set s \<Longrightarrow> dead EMAIL_RE s"
proof -
  assume "\<not> {CHR ''g'', CHR ''h'', CHR ''_''} \<subseteq> set s" "\<not> {CHR ''k'', CHR ''-''} \<subseteq> set s"
  then have "dead (lit ''gh'') s \<or> dead (lit ''_'') s" "dead (lit ''sk-'') s"
    using dead_lit [of "CHR ''g''" "''gh''" s] dead_lit [of "CHR ''h''" "''gh''" s]
      dead_lit [of "CHR ''_''" "''_''" s] dead_lit [of "CHR ''k''" "''sk-''" s]
      dead_lit [of "CHR ''-''" "''sk-''" s] by auto
  then show "dead TOKEN_RE s" unfolding TOKEN_RE_def by (elim disjE) simp_all
next
  assume "CHR ''Y'' \<notin> set s"
  then have "dead (lit ''PRIVATE KEY-----'') s" by (intro dead_lit [of "CHR ''Y''"]) simp_all
  then show "dead PRIVATE_KEY_RE s" unfolding PRIVATE_KEY_RE_def by simp
next
  assume "CHR '':'' \<notin> set s" "CHR ''='' \<notin> set s"
  then have "dead (Cls (\<lambda>c. c \<in> set '':='') 1 (Some 1)) s" by (auto simp: list_all_iff)
  then show "dead SECRET_ASSIGNMENT_RE s" unfolding SECRET_ASSIGNMENT_RE_def Let_def by simp
next
  assume "CHR ''@'' \<notin> set s"
  then have "dead (lit ''@'') s" by (intro dead_lit) simp_all
  then show "dead EMAIL_RE s" unfolding EMAIL_RE_def by simp
qed

lemma sentence_publishable:
  assumes "letters_apart s" and "set s \<inter> set '':=@Y'' = {}"
    and "\<not> {CHR ''g'', CHR ''h'', CHR ''_''} \<subseteq> set s" and "\<not> {CHR ''k'', CHR ''-''} \<subseteq> set s"
    and "length s \<le> 8192"
  shows "publishable s"
  using assms by (simp add: publishable_def dead_search dead_patterns letters_apart_search)

section \<open>Properties\<close>

text \<open>
  \<^verbatim>\<open>parse_timestamp\<close> normalises: the text it returns is a fixed point of itself under any
  field name, and denotes in UTC the same instant as the date and offset that
  \<^verbatim>\<open>datetime.fromisoformat\<close> reads from the input.
\<close>

lemma timestamp_normal_form:
  assumes "parse_timestamp v field = Inr s"
  shows "parse_timestamp (JStr s) other = Inr s \<and>
    (\<exists>body dt off u. v = JStr body \<and>
       fromisoformat (if last body = CHR ''Z'' then butlast body @ ''+00:00'' else body)
         = Some (dt, Some off) \<and>
       fromisoformat (replace_str ''Z'' ''+00:00'' s) = Some (u, Some 0) \<and>
       instant u = instant dt - off)"
  using assms
proof (rule parse_timestamp_cases)
  fix body dt off u
  assume *: "v = JStr body"
    "fromisoformat (if last body = CHR ''Z'' then butlast body @ ''+00:00'' else body) = Some (dt, Some off)"
    "valid_datetime u" "instant u = instant dt - off" "s = timestamp u"
  then have "fromisoformat (replace_str ''Z'' ''+00:00'' s) = Some (u, Some 0)"
    by (simp add: replace_offset fromisoformat_canonical)
  with * parse_timestamp_canonical show ?thesis by blast
qed

definition sample_time :: datetime where
  "sample_time = \<lparr>dt_year = 2026, dt_month = 1, dt_day = 31, dt_hour = 23, dt_minute = 30,
     dt_second = 5, dt_usec = 0\<rparr>"

lemma sample_time_valid: "valid_datetime sample_time"
  by (simp add: sample_time_def valid_datetime_def valid_date_def days_in_month_def)

lemma timestamp_normal_form_witness:
  "parse_timestamp (JStr (timestamp sample_time)) ''now'' = Inr (timestamp sample_time) \<and>
   (\<exists>body dt off u. JStr (timestamp sample_time) = JStr body \<and>
       fromisoformat (if last body = CHR ''Z'' then butlast body @ ''+00:00'' else body)
         = Some (dt, Some off) \<and>
       fromisoformat (replace_str ''Z'' ''+00:00'' (timestamp sample_time)) = Some (u, Some 0) \<and>
       instant u = instant dt - off)"
  using timestamp_normal_form [OF parse_timestamp_canonical [OF sample_time_valid], of "''now''"]
  by blast

text \<open>
  \<^verbatim>\<open>parse_timestamp\<close> is not confined to \<^verbatim>\<open>RecoveryError\<close>: \<^verbatim>\<open>OverflowError\<close> leaves it exactly when
  the text is a well-formed date with an offset whose instant lies outside the years 1 to 9999 of
  UTC, and nothing else ever does.
\<close>

lemma timestamp_errors:
  "(parse_timestamp v field = Inl OverflowError \<longleftrightarrow>
     (\<exists>body dt off. v = JStr body \<and> body \<noteq> [] \<and>
        fromisoformat (if last body = CHR ''Z'' then butlast body @ ''+00:00'' else body)
          = Some (dt, Some off) \<and>
        (instant dt - off < min_instant \<or> max_instant < instant dt - off))) \<and>
   refuses (parse_timestamp v field)"
proof (intro conjI)
  show "refuses (parse_timestamp v field)" by (rule refuses_parse_timestamp)
  show "parse_timestamp v field = Inl OverflowError \<longleftrightarrow>
     (\<exists>body dt off. v = JStr body \<and> body \<noteq> [] \<and>
        fromisoformat (if last body = CHR ''Z'' then butlast body @ ''+00:00'' else body)
          = Some (dt, Some off) \<and>
        (instant dt - off < min_instant \<or> max_instant < instant dt - off))"
  proof (cases v)
    case (JStr body)
    define p where "p = fromisoformat (if last body = CHR ''Z'' then butlast body @ ''+00:00'' else body)"
    show ?thesis
    proof (cases "body \<noteq> [] \<and> (\<exists>dt off. p = Some (dt, Some off))")
      case True
      then obtain dt off where p: "p = Some (dt, Some off)" "body \<noteq> []" by auto
      from fromisoformat_valid [OF p(1) [unfolded p_def]] to_utc_correct [of dt off] instant_bounds
      have "to_utc dt off = Inl OverflowError \<longleftrightarrow>
          instant dt - off < min_instant \<or> max_instant < instant dt - off"
        by (fastforce split: sum.splits)
      with p JStr show ?thesis
        unfolding parse_timestamp_def Let_def
        by (simp add: p_def [symmetric] bindE_eq_Inl_iff)
    next
      case False
      with JStr show ?thesis
        unfolding parse_timestamp_def Let_def
        by (auto simp: p_def [symmetric] bindE_eq_Inl_iff require_eq_Inl_iff split: option.splits)
    qed
  qed (auto simp: parse_timestamp_def)
qed


end
