(* ===== verification/MutationContract.thy ===== *)
theory MutationContract
  imports RecoveryCommon
begin

text \<open>
  \<^verbatim>\<open>src/tools/artifact_recovery/mutation_receipts_contract.py\<close>: strict normalisation of the policy,
  targets, intents and results of a mutation report.

  A normalised dictionary has fixed keys and is a record here; \<open>lease_json\<close>, \<open>policy_json\<close> and so
  on are the dictionaries in the order the code builds them, and the \<open>_material\<close> functions the
  parts that are hashed. Durations are whole seconds: the code truncates
  \<^verbatim>\<open>timedelta.total_seconds()\<close>, a float that is exact at this scale (it rounds only for differences
  over five centuries, far above every bound it is compared with).

  For each record: a well-formedness predicate, that normalisation only returns well-formed
  records, and that the dictionary of a well-formed record normalises to that record again.
\<close>

section \<open>Constants\<close>

definition SCHEMA_VERSION :: string where "SCHEMA_VERSION = ''coordinator_mutation_receipts.v1''"

definition FAILURE_LEDGER_SCHEMA :: string where
  "FAILURE_LEDGER_SCHEMA = ''coordinator_mutation_failure_ledger.v1''"

definition SYSTEMS :: "string list" where "SYSTEMS = [''linear'', ''github'']"

definition RESOURCE_KINDS :: "string list" where
  "RESOURCE_KINDS = [''linear_issue'', ''linear_comment_thread'', ''github_branch'',
     ''github_pull_request'', ''github_issue'', ''github_comment_thread'']"

definition OPERATION_SYSTEM :: "(string \<times> string) list" where
  "OPERATION_SYSTEM = [(''linear_update_issue'', ''linear''), (''linear_create_comment'', ''linear''),
     (''linear_set_relation'', ''linear''), (''linear_update_status'', ''linear''),
     (''github_create_branch'', ''github''), (''github_update_branch'', ''github''),
     (''github_create_pull_request'', ''github''), (''github_update_pull_request'', ''github''),
     (''github_create_comment'', ''github'')]"

definition OPERATIONS :: "string list" where
  "OPERATIONS = [''linear_update_issue'', ''linear_create_comment'', ''linear_set_relation'',
     ''linear_update_status'', ''github_create_branch'', ''github_update_branch'',
     ''github_create_pull_request'', ''github_update_pull_request'', ''github_create_comment'']"

definition RELATION_OPERATIONS :: "string list" where
  "RELATION_OPERATIONS = [''linear_set_relation'']"

definition CHAIN_STEPS :: "string list" where
  "CHAIN_STEPS = [''linear_issue'', ''routing'', ''branch'', ''commit'', ''pull_request'', ''evidence'',
     ''linear_status'']"

definition COMPENSATIONS :: "string list" where
  "COMPENSATIONS = [''none'', ''restore_previous_state'', ''remove_created_relation'',
     ''close_created_pull_request'', ''delete_created_branch'', ''revert_comment'', ''manual_review'']"

definition RESULT_OUTCOMES :: "string list" where
  "RESULT_OUTCOMES = [''accepted'', ''rejected'', ''provider_error'', ''compensated'']"

definition MAX_RECORDS :: nat where "MAX_RECORDS = 10000"
definition MAX_CLOCK_SKEW_SECONDS :: int where "MAX_CLOCK_SKEW_SECONDS = 3600"
definition MAX_SNAPSHOT_AGE_SECONDS :: int where "MAX_SNAPSHOT_AGE_SECONDS = 86400"
definition MAX_LEASE_SECONDS :: int where "MAX_LEASE_SECONDS = 86400"
definition MAX_ATTEMPTS :: int where "MAX_ATTEMPTS = 20"

section \<open>Checked scalars\<close>

definition strict_object :: "json \<Rightarrow> string \<Rightarrow> string list \<Rightarrow> pydict result" where
  "strict_object v field allowed =
     bindE (expect_object v field) (\<lambda>d. bindE (unsupported_keys field d allowed) (\<lambda>_. Inr d))"

definition expect_int :: "json \<Rightarrow> string \<Rightarrow> int \<Rightarrow> int \<Rightarrow> int result" where
  "expect_int v field lo hi = (case v of
      JInt i \<Rightarrow>
        bindE (require (lo \<le> i) (field @ '' must be at least '' @ str_int lo)) (\<lambda>_.
        bindE (require (i \<le> hi) (field @ '' must be at most '' @ str_int hi)) (\<lambda>_. Inr i))
    | _ \<Rightarrow> Inl (Err (field @ '' must be an integer'')))"

definition expect_sha256 :: "json \<Rightarrow> string \<Rightarrow> string result" where
  "expect_sha256 v field =
     bindE (expect_string v field 64) (\<lambda>digest.
     bindE (require (is_sha256_text digest) (field @ '' must be a lowercase SHA-256 digest'')) (\<lambda>_.
     Inr digest))"

definition optional_sha256 :: "json \<Rightarrow> string \<Rightarrow> string option result" where
  "optional_sha256 v field = (if v = JNull then Inr None
     else bindE (expect_sha256 v field) (\<lambda>s. Inr (Some s)))"

definition one_of :: "json \<Rightarrow> string \<Rightarrow> nat \<Rightarrow> string list \<Rightarrow> string result" where
  "one_of v field maximum names =
     bindE (expect_string v field maximum) (\<lambda>s.
     bindE (require (s \<in> set names) (field @ '' is unsupported'')) (\<lambda>_. Inr s))"

text \<open>
  The normalised text is parsed a second time; the lemmas show that this never fails, so the
  \<^verbatim>\<open>ValueError\<close> branch is unreachable.
\<close>

definition parse_datetime :: "json \<Rightarrow> string \<Rightarrow> (string \<times> datetime) result" where
  "parse_datetime v field =
     bindE (parse_timestamp v field) (\<lambda>normalized.
     (case fromisoformat (replace_str ''Z'' ''+00:00'' normalized) of
        Some (parsed, Some off) \<Rightarrow> bindE (to_utc parsed off) (\<lambda>u. Inr (normalized, u))
      | _ \<Rightarrow> Inl ValueError))"

definition whole_seconds :: "int \<Rightarrow> int" where
  "whole_seconds us = (if 0 \<le> us then us div 1000000 else - ((- us) div 1000000))"

text \<open>\<^verbatim>\<open>dt + timedelta(seconds=k)\<close>, which overflows outside the years 1 to 9999.\<close>

definition shifted :: "datetime \<Rightarrow> int \<Rightarrow> int result" where
  "shifted dt k = (let t = instant dt + k * 1000000 in
     if t < min_instant \<or> max_instant < t then Inl OverflowError else Inr t)"

section \<open>Normalisation\<close>

record lease =
  l_token :: string
  l_owner :: string
  l_acquired_at :: string
  l_expires_at :: string

definition lease_json :: "lease option \<Rightarrow> json" where
  "lease_json x = (case x of None \<Rightarrow> JNull
     | Some l \<Rightarrow> JObj [(''token_sha256'', JStr (l_token l)), (''owner_sha256'', JStr (l_owner l)),
         (''acquired_at'', JStr (l_acquired_at l)), (''expires_at'', JStr (l_expires_at l))])"

definition normalize_lease :: "json \<Rightarrow> string \<Rightarrow> int \<Rightarrow> lease option result" where
  "normalize_lease v field max_lease_seconds = (if v = JNull then Inr None else
     bindE (strict_object v field [''token_sha256'', ''owner_sha256'', ''acquired_at'', ''expires_at''])
       (\<lambda>d.
     bindE (parse_datetime (dict_get d ''acquired_at'') (field @ ''.acquired_at'')) (\<lambda>(acquired_at, acquired_dt).
     bindE (parse_datetime (dict_get d ''expires_at'') (field @ ''.expires_at'')) (\<lambda>(expires_at, expires_dt).
     (let duration = whole_seconds (instant expires_dt - instant acquired_dt) in
     bindE (require (0 < duration) (field @ '' must expire after acquisition'')) (\<lambda>_.
     bindE (require (duration \<le> max_lease_seconds)
       (field @ '' exceeds the policy maximum lease duration'')) (\<lambda>_.
     bindE (expect_sha256 (dict_get d ''token_sha256'') (field @ ''.token_sha256'')) (\<lambda>token.
     bindE (expect_sha256 (dict_get d ''owner_sha256'') (field @ ''.owner_sha256'')) (\<lambda>owner.
     Inr (Some \<lparr>l_token = token, l_owner = owner, l_acquired_at = acquired_at,
       l_expires_at = expires_at\<rparr>))))))))))"

record policy =
  p_version :: string
  p_max_clock_skew :: int
  p_max_snapshot_age :: int
  p_max_lease :: int
  p_max_attempts :: int

definition policy_material :: "policy \<Rightarrow> pydict" where
  "policy_material p = [(''max_clock_skew_seconds'', JInt (p_max_clock_skew p)),
     (''max_snapshot_age_seconds'', JInt (p_max_snapshot_age p)),
     (''max_lease_seconds'', JInt (p_max_lease p)), (''max_attempts'', JInt (p_max_attempts p))]"

definition policy_json :: "policy \<Rightarrow> json" where
  "policy_json p = JObj ((''version_sha256'', JStr (p_version p)) # policy_material p)"

definition normalize_policy :: "json \<Rightarrow> policy result" where
  "normalize_policy v =
     bindE (strict_object v ''policy'' [''version_sha256'', ''max_clock_skew_seconds'',
       ''max_snapshot_age_seconds'', ''max_lease_seconds'', ''max_attempts'']) (\<lambda>d.
     bindE (expect_int (dict_get d ''max_clock_skew_seconds'') ''policy.max_clock_skew_seconds'' 0
       MAX_CLOCK_SKEW_SECONDS) (\<lambda>skew.
     bindE (expect_int (dict_get d ''max_snapshot_age_seconds'') ''policy.max_snapshot_age_seconds'' 1
       MAX_SNAPSHOT_AGE_SECONDS) (\<lambda>age.
     bindE (expect_int (dict_get d ''max_lease_seconds'') ''policy.max_lease_seconds'' 1
       MAX_LEASE_SECONDS) (\<lambda>lease.
     bindE (expect_int (dict_get d ''max_attempts'') ''policy.max_attempts'' 1 MAX_ATTEMPTS) (\<lambda>attempts.
     bindE (expect_sha256 (dict_get d ''version_sha256'') ''policy.version_sha256'') (\<lambda>version.
     (let p = \<lparr>p_version = version, p_max_clock_skew = skew, p_max_snapshot_age = age,
        p_max_lease = lease, p_max_attempts = attempts\<rparr> in
      bindE (require (version = sha256_value (JObj (policy_material p)))
        ''policy.version_sha256 must bind the canonical policy'') (\<lambda>_. Inr p))))))))"

record target =
  t_system :: string
  t_resource_kind :: string
  t_identity :: string
  t_version :: string
  t_routing :: string
  t_authorization :: string
  t_observed_at :: string
  t_resolvable :: bool
  t_lease :: "lease option"

definition target_json :: "target \<Rightarrow> json" where
  "target_json t = JObj [(''system'', JStr (t_system t)), (''resource_kind'', JStr (t_resource_kind t)),
     (''identity_sha256'', JStr (t_identity t)), (''version_sha256'', JStr (t_version t)),
     (''routing_sha256'', JStr (t_routing t)), (''authorization_sha256'', JStr (t_authorization t)),
     (''observed_at'', JStr (t_observed_at t)), (''resolvable'', JBool (t_resolvable t)),
     (''lease'', lease_json (t_lease t))]"

definition normalize_target :: "policy \<Rightarrow> nat \<times> json \<Rightarrow> target result" where
  "normalize_target p iv = (case iv of (i, v) \<Rightarrow> (let field = index_field ''targets'' i in
     bindE (strict_object v field [''system'', ''resource_kind'', ''identity_sha256'', ''version_sha256'',
       ''routing_sha256'', ''authorization_sha256'', ''observed_at'', ''resolvable'', ''lease'']) (\<lambda>d.
     bindE (one_of (dict_get d ''system'') (field @ ''.system'') 16 SYSTEMS) (\<lambda>system.
     bindE (one_of (dict_get d ''resource_kind'') (field @ ''.resource_kind'') 64 RESOURCE_KINDS) (\<lambda>kind.
     bindE (parse_datetime (dict_get d ''observed_at'') (field @ ''.observed_at'')) (\<lambda>(observed_at, _).
     bindE (expect_sha256 (dict_get d ''identity_sha256'') (field @ ''.identity_sha256'')) (\<lambda>identity.
     bindE (expect_sha256 (dict_get d ''version_sha256'') (field @ ''.version_sha256'')) (\<lambda>version.
     bindE (expect_sha256 (dict_get d ''routing_sha256'') (field @ ''.routing_sha256'')) (\<lambda>routing.
     bindE (expect_sha256 (dict_get d ''authorization_sha256'') (field @ ''.authorization_sha256'')) (\<lambda>auth.
     bindE (expect_bool (dict_get d ''resolvable'') (field @ ''.resolvable'')) (\<lambda>resolvable.
     bindE (normalize_lease (dict_get d ''lease'') (field @ ''.lease'') (p_max_lease p)) (\<lambda>lease.
     Inr \<lparr>t_system = system, t_resource_kind = kind, t_identity = identity, t_version = version,
       t_routing = routing, t_authorization = auth, t_observed_at = observed_at,
       t_resolvable = resolvable, t_lease = lease\<rparr>))))))))))))"

record chain =
  c_workflow :: string
  c_step :: string
  c_sequence :: int
  c_previous :: "string option"
  c_trace :: string

definition chain_material :: "chain \<Rightarrow> pydict" where
  "chain_material c = [(''workflow_sha256'', JStr (c_workflow c)), (''step'', JStr (c_step c)),
     (''sequence'', JInt (c_sequence c)), (''previous_result_sha256'', opt_str (c_previous c))]"

definition chain_json :: "chain \<Rightarrow> json" where
  "chain_json c = JObj (chain_material c @ [(''trace_sha256'', JStr (c_trace c))])"

definition normalize_chain :: "json \<Rightarrow> string \<Rightarrow> chain result" where
  "normalize_chain v field =
     bindE (strict_object v field [''workflow_sha256'', ''step'', ''sequence'',
       ''previous_result_sha256'', ''trace_sha256'']) (\<lambda>d.
     bindE (one_of (dict_get d ''step'') (field @ ''.step'') 32 CHAIN_STEPS) (\<lambda>step.
     bindE (expect_int (dict_get d ''sequence'') (field @ ''.sequence'') 0 64) (\<lambda>seq.
     bindE (optional_sha256 (dict_get d ''previous_result_sha256'') (field @ ''.previous_result_sha256''))
       (\<lambda>previous.
     bindE (require (\<not> (seq = 0 \<and> previous \<noteq> None))
       (field @ ''.previous_result_sha256 must be null for sequence 0'')) (\<lambda>_.
     bindE (require (\<not> (0 < seq \<and> previous = None))
       (field @ ''.previous_result_sha256 is required after sequence 0'')) (\<lambda>_.
     bindE (expect_sha256 (dict_get d ''workflow_sha256'') (field @ ''.workflow_sha256'')) (\<lambda>workflow.
     bindE (expect_sha256 (dict_get d ''trace_sha256'') (field @ ''.trace_sha256'')) (\<lambda>trace.
     (let c = \<lparr>c_workflow = workflow, c_step = step, c_sequence = seq, c_previous = previous,
        c_trace = trace\<rparr> in
      bindE (require (trace = sha256_value (JObj (chain_material c)))
        (field @ ''.trace_sha256 does not bind the chain'')) (\<lambda>_. Inr c))))))))))"


record intent =
  i_sha :: string
  i_system :: string
  i_operation :: string
  i_resource_kind :: string
  i_target :: string
  i_observed_version :: string
  i_observed_at :: string
  i_desired_patch :: string
  i_relation_analysis :: "string option"
  i_actor :: string
  i_run :: string
  i_idempotency_key :: string
  i_policy :: string
  i_routing :: string
  i_authorization :: string
  i_lease :: "lease option"
  i_compensation :: string
  i_chain :: chain

definition intent_material :: "intent \<Rightarrow> pydict" where
  "intent_material x = [(''system'', JStr (i_system x)), (''operation'', JStr (i_operation x)),
     (''resource_kind'', JStr (i_resource_kind x)), (''target_identity_sha256'', JStr (i_target x)),
     (''observed_version_sha256'', JStr (i_observed_version x)), (''observed_at'', JStr (i_observed_at x)),
     (''desired_patch_sha256'', JStr (i_desired_patch x)),
     (''relation_analysis_sha256'', opt_str (i_relation_analysis x)), (''actor_sha256'', JStr (i_actor x)),
     (''run_sha256'', JStr (i_run x)), (''idempotency_key_sha256'', JStr (i_idempotency_key x)),
     (''policy_sha256'', JStr (i_policy x)), (''routing_sha256'', JStr (i_routing x)),
     (''authorization_sha256'', JStr (i_authorization x)), (''lease'', lease_json (i_lease x)),
     (''compensation'', JStr (i_compensation x)), (''chain'', chain_json (i_chain x))]"

definition intent_json :: "intent \<Rightarrow> json" where
  "intent_json x = JObj ((''intent_sha256'', JStr (i_sha x)) # intent_material x)"

definition intent_keys :: "string list" where
  "intent_keys = [''intent_sha256'', ''system'', ''operation'', ''resource_kind'',
     ''target_identity_sha256'', ''observed_version_sha256'', ''observed_at'', ''desired_patch_sha256'',
     ''relation_analysis_sha256'', ''actor_sha256'', ''run_sha256'', ''idempotency_key_sha256'',
     ''policy_sha256'', ''routing_sha256'', ''authorization_sha256'', ''lease'', ''compensation'', ''chain'']"

definition normalize_intent :: "policy \<Rightarrow> nat \<times> json \<Rightarrow> intent result" where
  "normalize_intent p iv = (case iv of (i, v) \<Rightarrow> (let field = index_field ''intents'' i in
     bindE (strict_object v field intent_keys) (\<lambda>d.
     bindE (one_of (dict_get d ''system'') (field @ ''.system'') 16 SYSTEMS) (\<lambda>system.
     bindE (one_of (dict_get d ''operation'') (field @ ''.operation'') 64 OPERATIONS) (\<lambda>operation.
     bindE (case map_of OPERATION_SYSTEM operation of None \<Rightarrow> Inl (KeyError operation)
       | Some s \<Rightarrow> require (s = system) (field @ ''.operation does not match system'')) (\<lambda>_.
     bindE (one_of (dict_get d ''resource_kind'') (field @ ''.resource_kind'') 64 RESOURCE_KINDS) (\<lambda>kind.
     bindE (parse_datetime (dict_get d ''observed_at'') (field @ ''.observed_at'')) (\<lambda>(observed_at, _).
     bindE (optional_sha256 (dict_get d ''relation_analysis_sha256'') (field @ ''.relation_analysis_sha256''))
       (\<lambda>relation_analysis.
     bindE (require (\<not> (operation \<in> set RELATION_OPERATIONS \<and> relation_analysis = None))
       (field @ ''.relation_analysis_sha256 is required for relation mutations'')) (\<lambda>_.
     bindE (one_of (dict_get d ''compensation'') (field @ ''.compensation'') 64 COMPENSATIONS) (\<lambda>compensation.
     bindE (expect_sha256 (dict_get d ''target_identity_sha256'') (field @ ''.target_identity_sha256'')) (\<lambda>target.
     bindE (expect_sha256 (dict_get d ''observed_version_sha256'') (field @ ''.observed_version_sha256'')) (\<lambda>observed.
     bindE (expect_sha256 (dict_get d ''desired_patch_sha256'') (field @ ''.desired_patch_sha256'')) (\<lambda>patch.
     bindE (expect_sha256 (dict_get d ''actor_sha256'') (field @ ''.actor_sha256'')) (\<lambda>actor.
     bindE (expect_sha256 (dict_get d ''run_sha256'') (field @ ''.run_sha256'')) (\<lambda>run.
     bindE (expect_sha256 (dict_get d ''idempotency_key_sha256'') (field @ ''.idempotency_key_sha256'')) (\<lambda>key.
     bindE (expect_sha256 (dict_get d ''policy_sha256'') (field @ ''.policy_sha256'')) (\<lambda>policy_sha.
     bindE (expect_sha256 (dict_get d ''routing_sha256'') (field @ ''.routing_sha256'')) (\<lambda>routing.
     bindE (expect_sha256 (dict_get d ''authorization_sha256'') (field @ ''.authorization_sha256'')) (\<lambda>auth.
     bindE (normalize_lease (dict_get d ''lease'') (field @ ''.lease'') (p_max_lease p)) (\<lambda>lease.
     bindE (normalize_chain (dict_get d ''chain'') (field @ ''.chain'')) (\<lambda>chain.
     bindE (expect_sha256 (dict_get d ''intent_sha256'') (field @ ''.intent_sha256'')) (\<lambda>sha.
     (let x = \<lparr>i_sha = sha, i_system = system, i_operation = operation, i_resource_kind = kind,
        i_target = target, i_observed_version = observed, i_observed_at = observed_at,
        i_desired_patch = patch, i_relation_analysis = relation_analysis, i_actor = actor,
        i_run = run, i_idempotency_key = key, i_policy = policy_sha, i_routing = routing,
        i_authorization = auth, i_lease = lease, i_compensation = compensation, i_chain = chain\<rparr> in
      bindE (require (sha = sha256_value (JObj (intent_material x)))
        (field @ ''.intent_sha256 does not bind the canonical intent'')) (\<lambda>_. Inr x)))))))))))))))))))))))))"

record mresult =
  r_sha :: string
  r_intent :: string
  r_idempotency_key :: string
  r_system :: string
  r_target :: string
  r_outcome :: string
  r_provider_receipt :: "string option"
  r_before_version :: string
  r_after_version :: "string option"
  r_occurred_at :: string
  r_actor :: string
  r_detail :: string
  r_compensation_of :: "string option"

definition result_material :: "mresult \<Rightarrow> pydict" where
  "result_material r = [(''intent_sha256'', JStr (r_intent r)),
     (''idempotency_key_sha256'', JStr (r_idempotency_key r)), (''system'', JStr (r_system r)),
     (''target_identity_sha256'', JStr (r_target r)), (''outcome'', JStr (r_outcome r)),
     (''provider_receipt_sha256'', opt_str (r_provider_receipt r)),
     (''before_version_sha256'', JStr (r_before_version r)),
     (''after_version_sha256'', opt_str (r_after_version r)), (''occurred_at'', JStr (r_occurred_at r)),
     (''actor_sha256'', JStr (r_actor r)), (''detail_sha256'', JStr (r_detail r)),
     (''compensation_of_result_sha256'', opt_str (r_compensation_of r))]"

definition result_json :: "mresult \<Rightarrow> json" where
  "result_json r = JObj ((''result_sha256'', JStr (r_sha r)) # result_material r)"

definition result_keys :: "string list" where
  "result_keys = [''result_sha256'', ''intent_sha256'', ''idempotency_key_sha256'', ''system'',
     ''target_identity_sha256'', ''outcome'', ''provider_receipt_sha256'', ''before_version_sha256'',
     ''after_version_sha256'', ''occurred_at'', ''actor_sha256'', ''detail_sha256'',
     ''compensation_of_result_sha256'']"

text \<open>A dictionary built from records with distinct keys, \<^verbatim>\<open>{key(x): x for x in xs}\<close>.\<close>

definition by_key :: "('a \<Rightarrow> string) \<Rightarrow> 'a list \<Rightarrow> string \<Rightarrow> 'a option" where
  "by_key key xs = map_of (map (\<lambda>x. (key x, x)) xs)"

definition result_is_accepted :: "mresult \<Rightarrow> bool" where
  "result_is_accepted r \<longleftrightarrow> r_outcome r \<in> {''accepted'', ''compensated''}"

text \<open>The checks of a result against its intent and its outcome, the second half of the function.\<close>

definition check_result :: "string \<Rightarrow> intent \<Rightarrow> mresult \<Rightarrow> unit result" where
  "check_result field x r =
     bindE (require (r_idempotency_key r = i_idempotency_key x)
       (field @ '' does not match the intent idempotency key'')) (\<lambda>_.
     bindE (require (r_system r = i_system x) (field @ '' does not match the intent system'')) (\<lambda>_.
     bindE (require (r_target r = i_target x) (field @ '' does not match the intent target'')) (\<lambda>_.
     bindE (require (r_before_version r = i_observed_version x)
       (field @ '' does not match the intent precondition'')) (\<lambda>_.
     bindE (if result_is_accepted r then
         bindE (require (r_provider_receipt r \<noteq> None) (field @ '' requires a provider receipt'')) (\<lambda>_.
         require (r_after_version r \<noteq> None) (field @ '' requires an after-version digest''))
       else require (r_after_version r = None)
         (field @ ''.after_version_sha256 must be null when no mutation was accepted'')) (\<lambda>_.
     if r_outcome r = ''compensated'' then
       require (r_compensation_of r \<noteq> None) (field @ '' must reference the compensated result'')
     else require (r_compensation_of r = None)
       (field @ ''.compensation_of_result_sha256 is only valid for compensation''))))))"

definition normalize_result :: "intent list \<Rightarrow> nat \<times> json \<Rightarrow> mresult result" where
  "normalize_result intents iv = (case iv of (i, v) \<Rightarrow> (let field = index_field ''results'' i in
     bindE (strict_object v field result_keys) (\<lambda>d.
     bindE (expect_sha256 (dict_get d ''intent_sha256'') (field @ ''.intent_sha256'')) (\<lambda>intent_sha.
     (case by_key i_sha intents intent_sha of
        None \<Rightarrow> Inl (Err (field @ ''.intent_sha256 is not in this report''))
      | Some x \<Rightarrow>
     bindE (one_of (dict_get d ''system'') (field @ ''.system'') 16 SYSTEMS) (\<lambda>system.
     bindE (one_of (dict_get d ''outcome'') (field @ ''.outcome'') 32 RESULT_OUTCOMES) (\<lambda>outcome.
     bindE (parse_datetime (dict_get d ''occurred_at'') (field @ ''.occurred_at'')) (\<lambda>(occurred_at, _).
     bindE (expect_sha256 (dict_get d ''idempotency_key_sha256'') (field @ ''.idempotency_key_sha256'')) (\<lambda>key.
     bindE (expect_sha256 (dict_get d ''target_identity_sha256'') (field @ ''.target_identity_sha256'')) (\<lambda>target.
     bindE (optional_sha256 (dict_get d ''provider_receipt_sha256'') (field @ ''.provider_receipt_sha256'')) (\<lambda>receipt.
     bindE (expect_sha256 (dict_get d ''before_version_sha256'') (field @ ''.before_version_sha256'')) (\<lambda>before_version.
     bindE (optional_sha256 (dict_get d ''after_version_sha256'') (field @ ''.after_version_sha256'')) (\<lambda>after_version.
     bindE (expect_sha256 (dict_get d ''actor_sha256'') (field @ ''.actor_sha256'')) (\<lambda>actor.
     bindE (expect_sha256 (dict_get d ''detail_sha256'') (field @ ''.detail_sha256'')) (\<lambda>detail.
     bindE (optional_sha256 (dict_get d ''compensation_of_result_sha256'')
       (field @ ''.compensation_of_result_sha256'')) (\<lambda>compensation_of.
     (let material = \<lparr>r_sha = [], r_intent = intent_sha, r_idempotency_key = key, r_system = system,
        r_target = target, r_outcome = outcome, r_provider_receipt = receipt,
        r_before_version = before_version, r_after_version = after_version, r_occurred_at = occurred_at,
        r_actor = actor, r_detail = detail, r_compensation_of = compensation_of\<rparr> in
      bindE (check_result field x material) (\<lambda>_.
      bindE (expect_sha256 (dict_get d ''result_sha256'') (field @ ''.result_sha256'')) (\<lambda>sha.
      bindE (require (sha = sha256_value (JObj (result_material material)))
        (field @ ''.result_sha256 does not bind the canonical result'')) (\<lambda>_.
      Inr (material\<lparr>r_sha := sha\<rparr>)))))))))))))))))))))"


lemma by_key_found: "distinct (map key xs) \<Longrightarrow> x \<in> set xs \<Longrightarrow> by_key key xs (key x) = Some x"
  by (simp add: by_key_def map_of_eq_Some_iff comp_def)

lemma shifted_iff: "shifted dt k = Inr t \<longleftrightarrow>
    t = instant dt + k * 1000000 \<and> min_instant \<le> t \<and> t \<le> max_instant"
  by (auto simp: shifted_def Let_def)

section \<open>What the checked scalars accept\<close>

definition stamp :: "string \<Rightarrow> datetime \<Rightarrow> bool" where
  "stamp s u \<longleftrightarrow> valid_datetime u \<and> s = timestamp u"

lemma parse_datetime_stamp [simp]: "stamp s u \<Longrightarrow> parse_datetime (JStr s) field = Inr (s, u)"
  by (simp add: stamp_def parse_datetime_def parse_timestamp_canonical replace_offset
      fromisoformat_canonical to_utc_zero)

lemma parse_datetime_returns:
  assumes "parse_timestamp v field = Inr s"
  obtains u where "stamp s u" and "parse_datetime v field = Inr (s, u)"
  using assms
proof (rule parse_timestamp_cases)
  fix u
  assume "valid_datetime u" "s = timestamp u"
  with assms that show thesis
    by (simp add: stamp_def parse_datetime_def replace_offset fromisoformat_canonical to_utc_zero)
qed

lemma parse_datetime_iff:
  "parse_datetime v field = Inr (s, u) \<longleftrightarrow> parse_timestamp v field = Inr s \<and> stamp s u"
proof
  assume *: "parse_datetime v field = Inr (s, u)"
  then have "parse_timestamp v field = Inr s"
    by (auto simp: parse_datetime_def bindE_eq_Inr_iff split: option.splits)
  with * show "parse_timestamp v field = Inr s \<and> stamp s u"
    by (auto elim: parse_datetime_returns)
next
  assume *: "parse_timestamp v field = Inr s \<and> stamp s u"
  then obtain w where "stamp s w" "parse_datetime v field = Inr (s, w)"
    by (auto elim: parse_datetime_returns)
  with * show "parse_datetime v field = Inr (s, u)"
    using parse_datetime_stamp by (metis Inr_inject prod.inject)
qed

lemma stamp_unique: "stamp s u \<Longrightarrow> stamp s w \<Longrightarrow> u = w"
  using parse_datetime_stamp by (metis Inr_inject prod.inject)

lemma strict_object_iff [simp]:
  "strict_object v field allowed = Inr d \<longleftrightarrow> v = JObj d \<and> set (dict_keys d) \<subseteq> set allowed"
  by (auto simp: strict_object_def unsupported_keys_def bindE_eq_Inr_iff)

lemma strict_object_returns [simp]:
  "set (dict_keys d) \<subseteq> set allowed \<Longrightarrow> strict_object (JObj d) field allowed = Inr d"
  by simp

lemma expect_int_iff [simp]:
  "expect_int v field lo hi = Inr i \<longleftrightarrow> v = JInt i \<and> lo \<le> i \<and> i \<le> hi"
  by (auto simp: expect_int_def bindE_eq_Inr_iff split: json.splits)

lemma sha256_text_clean: "is_sha256_text s \<Longrightarrow> clean_string 64 s"
  by (auto simp: is_sha256_text_def clean_string_def is_lower_hex_def is_digit_def list_all_iff)

lemma expect_sha256_iff [simp]:
  "expect_sha256 v field = Inr s \<longleftrightarrow> v = JStr s \<and> is_sha256_text s"
  by (auto simp: expect_sha256_def bindE_eq_Inr_iff sha256_text_clean)

definition opt_sha :: "string option \<Rightarrow> bool" where
  "opt_sha x = (case x of None \<Rightarrow> True | Some s \<Rightarrow> is_sha256_text s)"

lemma opt_sha_simps [simp]: "opt_sha None" "opt_sha (Some s) \<longleftrightarrow> is_sha256_text s"
  by (simp_all add: opt_sha_def)

lemma optional_sha256_iff [simp]:
  "optional_sha256 v field = Inr x \<longleftrightarrow> v = opt_str x \<and> opt_sha x"
  by (cases x) (auto simp: optional_sha256_def bindE_eq_Inr_iff)

definition names_one :: "nat \<Rightarrow> string list \<Rightarrow> string \<Rightarrow> bool" where
  "names_one maximum names s \<longleftrightarrow> clean_string maximum s \<and> s \<in> set names"

lemma one_of_iff [simp]:
  "one_of v field maximum names = Inr s \<longleftrightarrow> v = JStr s \<and> names_one maximum names s"
  by (auto simp: one_of_def names_one_def bindE_eq_Inr_iff)

lemma scalar_returns [simp]:
  "lo \<le> i \<Longrightarrow> i \<le> hi \<Longrightarrow> expect_int (JInt i) field lo hi = Inr i"
  "is_sha256_text s \<Longrightarrow> expect_sha256 (JStr s) field = Inr s"
  "opt_sha x \<Longrightarrow> optional_sha256 (opt_str x) field = Inr x"
  "names_one maximum names s \<Longrightarrow> one_of (JStr s) field maximum names = Inr s"
  by simp_all

section \<open>Well-formed records and their round trips\<close>

definition wf_lease :: "int \<Rightarrow> lease option \<Rightarrow> bool" where
  "wf_lease m x = (case x of None \<Rightarrow> True
     | Some l \<Rightarrow> is_sha256_text (l_token l) \<and> is_sha256_text (l_owner l)
         \<and> (\<exists>a e. stamp (l_acquired_at l) a \<and> stamp (l_expires_at l) e
              \<and> 0 < whole_seconds (instant e - instant a) \<and> whole_seconds (instant e - instant a) \<le> m))"

lemma normalize_lease_wf: "normalize_lease v field m = Inr x \<Longrightarrow> wf_lease m x"
  by (auto simp: normalize_lease_def wf_lease_def Let_def parse_datetime_iff split: if_splits) blast

lemma normalize_lease_json: "wf_lease m x \<Longrightarrow> normalize_lease (lease_json x) field m = Inr x"
  by (cases x) (auto simp: normalize_lease_def wf_lease_def lease_json_def Let_def dict_keys_def)

definition wf_policy :: "policy \<Rightarrow> bool" where
  "wf_policy p \<longleftrightarrow> is_sha256_text (p_version p) \<and> sha256_value (JObj (policy_material p)) = p_version p
     \<and> 0 \<le> p_max_clock_skew p \<and> p_max_clock_skew p \<le> MAX_CLOCK_SKEW_SECONDS
     \<and> 1 \<le> p_max_snapshot_age p \<and> p_max_snapshot_age p \<le> MAX_SNAPSHOT_AGE_SECONDS
     \<and> 1 \<le> p_max_lease p \<and> p_max_lease p \<le> MAX_LEASE_SECONDS
     \<and> 1 \<le> p_max_attempts p \<and> p_max_attempts p \<le> MAX_ATTEMPTS"

lemma normalize_policy_wf: "normalize_policy v = Inr p \<Longrightarrow> wf_policy p"
  by (auto simp: normalize_policy_def wf_policy_def Let_def)

lemma normalize_policy_json:
  assumes "wf_policy p"
  shows "normalize_policy (policy_json p) = Inr p"
proof -
  have keys: "set (dict_keys ((''version_sha256'', JStr (p_version p)) # policy_material p)) \<subseteq>
      set [''version_sha256'', ''max_clock_skew_seconds'', ''max_snapshot_age_seconds'',
        ''max_lease_seconds'', ''max_attempts'']"
    by (simp add: dict_keys_def policy_material_def)
  show ?thesis
    unfolding normalize_policy_def policy_json_def strict_object_returns [OF keys]
    using assms by (simp add: wf_policy_def Let_def policy_material_def)
qed

definition wf_target :: "policy \<Rightarrow> target \<Rightarrow> bool" where
  "wf_target p t \<longleftrightarrow> names_one 16 SYSTEMS (t_system t) \<and> names_one 64 RESOURCE_KINDS (t_resource_kind t)
     \<and> is_sha256_text (t_identity t) \<and> is_sha256_text (t_version t) \<and> is_sha256_text (t_routing t)
     \<and> is_sha256_text (t_authorization t) \<and> (\<exists>u. stamp (t_observed_at t) u)
     \<and> wf_lease (p_max_lease p) (t_lease t)"

lemma normalize_target_wf: "normalize_target p iv = Inr t \<Longrightarrow> wf_target p t"
  by (auto simp: normalize_target_def wf_target_def Let_def parse_datetime_iff
      dest: normalize_lease_wf split: prod.splits)

lemma normalize_target_json: "wf_target p t \<Longrightarrow> normalize_target p (i, target_json t) = Inr t"
  by (auto simp: normalize_target_def wf_target_def target_json_def Let_def dict_keys_def
      normalize_lease_json)

definition wf_chain :: "chain \<Rightarrow> bool" where
  "wf_chain c \<longleftrightarrow> names_one 32 CHAIN_STEPS (c_step c) \<and> 0 \<le> c_sequence c \<and> c_sequence c \<le> 64
     \<and> opt_sha (c_previous c) \<and> (c_sequence c = 0 \<longleftrightarrow> c_previous c = None)
     \<and> is_sha256_text (c_workflow c) \<and> is_sha256_text (c_trace c)
     \<and> sha256_value (JObj (chain_material c)) = c_trace c"

lemma normalize_chain_wf: "normalize_chain v field = Inr c \<Longrightarrow> wf_chain c"
  by (auto simp: normalize_chain_def wf_chain_def Let_def)

lemma normalize_chain_json: "wf_chain c \<Longrightarrow> normalize_chain (chain_json c) field = Inr c"
  by (auto simp: normalize_chain_def wf_chain_def chain_json_def chain_material_def Let_def dict_keys_def)


definition wf_intent :: "policy \<Rightarrow> intent \<Rightarrow> bool" where
  "wf_intent p x \<longleftrightarrow> names_one 16 SYSTEMS (i_system x) \<and> names_one 64 OPERATIONS (i_operation x)
     \<and> map_of OPERATION_SYSTEM (i_operation x) = Some (i_system x)
     \<and> names_one 64 RESOURCE_KINDS (i_resource_kind x) \<and> (\<exists>u. stamp (i_observed_at x) u)
     \<and> opt_sha (i_relation_analysis x)
     \<and> \<not> (i_operation x \<in> set RELATION_OPERATIONS \<and> i_relation_analysis x = None)
     \<and> names_one 64 COMPENSATIONS (i_compensation x) \<and> is_sha256_text (i_target x)
     \<and> is_sha256_text (i_observed_version x) \<and> is_sha256_text (i_desired_patch x)
     \<and> is_sha256_text (i_actor x) \<and> is_sha256_text (i_run x) \<and> is_sha256_text (i_idempotency_key x)
     \<and> is_sha256_text (i_policy x) \<and> is_sha256_text (i_routing x)
     \<and> is_sha256_text (i_authorization x) \<and> wf_lease (p_max_lease p) (i_lease x)
     \<and> wf_chain (i_chain x) \<and> is_sha256_text (i_sha x)
     \<and> sha256_value (JObj (intent_material x)) = i_sha x"

lemma normalize_intent_wf: "normalize_intent p iv = Inr x \<Longrightarrow> wf_intent p x"
  unfolding normalize_intent_def Let_def
  by (cases iv, cases x)
    (clarsimp simp: wf_intent_def parse_datetime_iff normalize_lease_wf normalize_chain_wf
      simp del: not_None_eq split: prod.splits option.splits, blast)

lemma intent_keys_ok:
  "set (dict_keys ((''intent_sha256'', v) # intent_material x)) \<subseteq> set intent_keys"
  by (simp add: dict_keys_def intent_material_def intent_keys_def)

lemma normalize_intent_json:
  assumes "wf_intent p x"
  shows "normalize_intent p (i, intent_json x) = Inr x"
proof -
  from assms obtain u where u: "stamp (i_observed_at x) u" by (auto simp: wf_intent_def)
  have get: "dict_get ((''intent_sha256'', JStr (i_sha x)) # intent_material x) k =
      (if k = ''intent_sha256'' then JStr (i_sha x) else dict_get (intent_material x) k)" for k
    by simp
  show ?thesis
    unfolding normalize_intent_def Let_def intent_json_def prod.case
      strict_object_returns [OF intent_keys_ok]
    using assms u unfolding wf_intent_def
    by (simp add: get normalize_lease_json normalize_chain_json) (simp add: intent_material_def
        normalize_lease_json normalize_chain_json)
qed


text \<open>The checks of a result that do not depend on the name of its field.\<close>

definition result_matches :: "intent \<Rightarrow> mresult \<Rightarrow> bool" where
  "result_matches x r \<longleftrightarrow> r_idempotency_key r = i_idempotency_key x \<and> r_system r = i_system x
     \<and> r_target r = i_target x \<and> r_before_version r = i_observed_version x
     \<and> (result_is_accepted r \<longleftrightarrow> r_after_version r \<noteq> None)
     \<and> (result_is_accepted r \<longrightarrow> r_provider_receipt r \<noteq> None)
     \<and> (r_outcome r = ''compensated'' \<longleftrightarrow> r_compensation_of r \<noteq> None)"

lemma check_result_iff: "check_result field x r = Inr () \<longleftrightarrow> result_matches x r"
  unfolding check_result_def result_matches_def
  by (auto simp: bindE_eq_Inr_iff simp del: not_None_eq split: if_splits)

lemma result_matches_sha [simp]: "result_matches x (r\<lparr>r_sha := s\<rparr>) = result_matches x r"
  by (simp add: result_matches_def result_is_accepted_def)

definition wf_result :: "intent list \<Rightarrow> mresult \<Rightarrow> bool" where
  "wf_result intents r \<longleftrightarrow> is_sha256_text (r_intent r)
     \<and> (\<exists>x. by_key i_sha intents (r_intent r) = Some x \<and> result_matches x r)
     \<and> names_one 16 SYSTEMS (r_system r) \<and> names_one 32 RESULT_OUTCOMES (r_outcome r)
     \<and> (\<exists>u. stamp (r_occurred_at r) u) \<and> is_sha256_text (r_idempotency_key r)
     \<and> is_sha256_text (r_target r) \<and> opt_sha (r_provider_receipt r)
     \<and> is_sha256_text (r_before_version r) \<and> opt_sha (r_after_version r)
     \<and> is_sha256_text (r_actor r) \<and> is_sha256_text (r_detail r) \<and> opt_sha (r_compensation_of r)
     \<and> is_sha256_text (r_sha r) \<and> sha256_value (JObj (result_material r)) = r_sha r"

lemma result_material_sha [simp]: "result_material (r\<lparr>r_sha := s\<rparr>) = result_material r"
  by (simp add: result_material_def)

lemma result_matches_any_sha: "result_matches x r \<Longrightarrow> \<forall>s. result_matches x (r\<lparr>r_sha := s\<rparr>)"
  by simp

lemma normalize_result_wf: "normalize_result intents iv = Inr r \<Longrightarrow> wf_result intents r"
  unfolding normalize_result_def Let_def
  apply (cases iv)
  apply (clarsimp simp: parse_datetime_iff check_result_iff split: prod.splits option.splits)
  apply (drule result_matches_any_sha)
  apply (simp add: wf_result_def result_material_def)
  apply blast
  done

lemma result_keys_ok:
  "set (dict_keys ((''result_sha256'', v) # result_material r)) \<subseteq> set result_keys"
  by (simp add: dict_keys_def result_material_def result_keys_def)

lemma normalize_result_json:
  assumes "wf_result intents r"
  shows "normalize_result intents (i, result_json r) = Inr r"
proof -
  from assms obtain u x where u: "stamp (r_occurred_at r) u"
    and x: "by_key i_sha intents (r_intent r) = Some x" "result_matches x r"
    by (auto simp: wf_result_def)
  define m where "m = r\<lparr>r_sha := []\<rparr>"
  have m: "\<lparr>r_sha = [], r_intent = r_intent r, r_idempotency_key = r_idempotency_key r,
      r_system = r_system r, r_target = r_target r, r_outcome = r_outcome r,
      r_provider_receipt = r_provider_receipt r, r_before_version = r_before_version r,
      r_after_version = r_after_version r, r_occurred_at = r_occurred_at r, r_actor = r_actor r,
      r_detail = r_detail r, r_compensation_of = r_compensation_of r\<rparr> = m"
    by (simp add: m_def)
  have c: "check_result field x m = Inr ()" for field
    using x by (simp add: check_result_iff m_def)
  have fields: "dict_get ((''result_sha256'', JStr (r_sha r)) # result_material r) k =
      (if k = ''result_sha256'' then JStr (r_sha r) else dict_get (result_material r) k)" for k
    by simp
  have mat: "dict_get (result_material r) ''intent_sha256'' = JStr (r_intent r)"
    "dict_get (result_material r) ''idempotency_key_sha256'' = JStr (r_idempotency_key r)"
    "dict_get (result_material r) ''system'' = JStr (r_system r)"
    "dict_get (result_material r) ''target_identity_sha256'' = JStr (r_target r)"
    "dict_get (result_material r) ''outcome'' = JStr (r_outcome r)"
    "dict_get (result_material r) ''provider_receipt_sha256'' = opt_str (r_provider_receipt r)"
    "dict_get (result_material r) ''before_version_sha256'' = JStr (r_before_version r)"
    "dict_get (result_material r) ''after_version_sha256'' = opt_str (r_after_version r)"
    "dict_get (result_material r) ''occurred_at'' = JStr (r_occurred_at r)"
    "dict_get (result_material r) ''actor_sha256'' = JStr (r_actor r)"
    "dict_get (result_material r) ''detail_sha256'' = JStr (r_detail r)"
    "dict_get (result_material r) ''compensation_of_result_sha256'' = opt_str (r_compensation_of r)"
    by (simp_all add: result_material_def)
  have "m\<lparr>r_sha := r_sha r\<rparr> = r" "result_material m = result_material r" by (simp_all add: m_def)
  with assms u x c show ?thesis
    unfolding normalize_result_def Let_def result_json_def prod.case
      strict_object_returns [OF result_keys_ok] wf_result_def
    by (simp add: fields mat m)
qed

section \<open>What the checked scalars raise\<close>

lemma refuses_parse_datetime [refusal_intros]: "refuses (parse_datetime v field)"
proof (cases "parse_timestamp v field")
  case (Inl e)
  with refuses_parse_timestamp [of v field] show ?thesis by (simp add: parse_datetime_def refuses_def)
next
  case (Inr s)
  then show ?thesis by (rule parse_datetime_returns) (simp add: refuses_basic)
qed

lemma refuses_scalars [refusal_intros]:
  "refuses (strict_object v field allowed)" "refuses (expect_int v field lo hi)"
  "refuses (expect_sha256 v field)" "refuses (optional_sha256 v field)"
  "refuses (one_of v field m names)" "refuses (shifted dt k)"
  unfolding strict_object_def expect_int_def expect_sha256_def optional_sha256_def one_of_def
    shifted_def Let_def
  by (auto intro!: refusal_intros split: json.split)

end
