(* ===== verification/DerivedReport.thy ===== *)
theory DerivedReport
  imports MutationContract
begin

text \<open>
  The contract the report builders of \<^verbatim>\<open>src/tools/artifact_recovery\<close> share: a root object with a
  fixed set of keys is normalised and its derived fields are computed; derived fields the input
  already carries must equal the computed ones; and the whole report must be publishable.

  Given that the derivation is stable on the report it made, the builder accepts its own report
  unchanged, publishes only clean strings, and raises what its derivation raises.
\<close>

locale derived_report =
  fixes build :: "json \<Rightarrow> string option \<Rightarrow> 'r result"
    and derive :: "pydict \<Rightarrow> string option \<Rightarrow> 'r result"
    and dict_of :: "'r \<Rightarrow> pydict"
    and fields :: "'r \<Rightarrow> (string \<times> json) list"
    and check :: "pydict \<Rightarrow> string \<times> json \<Rightarrow> unit result"
    and names :: "string list"
  assumes build_steps: "build v now =
      bindE (strict_object v ''$'' names) (\<lambda>root.
      bindE (derive root now) (\<lambda>r.
      bindE (foldE (\<lambda>_. check root) () (fields r)) (\<lambda>_.
      bindE (validate_public_safety (JObj (dict_of r))) (\<lambda>_. Inr r))))"
    and derive_again: "derive root now = Inr r \<Longrightarrow> derive (dict_of r) now = Inr r"
    and dict_names: "set (dict_keys (dict_of r)) \<subseteq> set names"
    and check_held: "derive root now = Inr r \<Longrightarrow> fe \<in> set (fields r) \<Longrightarrow> check (dict_of r) fe = Inr ()"
    and derive_refuses: "refuses (derive root now)"
    and check_refuses: "refuses (check root fe)"
begin

lemma build_elim:
  assumes "build v now = Inr r"
  obtains root where "v = JObj root" and "derive root now = Inr r"
    and "validate_public_safety (JObj (dict_of r)) = Inr ()"
  using assms unfolding build_steps by (elim bindE_InrE) (auto elim!: bindE_InrE)

lemma rebuild:
  assumes "derive root now = Inr r" and "validate_public_safety (JObj (dict_of r)) = Inr ()"
  shows "build (JObj (dict_of r)) now = Inr r"
proof -
  have "foldE (\<lambda>_. check (dict_of r)) () (fields r) = Inr ()"
    by (simp add: foldE_unit check_held [OF assms(1)])
  then show ?thesis
    using derive_again [OF assms(1)] assms(2) by (simp add: build_steps dict_names)
qed

lemma revalidate: "build v now = Inr r \<Longrightarrow> build (JObj (dict_of r)) now = Inr r"
  by (elim build_elim) (rule rebuild)

lemma published: "build v now = Inr r \<Longrightarrow> strings_of (JObj (dict_of r)) \<subseteq> {s. publishable s}"
  by (elim build_elim) (simp only: public_safety_iff)

lemma build_refuses: "refuses (build v now)"
  unfolding build_steps strict_object_def
  by (intro refusal_intros derive_refuses check_refuses)

end

text \<open>A derived field that is held with its own value, and compares equal, passes the check.\<close>

definition check_field :: "(string \<Rightarrow> string) \<Rightarrow> pydict \<Rightarrow> string \<times> json \<Rightarrow> unit result" where
  "check_field message root fe = (case fe of (field, expected) \<Rightarrow>
     require (case map_of root field of None \<Rightarrow> True | Some v \<Rightarrow> py_eq v expected) (message field))"

lemma check_field_held: "map_of root f = Some v \<Longrightarrow> plain v \<Longrightarrow> check_field message root (f, v) = Inr ()"
  by (simp add: check_field_def py_eq_refl)

lemma check_field_refuses: "refuses (check_field message root fe)"
  by (cases fe) (simp add: check_field_def refusal_intros)

end
