(* ===== verification/MutationReceipts.thy ===== *)
theory MutationReceipts
  imports DerivedReport
begin

text \<open>
  \<^verbatim>\<open>src/tools/artifact_recovery/mutation_receipts.py\<close>: the fail-closed receipts for coordinator
  writes. A report holds a policy, the observed targets, the intents to mutate them and the results
  providers returned; \<^verbatim>\<open>build_mutation_receipts_report\<close> normalises all of it, decides for every
  intent whether the write may go ahead, and binds the outcome with digests.
\<close>

section \<open>Assessment of an intent\<close>

record assessment =
  as_intent :: string
  as_target :: string
  as_key :: string
  as_current_version :: "string option"
  as_decision :: string
  as_reasons :: "string list"
  as_attempts :: nat
  as_accepted :: "string option"
  as_chain_current :: "bool option"
  as_compensation :: bool

definition assessment_json :: "assessment \<Rightarrow> json" where
  "assessment_json a = JObj [(''intent_sha256'', JStr (as_intent a)),
     (''target_identity_sha256'', JStr (as_target a)), (''idempotency_key_sha256'', JStr (as_key a)),
     (''current_version_sha256'', opt_str (as_current_version a)), (''decision'', JStr (as_decision a)),
     (''reason_codes'', JArr (map JStr (as_reasons a))), (''attempt_count'', JInt (int (as_attempts a))),
     (''accepted_result_sha256'', opt_str (as_accepted a)),
     (''chain_previous_current'', opt_bool (as_chain_current a)),
     (''compensation_required'', JBool (as_compensation a))]"

text \<open>
  The local variables \<^verbatim>\<open>reasons\<close> and \<^verbatim>\<open>decision\<close>: \<open>flag c reason decision\<close> is
  \<^verbatim>\<open>if c: reasons.add(reason); decision = ...\<close>. A later decision replaces an earlier one.
\<close>

type_synonym verdict = "string list \<times> string"

definition flag :: "bool \<Rightarrow> string \<Rightarrow> string \<Rightarrow> verdict \<Rightarrow> verdict" where
  "flag c reason decision st = (if c then (reason # fst st, decision) else st)"

definition remark :: "bool \<Rightarrow> string \<Rightarrow> verdict \<Rightarrow> verdict" where
  "remark c reason st = (if c then (reason # fst st, snd st) else st)"

definition age_seconds :: "string \<Rightarrow> datetime \<Rightarrow> int \<Rightarrow> string \<Rightarrow> int result" where
  "age_seconds when reference skew field =
     bindE (parse_datetime (JStr when) field) (\<lambda>(_, parsed).
     bindE (shifted reference skew) (\<lambda>limit.
     bindE (require (instant parsed \<le> limit) (field @ '' is beyond the allowed clock skew'')) (\<lambda>_.
     Inr (max 0 (whole_seconds (instant reference - instant parsed))))))"

definition assess_lease :: "policy \<Rightarrow> datetime \<Rightarrow> lease option \<Rightarrow> lease option \<Rightarrow> verdict \<Rightarrow> verdict result" where
  "assess_lease p generated_at intent_lease target_lease st =
     (case (intent_lease, target_lease) of
        (Some il, Some ol) \<Rightarrow>
          (let st1 = flag (l_token il \<noteq> l_token ol \<or> l_owner il \<noteq> l_owner ol
                           \<or> l_expires_at il \<noteq> l_expires_at ol) ''lease_changed'' ''conflict'' st in
           bindE (parse_datetime (JStr (l_acquired_at il)) ''intent.lease.acquired_at'') (\<lambda>(_, acquired_dt).
           bindE (shifted generated_at (p_max_clock_skew p)) (\<lambda>limit.
           bindE (require (instant acquired_dt \<le> limit)
             ''intent.lease.acquired_at is beyond the allowed clock skew'') (\<lambda>_.
           bindE (parse_datetime (JStr (l_expires_at il)) ''intent.lease.expires_at'') (\<lambda>(_, expires_dt).
           Inr (flag (instant expires_dt < instant generated_at) ''lease_expired'' ''expired'' st1))))))
      | _ \<Rightarrow> Inr (flag True ''lease_changed'' ''conflict'' st))"

definition assess_target :: "policy \<Rightarrow> datetime \<Rightarrow> intent \<Rightarrow> target \<Rightarrow> verdict \<Rightarrow> verdict result" where
  "assess_target p generated_at x t st =
     (let st1 = flag (t_system t \<noteq> i_system x) ''target_system_mismatch'' ''conflict'' st;
          st2 = flag (t_resource_kind t \<noteq> i_resource_kind x) ''target_resource_mismatch'' ''conflict'' st1;
          st3 = flag (t_version t \<noteq> i_observed_version x) ''target_version_changed'' ''conflict'' st2;
          st4 = flag (t_routing t \<noteq> i_routing x) ''routing_changed'' ''conflict'' st3;
          st5 = flag (t_authorization t \<noteq> i_authorization x) ''authorization_changed'' ''denied'' st4;
          st6 = flag (i_policy x \<noteq> p_version p) ''policy_changed'' ''denied'' st5
      in bindE (age_seconds (t_observed_at t) generated_at (p_max_clock_skew p) ''target.observed_at'') (\<lambda>snapshot_age.
         bindE (age_seconds (i_observed_at x) generated_at (p_max_clock_skew p) ''intent.observed_at'') (\<lambda>intent_age.
         assess_lease p generated_at (i_lease x) (t_lease t)
           (flag (p_max_snapshot_age p < snapshot_age \<or> p_max_snapshot_age p < intent_age)
              ''snapshot_stale'' ''conflict'' st6))))"

text \<open>The chain check: the new verdict and \<^verbatim>\<open>chain_previous_current\<close>.\<close>

definition assess_chain :: "target list \<Rightarrow> intent list \<Rightarrow> mresult list \<Rightarrow> chain \<Rightarrow> verdict
    \<Rightarrow> (verdict \<times> bool option) result" where
  "assess_chain targets intents results c st = (case c_previous c of
      None \<Rightarrow> Inr (st, None)
    | Some previous_sha \<Rightarrow>
        (case by_key r_sha results previous_sha of
           None \<Rightarrow> Inr (flag True ''previous_result_missing'' ''blocked_by_chain'' st, Some False)
         | Some previous \<Rightarrow>
             if \<not> result_is_accepted previous then
               Inr (flag True ''previous_result_not_accepted'' ''blocked_by_chain'' st, Some False)
             else (case by_key i_sha intents (r_intent previous) of
                 None \<Rightarrow> Inl (KeyError (r_intent previous))
               | Some y \<Rightarrow>
                   if c_workflow (i_chain y) \<noteq> c_workflow c \<or> c_sequence (i_chain y) + 1 \<noteq> c_sequence c
                   then Inr (flag True ''previous_chain_mismatch'' ''blocked_by_chain'' st, Some False)
                   else (let current = (case by_key t_identity targets (r_target previous) of
                             None \<Rightarrow> False
                           | Some t \<Rightarrow> t_resolvable t \<and> Some (t_version t) = r_after_version previous)
                         in Inr (flag (\<not> current) ''previous_subject_changed'' ''blocked_by_chain'' st,
                                 Some current)))))"

definition sorted_set :: "string list \<Rightarrow> string list" where
  "sorted_set xs = sort (remdups xs)"

definition assess_intent :: "policy \<Rightarrow> datetime \<Rightarrow> target list \<Rightarrow> intent list \<Rightarrow> mresult list \<Rightarrow> string list
    \<Rightarrow> intent \<Rightarrow> assessment result" where
  "assess_intent p generated_at targets intents results collisions x =
     (let intent_results = filter (\<lambda>r. r_intent r = i_sha x) results;
          accepted = filter result_is_accepted intent_results;
          target = by_key t_identity targets (i_target x) in
      bindE (require (length accepted \<le> 1)
        ''an intent has more than one accepted result; idempotency was violated'') (\<lambda>_.
      if accepted \<noteq> [] then
        Inr \<lparr>as_intent = i_sha x, as_target = i_target x, as_key = i_idempotency_key x,
          as_current_version = map_option t_version target, as_decision = ''replay'',
          as_reasons = [''idempotent_replay''], as_attempts = length intent_results,
          as_accepted = Some (r_sha (hd accepted)), as_chain_current = None, as_compensation = False\<rparr>
      else
        (let st1 = flag (i_idempotency_key x \<in> set collisions) ''idempotency_key_reused'' ''conflict''
                     ([], ''ready'');
             st2 = flag (p_max_attempts p \<le> int (length intent_results))
                     ''attempt_budget_exhausted'' ''conflict'' st1 in
         bindE (case target of
             None \<Rightarrow> Inr (flag True ''target_unresolved'' ''unverifiable'' st2, None)
           | Some t \<Rightarrow> if \<not> t_resolvable t
               then Inr (flag True ''target_unresolved'' ''unverifiable'' st2, None)
               else bindE (assess_target p generated_at x t st2) (\<lambda>st. Inr (st, Some (t_version t))))
           (\<lambda>(st3, current_version).
         bindE (assess_chain targets intents results (i_chain x) st3) (\<lambda>(st4, chain_current).
         (let failed = list_ex (\<lambda>r. r_outcome r = ''provider_error'') intent_results;
              compensate = (failed \<and> c_previous (i_chain x) \<noteq> None);
              st5 = remark failed ''provider_failure'' st4;
              st6 = remark compensate ''compensation_required'' st5;
              st7 = flag (compensate \<and> i_compensation x = ''none'') ''compensation_unavailable''
                      ''blocked_by_chain'' st6
          in Inr \<lparr>as_intent = i_sha x, as_target = i_target x, as_key = i_idempotency_key x,
               as_current_version = current_version, as_decision = snd st7,
               as_reasons = sorted_set (fst st7), as_attempts = length intent_results,
               as_accepted = None, as_chain_current = chain_current,
               as_compensation = compensate\<rparr>))))))"

section \<open>The report\<close>

definition collision_key :: "intent list \<Rightarrow> assessment \<Rightarrow> (string \<times> string \<times> string) option result" where
  "collision_key intents a = (if as_decision a \<noteq> ''ready'' then Inr None
     else (case by_key i_sha intents (as_intent a) of
         None \<Rightarrow> Inl (KeyError (as_intent a))
       | Some x \<Rightarrow> Inr (Some (i_system x, i_target x, i_observed_version x))))"

definition apply_collision_control :: "intent list \<Rightarrow> assessment list \<Rightarrow> assessment list result" where
  "apply_collision_control intents assessments =
     bindE (mapE (collision_key intents) assessments) (\<lambda>keys.
     Inr (map (\<lambda>(a, k). if k \<noteq> None \<and> 2 \<le> length (filter (\<lambda>k'. k' = k) keys)
          then a\<lparr>as_decision := ''conflict'',
                 as_reasons := sorted_set (''concurrent_intent_collision'' # as_reasons a)\<rparr>
          else a) (zip assessments keys)))"

definition failure_item :: "assessment \<Rightarrow> json" where
  "failure_item a = JObj [(''intent_sha256'', JStr (as_intent a)),
     (''target_identity_sha256'', JStr (as_target a)), (''decision'', JStr (as_decision a)),
     (''reason_codes'', JArr (map JStr (as_reasons a))),
     (''compensation_required'', JBool (as_compensation a))]"

definition failure_items :: "assessment list \<Rightarrow> assessment list" where
  "failure_items assessments = sort_key as_intent (filter (\<lambda>a.
     \<not> (as_decision a \<in> {''ready'', ''replay''} \<and> as_reasons a = [] \<and> \<not> as_compensation a)) assessments)"

definition build_failure_ledger :: "assessment list \<Rightarrow> json" where
  "build_failure_ledger assessments =
     (let items = failure_items assessments;
          without_digest = [(''schema_version'', JStr FAILURE_LEDGER_SCHEMA),
            (''summary'', JObj [(''items'', JInt (int (length items)))]),
            (''items'', JArr (map failure_item items))]
      in JObj (without_digest @ [(''ledger_sha256'', JStr (sha256_value (JObj without_digest)))]))"

record summary =
  s_status :: string
  s_targets :: nat
  s_intents :: nat
  s_results :: nat
  s_decisions :: "(string \<times> nat) list"
  s_compensation :: nat
  s_retryable :: nat

definition DECISIONS :: "string list" where
  "DECISIONS = [''ready'', ''replay'', ''conflict'', ''expired'', ''denied'', ''unverifiable'',
     ''blocked_by_chain'']"

definition decision_count :: "assessment list \<Rightarrow> string \<Rightarrow> nat" where
  "decision_count assessments name = length (filter (\<lambda>a. as_decision a = name) assessments)"

definition summarize :: "target list \<Rightarrow> intent list \<Rightarrow> mresult list \<Rightarrow> assessment list \<Rightarrow> summary" where
  "summarize targets intents results assessments =
     (let compensation = length (filter as_compensation assessments);
          retryable = length (filter (\<lambda>a. ''provider_failure'' \<in> set (as_reasons a)) assessments);
          blocked = sum_list (map (decision_count assessments)
            [''conflict'', ''expired'', ''denied'', ''unverifiable'', ''blocked_by_chain''])
      in \<lparr>s_status = (if blocked \<noteq> 0 then ''blocked''
            else if compensation \<noteq> 0 \<or> retryable \<noteq> 0 then ''partial'' else ''complete''),
          s_targets = length targets, s_intents = length intents, s_results = length results,
          s_decisions = map (\<lambda>name. (name, decision_count assessments name)) DECISIONS,
          s_compensation = compensation, s_retryable = retryable\<rparr>)"

definition summary_json :: "summary \<Rightarrow> json" where
  "summary_json s = JObj ([(''status'', JStr (s_status s)), (''complete'', JBool (s_status s = ''complete'')),
     (''targets'', JInt (int (s_targets s))), (''intents'', JInt (int (s_intents s))),
     (''results'', JInt (int (s_results s)))]
     @ map (\<lambda>(name, n). (name, JInt (int n))) (s_decisions s)
     @ [(''compensation_required'', JInt (int (s_compensation s))),
        (''retryable_failures'', JInt (int (s_retryable s)))])"


record report =
  rep_generated_at :: string
  rep_policy :: policy
  rep_targets :: "target list"
  rep_intents :: "intent list"
  rep_results :: "mresult list"
  rep_assessments :: "assessment list"

definition report_summary :: "report \<Rightarrow> json" where
  "report_summary r = summary_json
     (summarize (rep_targets r) (rep_intents r) (rep_results r) (rep_assessments r))"

definition report_material :: "report \<Rightarrow> pydict" where
  "report_material r = [(''schema_version'', JStr SCHEMA_VERSION),
     (''generated_at'', JStr (rep_generated_at r)), (''policy'', policy_json (rep_policy r)),
     (''targets'', JArr (map target_json (rep_targets r))),
     (''intents'', JArr (map intent_json (rep_intents r))),
     (''results'', JArr (map result_json (rep_results r))),
     (''assessments'', JArr (map assessment_json (rep_assessments r))),
     (''summary'', report_summary r), (''failure_ledger'', build_failure_ledger (rep_assessments r))]"

definition report_sha256 :: "report \<Rightarrow> json" where
  "report_sha256 r = JStr (sha256_value (JObj (report_material r)))"

definition report_json :: "report \<Rightarrow> json" where
  "report_json r = JObj (report_material r @ [(''report_sha256'', report_sha256 r)])"

definition root_keys :: "string list" where
  "root_keys = [''schema_version'', ''generated_at'', ''policy'', ''targets'', ''intents'', ''results'',
     ''assessments'', ''summary'', ''failure_ledger'', ''report_sha256'']"

text \<open>Keys that more than one intent uses.\<close>

definition idempotency_collisions :: "intent list \<Rightarrow> string list" where
  "idempotency_collisions intents = filter (\<lambda>key.
     1 < card (i_sha ` set (filter (\<lambda>x. i_idempotency_key x = key) intents)))
     (remdups (map i_idempotency_key intents))"

text \<open>The window a result must fall into: after its intent was observed, within the intent's lease.\<close>

definition check_result_time :: "policy \<Rightarrow> datetime \<Rightarrow> intent list \<Rightarrow> mresult \<Rightarrow> unit result" where
  "check_result_time p generated_dt intents r =
     (let skew = p_max_clock_skew p in
      bindE (age_seconds (r_occurred_at r) generated_dt skew ''results[].occurred_at'') (\<lambda>_.
      bindE (parse_datetime (JStr (r_occurred_at r)) ''results[].occurred_at'') (\<lambda>(_, occurred_dt).
      (case by_key i_sha intents (r_intent r) of
         None \<Rightarrow> Inl (KeyError (r_intent r))
       | Some x \<Rightarrow>
           bindE (parse_datetime (JStr (i_observed_at x)) ''intents[].observed_at'') (\<lambda>(_, observed_dt).
           bindE (shifted observed_dt (- skew)) (\<lambda>earliest.
           bindE (require (earliest \<le> instant occurred_dt)
             ''result occurred before the intent observation'') (\<lambda>_.
           (case i_lease x of
              None \<Rightarrow> Inr ()
            | Some l \<Rightarrow>
                bindE (parse_datetime (JStr (l_acquired_at l)) ''intents[].lease.acquired_at'') (\<lambda>(_, acquired_dt).
                bindE (parse_datetime (JStr (l_expires_at l)) ''intents[].lease.expires_at'') (\<lambda>(_, expires_dt).
                bindE (shifted acquired_dt (- skew)) (\<lambda>from_lease.
                bindE (require (from_lease \<le> instant occurred_dt)
                  ''result occurred before the intent lease was acquired'') (\<lambda>_.
                bindE (shifted expires_dt skew) (\<lambda>until_lease.
                require (instant occurred_dt \<le> until_lease)
                  ''result occurred after the intent lease expired'')))))))))))))"

definition check_compensation :: "mresult list \<Rightarrow> mresult \<Rightarrow> unit result" where
  "check_compensation results r = (case r_compensation_of r of
      None \<Rightarrow> Inr ()
    | Some sha \<Rightarrow> require (case by_key r_sha results sha of None \<Rightarrow> False
          | Some original \<Rightarrow> r_outcome original = ''accepted'')
        ''compensation must reference an accepted result in this report'')"

definition check_now :: "policy \<Rightarrow> datetime \<Rightarrow> string option \<Rightarrow> unit result" where
  "check_now p generated_dt now = (case now of
      None \<Rightarrow> Inr ()
    | Some n \<Rightarrow>
        bindE (parse_datetime (JStr n) ''--now'') (\<lambda>(_, now_dt).
        bindE (shifted now_dt (p_max_clock_skew p)) (\<lambda>limit.
        require (instant generated_dt \<le> limit) ''generated_at is beyond the allowed clock skew'')))"

text \<open>The function up to the dictionary \<^verbatim>\<open>report\<close>.\<close>

definition derive_report :: "pydict \<Rightarrow> string option \<Rightarrow> report result" where
  "derive_report root now =
     bindE (require (dict_get root ''schema_version'' = JStr SCHEMA_VERSION)
       (''schema_version must be '' @ SCHEMA_VERSION)) (\<lambda>_.
     bindE (normalize_policy (dict_get root ''policy'')) (\<lambda>p.
     bindE (parse_datetime (dict_get root ''generated_at'') ''generated_at'') (\<lambda>(generated_at, generated_dt).
     bindE (check_now p generated_dt now) (\<lambda>_.
     bindE (expect_list (dict_get root ''targets'') ''targets'' MAX_RECORDS) (\<lambda>raw_targets.
     bindE (mapE (normalize_target p) (enumerate 0 raw_targets)) (\<lambda>targets0.
     bindE (require (distinct (map t_identity targets0)) ''targets contain duplicate identities'') (\<lambda>_.
     (let targets = sort_key t_identity targets0 in
     bindE (expect_list (dict_get root ''intents'') ''intents'' MAX_RECORDS) (\<lambda>raw_intents.
     bindE (mapE (normalize_intent p) (enumerate 0 raw_intents)) (\<lambda>intents0.
     bindE (require (distinct (map i_sha intents0)) ''intents contain duplicate identities'') (\<lambda>_.
     (let intents = sort_key i_sha intents0; collisions = idempotency_collisions intents in
     bindE (expect_list (dict_get root ''results'') ''results'' MAX_RECORDS) (\<lambda>raw_results.
     bindE (mapE (normalize_result intents) (enumerate 0 raw_results)) (\<lambda>results0.
     bindE (foldE (\<lambda>_. check_result_time p generated_dt intents) () results0) (\<lambda>_.
     bindE (require (distinct (map r_sha results0)) ''results contain duplicate identities'') (\<lambda>_.
     (let results = sort_key r_sha results0 in
     bindE (foldE (\<lambda>_. check_compensation results) () results) (\<lambda>_.
     bindE (mapE (assess_intent p generated_dt targets intents results collisions) intents) (\<lambda>assessed.
     bindE (apply_collision_control intents assessed) (\<lambda>controlled.
     Inr \<lparr>rep_generated_at = generated_at, rep_policy = p, rep_targets = targets,
       rep_intents = intents, rep_results = results,
       rep_assessments = sort_key as_intent controlled\<rparr>))))))))))))))))))))"

definition check_derived :: "pydict \<Rightarrow> string \<times> json \<Rightarrow> unit result" where
  "check_derived root fe = (case fe of (field, expected) \<Rightarrow>
     require (case map_of root field of None \<Rightarrow> True | Some v \<Rightarrow> py_eq v expected)
       (field @ '' does not match the derived report''))"

definition derived_fields :: "report \<Rightarrow> (string \<times> json) list" where
  "derived_fields r = [(''assessments'', JArr (map assessment_json (rep_assessments r))),
     (''summary'', report_summary r), (''failure_ledger'', build_failure_ledger (rep_assessments r)),
     (''report_sha256'', report_sha256 r)]"

definition build_mutation_receipts_report :: "json \<Rightarrow> string option \<Rightarrow> report result" where
  "build_mutation_receipts_report v now =
     bindE (strict_object v ''$'' root_keys) (\<lambda>root.
     bindE (derive_report root now) (\<lambda>r.
     bindE (foldE (\<lambda>_. check_derived root) () (derived_fields r)) (\<lambda>_.
     bindE (validate_public_safety (report_json r)) (\<lambda>_. Inr r))))"


section \<open>Re-reading a report\<close>

lemma plain_derived: "(field, v) \<in> set (derived_fields r) \<Longrightarrow> plain v"
proof -
  have "plain (assessment_json a)" "plain (failure_item a)" for a
    by (simp_all add: assessment_json_def failure_item_def list_all_iff)
  then have "plain (build_failure_ledger xs)" "plain (JArr (map assessment_json xs))" for xs
    by (simp_all add: build_failure_ledger_def Let_def list_all_iff)
  moreover have "plain (report_summary r)"
    by (simp add: report_summary_def summary_json_def summarize_def Let_def DECISIONS_def)
  moreover assume "(field, v) \<in> set (derived_fields r)"
  ultimately show ?thesis
    by (auto simp: derived_fields_def report_sha256_def)
qed

section \<open>Well-formed reports\<close>

definition wf_report :: "report \<Rightarrow> bool" where
  "wf_report r \<longleftrightarrow> wf_policy (rep_policy r) \<and> (\<exists>u. stamp (rep_generated_at r) u)
     \<and> list_all (wf_target (rep_policy r)) (rep_targets r)
     \<and> list_all (wf_intent (rep_policy r)) (rep_intents r)
     \<and> list_all (wf_result (rep_intents r)) (rep_results r)
     \<and> sorted (map t_identity (rep_targets r)) \<and> distinct (map t_identity (rep_targets r))
     \<and> sorted (map i_sha (rep_intents r)) \<and> distinct (map i_sha (rep_intents r))
     \<and> sorted (map r_sha (rep_results r)) \<and> distinct (map r_sha (rep_results r))
     \<and> length (rep_targets r) \<le> MAX_RECORDS \<and> length (rep_intents r) \<le> MAX_RECORDS
     \<and> length (rep_results r) \<le> MAX_RECORDS"

text \<open>What a successful derivation consists of.\<close>

definition derivation :: "report \<Rightarrow> datetime \<Rightarrow> string option \<Rightarrow> assessment list \<Rightarrow> assessment list \<Rightarrow> bool" where
  "derivation r dt now assessed controlled \<longleftrightarrow>
     wf_report r \<and> stamp (rep_generated_at r) dt \<and> check_now (rep_policy r) dt now = Inr ()
     \<and> list_all (\<lambda>x. check_result_time (rep_policy r) dt (rep_intents r) x = Inr ()) (rep_results r)
     \<and> list_all (\<lambda>x. check_compensation (rep_results r) x = Inr ()) (rep_results r)
     \<and> mapE (assess_intent (rep_policy r) dt (rep_targets r) (rep_intents r) (rep_results r)
          (idempotency_collisions (rep_intents r))) (rep_intents r) = Inr assessed
     \<and> apply_collision_control (rep_intents r) assessed = Inr controlled
     \<and> rep_assessments r = sort_key as_intent controlled"

lemma derive_report_sound:
  assumes "derive_report root now = Inr r"
  obtains dt assessed controlled where "derivation r dt now assessed controlled"
proof -
  from assms obtain p generated_at dt raw_t ts raw_i xs raw_r rs assessed controlled where
    p: "normalize_policy (dict_get root ''policy'') = Inr p"
    and g: "parse_datetime (dict_get root ''generated_at'') ''generated_at'' = Inr (generated_at, dt)"
    and n: "check_now p dt now = Inr ()"
    and t: "mapE (normalize_target p) (enumerate 0 raw_t) = Inr ts" "distinct (map t_identity ts)"
      "length raw_t \<le> MAX_RECORDS"
    and i: "mapE (normalize_intent p) (enumerate 0 raw_i) = Inr xs" "distinct (map i_sha xs)"
      "length raw_i \<le> MAX_RECORDS"
    and s: "mapE (normalize_result (sort_key i_sha xs)) (enumerate 0 raw_r) = Inr rs"
      "distinct (map r_sha rs)" "length raw_r \<le> MAX_RECORDS"
      "foldE (\<lambda>_. check_result_time p dt (sort_key i_sha xs)) () rs = Inr ()"
      "foldE (\<lambda>_. check_compensation (sort_key r_sha rs)) () (sort_key r_sha rs) = Inr ()"
    and a: "mapE (assess_intent p dt (sort_key t_identity ts) (sort_key i_sha xs) (sort_key r_sha rs)
        (idempotency_collisions (sort_key i_sha xs))) (sort_key i_sha xs) = Inr assessed"
      "apply_collision_control (sort_key i_sha xs) assessed = Inr controlled"
    and r: "r = \<lparr>rep_generated_at = generated_at, rep_policy = p,
        rep_targets = sort_key t_identity ts, rep_intents = sort_key i_sha xs,
        rep_results = sort_key r_sha rs, rep_assessments = sort_key as_intent controlled\<rparr>"
    unfolding derive_report_def Let_def
    by (elim bindE_InrE) (auto elim!: bindE_InrE split: prod.splits)
  have "list_all (wf_target p) ts"
    using mapE_enumerate_elem [OF t(1)] normalize_target_wf by (fastforce simp: list_all_iff)
  moreover have "list_all (wf_intent p) xs"
    using mapE_enumerate_elem [OF i(1)] normalize_intent_wf by (fastforce simp: list_all_iff)
  moreover have "list_all (wf_result (sort_key i_sha xs)) rs"
    using mapE_enumerate_elem [OF s(1)] normalize_result_wf by (fastforce simp: list_all_iff)
  moreover have "length ts \<le> MAX_RECORDS" "length xs \<le> MAX_RECORDS" "length rs \<le> MAX_RECORDS"
    using mapE_length [OF t(1)] mapE_length [OF i(1)] mapE_length [OF s(1)] t i s by simp_all
  moreover have "stamp generated_at dt" using g by (simp add: parse_datetime_iff)
  ultimately have "derivation r dt now assessed controlled"
    using normalize_policy_wf [OF p] n t i s a
    unfolding derivation_def wf_report_def r
    by (auto simp: list_all_iff foldE_unit distinct_map)
  then show thesis by (rule that)
qed


definition report_dict :: "report \<Rightarrow> pydict" where
  "report_dict r = report_material r @ [(''report_sha256'', report_sha256 r)]"

lemma report_dict_get:
  "dict_get (report_dict r) ''schema_version'' = JStr SCHEMA_VERSION"
  "dict_get (report_dict r) ''generated_at'' = JStr (rep_generated_at r)"
  "dict_get (report_dict r) ''policy'' = policy_json (rep_policy r)"
  "dict_get (report_dict r) ''targets'' = JArr (map target_json (rep_targets r))"
  "dict_get (report_dict r) ''intents'' = JArr (map intent_json (rep_intents r))"
  "dict_get (report_dict r) ''results'' = JArr (map result_json (rep_results r))"
  by (simp_all add: report_dict_def report_material_def)

lemma derive_report_again:
  assumes "derivation r dt now assessed controlled"
  shows "derive_report (report_dict r) now = Inr r"
proof -
  note d = assms [unfolded derivation_def wf_report_def]
  have g: "parse_datetime (JStr (rep_generated_at r)) field = Inr (rep_generated_at r, dt)" for field
    using d by (intro parse_datetime_stamp) simp
  have t: "mapE (normalize_target (rep_policy r)) (enumerate 0 (map target_json (rep_targets r)))
      = Inr (rep_targets r)"
    using d by (intro mapE_enumerate_json normalize_target_json) (simp add: list_all_iff)
  have i: "mapE (normalize_intent (rep_policy r)) (enumerate 0 (map intent_json (rep_intents r)))
      = Inr (rep_intents r)"
    using d by (intro mapE_enumerate_json normalize_intent_json) (simp add: list_all_iff)
  have s: "mapE (normalize_result (rep_intents r)) (enumerate 0 (map result_json (rep_results r)))
      = Inr (rep_results r)"
    using d by (intro mapE_enumerate_json normalize_result_json) (simp add: list_all_iff)
  have times: "foldE (\<lambda>_. check_result_time (rep_policy r) dt (rep_intents r)) () (rep_results r) = Inr ()"
    "foldE (\<lambda>_. check_compensation (rep_results r)) () (rep_results r) = Inr ()"
    using d by (simp_all add: foldE_unit list_all_iff)
  have sorted: "sort_key t_identity (rep_targets r) = rep_targets r"
    "sort_key i_sha (rep_intents r) = rep_intents r" "sort_key r_sha (rep_results r) = rep_results r"
    using d by (simp_all add: sort_key_id_if_sorted)
  show ?thesis
    unfolding derive_report_def report_dict_get
    using d by (simp add: Let_def normalize_policy_json g t i s sorted times)
qed

lemma check_derived_held:
  assumes "fe \<in> set (derived_fields r)"
  shows "check_derived (report_dict r) fe = Inr ()"
proof -
  obtain field v where "fe = (field, v)" by (cases fe)
  with assms have "map_of (report_dict r) field = Some v"
    by (auto simp: derived_fields_def report_dict_def report_material_def)
  with assms plain_derived show ?thesis
    by (simp add: check_derived_def \<open>fe = (field, v)\<close> py_eq_refl)
qed

lemma report_dict_json: "JObj (report_dict r) = report_json r"
  by (simp add: report_json_def report_dict_def)

lemma report_dict_names: "set (dict_keys (report_dict r)) \<subseteq> set root_keys"
  by (simp add: report_dict_def report_material_def root_keys_def dict_keys_def)

lemma build_reportE:
  assumes "build_mutation_receipts_report v now = Inr r"
  obtains dt assessed controlled where "derivation r dt now assessed controlled"
    and "validate_public_safety (report_json r) = Inr ()"
  using assms unfolding build_mutation_receipts_report_def
  by (elim bindE_InrE) (auto elim!: bindE_InrE derive_report_sound)


section \<open>When an intent is ready\<close>

lemma snd_flag [simp]: "snd (flag c reason decision st) = (if c then decision else snd st)"
  by (simp add: flag_def)

lemma snd_remark [simp]: "snd (remark c reason st) = snd st"
  by (simp add: remark_def)

text \<open>The specification the assessment implements, in terms of instants.\<close>

definition fresh :: "policy \<Rightarrow> datetime \<Rightarrow> string \<Rightarrow> bool" where
  "fresh p now s \<longleftrightarrow> (\<exists>u. stamp s u \<and> instant u \<le> instant now + p_max_clock_skew p * 1000000
     \<and> whole_seconds (instant now - instant u) \<le> p_max_snapshot_age p)"

definition lease_held :: "datetime \<Rightarrow> lease option \<Rightarrow> lease option \<Rightarrow> bool" where
  "lease_held now mine current \<longleftrightarrow> (\<exists>l c e. mine = Some l \<and> current = Some c
     \<and> l_token l = l_token c \<and> l_owner l = l_owner c \<and> l_expires_at l = l_expires_at c
     \<and> stamp (l_expires_at l) e \<and> instant now \<le> instant e)"

definition target_unchanged :: "policy \<Rightarrow> datetime \<Rightarrow> intent \<Rightarrow> target \<Rightarrow> bool" where
  "target_unchanged p now x t \<longleftrightarrow> t_system t = i_system x \<and> t_resource_kind t = i_resource_kind x
     \<and> t_version t = i_observed_version x \<and> t_routing t = i_routing x
     \<and> t_authorization t = i_authorization x \<and> i_policy x = p_version p
     \<and> fresh p now (t_observed_at t) \<and> fresh p now (i_observed_at x)
     \<and> lease_held now (i_lease x) (t_lease t)"

definition chain_current :: "target list \<Rightarrow> intent list \<Rightarrow> mresult list \<Rightarrow> chain \<Rightarrow> bool" where
  "chain_current targets intents results c = (case c_previous c of
      None \<Rightarrow> True
    | Some sha \<Rightarrow> (\<exists>r y t. by_key r_sha results sha = Some r \<and> result_is_accepted r
        \<and> by_key i_sha intents (r_intent r) = Some y \<and> c_workflow (i_chain y) = c_workflow c
        \<and> c_sequence (i_chain y) + 1 = c_sequence c
        \<and> by_key t_identity targets (r_target r) = Some t \<and> t_resolvable t
        \<and> Some (t_version t) = r_after_version r))"

definition may_write :: "policy \<Rightarrow> datetime \<Rightarrow> target list \<Rightarrow> intent list \<Rightarrow> mresult list \<Rightarrow> intent \<Rightarrow> bool" where
  "may_write p now targets intents results x \<longleftrightarrow>
     (\<forall>r\<in>set results. r_intent r = i_sha x \<longrightarrow> \<not> result_is_accepted r)
     \<and> i_idempotency_key x \<notin> set (idempotency_collisions intents)
     \<and> int (length (filter (\<lambda>r. r_intent r = i_sha x) results)) < p_max_attempts p
     \<and> (\<exists>t. by_key t_identity targets (i_target x) = Some t \<and> t_resolvable t \<and> target_unchanged p now x t)
     \<and> chain_current targets intents results (i_chain x)
     \<and> \<not> (i_compensation x = ''none'' \<and> c_previous (i_chain x) \<noteq> None \<and>
           (\<exists>r\<in>set results. r_intent r = i_sha x \<and> r_outcome r = ''provider_error''))"

lemma age_seconds_fresh:
  assumes "age_seconds s now (p_max_clock_skew p) field = Inr n" and "1 \<le> p_max_snapshot_age p"
    and u: "stamp s u"
  shows "n \<le> p_max_snapshot_age p \<longleftrightarrow> fresh p now s"
proof -
  have "parse_datetime (JStr s) field = Inr (s, u)" by (rule parse_datetime_stamp [OF u])
  with assms have lim: "instant u \<le> instant now + p_max_clock_skew p * 1000000"
    and n: "n = max 0 (whole_seconds (instant now - instant u))"
    by (auto simp: age_seconds_def shifted_iff bindE_eq_Inr_iff)
  with assms show ?thesis by (auto simp: fresh_def dest: stamp_unique)
qed

lemma assess_lease_ready:
  assumes "assess_lease p now mine current st = Inr st'" and "wf_lease m mine"
  shows "snd st' = ''ready'' \<longleftrightarrow> snd st = ''ready'' \<and> lease_held now mine current"
proof (cases "mine = None \<or> current = None")
  case True
  with assms show ?thesis by (auto simp: assess_lease_def lease_held_def split: option.splits)
next
  case False
  then obtain l c where lc: "mine = Some l" "current = Some c" by auto
  with assms obtain a e where ae: "stamp (l_acquired_at l) a" "stamp (l_expires_at l) e"
    by (auto simp: wf_lease_def)
  have "snd st' = (if instant e < instant now then ''expired''
      else if l_token l \<noteq> l_token c \<or> l_owner l \<noteq> l_owner c \<or> l_expires_at l \<noteq> l_expires_at c
      then ''conflict'' else snd st)"
    using assms lc parse_datetime_stamp [OF ae(1)] parse_datetime_stamp [OF ae(2)]
    by (auto simp: assess_lease_def Let_def bindE_eq_Inr_iff)
  with lc ae show ?thesis by (auto simp: lease_held_def dest: stamp_unique)
qed

lemma assess_target_ready:
  assumes "assess_target p now x t st = Inr st'"
    and "wf_policy p" and "wf_intent p x" and "wf_target p t"
  shows "snd st' = ''ready'' \<longleftrightarrow> snd st = ''ready'' \<and> target_unchanged p now x t"
proof -
  from assms obtain ut ux where u: "stamp (t_observed_at t) ut" "stamp (i_observed_at x) ux"
    and l: "wf_lease (p_max_lease p) (i_lease x)" and p: "1 \<le> p_max_snapshot_age p"
    by (auto simp: wf_intent_def wf_target_def wf_policy_def)
  from assms(1) obtain m n st1 where
    m: "age_seconds (t_observed_at t) now (p_max_clock_skew p) ''target.observed_at'' = Inr m"
    and n: "age_seconds (i_observed_at x) now (p_max_clock_skew p) ''intent.observed_at'' = Inr n"
    and st1: "assess_lease p now (i_lease x) (t_lease t) st1 = Inr st'"
    and r: "snd st1 = ''ready'' \<longleftrightarrow> snd st = ''ready'' \<and> t_system t = i_system x
      \<and> t_resource_kind t = i_resource_kind x \<and> t_version t = i_observed_version x
      \<and> t_routing t = i_routing x \<and> t_authorization t = i_authorization x
      \<and> i_policy x = p_version p \<and> m \<le> p_max_snapshot_age p \<and> n \<le> p_max_snapshot_age p"
    unfolding assess_target_def Let_def by (elim bindE_InrE) (auto simp: not_less)
  show ?thesis
    using assess_lease_ready [OF st1 l] r age_seconds_fresh [OF m p u(1)]
      age_seconds_fresh [OF n p u(2)]
    unfolding target_unchanged_def by blast
qed

lemma assess_chain_ready:
  assumes "assess_chain ts xs rs c st = Inr (st', current)"
  shows "snd st' = ''ready'' \<longleftrightarrow> snd st = ''ready'' \<and> chain_current ts xs rs c"
    and "current = (if c_previous c = None then None else Some (chain_current ts xs rs c))"
  using assms
  by (auto simp: assess_chain_def chain_current_def Let_def split: option.splits if_splits)


definition accepted_results :: "mresult list \<Rightarrow> intent \<Rightarrow> mresult list" where
  "accepted_results results x = filter result_is_accepted (filter (\<lambda>r. r_intent r = i_sha x) results)"

lemma assess_intent_replay:
  assumes "assess_intent p now ts xs rs cs x = Inr a" and "accepted_results rs x \<noteq> []"
  shows "length (accepted_results rs x) = 1" and "as_decision a = ''replay''"
    and "as_reasons a = [''idempotent_replay'']" and "\<not> as_compensation a"
    and "as_intent a = i_sha x" and "as_accepted a = Some (r_sha (hd (accepted_results rs x)))"
  using assms unfolding assess_intent_def Let_def accepted_results_def [symmetric]
  by (auto simp: le_Suc_eq)

lemma assess_decisions:
  "assess_lease p now mine current st = Inr st' \<Longrightarrow> snd st' \<in> {snd st, ''conflict'', ''expired''}"
  "assess_target p now x t st = Inr st' \<Longrightarrow> snd st' \<in> {snd st, ''conflict'', ''denied'', ''expired''}"
  "assess_chain ts xs rs c st = Inr (st', cc) \<Longrightarrow> snd st' \<in> {snd st, ''blocked_by_chain''}"
proof -
  show lease: "snd st' \<in> {snd st, ''conflict'', ''expired''}"
    if "assess_lease p now mine current st = Inr st'" for mine current st
    using that by (auto simp: assess_lease_def Let_def bindE_eq_Inr_iff split: option.splits prod.splits)
  show "snd st' \<in> {snd st, ''conflict'', ''denied'', ''expired''}" if "assess_target p now x t st = Inr st'"
  proof -
    from that obtain st1 where "assess_lease p now (i_lease x) (t_lease t) st1 = Inr st'"
      and "snd st1 \<in> {snd st, ''conflict'', ''denied''}"
      unfolding assess_target_def Let_def by (elim bindE_InrE) auto
    with lease show ?thesis by fastforce
  qed
  show "snd st' \<in> {snd st, ''blocked_by_chain''}" if "assess_chain ts xs rs c st = Inr (st', cc)"
    using that by (auto simp: assess_chain_def Let_def split: option.splits if_splits)
qed

lemma assess_intent_fresh:
  assumes "assess_intent p now ts xs rs (idempotency_collisions xs) x = Inr a"
    and none: "accepted_results rs x = []"
    and wf: "wf_policy p" "wf_intent p x" "list_all (wf_target p) ts"
  shows "as_decision a = ''ready'' \<longleftrightarrow> may_write p now ts xs rs x"
    and "as_decision a \<in> set DECISIONS - {''replay''}"
    and "as_intent a = i_sha x" and "as_accepted a = None"
proof -
  define rx where "rx = filter (\<lambda>r. r_intent r = i_sha x) rs"
  define failed where "failed = list_ex (\<lambda>r. r_outcome r = ''provider_error'') rx"
  define st2 where "st2 = flag (p_max_attempts p \<le> int (length rx)) ''attempt_budget_exhausted'' ''conflict''
    (flag (i_idempotency_key x \<in> set (idempotency_collisions xs)) ''idempotency_key_reused'' ''conflict''
      ([], ''ready''))"
  have none': "filter result_is_accepted rx = []" using none by (simp add: accepted_results_def rx_def)
  from assms(1) obtain st3 current st4 cc where
    t: "(case by_key t_identity ts (i_target x) of
        None \<Rightarrow> Inr (flag True ''target_unresolved'' ''unverifiable'' st2, None)
      | Some t \<Rightarrow> if \<not> t_resolvable t then Inr (flag True ''target_unresolved'' ''unverifiable'' st2, None)
          else bindE (assess_target p now x t st2) (\<lambda>st. Inr (st, Some (t_version t)))) = Inr (st3, current)"
    and c: "assess_chain ts xs rs (i_chain x) st3 = Inr (st4, cc)"
    and a: "as_decision a = (if failed \<and> c_previous (i_chain x) \<noteq> None \<and> i_compensation x = ''none''
        then ''blocked_by_chain'' else snd st4)" "as_intent a = i_sha x" "as_accepted a = None"
    unfolding assess_intent_def Let_def rx_def [symmetric] none' failed_def [symmetric]
      st2_def [symmetric]
    by (auto elim!: bindE_InrE simp del: not_None_eq split: prod.splits if_splits)
  have st2: "snd st2 = ''ready'' \<longleftrightarrow> int (length rx) < p_max_attempts p
      \<and> i_idempotency_key x \<notin> set (idempotency_collisions xs)" "snd st2 \<in> {''ready'', ''conflict''}"
    by (auto simp: st2_def)
  have st3: "(snd st3 = ''ready'' \<longleftrightarrow> snd st2 = ''ready'' \<and>
      (\<exists>t. by_key t_identity ts (i_target x) = Some t \<and> t_resolvable t \<and> target_unchanged p now x t))
    \<and> snd st3 \<in> set DECISIONS - {''replay''}"
  proof (cases "\<exists>t. by_key t_identity ts (i_target x) = Some t \<and> t_resolvable t")
    case True
    then obtain t' where t': "by_key t_identity ts (i_target x) = Some t'" "t_resolvable t'" by auto
    then have "wf_target p t'"
      using wf(3) map_of_SomeD [of "map (\<lambda>t. (t_identity t, t)) ts"] by (auto simp: by_key_def list_all_iff)
    moreover from t t' have "assess_target p now x t' st2 = Inr st3" by auto
    ultimately show ?thesis
      using assess_target_ready [of p now x t' st2 st3] assess_decisions(2) [of p now x t' st2 st3]
        wf t' st2(2) by (auto simp: DECISIONS_def)
  next
    case False
    with t have "snd st3 = ''unverifiable''" by (auto split: option.splits if_splits)
    with False show ?thesis by (auto simp: DECISIONS_def)
  qed
  have failed: "failed \<longleftrightarrow> (\<exists>r\<in>set rs. r_intent r = i_sha x \<and> r_outcome r = ''provider_error'')"
    "\<forall>r\<in>set rs. r_intent r = i_sha x \<longrightarrow> \<not> result_is_accepted r"
    using none' by (auto simp: failed_def rx_def list_ex_iff filter_empty_conv)
  show "as_intent a = i_sha x" "as_accepted a = None" using a by simp_all
  show "as_decision a = ''ready'' \<longleftrightarrow> may_write p now ts xs rs x"
    using a(1) st2(1) st3 assess_chain_ready(1) [OF c] failed
    unfolding may_write_def rx_def by auto
  show "as_decision a \<in> set DECISIONS - {''replay''}"
    using a(1) st3 assess_decisions(3) [OF c] by (auto simp: DECISIONS_def)
qed


section \<open>The assessments of a report\<close>

lemma mapE_nth: "mapE f xs = Inr ys \<Longrightarrow> i < length xs \<Longrightarrow> f (xs ! i) = Inr (ys ! i)"
proof (induction xs arbitrary: ys i)
  case (Cons x xs)
  then show ?case by (cases i) auto
qed simp

definition write_key :: "intent \<Rightarrow> string \<times> string \<times> string" where
  "write_key x = (i_system x, i_target x, i_observed_version x)"

lemma two_occurrences:
  assumes "i < length ks" and "ks ! i = k"
  shows "2 \<le> length (filter (\<lambda>k'. k' = k) ks) \<longleftrightarrow> (\<exists>j<length ks. j \<noteq> i \<and> ks ! j = k)"
proof -
  define S where "S = {j. j < length ks \<and> ks ! j = k}"
  have S: "finite S" "i \<in> S" using assms by (simp_all add: S_def)
  have "length (filter (\<lambda>k'. k' = k) ks) = card S"
    unfolding S_def by (rule length_filter_conv_card)
  also have "\<dots> = Suc (card (S - {i}))" using S by (rule card.remove)
  finally have "length (filter (\<lambda>k'. k' = k) ks) = Suc (card (S - {i}))" .
  moreover have "card (S - {i}) = 0 \<longleftrightarrow> S - {i} = {}"
    using S by (intro card_0_eq) simp
  ultimately have "2 \<le> length (filter (\<lambda>k'. k' = k) ks) \<longleftrightarrow> S - {i} \<noteq> {}" by linarith
  then show ?thesis by (auto simp: S_def)
qed

text \<open>The final verdict of the intent at a position, from the verdicts before collision control.\<close>

lemma collision_control_nth:
  assumes control: "apply_collision_control xs as = Inr bs" and dist: "distinct (map i_sha xs)"
    and len: "length as = length xs" and sha: "\<And>i. i < length xs \<Longrightarrow> as_intent (as ! i) = i_sha (xs ! i)"
    and i: "i < length xs"
  shows "length bs = length xs" and "as_intent (bs ! i) = i_sha (xs ! i)"
    and "as_decision (bs ! i) = (if as_decision (as ! i) = ''ready'' \<and>
        (\<exists>j<length xs. j \<noteq> i \<and> as_decision (as ! j) = ''ready'' \<and> write_key (xs ! j) = write_key (xs ! i))
      then ''conflict'' else as_decision (as ! i))"
    and "as_compensation (bs ! i) = as_compensation (as ! i)"
    and "as_accepted (bs ! i) = as_accepted (as ! i)"
    and "set (as_reasons (bs ! i)) = (if as_decision (bs ! i) = as_decision (as ! i) then {}
      else {''concurrent_intent_collision''}) \<union> set (as_reasons (as ! i))"
proof -
  from control obtain ks where ks: "mapE (collision_key xs) as = Inr ks"
    and bs: "bs = map (\<lambda>(a, k). if k \<noteq> None \<and> 2 \<le> length (filter (\<lambda>k'. k' = k) ks)
        then a\<lparr>as_decision := ''conflict'',
               as_reasons := sorted_set (''concurrent_intent_collision'' # as_reasons a)\<rparr>
        else a) (zip as ks)"
    by (auto simp: apply_collision_control_def)
  have kn: "ks ! j = (if as_decision (as ! j) = ''ready'' then Some (write_key (xs ! j)) else None)"
    if "j < length xs" for j
    using mapE_nth [OF ks, of j] that len sha [OF that] by_key_found [OF dist, of "xs ! j"]
    by (auto simp: collision_key_def write_key_def split: if_splits)
  have lk: "length ks = length xs" using mapE_length [OF ks] len by simp
  define c where "c \<longleftrightarrow> ks ! i \<noteq> None \<and> 2 \<le> length (filter (\<lambda>k'. k' = ks ! i) ks)"
  have bi: "bs ! i = (if c then (as ! i)\<lparr>as_decision := ''conflict'',
      as_reasons := sorted_set (''concurrent_intent_collision'' # as_reasons (as ! i))\<rparr> else as ! i)"
    using i len lk by (simp add: bs c_def)
  have c: "c \<longleftrightarrow> as_decision (as ! i) = ''ready'' \<and>
      (\<exists>j<length xs. j \<noteq> i \<and> as_decision (as ! j) = ''ready'' \<and> write_key (xs ! j) = write_key (xs ! i))"
    unfolding c_def using two_occurrences [of i ks "ks ! i"] i lk kn
    by (auto simp del: not_None_eq split: if_splits)
  show "length bs = length xs" using len lk by (simp add: bs)
  show "as_intent (bs ! i) = i_sha (xs ! i)" using sha [OF i] by (simp add: bi)
  show "as_decision (bs ! i) = (if as_decision (as ! i) = ''ready'' \<and>
        (\<exists>j<length xs. j \<noteq> i \<and> as_decision (as ! j) = ''ready'' \<and> write_key (xs ! j) = write_key (xs ! i))
      then ''conflict'' else as_decision (as ! i))"
    unfolding c [symmetric] by (simp add: bi)
  show "as_compensation (bs ! i) = as_compensation (as ! i)" "as_accepted (bs ! i) = as_accepted (as ! i)"
    by (simp_all add: bi)
  show "set (as_reasons (bs ! i)) = (if as_decision (bs ! i) = as_decision (as ! i) then {}
      else {''concurrent_intent_collision''}) \<union> set (as_reasons (as ! i))"
    using c by (auto simp: bi sorted_set_def)
qed


lemma derivation_nth:
  assumes d: "derivation r dt now as bs" and i: "i < length (rep_intents r)"
  shows "length as = length (rep_intents r)" and "as_intent (as ! i) = i_sha (rep_intents r ! i)"
    and "as_decision (as ! i) = ''ready'' \<longleftrightarrow>
      may_write (rep_policy r) dt (rep_targets r) (rep_intents r) (rep_results r) (rep_intents r ! i)"
    and "as_decision (as ! i) = ''replay'' \<longleftrightarrow> accepted_results (rep_results r) (rep_intents r ! i) \<noteq> []"
    and "as_accepted (as ! i) = (case accepted_results (rep_results r) (rep_intents r ! i) of
      [] \<Rightarrow> None | x # _ \<Rightarrow> Some (r_sha x))"
    and "length (accepted_results (rep_results r) (rep_intents r ! i)) \<le> 1"
    and "as_decision (as ! i) \<in> set DECISIONS"
    and "as_decision (as ! i) = ''replay'' \<Longrightarrow> as_reasons (as ! i) = [''idempotent_replay'']"
proof -
  let ?x = "rep_intents r ! i"
  note d' = d [unfolded derivation_def wf_report_def]
  have m: "mapE (assess_intent (rep_policy r) dt (rep_targets r) (rep_intents r) (rep_results r)
      (idempotency_collisions (rep_intents r))) (rep_intents r) = Inr as"
    using d' by blast
  show "length as = length (rep_intents r)" using mapE_length [OF m] .
  have a: "assess_intent (rep_policy r) dt (rep_targets r) (rep_intents r) (rep_results r)
      (idempotency_collisions (rep_intents r)) ?x = Inr (as ! i)"
    by (rule mapE_nth [OF m i])
  have wf: "wf_policy (rep_policy r)" "wf_intent (rep_policy r) ?x"
    "list_all (wf_target (rep_policy r)) (rep_targets r)"
    using d' i by (simp_all add: list_all_length)
  have "as_intent (as ! i) = i_sha ?x \<and>
      (as_decision (as ! i) = ''ready'' \<longleftrightarrow>
        may_write (rep_policy r) dt (rep_targets r) (rep_intents r) (rep_results r) ?x) \<and>
      (as_decision (as ! i) = ''replay'' \<longleftrightarrow> accepted_results (rep_results r) ?x \<noteq> []) \<and>
      as_accepted (as ! i) = (case accepted_results (rep_results r) ?x of
        [] \<Rightarrow> None | x # _ \<Rightarrow> Some (r_sha x)) \<and>
      length (accepted_results (rep_results r) ?x) \<le> 1 \<and> as_decision (as ! i) \<in> set DECISIONS \<and>
      (as_decision (as ! i) = ''replay'' \<longrightarrow> as_reasons (as ! i) = [''idempotent_replay''])"
  proof (cases "accepted_results (rep_results r) ?x = []")
    case True
    with assess_intent_fresh [OF a True wf] show ?thesis by auto
  next
    case False
    then have "\<not> may_write (rep_policy r) dt (rep_targets r) (rep_intents r) (rep_results r) ?x"
      by (auto simp: may_write_def accepted_results_def filter_empty_conv)
    with False assess_intent_replay [OF a False] show ?thesis
      by (auto simp: DECISIONS_def neq_Nil_conv)
  qed
  then show "as_intent (as ! i) = i_sha ?x"
    and "as_decision (as ! i) = ''ready'' \<longleftrightarrow>
      may_write (rep_policy r) dt (rep_targets r) (rep_intents r) (rep_results r) ?x"
    and "as_decision (as ! i) = ''replay'' \<longleftrightarrow> accepted_results (rep_results r) ?x \<noteq> []"
    and "as_accepted (as ! i) = (case accepted_results (rep_results r) ?x of
      [] \<Rightarrow> None | x # _ \<Rightarrow> Some (r_sha x))"
    and "length (accepted_results (rep_results r) ?x) \<le> 1"
    and "as_decision (as ! i) \<in> set DECISIONS"
    and "as_decision (as ! i) = ''replay'' \<Longrightarrow> as_reasons (as ! i) = [''idempotent_replay'']"
    by blast+
qed

text \<open>Collision control on a derivation, and the order of the final assessments.\<close>

lemma derivation_control:
  assumes d: "derivation r dt now as bs" and i: "i < length (rep_intents r)"
  shows "as_intent (bs ! i) = i_sha (rep_intents r ! i)"
    and "as_decision (bs ! i) = (if as_decision (as ! i) = ''ready'' \<and>
        (\<exists>j<length (rep_intents r). j \<noteq> i \<and> as_decision (as ! j) = ''ready''
          \<and> write_key (rep_intents r ! j) = write_key (rep_intents r ! i))
      then ''conflict'' else as_decision (as ! i))"
    and "as_accepted (bs ! i) = as_accepted (as ! i)"
    and "as_decision (bs ! i) = ''replay'' \<Longrightarrow> as_reasons (bs ! i) \<noteq> []"
proof -
  have control: "apply_collision_control (rep_intents r) as = Inr bs"
    and dist: "distinct (map i_sha (rep_intents r))"
    using d unfolding derivation_def wf_report_def by blast+
  have len: "length as = length (rep_intents r)" using derivation_nth(1) [OF d i] .
  note nth = collision_control_nth [OF control dist len derivation_nth(2) [OF d] i]
  show "as_intent (bs ! i) = i_sha (rep_intents r ! i)" by (rule nth(2))
  show dec: "as_decision (bs ! i) = (if as_decision (as ! i) = ''ready'' \<and>
        (\<exists>j<length (rep_intents r). j \<noteq> i \<and> as_decision (as ! j) = ''ready''
          \<and> write_key (rep_intents r ! j) = write_key (rep_intents r ! i))
      then ''conflict'' else as_decision (as ! i))"
    by (rule nth(3))
  show "as_accepted (bs ! i) = as_accepted (as ! i)" by (rule nth(5))
  show "as_reasons (bs ! i) \<noteq> []" if "as_decision (bs ! i) = ''replay''"
  proof -
    from that dec have *: "as_decision (as ! i) = ''replay''" by (simp split: if_splits)
    from nth(6) have "set (as_reasons (as ! i)) \<subseteq> set (as_reasons (bs ! i))" by blast
    with derivation_nth(8) [OF d i *] show ?thesis by auto
  qed
qed

lemma collision_control_length: "apply_collision_control xs as = Inr bs \<Longrightarrow> length bs = length as"
  by (auto simp: apply_collision_control_def dest: mapE_length)

lemma derivation_assessments:
  assumes d: "derivation r dt now as bs"
  shows "rep_assessments r = bs" and "map as_intent bs = map i_sha (rep_intents r)"
proof -
  have control: "apply_collision_control (rep_intents r) as = Inr bs"
    and dist: "distinct (map i_sha (rep_intents r))" and ord: "sorted (map i_sha (rep_intents r))"
    and fin: "rep_assessments r = sort_key as_intent bs"
    using d by (simp_all add: derivation_def wf_report_def)
  have "mapE (assess_intent (rep_policy r) dt (rep_targets r) (rep_intents r) (rep_results r)
      (idempotency_collisions (rep_intents r))) (rep_intents r) = Inr as"
    using d by (simp add: derivation_def)
  then have "length as = length (rep_intents r)" by (rule mapE_length)
  with collision_control_length [OF control] have "length bs = length (rep_intents r)" by simp
  then show m: "map as_intent bs = map i_sha (rep_intents r)"
    using derivation_control(1) [OF d] by (intro nth_equalityI) simp_all
  show "rep_assessments r = bs"
    unfolding fin using ord by (intro sort_key_id_if_sorted) (simp add: m)
qed

lemma report_entry:
  assumes d: "derivation r dt now as bs" and a: "a \<in> set (rep_assessments r)"
    and x: "x \<in> set (rep_intents r)" and "as_intent a = i_sha x"
  obtains i where "i < length (rep_intents r)" and "rep_intents r ! i = x" and "bs ! i = a"
proof -
  note bs = derivation_assessments [OF d]
  have len: "length bs = length (rep_intents r)" using arg_cong [OF bs(2), of length] by simp
  from a bs(1) obtain i where i: "i < length bs" "bs ! i = a" by (auto simp: in_set_conv_nth)
  with len derivation_control(1) [OF d, of i] assms have "i_sha (rep_intents r ! i) = i_sha x" by simp
  moreover have "distinct (map i_sha (rep_intents r))"
    using d by (simp add: derivation_def wf_report_def)
  ultimately have "rep_intents r ! i = x"
    using i len x by (metis distinct_map inj_onD nth_mem)
  with i len that show thesis by simp
qed


section \<open>What a report can raise\<close>

lemma refuses_normalize_lease [refusal_intros]: "refuses (normalize_lease v field m)"
  unfolding normalize_lease_def Let_def by (intro refusal_intros)

lemma refuses_normalize_policy [refusal_intros]: "refuses (normalize_policy v)"
  unfolding normalize_policy_def Let_def by (intro refusal_intros)

lemma refuses_normalize_target [refusal_intros]: "refuses (normalize_target p iv)"
  unfolding normalize_target_def Let_def by (intro refusal_intros)

lemma refuses_normalize_chain [refusal_intros]: "refuses (normalize_chain v field)"
  unfolding normalize_chain_def Let_def by (intro refusal_intros)

lemma refuses_operation:
  "names_one 64 OPERATIONS operation \<Longrightarrow>
   refuses (case map_of OPERATION_SYSTEM operation of None \<Rightarrow> Inl (KeyError operation)
     | Some s \<Rightarrow> require (s = system) message)"
proof -
  assume "names_one 64 OPERATIONS operation"
  then have "operation \<in> set OPERATIONS" by (simp add: names_one_def)
  moreover have "list_all (\<lambda>k. map_of OPERATION_SYSTEM k \<noteq> None) OPERATIONS" by code_simp
  ultimately have "map_of OPERATION_SYSTEM operation \<noteq> None" by (simp add: list_all_iff del: not_None_eq)
  then show ?thesis by (auto simp: refuses_basic)
qed

lemma refuses_normalize_intent [refusal_intros]: "refuses (normalize_intent p iv)"
  unfolding normalize_intent_def Let_def
  by (intro refuses_operation refuses_bindE refuses_pair refuses_basic refuses_scalars
      refuses_parse_datetime refuses_normalize_lease refuses_normalize_chain)
    (simp only: one_of_iff)

lemma refuses_check_result [refusal_intros]: "refuses (check_result field x r)"
  unfolding check_result_def by (intro refusal_intros)

lemma refuses_normalize_result [refusal_intros]: "refuses (normalize_result intents iv)"
  unfolding normalize_result_def Let_def by (intro refusal_intros)

lemma refuses_age_seconds [refusal_intros]: "refuses (age_seconds s dt skew field)"
  unfolding age_seconds_def by (intro refusal_intros)

lemma refuses_assess_lease [refusal_intros]: "refuses (assess_lease p dt mine current st)"
  unfolding assess_lease_def Let_def
  by (cases mine; cases current) (auto intro!: refusal_intros)

lemma refuses_assess_target [refusal_intros]: "refuses (assess_target p dt x t st)"
  unfolding assess_target_def Let_def by (intro refusal_intros)

lemma refuses_check_now [refusal_intros]: "refuses (check_now p dt now)"
  unfolding check_now_def by (intro refusal_intros)

lemma refuses_check_compensation [refusal_intros]: "refuses (check_compensation rs r)"
  unfolding check_compensation_def by (intro refusal_intros)

text \<open>The lookups that could raise \<^verbatim>\<open>KeyError\<close> always find what they look for.\<close>

lemma refuses_check_result_time:
  assumes "wf_result intents r"
  shows "refuses (check_result_time p dt intents r)"
proof -
  from assms obtain x where "by_key i_sha intents (r_intent r) = Some x" by (auto simp: wf_result_def)
  then show ?thesis
    unfolding check_result_time_def Let_def
    by (simp, intro refusal_intros)
qed

lemma refuses_assess_chain:
  assumes "list_all (wf_result intents) results"
  shows "refuses (assess_chain ts intents results c st)"
proof (cases "\<exists>sha r. c_previous c = Some sha \<and> by_key r_sha results sha = Some r")
  case True
  then obtain sha r where r: "c_previous c = Some sha" "by_key r_sha results sha = Some r" by auto
  then have "r \<in> set results" by (auto simp: by_key_def dest: map_of_SomeD)
  with assms obtain x where "by_key i_sha intents (r_intent r) = Some x"
    by (auto simp: wf_result_def list_all_iff)
  with r show ?thesis by (auto simp: assess_chain_def Let_def intro!: refusal_intros)
next
  case False
  then show ?thesis by (auto simp: assess_chain_def intro!: refusal_intros split: option.splits)
qed

lemma refuses_assess_intent:
  assumes "list_all (wf_result intents) results"
  shows "refuses (assess_intent p dt ts intents results cs x)"
  unfolding assess_intent_def Let_def
  by (intro refuses_assess_chain [OF assms] refusal_intros)

lemma refuses_collision_control:
  assumes "\<And>a. a \<in> set as \<Longrightarrow> as_intent a \<in> i_sha ` set intents"
  shows "refuses (apply_collision_control intents as)"
proof -
  have "refuses (collision_key intents a)" if "a \<in> set as" for a
  proof -
    have "by_key i_sha intents (as_intent a) \<noteq> None"
      using assms [OF that] by (simp add: by_key_def map_of_eq_None_iff image_comp comp_def del: not_None_eq)
    then show ?thesis by (auto simp: collision_key_def refuses_basic)
  qed
  then show ?thesis unfolding apply_collision_control_def by (intro refusal_intros)
qed

lemma assess_intent_sha: "assess_intent p dt ts xs rs cs x = Inr a \<Longrightarrow> as_intent a = i_sha x"
  unfolding assess_intent_def Let_def by (auto split: if_splits prod.splits)

lemma refuses_derive_report: "refuses (derive_report root now)"
  unfolding derive_report_def Let_def
proof (intro refuses_bindE refuses_pair refuses_basic refuses_normalize_policy refuses_parse_datetime
    refuses_check_now refuses_expect refuses_mapE refuses_foldE refuses_normalize_target
    refuses_normalize_intent refuses_normalize_result refuses_check_compensation)
  fix xs raw rs p dt s r
  assume rs: "mapE (normalize_result (sort_key i_sha xs)) (enumerate 0 raw) = Inr rs" and "r \<in> set rs"
  then have "wf_result (sort_key i_sha xs) r"
    using mapE_enumerate_elem [OF rs] normalize_result_wf by blast
  then show "refuses (check_result_time p dt (sort_key i_sha xs) r)"
    by (rule refuses_check_result_time)
next
  fix xs raw rs p dt ts x
  assume rs: "mapE (normalize_result (sort_key i_sha xs)) (enumerate 0 raw) = Inr rs"
  have "list_all (wf_result (sort_key i_sha xs)) (sort_key r_sha rs)"
    using mapE_enumerate_elem [OF rs] normalize_result_wf by (fastforce simp: list_all_iff)
  then show "refuses (assess_intent p dt (sort_key t_identity ts) (sort_key i_sha xs)
      (sort_key r_sha rs) (idempotency_collisions (sort_key i_sha xs)) x)"
    by (rule refuses_assess_intent)
next
  fix xs as p dt ts rs
  assume as: "mapE (assess_intent p dt (sort_key t_identity ts) (sort_key i_sha xs)
      (sort_key r_sha rs) (idempotency_collisions (sort_key i_sha xs))) (sort_key i_sha xs) = Inr as"
  show "refuses (apply_collision_control (sort_key i_sha xs) as)"
  proof (rule refuses_collision_control)
    fix a
    assume "a \<in> set as"
    from mapE_elem [OF as this] show "as_intent a \<in> i_sha ` set (sort_key i_sha xs)"
      by (auto dest: assess_intent_sha)
  qed
qed


section \<open>The report as a derived report\<close>

lemma refuses_check_derived: "refuses (check_derived root fe)"
  by (cases fe) (simp add: check_derived_def refusal_intros)

interpretation mutation: derived_report build_mutation_receipts_report derive_report report_dict
  derived_fields check_derived root_keys
proof
  show "build_mutation_receipts_report v now =
      bindE (strict_object v ''$'' root_keys) (\<lambda>root.
      bindE (derive_report root now) (\<lambda>r.
      bindE (foldE (\<lambda>_. check_derived root) () (derived_fields r)) (\<lambda>_.
      bindE (validate_public_safety (JObj (report_dict r))) (\<lambda>_. Inr r))))" for v now
    by (simp add: build_mutation_receipts_report_def report_dict_json)
  show "derive_report (report_dict r) now = Inr r" if "derive_report root now = Inr r" for root now r
    using that by (rule derive_report_sound) (rule derive_report_again)
qed (simp_all add: report_dict_names check_derived_held refuses_derive_report refuses_check_derived)

section \<open>A sample report\<close>

text \<open>One resolvable target and one intent that still matches it.\<close>

definition sample_start :: datetime where
  "sample_start = sample_time\<lparr>dt_minute := 0\<rparr>"

definition sample_end :: datetime where
  "sample_end = sample_time\<lparr>dt_minute := 20\<rparr>"

definition sample_now :: datetime where
  "sample_now = sample_time\<lparr>dt_minute := 2\<rparr>"

lemma sample_stamps:
  "stamp (timestamp sample_start) sample_start" "stamp (timestamp sample_end) sample_end"
  "stamp (timestamp sample_now) sample_now"
  by (simp_all add: stamp_def sample_start_def sample_end_def sample_now_def sample_time_def
      valid_datetime_def valid_date_def days_in_month_def)

lemma sample_instants:
  "instant sample_now = instant sample_start + 120000000"
  "instant sample_end = instant sample_start + 1200000000"
  by (simp_all add: instant_def usec_of_day_def sample_start_def sample_end_def sample_now_def
      sample_time_def)

definition sample_policy :: policy where
  "sample_policy = (let p = \<lparr>p_version = [], p_max_clock_skew = 300, p_max_snapshot_age = 300,
      p_max_lease = 1800, p_max_attempts = 3\<rparr>
    in p\<lparr>p_version := sha256_value (JObj (policy_material p))\<rparr>)"

definition sample_lease :: lease where
  "sample_lease = \<lparr>l_token = digest_a, l_owner = digest_b, l_acquired_at = timestamp sample_start,
     l_expires_at = timestamp sample_end\<rparr>"

definition sample_target :: target where
  "sample_target = \<lparr>t_system = ''linear'', t_resource_kind = ''linear_issue'', t_identity = digest_a,
     t_version = digest_b, t_routing = digest_a, t_authorization = digest_a,
     t_observed_at = timestamp sample_start, t_resolvable = True, t_lease = Some sample_lease\<rparr>"

definition sample_chain :: chain where
  "sample_chain = (let c = \<lparr>c_workflow = digest_a, c_step = ''linear_issue'', c_sequence = 0,
      c_previous = None, c_trace = []\<rparr>
    in c\<lparr>c_trace := sha256_value (JObj (chain_material c))\<rparr>)"

definition sample_intent :: intent where
  "sample_intent = (let x = \<lparr>i_sha = [], i_system = ''linear'', i_operation = ''linear_update_issue'',
      i_resource_kind = ''linear_issue'', i_target = digest_a, i_observed_version = digest_b,
      i_observed_at = timestamp sample_start, i_desired_patch = digest_a, i_relation_analysis = None,
      i_actor = digest_b, i_run = digest_a, i_idempotency_key = digest_a,
      i_policy = p_version sample_policy, i_routing = digest_a, i_authorization = digest_a,
      i_lease = Some sample_lease, i_compensation = ''restore_previous_state'', i_chain = sample_chain\<rparr>
    in x\<lparr>i_sha := sha256_value (JObj (intent_material x))\<rparr>)"

definition sample_assessment :: assessment where
  "sample_assessment = \<lparr>as_intent = i_sha sample_intent, as_target = digest_a, as_key = digest_a,
     as_current_version = Some digest_b, as_decision = ''ready'', as_reasons = [], as_attempts = 0,
     as_accepted = None, as_chain_current = None, as_compensation = False\<rparr>"

definition sample_report :: report where
  "sample_report = \<lparr>rep_generated_at = timestamp sample_now, rep_policy = sample_policy,
     rep_targets = [sample_target], rep_intents = [sample_intent], rep_results = [],
     rep_assessments = [sample_assessment]\<rparr>"

lemma receipt_names:
  "names_one 16 SYSTEMS ''linear''" "names_one 64 RESOURCE_KINDS ''linear_issue''"
  "names_one 64 OPERATIONS ''linear_update_issue''" "names_one 32 CHAIN_STEPS ''linear_issue''"
  "names_one 64 COMPENSATIONS ''restore_previous_state''"
  by code_simp+

lemma sample_policy_wf: "wf_policy sample_policy"
  by (simp add: wf_policy_def sample_policy_def policy_material_def MAX_CLOCK_SKEW_SECONDS_def
      MAX_SNAPSHOT_AGE_SECONDS_def MAX_LEASE_SECONDS_def MAX_ATTEMPTS_def)

lemma sample_lease_wf: "wf_lease (p_max_lease sample_policy) (Some sample_lease)"
proof -
  have "0 < whole_seconds (instant sample_end - instant sample_start)"
    "whole_seconds (instant sample_end - instant sample_start) \<le> 1800"
    by (simp_all add: sample_instants whole_seconds_def)
  with sample_stamps show ?thesis
    by (fastforce simp: wf_lease_def sample_lease_def sample_policy_def)
qed

lemma sample_target_wf: "wf_target sample_policy sample_target"
  using sample_stamps sample_lease_wf by (auto simp: wf_target_def sample_target_def receipt_names)

lemma sample_chain_wf: "wf_chain sample_chain"
  by (simp add: wf_chain_def sample_chain_def chain_material_def receipt_names)

lemma sample_intent_wf: "wf_intent sample_policy sample_intent"
  using sample_stamps sample_lease_wf sample_chain_wf
    sample_policy_wf [unfolded wf_policy_def]
  by (auto simp: wf_intent_def sample_intent_def intent_material_def receipt_names
      OPERATION_SYSTEM_def RELATION_OPERATIONS_def)

lemma sample_wf: "wf_report sample_report"
  using sample_policy_wf sample_stamps sample_target_wf sample_intent_wf
  by (auto simp: wf_report_def sample_report_def MAX_RECORDS_def)

lemma sample_may_write:
  "may_write sample_policy sample_now [sample_target] [sample_intent] [] sample_intent"
proof -
  have "fresh sample_policy sample_now (timestamp sample_start)"
    unfolding fresh_def using sample_stamps
    by (intro exI [of _ sample_start]) (simp add: sample_instants sample_policy_def whole_seconds_def)
  moreover have "lease_held sample_now (Some sample_lease) (Some sample_lease)"
    unfolding lease_held_def using sample_stamps sample_instants
    by (auto simp: sample_lease_def intro!: exI [of _ sample_end])
  moreover have "idempotency_collisions [sample_intent] = []"
    by (simp add: idempotency_collisions_def)
  ultimately show ?thesis
    by (simp add: may_write_def target_unchanged_def chain_current_def by_key_def sample_target_def
        sample_intent_def sample_chain_def) (simp add: sample_policy_def)
qed

lemma sample_shifted:
  "shifted sample_now (p_max_clock_skew sample_policy) = Inr (instant sample_now + 300000000)"
  by (simp add: shifted_iff sample_policy_def min_instant_def max_instant_def usec_per_day_def
      instant_def ymd2ord_def days_before_year_def days_before_month_def days_in_month_def
      usec_of_day_def sample_now_def sample_time_def)

lemma sample_age:
  "age_seconds (timestamp sample_start) sample_now (p_max_clock_skew sample_policy) field = Inr 120"
  using sample_shifted parse_datetime_stamp [OF sample_stamps(1)]
  by (simp add: age_seconds_def sample_instants whole_seconds_def)

lemma sample_assess_lease:
  "assess_lease sample_policy sample_now (Some sample_lease) (Some sample_lease) st = Inr st"
  using sample_shifted parse_datetime_stamp [OF sample_stamps(1)] parse_datetime_stamp [OF sample_stamps(2)]
  by (simp add: assess_lease_def sample_lease_def flag_def sample_instants)

lemma sample_assess_target:
  "assess_target sample_policy sample_now sample_intent sample_target st = Inr st"
proof -
  have "\<not> p_max_snapshot_age sample_policy < 120" by (simp add: sample_policy_def)
  then show ?thesis
    unfolding assess_target_def Let_def
    by (simp add: sample_intent_def sample_target_def sample_age sample_assess_lease flag_def)
qed

lemma sample_derivation:
  "derivation sample_report sample_now None [sample_assessment] [sample_assessment]"
proof -
  have key: "by_key t_identity [sample_target] (i_target sample_intent) = Some sample_target"
    "by_key i_sha [sample_intent] (i_sha sample_intent) = Some sample_intent"
    by (simp_all add: by_key_def sample_target_def sample_intent_def)
  have "assess_intent sample_policy sample_now [sample_target] [sample_intent] []
      (idempotency_collisions [sample_intent]) sample_intent = Inr sample_assessment"
    unfolding assess_intent_def Let_def key
    by (simp add: idempotency_collisions_def sample_assess_target flag_def remark_def)
      (simp add: sample_assessment_def sample_intent_def sample_target_def sample_chain_def
        sample_policy_def assess_chain_def sorted_set_def)
  then show ?thesis
    using sample_wf sample_stamps key
    by (simp add: derivation_def sample_report_def check_now_def apply_collision_control_def
        collision_key_def sample_assessment_def)
qed

lemma stamp_publishable: "stamp s u \<Longrightarrow> publishable s"
  by (simp add: stamp_def timestamp_publishable)

lemma sample_strings:
  "publishable SCHEMA_VERSION" "publishable FAILURE_LEDGER_SCHEMA" "publishable ''linear''"
  "publishable ''linear_issue''" "publishable ''linear_update_issue''"
  "publishable ''restore_previous_state''" "publishable ''ready''" "publishable ''complete''"
  "publishable (timestamp sample_start)" "publishable (timestamp sample_end)"
  "publishable (timestamp sample_now)"
proof -
  have inert: "inert s" if "set s \<subseteq> set ''abcdefgijklmnopqrstuvwxyz0123456789_.''" for s
    using _ that
  proof (rule inert_mono)
    show "inert ''abcdefgijklmnopqrstuvwxyz0123456789_.''" by code_simp
  qed
  show "publishable SCHEMA_VERSION" "publishable FAILURE_LEDGER_SCHEMA" "publishable ''linear''"
    "publishable ''linear_issue''" "publishable ''linear_update_issue''"
    "publishable ''restore_previous_state''" "publishable ''ready''" "publishable ''complete''"
    by (rule inert_publishable, rule inert, simp_all add: SCHEMA_VERSION_def FAILURE_LEDGER_SCHEMA_def)+
qed (rule stamp_publishable [OF sample_stamps(1)] stamp_publishable [OF sample_stamps(2)]
    stamp_publishable [OF sample_stamps(3)])+

lemma sample_safe: "validate_public_safety (report_json sample_report) = Inr ()"
proof -
  have "publishable digest_a" "publishable digest_b" "publishable (sha256_value v)" for v
    by (simp_all add: hex_publishable)
  then show ?thesis
    unfolding public_safety_iff
    by (simp add: report_json_def report_material_def sample_report_def report_sha256_def
        policy_json_def policy_material_def target_json_def intent_json_def intent_material_def
        lease_json_def chain_json_def chain_material_def assessment_json_def report_summary_def
        summary_json_def summarize_def build_failure_ledger_def failure_items_def Let_def
        decision_count_def DECISIONS_def sample_policy_def sample_target_def sample_intent_def
        sample_lease_def sample_chain_def sample_assessment_def opt_bool_def sample_strings)
qed

lemma sample_build: "build_mutation_receipts_report (report_json sample_report) None = Inr sample_report"
  using mutation.rebuild [OF derive_report_again [OF sample_derivation]] sample_safe
  by (simp add: report_dict_json)


text \<open>The same report after the write was made: one accepted result, so the intent is a replay.\<close>

definition replay_result :: mresult where
  "replay_result = (let x = \<lparr>r_sha = [], r_intent = i_sha sample_intent, r_idempotency_key = digest_a,
      r_system = ''linear'', r_target = digest_a, r_outcome = ''accepted'', r_provider_receipt = Some digest_a,
      r_before_version = digest_b, r_after_version = Some digest_b, r_occurred_at = timestamp sample_now,
      r_actor = digest_b, r_detail = digest_a, r_compensation_of = None\<rparr>
    in x\<lparr>r_sha := sha256_value (JObj (result_material x))\<rparr>)"

definition replay_assessment :: assessment where
  "replay_assessment = \<lparr>as_intent = i_sha sample_intent, as_target = digest_a, as_key = digest_a,
     as_current_version = Some digest_b, as_decision = ''replay'', as_reasons = [''idempotent_replay''],
     as_attempts = 1, as_accepted = Some (r_sha replay_result), as_chain_current = None, as_compensation = False\<rparr>"

definition replay_report :: report where
  "replay_report = sample_report\<lparr>rep_results := [replay_result], rep_assessments := [replay_assessment]\<rparr>"

lemma replay_names: "names_one 16 SYSTEMS ''linear''" "names_one 32 RESULT_OUTCOMES ''accepted''"
  by code_simp+

lemma replay_result_wf: "wf_result [sample_intent] replay_result"
proof -
  have "by_key i_sha [sample_intent] (r_intent replay_result) = Some sample_intent"
    by (simp add: by_key_def replay_result_def)
  moreover have "result_matches sample_intent replay_result"
    by (simp add: result_matches_def replay_result_def result_is_accepted_def sample_intent_def)
  moreover have "is_sha256_text (r_intent replay_result)"
    using sample_intent_wf by (simp add: replay_result_def wf_intent_def)
  ultimately show ?thesis
    using sample_stamps by (auto simp: wf_result_def replay_result_def replay_names result_material_def)
qed

lemma replay_wf: "wf_report replay_report"
  using sample_wf replay_result_wf
  by (simp add: wf_report_def replay_report_def sample_report_def MAX_RECORDS_def)

lemma replay_time: "check_result_time sample_policy sample_now [sample_intent] replay_result = Inr ()"
proof -
  have sk: "p_max_clock_skew sample_policy = 300" by (simp add: sample_policy_def)
  have k: "by_key i_sha [sample_intent] (r_intent replay_result) = Some sample_intent"
    "r_occurred_at replay_result = timestamp sample_now" "i_observed_at sample_intent = timestamp sample_start"
    "i_lease sample_intent = Some sample_lease"
    by (simp_all add: by_key_def replay_result_def sample_intent_def)
  note p = parse_datetime_stamp [OF sample_stamps(1)] parse_datetime_stamp [OF sample_stamps(2)]
    parse_datetime_stamp [OF sample_stamps(3)]
  have sh: "shifted sample_start (- 300) = Inr (instant sample_start - 300000000)"
    "shifted sample_end 300 = Inr (instant sample_end + 300000000)"
    "shifted sample_now 300 = Inr (instant sample_now + 300000000)"
    by (simp_all add: shifted_iff min_instant_def max_instant_def usec_per_day_def
      instant_def ymd2ord_def days_before_year_def days_before_month_def days_in_month_def
      usec_of_day_def sample_now_def sample_start_def sample_end_def sample_time_def)
  show ?thesis
    by (simp add: check_result_time_def Let_def sk k p sh age_seconds_def sample_lease_def sample_instants)
qed

lemma replay_derivation:
  "derivation replay_report sample_now None [replay_assessment] [replay_assessment]"
proof -
  have key: "by_key t_identity [sample_target] (i_target sample_intent) = Some sample_target"
    by (simp add: by_key_def sample_target_def sample_intent_def)
  have acc: "r_intent replay_result = i_sha sample_intent" "result_is_accepted replay_result"
    "r_compensation_of replay_result = None"
    by (simp_all add: replay_result_def result_is_accepted_def)
  have "assess_intent sample_policy sample_now [sample_target] [sample_intent] [replay_result]
      (idempotency_collisions [sample_intent]) sample_intent = Inr replay_assessment"
    unfolding assess_intent_def Let_def key
    by (simp add: acc replay_assessment_def) (simp add: sample_intent_def sample_target_def)
  then show ?thesis
    using replay_wf sample_stamps replay_time
    by (simp add: derivation_def replay_report_def sample_report_def check_now_def apply_collision_control_def
        collision_key_def replay_assessment_def check_compensation_def acc)
qed

lemma replay_safe: "validate_public_safety (report_json replay_report) = Inr ()"
proof -
  let ?P = "{s. publishable s}"
  have p: "publishable digest_a" "publishable digest_b" "publishable (sha256_value v)" for v
    by (simp_all add: hex_publishable)
  have sha: "publishable (i_sha sample_intent)" "publishable (r_sha replay_result)"
    by (simp_all add: sample_intent_def replay_result_def p)
  have "inert s" if "set s \<subseteq> set ''abcdefgijklmnopqrstuvwxyz0123456789_.''" for s
    using _ that
  proof (rule inert_mono)
    show "inert ''abcdefgijklmnopqrstuvwxyz0123456789_.''" by code_simp
  qed
  then have w: "publishable ''accepted''" "publishable ''replay''" "publishable ''idempotent_replay''"
    by (simp_all add: inert_publishable)
  have old: "strings_of (policy_json sample_policy) \<subseteq> ?P" "strings_of (target_json sample_target) \<subseteq> ?P"
    "strings_of (intent_json sample_intent) \<subseteq> ?P"
    using sample_safe unfolding public_safety_iff
    by (auto simp: report_json_def report_material_def sample_report_def)
  have fields: "r_intent replay_result = i_sha sample_intent" "r_idempotency_key replay_result = digest_a"
    "r_system replay_result = ''linear''" "r_target replay_result = digest_a" "r_outcome replay_result = ''accepted''"
    "r_provider_receipt replay_result = Some digest_a" "r_before_version replay_result = digest_b"
    "r_after_version replay_result = Some digest_b" "r_occurred_at replay_result = timestamp sample_now"
    "r_actor replay_result = digest_b" "r_detail replay_result = digest_a" "r_compensation_of replay_result = None"
    by (simp_all add: replay_result_def)
  have new: "strings_of (result_json replay_result) \<subseteq> ?P"
    by (simp add: result_json_def result_material_def opt_str_def fields p sha w sample_strings)
  have a: "strings_of (assessment_json replay_assessment) \<subseteq> ?P"
    by (simp add: assessment_json_def replay_assessment_def opt_bool_def opt_str_def p sha w sample_strings)
  have f: "strings_of (build_failure_ledger [replay_assessment]) \<subseteq> ?P"
    by (simp add: build_failure_ledger_def failure_items_def failure_item_def Let_def replay_assessment_def
        p sha w sample_strings)
  have m: "strings_of (summary_json (summarize [sample_target] [sample_intent] [replay_result] [replay_assessment]))
      \<subseteq> ?P"
    by (simp add: summary_json_def summarize_def Let_def decision_count_def DECISIONS_def replay_assessment_def
        fields sample_strings)
  show ?thesis
    using old new a f m p sample_strings unfolding public_safety_iff
    by (simp add: report_json_def report_material_def replay_report_def sample_report_def report_sha256_def
        report_summary_def)
qed

lemma replay_build: "build_mutation_receipts_report (report_json replay_report) None = Inr replay_report"
  using mutation.rebuild [OF derive_report_again [OF replay_derivation]] replay_safe
  by (simp add: report_dict_json)

section \<open>Replays and the failure ledger\<close>

text \<open>
  A finding: the ledger is documented as holding conflicts, denials, broken chains and compensation work,
  and its filter names \<^verbatim>\<open>replay\<close> among the decisions to leave out; but a replay always carries a reason
  code, so the filter never applies to it and every successful write is listed as a failure.
\<close>

lemma replay_in_failure_ledger:
  assumes d: "derivation r dt now as bs" and a: "a \<in> set (rep_assessments r)" "as_decision a = ''replay''"
  shows "a \<in> set (failure_items (rep_assessments r))"
proof -
  note bs = derivation_assessments [OF d]
  have len: "length bs = length (rep_intents r)" using arg_cong [OF bs(2), of length] by simp
  from a bs(1) obtain i where "i < length bs" "bs ! i = a" by (auto simp: in_set_conv_nth)
  with derivation_control(4) [OF d, of i] len a have "as_reasons a \<noteq> []" by simp
  with a show ?thesis by (simp add: failure_items_def)
qed

lemma replay_listed_as_failure: "replay_assessment \<in> set (failure_items (rep_assessments replay_report))"
  by (rule replay_in_failure_ledger [OF replay_derivation])
    (simp_all add: replay_report_def sample_report_def replay_assessment_def)

section \<open>Properties\<close>

lemma status_complete:
  "s_status (summarize ts xs rs as) = ''complete'' \<longleftrightarrow>
     (\<forall>a\<in>set as. as_decision a \<notin> {''conflict'', ''expired'', ''denied'', ''unverifiable'', ''blocked_by_chain''}
        \<and> \<not> as_compensation a \<and> ''provider_failure'' \<notin> set (as_reasons a))"
  by (auto simp: summarize_def Let_def decision_count_def filter_empty_conv)

lemma decision_counts:
  assumes "list_all (\<lambda>a. as_decision a \<in> set DECISIONS) as"
  shows "sum_list (map snd (s_decisions (summarize ts xs rs as))) = length as"
proof -
  have "sum_list (map (decision_count as) DECISIONS) = length as"
    using assms
  proof (induction as)
    case (Cons a as)
    have "sum_list (map (decision_count (a # as)) DECISIONS) =
        sum_list (map (decision_count as) DECISIONS) + length (filter (\<lambda>d. as_decision a = d) DECISIONS)"
      by (simp add: decision_count_def DECISIONS_def)
    also have "length (filter (\<lambda>d. as_decision a = d) DECISIONS) = 1"
      using Cons.prems by (auto simp: DECISIONS_def)
    finally show ?case using Cons by simp
  qed (simp add: decision_count_def DECISIONS_def)
  then show ?thesis by (simp add: summarize_def Let_def comp_def)
qed

lemma derivation_decisions:
  assumes "derivation r dt now as bs"
  shows "list_all (\<lambda>a. as_decision a \<in> set DECISIONS) (rep_assessments r)"
proof -
  note bs = derivation_assessments [OF assms]
  have len: "length bs = length (rep_intents r)" using arg_cong [OF bs(2), of length] by simp
  have "''conflict'' \<in> set DECISIONS" by (simp add: DECISIONS_def)
  then show ?thesis
    using derivation_control(2) [OF assms] derivation_nth(7) [OF assms]
    by (simp add: bs(1) list_all_length len)
qed

text \<open>
  A report that \<^verbatim>\<open>build_mutation_receipts_report\<close> accepted is accepted again, unchanged: fed back
  with its derived fields and digests, normalisation, assessment, digests and safety check give the
  very same report.
\<close>

lemma receipts_revalidate:
  assumes "build_mutation_receipts_report v now = Inr r"
  shows "build_mutation_receipts_report (report_json r) now = Inr r"
  using mutation.revalidate [OF assms] by (simp add: report_dict_json)

text \<open>
  C15. In an accepted report an intent is \<^verbatim>\<open>ready\<close> exactly when it may be written: no result of it was
  accepted, attempts are left, its idempotency key is its own, its target resolves and is unchanged
  in system, kind, version, routing and authorisation under the governing policy, both snapshots are
  fresh, the lease is the target's and has not expired, its predecessor in the chain was accepted
  and is still current - and no other intent that may be written competes for the same version of
  the same target.
\<close>

theorem receipts_ready_exact:
  assumes "build_mutation_receipts_report v now = Inr r" and "stamp (rep_generated_at r) dt"
    and "x \<in> set (rep_intents r)" and "a \<in> set (rep_assessments r)" and "as_intent a = i_sha x"
  shows "as_decision a = ''ready'' \<longleftrightarrow>
    may_write (rep_policy r) dt (rep_targets r) (rep_intents r) (rep_results r) x \<and>
    (\<forall>y\<in>set (rep_intents r). may_write (rep_policy r) dt (rep_targets r) (rep_intents r) (rep_results r) y
       \<and> write_key y = write_key x \<longrightarrow> y = x)"
proof -
  from assms(1) obtain dt' as bs where d': "derivation r dt' now as bs" by (rule build_reportE)
  then have "stamp (rep_generated_at r) dt'" by (simp add: derivation_def)
  with assms(2) have "dt' = dt" by (metis stamp_unique)
  with d' have d: "derivation r dt now as bs" by simp
  obtain i where i: "i < length (rep_intents r)" "rep_intents r ! i = x" "bs ! i = a"
    using report_entry [OF d assms(4) assms(3) assms(5)] .
  have dist: "distinct (rep_intents r)"
    using d by (simp add: derivation_def wf_report_def distinct_map)
  let ?may = "may_write (rep_policy r) dt (rep_targets r) (rep_intents r) (rep_results r)"
  have may: "as_decision (as ! j) = ''ready'' \<longleftrightarrow> ?may (rep_intents r ! j)"
    if "j < length (rep_intents r)" for j
    using derivation_nth(3) [OF d that] .
  have "as_decision a = ''ready'' \<longleftrightarrow> ?may x \<and>
      \<not> (\<exists>j<length (rep_intents r). j \<noteq> i \<and> ?may (rep_intents r ! j)
          \<and> write_key (rep_intents r ! j) = write_key x)"
    using derivation_control(2) [OF d i(1)] may [OF i(1)] may i by auto
  also have "(\<exists>j<length (rep_intents r). j \<noteq> i \<and> ?may (rep_intents r ! j)
        \<and> write_key (rep_intents r ! j) = write_key x) \<longleftrightarrow>
      (\<exists>y\<in>set (rep_intents r). y \<noteq> x \<and> ?may y \<and> write_key y = write_key x)"
    using i dist by (metis in_set_conv_nth nth_eq_iff_index_eq)
  finally show ?thesis by blast
qed

lemma receipts_ready_exact_witness:
  "may_write sample_policy sample_now [sample_target] [sample_intent] [] sample_intent"
proof -
  have "as_decision sample_assessment = ''ready''" by (simp add: sample_assessment_def)
  with receipts_ready_exact [OF sample_build, of sample_now sample_intent sample_assessment]
    sample_stamps
  show ?thesis by (simp add: sample_report_def sample_assessment_def)
qed

text \<open>
  C16. In an accepted report an intent has at most one accepted result; its decision is \<^verbatim>\<open>replay\<close>
  exactly when it has one, and the assessment then carries the digest of that result. Every intent has
  exactly one assessment, in the order of the intents.
\<close>

theorem receipts_replay_exact:
  assumes "build_mutation_receipts_report v now = Inr r"
    and "x \<in> set (rep_intents r)" and "a \<in> set (rep_assessments r)" and "as_intent a = i_sha x"
  shows "map as_intent (rep_assessments r) = map i_sha (rep_intents r) \<and>
    length (accepted_results (rep_results r) x) \<le> 1 \<and>
    (as_decision a = ''replay'' \<longleftrightarrow> accepted_results (rep_results r) x \<noteq> []) \<and>
    as_accepted a = (case accepted_results (rep_results r) x of [] \<Rightarrow> None | y # _ \<Rightarrow> Some (r_sha y))"
proof -
  from assms(1) obtain dt as bs where d: "derivation r dt now as bs" by (rule build_reportE)
  obtain i where i: "i < length (rep_intents r)" "rep_intents r ! i = x" "bs ! i = a"
    using report_entry [OF d assms(3) assms(2) assms(4)] .
  show ?thesis
    using derivation_assessments [OF d] derivation_nth(4,5,6) [OF d i(1)]
      derivation_control(2,3) [OF d i(1)] derivation_nth(3) [OF d i(1)] i
    by auto
qed

lemma receipts_replay_exact_witness:
  "as_decision replay_assessment = ''replay'' \<and> as_accepted replay_assessment = Some (r_sha replay_result)"
proof -
  have "accepted_results [replay_result] sample_intent = [replay_result]"
    by (simp add: accepted_results_def replay_result_def result_is_accepted_def)
  with receipts_replay_exact [OF replay_build, of sample_intent replay_assessment] show ?thesis
    by (simp add: replay_report_def sample_report_def replay_assessment_def)
qed

text \<open>
  An accepted report is complete exactly when every intent is \<^verbatim>\<open>ready\<close> or \<^verbatim>\<open>replay\<close>, none needs
  compensation and none has a provider failure; the decision counts of the summary add up to the
  number of intents.
\<close>

lemma receipts_status:
  assumes "build_mutation_receipts_report v now = Inr r"
  shows "(s_status (summarize (rep_targets r) (rep_intents r) (rep_results r) (rep_assessments r)) = ''complete'' \<longleftrightarrow>
      list_all (\<lambda>a. as_decision a \<in> {''ready'', ''replay''} \<and> \<not> as_compensation a
        \<and> ''provider_failure'' \<notin> set (as_reasons a)) (rep_assessments r)) \<and>
    sum_list (map snd (s_decisions
      (summarize (rep_targets r) (rep_intents r) (rep_results r) (rep_assessments r))))
      = length (rep_intents r)"
proof -
  from assms obtain dt as bs where d: "derivation r dt now as bs" by (rule build_reportE)
  note dec = derivation_decisions [OF d]
  have "length (rep_assessments r) = length (rep_intents r)"
    using derivation_assessments [OF d] by (metis length_map)
  moreover have "as_decision a \<notin> {''conflict'', ''expired'', ''denied'', ''unverifiable'', ''blocked_by_chain''}
      \<longleftrightarrow> as_decision a \<in> {''ready'', ''replay''}" if "a \<in> set (rep_assessments r)" for a
    using dec that by (auto simp: list_all_iff DECISIONS_def)
  ultimately show ?thesis
    unfolding status_complete decision_counts [OF dec] by (simp add: list_all_iff)
qed

lemma receipts_status_witness:
  "s_status (summarize [sample_target] [sample_intent] [] [sample_assessment]) = ''complete''"
  using receipts_status [OF sample_build] by (simp add: sample_report_def sample_assessment_def)

text \<open>
  Building a report raises nothing but \<^verbatim>\<open>RecoveryError\<close>, or \<^verbatim>\<open>OverflowError\<close> when a date leaves the
  years 1 to 9999: no lookup fails, whatever the input.
\<close>

lemma receipts_errors: "refuses (build_mutation_receipts_report v now)"
  by (rule mutation.build_refuses)

text \<open>
  C17. What an accepted report holds is well formed: every timestamp canonical, every enumerated field
  in its vocabulary, every identity, intent and result unique and in order, every result matched to
  its intent, and the digests of policy, chains, intents and results those of their canonical contents.
\<close>

theorem receipts_well_formed:
  assumes "build_mutation_receipts_report v now = Inr r"
  shows "wf_report r"
  using assms by (rule build_reportE) (simp add: derivation_def)

lemma receipts_well_formed_witness: "wf_report sample_report"
  by (rule receipts_well_formed [OF sample_build])

section \<open>Overwritten decisions\<close>

text \<open>
  A revoked authorisation is not always reported as \<^verbatim>\<open>denied\<close>: a later check overwrites the decision,
  here the lease.
\<close>

lemma missing_lease_masks_denial:
  assumes "assess_target p now x t st = Inr st'" and "i_lease x = None"
  shows "snd st' = ''conflict''"
  using assms by (auto simp: assess_target_def Let_def assess_lease_def bindE_eq_Inr_iff split: option.splits)

end
