(* ===== verification/SourceCoverage.thy ===== *)
theory SourceCoverage
  imports DerivedReport
begin

text \<open>
  \<^verbatim>\<open>src/tools/artifact_recovery/source_coverage.py\<close>: receipts of what each source delivered to a
  nightly recovery run. A receipt that claims to be complete is downgraded when its pagination did
  not finish or its watermark is too old, and the report is complete only when every required
  source is.

  The strict scalars the module repeats (\<^verbatim>\<open>_strict_object\<close>, \<^verbatim>\<open>_parse_datetime\<close>, \<^verbatim>\<open>_expect_sha256\<close>,
  \<^verbatim>\<open>_optional_sha256\<close>) are those of the mutation contract. \<^verbatim>\<open>build_example_source_coverage\<close> builds a
  fixture for the tests and is not modelled.
\<close>

definition COVERAGE_SCHEMA :: string where "COVERAGE_SCHEMA = ''artifact_recovery_source_coverage.v1''"

definition SUPPORTED_SOURCES :: "string list" where
  "SUPPORTED_SOURCES = [''chatgpt'', ''claude'', ''linear'', ''github'', ''local_repo'', ''file_library'',
     ''conversation'']"

definition SUPPORTED_STATES :: "string list" where
  "SUPPORTED_STATES = [''complete'', ''partial'', ''unavailable'', ''unauthorized'', ''stale'',
     ''not_configured'', ''excluded'']"

definition ERROR_CLASSES :: "string list" where
  "ERROR_CLASSES = [''authorization'', ''availability'', ''clock_skew'', ''pagination'', ''rate_limited'',
     ''stale_watermark'', ''validation'']"

definition MAX_SOURCES :: nat where "MAX_SOURCES = 32"
definition MAX_AGE_SECONDS :: int where "MAX_AGE_SECONDS = 31 * 24 * 60 * 60"
definition COVERAGE_CLOCK_SKEW :: int where "COVERAGE_CLOCK_SKEW = 60 * 60"

definition expect_int_opt :: "json \<Rightarrow> string \<Rightarrow> int \<Rightarrow> int option \<Rightarrow> int result" where
  "expect_int_opt v field lo maximum = (case v of
      JInt i \<Rightarrow>
        bindE (require (lo \<le> i) (field @ '' must be at least '' @ str_int lo)) (\<lambda>_.
        (case maximum of
           None \<Rightarrow> Inr i
         | Some hi \<Rightarrow> bindE (require (i \<le> hi) (field @ '' must be at most '' @ str_int hi)) (\<lambda>_. Inr i)))
    | _ \<Rightarrow> Inl (Err (field @ '' must be an integer'')))"

section \<open>Policy\<close>

definition normalize_sources :: "json \<Rightarrow> string \<Rightarrow> string list result" where
  "normalize_sources v field =
     bindE (expect_list v field MAX_SOURCES) (\<lambda>raw.
     bindE (mapE (\<lambda>(i, s). one_of s (index_field field i) 32 SUPPORTED_SOURCES) (enumerate 0 raw)) (\<lambda>sources.
     bindE (require (distinct sources) (field @ '' contains duplicate sources'')) (\<lambda>_.
     Inr (sort sources))))"

record coverage_policy =
  cp_required :: "string list"
  cp_optional :: "string list"
  cp_skew :: int

definition coverage_policy_json :: "coverage_policy \<Rightarrow> json" where
  "coverage_policy_json p = JObj [(''required_sources'', JArr (map JStr (cp_required p))),
     (''optional_sources'', JArr (map JStr (cp_optional p))),
     (''max_clock_skew_seconds'', JInt (cp_skew p))]"

definition normalize_coverage_policy :: "json \<Rightarrow> coverage_policy result" where
  "normalize_coverage_policy v =
     bindE (strict_object v ''policy'' [''required_sources'', ''optional_sources'', ''max_clock_skew_seconds'']) (\<lambda>d.
     bindE (normalize_sources (dict_get d ''required_sources'') ''policy.required_sources'') (\<lambda>required.
     bindE (normalize_sources (dict_get_default d ''optional_sources'' (JArr [])) ''policy.optional_sources'') (\<lambda>optional.
     (let overlap = sort (filter (\<lambda>s. s \<in> set optional) required) in
     bindE (require (overlap = []) (''policy source sets overlap: '' @ repr_str_list overlap)) (\<lambda>_.
     bindE (require (required \<noteq> []) ''policy.required_sources must not be empty'') (\<lambda>_.
     bindE (expect_int_opt (dict_get_default d ''max_clock_skew_seconds'' (JInt 300))
       ''policy.max_clock_skew_seconds'' 0 (Some COVERAGE_CLOCK_SKEW)) (\<lambda>skew.
     Inr \<lparr>cp_required = required, cp_optional = optional, cp_skew = skew\<rparr>)))))))"

section \<open>Receipts\<close>

record pagination =
  pg_started :: bool
  pg_complete :: bool
  pg_last_page :: bool
  pg_pages :: int
  pg_items :: int
  pg_cursor :: "string option"

record receipt =
  cr_source :: string
  cr_identity :: string
  cr_capability :: string
  cr_window_start :: string
  cr_window_end :: string
  cr_captured_at :: string
  cr_watermark_at :: string
  cr_max_age :: int
  cr_age :: int
  cr_pagination :: pagination
  cr_reported :: string
  cr_state :: string
  cr_error :: "string option"
  cr_retryable :: bool

definition pagination_json :: "pagination \<Rightarrow> json" where
  "pagination_json g = JObj [(''started'', JBool (pg_started g)), (''complete'', JBool (pg_complete g)),
     (''last_page_complete'', JBool (pg_last_page g)), (''pages_read'', JInt (pg_pages g)),
     (''items_read'', JInt (pg_items g)), (''terminal_cursor_sha256'', opt_str (pg_cursor g))]"

definition receipt_json :: "receipt \<Rightarrow> json" where
  "receipt_json r = JObj [(''source'', JStr (cr_source r)), (''source_identity_sha256'', JStr (cr_identity r)),
     (''capability_sha256'', JStr (cr_capability r)),
     (''window'', JObj [(''start'', JStr (cr_window_start r)), (''end'', JStr (cr_window_end r))]),
     (''captured_at'', JStr (cr_captured_at r)),
     (''freshness'', JObj [(''watermark_at'', JStr (cr_watermark_at r)),
        (''max_age_seconds'', JInt (cr_max_age r)), (''age_seconds'', JInt (cr_age r))]),
     (''pagination'', pagination_json (cr_pagination r)), (''reported_state'', JStr (cr_reported r)),
     (''state'', JStr (cr_state r)), (''error_class'', opt_str (cr_error r)),
     (''retryable'', JBool (cr_retryable r))]"

definition receipt_keys :: "string list" where
  "receipt_keys = [''source'', ''source_identity_sha256'', ''capability_sha256'', ''window'', ''captured_at'',
     ''freshness'', ''pagination'', ''reported_state'', ''state'', ''error_class'', ''retryable'']"

definition check_pagination :: "string \<Rightarrow> pagination \<Rightarrow> unit result" where
  "check_pagination field g =
     bindE (require (\<not> (\<not> pg_started g \<and> (pg_pages g \<noteq> 0 \<or> pg_items g \<noteq> 0)))
       (field @ ''.pagination cannot report reads before it starts'')) (\<lambda>_.
     bindE (require (\<not> (pg_complete g \<and> \<not> pg_started g))
       (field @ ''.pagination cannot complete before it starts'')) (\<lambda>_.
     bindE (require (\<not> (pg_complete g \<and> pg_pages g < 1))
       (field @ ''.pagination.complete requires at least one page'')) (\<lambda>_.
     require (\<not> (0 < pg_items g \<and> pg_pages g < 1))
       (field @ ''.pagination.items_read requires at least one page''))))"

definition normalize_pagination :: "json \<Rightarrow> string \<Rightarrow> pagination result" where
  "normalize_pagination v field =
     bindE (strict_object v (field @ ''.pagination'') [''started'', ''complete'', ''last_page_complete'',
       ''pages_read'', ''items_read'', ''terminal_cursor_sha256'']) (\<lambda>d.
     bindE (expect_bool (dict_get d ''started'') (field @ ''.pagination.started'')) (\<lambda>started.
     bindE (expect_bool (dict_get d ''complete'') (field @ ''.pagination.complete'')) (\<lambda>complete.
     bindE (expect_bool (dict_get d ''last_page_complete'') (field @ ''.pagination.last_page_complete'')) (\<lambda>last_page.
     bindE (expect_int_opt (dict_get d ''pages_read'') (field @ ''.pagination.pages_read'') 0 None) (\<lambda>pages.
     bindE (expect_int_opt (dict_get d ''items_read'') (field @ ''.pagination.items_read'') 0 None) (\<lambda>items.
     bindE (optional_sha256 (dict_get d ''terminal_cursor_sha256'') (field @ ''.pagination.terminal_cursor_sha256'')) (\<lambda>cursor.
     (let g = \<lparr>pg_started = started, pg_complete = complete, pg_last_page = last_page, pg_pages = pages,
        pg_items = items, pg_cursor = cursor\<rparr> in
      bindE (check_pagination field g) (\<lambda>_. Inr g)))))))))"

text \<open>The state a receipt is given: a claim of completeness that does not hold is downgraded.\<close>

definition effective_state :: "string \<Rightarrow> pagination \<Rightarrow> int \<Rightarrow> int \<Rightarrow> string option \<Rightarrow> string \<times> string option" where
  "effective_state reported g age max_age error =
     (if reported = ''complete'' then
        (if \<not> pg_started g \<or> \<not> pg_complete g \<or> \<not> pg_last_page g then (''partial'', Some ''pagination'')
         else if max_age < age then (''stale'', Some ''stale_watermark'')
         else (reported, error))
      else (reported, error))"

text \<open>The error class that goes with the state.\<close>

definition settle_error :: "string \<Rightarrow> pagination \<Rightarrow> string \<Rightarrow> string option \<Rightarrow> string option result" where
  "settle_error field g state error =
     bindE (require (\<not> (state = ''unauthorized'' \<and> error \<noteq> None \<and> error \<noteq> Some ''authorization''))
       (field @ ''.error_class conflicts with unauthorized state'')) (\<lambda>_.
     (let error1 = (if state = ''unauthorized'' then Some ''authorization'' else error);
          error2 = (if state = ''unavailable'' \<and> error1 = None then Some ''availability'' else error1);
          error3 = (if state = ''partial'' \<and> error2 = None then Some ''pagination'' else error2);
          error4 = (if state = ''stale'' then Some ''stale_watermark'' else error3) in
     bindE (require (\<not> (state = ''complete'' \<and> error4 \<noteq> None))
       (field @ ''.error_class must be null for complete state'')) (\<lambda>_.
     bindE (require (\<not> (state \<in> {''not_configured'', ''excluded''} \<and>
         (pg_started g \<or> pg_pages g \<noteq> 0 \<or> pg_items g \<noteq> 0 \<or> error4 \<noteq> None)))
       (field @ '' cannot collect or fail when state is '' @ state)) (\<lambda>_. Inr error4))))"

definition optional_name :: "json \<Rightarrow> string \<Rightarrow> nat \<Rightarrow> string list \<Rightarrow> string option result" where
  "optional_name v field maximum names = (if v = JNull then Inr None
     else bindE (one_of v field maximum names) (\<lambda>s. Inr (Some s)))"

definition check_provided_age :: "string \<Rightarrow> json \<Rightarrow> int \<Rightarrow> unit result" where
  "check_provided_age field v age = (if v = JNull then Inr () else
     bindE (expect_int_opt v (field @ ''.freshness.age_seconds'') 0 None) (\<lambda>i.
     require (i = age) (field @ ''.freshness.age_seconds does not match the watermark'')))"

definition normalize_receipt :: "datetime \<Rightarrow> int \<Rightarrow> nat \<times> json \<Rightarrow> receipt result" where
  "normalize_receipt generated_dt skew iv = (case iv of (i, v) \<Rightarrow> (let field = index_field ''receipts'' i in
     bindE (strict_object v field receipt_keys) (\<lambda>d.
     bindE (one_of (dict_get d ''source'') (field @ ''.source'') 32 SUPPORTED_SOURCES) (\<lambda>source.
     bindE (expect_sha256 (dict_get d ''source_identity_sha256'') (field @ ''.source_identity_sha256'')) (\<lambda>identity.
     bindE (expect_sha256 (dict_get d ''capability_sha256'') (field @ ''.capability_sha256'')) (\<lambda>capability.
     bindE (strict_object (dict_get d ''window'') (field @ ''.window'') [''start'', ''end'']) (\<lambda>window.
     bindE (parse_datetime (dict_get window ''start'') (field @ ''.window.start'')) (\<lambda>(window_start, start_dt).
     bindE (parse_datetime (dict_get window ''end'') (field @ ''.window.end'')) (\<lambda>(window_end, end_dt).
     bindE (require (instant start_dt \<le> instant end_dt)
       (field @ ''.window.start must not be after window.end'')) (\<lambda>_.
     bindE (parse_datetime (dict_get d ''captured_at'') (field @ ''.captured_at'')) (\<lambda>(captured_at, captured_dt).
     bindE (shifted generated_dt skew) (\<lambda>capture_limit.
     bindE (require (instant captured_dt \<le> capture_limit)
       (field @ ''.captured_at is beyond the allowed clock skew'')) (\<lambda>_.
     bindE (shifted captured_dt skew) (\<lambda>read_limit.
     bindE (require (instant end_dt \<le> read_limit) (field @ ''.window.end is after captured_at'')) (\<lambda>_.
     bindE (strict_object (dict_get d ''freshness'') (field @ ''.freshness'')
       [''watermark_at'', ''max_age_seconds'', ''age_seconds'']) (\<lambda>freshness.
     bindE (parse_datetime (dict_get freshness ''watermark_at'') (field @ ''.freshness.watermark_at''))
       (\<lambda>(watermark_at, watermark_dt).
     bindE (require (instant watermark_dt \<le> read_limit)
       (field @ ''.freshness.watermark_at is after captured_at'')) (\<lambda>_.
     bindE (expect_int_opt (dict_get freshness ''max_age_seconds'') (field @ ''.freshness.max_age_seconds'') 1
       (Some MAX_AGE_SECONDS)) (\<lambda>max_age.
     (let raw_age = whole_seconds (instant generated_dt - instant watermark_dt); age = max 0 raw_age in
     bindE (require (- skew \<le> raw_age)
       (field @ ''.freshness.watermark_at is beyond the allowed clock skew'')) (\<lambda>_.
     bindE (check_provided_age field (dict_get freshness ''age_seconds'') age) (\<lambda>_.
     bindE (normalize_pagination (dict_get d ''pagination'') field) (\<lambda>g.
     bindE (one_of (dict_get d ''reported_state'') (field @ ''.reported_state'') 32 SUPPORTED_STATES) (\<lambda>reported.
     bindE (optional_name (dict_get d ''error_class'') (field @ ''.error_class'') 32 ERROR_CLASSES) (\<lambda>error.
     bindE (expect_bool (dict_get_default d ''retryable'' (JBool False)) (field @ ''.retryable'')) (\<lambda>retryable.
     (case effective_state reported g age max_age error of (state, error1) \<Rightarrow>
     bindE (settle_error field g state error1) (\<lambda>error2.
     bindE (require (dict_get d ''state'' \<in> {JNull, JStr state})
       (field @ ''.state does not match the derived state '' @ state)) (\<lambda>_.
     (let r = \<lparr>cr_source = source, cr_identity = identity, cr_capability = capability,
        cr_window_start = window_start, cr_window_end = window_end, cr_captured_at = captured_at,
        cr_watermark_at = watermark_at, cr_max_age = max_age, cr_age = age, cr_pagination = g,
        cr_reported = reported, cr_state = state, cr_error = error2, cr_retryable = retryable\<rparr> in
     bindE (validate_public_safety (receipt_json r)) (\<lambda>_. Inr r)))))))))))))))))))))))))))))))"

section \<open>The report\<close>

record coverage_report =
  cv_generated_at :: string
  cv_policy :: coverage_policy
  cv_receipts :: "receipt list"

text \<open>Every policy source has a receipt, so the state of a source without one is never asked for.\<close>

definition source_state :: "receipt list \<Rightarrow> string \<Rightarrow> string" where
  "source_state rs s = (case by_key cr_source rs s of None \<Rightarrow> [] | Some r \<Rightarrow> cr_state r)"

definition blocked_states :: "string list" where
  "blocked_states = [''unauthorized'', ''not_configured'', ''excluded'']"

definition partial_states :: "string list" where
  "partial_states = [''partial'', ''unavailable'', ''stale'']"

definition sources_in :: "receipt list \<Rightarrow> string list \<Rightarrow> string list \<Rightarrow> string list" where
  "sources_in rs names states = sort (filter (\<lambda>s. source_state rs s \<in> set states) names)"

definition coverage_status :: "coverage_policy \<Rightarrow> receipt list \<Rightarrow> string" where
  "coverage_status p rs =
     (if sources_in rs (cp_required p) blocked_states \<noteq> [] then ''blocked''
      else if sources_in rs (cp_required p) partial_states \<noteq> [] then ''partial''
      else ''complete'')"

definition coverage_summary :: "coverage_report \<Rightarrow> json" where
  "coverage_summary r = (let p = cv_policy r; rs = cv_receipts r; status = coverage_status p rs in
     JObj [(''status'', JStr status), (''complete'', JBool (status = ''complete'')),
       (''required_sources'', JInt (int (length (cp_required p)))),
       (''optional_sources'', JInt (int (length (cp_optional p)))),
       (''complete_sources'', JArr (map JStr (sources_in rs (map cr_source rs) [''complete'']))),
       (''partial_sources'', JArr (map JStr (sources_in rs (cp_required p) partial_states))),
       (''blocked_sources'', JArr (map JStr (sources_in rs (cp_required p) blocked_states))),
       (''source_states'', JObj (map (\<lambda>s. (s, JStr (source_state rs s))) (sort (map cr_source rs))))])"

definition coverage_material :: "coverage_report \<Rightarrow> pydict" where
  "coverage_material r = [(''schema_version'', JStr COVERAGE_SCHEMA), (''generated_at'', JStr (cv_generated_at r)),
     (''policy'', coverage_policy_json (cv_policy r)), (''receipts'', JArr (map receipt_json (cv_receipts r))),
     (''summary'', coverage_summary r)]"

definition coverage_dict :: "coverage_report \<Rightarrow> pydict" where
  "coverage_dict r = coverage_material r @
     [(''report_sha256'', JStr (sha256_value (JObj (coverage_material r))))]"

definition coverage_keys :: "string list" where
  "coverage_keys = [''schema_version'', ''generated_at'', ''policy'', ''receipts'', ''summary'', ''report_sha256'']"

definition check_coverage_now :: "datetime \<Rightarrow> string option \<Rightarrow> unit result" where
  "check_coverage_now generated_dt now = (case now of
      None \<Rightarrow> Inr ()
    | Some n \<Rightarrow>
        bindE (parse_datetime (JStr n) ''--now'') (\<lambda>(_, now_dt).
        bindE (shifted now_dt COVERAGE_CLOCK_SKEW) (\<lambda>limit.
        require (instant generated_dt \<le> limit) ''generated_at is beyond the allowed clock skew'')))"

definition minus_sorted :: "string list \<Rightarrow> string list \<Rightarrow> string list" where
  "minus_sorted xs ys = sort (remdups (filter (\<lambda>s. s \<notin> set ys) xs))"

definition derive_coverage :: "pydict \<Rightarrow> string option \<Rightarrow> coverage_report result" where
  "derive_coverage root now =
     bindE (require (dict_get root ''schema_version'' = JStr COVERAGE_SCHEMA)
       (''schema_version must be '' @ COVERAGE_SCHEMA)) (\<lambda>_.
     bindE (parse_datetime (dict_get root ''generated_at'') ''generated_at'') (\<lambda>(generated_at, generated_dt).
     bindE (check_coverage_now generated_dt now) (\<lambda>_.
     bindE (normalize_coverage_policy (dict_get root ''policy'')) (\<lambda>p.
     bindE (expect_list (dict_get root ''receipts'') ''receipts'' MAX_SOURCES) (\<lambda>raw.
     bindE (mapE (normalize_receipt generated_dt (cp_skew p)) (enumerate 0 raw)) (\<lambda>receipts.
     (let names = map cr_source receipts; expected = cp_required p @ cp_optional p;
          missing = minus_sorted expected names; unexpected = minus_sorted names expected in
     bindE (require (distinct names) ''receipts contain duplicate sources'') (\<lambda>_.
     bindE (require (missing = []) (''receipts are missing policy sources: '' @ repr_str_list missing)) (\<lambda>_.
     bindE (require (unexpected = [])
       (''receipts contain sources outside policy: '' @ repr_str_list unexpected)) (\<lambda>_.
     Inr \<lparr>cv_generated_at = generated_at, cv_policy = p, cv_receipts = sort_key cr_source receipts\<rparr>))))))))))"

definition coverage_fields :: "coverage_report \<Rightarrow> (string \<times> json) list" where
  "coverage_fields r = [(''summary'', coverage_summary r),
     (''report_sha256'', JStr (sha256_value (JObj (coverage_material r))))]"

definition coverage_message :: "string \<Rightarrow> string" where
  "coverage_message field = (if field = ''summary'' then ''summary does not match normalized receipts''
     else ''report_sha256 does not match canonical report'')"

definition build_source_coverage_report :: "json \<Rightarrow> string option \<Rightarrow> coverage_report result" where
  "build_source_coverage_report v now =
     bindE (strict_object v ''$'' coverage_keys) (\<lambda>root.
     bindE (derive_coverage root now) (\<lambda>r.
     bindE (foldE (\<lambda>_. check_field coverage_message root) () (coverage_fields r)) (\<lambda>_.
     bindE (validate_public_safety (JObj (coverage_dict r))) (\<lambda>_. Inr r))))"

section \<open>Well-formed receipts and their round trips\<close>

lemma expect_int_opt_iff [simp]:
  "expect_int_opt v field lo maximum = Inr i \<longleftrightarrow>
     v = JInt i \<and> lo \<le> i \<and> (case maximum of None \<Rightarrow> True | Some hi \<Rightarrow> i \<le> hi)"
  by (auto simp: expect_int_opt_def bindE_eq_Inr_iff split: json.splits option.splits)

definition opt_name :: "nat \<Rightarrow> string list \<Rightarrow> string option \<Rightarrow> bool" where
  "opt_name maximum names x = (case x of None \<Rightarrow> True | Some s \<Rightarrow> names_one maximum names s)"

lemma optional_name_iff [simp]:
  "optional_name v field maximum names = Inr x \<longleftrightarrow> v = opt_str x \<and> opt_name maximum names x"
  by (cases x) (auto simp: optional_name_def opt_name_def bindE_eq_Inr_iff)

lemma coverage_scalar_returns [simp]:
  "lo \<le> i \<Longrightarrow> i \<le> hi \<Longrightarrow> expect_int_opt (JInt i) field lo (Some hi) = Inr i"
  "lo \<le> i \<Longrightarrow> expect_int_opt (JInt i) field lo None = Inr i"
  "opt_name maximum names x \<Longrightarrow> optional_name (opt_str x) field maximum names = Inr x"
  by simp_all

definition wf_pagination :: "pagination \<Rightarrow> bool" where
  "wf_pagination g \<longleftrightarrow> 0 \<le> pg_pages g \<and> 0 \<le> pg_items g \<and> opt_sha (pg_cursor g)
     \<and> (\<not> pg_started g \<longrightarrow> pg_pages g = 0 \<and> pg_items g = 0 \<and> \<not> pg_complete g)
     \<and> (pg_complete g \<longrightarrow> 1 \<le> pg_pages g) \<and> (0 < pg_items g \<longrightarrow> 1 \<le> pg_pages g)"

lemma check_pagination_iff: "check_pagination field g = Inr () \<longleftrightarrow>
    (\<not> pg_started g \<longrightarrow> pg_pages g = 0 \<and> pg_items g = 0 \<and> \<not> pg_complete g)
     \<and> (pg_complete g \<longrightarrow> 1 \<le> pg_pages g) \<and> (0 < pg_items g \<longrightarrow> 1 \<le> pg_pages g)"
  by (auto simp: check_pagination_def bindE_eq_Inr_iff)

lemma normalize_pagination_wf: "normalize_pagination v field = Inr g \<Longrightarrow> wf_pagination g"
  unfolding normalize_pagination_def Let_def
  by (elim bindE_InrE) (auto simp: wf_pagination_def check_pagination_iff)

lemma normalize_pagination_json: "wf_pagination g \<Longrightarrow> normalize_pagination (pagination_json g) field = Inr g"
  by (simp add: normalize_pagination_def pagination_json_def Let_def dict_keys_def wf_pagination_def
      check_pagination_iff bindE_eq_Inr_iff)

lemma error_names: "names_one 32 ERROR_CLASSES e"
  if "e \<in> {''authorization'', ''availability'', ''pagination'', ''stale_watermark''}"
proof -
  have "list_all (names_one 32 ERROR_CLASSES) [''authorization'', ''availability'', ''pagination'', ''stale_watermark'']"
    by code_simp
  with that show ?thesis by auto
qed

text \<open>The state and error class of a receipt are a fixed point of their own derivation.\<close>

definition settled :: "receipt \<Rightarrow> bool" where
  "settled r \<longleftrightarrow> (\<forall>field. \<exists>e. effective_state (cr_reported r) (cr_pagination r) (cr_age r) (cr_max_age r) (cr_error r)
       = (cr_state r, e) \<and> settle_error field (cr_pagination r) (cr_state r) e = Inr (cr_error r))"

definition final_error :: "string \<Rightarrow> string option \<Rightarrow> string option" where
  "final_error state error =
     (if state = ''unauthorized'' then Some ''authorization''
      else if state = ''stale'' then Some ''stale_watermark''
      else if error \<noteq> None then error
      else if state = ''unavailable'' then Some ''availability''
      else if state = ''partial'' then Some ''pagination'' else None)"

definition error_allowed :: "pagination \<Rightarrow> string \<Rightarrow> string option \<Rightarrow> bool" where
  "error_allowed g state e \<longleftrightarrow> (state = ''complete'' \<longrightarrow> e = None) \<and>
     (state \<in> {''not_configured'', ''excluded''} \<longrightarrow>
        \<not> pg_started g \<and> pg_pages g = 0 \<and> pg_items g = 0 \<and> e = None)"

lemma settle_error_iff:
  "settle_error field g state error = Inr e \<longleftrightarrow>
     (state = ''unauthorized'' \<longrightarrow> error = None \<or> error = Some ''authorization'') \<and>
     e = final_error state error \<and> error_allowed g state e"
proof -
  have "settle_error field g state error = bindE (require (state = ''unauthorized'' \<longrightarrow> error = None \<or> error = Some ''authorization'')
       (field @ ''.error_class conflicts with unauthorized state'')) (\<lambda>_.
     bindE (require (state = ''complete'' \<longrightarrow> final_error state error = None)
       (field @ ''.error_class must be null for complete state'')) (\<lambda>_.
     bindE (require (state \<in> {''not_configured'', ''excluded''} \<longrightarrow>
        \<not> pg_started g \<and> pg_pages g = 0 \<and> pg_items g = 0 \<and> final_error state error = None)
       (field @ '' cannot collect or fail when state is '' @ state)) (\<lambda>_. Inr (final_error state error))))"
    unfolding settle_error_def Let_def final_error_def
    by (intro arg_cong2 [where f = bindE] ext arg_cong2 [where f = require] refl) auto
  then show ?thesis by (auto simp: bindE_eq_Inr_iff error_allowed_def)
qed

lemma final_error_again: "final_error state (final_error state error) = final_error state error"
  by (simp add: final_error_def)

lemma final_error_name: "opt_name 32 ERROR_CLASSES error \<Longrightarrow> opt_name 32 ERROR_CLASSES (final_error state error)"
  by (simp add: final_error_def opt_name_def error_names)

lemma settled_intro:
  assumes "effective_state reported g age max_age error = (state, e1)" and "settle_error field g state e1 = Inr e2"
  shows "\<exists>e. effective_state reported g age max_age e2 = (state, e) \<and> settle_error field' g state e = Inr e2"
proof (cases "reported = ''complete'' \<and> (\<not> (pg_started g \<and> pg_complete g \<and> pg_last_page g) \<or> max_age < age)")
  case True
  then have "effective_state reported g age max_age e2 = effective_state reported g age max_age error"
    by (auto simp: effective_state_def)
  with assms show ?thesis by (auto simp: settle_error_iff)
next
  case False
  then have eff: "effective_state reported g age max_age e = (reported, e)" for e
    by (auto simp: effective_state_def)
  then have "state = reported" "e1 = error" using assms(1) by simp_all
  with assms(2) have e: "e2 = final_error reported error" "error_allowed g reported e2"
    by (auto simp: settle_error_iff)
  then have "final_error reported e2 = e2" by (simp add: final_error_again)
  moreover have "reported = ''unauthorized'' \<longrightarrow> e2 = Some ''authorization''"
    by (simp add: e(1) final_error_def)
  ultimately have "settle_error field' g reported e2 = Inr e2"
    using e(2) by (simp add: settle_error_iff)
  with eff \<open>state = reported\<close> show ?thesis by blast
qed


text \<open>The times of a receipt, against the time of the report.\<close>

definition wf_times :: "datetime \<Rightarrow> int \<Rightarrow> receipt \<Rightarrow> bool" where
  "wf_times generated_dt skew r \<longleftrightarrow> (\<exists>s e c w m n.
     stamp (cr_window_start r) s \<and> stamp (cr_window_end r) e \<and> stamp (cr_captured_at r) c \<and>
     stamp (cr_watermark_at r) w \<and> shifted generated_dt skew = Inr m \<and> shifted c skew = Inr n \<and>
     instant s \<le> instant e \<and> instant c \<le> m \<and> instant e \<le> n \<and> instant w \<le> n \<and>
     - skew \<le> whole_seconds (instant generated_dt - instant w) \<and>
     max 0 (whole_seconds (instant generated_dt - instant w)) = cr_age r)"

definition wf_receipt :: "datetime \<Rightarrow> int \<Rightarrow> receipt \<Rightarrow> bool" where
  "wf_receipt generated_dt skew r \<longleftrightarrow> names_one 32 SUPPORTED_SOURCES (cr_source r)
     \<and> is_sha256_text (cr_identity r) \<and> is_sha256_text (cr_capability r)
     \<and> wf_times generated_dt skew r \<and> 1 \<le> cr_max_age r \<and> cr_max_age r \<le> MAX_AGE_SECONDS
     \<and> wf_pagination (cr_pagination r) \<and> names_one 32 SUPPORTED_STATES (cr_reported r)
     \<and> opt_name 32 ERROR_CLASSES (cr_error r) \<and> settled r
     \<and> validate_public_safety (receipt_json r) = Inr ()"

lemma check_provided_age_iff:
  "check_provided_age field v age = Inr () \<longleftrightarrow> v = JNull \<or> (0 \<le> age \<and> v = JInt age)"
  by (auto simp: check_provided_age_def bindE_eq_Inr_iff)

lemma effective_error_name:
  "effective_state reported g age max_age error = (state, e) \<Longrightarrow> opt_name 32 ERROR_CLASSES error \<Longrightarrow>
     opt_name 32 ERROR_CLASSES e"
  by (auto simp: effective_state_def opt_name_def error_names split: if_splits)

lemma normalize_receipt_wf:
  assumes "normalize_receipt generated_dt skew iv = Inr r"
  shows "wf_receipt generated_dt skew r"
proof -
  obtain i v where iv: "iv = (i, v)" by (cases iv)
  define field where "field = index_field ''receipts'' i"
  from assms obtain d window ws sdt we edt cap cdt m n fresh wm wdt mx g rep err ret st e1 e2 src ident capa where
    *: "names_one 32 SUPPORTED_SOURCES src" "is_sha256_text ident" "is_sha256_text capa"
      "stamp ws sdt" "stamp we edt" "instant sdt \<le> instant edt" "stamp cap cdt"
      "shifted generated_dt skew = Inr m" "instant cdt \<le> m" "shifted cdt skew = Inr n" "instant edt \<le> n"
      "stamp wm wdt" "instant wdt \<le> n" "1 \<le> mx" "mx \<le> MAX_AGE_SECONDS"
      "- skew \<le> whole_seconds (instant generated_dt - instant wdt)"
      "normalize_pagination (dict_get d ''pagination'') field = Inr g"
      "names_one 32 SUPPORTED_STATES rep" "opt_name 32 ERROR_CLASSES err"
      "effective_state rep g (max 0 (whole_seconds (instant generated_dt - instant wdt))) mx err = (st, e1)"
      "settle_error field g st e1 = Inr e2"
    and r: "r = \<lparr>cr_source = src, cr_identity = ident, cr_capability = capa, cr_window_start = ws,
        cr_window_end = we, cr_captured_at = cap, cr_watermark_at = wm, cr_max_age = mx,
        cr_age = max 0 (whole_seconds (instant generated_dt - instant wdt)), cr_pagination = g,
        cr_reported = rep, cr_state = st, cr_error = e2, cr_retryable = ret\<rparr>"
    and safe: "validate_public_safety (receipt_json r) = Inr ()"
    unfolding iv normalize_receipt_def Let_def prod.case field_def
    by (elim bindE_InrE) (auto simp: parse_datetime_iff split: prod.splits elim!: bindE_InrE)
  have "settled r"
    using settled_intro [OF *(20,21)] by (simp add: settled_def r)
  moreover have "opt_name 32 ERROR_CLASSES e2"
    using effective_error_name [OF *(20,19)] *(21) by (simp add: settle_error_iff final_error_name)
  moreover have "wf_times generated_dt skew r"
    unfolding wf_times_def r
    by (rule exI [of _ sdt], rule exI [of _ edt], rule exI [of _ cdt], rule exI [of _ wdt], rule exI [of _ m],
        rule exI [of _ n]) (simp add: *)
  ultimately show ?thesis
    using * safe normalize_pagination_wf [OF *(17)] by (simp add: wf_receipt_def r)
qed

lemma normalize_receipt_json:
  assumes "wf_receipt generated_dt skew r"
  shows "normalize_receipt generated_dt skew (i, receipt_json r) = Inr r"
proof -
  define field where "field = index_field ''receipts'' i"
  note wf = assms [unfolded wf_receipt_def]
  from wf obtain s e c w m n where t: "stamp (cr_window_start r) s" "stamp (cr_window_end r) e"
     "stamp (cr_captured_at r) c" "stamp (cr_watermark_at r) w" "shifted generated_dt skew = Inr m"
     "shifted c skew = Inr n" "instant s \<le> instant e" "instant c \<le> m" "instant e \<le> n" "instant w \<le> n"
     "- skew \<le> whole_seconds (instant generated_dt - instant w)"
     "max 0 (whole_seconds (instant generated_dt - instant w)) = cr_age r"
    by (auto simp: wf_times_def)
  from wf obtain err where err: "effective_state (cr_reported r) (cr_pagination r) (cr_age r) (cr_max_age r) (cr_error r)
      = (cr_state r, err)" "settle_error field (cr_pagination r) (cr_state r) err = Inr (cr_error r)"
    by (auto simp: settled_def)
  have age: "0 \<le> cr_age r" using t(12) by simp
  define d where "d = [(''source'', JStr (cr_source r)), (''source_identity_sha256'', JStr (cr_identity r)),
     (''capability_sha256'', JStr (cr_capability r)),
     (''window'', JObj [(''start'', JStr (cr_window_start r)), (''end'', JStr (cr_window_end r))]),
     (''captured_at'', JStr (cr_captured_at r)),
     (''freshness'', JObj [(''watermark_at'', JStr (cr_watermark_at r)),
        (''max_age_seconds'', JInt (cr_max_age r)), (''age_seconds'', JInt (cr_age r))]),
     (''pagination'', pagination_json (cr_pagination r)), (''reported_state'', JStr (cr_reported r)),
     (''state'', JStr (cr_state r)), (''error_class'', opt_str (cr_error r)),
     (''retryable'', JBool (cr_retryable r))]"
  have json: "receipt_json r = JObj d" by (simp add: receipt_json_def d_def)
  have keys: "set (dict_keys d) \<subseteq> set receipt_keys" by (simp add: d_def dict_keys_def receipt_keys_def)
  have gets: "dict_get d ''source'' = JStr (cr_source r)" "dict_get d ''source_identity_sha256'' = JStr (cr_identity r)"
    "dict_get d ''capability_sha256'' = JStr (cr_capability r)"
    "dict_get d ''window'' = JObj [(''start'', JStr (cr_window_start r)), (''end'', JStr (cr_window_end r))]"
    "dict_get d ''captured_at'' = JStr (cr_captured_at r)"
    "dict_get d ''freshness'' = JObj [(''watermark_at'', JStr (cr_watermark_at r)),
        (''max_age_seconds'', JInt (cr_max_age r)), (''age_seconds'', JInt (cr_age r))]"
    "dict_get d ''pagination'' = pagination_json (cr_pagination r)"
    "dict_get d ''reported_state'' = JStr (cr_reported r)" "dict_get d ''state'' = JStr (cr_state r)"
    "dict_get d ''error_class'' = opt_str (cr_error r)"
    "dict_get_default d ''retryable'' x = JBool (cr_retryable r)" for x
    by (simp_all add: d_def dict_get_default_def)
  have whole: "\<lparr>cr_source = cr_source x, cr_identity = cr_identity x, cr_capability = cr_capability x,
      cr_window_start = cr_window_start x, cr_window_end = cr_window_end x, cr_captured_at = cr_captured_at x,
      cr_watermark_at = cr_watermark_at x, cr_max_age = cr_max_age x, cr_age = cr_age x,
      cr_pagination = cr_pagination x, cr_reported = cr_reported x, cr_state = cr_state x,
      cr_error = cr_error x, cr_retryable = cr_retryable x\<rparr> = x" for x :: receipt
    by (cases x) simp
  have provided: "check_provided_age field (JInt (cr_age r)) (cr_age r) = Inr ()"
    by (simp add: check_provided_age_iff age)
  have parsed: "parse_datetime (JStr (cr_window_start r)) f = Inr (cr_window_start r, s)"
    "parse_datetime (JStr (cr_window_end r)) f = Inr (cr_window_end r, e)"
    "parse_datetime (JStr (cr_captured_at r)) f = Inr (cr_captured_at r, c)"
    "parse_datetime (JStr (cr_watermark_at r)) f = Inr (cr_watermark_at r, w)" for f
    using t(1-4) by simp_all
  show ?thesis
    unfolding normalize_receipt_def prod.case field_def [symmetric] json strict_object_returns [OF keys]
    using wf t(7-11) err
    by (simp add: Let_def gets parsed t(5,6,12) dict_keys_def normalize_pagination_json provided whole)
qed


section \<open>Well-formed reports\<close>

definition wf_sources :: "string list \<Rightarrow> bool" where
  "wf_sources xs \<longleftrightarrow> sorted xs \<and> distinct xs \<and> length xs \<le> MAX_SOURCES \<and>
     list_all (names_one 32 SUPPORTED_SOURCES) xs"

lemma normalize_sources_wf: "normalize_sources v field = Inr xs \<Longrightarrow> wf_sources xs"
  unfolding normalize_sources_def wf_sources_def
  by (elim bindE_InrE) (auto simp: list_all_iff dest: mapE_length mapE_elem)

lemma normalize_sources_json:
  assumes "wf_sources xs"
  shows "normalize_sources (JArr (map JStr xs)) field = Inr xs"
proof -
  have "mapE (\<lambda>(i, s). one_of s (index_field field i) 32 SUPPORTED_SOURCES) (enumerate 0 (map JStr xs)) = Inr xs"
    using assms by (intro mapE_enumerate_json) (simp add: wf_sources_def list_all_iff)
  with assms show ?thesis
    by (simp add: normalize_sources_def wf_sources_def sorted_sort_id)
qed

definition wf_coverage_policy :: "coverage_policy \<Rightarrow> bool" where
  "wf_coverage_policy p \<longleftrightarrow> wf_sources (cp_required p) \<and> wf_sources (cp_optional p) \<and> cp_required p \<noteq> []
     \<and> set (cp_required p) \<inter> set (cp_optional p) = {} \<and> 0 \<le> cp_skew p \<and> cp_skew p \<le> COVERAGE_CLOCK_SKEW"

lemma no_overlap: "sort (filter (\<lambda>s. s \<in> set ys) xs) = [] \<longleftrightarrow> set xs \<inter> set ys = {}"
  by (metis disjoint_iff filter_empty_conv set_empty set_sort)

lemma normalize_coverage_policy_wf: "normalize_coverage_policy v = Inr p \<Longrightarrow> wf_coverage_policy p"
  unfolding normalize_coverage_policy_def Let_def wf_coverage_policy_def
  by (elim bindE_InrE) (auto simp: no_overlap dest: normalize_sources_wf)

lemma normalize_coverage_policy_json:
  assumes "wf_coverage_policy p"
  shows "normalize_coverage_policy (coverage_policy_json p) = Inr p"
  using assms
  by (simp add: normalize_coverage_policy_def coverage_policy_json_def wf_coverage_policy_def Let_def dict_keys_def
      dict_get_default_def normalize_sources_json no_overlap)

definition wf_coverage :: "coverage_report \<Rightarrow> datetime \<Rightarrow> bool" where
  "wf_coverage r dt \<longleftrightarrow> stamp (cv_generated_at r) dt \<and> wf_coverage_policy (cv_policy r)
     \<and> list_all (wf_receipt dt (cp_skew (cv_policy r))) (cv_receipts r) \<and> length (cv_receipts r) \<le> MAX_SOURCES
     \<and> sorted (map cr_source (cv_receipts r)) \<and> distinct (map cr_source (cv_receipts r))
     \<and> cr_source ` set (cv_receipts r) = set (cp_required (cv_policy r)) \<union> set (cp_optional (cv_policy r))"

lemma minus_sorted_empty: "minus_sorted xs ys = [] \<longleftrightarrow> set xs \<subseteq> set ys"
  by (auto simp: minus_sorted_def filter_empty_conv simp flip: set_empty2)

lemma derive_coverage_sound:
  assumes "derive_coverage root now = Inr r"
  obtains dt where "wf_coverage r dt" and "check_coverage_now dt now = Inr ()"
proof -
  from assms obtain generated_at dt p raw rs where
    g: "parse_datetime (dict_get root ''generated_at'') ''generated_at'' = Inr (generated_at, dt)"
    and n: "check_coverage_now dt now = Inr ()"
    and p: "normalize_coverage_policy (dict_get root ''policy'') = Inr p"
    and rs: "mapE (normalize_receipt dt (cp_skew p)) (enumerate 0 raw) = Inr rs" "length raw \<le> MAX_SOURCES"
    and k: "distinct (map cr_source rs)" "minus_sorted (cp_required p @ cp_optional p) (map cr_source rs) = []"
      "minus_sorted (map cr_source rs) (cp_required p @ cp_optional p) = []"
    and r: "r = \<lparr>cv_generated_at = generated_at, cv_policy = p, cv_receipts = sort_key cr_source rs\<rparr>"
    unfolding derive_coverage_def Let_def
    by (elim bindE_InrE) (auto elim!: bindE_InrE split: prod.splits)
  have "list_all (wf_receipt dt (cp_skew p)) rs"
    using mapE_enumerate_elem [OF rs(1)] normalize_receipt_wf by (fastforce simp: list_all_iff)
  moreover have "length rs \<le> MAX_SOURCES" using mapE_length [OF rs(1)] rs(2) by simp
  moreover have "cr_source ` set rs = set (cp_required p) \<union> set (cp_optional p)"
    using k(2,3) by (simp add: minus_sorted_empty set_eq_subset)
  ultimately have "wf_coverage r dt"
    using g normalize_coverage_policy_wf [OF p] k(1)
    by (simp add: wf_coverage_def r parse_datetime_iff list_all_iff distinct_map)
  with n that show thesis by blast
qed

lemma coverage_dict_get:
  "dict_get (coverage_dict r) ''schema_version'' = JStr COVERAGE_SCHEMA"
  "dict_get (coverage_dict r) ''generated_at'' = JStr (cv_generated_at r)"
  "dict_get (coverage_dict r) ''policy'' = coverage_policy_json (cv_policy r)"
  "dict_get (coverage_dict r) ''receipts'' = JArr (map receipt_json (cv_receipts r))"
  by (simp_all add: coverage_dict_def coverage_material_def)

lemma derive_coverage_again:
  assumes "wf_coverage r dt" and "check_coverage_now dt now = Inr ()"
  shows "derive_coverage (coverage_dict r) now = Inr r"
proof -
  note wf = assms(1) [unfolded wf_coverage_def]
  have g: "parse_datetime (JStr (cv_generated_at r)) field = Inr (cv_generated_at r, dt)" for field
    using wf by (intro parse_datetime_stamp) simp
  have rs: "mapE (normalize_receipt dt (cp_skew (cv_policy r))) (enumerate 0 (map receipt_json (cv_receipts r)))
      = Inr (cv_receipts r)"
    using wf by (intro mapE_enumerate_json normalize_receipt_json) (simp add: list_all_iff)
  have "minus_sorted (cp_required (cv_policy r) @ cp_optional (cv_policy r)) (map cr_source (cv_receipts r)) = []"
    "minus_sorted (map cr_source (cv_receipts r)) (cp_required (cv_policy r) @ cp_optional (cv_policy r)) = []"
    using wf by (simp_all add: minus_sorted_empty)
  then show ?thesis
    unfolding derive_coverage_def coverage_dict_get Let_def
    using wf by (simp add: g assms(2) rs normalize_coverage_policy_json sort_key_id_if_sorted)
qed

lemma coverage_field_held:
  assumes "wf_coverage r dt" and fe: "fe \<in> set (coverage_fields r)"
  shows "check_field coverage_message (coverage_dict r) fe = Inr ()"
proof -
  have "distinct (sort (map cr_source (cv_receipts r)))" using assms(1) by (simp add: wf_coverage_def)
  then have "plain (coverage_summary r)"
    by (simp add: coverage_summary_def Let_def list_all_iff comp_def)
  moreover have "map_of (coverage_dict r) ''summary'' = Some (coverage_summary r)"
    "map_of (coverage_dict r) ''report_sha256'' = Some (JStr (sha256_value (JObj (coverage_material r))))"
    by (simp_all add: coverage_dict_def coverage_material_def)
  ultimately show ?thesis
    using fe by (auto simp: coverage_fields_def intro: check_field_held)
qed

section \<open>What the module raises\<close>

lemma refuses_expect_int_opt [refusal_intros]: "refuses (expect_int_opt v field lo maximum)"
  unfolding expect_int_opt_def by (auto intro!: refusal_intros split: json.split option.split)

lemma refuses_coverage_policy [refusal_intros]:
  "refuses (normalize_sources v field)" "refuses (normalize_coverage_policy w)"
  unfolding normalize_coverage_policy_def normalize_sources_def Let_def by (intro refusal_intros)+

lemma refuses_receipt_parts [refusal_intros]:
  "refuses (normalize_pagination v field)" "refuses (settle_error field g state error)"
  "refuses (optional_name v field maximum names)" "refuses (check_provided_age field v age)"
  "refuses (check_coverage_now dt now)"
  unfolding normalize_pagination_def check_pagination_def settle_error_def optional_name_def
    check_provided_age_def check_coverage_now_def Let_def
  by (intro refusal_intros)+

lemma refuses_normalize_receipt [refusal_intros]: "refuses (normalize_receipt dt skew iv)"
  unfolding normalize_receipt_def Let_def by (intro refusal_intros)

lemma refuses_derive_coverage: "refuses (derive_coverage root now)"
  unfolding derive_coverage_def Let_def by (intro refusal_intros)

interpretation coverage: derived_report build_source_coverage_report derive_coverage coverage_dict
  coverage_fields "check_field coverage_message" coverage_keys
proof
  show "derive_coverage (coverage_dict r) now = Inr r" if "derive_coverage root now = Inr r" for root now r
    using that by (rule derive_coverage_sound) (rule derive_coverage_again)
  show "set (dict_keys (coverage_dict r)) \<subseteq> set coverage_keys" for r
    by (simp add: coverage_dict_def coverage_material_def coverage_keys_def dict_keys_def)
  show "check_field coverage_message (coverage_dict r) fe = Inr ()"
    if "derive_coverage root now = Inr r" "fe \<in> set (coverage_fields r)" for root now r fe
    using that by (auto elim: derive_coverage_sound intro: coverage_field_held)
qed (simp_all add: build_source_coverage_report_def refuses_derive_coverage check_field_refuses)

section \<open>What the status says\<close>

text \<open>A source that was read to its end, and whose watermark is fresh at the time of the report.\<close>

definition fully_read :: "datetime \<Rightarrow> receipt \<Rightarrow> bool" where
  "fully_read dt r \<longleftrightarrow> cr_reported r = ''complete'' \<and> pg_started (cr_pagination r) \<and> pg_complete (cr_pagination r)
     \<and> pg_last_page (cr_pagination r)
     \<and> (\<exists>w. stamp (cr_watermark_at r) w \<and> whole_seconds (instant dt - instant w) \<le> cr_max_age r)"

lemma receipt_state:
  assumes "wf_receipt dt skew r"
  shows "cr_state r = ''complete'' \<longleftrightarrow> fully_read dt r"
    and "cr_state r \<in> set blocked_states \<longleftrightarrow> cr_reported r \<in> set blocked_states"
    and "cr_state r = ''complete'' \<or> cr_state r \<in> set blocked_states \<or> cr_state r \<in> set partial_states"
proof -
  from assms obtain e where eff: "effective_state (cr_reported r) (cr_pagination r) (cr_age r) (cr_max_age r)
      (cr_error r) = (cr_state r, e)" by (auto simp: wf_receipt_def settled_def)
  from assms obtain w where w: "stamp (cr_watermark_at r) w" "max 0 (whole_seconds (instant dt - instant w)) = cr_age r"
    by (auto simp: wf_receipt_def wf_times_def)
  have age: "cr_age r \<le> cr_max_age r \<longleftrightarrow>
      (\<exists>w. stamp (cr_watermark_at r) w \<and> whole_seconds (instant dt - instant w) \<le> cr_max_age r)"
  proof -
    have "1 \<le> cr_max_age r" using assms by (simp add: wf_receipt_def)
    with w show ?thesis by (auto dest: stamp_unique)
  qed
  define short where "short = (\<not> (pg_started (cr_pagination r) \<and> pg_complete (cr_pagination r) \<and> pg_last_page (cr_pagination r)))"
  have st: "cr_state r = (if cr_reported r = ''complete'' \<and> short then ''partial''
      else if cr_reported r = ''complete'' \<and> cr_max_age r < cr_age r then ''stale'' else cr_reported r)"
    using eff by (auto simp: effective_state_def short_def split: if_splits)
  then show "cr_state r = ''complete'' \<longleftrightarrow> fully_read dt r"
    by (auto simp: fully_read_def short_def age [symmetric])
  show "cr_state r \<in> set blocked_states \<longleftrightarrow> cr_reported r \<in> set blocked_states"
    by (simp add: st blocked_states_def)
  have "cr_reported r \<in> set SUPPORTED_STATES" using assms by (simp add: wf_receipt_def names_one_def)
  then show "cr_state r = ''complete'' \<or> cr_state r \<in> set blocked_states \<or> cr_state r \<in> set partial_states"
    by (auto simp: st blocked_states_def partial_states_def SUPPORTED_STATES_def)
qed


lemma sources_in_nonempty:
  assumes "wf_coverage r dt" and "set names \<subseteq> cr_source ` set (cv_receipts r)"
  shows "sources_in (cv_receipts r) names states \<noteq> [] \<longleftrightarrow>
    (\<exists>x\<in>set (cv_receipts r). cr_source x \<in> set names \<and> cr_state x \<in> set states)"
proof -
  have state: "source_state (cv_receipts r) (cr_source x) = cr_state x" if "x \<in> set (cv_receipts r)" for x
    using assms(1) that by (simp add: source_state_def by_key_found wf_coverage_def)
  have "sources_in (cv_receipts r) names states \<noteq> [] \<longleftrightarrow>
      (\<exists>s\<in>set names. source_state (cv_receipts r) s \<in> set states)"
    by (auto simp: sources_in_def filter_empty_conv simp flip: set_empty2)
  also have "\<dots> \<longleftrightarrow> (\<exists>x\<in>set (cv_receipts r). cr_source x \<in> set names \<and> cr_state x \<in> set states)"
  proof
    assume "\<exists>s\<in>set names. source_state (cv_receipts r) s \<in> set states"
    then obtain s where "s \<in> set names" "source_state (cv_receipts r) s \<in> set states" by blast
    moreover from this assms(2) obtain x where "x \<in> set (cv_receipts r)" "s = cr_source x" by blast
    ultimately show "\<exists>x\<in>set (cv_receipts r). cr_source x \<in> set names \<and> cr_state x \<in> set states"
      using state by auto
  qed (use state in force)
  finally show ?thesis .
qed

lemma coverage_status_exact:
  assumes wf: "wf_coverage r dt"
  defines "own \<equiv> \<lambda>x. x \<in> set (cv_receipts r) \<and> cr_source x \<in> set (cp_required (cv_policy r))"
  shows "coverage_status (cv_policy r) (cv_receipts r) = ''complete'' \<longleftrightarrow> (\<forall>x. own x \<longrightarrow> fully_read dt x)"
    and "coverage_status (cv_policy r) (cv_receipts r) = ''blocked'' \<longleftrightarrow> (\<exists>x. own x \<and> cr_reported x \<in> set blocked_states)"
proof -
  have "set (cp_required (cv_policy r)) \<subseteq> cr_source ` set (cv_receipts r)"
    using wf by (simp add: wf_coverage_def)
  note found = sources_in_nonempty [OF wf this]
  have state: "(cr_state x = ''complete'' \<longleftrightarrow> fully_read dt x) \<and>
      (cr_state x \<in> set blocked_states \<longleftrightarrow> cr_reported x \<in> set blocked_states) \<and>
      (cr_state x = ''complete'' \<or> cr_state x \<in> set blocked_states \<or> cr_state x \<in> set partial_states)"
    if "own x" for x
    using wf that receipt_state [of dt "cp_skew (cv_policy r)" x]
    by (simp add: wf_coverage_def list_all_iff own_def)
  have apart: "''complete'' \<notin> set blocked_states" "''complete'' \<notin> set partial_states"
    by (simp_all add: blocked_states_def partial_states_def)
  define blocked where "blocked = (\<exists>x. own x \<and> cr_state x \<in> set blocked_states)"
  define partial where "partial = (\<exists>x. own x \<and> cr_state x \<in> set partial_states)"
  have "sources_in (cv_receipts r) (cp_required (cv_policy r)) blocked_states \<noteq> [] \<longleftrightarrow> blocked"
    "sources_in (cv_receipts r) (cp_required (cv_policy r)) partial_states \<noteq> [] \<longleftrightarrow> partial"
    unfolding found by (auto simp: own_def blocked_def partial_def)
  then have status: "coverage_status (cv_policy r) (cv_receipts r) =
      (if blocked then ''blocked'' else if partial then ''partial'' else ''complete'')"
    by (simp add: coverage_status_def)
  have "\<not> blocked \<and> \<not> partial \<longleftrightarrow> (\<forall>x. own x \<longrightarrow> fully_read dt x)"
    unfolding blocked_def partial_def using state apart by metis
  then show "coverage_status (cv_policy r) (cv_receipts r) = ''complete'' \<longleftrightarrow> (\<forall>x. own x \<longrightarrow> fully_read dt x)"
    unfolding status by (cases blocked; cases partial; simp)
  have "blocked \<longleftrightarrow> (\<exists>x. own x \<and> cr_reported x \<in> set blocked_states)"
    unfolding blocked_def using state by blast
  then show "coverage_status (cv_policy r) (cv_receipts r) = ''blocked'' \<longleftrightarrow> (\<exists>x. own x \<and> cr_reported x \<in> set blocked_states)"
    by (simp add: status)
qed

section \<open>A sample report\<close>

definition sample_receipt :: receipt where
  "sample_receipt = \<lparr>cr_source = ''linear'', cr_identity = digest_a, cr_capability = digest_b,
     cr_window_start = timestamp sample_time, cr_window_end = timestamp sample_time,
     cr_captured_at = timestamp sample_time, cr_watermark_at = timestamp sample_time, cr_max_age = 7200,
     cr_age = 0, cr_pagination = \<lparr>pg_started = True, pg_complete = True, pg_last_page = True, pg_pages = 1,
       pg_items = 0, pg_cursor = None\<rparr>,
     cr_reported = ''complete'', cr_state = ''complete'', cr_error = None, cr_retryable = False\<rparr>"

definition sample_coverage :: coverage_report where
  "sample_coverage = \<lparr>cv_generated_at = timestamp sample_time,
     cv_policy = \<lparr>cp_required = [''linear''], cp_optional = [], cp_skew = 300\<rparr>,
     cv_receipts = [sample_receipt]\<rparr>"

lemma sample_stamp: "stamp (timestamp sample_time) sample_time"
  by (simp add: stamp_def sample_time_valid)

lemma coverage_words:
  "publishable ''linear''" "publishable ''complete''" "publishable COVERAGE_SCHEMA" "publishable (timestamp sample_time)"
  "publishable digest_a" "publishable digest_b"
proof -
  show "publishable ''linear''" "publishable ''complete''" "publishable COVERAGE_SCHEMA"
    unfolding COVERAGE_SCHEMA_def by (rule sentence_publishable; simp)+
  show "publishable (timestamp sample_time)" by (rule timestamp_publishable [OF sample_time_valid])
  show "publishable digest_a" "publishable digest_b" by (simp_all add: hex_publishable)
qed

lemma coverage_names: "names_one 32 SUPPORTED_SOURCES ''linear''" "names_one 32 SUPPORTED_STATES ''complete''"
  by code_simp+

lemma sample_receipt_wf: "wf_receipt sample_time 300 sample_receipt"
proof -
  have "shifted sample_time 300 = Inr (instant sample_time + 300000000)"
    by (simp add: shifted_iff min_instant_def max_instant_def usec_per_day_def instant_def ymd2ord_def
        days_before_year_def days_before_month_def days_in_month_def usec_of_day_def sample_time_def)
  then have "wf_times sample_time 300 sample_receipt"
    unfolding wf_times_def using sample_stamp
    by (intro exI [of _ sample_time] exI [of _ "instant sample_time + 300000000"])
      (simp add: sample_receipt_def whole_seconds_def)
  moreover have "settled sample_receipt"
    by (simp add: settled_def sample_receipt_def effective_state_def settle_error_iff final_error_def error_allowed_def)
  moreover have "validate_public_safety (receipt_json sample_receipt) = Inr ()"
    unfolding public_safety_iff
    by (simp add: receipt_json_def sample_receipt_def pagination_json_def coverage_words)
  moreover have "wf_pagination (cr_pagination sample_receipt)"
    by (simp add: wf_pagination_def sample_receipt_def)
  ultimately show ?thesis
    by (simp add: wf_receipt_def, simp add: sample_receipt_def coverage_names MAX_AGE_SECONDS_def opt_name_def)
qed

lemma sample_coverage_wf: "wf_coverage sample_coverage sample_time"
  using sample_receipt_wf sample_stamp
  by (simp add: wf_coverage_def sample_coverage_def wf_coverage_policy_def wf_sources_def MAX_SOURCES_def
      coverage_names COVERAGE_CLOCK_SKEW_def, simp add: sample_receipt_def)

lemma sample_coverage_build:
  "build_source_coverage_report (JObj (coverage_dict sample_coverage)) None = Inr sample_coverage"
proof (rule coverage.rebuild)
  show "derive_coverage (coverage_dict sample_coverage) None = Inr sample_coverage"
    by (rule derive_coverage_again [OF sample_coverage_wf]) (simp add: check_coverage_now_def)
  have state: "source_state [sample_receipt] ''linear'' = ''complete''"
    by (simp add: source_state_def by_key_def sample_receipt_def)
  have sources: "map cr_source [sample_receipt] = [''linear'']" by (simp add: sample_receipt_def)
  have "strings_of (receipt_json sample_receipt) \<subseteq> {s. publishable s}"
    using sample_receipt_wf by (simp add: wf_receipt_def public_safety_iff)
  then show "validate_public_safety (JObj (coverage_dict sample_coverage)) = Inr ()"
    unfolding public_safety_iff
    by (simp add: coverage_dict_def coverage_material_def sample_coverage_def coverage_policy_json_def
        coverage_summary_def Let_def sources_in_def coverage_status_def state sources [simplified]
        blocked_states_def partial_states_def coverage_words hex_publishable)
qed


section \<open>Properties\<close>

text \<open>
  C22. An accepted coverage report has one receipt for each source of its policy and none besides. Its
  status is complete exactly when every required source reported completion, was read to the last
  page and has a watermark no older than its limit at the time of the report; it is blocked exactly
  when some required source was unauthorized, not configured or excluded. Optional sources never
  count.
\<close>

theorem coverage_exact:
  assumes "build_source_coverage_report v now = Inr r"
  shows "\<exists>dt. stamp (cv_generated_at r) dt \<and> distinct (map cr_source (cv_receipts r)) \<and>
    cr_source ` set (cv_receipts r) = set (cp_required (cv_policy r)) \<union> set (cp_optional (cv_policy r)) \<and>
    (coverage_status (cv_policy r) (cv_receipts r) = ''complete'' \<longleftrightarrow>
       (\<forall>x. x \<in> set (cv_receipts r) \<and> cr_source x \<in> set (cp_required (cv_policy r)) \<longrightarrow> fully_read dt x)) \<and>
    (coverage_status (cv_policy r) (cv_receipts r) = ''blocked'' \<longleftrightarrow>
       (\<exists>x. (x \<in> set (cv_receipts r) \<and> cr_source x \<in> set (cp_required (cv_policy r))) \<and>
          cr_reported x \<in> {''unauthorized'', ''not_configured'', ''excluded''}))"
proof -
  from coverage.build_elim [OF assms] obtain root where "derive_coverage root now = Inr r" .
  then obtain dt where wf: "wf_coverage r dt" by (rule derive_coverage_sound)
  have "set blocked_states = {''unauthorized'', ''not_configured'', ''excluded''}"
    by (simp add: blocked_states_def)
  with coverage_status_exact [OF wf] wf show ?thesis
    by (intro exI [of _ dt]) (simp only: wf_coverage_def simp_thms)
qed

lemma coverage_exact_witness:
  "coverage_status (cv_policy sample_coverage) (cv_receipts sample_coverage) = ''complete'' \<and>
   (\<exists>dt. fully_read dt sample_receipt)"
proof -
  have "fully_read sample_time sample_receipt"
    using sample_stamp by (auto simp: fully_read_def sample_receipt_def whole_seconds_def)
  moreover from this have "coverage_status (cv_policy sample_coverage) (cv_receipts sample_coverage) = ''complete''"
    using coverage_exact [OF sample_coverage_build] sample_stamp
    by (auto simp: sample_coverage_def dest: stamp_unique)
  ultimately show ?thesis by blast
qed

end
