(* ===== verification/EvidenceAdmissibility.thy ===== *)
theory EvidenceAdmissibility
  imports DerivedReport
begin

text \<open>
  \<^verbatim>\<open>src/tools/artifact_recovery/evidence_admissibility.py\<close>: which recorded evidence may still be
  relied on. Each record is compared with the current revision and dependencies of its subject and
  with the policy, aged against the limits of its risk class, and everything that is no longer
  current is grouped into a queue of recertification work.

  The strict scalars the module repeats are those of the mutation contract.
  \<^verbatim>\<open>build_example_evidence_admissibility\<close> builds a fixture for the tests and is not modelled.
\<close>

definition ADMISSIBILITY_SCHEMA :: string where
  "ADMISSIBILITY_SCHEMA = ''artifact_recovery_evidence_admissibility.v1''"

definition QUEUE_SCHEMA :: string where "QUEUE_SCHEMA = ''artifact_recovery_recertification_queue.v1''"

definition RISK_CLASSES :: "string list" where
  "RISK_CLASSES = [''security'', ''deployment'', ''code'', ''documentation'']"

definition EVIDENCE_KINDS :: "string list" where
  "EVIDENCE_KINDS = [''exact_head_test'', ''mergeability_review'', ''deployment_health'',
     ''dependency_certification'', ''policy_conformance'', ''documentation'']"

definition DEPENDENCY_KINDS :: "string list" where
  "DEPENDENCY_KINDS = [''pr_head'', ''pr_base'', ''dependency_graph'', ''deployed_image'',
     ''environment_config'', ''source_coverage'', ''required_check_set'', ''workflow_policy'']"

definition MAX_EVIDENCE :: nat where "MAX_EVIDENCE = 10000"
definition EVIDENCE_CLOCK_SKEW :: int where "EVIDENCE_CLOCK_SKEW = 60 * 60"
definition MAX_TTL_SECONDS :: int where "MAX_TTL_SECONDS = 31 * 24 * 60 * 60"

text \<open>\<^verbatim>\<open>STATE_SEVERITY\<close>: the position of a state in the order of its severity.\<close>

definition STATE_ORDER :: "string list" where
  "STATE_ORDER = [''current'', ''stale'', ''expired'', ''unverifiable'', ''superseded'', ''invalidated'']"

definition STATE_SEVERITY :: "string \<Rightarrow> nat" where
  "STATE_SEVERITY s = length (takeWhile (\<lambda>t. t \<noteq> s) STATE_ORDER)"

section \<open>Policy and subjects\<close>

record dependency =
  dp_kind :: string
  dp_digest :: string

definition dependency_json :: "dependency \<Rightarrow> json" where
  "dependency_json x = JObj [(''kind'', JStr (dp_kind x)), (''digest'', JStr (dp_digest x))]"

definition normalize_dependency :: "string \<Rightarrow> nat \<times> json \<Rightarrow> dependency result" where
  "normalize_dependency field iv = (case iv of (i, v) \<Rightarrow> (let item_field = index_field field i in
     bindE (strict_object v item_field [''kind'', ''digest'']) (\<lambda>d.
     bindE (one_of (dict_get d ''kind'') (item_field @ ''.kind'') 64 DEPENDENCY_KINDS) (\<lambda>kind.
     bindE (expect_sha256 (dict_get d ''digest'') (item_field @ ''.digest'')) (\<lambda>digest.
     Inr \<lparr>dp_kind = kind, dp_digest = digest\<rparr>)))))"

definition normalize_dependencies :: "json \<Rightarrow> string \<Rightarrow> dependency list result" where
  "normalize_dependencies v field =
     bindE (expect_list v field (length DEPENDENCY_KINDS)) (\<lambda>raw.
     bindE (mapE (normalize_dependency field) (enumerate 0 raw)) (\<lambda>xs.
     bindE (require (distinct (map dp_kind xs)) (field @ '' contains duplicate dependency kinds'')) (\<lambda>_.
     Inr (sort_key dp_kind xs))))"

record ttl =
  tt_stale :: int
  tt_expires :: int

record evidence_policy =
  ep_version :: string
  ep_skew :: int
  ep_ttls :: "(string \<times> ttl) list"

definition ttl_json :: "ttl \<Rightarrow> json" where
  "ttl_json t = JObj [(''stale_after_seconds'', JInt (tt_stale t)), (''expires_after_seconds'', JInt (tt_expires t))]"

definition evidence_policy_material :: "evidence_policy \<Rightarrow> pydict" where
  "evidence_policy_material p = [(''max_clock_skew_seconds'', JInt (ep_skew p)),
     (''risk_ttls'', JObj (map (\<lambda>(risk, t). (risk, ttl_json t)) (ep_ttls p)))]"

definition evidence_policy_json :: "evidence_policy \<Rightarrow> json" where
  "evidence_policy_json p = JObj ((''version_sha256'', JStr (ep_version p)) # evidence_policy_material p)"

definition normalize_ttl :: "pydict \<Rightarrow> string \<Rightarrow> (string \<times> ttl) result" where
  "normalize_ttl raw risk = (let field = ''policy.risk_ttls.'' @ risk in
     bindE (strict_object (dict_get raw risk) field [''stale_after_seconds'', ''expires_after_seconds'']) (\<lambda>d.
     bindE (expect_int (dict_get d ''stale_after_seconds'') (field @ ''.stale_after_seconds'') 1 MAX_TTL_SECONDS) (\<lambda>stale.
     bindE (expect_int (dict_get d ''expires_after_seconds'') (field @ ''.expires_after_seconds'') 1 MAX_TTL_SECONDS) (\<lambda>expires.
     bindE (require (stale < expires)
       (field @ ''.stale_after_seconds must be less than expires_after_seconds'')) (\<lambda>_.
     Inr (risk, \<lparr>tt_stale = stale, tt_expires = expires\<rparr>))))))"

definition normalize_evidence_policy :: "json \<Rightarrow> evidence_policy result" where
  "normalize_evidence_policy v =
     bindE (strict_object v ''policy'' [''version_sha256'', ''max_clock_skew_seconds'', ''risk_ttls'']) (\<lambda>d.
     bindE (expect_sha256 (dict_get d ''version_sha256'') ''policy.version_sha256'') (\<lambda>version.
     bindE (expect_int (dict_get_default d ''max_clock_skew_seconds'' (JInt 300)) ''policy.max_clock_skew_seconds'' 0
       EVIDENCE_CLOCK_SKEW) (\<lambda>skew.
     bindE (strict_object (dict_get d ''risk_ttls'') ''policy.risk_ttls'' RISK_CLASSES) (\<lambda>raw.
     (let missing = sort (filter (\<lambda>risk. risk \<notin> set (dict_keys raw)) RISK_CLASSES) in
     bindE (require (missing = []) (''policy.risk_ttls is missing risk classes: '' @ repr_str_list missing)) (\<lambda>_.
     bindE (mapE (normalize_ttl raw) RISK_CLASSES) (\<lambda>ttls.
     (let p = \<lparr>ep_version = version, ep_skew = skew, ep_ttls = ttls\<rparr> in
      bindE (require (version = sha256_value (JObj (evidence_policy_material p)))
        ''policy.version_sha256 must bind the canonical clock-skew and risk-TTL policy'') (\<lambda>_. Inr p)))))))))"

record subject =
  sj_identity :: string
  sj_revision :: string
  sj_dependencies :: "dependency list"

definition subject_json :: "subject \<Rightarrow> json" where
  "subject_json s = JObj [(''identity_sha256'', JStr (sj_identity s)), (''revision_sha256'', JStr (sj_revision s)),
     (''dependencies'', JArr (map dependency_json (sj_dependencies s)))]"

definition normalize_subject :: "nat \<times> json \<Rightarrow> subject result" where
  "normalize_subject iv = (case iv of (i, v) \<Rightarrow> (let field = index_field ''subjects'' i in
     bindE (strict_object v field [''identity_sha256'', ''revision_sha256'', ''dependencies'']) (\<lambda>d.
     bindE (expect_sha256 (dict_get d ''identity_sha256'') (field @ ''.identity_sha256'')) (\<lambda>identity.
     bindE (expect_sha256 (dict_get d ''revision_sha256'') (field @ ''.revision_sha256'')) (\<lambda>revision.
     bindE (normalize_dependencies (dict_get_default d ''dependencies'' (JArr [])) (field @ ''.dependencies'')) (\<lambda>deps.
     Inr \<lparr>sj_identity = identity, sj_revision = revision, sj_dependencies = deps\<rparr>))))))"

section \<open>Evidence records\<close>

record evidence =
  ev_identity :: string
  ev_kind :: string
  ev_subject :: string
  ev_revision :: string
  ev_producer :: string
  ev_captured_at :: string
  ev_policy :: string
  ev_payload :: string
  ev_risk :: string
  ev_owner :: string
  ev_dependencies :: "dependency list"

definition evidence_material :: "evidence \<Rightarrow> pydict" where
  "evidence_material e = [(''identity_sha256'', JStr (ev_identity e)), (''kind'', JStr (ev_kind e)),
     (''subject_identity_sha256'', JStr (ev_subject e)), (''subject_revision_sha256'', JStr (ev_revision e)),
     (''producer_sha256'', JStr (ev_producer e)), (''captured_at'', JStr (ev_captured_at e)),
     (''policy_version_sha256'', JStr (ev_policy e)), (''payload_sha256'', JStr (ev_payload e)),
     (''risk_class'', JStr (ev_risk e)), (''owner_sha256'', JStr (ev_owner e)),
     (''dependency_digests'', JArr (map dependency_json (ev_dependencies e)))]"

definition derived_keys :: "string list" where
  "derived_keys = [''record_sha256'', ''current_subject_revision_sha256'', ''age_seconds'', ''state'',
     ''reason_codes'', ''changed_dependencies'', ''unresolved_dependencies'']"

definition evidence_keys :: "string list" where
  "evidence_keys = [''identity_sha256'', ''kind'', ''subject_identity_sha256'', ''subject_revision_sha256'',
     ''producer_sha256'', ''captured_at'', ''policy_version_sha256'', ''payload_sha256'', ''risk_class'',
     ''owner_sha256'', ''dependency_digests''] @ derived_keys"

definition provided_fields :: "pydict \<Rightarrow> (string \<times> json) list" where
  "provided_fields d = List.map_filter (\<lambda>k. map_option (Pair k) (map_of d k)) derived_keys"

definition normalize_evidence :: "nat \<times> json \<Rightarrow> (evidence \<times> (string \<times> json) list) result" where
  "normalize_evidence iv = (case iv of (i, v) \<Rightarrow> (let field = index_field ''evidence'' i in
     bindE (strict_object v field evidence_keys) (\<lambda>d.
     bindE (one_of (dict_get d ''kind'') (field @ ''.kind'') 64 EVIDENCE_KINDS) (\<lambda>kind.
     bindE (one_of (dict_get d ''risk_class'') (field @ ''.risk_class'') 32 RISK_CLASSES) (\<lambda>risk.
     bindE (parse_datetime (dict_get d ''captured_at'') (field @ ''.captured_at'')) (\<lambda>(captured_at, _).
     bindE (expect_sha256 (dict_get d ''identity_sha256'') (field @ ''.identity_sha256'')) (\<lambda>identity.
     bindE (expect_sha256 (dict_get d ''subject_identity_sha256'') (field @ ''.subject_identity_sha256'')) (\<lambda>subject.
     bindE (expect_sha256 (dict_get d ''subject_revision_sha256'') (field @ ''.subject_revision_sha256'')) (\<lambda>revision.
     bindE (expect_sha256 (dict_get d ''producer_sha256'') (field @ ''.producer_sha256'')) (\<lambda>producer.
     bindE (expect_sha256 (dict_get d ''policy_version_sha256'') (field @ ''.policy_version_sha256'')) (\<lambda>policy.
     bindE (expect_sha256 (dict_get d ''payload_sha256'') (field @ ''.payload_sha256'')) (\<lambda>payload.
     bindE (expect_sha256 (dict_get d ''owner_sha256'') (field @ ''.owner_sha256'')) (\<lambda>owner.
     bindE (normalize_dependencies (dict_get_default d ''dependency_digests'' (JArr []))
       (field @ ''.dependency_digests'')) (\<lambda>deps.
     Inr (\<lparr>ev_identity = identity, ev_kind = kind, ev_subject = subject, ev_revision = revision,
       ev_producer = producer, ev_captured_at = captured_at, ev_policy = policy, ev_payload = payload,
       ev_risk = risk, ev_owner = owner, ev_dependencies = deps\<rparr>, provided_fields d)))))))))))))))"

section \<open>Assessment\<close>

record appraisal =
  ap_record :: evidence
  ap_current_revision :: "string option"
  ap_age :: int
  ap_state :: string
  ap_reasons :: "string list"
  ap_changed :: "string list"
  ap_unresolved :: "string list"

definition appraisal_derived :: "appraisal \<Rightarrow> pydict" where
  "appraisal_derived a = [(''record_sha256'', JStr (sha256_value (JObj (evidence_material (ap_record a))))),
     (''current_subject_revision_sha256'', opt_str (ap_current_revision a)), (''age_seconds'', JInt (ap_age a)),
     (''state'', JStr (ap_state a)), (''reason_codes'', JArr (map JStr (ap_reasons a))),
     (''changed_dependencies'', JArr (map JStr (ap_changed a))),
     (''unresolved_dependencies'', JArr (map JStr (ap_unresolved a)))]"

definition appraisal_dict :: "appraisal \<Rightarrow> pydict" where
  "appraisal_dict a = evidence_material (ap_record a) @ appraisal_derived a"

definition current_digest :: "subject \<Rightarrow> string \<Rightarrow> string option" where
  "current_digest s kind = map_of (map (\<lambda>x. (dp_kind x, dp_digest x)) (sj_dependencies s)) kind"

definition unresolved_dependencies :: "subject \<Rightarrow> evidence \<Rightarrow> string list" where
  "unresolved_dependencies s e =
     map dp_kind (filter (\<lambda>x. current_digest s (dp_kind x) = None) (ev_dependencies e))"

definition changed_dependencies :: "subject \<Rightarrow> evidence \<Rightarrow> string list" where
  "changed_dependencies s e =
     map dp_kind (filter (\<lambda>x. case current_digest s (dp_kind x) of None \<Rightarrow> False | Some h \<Rightarrow> h \<noteq> dp_digest x)
       (ev_dependencies e))"

definition code_if :: "bool \<Rightarrow> string \<Rightarrow> string list" where
  "code_if c reason = (if c then [reason] else [])"

text \<open>
  The reasons and the state of a record whose subject is known. A normalised policy has limits for
  every risk class, so the branch without limits is never taken.
\<close>

definition appraise_subject :: "evidence_policy \<Rightarrow> subject \<Rightarrow> evidence \<Rightarrow> int \<Rightarrow> string list \<times> string" where
  "appraise_subject p s e age =
     (let reasons = code_if (ev_revision e \<noteq> sj_revision s) ''subject_revision_changed''
            @ code_if (ev_policy e \<noteq> ep_version p) ''policy_version_changed''
            @ code_if (unresolved_dependencies s e \<noteq> []) ''dependency_unresolved''
            @ code_if (changed_dependencies s e \<noteq> []) ''dependency_changed''
      in if ''subject_revision_changed'' \<in> set reasons then (reasons, ''superseded'')
         else if ''policy_version_changed'' \<in> set reasons \<or> ''dependency_changed'' \<in> set reasons
           then (reasons, ''invalidated'')
         else if ''dependency_unresolved'' \<in> set reasons then (reasons, ''unverifiable'')
         else (case map_of (ep_ttls p) (ev_risk e) of
             None \<Rightarrow> (reasons, [])
           | Some t \<Rightarrow>
               if tt_expires t < age then (''admissibility_ttl_elapsed'' # reasons, ''expired'')
               else if tt_stale t < age then (''freshness_warning_elapsed'' # reasons, ''stale'')
               else (reasons, ''current'')))"

definition appraise :: "evidence_policy \<Rightarrow> subject list \<Rightarrow> evidence \<Rightarrow> int \<Rightarrow> appraisal" where
  "appraise p subjects e age = (case by_key sj_identity subjects (ev_subject e) of
      None \<Rightarrow> \<lparr>ap_record = e, ap_current_revision = None, ap_age = age, ap_state = ''unverifiable'',
        ap_reasons = [''subject_unresolved''], ap_changed = [], ap_unresolved = []\<rparr>
    | Some s \<Rightarrow> (case appraise_subject p s e age of (reasons, state) \<Rightarrow>
        \<lparr>ap_record = e, ap_current_revision = Some (sj_revision s), ap_age = age, ap_state = state,
         ap_reasons = sort reasons, ap_changed = sort (changed_dependencies s e),
         ap_unresolved = sort (unresolved_dependencies s e)\<rparr>))"

definition derive_assessment :: "datetime \<Rightarrow> evidence_policy \<Rightarrow> subject list \<Rightarrow> evidence \<Rightarrow> appraisal result" where
  "derive_assessment generated_dt p subjects e =
     bindE (parse_datetime (JStr (ev_captured_at e)) ''evidence.captured_at'') (\<lambda>(_, captured_dt).
     bindE (shifted generated_dt (ep_skew p)) (\<lambda>limit.
     bindE (require (instant captured_dt \<le> limit)
       ''evidence.captured_at is beyond the allowed clock skew'') (\<lambda>_.
     (let raw_age = whole_seconds (instant generated_dt - instant captured_dt) in
     bindE (require (- ep_skew p \<le> raw_age)
       ''evidence.captured_at is beyond the allowed clock skew'') (\<lambda>_.
     (let a = appraise p subjects e (max 0 raw_age) in
     bindE (validate_public_safety (JObj (appraisal_dict a))) (\<lambda>_. Inr a)))))))"

definition check_provided :: "string \<Rightarrow> appraisal \<Rightarrow> string \<times> json \<Rightarrow> unit result" where
  "check_provided field a kv = (case kv of (k, v) \<Rightarrow>
     require (py_eq v (dict_get (appraisal_derived a) k))
       (field @ ''.'' @ k @ '' does not match the derived assessment''))"

definition assess_evidence :: "datetime \<Rightarrow> evidence_policy \<Rightarrow> subject list \<Rightarrow> nat \<times> json \<Rightarrow> appraisal result" where
  "assess_evidence generated_dt p subjects iv =
     bindE (normalize_evidence iv) (\<lambda>(e, provided).
     bindE (derive_assessment generated_dt p subjects e) (\<lambda>a.
     bindE (foldE (\<lambda>_. check_provided (index_field ''evidence'' (fst iv)) a) () provided) (\<lambda>_. Inr a)))"

section \<open>The recertification queue\<close>

record queue_item =
  qi_fingerprint :: string
  qi_subject :: string
  qi_kind :: string
  qi_revision :: "string option"
  qi_owner :: string
  qi_highest :: string
  qi_states :: "string list"
  qi_evidence :: "string list"
  qi_reasons :: "string list"
  qi_changed :: "string list"
  qi_unresolved :: "string list"

definition fingerprint_material :: "appraisal \<Rightarrow> pydict" where
  "fingerprint_material a = [(''subject_identity_sha256'', JStr (ev_subject (ap_record a))),
     (''evidence_kind'', JStr (ev_kind (ap_record a))),
     (''current_revision_sha256'', opt_str (ap_current_revision a))]"

definition fingerprint :: "appraisal \<Rightarrow> string" where
  "fingerprint a = sha256_value (JObj (fingerprint_material a))"

definition new_queue_item :: "appraisal \<Rightarrow> queue_item" where
  "new_queue_item a = \<lparr>qi_fingerprint = fingerprint a, qi_subject = ev_subject (ap_record a),
     qi_kind = ev_kind (ap_record a), qi_revision = ap_current_revision a, qi_owner = ev_owner (ap_record a),
     qi_highest = ap_state a, qi_states = [], qi_evidence = [], qi_reasons = [], qi_changed = [],
     qi_unresolved = []\<rparr>"

definition add_to_item :: "appraisal \<Rightarrow> queue_item \<Rightarrow> queue_item" where
  "add_to_item a q = q\<lparr>qi_states := qi_states q @ [ap_state a],
     qi_evidence := qi_evidence q @ [ev_identity (ap_record a)], qi_reasons := qi_reasons q @ ap_reasons a,
     qi_changed := qi_changed q @ ap_changed a, qi_unresolved := qi_unresolved q @ ap_unresolved a,
     qi_highest := (if STATE_SEVERITY (qi_highest q) < STATE_SEVERITY (ap_state a) then ap_state a
       else qi_highest q)\<rparr>"

definition enqueue :: "(string \<times> queue_item) list \<Rightarrow> appraisal \<Rightarrow> (string \<times> queue_item) list result" where
  "enqueue grouped a =
     (if ap_state a = ''current'' then Inr grouped
      else (case map_of grouped (fingerprint a) of
          None \<Rightarrow> Inr (dict_set grouped (fingerprint a) (add_to_item a (new_queue_item a)))
        | Some q \<Rightarrow>
            if qi_owner q \<noteq> ev_owner (ap_record a) then
              Inl (Err ''recertification fingerprint has conflicting owners; ownership must be resolved'')
            else Inr (dict_set grouped (fingerprint a) (add_to_item a q))))"

definition set_sorted :: "string list \<Rightarrow> string list" where
  "set_sorted xs = sort (remdups xs)"

definition finish_item :: "queue_item \<Rightarrow> queue_item" where
  "finish_item q = q\<lparr>qi_states := set_sorted (qi_states q), qi_evidence := set_sorted (qi_evidence q),
     qi_reasons := set_sorted (qi_reasons q), qi_changed := set_sorted (qi_changed q),
     qi_unresolved := set_sorted (qi_unresolved q)\<rparr>"

definition queue_item_json :: "queue_item \<Rightarrow> json" where
  "queue_item_json q = JObj [(''fingerprint_sha256'', JStr (qi_fingerprint q)),
     (''subject_identity_sha256'', JStr (qi_subject q)), (''evidence_kind'', JStr (qi_kind q)),
     (''current_revision_sha256'', opt_str (qi_revision q)), (''owner_sha256'', JStr (qi_owner q)),
     (''action'', JStr ''recertify''), (''highest_state'', JStr (qi_highest q)),
     (''observed_states'', JArr (map JStr (qi_states q))),
     (''evidence_identity_sha256s'', JArr (map JStr (qi_evidence q))),
     (''reason_codes'', JArr (map JStr (qi_reasons q))),
     (''changed_dependencies'', JArr (map JStr (qi_changed q))),
     (''unresolved_dependencies'', JArr (map JStr (qi_unresolved q)))]"

definition queue_material :: "queue_item list \<Rightarrow> pydict" where
  "queue_material items = [(''schema_version'', JStr QUEUE_SCHEMA),
     (''summary'', JObj [(''items'', JInt (int (length items)))]),
     (''items'', JArr (map queue_item_json items))]"

definition recertification_json :: "queue_item list \<Rightarrow> json" where
  "recertification_json items = JObj (queue_material items @
     [(''queue_sha256'', JStr (sha256_value (JObj (queue_material items))))])"

definition build_recertification_queue :: "appraisal list \<Rightarrow> queue_item list result" where
  "build_recertification_queue evidence =
     bindE (foldE enqueue [] evidence) (\<lambda>grouped.
     (let items = map (finish_item \<circ> snd) (sort_key fst grouped) in
     bindE (validate_public_safety (recertification_json items)) (\<lambda>_. Inr items)))"

section \<open>The report\<close>

record evidence_report =
  er_generated_at :: string
  er_policy :: evidence_policy
  er_subjects :: "subject list"
  er_evidence :: "appraisal list"
  er_queue :: "queue_item list"

definition evidence_status :: "string list \<Rightarrow> string" where
  "evidence_status states =
     (if list_ex (\<lambda>s. s \<in> set states) [''superseded'', ''invalidated'', ''unverifiable'', ''expired'']
      then ''blocked''
      else if ''stale'' \<in> set states then ''partial'' else ''complete'')"

definition evidence_summary :: "evidence_report \<Rightarrow> json" where
  "evidence_summary r = (let states = map ap_state (er_evidence r); status = evidence_status states;
       number = (\<lambda>s. JInt (int (count_list states s))) in
     JObj [(''status'', JStr status), (''complete'', JBool (status = ''complete'')),
       (''subjects'', JInt (int (length (er_subjects r)))), (''evidence'', JInt (int (length (er_evidence r)))),
       (''current'', number ''current''), (''stale'', number ''stale''), (''superseded'', number ''superseded''),
       (''invalidated'', number ''invalidated''), (''unverifiable'', number ''unverifiable''),
       (''expired'', number ''expired''), (''recertification_items'', JInt (int (length (er_queue r))))])"

definition admissibility_material :: "evidence_report \<Rightarrow> pydict" where
  "admissibility_material r = [(''schema_version'', JStr ADMISSIBILITY_SCHEMA),
     (''generated_at'', JStr (er_generated_at r)), (''policy'', evidence_policy_json (er_policy r)),
     (''subjects'', JArr (map subject_json (er_subjects r))),
     (''evidence'', JArr (map (\<lambda>a. JObj (appraisal_dict a)) (er_evidence r))),
     (''summary'', evidence_summary r), (''recertification_queue'', recertification_json (er_queue r))]"

definition admissibility_dict :: "evidence_report \<Rightarrow> pydict" where
  "admissibility_dict r = admissibility_material r @
     [(''report_sha256'', JStr (sha256_value (JObj (admissibility_material r))))]"

definition admissibility_keys :: "string list" where
  "admissibility_keys = [''schema_version'', ''generated_at'', ''policy'', ''subjects'', ''evidence'',
     ''summary'', ''recertification_queue'', ''report_sha256'']"

definition check_evidence_now :: "datetime \<Rightarrow> string option \<Rightarrow> unit result" where
  "check_evidence_now generated_dt now = (case now of
      None \<Rightarrow> Inr ()
    | Some n \<Rightarrow>
        bindE (parse_datetime (JStr n) ''--now'') (\<lambda>(_, now_dt).
        bindE (shifted now_dt EVIDENCE_CLOCK_SKEW) (\<lambda>limit.
        require (instant generated_dt \<le> limit) ''generated_at is beyond the allowed clock skew'')))"

definition derive_admissibility :: "pydict \<Rightarrow> string option \<Rightarrow> evidence_report result" where
  "derive_admissibility root now =
     bindE (require (dict_get root ''schema_version'' = JStr ADMISSIBILITY_SCHEMA)
       (''schema_version must be '' @ ADMISSIBILITY_SCHEMA)) (\<lambda>_.
     bindE (parse_datetime (dict_get root ''generated_at'') ''generated_at'') (\<lambda>(generated_at, generated_dt).
     bindE (check_evidence_now generated_dt now) (\<lambda>_.
     bindE (normalize_evidence_policy (dict_get root ''policy'')) (\<lambda>p.
     bindE (expect_list (dict_get root ''subjects'') ''subjects'' MAX_EVIDENCE) (\<lambda>raw_subjects.
     bindE (mapE normalize_subject (enumerate 0 raw_subjects)) (\<lambda>subjects0.
     bindE (require (distinct (map sj_identity subjects0)) ''subjects contain duplicate identities'') (\<lambda>_.
     (let subjects = sort_key sj_identity subjects0 in
     bindE (expect_list (dict_get root ''evidence'') ''evidence'' MAX_EVIDENCE) (\<lambda>raw_evidence.
     bindE (mapE (assess_evidence generated_dt p subjects) (enumerate 0 raw_evidence)) (\<lambda>assessed.
     bindE (require (distinct (map (ev_identity \<circ> ap_record) assessed))
       ''evidence contains duplicate identities'') (\<lambda>_.
     (let evidence = sort_key (ev_identity \<circ> ap_record) assessed in
     bindE (build_recertification_queue evidence) (\<lambda>queue.
     Inr \<lparr>er_generated_at = generated_at, er_policy = p, er_subjects = subjects, er_evidence = evidence,
       er_queue = queue\<rparr>)))))))))))))"

definition admissibility_fields :: "evidence_report \<Rightarrow> (string \<times> json) list" where
  "admissibility_fields r = [(''summary'', evidence_summary r),
     (''recertification_queue'', recertification_json (er_queue r)),
     (''report_sha256'', JStr (sha256_value (JObj (admissibility_material r))))]"

definition admissibility_message :: "string \<Rightarrow> string" where
  "admissibility_message field = (if field = ''report_sha256'' then ''report_sha256 does not match the canonical report''
     else field @ '' does not match the derived report'')"

definition build_evidence_admissibility_report :: "json \<Rightarrow> string option \<Rightarrow> evidence_report result" where
  "build_evidence_admissibility_report v now =
     bindE (strict_object v ''$'' admissibility_keys) (\<lambda>root.
     bindE (derive_admissibility root now) (\<lambda>r.
     bindE (foldE (\<lambda>_. check_field admissibility_message root) () (admissibility_fields r)) (\<lambda>_.
     bindE (validate_public_safety (JObj (admissibility_dict r))) (\<lambda>_. Inr r))))"

section \<open>Well-formed records and their round trips\<close>

definition wf_dependencies :: "dependency list \<Rightarrow> bool" where
  "wf_dependencies xs \<longleftrightarrow> sorted (map dp_kind xs) \<and> distinct (map dp_kind xs)
     \<and> length xs \<le> length DEPENDENCY_KINDS
     \<and> list_all (\<lambda>x. names_one 64 DEPENDENCY_KINDS (dp_kind x) \<and> is_sha256_text (dp_digest x)) xs"

lemma normalize_dependency_iff:
  "normalize_dependency field (i, v) = Inr x \<longleftrightarrow> (\<exists>d. v = JObj d \<and> set (dict_keys d) \<subseteq> {''kind'', ''digest''} \<and>
     dict_get d ''kind'' = JStr (dp_kind x) \<and> dict_get d ''digest'' = JStr (dp_digest x) \<and>
     names_one 64 DEPENDENCY_KINDS (dp_kind x) \<and> is_sha256_text (dp_digest x))"
  by (cases x) (auto simp: normalize_dependency_def Let_def bindE_eq_Inr_iff)

lemma normalize_dependencies_wf:
  assumes "normalize_dependencies v field = Inr xs"
  shows "wf_dependencies xs"
proof -
  from assms obtain raw ys where raw: "mapE (normalize_dependency field) (enumerate 0 raw) = Inr ys"
    "length raw \<le> length DEPENDENCY_KINDS" "distinct (map dp_kind ys)" "xs = sort_key dp_kind ys"
    unfolding normalize_dependencies_def by (elim bindE_InrE) auto
  then show ?thesis
    using mapE_length [OF raw(1)] mapE_enumerate_elem [OF raw(1)]
    by (fastforce simp: wf_dependencies_def distinct_map list_all_iff normalize_dependency_iff)
qed

lemma normalize_dependencies_json:
  assumes "wf_dependencies xs"
  shows "normalize_dependencies (JArr (map dependency_json xs)) field = Inr xs"
proof -
  have "mapE (normalize_dependency field) (enumerate 0 (map dependency_json xs)) = Inr xs"
    using assms
    by (intro mapE_enumerate_json)
      (auto simp: normalize_dependency_iff dependency_json_def wf_dependencies_def list_all_iff dict_keys_def)
  with assms show ?thesis
    by (simp add: normalize_dependencies_def wf_dependencies_def sort_key_id_if_sorted)
qed

definition wf_ttl :: "ttl \<Rightarrow> bool" where
  "wf_ttl t \<longleftrightarrow> 1 \<le> tt_stale t \<and> tt_stale t < tt_expires t \<and> tt_expires t \<le> MAX_TTL_SECONDS"

lemma normalize_ttl_iff:
  "normalize_ttl raw risk = Inr kt \<longleftrightarrow> (\<exists>d. dict_get raw risk = JObj d \<and>
     set (dict_keys d) \<subseteq> {''stale_after_seconds'', ''expires_after_seconds''} \<and> fst kt = risk \<and>
     dict_get d ''stale_after_seconds'' = JInt (tt_stale (snd kt)) \<and>
     dict_get d ''expires_after_seconds'' = JInt (tt_expires (snd kt)) \<and> wf_ttl (snd kt))"
  by (cases kt; cases "snd kt") (auto simp: normalize_ttl_def Let_def bindE_eq_Inr_iff wf_ttl_def)

definition wf_evidence_policy :: "evidence_policy \<Rightarrow> bool" where
  "wf_evidence_policy p \<longleftrightarrow> is_sha256_text (ep_version p)
     \<and> sha256_value (JObj (evidence_policy_material p)) = ep_version p
     \<and> 0 \<le> ep_skew p \<and> ep_skew p \<le> EVIDENCE_CLOCK_SKEW \<and> map fst (ep_ttls p) = RISK_CLASSES
     \<and> list_all (wf_ttl \<circ> snd) (ep_ttls p)"

lemma mapE_normalize_ttl:
  "mapE (normalize_ttl raw) risks = Inr ts \<Longrightarrow> map fst ts = risks \<and> list_all (wf_ttl \<circ> snd) ts"
  by (induction risks arbitrary: ts) (auto simp: normalize_ttl_iff)

lemma normalize_evidence_policy_wf: "normalize_evidence_policy v = Inr p \<Longrightarrow> wf_evidence_policy p"
  by (auto simp: normalize_evidence_policy_def wf_evidence_policy_def Let_def dest: mapE_normalize_ttl)

lemma mapE_ttl_json:
  assumes "\<And>k t. (k, t) \<in> set ts \<Longrightarrow> map_of d k = Some (ttl_json t) \<and> wf_ttl t"
  shows "mapE (normalize_ttl d) (map fst ts) = Inr ts"
  using assms
proof (induction ts)
  case (Cons kt ts)
  obtain k t where kt: "kt = (k, t)" by (cases kt)
  with Cons.prems [of k t] have "normalize_ttl d k = Inr kt"
    by (auto simp: normalize_ttl_iff dict_get_def ttl_json_def dict_keys_def)
  moreover have "mapE (normalize_ttl d) (map fst ts) = Inr ts"
    by (rule Cons.IH) (rule Cons.prems, simp)
  ultimately show ?case by (simp add: kt)
qed simp

lemma normalize_evidence_policy_json:
  assumes "wf_evidence_policy p"
  shows "normalize_evidence_policy (evidence_policy_json p) = Inr p"
proof -
  define raw where "raw = map (\<lambda>(risk, t). (risk, ttl_json t)) (ep_ttls p)"
  define d where "d = (''version_sha256'', JStr (ep_version p)) # evidence_policy_material p"
  note wf = assms [unfolded wf_evidence_policy_def]
  have keys: "dict_keys raw = RISK_CLASSES"
    using wf by (auto simp: raw_def dict_keys_def comp_def case_prod_unfold)
  have "distinct (map fst (ep_ttls p))" using wf by (simp add: RISK_CLASSES_def)
  then have "map_of raw k = Some (ttl_json t) \<and> wf_ttl t" if "(k, t) \<in> set (ep_ttls p)" for k t
    using wf that by (auto simp: raw_def map_of_map list_all_iff)
  then have "mapE (normalize_ttl raw) (map fst (ep_ttls p)) = Inr (ep_ttls p)"
    by (rule mapE_ttl_json)
  then have ttls: "mapE (normalize_ttl raw) RISK_CLASSES = Inr (ep_ttls p)" using wf by simp
  have gets: "evidence_policy_json p = JObj d" "dict_get d ''version_sha256'' = JStr (ep_version p)"
    "dict_get_default d ''max_clock_skew_seconds'' x = JInt (ep_skew p)" "dict_get d ''risk_ttls'' = JObj raw" for x
    by (simp_all add: evidence_policy_json_def d_def evidence_policy_material_def dict_get_default_def raw_def)
  have dkeys: "set (dict_keys d) \<subseteq> set [''version_sha256'', ''max_clock_skew_seconds'', ''risk_ttls'']"
    by (simp add: d_def evidence_policy_material_def dict_keys_def)
  have rkeys: "set (dict_keys raw) \<subseteq> set RISK_CLASSES" by (simp add: keys)
  have whole: "\<lparr>ep_version = ep_version x, ep_skew = ep_skew x, ep_ttls = ep_ttls x\<rparr> = x" for x :: evidence_policy
    by (cases x) simp
  show ?thesis
    unfolding normalize_evidence_policy_def gets strict_object_returns [OF dkeys] bindE_Inr
      strict_object_returns [OF rkeys]
    using wf by (simp add: Let_def keys ttls whole)
qed

definition wf_subject :: "subject \<Rightarrow> bool" where
  "wf_subject s \<longleftrightarrow> is_sha256_text (sj_identity s) \<and> is_sha256_text (sj_revision s)
     \<and> wf_dependencies (sj_dependencies s)"

lemma normalize_subject_wf: "normalize_subject iv = Inr s \<Longrightarrow> wf_subject s"
  by (auto simp: normalize_subject_def wf_subject_def Let_def dest: normalize_dependencies_wf split: prod.splits)

lemma normalize_subject_json: "wf_subject s \<Longrightarrow> normalize_subject (i, subject_json s) = Inr s"
  by (simp add: normalize_subject_def subject_json_def wf_subject_def Let_def dict_keys_def
      dict_get_default_def normalize_dependencies_json)


definition wf_evidence :: "evidence \<Rightarrow> bool" where
  "wf_evidence e \<longleftrightarrow> names_one 64 EVIDENCE_KINDS (ev_kind e) \<and> names_one 32 RISK_CLASSES (ev_risk e)
     \<and> (\<exists>c. stamp (ev_captured_at e) c) \<and> is_sha256_text (ev_identity e) \<and> is_sha256_text (ev_subject e)
     \<and> is_sha256_text (ev_revision e) \<and> is_sha256_text (ev_producer e) \<and> is_sha256_text (ev_policy e)
     \<and> is_sha256_text (ev_payload e) \<and> is_sha256_text (ev_owner e) \<and> wf_dependencies (ev_dependencies e)"

lemma normalize_evidence_wf:
  assumes "normalize_evidence iv = Inr (e, provided)"
  shows "wf_evidence e"
proof -
  obtain i v where iv: "iv = (i, v)" by (cases iv)
  from assms obtain kind risk cap c ident subj rev prod pol pay own deps d where
    "names_one 64 EVIDENCE_KINDS kind" "names_one 32 RISK_CLASSES risk" "stamp cap c" "is_sha256_text ident"
    "is_sha256_text subj" "is_sha256_text rev" "is_sha256_text prod" "is_sha256_text pol" "is_sha256_text pay"
    "is_sha256_text own"
    "normalize_dependencies d (index_field ''evidence'' i @ ''.dependency_digests'') = Inr deps"
    and e: "e = \<lparr>ev_identity = ident, ev_kind = kind, ev_subject = subj, ev_revision = rev,
       ev_producer = prod, ev_captured_at = cap, ev_policy = pol, ev_payload = pay,
       ev_risk = risk, ev_owner = own, ev_dependencies = deps\<rparr>"
    unfolding iv normalize_evidence_def Let_def prod.case
    by (elim bindE_InrE) (auto simp: parse_datetime_iff split: prod.splits elim!: bindE_InrE)
  then show ?thesis
    using normalize_dependencies_wf by (auto simp: wf_evidence_def)
qed

lemma appraisal_keys: "map fst (appraisal_derived a) = derived_keys"
  by (simp add: appraisal_derived_def derived_keys_def)

lemma provided_appraisal: "provided_fields (appraisal_dict a) = appraisal_derived a"
proof -
  have "list_all (\<lambda>k. map_of (evidence_material (ap_record a)) k = None) derived_keys"
    by (simp add: evidence_material_def derived_keys_def)
  then have "map_of (appraisal_dict a) k = map_of (appraisal_derived a) k" if "k \<in> set derived_keys" for k
    using that by (simp add: appraisal_dict_def map_of_append list_all_iff map_add_def)
  then have "provided_fields (appraisal_dict a) =
      List.map_filter (\<lambda>k. map_option (Pair k) (map_of (appraisal_derived a) k)) derived_keys"
    unfolding provided_fields_def by (simp add: List.map_filter_def cong: map_cong filter_cong)
  also have "\<dots> = appraisal_derived a"
    by (simp add: derived_keys_def appraisal_derived_def List.map_filter_simps)
  finally show ?thesis .
qed

lemma normalize_evidence_json:
  assumes "wf_evidence (ap_record a)"
  shows "normalize_evidence (i, JObj (appraisal_dict a)) = Inr (ap_record a, appraisal_derived a)"
proof -
  define e where "e = ap_record a"
  note wf = assms [unfolded wf_evidence_def e_def [symmetric]]
  from wf obtain c where c: "stamp (ev_captured_at e) c" by blast
  define d where "d = appraisal_dict a"
  have keys: "set (dict_keys d) \<subseteq> set evidence_keys"
    by (auto simp: d_def appraisal_dict_def dict_keys_def appraisal_keys evidence_keys_def evidence_material_def)
  have gets: "dict_get d ''identity_sha256'' = JStr (ev_identity e)" "dict_get d ''kind'' = JStr (ev_kind e)"
    "dict_get d ''subject_identity_sha256'' = JStr (ev_subject e)"
    "dict_get d ''subject_revision_sha256'' = JStr (ev_revision e)"
    "dict_get d ''producer_sha256'' = JStr (ev_producer e)" "dict_get d ''captured_at'' = JStr (ev_captured_at e)"
    "dict_get d ''policy_version_sha256'' = JStr (ev_policy e)" "dict_get d ''payload_sha256'' = JStr (ev_payload e)"
    "dict_get d ''risk_class'' = JStr (ev_risk e)" "dict_get d ''owner_sha256'' = JStr (ev_owner e)"
    "dict_get_default d ''dependency_digests'' x = JArr (map dependency_json (ev_dependencies e))" for x
    by (simp_all add: d_def e_def appraisal_dict_def evidence_material_def dict_get_default_def)
  have whole: "\<lparr>ev_identity = ev_identity x, ev_kind = ev_kind x, ev_subject = ev_subject x,
      ev_revision = ev_revision x, ev_producer = ev_producer x, ev_captured_at = ev_captured_at x,
      ev_policy = ev_policy x, ev_payload = ev_payload x, ev_risk = ev_risk x, ev_owner = ev_owner x,
      ev_dependencies = ev_dependencies x\<rparr> = x" for x :: evidence
    by (cases x) simp
  have parsed: "parse_datetime (JStr (ev_captured_at e)) f = Inr (ev_captured_at e, c)" for f
    using c by simp
  have "provided_fields d = appraisal_derived a" by (simp add: d_def provided_appraisal)
  then show ?thesis
    unfolding normalize_evidence_def prod.case d_def [symmetric] strict_object_returns [OF keys] e_def [symmetric]
    using wf by (simp add: Let_def gets parsed normalize_dependencies_json whole)
qed

text \<open>An assessed record: what the report holds for each piece of evidence.\<close>

definition wf_appraisal :: "datetime \<Rightarrow> evidence_policy \<Rightarrow> subject list \<Rightarrow> appraisal \<Rightarrow> bool" where
  "wf_appraisal dt p subjects a \<longleftrightarrow> wf_evidence (ap_record a) \<and>
     derive_assessment dt p subjects (ap_record a) = Inr a"

lemma derive_assessment_elim:
  assumes "derive_assessment dt p subjects e = Inr a" and "wf_evidence e"
  obtains c where "stamp (ev_captured_at e) c" "- ep_skew p \<le> whole_seconds (instant dt - instant c)"
    "a = appraise p subjects e (max 0 (whole_seconds (instant dt - instant c)))"
    "validate_public_safety (JObj (appraisal_dict a)) = Inr ()"
proof -
  from assms(2) obtain c where c: "stamp (ev_captured_at e) c" by (auto simp: wf_evidence_def)
  have "parse_datetime (JStr (ev_captured_at e)) f = Inr (ev_captured_at e, c)" for f
    using c by simp
  with assms(1) c that show thesis
    unfolding derive_assessment_def Let_def by (auto elim!: bindE_InrE)
qed

lemma appraise_record [simp]: "ap_record (appraise p subjects e age) = e" "ap_age (appraise p subjects e age) = age"
  by (simp_all add: appraise_def split: option.split prod.split)

lemma assess_evidence_wf:
  assumes "assess_evidence dt p subjects iv = Inr a"
  shows "wf_appraisal dt p subjects a"
proof -
  from assms obtain e provided where *: "normalize_evidence iv = Inr (e, provided)"
    "derive_assessment dt p subjects e = Inr a"
    unfolding assess_evidence_def by (elim bindE_InrE) (auto split: prod.splits elim!: bindE_InrE)
  have wf: "wf_evidence e" using *(1) by (rule normalize_evidence_wf)
  from *(2) wf have "ap_record a = e" by (rule derive_assessment_elim) simp
  with *(2) wf show ?thesis by (simp add: wf_appraisal_def)
qed

lemma appraisal_plain: "list_all (plain \<circ> snd) (appraisal_derived a)"
  by (simp add: appraisal_derived_def list_all_iff)

lemma check_provided_own:
  assumes "kv \<in> set (appraisal_derived a)"
  shows "check_provided field a kv = Inr ()"
proof -
  obtain k v where kv: "kv = (k, v)" by (cases kv)
  have "distinct (map fst (appraisal_derived a))" unfolding appraisal_keys derived_keys_def by simp
  with assms kv have "dict_get (appraisal_derived a) k = v" by (simp add: dict_get_def)
  moreover have "plain v" using assms kv appraisal_plain [of a] by (auto simp: list_all_iff)
  ultimately show ?thesis by (simp add: check_provided_def kv py_eq_refl)
qed

lemma assess_evidence_json:
  assumes "wf_appraisal dt p subjects a"
  shows "assess_evidence dt p subjects (i, JObj (appraisal_dict a)) = Inr a"
proof -
  have "foldE (\<lambda>_. check_provided (index_field ''evidence'' i) a) () (appraisal_derived a) = Inr ()"
    unfolding foldE_unit using check_provided_own by blast
  with assms show ?thesis
    by (simp add: assess_evidence_def wf_appraisal_def normalize_evidence_json)
qed


section \<open>Well-formed reports\<close>

definition wf_admissibility :: "evidence_report \<Rightarrow> datetime \<Rightarrow> bool" where
  "wf_admissibility r dt \<longleftrightarrow> stamp (er_generated_at r) dt \<and> wf_evidence_policy (er_policy r)
     \<and> list_all wf_subject (er_subjects r) \<and> length (er_subjects r) \<le> MAX_EVIDENCE
     \<and> sorted (map sj_identity (er_subjects r)) \<and> distinct (map sj_identity (er_subjects r))
     \<and> list_all (wf_appraisal dt (er_policy r) (er_subjects r)) (er_evidence r)
     \<and> length (er_evidence r) \<le> MAX_EVIDENCE
     \<and> sorted (map (ev_identity \<circ> ap_record) (er_evidence r))
     \<and> distinct (map (ev_identity \<circ> ap_record) (er_evidence r))
     \<and> build_recertification_queue (er_evidence r) = Inr (er_queue r)"

lemma derive_admissibility_sound:
  assumes "derive_admissibility root now = Inr r"
  obtains dt where "wf_admissibility r dt" and "check_evidence_now dt now = Inr ()"
proof -
  from assms obtain generated_at dt p raw_s ss raw_e es queue where
    g: "parse_datetime (dict_get root ''generated_at'') ''generated_at'' = Inr (generated_at, dt)"
    and n: "check_evidence_now dt now = Inr ()"
    and p: "normalize_evidence_policy (dict_get root ''policy'') = Inr p"
    and ss: "mapE normalize_subject (enumerate 0 raw_s) = Inr ss" "length raw_s \<le> MAX_EVIDENCE"
      "distinct (map sj_identity ss)"
    and es: "mapE (assess_evidence dt p (sort_key sj_identity ss)) (enumerate 0 raw_e) = Inr es"
      "length raw_e \<le> MAX_EVIDENCE" "distinct (map (ev_identity \<circ> ap_record) es)"
    and q: "build_recertification_queue (sort_key (ev_identity \<circ> ap_record) es) = Inr queue"
    and r: "r = \<lparr>er_generated_at = generated_at, er_policy = p, er_subjects = sort_key sj_identity ss,
       er_evidence = sort_key (ev_identity \<circ> ap_record) es, er_queue = queue\<rparr>"
    unfolding derive_admissibility_def Let_def
    by (elim bindE_InrE) (auto elim!: bindE_InrE split: prod.splits)
  have "list_all wf_subject ss"
    using mapE_enumerate_elem [OF ss(1)] normalize_subject_wf by (fastforce simp: list_all_iff)
  moreover have "list_all (wf_appraisal dt p (sort_key sj_identity ss)) es"
    using mapE_enumerate_elem [OF es(1)] assess_evidence_wf by (fastforce simp: list_all_iff)
  moreover have "length ss \<le> MAX_EVIDENCE" "length es \<le> MAX_EVIDENCE"
    using mapE_length [OF ss(1)] ss(2) mapE_length [OF es(1)] es(2) by simp_all
  ultimately have "wf_admissibility r dt"
    using g normalize_evidence_policy_wf [OF p] ss(3) es(3) q
    by (simp add: wf_admissibility_def r parse_datetime_iff list_all_iff distinct_map)
  with n that show thesis by blast
qed

lemma admissibility_dict_get:
  "dict_get (admissibility_dict r) ''schema_version'' = JStr ADMISSIBILITY_SCHEMA"
  "dict_get (admissibility_dict r) ''generated_at'' = JStr (er_generated_at r)"
  "dict_get (admissibility_dict r) ''policy'' = evidence_policy_json (er_policy r)"
  "dict_get (admissibility_dict r) ''subjects'' = JArr (map subject_json (er_subjects r))"
  "dict_get (admissibility_dict r) ''evidence'' = JArr (map (\<lambda>a. JObj (appraisal_dict a)) (er_evidence r))"
  by (simp_all add: admissibility_dict_def admissibility_material_def)

lemma derive_admissibility_again:
  assumes "wf_admissibility r dt" and "check_evidence_now dt now = Inr ()"
  shows "derive_admissibility (admissibility_dict r) now = Inr r"
proof -
  note wf = assms(1) [unfolded wf_admissibility_def]
  have g: "parse_datetime (JStr (er_generated_at r)) field = Inr (er_generated_at r, dt)" for field
    using wf by (intro parse_datetime_stamp) simp
  have ss: "mapE normalize_subject (enumerate 0 (map subject_json (er_subjects r))) = Inr (er_subjects r)"
    using wf by (intro mapE_enumerate_json normalize_subject_json) (simp add: list_all_iff)
  have es: "mapE (assess_evidence dt (er_policy r) (er_subjects r))
      (enumerate 0 (map (\<lambda>a. JObj (appraisal_dict a)) (er_evidence r))) = Inr (er_evidence r)"
    using wf by (intro mapE_enumerate_json assess_evidence_json) (simp add: list_all_iff)
  show ?thesis
    unfolding derive_admissibility_def admissibility_dict_get Let_def
    using wf by (simp add: g assms(2) ss es normalize_evidence_policy_json sort_key_id_if_sorted)
qed

lemma queue_plain: "plain (recertification_json items)"
  by (simp add: recertification_json_def queue_material_def queue_item_json_def list_all_iff)

lemma admissibility_field_held:
  assumes "fe \<in> set (admissibility_fields r)"
  shows "check_field admissibility_message (admissibility_dict r) fe = Inr ()"
proof -
  have "plain (evidence_summary r)" by (simp add: evidence_summary_def Let_def)
  moreover have "map_of (admissibility_dict r) ''summary'' = Some (evidence_summary r)"
    "map_of (admissibility_dict r) ''recertification_queue'' = Some (recertification_json (er_queue r))"
    "map_of (admissibility_dict r) ''report_sha256'' = Some (JStr (sha256_value (JObj (admissibility_material r))))"
    by (simp_all add: admissibility_dict_def admissibility_material_def)
  ultimately show ?thesis
    using assms queue_plain by (auto simp: admissibility_fields_def intro: check_field_held)
qed

section \<open>What the module raises\<close>

lemma refuses_dependencies [refusal_intros]:
  "refuses (normalize_dependency field iv)" "refuses (normalize_dependencies v field)"
  unfolding normalize_dependencies_def normalize_dependency_def Let_def by (intro refusal_intros)+

lemma refuses_evidence_parts [refusal_intros]:
  "refuses (normalize_ttl raw risk)" "refuses (normalize_evidence_policy v)" "refuses (normalize_subject iv)"
  "refuses (normalize_evidence jv)" "refuses (check_provided field a kv)" "refuses (check_evidence_now dt now)"
  unfolding normalize_evidence_policy_def normalize_ttl_def normalize_subject_def normalize_evidence_def
    check_provided_def check_evidence_now_def Let_def
  by (intro refusal_intros)+

lemma refuses_assess_evidence [refusal_intros]: "refuses (assess_evidence dt p subjects iv)"
  unfolding assess_evidence_def derive_assessment_def Let_def by (intro refusal_intros)

lemma refuses_enqueue [refusal_intros]: "refuses (enqueue grouped a)"
  unfolding enqueue_def by (intro refusal_intros)

lemma refuses_queue [refusal_intros]: "refuses (build_recertification_queue evidence)"
  unfolding build_recertification_queue_def Let_def by (intro refusal_intros)

lemma refuses_derive_admissibility: "refuses (derive_admissibility root now)"
  unfolding derive_admissibility_def Let_def by (intro refusal_intros)

interpretation admissibility: derived_report build_evidence_admissibility_report derive_admissibility
  admissibility_dict admissibility_fields "check_field admissibility_message" admissibility_keys
proof
  show "derive_admissibility (admissibility_dict r) now = Inr r" if "derive_admissibility root now = Inr r"
    for root now r
    using that by (rule derive_admissibility_sound) (rule derive_admissibility_again)
  show "set (dict_keys (admissibility_dict r)) \<subseteq> set admissibility_keys" for r
    by (simp add: admissibility_dict_def admissibility_material_def admissibility_keys_def dict_keys_def)
qed (simp_all add: build_evidence_admissibility_report_def refuses_derive_admissibility check_field_refuses
      admissibility_field_held)


section \<open>What makes a record admissible\<close>

text \<open>
  A record still holds when its subject is known at the same revision, the policy is the one it was
  made under, every dependency is in place with the same digest, and its age is within the limit
  that its risk class has.
\<close>

definition unmoved :: "evidence_policy \<Rightarrow> subject list \<Rightarrow> evidence \<Rightarrow> bool" where
  "unmoved p subjects e \<longleftrightarrow> ev_policy e = ep_version p \<and>
     (\<exists>s\<in>set subjects. sj_identity s = ev_subject e \<and> sj_revision s = ev_revision e \<and>
        set (ev_dependencies e) \<subseteq> set (sj_dependencies s))"

definition within :: "(ttl \<Rightarrow> int) \<Rightarrow> datetime \<Rightarrow> evidence_policy \<Rightarrow> evidence \<Rightarrow> bool" where
  "within limit dt p e \<longleftrightarrow> (\<exists>c t. stamp (ev_captured_at e) c \<and> map_of (ep_ttls p) (ev_risk e) = Some t \<and>
     whole_seconds (instant dt - instant c) \<le> limit t)"

definition moved :: "evidence_policy \<Rightarrow> subject \<Rightarrow> evidence \<Rightarrow> bool" where
  "moved p s e \<longleftrightarrow> ev_revision e \<noteq> sj_revision s \<or> ev_policy e \<noteq> ep_version p \<or>
     unresolved_dependencies s e \<noteq> [] \<or> changed_dependencies s e \<noteq> []"

lemma code_if_set [simp]: "set (code_if c reason) = (if c then {reason} else {})"
  by (simp add: code_if_def)

lemma appraise_subject_state:
  assumes "map_of (ep_ttls p) (ev_risk e) = Some t"
  shows "snd (appraise_subject p s e age) = ''current'' \<longleftrightarrow> \<not> moved p s e \<and> age \<le> tt_expires t \<and> age \<le> tt_stale t"
    and "snd (appraise_subject p s e age) = ''stale'' \<longleftrightarrow> \<not> moved p s e \<and> age \<le> tt_expires t \<and> tt_stale t < age"
    and "snd (appraise_subject p s e age) \<in> set STATE_ORDER"
proof -
  define rev where "rev = (ev_revision e \<noteq> sj_revision s)"
  define pol where "pol = (ev_policy e \<noteq> ep_version p)"
  define unr where "unr = (unresolved_dependencies s e \<noteq> [])"
  define chg where "chg = (changed_dependencies s e \<noteq> [])"
  define old where "old = (tt_expires t < age)"
  define aged where "aged = (tt_stale t < age)"
  have eq: "snd (appraise_subject p s e age) = (if rev then ''superseded'' else if pol \<or> chg then ''invalidated''
      else if unr then ''unverifiable'' else if old then ''expired'' else if aged then ''stale'' else ''current'')"
    unfolding appraise_subject_def Let_def rev_def [symmetric] pol_def [symmetric] unr_def [symmetric]
      chg_def [symmetric] assms option.case old_def [symmetric] aged_def [symmetric]
    by simp
  have moved: "moved p s e \<longleftrightarrow> rev \<or> pol \<or> unr \<or> chg"
    by (simp add: moved_def rev_def pol_def unr_def chg_def)
  have ages: "age \<le> tt_expires t \<longleftrightarrow> \<not> old" "age \<le> tt_stale t \<longleftrightarrow> \<not> aged" "tt_stale t < age \<longleftrightarrow> aged"
    by (auto simp: old_def aged_def)
  show "snd (appraise_subject p s e age) = ''current'' \<longleftrightarrow> \<not> moved p s e \<and> age \<le> tt_expires t \<and> age \<le> tt_stale t"
    "snd (appraise_subject p s e age) = ''stale'' \<longleftrightarrow> \<not> moved p s e \<and> age \<le> tt_expires t \<and> tt_stale t < age"
    unfolding eq moved ages by simp_all
  show "snd (appraise_subject p s e age) \<in> set STATE_ORDER"
    by (simp add: eq STATE_ORDER_def)
qed

lemma dependencies_in_place:
  assumes "distinct (map dp_kind (sj_dependencies s))"
  shows "unresolved_dependencies s e = [] \<and> changed_dependencies s e = [] \<longleftrightarrow>
    set (ev_dependencies e) \<subseteq> set (sj_dependencies s)"
proof -
  have found: "current_digest s (dp_kind x) = Some (dp_digest x) \<longleftrightarrow> x \<in> set (sj_dependencies s)" for x
  proof -
    have same: "y = x" if "dp_kind y = dp_kind x" "dp_digest y = dp_digest x" for y
      using that by (cases x; cases y) simp
    have "distinct (map fst (map (\<lambda>x. (dp_kind x, dp_digest x)) (sj_dependencies s)))"
      using assms by (simp add: comp_def)
    then have "current_digest s (dp_kind x) = Some (dp_digest x) \<longleftrightarrow>
        (\<exists>y\<in>set (sj_dependencies s). dp_kind y = dp_kind x \<and> dp_digest y = dp_digest x)"
      unfolding current_digest_def map_of_eq_Some_iff [OF \<open>distinct (map fst _)\<close>] 
      by (simp add: image_iff) (metis (no_types))
    then show ?thesis using same by blast
  qed
  have "(\<forall>x\<in>D. f x \<noteq> None) \<and> (\<forall>x\<in>D. \<not> (case f x of None \<Rightarrow> False | Some h \<Rightarrow> h \<noteq> g x)) \<longleftrightarrow>
      (\<forall>x\<in>D. f x = Some (g x))" for D :: "dependency set" and f :: "dependency \<Rightarrow> string option" and g
    by (auto simp del: not_None_eq split: option.splits)
  then show ?thesis
    unfolding unresolved_dependencies_def changed_dependencies_def map_is_Nil_conv filter_empty_conv
    by (simp only: found subset_iff Ball_def)
qed

lemma by_key_cases:
  assumes "distinct (map key xs)"
  obtains (known) x where "x \<in> set xs" "key x = k" "by_key key xs k = Some x"
  | (unknown) "k \<notin> key ` set xs" "by_key key xs k = None"
proof (cases "k \<in> key ` set xs")
  case True
  with known by_key_found [OF assms] show thesis by blast
next
  case False
  then have "by_key key xs k = None" by (simp add: by_key_def map_of_eq_None_iff image_image)
  with False unknown show thesis by blast
qed

lemma appraisal_state:
  assumes "wf_admissibility r dt" and "a \<in> set (er_evidence r)"
  shows "ap_state a = ''current'' \<longleftrightarrow> unmoved (er_policy r) (er_subjects r) (ap_record a) \<and> within tt_stale dt (er_policy r) (ap_record a)"
    and "ap_state a \<in> {''current'', ''stale''} \<longleftrightarrow>
      unmoved (er_policy r) (er_subjects r) (ap_record a) \<and> within tt_expires dt (er_policy r) (ap_record a)"
    and "ap_state a \<in> set STATE_ORDER"
proof -
  define p where "p = er_policy r"
  define ss where "ss = er_subjects r"
  define e where "e = ap_record a"
  note wf = assms(1) [unfolded wf_admissibility_def, folded p_def ss_def]
  from wf assms(2) have a: "wf_evidence e" "derive_assessment dt p ss e = Inr a"
    by (auto simp: list_all_iff wf_appraisal_def e_def)
  from a(2,1) obtain c where c: "stamp (ev_captured_at e) c"
    "a = appraise p ss e (max 0 (whole_seconds (instant dt - instant c)))"
    by (rule derive_assessment_elim)
  define age where "age = max 0 (whole_seconds (instant dt - instant c))"
  have a_eq: "a = appraise p ss e age" using c(2) by (simp add: age_def)
  have "ev_risk e \<in> fst ` set (ep_ttls p)"
  proof -
    have "ev_risk e \<in> set RISK_CLASSES" using a(1) by (simp add: wf_evidence_def names_one_def)
    moreover have "map fst (ep_ttls p) = RISK_CLASSES" using wf by (simp add: wf_evidence_policy_def)
    ultimately show ?thesis by (metis set_map)
  qed
  then obtain t where t: "map_of (ep_ttls p) (ev_risk e) = Some t"
    by (metis map_of_eq_None_iff not_None_eq)
  then have "(ev_risk e, t) \<in> set (ep_ttls p)" by (rule map_of_SomeD)
  then have "wf_ttl t" using wf by (force simp: wf_evidence_policy_def list_all_iff)
  then have pos: "1 \<le> tt_stale t" "tt_stale t < tt_expires t" by (simp_all add: wf_ttl_def)
  have within: "within limit dt p e \<longleftrightarrow> age \<le> limit t" if "1 \<le> limit t" for limit
    using c(1) t that by (auto simp: within_def age_def dest: stamp_unique)
  have ws: "within tt_stale dt p e \<longleftrightarrow> age \<le> tt_stale t" and we: "within tt_expires dt p e \<longleftrightarrow> age \<le> tt_expires t"
    using pos by (simp_all add: within)
  have dist: "distinct (map sj_identity ss)" using wf by simp
  have "(ap_state a = ''current'' \<longleftrightarrow> unmoved p ss e \<and> age \<le> tt_stale t) \<and>
      (ap_state a = ''current'' \<or> ap_state a = ''stale'' \<longleftrightarrow> unmoved p ss e \<and> age \<le> tt_expires t) \<and>
      ap_state a \<in> set STATE_ORDER"
    using dist
  proof (cases rule: by_key_cases [where k = "ev_subject e"])
    case (known s)
    then have "distinct (map dp_kind (sj_dependencies s))"
      using wf by (auto simp: list_all_iff wf_subject_def wf_dependencies_def)
    note deps = dependencies_in_place [OF this, of e]
    have only: "s' = s" if "s' \<in> set ss" "sj_identity s' = ev_subject e" for s'
      using dist known that by (auto simp: distinct_map inj_on_def)
    have "unmoved p ss e \<longleftrightarrow> \<not> moved p s e"
      unfolding unmoved_def moved_def using known only deps by metis
    moreover have "ap_state a = snd (appraise_subject p s e age)"
      by (simp add: a_eq appraise_def known(3) split: prod.split)
    ultimately show ?thesis
      using appraise_subject_state [OF t, of s age] pos by auto
  next
    case unknown
    then have "\<not> unmoved p ss e" by (force simp: unmoved_def)
    moreover have "ap_state a = ''unverifiable''" by (simp add: a_eq appraise_def unknown(2))
    ultimately show ?thesis by (simp add: STATE_ORDER_def)
  qed
  then show "ap_state a = ''current'' \<longleftrightarrow> unmoved (er_policy r) (er_subjects r) (ap_record a) \<and> within tt_stale dt (er_policy r) (ap_record a)"
    "ap_state a \<in> {''current'', ''stale''} \<longleftrightarrow>
      unmoved (er_policy r) (er_subjects r) (ap_record a) \<and> within tt_expires dt (er_policy r) (ap_record a)"
    "ap_state a \<in> set STATE_ORDER"
    unfolding p_def [symmetric] ss_def [symmetric] e_def [symmetric] ws we by blast+
qed

lemma evidence_status_exact:
  assumes "set states \<subseteq> set STATE_ORDER"
  shows "evidence_status states = ''complete'' \<longleftrightarrow> set states \<subseteq> {''current''}"
    and "evidence_status states = ''blocked'' \<longleftrightarrow> \<not> set states \<subseteq> {''current'', ''stale''}"
proof -
  define bad where "bad = (\<not> set states \<subseteq> {''current'', ''stale''})"
  have "list_ex (\<lambda>s. s \<in> set states) [''superseded'', ''invalidated'', ''unverifiable'', ''expired''] \<longleftrightarrow> bad"
    using assms unfolding bad_def STATE_ORDER_def by auto
  then have eq: "evidence_status states =
      (if bad then ''blocked'' else if ''stale'' \<in> set states then ''partial'' else ''complete'')"
    by (simp add: evidence_status_def)
  have "\<not> bad \<and> ''stale'' \<notin> set states \<longleftrightarrow> set states \<subseteq> {''current''}"
    unfolding bad_def by auto
  then show "evidence_status states = ''complete'' \<longleftrightarrow> set states \<subseteq> {''current''}"
    by (auto simp: eq)
  show "evidence_status states = ''blocked'' \<longleftrightarrow> \<not> set states \<subseteq> {''current'', ''stale''}"
    by (simp add: eq bad_def)
qed


section \<open>What the queue holds\<close>

text \<open>The records that share a fingerprint and are no longer current, in the order of the report.\<close>

definition group_of :: "appraisal list \<Rightarrow> string \<Rightarrow> appraisal list" where
  "group_of evidence f = filter (\<lambda>a. ap_state a \<noteq> ''current'' \<and> fingerprint a = f) evidence"

definition collect :: "appraisal list \<Rightarrow> queue_item" where
  "collect peers = fold add_to_item peers (new_queue_item (hd peers))"

text \<open>What an item of the queue says of a group of records.\<close>

definition represents :: "queue_item \<Rightarrow> appraisal list \<Rightarrow> bool" where
  "represents q peers \<longleftrightarrow> peers \<noteq> []
     \<and> qi_subject q = ev_subject (ap_record (hd peers)) \<and> qi_kind q = ev_kind (ap_record (hd peers))
     \<and> qi_revision q = ap_current_revision (hd peers)
     \<and> (\<forall>a\<in>set peers. ev_owner (ap_record a) = qi_owner q)
     \<and> set (qi_evidence q) = (ev_identity \<circ> ap_record) ` set peers
     \<and> set (qi_states q) = ap_state ` set peers
     \<and> set (qi_reasons q) = (\<Union>a\<in>set peers. set (ap_reasons a))
     \<and> set (qi_changed q) = (\<Union>a\<in>set peers. set (ap_changed a))
     \<and> set (qi_unresolved q) = (\<Union>a\<in>set peers. set (ap_unresolved a))
     \<and> qi_highest q \<in> ap_state ` set peers
     \<and> (\<forall>a\<in>set peers. STATE_SEVERITY (ap_state a) \<le> STATE_SEVERITY (qi_highest q))"

lemma group_of_snoc: "group_of (xs @ [a]) f =
    group_of xs f @ (if ap_state a \<noteq> ''current'' \<and> fingerprint a = f then [a] else [])"
  by (simp add: group_of_def)

lemma collect_snoc: "peers \<noteq> [] \<Longrightarrow> collect (peers @ [a]) = add_to_item a (collect peers)"
  by (simp add: collect_def)

lemma collect_single: "collect [a] = add_to_item a (new_queue_item a)"
  by (simp add: collect_def)

lemma represents_add:
  assumes q: "represents q peers" and own: "ev_owner (ap_record a) = qi_owner q"
  shows "represents (add_to_item a q) (peers @ [a])"
proof -
  define worse where "worse = (STATE_SEVERITY (qi_highest q) < STATE_SEVERITY (ap_state a))"
  have highest: "qi_highest (add_to_item a q) = (if worse then ap_state a else qi_highest q)"
    by (simp add: add_to_item_def worse_def)
  note parts = q [unfolded represents_def]
  have "peers \<noteq> []" using parts by blast
  then have hd: "hd (peers @ [a]) = hd peers" by simp
  have "qi_highest (add_to_item a q) \<in> ap_state ` set (peers @ [a])"
    using parts by (cases worse) (simp_all add: highest)
  moreover have "\<forall>b\<in>set (peers @ [a]). STATE_SEVERITY (ap_state b) \<le> STATE_SEVERITY (qi_highest (add_to_item a q))"
  proof (cases worse)
    case True
    then have "STATE_SEVERITY (qi_highest q) \<le> STATE_SEVERITY (ap_state a)" by (simp add: worse_def)
    with parts True show ?thesis by (auto simp: highest intro: order_trans)
  next
    case False
    then have "STATE_SEVERITY (ap_state a) \<le> STATE_SEVERITY (qi_highest q)" by (simp add: worse_def)
    with parts False show ?thesis by (auto simp: highest)
  qed
  moreover have "set (qi_evidence (add_to_item a q)) = (ev_identity \<circ> ap_record) ` set (peers @ [a])"
    "set (qi_states (add_to_item a q)) = ap_state ` set (peers @ [a])"
    "set (qi_reasons (add_to_item a q)) = (\<Union>a\<in>set (peers @ [a]). set (ap_reasons a))"
    "set (qi_changed (add_to_item a q)) = (\<Union>a\<in>set (peers @ [a]). set (ap_changed a))"
    "set (qi_unresolved (add_to_item a q)) = (\<Union>a\<in>set (peers @ [a]). set (ap_unresolved a))"
    using parts by (simp_all add: add_to_item_def Un_commute)
  moreover have "qi_subject (add_to_item a q) = qi_subject q" "qi_kind (add_to_item a q) = qi_kind q"
    "qi_revision (add_to_item a q) = qi_revision q" "qi_owner (add_to_item a q) = qi_owner q"
    by (simp_all add: add_to_item_def)
  ultimately show ?thesis
    using parts own unfolding represents_def hd by simp
qed

lemma collect_represents:
  assumes "peers \<noteq> []" and "\<And>a. a \<in> set peers \<Longrightarrow> ev_owner (ap_record a) = ev_owner (ap_record (hd peers))"
  shows "represents (collect peers) peers \<and> qi_owner (collect peers) = ev_owner (ap_record (hd peers))
    \<and> qi_fingerprint (collect peers) = fingerprint (hd peers)"
  using assms
proof (induction peers rule: rev_induct)
  case (snoc a peers)
  show ?case
  proof (cases "peers = []")
    case True
    then show ?thesis by (simp add: represents_def collect_single add_to_item_def new_queue_item_def)
  next
    case False
    then have hd: "hd (peers @ [a]) = hd peers" by simp
    have IH: "represents (collect peers) peers" "qi_owner (collect peers) = ev_owner (ap_record (hd peers))"
      "qi_fingerprint (collect peers) = fingerprint (hd peers)"
      using snoc.IH [OF False] snoc.prems(2) by (simp_all add: hd)
    moreover have "ev_owner (ap_record a) = ev_owner (ap_record (hd peers))"
      using snoc.prems(2) [of a] by (simp add: hd)
    ultimately show ?thesis
      unfolding hd collect_snoc [OF False] by (simp add: represents_add) (simp add: add_to_item_def)
  qed
qed simp

lemma finish_represents [simp]:
  "represents (finish_item q) peers \<longleftrightarrow> represents q peers" "qi_fingerprint (finish_item q) = qi_fingerprint q"
  by (simp_all add: represents_def finish_item_def set_sorted_def)

text \<open>The dictionary of groups, after some prefix of the records.\<close>

definition grouped_so_far :: "appraisal list \<Rightarrow> (string \<times> queue_item) list \<Rightarrow> bool" where
  "grouped_so_far seen grouped \<longleftrightarrow> distinct (map fst grouped) \<and>
     (\<forall>f. map_of grouped f = (if group_of seen f = [] then None else Some (collect (group_of seen f)))) \<and>
     (\<forall>f. \<forall>a\<in>set (group_of seen f). ev_owner (ap_record a) = ev_owner (ap_record (hd (group_of seen f))))"

lemma enqueue_step:
  assumes so_far: "grouped_so_far seen grouped" and "enqueue grouped a = Inr grouped'"
  shows "grouped_so_far (seen @ [a]) grouped'"
proof (cases "ap_state a = ''current''")
  case True
  then show ?thesis using assms by (simp add: enqueue_def grouped_so_far_def group_of_snoc)
next
  case False
  define f where "f = fingerprint a"
  define old where "old = group_of seen f"
  have map: "map_of grouped g = (if group_of seen g = [] then None else Some (collect (group_of seen g)))"
    and own: "\<And>b. b \<in> set (group_of seen g) \<Longrightarrow> ev_owner (ap_record b) = ev_owner (ap_record (hd (group_of seen g)))"
    for g using so_far by (simp_all add: grouped_so_far_def)
  have snoc: "group_of (seen @ [a]) g = (if g = f then old @ [a] else group_of seen g)" for g
    using False by (auto simp: group_of_snoc f_def old_def)
  have new: "grouped' = dict_set grouped f (collect (old @ [a])) \<and>
      (old \<noteq> [] \<longrightarrow> ev_owner (ap_record a) = ev_owner (ap_record (hd old)))"
  proof (cases "old = []")
    case True
    then show ?thesis
      using assms(2) False map [of f]
      by (simp add: enqueue_def f_def [symmetric] old_def [symmetric] collect_single)
  next
    case old: False
    have "ev_owner (ap_record b) = ev_owner (ap_record (hd old))" if "b \<in> set old" for b
      using that unfolding old_def by (rule own)
    from collect_represents [OF old this]
    have "qi_owner (collect old) = ev_owner (ap_record (hd old))" by blast
    with old show ?thesis
      using assms(2) False map [of f]
      by (simp add: enqueue_def f_def [symmetric] old_def [symmetric] collect_snoc split: if_splits)
  qed
  have "ev_owner (ap_record b) = ev_owner (ap_record (hd (group_of (seen @ [a]) g)))"
    if b: "b \<in> set (group_of (seen @ [a]) g)" for b g
  proof (cases "g = f \<and> old \<noteq> []")
    case True
    then have "ev_owner (ap_record b) = ev_owner (ap_record (hd old))"
      using b own [of b f] new by (simp add: snoc old_def) blast
    with True show ?thesis by (simp add: snoc)
  next
    case False
    with b own [of b g] show ?thesis by (cases "g = f") (simp_all add: snoc)
  qed
  moreover have "map_of grouped' g = (if group_of (seen @ [a]) g = [] then None
      else Some (collect (group_of (seen @ [a]) g)))" for g
    using new map [of g] by (auto simp: snoc map_of_dict_set)
  ultimately show ?thesis
    using so_far new by (simp add: grouped_so_far_def distinct_dict_set)
qed

lemma enqueue_all: "foldE enqueue [] evidence = Inr grouped \<Longrightarrow> grouped_so_far evidence grouped"
proof (induction evidence arbitrary: grouped rule: rev_induct)
  case Nil
  then show ?case by (simp add: grouped_so_far_def group_of_def)
next
  case (snoc a evidence)
  then obtain before_a where "foldE enqueue [] evidence = Inr before_a" "enqueue before_a a = Inr grouped"
    by (auto simp: foldE_append elim!: bindE_InrE)
  then show ?case using snoc.IH enqueue_step by blast
qed

lemma queue_exact:
  assumes "build_recertification_queue evidence = Inr items"
  shows "sorted (map qi_fingerprint items) \<and> distinct (map qi_fingerprint items) \<and>
    qi_fingerprint ` set items = fingerprint ` {a \<in> set evidence. ap_state a \<noteq> ''current''} \<and>
    (\<forall>q\<in>set items. represents q (group_of evidence (qi_fingerprint q)))"
proof -
  from assms obtain grouped where g: "foldE enqueue [] evidence = Inr grouped"
    and items: "items = map (finish_item \<circ> snd) (sort_key fst grouped)"
    unfolding build_recertification_queue_def Let_def by (elim bindE_InrE) simp
  note so_far = enqueue_all [OF g, unfolded grouped_so_far_def]
  have entry: "q = collect (group_of evidence f) \<and> group_of evidence f \<noteq> [] \<and> qi_fingerprint q = f \<and>
      represents q (group_of evidence f)" if "(f, q) \<in> set grouped" for f q
  proof -
    have "distinct (map fst grouped)" using so_far by blast
    then have "map_of grouped f = Some q" using that by simp
    then have "Some q = (if group_of evidence f = [] then None else Some (collect (group_of evidence f)))"
      using so_far by metis
    then have q: "group_of evidence f \<noteq> []" "q = collect (group_of evidence f)"
      by (simp_all split: if_splits)
    have "hd (group_of evidence f) \<in> set (group_of evidence f)" using q(1) by simp
    then have "fingerprint (hd (group_of evidence f)) = f" by (simp add: group_of_def)
    moreover have "ev_owner (ap_record b) = ev_owner (ap_record (hd (group_of evidence f)))"
      if "b \<in> set (group_of evidence f)" for b
      using so_far that by blast
    from collect_represents [OF q(1) this]
    have "represents q (group_of evidence f)" "qi_fingerprint q = fingerprint (hd (group_of evidence f))"
      unfolding q(2) by blast+
    ultimately show ?thesis using q by simp
  qed
  have keys: "map qi_fingerprint items = map fst (sort_key fst grouped)"
    unfolding items by (simp add: comp_def) (use entry in fastforce)
  have "fst ` set grouped = fingerprint ` {a \<in> set evidence. ap_state a \<noteq> ''current''}"
  proof -
    have "f \<in> fst ` set grouped \<longleftrightarrow> group_of evidence f \<noteq> []" for f
      using so_far map_of_eq_None_iff [of grouped f] by (metis option.distinct(1))
    then show ?thesis unfolding set_eq_iff by (simp add: group_of_def filter_empty_conv image_iff) blast
  qed
  then have "qi_fingerprint ` set items = fingerprint ` {a \<in> set evidence. ap_state a \<noteq> ''current''}"
    using keys by (metis list.set_map set_sort)
  moreover have "sorted (map qi_fingerprint items)" "distinct (map qi_fingerprint items)"
    unfolding keys using so_far by (simp_all add: distinct_map)
  moreover have "\<forall>q\<in>set items. represents q (group_of evidence (qi_fingerprint q))"
    using entry by (force simp: items)
  ultimately show ?thesis by blast
qed

text \<open>The queue is refused only when one group has two owners, or when it is not publishable.\<close>

lemma enqueue_refused:
  assumes "enqueue grouped a = Inl e"
  shows "\<exists>q. map_of grouped (fingerprint a) = Some q \<and> qi_owner q \<noteq> ev_owner (ap_record a) \<and> ap_state a \<noteq> ''current''"
  using assms by (auto simp: enqueue_def split: if_splits option.splits)

section \<open>A sample report\<close>

definition sample_evidence_policy :: evidence_policy where
  "sample_evidence_policy = (let ttls = map (\<lambda>risk. (risk, \<lparr>tt_stale = 60, tt_expires = 120\<rparr>)) RISK_CLASSES;
      p = \<lparr>ep_version = [], ep_skew = 300, ep_ttls = ttls\<rparr>
    in p\<lparr>ep_version := sha256_value (JObj (evidence_policy_material p))\<rparr>)"

definition sample_subject :: subject where
  "sample_subject = \<lparr>sj_identity = digest_a, sj_revision = digest_b, sj_dependencies = []\<rparr>"

text \<open>The evidence \<open>x\<close> on the subject \<open>s\<close>.\<close>

definition sample_evidence :: "string \<Rightarrow> string \<Rightarrow> evidence" where
  "sample_evidence x s = \<lparr>ev_identity = x, ev_kind = ''documentation'', ev_subject = s, ev_revision = digest_b,
     ev_producer = digest_a, ev_captured_at = timestamp sample_time, ev_policy = ep_version sample_evidence_policy,
     ev_payload = digest_a, ev_risk = ''documentation'', ev_owner = digest_b, ev_dependencies = []\<rparr>"

definition sample_current :: appraisal where
  "sample_current = \<lparr>ap_record = sample_evidence digest_a digest_a, ap_current_revision = Some digest_b, ap_age = 0,
     ap_state = ''current'', ap_reasons = [], ap_changed = [], ap_unresolved = []\<rparr>"

definition sample_unknown :: appraisal where
  "sample_unknown = \<lparr>ap_record = sample_evidence digest_b digest_b, ap_current_revision = None, ap_age = 0,
     ap_state = ''unverifiable'', ap_reasons = [''subject_unresolved''], ap_changed = [], ap_unresolved = []\<rparr>"

definition sample_queue :: "queue_item list" where
  "sample_queue = [finish_item (collect [sample_unknown])]"

definition sample_admissibility :: evidence_report where
  "sample_admissibility = \<lparr>er_generated_at = timestamp sample_time, er_policy = sample_evidence_policy,
     er_subjects = [sample_subject], er_evidence = [sample_current, sample_unknown], er_queue = sample_queue\<rparr>"

lemma sample_stamped: "stamp (timestamp sample_time) sample_time"
  by (simp add: stamp_def sample_time_valid)

lemma evidence_words:
  "publishable ''documentation''" "publishable ''current''" "publishable ''unverifiable''" "publishable ''recertify''"
  "publishable ''subject_unresolved''" "publishable ''blocked''" "publishable ADMISSIBILITY_SCHEMA"
  "publishable QUEUE_SCHEMA" "publishable (timestamp sample_time)" "publishable digest_a" "publishable digest_b"
  "publishable (sha256_value v)"
proof -
  show "publishable ''documentation''" "publishable ''current''" "publishable ''unverifiable''"
    "publishable ''recertify''" "publishable ''subject_unresolved''" "publishable ''blocked''"
    "publishable ADMISSIBILITY_SCHEMA" "publishable QUEUE_SCHEMA"
    unfolding ADMISSIBILITY_SCHEMA_def QUEUE_SCHEMA_def by (rule sentence_publishable; simp)+
  show "publishable (timestamp sample_time)" by (rule timestamp_publishable [OF sample_time_valid])
  show "publishable digest_a" "publishable digest_b" "publishable (sha256_value v)"
    by (simp_all add: hex_publishable)
qed

lemma evidence_names: "names_one 64 EVIDENCE_KINDS ''documentation''" "names_one 32 RISK_CLASSES ''documentation''"
  by code_simp+

lemma sample_policy_version: "ep_version sample_evidence_policy = sha256_value (JObj (evidence_policy_material sample_evidence_policy))"
  "ep_skew sample_evidence_policy = 300"
  "ep_ttls sample_evidence_policy = map (\<lambda>risk. (risk, \<lparr>tt_stale = 60, tt_expires = 120\<rparr>)) RISK_CLASSES"
  by (simp_all add: sample_evidence_policy_def Let_def evidence_policy_material_def)

lemma sample_ttls_wf: "wf_evidence_policy sample_evidence_policy"
  unfolding wf_evidence_policy_def sample_policy_version
  by (simp add: EVIDENCE_CLOCK_SKEW_def list_all_iff wf_ttl_def MAX_TTL_SECONDS_def comp_def)

lemma sample_evidence_wf: "is_sha256_text x \<Longrightarrow> is_sha256_text s \<Longrightarrow> wf_evidence (sample_evidence x s)"
  using sample_stamped
  by (auto simp: wf_evidence_def sample_evidence_def evidence_names wf_dependencies_def sample_policy_version)

lemma sample_evidence_strings:
  "publishable x \<Longrightarrow> publishable s \<Longrightarrow>
     strings_of (JObj (evidence_material (sample_evidence x s))) \<subseteq> {s. publishable s}"
  by (simp add: evidence_material_def sample_evidence_def evidence_words sample_policy_version)

lemma sample_appraisals:
  "appraise sample_evidence_policy [sample_subject] (sample_evidence digest_a digest_a) 0 = sample_current"
  "appraise sample_evidence_policy [sample_subject] (sample_evidence digest_b digest_b) 0 = sample_unknown"
proof -
  have "map_of (ep_ttls sample_evidence_policy) ''documentation'' = Some \<lparr>tt_stale = 60, tt_expires = 120\<rparr>"
    by (simp add: sample_policy_version RISK_CLASSES_def)
  moreover have "by_key sj_identity [sample_subject] digest_a = Some sample_subject"
    "by_key sj_identity [sample_subject] digest_b = None"
    by (simp_all add: by_key_def sample_subject_def)
  ultimately show
    "appraise sample_evidence_policy [sample_subject] (sample_evidence digest_a digest_a) 0 = sample_current"
    "appraise sample_evidence_policy [sample_subject] (sample_evidence digest_b digest_b) 0 = sample_unknown"
    by (simp_all add: appraise_def sample_evidence_def sample_current_def sample_unknown_def appraise_subject_def
        Let_def code_if_def unresolved_dependencies_def changed_dependencies_def sample_subject_def)
qed

lemma sample_appraisal_strings:
  "strings_of (JObj (appraisal_dict sample_current)) \<subseteq> {s. publishable s}"
  "strings_of (JObj (appraisal_dict sample_unknown)) \<subseteq> {s. publishable s}"
  using sample_evidence_strings [of digest_a digest_a] sample_evidence_strings [of digest_b digest_b]
  by (simp_all add: appraisal_dict_def appraisal_derived_def sample_current_def sample_unknown_def evidence_words)

lemma sample_appraisals_wf:
  "wf_appraisal sample_time sample_evidence_policy [sample_subject] sample_current"
  "wf_appraisal sample_time sample_evidence_policy [sample_subject] sample_unknown"
proof -
  have "shifted sample_time 300 = Inr (instant sample_time + 300000000)"
    by (simp add: shifted_iff min_instant_def max_instant_def usec_per_day_def instant_def ymd2ord_def
        days_before_year_def days_before_month_def days_in_month_def usec_of_day_def sample_time_def)
  moreover have "ev_captured_at (sample_evidence x s) = timestamp sample_time" for x s
    by (simp add: sample_evidence_def)
  moreover have "parse_datetime (JStr (timestamp sample_time)) f = Inr (timestamp sample_time, sample_time)" for f
    using sample_stamped by simp
  moreover have "whole_seconds 0 = 0" by (simp add: whole_seconds_def)
  ultimately have *: "derive_assessment sample_time sample_evidence_policy [sample_subject] (sample_evidence x s) =
      (let a = appraise sample_evidence_policy [sample_subject] (sample_evidence x s) 0 in
       bindE (validate_public_safety (JObj (appraisal_dict a))) (\<lambda>_. Inr a))" for x s
    by (simp add: derive_assessment_def sample_policy_version Let_def)
  have "ap_record sample_current = sample_evidence digest_a digest_a"
    "ap_record sample_unknown = sample_evidence digest_b digest_b"
    by (simp_all add: sample_current_def sample_unknown_def)
  then show "wf_appraisal sample_time sample_evidence_policy [sample_subject] sample_current"
    "wf_appraisal sample_time sample_evidence_policy [sample_subject] sample_unknown"
    using sample_appraisal_strings
    by (simp_all add: wf_appraisal_def sample_evidence_wf * sample_appraisals Let_def
        public_safety_iff [THEN iffD2])
qed

lemma sample_queue_strings: "strings_of (recertification_json sample_queue) \<subseteq> {s. publishable s}"
  by (simp add: recertification_json_def queue_material_def sample_queue_def queue_item_json_def finish_item_def
      set_sorted_def collect_single add_to_item_def new_queue_item_def sample_unknown_def sample_evidence_def
      fingerprint_def evidence_words)

lemma sample_queue_build: "build_recertification_queue [sample_current, sample_unknown] = Inr sample_queue"
proof -
  have "foldE enqueue [] [sample_current, sample_unknown] =
      Inr [(fingerprint sample_unknown, collect [sample_unknown])]"
    by (simp add: enqueue_def collect_single, simp add: sample_current_def sample_unknown_def)
  then show ?thesis
    using sample_queue_strings
    by (simp add: build_recertification_queue_def Let_def sample_queue_def [symmetric] public_safety_iff [THEN iffD2])
qed

lemma sample_admissibility_wf: "wf_admissibility sample_admissibility sample_time"
proof -
  have "digest_a \<le> digest_b" by code_simp
  moreover have "ev_identity (ap_record sample_current) = digest_a" "ev_identity (ap_record sample_unknown) = digest_b"
    by (simp_all add: sample_current_def sample_unknown_def sample_evidence_def)
  moreover have "wf_subject sample_subject"
    by (simp add: wf_subject_def sample_subject_def wf_dependencies_def)
  ultimately show ?thesis
    by (simp add: wf_admissibility_def sample_admissibility_def sample_stamped sample_ttls_wf sample_appraisals_wf
        sample_queue_build MAX_EVIDENCE_def)
qed

lemma sample_admissibility_build:
  "build_evidence_admissibility_report (JObj (admissibility_dict sample_admissibility)) None = Inr sample_admissibility"
proof (rule admissibility.rebuild)
  show "derive_admissibility (admissibility_dict sample_admissibility) None = Inr sample_admissibility"
    by (rule derive_admissibility_again [OF sample_admissibility_wf]) (simp add: check_evidence_now_def)
  have status: "evidence_status [''current'', ''unverifiable''] = ''blocked''" by (simp add: evidence_status_def)
  have states: "map ap_state [sample_current, sample_unknown] = [''current'', ''unverifiable'']"
    by (simp add: sample_current_def sample_unknown_def)
  have "strings_of (evidence_summary sample_admissibility) \<subseteq> {s. publishable s}"
    using states by (simp add: evidence_summary_def Let_def sample_admissibility_def status evidence_words)
  moreover have "strings_of (evidence_policy_json sample_evidence_policy) \<subseteq> {s. publishable s}"
    by (simp add: evidence_policy_json_def evidence_policy_material_def sample_policy_version evidence_words ttl_json_def
        RISK_CLASSES_def)
  moreover have "strings_of (subject_json sample_subject) \<subseteq> {s. publishable s}"
    by (simp add: subject_json_def sample_subject_def evidence_words)
  ultimately show "validate_public_safety (JObj (admissibility_dict sample_admissibility)) = Inr ()"
    using sample_queue_strings sample_appraisal_strings
    unfolding public_safety_iff
    by (simp add: admissibility_dict_def admissibility_material_def evidence_words del: strings_of.simps(3),
        simp add: sample_admissibility_def evidence_words)
qed


section \<open>Properties\<close>

text \<open>
  C23. A record of an accepted report is current exactly when its subject is known at the revision it
  was taken from, its policy is the one in force, every dependency still has its digest, and its age
  is at most the warning limit of its risk class. The report is complete exactly when every record
  is current, and blocked exactly when some record does not hold even up to its expiry limit.
\<close>

theorem evidence_exact:
  assumes "build_evidence_admissibility_report v now = Inr r"
  shows "\<exists>dt. stamp (er_generated_at r) dt \<and>
    (\<forall>a\<in>set (er_evidence r). ap_state a = ''current'' \<longleftrightarrow>
       unmoved (er_policy r) (er_subjects r) (ap_record a) \<and> within tt_stale dt (er_policy r) (ap_record a)) \<and>
    (evidence_status (map ap_state (er_evidence r)) = ''complete'' \<longleftrightarrow>
       (\<forall>a\<in>set (er_evidence r). ap_state a = ''current'')) \<and>
    (evidence_status (map ap_state (er_evidence r)) = ''blocked'' \<longleftrightarrow>
       (\<exists>a\<in>set (er_evidence r). \<not> (unmoved (er_policy r) (er_subjects r) (ap_record a) \<and>
          within tt_expires dt (er_policy r) (ap_record a))))"
proof -
  from admissibility.build_elim [OF assms] obtain root where "derive_admissibility root now = Inr r" .
  then obtain dt where wf: "wf_admissibility r dt" by (rule derive_admissibility_sound)
  note state = appraisal_state [OF wf]
  have "set (map ap_state (er_evidence r)) \<subseteq> set STATE_ORDER" using state(3) by auto
  note status = evidence_status_exact [OF this]
  have "stamp (er_generated_at r) dt" using wf by (simp add: wf_admissibility_def)
  moreover have "evidence_status (map ap_state (er_evidence r)) = ''complete'' \<longleftrightarrow>
      (\<forall>a\<in>set (er_evidence r). ap_state a = ''current'')"
    unfolding status set_map by blast
  moreover have "evidence_status (map ap_state (er_evidence r)) = ''blocked'' \<longleftrightarrow>
      (\<exists>a\<in>set (er_evidence r). ap_state a \<notin> {''current'', ''stale''})"
    unfolding status set_map by blast
  moreover have "\<forall>a\<in>set (er_evidence r). (ap_state a \<notin> {''current'', ''stale''}) =
      (\<not> (unmoved (er_policy r) (er_subjects r) (ap_record a) \<and> within tt_expires dt (er_policy r) (ap_record a)))"
    using state(2) by blast
  then have "(\<exists>a\<in>set (er_evidence r). ap_state a \<notin> {''current'', ''stale''}) \<longleftrightarrow>
      (\<exists>a\<in>set (er_evidence r). \<not> (unmoved (er_policy r) (er_subjects r) (ap_record a) \<and>
          within tt_expires dt (er_policy r) (ap_record a)))"
    by blast
  ultimately show ?thesis using state(1) by (intro exI [of _ dt] conjI ballI) simp_all
qed

lemma evidence_exact_witness:
  "evidence_status (map ap_state (er_evidence sample_admissibility)) = ''blocked'' \<and>
   (\<exists>dt. unmoved sample_evidence_policy [sample_subject] (sample_evidence digest_a digest_a) \<and>
      within tt_stale dt sample_evidence_policy (sample_evidence digest_a digest_a))"
proof -
  have "sample_current \<in> set (er_evidence sample_admissibility)" "ap_state sample_current = ''current''"
    "er_policy sample_admissibility = sample_evidence_policy" "er_subjects sample_admissibility = [sample_subject]"
    "ap_record sample_current = sample_evidence digest_a digest_a"
    by (simp_all add: sample_admissibility_def sample_current_def)
  moreover have "evidence_status (map ap_state (er_evidence sample_admissibility)) = ''blocked''"
    by (simp add: sample_admissibility_def sample_current_def sample_unknown_def evidence_status_def)
  ultimately show ?thesis using evidence_exact [OF sample_admissibility_build] by metis
qed

text \<open>
  The recertification queue of an accepted report has one item for each fingerprint of the
  records that are no longer current, in increasing order of fingerprints. An item represents
  exactly the records with its fingerprint: they all have its owner, it lists their identities,
  states, reasons and dependencies, and its highest state is the most severe of theirs.
\<close>

lemma recertification_exact:
  assumes "build_evidence_admissibility_report v now = Inr r"
  shows "sorted (map qi_fingerprint (er_queue r)) \<and> distinct (map qi_fingerprint (er_queue r)) \<and>
    qi_fingerprint ` set (er_queue r) = fingerprint ` {a \<in> set (er_evidence r). ap_state a \<noteq> ''current''} \<and>
    (\<forall>q\<in>set (er_queue r). represents q (group_of (er_evidence r) (qi_fingerprint q)))"
proof -
  from admissibility.build_elim [OF assms] obtain root where "derive_admissibility root now = Inr r" .
  then obtain dt where "wf_admissibility r dt" by (rule derive_admissibility_sound)
  then show ?thesis by (intro queue_exact) (simp add: wf_admissibility_def)
qed

lemma recertification_exact_witness:
  "\<exists>q\<in>set (er_queue sample_admissibility). represents q [sample_unknown] \<and> qi_owner q = digest_b"
proof -
  have "qi_fingerprint ` set (er_queue sample_admissibility) = {fingerprint sample_unknown}"
    using recertification_exact [OF sample_admissibility_build]
    by (auto simp: sample_admissibility_def sample_current_def sample_unknown_def)
  then obtain q where q: "q \<in> set (er_queue sample_admissibility)" "qi_fingerprint q = fingerprint sample_unknown"
    by blast
  then have "represents q (group_of (er_evidence sample_admissibility) (fingerprint sample_unknown))"
    using recertification_exact [OF sample_admissibility_build] by metis
  moreover have "group_of (er_evidence sample_admissibility) (fingerprint sample_unknown) = [sample_unknown]"
    by (simp add: group_of_def sample_admissibility_def, simp add: sample_current_def sample_unknown_def)
  ultimately have "represents q [sample_unknown]" by simp
  moreover from this have "qi_owner q = digest_b"
    by (simp add: represents_def sample_unknown_def sample_evidence_def)
  ultimately show ?thesis using q(1) by blast
qed

end
