(* ===== verification/RecoveryObservation.thy ===== *)
theory RecoveryObservation
  imports RecoveryCommon "HOL-Library.Product_Lexorder"
begin

text \<open>
  \<^verbatim>\<open>src/tools/artifact_recovery/observation.py\<close>: normalisation of a batch of observations, each with
  its origin, target repository, intent, local state, remote evidence and claims.

  The nested dictionaries of a normalised item have fixed keys and are records here; the \<open>_json\<close>
  functions give the dictionaries back, in the order the code builds them.
\<close>

section \<open>Normalised items\<close>

record origin =
  o_source :: string
  o_id :: string
  o_id_kind :: string
  o_observed_at :: string

record obs_target =
  ot_owner :: string
  ot_repository :: string
  ot_identity :: string
  ot_visibility :: "string option"
  ot_artifact_kind :: string
  ot_ownership_resolved :: bool

record obs_intent =
  oi_artifact_expected :: bool
  oi_base_branch :: "string option"
  oi_branch :: "string option"
  oi_pull_request_required :: bool
  oi_allow_repository_creation :: bool

record obs_local =
  ol_artifact :: "artifact option"
  ol_git_repository :: bool
  ol_remote_present :: bool
  ol_branch :: "string option"
  ol_branches :: "string list"
  ol_head_sha :: "string option"
  ol_dirty_paths :: "string list"

record obs_repository =
  or_exists :: bool
  or_visibility :: "string option"
  or_default_branch :: "string option"
  or_url :: "string option"

record remote_branch =
  rb_name :: string
  rb_sha :: string

record remote_commit =
  rc_sha :: string
  rc_url :: string

record pull_request =
  pr_number :: int
  pr_url :: string
  pr_head :: "string option"
  pr_base :: "string option"
  pr_state :: string
  pr_draft :: bool

record obs_remote =
  om_collected :: bool
  om_repository :: obs_repository
  om_branches :: "remote_branch list"
  om_commits :: "remote_commit list"
  om_pull_requests :: "pull_request list"

record obs_claims =
  oc_repository_url :: "string option"
  oc_commit_sha :: "string option"
  oc_branch :: "string option"
  oc_pull_request_url :: "string option"

record item =
  it_origin :: origin
  it_target :: obs_target
  it_intent :: obs_intent
  it_local :: obs_local
  it_remote :: obs_remote
  it_claims :: obs_claims
  it_note :: "string option"

definition repository_json :: "obs_repository \<Rightarrow> json" where
  "repository_json r = JObj [(''exists'', JBool (or_exists r)), (''visibility'', opt_str (or_visibility r)),
     (''default_branch'', opt_str (or_default_branch r)), (''url'', opt_str (or_url r))]"

definition pull_request_json :: "pull_request \<Rightarrow> json" where
  "pull_request_json p = JObj [(''number'', JInt (pr_number p)), (''url'', JStr (pr_url p)),
     (''head'', opt_str (pr_head p)), (''base'', opt_str (pr_base p)), (''state'', JStr (pr_state p)),
     (''draft'', JBool (pr_draft p))]"

definition remote_json :: "obs_remote \<Rightarrow> json" where
  "remote_json m = JObj [(''collected'', JBool (om_collected m)),
     (''repository'', repository_json (om_repository m)),
     (''branches'', JArr (map (\<lambda>b. JObj [(''name'', JStr (rb_name b)), (''sha'', JStr (rb_sha b))]) (om_branches m))),
     (''commits'', JArr (map (\<lambda>c. JObj [(''sha'', JStr (rc_sha c)), (''url'', JStr (rc_url c))]) (om_commits m))),
     (''pull_requests'', JArr (map pull_request_json (om_pull_requests m)))]"

definition claims_json :: "obs_claims \<Rightarrow> json" where
  "claims_json c = JObj [(''repository_url'', opt_str (oc_repository_url c)),
     (''commit_sha'', opt_str (oc_commit_sha c)), (''branch'', opt_str (oc_branch c)),
     (''pull_request_url'', opt_str (oc_pull_request_url c))]"

definition origin_json :: "origin \<Rightarrow> json" where
  "origin_json x = JObj [(''source'', JStr (o_source x)), (''id'', JStr (o_id x)),
     (''id_kind'', JStr (o_id_kind x)), (''observed_at'', JStr (o_observed_at x))]"

definition obs_target_json :: "obs_target \<Rightarrow> json" where
  "obs_target_json t = JObj [(''owner'', JStr (ot_owner t)), (''repository'', JStr (ot_repository t)),
     (''identity'', JStr (ot_identity t)), (''visibility'', opt_str (ot_visibility t)),
     (''artifact_kind'', JStr (ot_artifact_kind t)),
     (''ownership_resolved'', JBool (ot_ownership_resolved t))]"

definition obs_intent_json :: "obs_intent \<Rightarrow> json" where
  "obs_intent_json i = JObj [(''artifact_expected'', JBool (oi_artifact_expected i)),
     (''base_branch'', opt_str (oi_base_branch i)), (''branch'', opt_str (oi_branch i)),
     (''pull_request_required'', JBool (oi_pull_request_required i)),
     (''allow_repository_creation'', JBool (oi_allow_repository_creation i))]"

definition opt_artifact_json :: "artifact option \<Rightarrow> json" where
  "opt_artifact_json a = (case a of None \<Rightarrow> JNull | Some x \<Rightarrow> artifact_json x)"

definition obs_local_json :: "obs_local \<Rightarrow> json" where
  "obs_local_json l = JObj [(''artifact'', opt_artifact_json (ol_artifact l)),
     (''git_repository'', JBool (ol_git_repository l)), (''remote_present'', JBool (ol_remote_present l)),
     (''branch'', opt_str (ol_branch l)), (''branches'', JArr (map JStr (ol_branches l))),
     (''head_sha'', opt_str (ol_head_sha l)), (''dirty_paths'', JArr (map JStr (ol_dirty_paths l)))]"

definition item_json :: "item \<Rightarrow> json" where
  "item_json x = JObj [(''origin'', origin_json (it_origin x)), (''target'', obs_target_json (it_target x)),
     (''intent'', obs_intent_json (it_intent x)), (''local'', obs_local_json (it_local x)),
     (''remote'', remote_json (it_remote x)), (''claims'', claims_json (it_claims x)),
     (''note'', opt_str (it_note x))]"

definition ledger_key :: "item \<Rightarrow> string" where
  "ledger_key x = o_source (it_origin x) @ '':'' @ o_id (it_origin x) @ ''::'' @ ot_identity (it_target x)"

section \<open>Normalisation of an item\<close>

definition truthy :: "json \<Rightarrow> bool" where
  "truthy v = (case v of JNull \<Rightarrow> False | JBool b \<Rightarrow> b | JInt i \<Rightarrow> i \<noteq> 0 | JFloat r i \<Rightarrow> i \<noteq> Some 0
     | JStr s \<Rightarrow> s \<noteq> [] | JArr xs \<Rightarrow> xs \<noteq> [] | JObj d \<Rightarrow> d \<noteq> [])"

definition OBSERVATION_SCHEMA :: string where
  "OBSERVATION_SCHEMA = ''artifact_recovery_observation.v1''"

text \<open>
  The function's body in its order; \<open>at\<close> is the field prefix \<^verbatim>\<open>items[index]\<close>.
\<close>

definition normalize_origin :: "string \<Rightarrow> pydict \<Rightarrow> origin result" where
  "normalize_origin at d =
     bindE (expect_object (dict_get d ''origin'') (at @ ''.origin'')) (\<lambda>x.
     bindE (expect_string (dict_get x ''source'') (at @ ''.origin.source'') 32) (\<lambda>source.
     bindE (require (source \<in> {''chatgpt'', ''claude'', ''file_library'', ''conversation'', ''task''})
       (at @ ''.origin.source is unsupported'')) (\<lambda>_.
     bindE (expect_string (dict_get x ''id'') (at @ ''.origin.id'') 200) (\<lambda>origin_id.
     bindE (require (is_origin_id_text origin_id) (at @ ''.origin.id has an invalid shape'')) (\<lambda>_.
     bindE (expect_string (dict_get x ''id_kind'') (at @ ''.origin.id_kind'') 32) (\<lambda>kind.
     bindE (require (kind \<in> {''chat_id'', ''task_id'', ''file_id'', ''conversation_id'', ''derived_fingerprint''})
       (at @ ''.origin.id_kind is unsupported'')) (\<lambda>_.
     bindE (parse_timestamp (dict_get x ''observed_at'') (at @ ''.origin.observed_at'')) (\<lambda>observed_at.
     Inr \<lparr>o_source = source, o_id = origin_id, o_id_kind = kind, o_observed_at = observed_at\<rparr>))))))))"

definition normalize_obs_target :: "string \<Rightarrow> pydict \<Rightarrow> obs_target result" where
  "normalize_obs_target at d =
     bindE (expect_object (dict_get d ''target'') (at @ ''.target'')) (\<lambda>t.
     bindE (expect_string (dict_get t ''owner'') (at @ ''.target.owner'') 39) (\<lambda>owner.
     bindE (expect_string (dict_get t ''repository'') (at @ ''.target.repository'') 100) (\<lambda>repository.
     bindE (normalize_repo owner repository) (\<lambda>identity.
     bindE (normalize_visibility (dict_get t ''visibility'') (at @ ''.target.visibility'')) (\<lambda>visibility.
     bindE (expect_string (dict_get t ''artifact_kind'') (at @ ''.target.artifact_kind'') 32) (\<lambda>kind.
     bindE (require (kind \<in> {''code'', ''documentation'', ''none''})
       (at @ ''.target.artifact_kind is unsupported'')) (\<lambda>_.
     bindE (expect_bool (dict_get_default t ''ownership_resolved'' (JBool True))
       (at @ ''.target.ownership_resolved'')) (\<lambda>resolved.
     Inr \<lparr>ot_owner = owner, ot_repository = repository, ot_identity = identity,
       ot_visibility = visibility, ot_artifact_kind = kind, ot_ownership_resolved = resolved\<rparr>))))))))"

definition normalize_obs_intent :: "string \<Rightarrow> string \<Rightarrow> pydict \<Rightarrow> obs_intent result" where
  "normalize_obs_intent at artifact_kind d =
     bindE (expect_object (dict_get_default d ''intent'' (JObj [])) (at @ ''.intent'')) (\<lambda>i.
     bindE (expect_bool (dict_get_default i ''artifact_expected'' (JBool (artifact_kind \<noteq> ''none'')))
       (at @ ''.intent.artifact_expected'')) (\<lambda>expected.
     bindE (normalize_branch (dict_get_default i ''base_branch'' (JStr ''main'')) (at @ ''.intent.base_branch'')) (\<lambda>base_branch.
     bindE (normalize_branch (dict_get i ''branch'') (at @ ''.intent.branch'')) (\<lambda>branch.
     bindE (expect_bool (dict_get_default i ''pull_request_required'' (JBool True))
       (at @ ''.intent.pull_request_required'')) (\<lambda>required.
     bindE (expect_bool (dict_get_default i ''allow_repository_creation'' (JBool True))
       (at @ ''.intent.allow_repository_creation'')) (\<lambda>allowed.
     Inr \<lparr>oi_artifact_expected = expected, oi_base_branch = base_branch, oi_branch = branch,
       oi_pull_request_required = required, oi_allow_repository_creation = allowed\<rparr>))))))"

definition present :: "string option list \<Rightarrow> string list" where
  "present xs = map the (filter (\<lambda>x. x \<noteq> None) xs)"

definition sorted_distinct :: "string list \<Rightarrow> string list" where
  "sorted_distinct xs = sort (remdups xs)"

definition normalize_obs_local :: "string \<Rightarrow> pydict \<Rightarrow> obs_local result" where
  "normalize_obs_local at d =
     bindE (expect_object (dict_get_default d ''local'' (JObj [])) (at @ ''.local'')) (\<lambda>l.
     bindE (normalize_artifact (dict_get l ''artifact'') (at @ ''.local.artifact'')) (\<lambda>artifact.
     bindE (expect_bool (dict_get_default l ''git_repository'' (JBool False)) (at @ ''.local.git_repository'')) (\<lambda>git.
     bindE (expect_bool (dict_get_default l ''remote_present'' (JBool False)) (at @ ''.local.remote_present'')) (\<lambda>remote_present.
     bindE (normalize_branch (dict_get l ''branch'') (at @ ''.local.branch'')) (\<lambda>branch.
     bindE (normalize_sha (if truthy (dict_get l ''head_sha'') then dict_get l ''head_sha''
         else (case artifact of None \<Rightarrow> JNull | Some a \<Rightarrow> opt_str (a_commit_sha a)))
       (at @ ''.local.head_sha'')) (\<lambda>head_sha.
     bindE (expect_list (dict_get_default l ''branches'' (JArr [])) (at @ ''.local.branches'') max_paths) (\<lambda>raw_branches.
     bindE (mapE (\<lambda>v. normalize_branch v (at @ ''.local.branches'')) raw_branches) (\<lambda>branches.
     bindE (expect_list (dict_get_default l ''dirty_paths'' (JArr [])) (at @ ''.local.dirty_paths'') max_paths) (\<lambda>raw_dirty.
     bindE (mapE (\<lambda>v. expect_string v (at @ ''.local.dirty_paths'') 300) raw_dirty) (\<lambda>dirty.
     Inr \<lparr>ol_artifact = artifact, ol_git_repository = git, ol_remote_present = remote_present,
       ol_branch = branch, ol_branches = sorted_distinct (present branches), ol_head_sha = head_sha,
       ol_dirty_paths = sorted_distinct dirty\<rparr>))))))))))"

definition normalize_remote_branch :: "string \<Rightarrow> nat \<times> json \<Rightarrow> remote_branch result" where
  "normalize_remote_branch at iv = (case iv of (i, v) \<Rightarrow> (let field = index_field (at @ ''.remote.branches'') i in
     bindE (expect_object v field) (\<lambda>b.
     bindE (normalize_branch (dict_get b ''name'') (field @ ''.name'')) (\<lambda>name.
     bindE (normalize_sha (dict_get b ''sha'') (field @ ''.sha'')) (\<lambda>sha.
     (case (name, sha) of
        (Some n, Some h) \<Rightarrow> Inr \<lparr>rb_name = n, rb_sha = h\<rparr>
      | _ \<Rightarrow> Inl (Err (field @ '' requires name and sha''))))))))"

definition normalize_commit :: "string \<Rightarrow> string \<Rightarrow> nat \<times> json \<Rightarrow> remote_commit result" where
  "normalize_commit at identity iv = (case iv of (i, v) \<Rightarrow> (let field = index_field (at @ ''.remote.commits'') i in
     bindE (expect_object v field) (\<lambda>c.
     bindE (normalize_sha (dict_get c ''sha'') (field @ ''.sha'')) (\<lambda>sha.
     bindE (expect_string (dict_get c ''url'') (field @ ''.url'') 300) (\<lambda>url.
     (case sha of
        None \<Rightarrow> Inl (Err (field @ '' requires sha''))
      | Some h \<Rightarrow>
          bindE (validate_github_url url (field @ ''.url'') identity) (\<lambda>(_, tail).
          bindE (require (tail = Some (''commit'', h)) (field @ '' URL/SHA mismatch'')) (\<lambda>_.
          Inr \<lparr>rc_sha = h, rc_url = url\<rparr>))))))))"

definition normalize_pull_request :: "string \<Rightarrow> string \<Rightarrow> nat \<times> json \<Rightarrow> pull_request result" where
  "normalize_pull_request at identity iv = (case iv of (i, v) \<Rightarrow>
     (let field = index_field (at @ ''.remote.pull_requests'') i in
     bindE (expect_object v field) (\<lambda>p.
     bindE (case dict_get p ''number'' of
         JInt n \<Rightarrow> if n < 1 then Inl (Err (field @ ''.number must be positive'')) else Inr n
       | _ \<Rightarrow> Inl (Err (field @ ''.number must be positive''))) (\<lambda>number.
     bindE (expect_string (dict_get p ''url'') (field @ ''.url'') 300) (\<lambda>url.
     bindE (validate_github_url url (field @ ''.url'') identity) (\<lambda>(_, tail).
     bindE (require (tail = Some (''pull'', str_int number)) (field @ '' URL/number mismatch'')) (\<lambda>_.
     bindE (normalize_branch (dict_get p ''head'') (field @ ''.head'')) (\<lambda>head.
     bindE (normalize_branch (dict_get p ''base'') (field @ ''.base'')) (\<lambda>base.
     bindE (expect_string (dict_get p ''state'') (field @ ''.state'') 16) (\<lambda>state.
     bindE (require (state \<in> {''open'', ''closed'', ''merged''}) (field @ ''.state is unsupported'')) (\<lambda>_.
     bindE (expect_bool (dict_get_default p ''draft'' (JBool False)) (field @ ''.draft'')) (\<lambda>draft.
     Inr \<lparr>pr_number = number, pr_url = url, pr_head = head, pr_base = base, pr_state = state,
       pr_draft = draft\<rparr>))))))))))))"

definition check_url :: "string option \<Rightarrow> string \<Rightarrow> string \<Rightarrow> unit result" where
  "check_url url field identity = (case url of None \<Rightarrow> Inr ()
     | Some u \<Rightarrow> bindE (validate_github_url u field identity) (\<lambda>_. Inr ()))"

definition normalize_obs_remote :: "string \<Rightarrow> string \<Rightarrow> pydict \<Rightarrow> obs_remote result" where
  "normalize_obs_remote at identity d =
     bindE (expect_object (dict_get_default d ''remote'' (JObj [])) (at @ ''.remote'')) (\<lambda>m.
     bindE (expect_bool (dict_get_default m ''collected'' (JBool False)) (at @ ''.remote.collected'')) (\<lambda>collected.
     bindE (expect_object (dict_get_default m ''repository'' (JObj [])) (at @ ''.remote.repository'')) (\<lambda>r.
     bindE (expect_bool (dict_get_default r ''exists'' (JBool False)) (at @ ''.remote.repository.exists'')) (\<lambda>repo_exists.
     bindE (normalize_visibility (dict_get r ''visibility'') (at @ ''.remote.repository.visibility'')) (\<lambda>visibility.
     bindE (normalize_branch (dict_get r ''default_branch'') (at @ ''.remote.repository.default_branch'')) (\<lambda>default_branch.
     bindE (optional_string (dict_get r ''url'') (at @ ''.remote.repository.url'') 300) (\<lambda>url.
     bindE (check_url url (at @ ''.remote.repository.url'') identity) (\<lambda>_.
     bindE (expect_list (dict_get_default m ''branches'' (JArr [])) (at @ ''.remote.branches'') max_paths) (\<lambda>raw_branches.
     bindE (mapE (normalize_remote_branch at) (enumerate 0 raw_branches)) (\<lambda>branches.
     bindE (expect_list (dict_get_default m ''commits'' (JArr [])) (at @ ''.remote.commits'') max_paths) (\<lambda>raw_commits.
     bindE (mapE (normalize_commit at identity) (enumerate 0 raw_commits)) (\<lambda>commits.
     bindE (expect_list (dict_get_default m ''pull_requests'' (JArr [])) (at @ ''.remote.pull_requests'') max_paths) (\<lambda>raw_prs.
     bindE (mapE (normalize_pull_request at identity) (enumerate 0 raw_prs)) (\<lambda>prs.
     Inr \<lparr>om_collected = collected,
       om_repository = \<lparr>or_exists = repo_exists, or_visibility = visibility,
         or_default_branch = default_branch, or_url = url\<rparr>,
       om_branches = sort_key (\<lambda>b. (rb_name b, rb_sha b)) branches,
       om_commits = sort_key rc_sha commits, om_pull_requests = sort_key pr_number prs\<rparr>))))))))))))))"

definition positive_pr :: "(string \<times> string) option \<Rightarrow> bool" where
  "positive_pr tail = (case tail of
      Some (kind, v) \<Rightarrow> kind = ''pull'' \<and> v \<noteq> [] \<and> list_all is_digit v \<and> 1 \<le> digits_value v
    | None \<Rightarrow> False)"

definition normalize_obs_claims :: "string \<Rightarrow> string \<Rightarrow> pydict \<Rightarrow> obs_claims result" where
  "normalize_obs_claims at identity d =
     bindE (expect_object (dict_get_default d ''claims'' (JObj [])) (at @ ''.claims'')) (\<lambda>c.
     bindE (optional_string (dict_get c ''repository_url'') (at @ ''.claims.repository_url'') 300) (\<lambda>repository_url.
     bindE (check_url repository_url (at @ ''.claims.repository_url'') identity) (\<lambda>_.
     bindE (normalize_sha (dict_get c ''commit_sha'') (at @ ''.claims.commit_sha'')) (\<lambda>commit.
     bindE (normalize_branch (dict_get c ''branch'') (at @ ''.claims.branch'')) (\<lambda>branch.
     bindE (optional_string (dict_get c ''pull_request_url'') (at @ ''.claims.pull_request_url'') 300) (\<lambda>pr.
     bindE (case pr of None \<Rightarrow> Inr ()
       | Some u \<Rightarrow> bindE (validate_github_url u (at @ ''.claims.pull_request_url'') identity) (\<lambda>(_, tail).
           require (positive_pr tail) (at @ ''.claims.pull_request_url must point to a positive PR''))) (\<lambda>_.
     Inr \<lparr>oc_repository_url = repository_url, oc_commit_sha = commit, oc_branch = branch,
       oc_pull_request_url = pr\<rparr>)))))))"

definition normalize_observation_item :: "nat \<times> json \<Rightarrow> item result" where
  "normalize_observation_item iv = (case iv of (i, raw) \<Rightarrow> (let at = index_field ''items'' i in
     bindE (expect_object raw at) (\<lambda>d.
     bindE (unsupported_keys at d [''origin'', ''target'', ''intent'', ''local'', ''remote'', ''claims'', ''note'']) (\<lambda>_.
     bindE (normalize_origin at d) (\<lambda>origin.
     bindE (normalize_obs_target at d) (\<lambda>target.
     bindE (normalize_obs_intent at (ot_artifact_kind target) d) (\<lambda>intent.
     bindE (normalize_obs_local at d) (\<lambda>local.
     bindE (normalize_obs_remote at (ot_identity target) d) (\<lambda>remote.
     bindE (normalize_obs_claims at (ot_identity target) d) (\<lambda>claims.
     bindE (optional_string (dict_get d ''note'') (at @ ''.note'') 500) (\<lambda>note.
     (let x = \<lparr>it_origin = origin, it_target = target, it_intent = intent, it_local = local,
        it_remote = remote, it_claims = claims, it_note = note\<rparr> in
      bindE (validate_public_safety (item_json x)) (\<lambda>_. Inr x)))))))))))))"

section \<open>A batch\<close>

record observation =
  ob_generated_at :: string
  ob_id :: string
  ob_complete :: bool
  ob_next_cursor :: "string option"
  ob_source_window :: "string option"
  ob_items :: "item list"

definition observation_json :: "observation \<Rightarrow> json" where
  "observation_json x = JObj [(''schema_version'', JStr OBSERVATION_SCHEMA),
     (''generated_at'', JStr (ob_generated_at x)),
     (''batch'', JObj [(''id'', JStr (ob_id x)), (''complete'', JBool (ob_complete x)),
        (''next_cursor'', opt_str (ob_next_cursor x)), (''source_window'', opt_str (ob_source_window x))]),
     (''items'', JArr (map item_json (ob_items x)))]"

definition validate_observation :: "pydict \<Rightarrow> observation result" where
  "validate_observation d =
     bindE (require (dict_get d ''schema_version'' = JStr OBSERVATION_SCHEMA)
       (''schema_version must be '' @ OBSERVATION_SCHEMA)) (\<lambda>_.
     bindE (parse_timestamp (dict_get d ''generated_at'') ''generated_at'') (\<lambda>generated_at.
     bindE (expect_object (dict_get d ''batch'') ''batch'') (\<lambda>batch.
     bindE (expect_string (dict_get batch ''id'') ''batch.id'' 100) (\<lambda>batch_id.
     bindE (expect_bool (dict_get_default batch ''complete'' (JBool False)) ''batch.complete'') (\<lambda>complete.
     bindE (optional_string (dict_get batch ''next_cursor'') ''batch.next_cursor'' 200) (\<lambda>next_cursor.
     bindE (optional_string (dict_get batch ''source_window'') ''batch.source_window'' 200) (\<lambda>source_window.
     bindE (expect_list (dict_get d ''items'') ''items'' max_items) (\<lambda>raw_items.
     bindE (mapE normalize_observation_item (enumerate 0 raw_items)) (\<lambda>items.
     bindE (require (distinct (map ledger_key items))
       ''items contain duplicate origin/owner/repository ledger keys'') (\<lambda>_.
     (let x = \<lparr>ob_generated_at = generated_at, ob_id = batch_id, ob_complete = complete,
        ob_next_cursor = next_cursor, ob_source_window = source_window,
        ob_items = sort_key ledger_key items\<rparr> in
      bindE (validate_public_safety (observation_json x)) (\<lambda>_. Inr x))))))))))))"

end
