(* ===== verification/RecoveryLedger.thy ===== *)
theory RecoveryLedger
  imports RecoveryObservation
begin

text \<open>
  \<^verbatim>\<open>src/tools/artifact_recovery/ledger.py\<close>: classification of an observed item, the ledger of
  entries, and \<^verbatim>\<open>reconcile\<close>, which folds a batch of observations into the ledger and derives the
  queue of work for the command-line task.

  The ledger is a record whose entries are an association list in dictionary order. The previous
  ledger a run starts from is one that an earlier run wrote: entries of another shape, which
  \<^verbatim>\<open>validate_ledger\<close> lets through, are outside the model of \<^verbatim>\<open>reconcile\<close> (the function
  \<^verbatim>\<open>validate_ledger\<close> itself is modelled on arbitrary documents, and the last section gives what is
  read of an arbitrary entry and what that raises). \<^verbatim>\<open>atomic_write_json\<close> is file I/O.
\<close>

section \<open>Classification\<close>

definition LEDGER_SCHEMA :: string where "LEDGER_SCHEMA = ''artifact_recovery_ledger.v1''"
definition CLI_QUEUE_SCHEMA :: string where "CLI_QUEUE_SCHEMA = ''artifact_recovery_cli_queue.v1''"
definition SUMMARY_SCHEMA :: string where "SUMMARY_SCHEMA = ''artifact_recovery_summary.v1''"
definition MAX_BATCH_SIZE :: int where "MAX_BATCH_SIZE = 250"

definition FINDING_ORDER :: "string list" where
  "FINDING_ORDER = [''ownership_ambiguous'', ''remote_evidence_incomplete'', ''repository_missing'',
     ''artifact_only'', ''repository_has_no_remote'', ''changes_uncommitted'', ''commits_unpushed'',
     ''branch_not_created'', ''branch_not_published'', ''branch_without_pull_request'',
     ''claimed_repository_unverified'', ''claimed_commit_unverified'', ''claimed_branch_unverified'',
     ''claimed_pull_request_unverified'']"

text \<open>\<^verbatim>\<open>FINDING_RANK\<close>: the position of a finding in the order.\<close>

definition FINDING_RANK :: "string \<Rightarrow> nat" where
  "FINDING_RANK f = length (takeWhile (\<lambda>g. g \<noteq> f) FINDING_ORDER)"

text \<open>
  \<^verbatim>\<open>int(text)\<close> for text of letters, digits and \<^verbatim>\<open>. _ / -\<close>: an optional sign, then digits, with
  single underscores between digits.
\<close>

definition int_body :: "string \<Rightarrow> bool" where
  "int_body s \<longleftrightarrow> s \<noteq> [] \<and> list_all (\<lambda>c. is_digit c \<or> c = CHR ''_'') s \<and> hd s \<noteq> CHR ''_''
     \<and> last s \<noteq> CHR ''_'' \<and> \<not> contains ''__'' s"

definition int_of_text :: "string \<Rightarrow> int result" where
  "int_of_text s =
     (let neg = (s \<noteq> [] \<and> hd s = CHR ''-''); body = (if neg then tl s else s) in
      if int_body body
      then (let n = int (digits_value (filter is_digit body)) in Inr (if neg then - n else n))
      else Inl ValueError)"

definition claimed_pr_number :: "string option \<Rightarrow> int option result" where
  "claimed_pr_number url = (case url of
      None \<Rightarrow> Inr None
    | Some u \<Rightarrow> (case match_github_url u of
        Some (_, _, Some (kind, v)) \<Rightarrow>
          if kind = ''pull'' then bindE (int_of_text v) (\<lambda>n. Inr (Some n)) else Inr None
      | _ \<Rightarrow> Inr None))"

record classification =
  cl_status :: string
  cl_findings :: "string list"
  cl_next_action :: string
  cl_reason :: string

definition classification_json :: "classification \<Rightarrow> json" where
  "classification_json c = JObj [(''status'', JStr (cl_status c)),
     (''findings'', JArr (map JStr (cl_findings c))), (''next_action'', JStr (cl_next_action c)),
     (''reason'', JStr (cl_reason c))]"

definition truthy_text :: "string option \<Rightarrow> bool" where
  "truthy_text x \<longleftrightarrow> x \<noteq> None \<and> x \<noteq> Some []"

text \<open>The dictionary from branch names to digests: a later branch of the same name wins.\<close>

definition remote_branch_map :: "obs_remote \<Rightarrow> (string \<times> string) list" where
  "remote_branch_map m = fold (\<lambda>b d. dict_set d (rb_name b) (rb_sha b)) (om_branches m) []"

definition remote_commit_shas :: "obs_remote \<Rightarrow> string set" where
  "remote_commit_shas m = rc_sha ` set (om_commits m) \<union> snd ` set (remote_branch_map m)"

definition add_if :: "bool \<Rightarrow> string \<Rightarrow> string list" where
  "add_if c finding = (if c then [finding] else [])"

definition branch_findings :: "item \<Rightarrow> string list" where
  "branch_findings x =
     (let published = fst ` set (remote_branch_map (it_remote x));
          local_branches = set (ol_branches (it_local x))
            \<union> (if truthy_text (ol_branch (it_local x)) then set_option (ol_branch (it_local x)) else {})
      in case oi_branch (it_intent x) of
           None \<Rightarrow> []
         | Some b \<Rightarrow>
             if b = [] then []
             else if b \<notin> local_branches \<and> b \<notin> published then [''branch_not_created'']
             else if b \<notin> published then [''branch_not_published'']
             else add_if (oi_pull_request_required (it_intent x) \<and>
                    filter (\<lambda>p. pr_head p = Some b) (om_pull_requests (it_remote x)) = [])
                    ''branch_without_pull_request'')"

definition claim_findings :: "item \<Rightarrow> string list result" where
  "claim_findings x =
     (let c = it_claims x; m = it_remote x; repo = om_repository m in
      bindE (claimed_pr_number (oc_pull_request_url c)) (\<lambda>claimed_pr.
      Inr (add_if (truthy_text (oc_repository_url c) \<and> (\<not> or_exists repo \<or> oc_repository_url c \<noteq> or_url repo))
             ''claimed_repository_unverified''
         @ add_if (truthy_text (oc_commit_sha c) \<and> the (oc_commit_sha c) \<notin> remote_commit_shas m)
             ''claimed_commit_unverified''
         @ add_if (truthy_text (oc_branch c) \<and> the (oc_branch c) \<notin> fst ` set (remote_branch_map m))
             ''claimed_branch_unverified''
         @ add_if (claimed_pr \<noteq> None \<and> the claimed_pr \<notin> pr_number ` set (om_pull_requests m))
             ''claimed_pull_request_unverified'')))"

definition item_findings :: "item \<Rightarrow> string list result" where
  "item_findings x =
     (let l = it_local x; m = it_remote x; repo = om_repository m in
      bindE (claim_findings x) (\<lambda>claimed.
      Inr (add_if (\<not> ot_ownership_resolved (it_target x)) ''ownership_ambiguous''
         @ add_if (\<not> om_collected m) ''remote_evidence_incomplete''
         @ add_if (om_collected m \<and> \<not> or_exists repo) ''repository_missing''
         @ add_if (ol_artifact l \<noteq> None \<and> \<not> ol_git_repository l) ''artifact_only''
         @ add_if (ol_git_repository l \<and> \<not> ol_remote_present l) ''repository_has_no_remote''
         @ add_if (ol_dirty_paths l \<noteq> []) ''changes_uncommitted''
         @ add_if (truthy_text (ol_head_sha l) \<and> or_exists repo \<and> the (ol_head_sha l) \<notin> remote_commit_shas m)
             ''commits_unpushed''
         @ branch_findings x @ claimed)))"

definition FAIL_CLOSED :: "string list" where
  "FAIL_CLOSED = [''ownership_ambiguous'', ''remote_evidence_incomplete'', ''claimed_repository_unverified'',
     ''claimed_commit_unverified'', ''claimed_branch_unverified'', ''claimed_pull_request_unverified'']"

definition LOCAL_FINDINGS :: "string list" where
  "LOCAL_FINDINGS = [''artifact_only'', ''repository_has_no_remote'', ''changes_uncommitted'',
     ''commits_unpushed'', ''branch_not_created'', ''branch_not_published'']"

definition verdict_of :: "bool \<Rightarrow> string list \<Rightarrow> classification" where
  "verdict_of allow_creation ordered =
     (if ordered = [] then
        \<lparr>cl_status = ''complete'', cl_findings = [], cl_next_action = ''none'',
         cl_reason = ''repository, branch, commit, and pull-request evidence is complete''\<rparr>
      else if set ordered \<inter> set FAIL_CLOSED \<noteq> {} then
        \<lparr>cl_status = ''blocked'', cl_findings = ordered, cl_next_action = ''manual_review'',
         cl_reason = ''ownership, remote evidence, or a claimed GitHub object is incomplete; fail closed''\<rparr>
      else if ''repository_missing'' \<in> set ordered then
        (let action = (if allow_creation then ''cli_create_repository'' else ''manual_review'') in
         \<lparr>cl_status = (if action \<noteq> ''manual_review'' then ''actionable'' else ''blocked''),
          cl_findings = ordered, cl_next_action = action,
          cl_reason = ''the intended repository is absent''\<rparr>)
      else if set ordered \<inter> set LOCAL_FINDINGS \<noteq> {} then
        \<lparr>cl_status = ''actionable'', cl_findings = ordered, cl_next_action = ''cli_recover_local_artifact'',
         cl_reason = ''local Git state or artifact publication is incomplete''\<rparr>
      else if ''branch_without_pull_request'' \<in> set ordered then
        \<lparr>cl_status = ''actionable'', cl_findings = ordered, cl_next_action = ''open_draft_pull_request'',
         cl_reason = ''the reviewed branch is published but has no pull request''\<rparr>
      else
        \<lparr>cl_status = ''blocked'', cl_findings = ordered, cl_next_action = ''manual_review'',
         cl_reason = ''a claimed GitHub object lacks current evidence''\<rparr>)"

definition classify :: "item \<Rightarrow> classification result" where
  "classify x =
     (if ot_artifact_kind (it_target x) = ''none'' \<or> \<not> oi_artifact_expected (it_intent x) then
        Inr \<lparr>cl_status = ''excluded'', cl_findings = [], cl_next_action = ''none'',
          cl_reason = ''ordinary conversation or no tangible artifact was intended''\<rparr>
      else bindE (item_findings x) (\<lambda>findings.
        Inr (verdict_of (oi_allow_repository_creation (it_intent x))
               (sort_key FINDING_RANK (remdups findings)))))"

section \<open>Entries\<close>

record entry =
  e_key :: string
  e_first_seen :: string
  e_last_seen :: string
  e_attempts :: int
  e_observation_digest :: string
  e_evidence_digest :: string
  e_observation :: item
  e_classification :: classification
  e_links :: "string list"

definition entry_json :: "entry \<Rightarrow> json" where
  "entry_json e = JObj [(''ledger_key'', JStr (e_key e)), (''first_seen'', JStr (e_first_seen e)),
     (''last_seen'', JStr (e_last_seen e)), (''attempts'', JInt (e_attempts e)),
     (''observation_digest'', JStr (e_observation_digest e)),
     (''evidence_digest'', JStr (e_evidence_digest e)), (''observation'', item_json (e_observation e)),
     (''classification'', classification_json (e_classification e)),
     (''evidence_links'', JArr (map JStr (e_links e)))]"

definition evidence_links :: "item \<Rightarrow> string list" where
  "evidence_links x = sorted_distinct (
     (if truthy_text (or_url (om_repository (it_remote x))) then [the (or_url (om_repository (it_remote x)))] else [])
     @ map rc_url (om_commits (it_remote x)) @ map pr_url (om_pull_requests (it_remote x)))"

definition desired_visibility :: "item \<Rightarrow> string" where
  "desired_visibility x = (case ot_visibility (it_target x) of None \<Rightarrow> ''private''
     | Some v \<Rightarrow> if v = [] then ''private'' else v)"

record cli_item =
  ci_key :: string
  ci_task :: string
  ci_owner :: string
  ci_repository :: string
  ci_visibility :: string
  ci_base_branch :: "string option"
  ci_intended_branch :: "string option"
  ci_artifact :: "artifact option"
  ci_head_sha :: "string option"
  ci_findings :: "string list"

definition required_sequence :: "string list" where
  "required_sequence = [''verify current repository, branches, commits, and pull requests'',
     ''scan intended paths for credentials and private material'',
     ''reuse existing repository and branch when present'',
     ''create the repository only when absent and explicitly authorized'',
     ''stage only the intended paths'', ''commit without rewriting shared history'',
     ''push without force'', ''open or reuse one draft pull request'',
     ''record the verified repository URL, branch, commit SHA, and PR URL'']"

definition forbidden_steps :: "string list" where
  "forbidden_steps = [''reuse chat-pasted credentials'', ''force push'', ''broadly stage a mixed worktree'',
     ''directly write the default branch'', ''merge or bypass protections'']"

definition cli_item_json :: "cli_item \<Rightarrow> json" where
  "cli_item_json c = JObj [(''ledger_key'', JStr (ci_key c)), (''target_task_id'', JStr (ci_task c)),
     (''owner'', JStr (ci_owner c)), (''repository'', JStr (ci_repository c)),
     (''visibility'', JStr (ci_visibility c)), (''base_branch'', opt_str (ci_base_branch c)),
     (''intended_branch'', opt_str (ci_intended_branch c)),
     (''artifact'', opt_artifact_json (ci_artifact c)), (''local_head_sha'', opt_str (ci_head_sha c)),
     (''findings'', JArr (map JStr (ci_findings c))),
     (''required_sequence'', JArr (map JStr required_sequence)),
     (''forbidden'', JArr (map JStr forbidden_steps))]"

definition build_cli_item :: "string \<Rightarrow> entry \<Rightarrow> cli_item option" where
  "build_cli_item task e =
     (if cl_next_action (e_classification e) \<notin> {''cli_create_repository'', ''cli_recover_local_artifact''} then None
      else (let x = e_observation e in
        Some \<lparr>ci_key = e_key e, ci_task = task, ci_owner = ot_owner (it_target x),
          ci_repository = ot_repository (it_target x), ci_visibility = desired_visibility x,
          ci_base_branch = oi_base_branch (it_intent x), ci_intended_branch = oi_branch (it_intent x),
          ci_artifact = ol_artifact (it_local x), ci_head_sha = ol_head_sha (it_local x),
          ci_findings = cl_findings (e_classification e)\<rparr>))"

section \<open>The ledger\<close>

record last_batch =
  lb_id :: string
  lb_processed_at :: string
  lb_processed :: nat
  lb_available :: nat
  lb_source_complete :: bool
  lb_next_cursor :: "string option"
  lb_processed_keys :: "string list"

record ledger =
  lg_created_at :: string
  lg_updated_at :: string
  lg_last_batch :: "last_batch option"
  lg_entries :: "(string \<times> entry) list"
  lg_summary :: pydict

definition last_batch_json :: "last_batch option \<Rightarrow> json" where
  "last_batch_json x = (case x of None \<Rightarrow> JNull
     | Some b \<Rightarrow> JObj [(''id'', JStr (lb_id b)), (''processed_at'', JStr (lb_processed_at b)),
         (''processed'', JInt (int (lb_processed b))), (''available'', JInt (int (lb_available b))),
         (''source_complete'', JBool (lb_source_complete b)), (''next_cursor'', opt_str (lb_next_cursor b)),
         (''processed_keys'', JArr (map JStr (lb_processed_keys b)))])"

definition ledger_dict :: "ledger \<Rightarrow> pydict" where
  "ledger_dict l = [(''schema_version'', JStr LEDGER_SCHEMA), (''created_at'', JStr (lg_created_at l)),
     (''updated_at'', JStr (lg_updated_at l)), (''last_batch'', last_batch_json (lg_last_batch l)),
     (''entries'', JObj (map (\<lambda>(k, e). (k, entry_json e)) (lg_entries l))),
     (''summary'', JObj (lg_summary l))]"

definition empty_ledger :: "string \<Rightarrow> ledger" where
  "empty_ledger now = \<lparr>lg_created_at = now, lg_updated_at = now, lg_last_batch = None, lg_entries = [],
     lg_summary = []\<rparr>"

definition check_entry :: "string \<times> json \<Rightarrow> unit result" where
  "check_entry ke = (case ke of (k, e) \<Rightarrow>
     bindE (require (k \<noteq> []) ''ledger entry keys must be non-empty strings'') (\<lambda>_.
     bindE (expect_object e (''ledger.entries['' @ repr_str k @ '']'')) (\<lambda>_. Inr ())))"

definition validate_ledger :: "pydict \<Rightarrow> pydict result" where
  "validate_ledger d =
     bindE (require (dict_get d ''schema_version'' = JStr LEDGER_SCHEMA)
       (''ledger schema_version must be '' @ LEDGER_SCHEMA)) (\<lambda>_.
     bindE (parse_timestamp (dict_get d ''created_at'') ''ledger.created_at'') (\<lambda>created_at.
     bindE (parse_timestamp (dict_get d ''updated_at'') ''ledger.updated_at'') (\<lambda>updated_at.
     bindE (expect_object (dict_get_default d ''entries'' (JObj [])) ''ledger.entries'') (\<lambda>entries.
     bindE (require (length entries \<le> max_items) ''ledger.entries exceeds the item limit'') (\<lambda>_.
     bindE (foldE (\<lambda>_. check_entry) () entries) (\<lambda>_.
     (let normalized = dict_set (dict_set d ''created_at'' (JStr created_at)) ''updated_at'' (JStr updated_at) in
     bindE (validate_public_safety (JObj normalized)) (\<lambda>_. Inr normalized))))))))"

text \<open>\<^verbatim>\<open>dict(sorted(Counter(xs).items()))\<close>.\<close>

definition counts :: "string list \<Rightarrow> (string \<times> nat) list" where
  "counts xs = map (\<lambda>k. (k, count_list xs k)) (sorted_distinct xs)"

definition counts_json :: "(string \<times> nat) list \<Rightarrow> json" where
  "counts_json cs = JObj (map (\<lambda>(k, n). (k, JInt (int n))) cs)"

definition summarize_entries :: "entry list \<Rightarrow> pydict" where
  "summarize_entries es =
     (let statuses = map (cl_status \<circ> e_classification) es;
          findings = concat (map (cl_findings \<circ> e_classification) es);
          actions = map (cl_next_action \<circ> e_classification) es;
          number = (\<lambda>s. JInt (int (count_list statuses s)))
      in [(''entries'', JInt (int (length es))), (''status_counts'', counts_json (counts statuses)),
          (''finding_counts'', counts_json (counts findings)),
          (''next_action_counts'', counts_json (counts actions)),
          (''complete'', number ''complete''), (''actionable'', number ''actionable''),
          (''blocked'', number ''blocked''), (''excluded'', number ''excluded'')])"

section \<open>Reconciliation\<close>

record queue =
  q_generated_at :: string
  q_task :: string
  q_ledger_digest :: string
  q_items :: "cli_item list"

definition queue_json :: "queue \<Rightarrow> json" where
  "queue_json q = JObj [(''schema_version'', JStr CLI_QUEUE_SCHEMA), (''generated_at'', JStr (q_generated_at q)),
     (''target_task_id'', JStr (q_task q)), (''source_ledger_digest'', JStr (q_ledger_digest q)),
     (''items'', JArr (map cli_item_json (q_items q))),
     (''summary'', JObj [(''items'', JInt (int (length (q_items q)))),
        (''create_repository'', JInt (int (length (filter (\<lambda>c. ''repository_missing'' \<in> set (ci_findings c)) (q_items q))))),
        (''recover_local'', JInt (int (length (filter (\<lambda>c. ''repository_missing'' \<notin> set (ci_findings c)) (q_items q)))))])]"

definition make_entry :: "string \<Rightarrow> entry option \<Rightarrow> item \<Rightarrow> classification \<Rightarrow> entry" where
  "make_entry now prior x c =
     (let digest = sha256_value (item_json x) in
      \<lparr>e_key = ledger_key x,
       e_first_seen = (case prior of None \<Rightarrow> now | Some p \<Rightarrow> e_first_seen p),
       e_last_seen = now,
       e_attempts = (case prior of None \<Rightarrow> 1
         | Some p \<Rightarrow> max 1 (e_attempts p + (if e_observation_digest p \<noteq> digest then 1 else 0))),
       e_observation_digest = digest,
       e_evidence_digest = sha256_value (JObj [(''remote'', remote_json (it_remote x)),
         (''claims'', claims_json (it_claims x)), (''classification'', classification_json c)]),
       e_observation = x, e_classification = c, e_links = evidence_links x\<rparr>)"

definition process_item :: "string \<Rightarrow> (string \<times> entry) list \<Rightarrow> item \<Rightarrow> (string \<times> entry) list result" where
  "process_item now entries x =
     bindE (classify x) (\<lambda>c.
     Inr (dict_set entries (ledger_key x) (make_entry now (map_of entries (ledger_key x)) x c)))"

text \<open>
  The previous ledger is one the tool wrote: a \<open>ledger\<close>, whose document is \<open>ledger_dict\<close>. What the code
  reads of the document of another is the section on previous entries at the end.
\<close>

definition load_previous :: "string \<Rightarrow> ledger option \<Rightarrow> ledger result" where
  "load_previous now previous = (case previous of
      None \<Rightarrow> Inr (empty_ledger now)
    | Some l \<Rightarrow>
        bindE (validate_ledger (ledger_dict l)) (\<lambda>_.
        bindE (parse_timestamp (JStr (lg_created_at l)) ''ledger.created_at'') (\<lambda>created_at.
        bindE (parse_timestamp (JStr (lg_updated_at l)) ''ledger.updated_at'') (\<lambda>updated_at.
        Inr (l\<lparr>lg_created_at := created_at, lg_updated_at := updated_at\<rparr>)))))"

definition cli_queue :: "string \<Rightarrow> string \<Rightarrow> ledger \<Rightarrow> queue" where
  "cli_queue now task l =
     \<lparr>q_generated_at = now, q_task = task, q_ledger_digest = sha256_value (JObj (ledger_dict l)),
      q_items = sort_key ci_key (List.map_filter (build_cli_item task) (map snd (lg_entries l)))\<rparr>"

definition reconcile ::
  "pydict \<Rightarrow> ledger option \<Rightarrow> string \<Rightarrow> int \<Rightarrow> string \<Rightarrow> (ledger \<times> queue) result" where
  "reconcile observation previous now batch_size task =
     bindE (require (1 \<le> batch_size \<and> batch_size \<le> MAX_BATCH_SIZE)
       (''batch_size must be between 1 and '' @ str_int MAX_BATCH_SIZE)) (\<lambda>_.
     bindE (require (is_origin_id_text task) ''target CLI task ID has an invalid shape'') (\<lambda>_.
     bindE (validate_observation observation) (\<lambda>ob.
     bindE (load_previous now previous) (\<lambda>l0.
     (let items = take (nat batch_size) (ob_items ob) in
     bindE (foldE (process_item now) (lg_entries l0) items) (\<lambda>entries.
     (let ordered = sort_key fst entries;
          l = \<lparr>lg_created_at = lg_created_at l0, lg_updated_at = now,
            lg_last_batch = Some \<lparr>lb_id = ob_id ob, lb_processed_at = now, lb_processed = length items,
              lb_available = length (ob_items ob), lb_source_complete = ob_complete ob,
              lb_next_cursor = ob_next_cursor ob, lb_processed_keys = map ledger_key items\<rparr>,
            lg_entries = ordered, lg_summary = summarize_entries (map snd ordered)\<rparr>;
          q = cli_queue now task l in
     bindE (validate_public_safety (JObj (ledger_dict l))) (\<lambda>_.
     bindE (validate_public_safety (queue_json q)) (\<lambda>_. Inr (l, q))))))))))"

text \<open>\<^verbatim>\<open>summary_document\<close>, for a ledger an earlier run wrote.\<close>

definition summary_document :: "ledger \<Rightarrow> json result" where
  "summary_document l =
     bindE (validate_ledger (ledger_dict l)) (\<lambda>validated.
     Inr (JObj [(''schema_version'', JStr SUMMARY_SCHEMA), (''updated_at'', dict_get validated ''updated_at''),
       (''last_batch'', dict_get validated ''last_batch''),
       (''summary'', JObj (summarize_entries (map snd (lg_entries l)))),
       (''ledger_digest'', JStr (sha256_value (JObj validated)))]))"

section \<open>What the classification says of an item\<close>

definition tangible :: "item \<Rightarrow> bool" where
  "tangible x \<longleftrightarrow> ot_artifact_kind (it_target x) \<noteq> ''none'' \<and> oi_artifact_expected (it_intent x)"

definition branch_published :: "item \<Rightarrow> string \<Rightarrow> bool" where
  "branch_published x b \<longleftrightarrow> b \<in> rb_name ` set (om_branches (it_remote x))"

text \<open>The remote evidence bears every claim out.\<close>

definition claims_verified :: "item \<Rightarrow> bool" where
  "claims_verified x \<longleftrightarrow> (let c = it_claims x; m = it_remote x; repo = om_repository m in
     (truthy_text (oc_repository_url c) \<longrightarrow> or_exists repo \<and> oc_repository_url c = or_url repo) \<and>
     (truthy_text (oc_commit_sha c) \<longrightarrow> the (oc_commit_sha c) \<in> remote_commit_shas m) \<and>
     (truthy_text (oc_branch c) \<longrightarrow> branch_published x (the (oc_branch c))) \<and>
     (\<forall>n. claimed_pr_number (oc_pull_request_url c) = Inr (Some n) \<longrightarrow>
        n \<in> pr_number ` set (om_pull_requests m)))"

definition trusted :: "item \<Rightarrow> bool" where
  "trusted x \<longleftrightarrow> ot_ownership_resolved (it_target x) \<and> om_collected (it_remote x) \<and> claims_verified x"

definition intended_branch :: "item \<Rightarrow> string \<Rightarrow> bool" where
  "intended_branch x b \<longleftrightarrow> oi_branch (it_intent x) = Some b \<and> b \<noteq> []"

definition work_left :: "item \<Rightarrow> bool" where
  "work_left x \<longleftrightarrow> (let l = it_local x; m = it_remote x in
     ol_artifact l \<noteq> None \<and> \<not> ol_git_repository l \<or>
     ol_git_repository l \<and> \<not> ol_remote_present l \<or>
     ol_dirty_paths l \<noteq> [] \<or>
     truthy_text (ol_head_sha l) \<and> or_exists (om_repository m) \<and> the (ol_head_sha l) \<notin> remote_commit_shas m \<or>
     (\<exists>b. intended_branch x b \<and> \<not> branch_published x b))"

definition review_missing :: "item \<Rightarrow> bool" where
  "review_missing x \<longleftrightarrow> oi_pull_request_required (it_intent x) \<and>
     (\<exists>b. intended_branch x b \<and> branch_published x b \<and>
        (\<forall>p\<in>set (om_pull_requests (it_remote x)). pr_head p \<noteq> Some b))"

lemma add_if_disjoint [simp]: "set (add_if c f) \<inter> S = {} \<longleftrightarrow> (c \<longrightarrow> f \<notin> S)"
  by (auto simp: add_if_def)

lemma add_if_subset [simp]: "set (add_if c f) \<subseteq> S \<longleftrightarrow> (c \<longrightarrow> f \<in> S)"
  by (auto simp: add_if_def)

lemma in_add_if [simp]: "f \<in> set (add_if c g) \<longleftrightarrow> c \<and> f = g"
  by (auto simp: add_if_def)

lemma remote_branch_names: "fst ` set (remote_branch_map m) = rb_name ` set (om_branches m)"
proof -
  have "fst ` set (fold (\<lambda>b d. dict_set d (rb_name b) (rb_sha b)) bs d) = fst ` set d \<union> rb_name ` set bs"
    for bs :: "remote_branch list" and d
  proof (induction bs arbitrary: d)
    case (Cons b bs)
    then show ?case using keys_dict_set [of d "rb_name b" "rb_sha b"] by simp
  qed simp
  then show ?thesis by (simp add: remote_branch_map_def)
qed

text \<open>The findings of an item, each under its condition.\<close>

definition branch_created :: "item \<Rightarrow> string \<Rightarrow> bool" where
  "branch_created x b \<longleftrightarrow> b \<in> set (ol_branches (it_local x)) \<or> ol_branch (it_local x) = Some b"

lemma branch_findings_eq:
  "branch_findings x =
     add_if (\<exists>b. intended_branch x b \<and> \<not> branch_published x b \<and> \<not> branch_created x b) ''branch_not_created''
   @ add_if (\<exists>b. intended_branch x b \<and> \<not> branch_published x b \<and> branch_created x b) ''branch_not_published''
   @ add_if (review_missing x) ''branch_without_pull_request''"
proof (cases "oi_branch (it_intent x)")
  case None
  then show ?thesis
    by (simp add: branch_findings_def intended_branch_def review_missing_def add_if_def)
next
  case (Some b)
  define pub where "pub = rb_name ` set (om_branches (it_remote x))"
  have local: "b \<in> set (ol_branches (it_local x)) \<union>
      (if truthy_text (ol_branch (it_local x)) then set_option (ol_branch (it_local x)) else {}) \<longleftrightarrow>
      branch_created x b" if "b \<noteq> []"
    using that by (auto simp: branch_created_def truthy_text_def elem_set)
  show ?thesis
    using local unfolding branch_findings_def remote_branch_names review_missing_def intended_branch_def
      branch_published_def Some pub_def [symmetric]
    by (simp add: add_if_def filter_empty_conv del: Un_iff)
qed


lemma item_findingsE:
  assumes "item_findings x = Inr fs"
  obtains n where "claimed_pr_number (oc_pull_request_url (it_claims x)) = Inr n"
    and "set fs \<inter> set FAIL_CLOSED = {} \<longleftrightarrow> trusted x"
    and "''repository_missing'' \<in> set fs \<longleftrightarrow> om_collected (it_remote x) \<and> \<not> or_exists (om_repository (it_remote x))"
    and "set fs \<inter> set LOCAL_FINDINGS = {} \<longleftrightarrow> \<not> work_left x"
    and "''branch_without_pull_request'' \<in> set fs \<longleftrightarrow> review_missing x"
    and "set fs \<subseteq> set FINDING_ORDER"
proof -
  from assms obtain n where n: "claimed_pr_number (oc_pull_request_url (it_claims x)) = Inr n"
    by (auto simp: item_findings_def claim_findings_def Let_def)
  with assms have fs: "fs = add_if (\<not> ot_ownership_resolved (it_target x)) ''ownership_ambiguous''
     @ add_if (\<not> om_collected (it_remote x)) ''remote_evidence_incomplete''
     @ add_if (om_collected (it_remote x) \<and> \<not> or_exists (om_repository (it_remote x))) ''repository_missing''
     @ add_if (ol_artifact (it_local x) \<noteq> None \<and> \<not> ol_git_repository (it_local x)) ''artifact_only''
     @ add_if (ol_git_repository (it_local x) \<and> \<not> ol_remote_present (it_local x)) ''repository_has_no_remote''
     @ add_if (ol_dirty_paths (it_local x) \<noteq> []) ''changes_uncommitted''
     @ add_if (truthy_text (ol_head_sha (it_local x)) \<and> or_exists (om_repository (it_remote x))
          \<and> the (ol_head_sha (it_local x)) \<notin> remote_commit_shas (it_remote x)) ''commits_unpushed''
     @ branch_findings x
     @ add_if (truthy_text (oc_repository_url (it_claims x)) \<and> (\<not> or_exists (om_repository (it_remote x))
          \<or> oc_repository_url (it_claims x) \<noteq> or_url (om_repository (it_remote x)))) ''claimed_repository_unverified''
     @ add_if (truthy_text (oc_commit_sha (it_claims x))
          \<and> the (oc_commit_sha (it_claims x)) \<notin> remote_commit_shas (it_remote x)) ''claimed_commit_unverified''
     @ add_if (truthy_text (oc_branch (it_claims x))
          \<and> \<not> branch_published x (the (oc_branch (it_claims x)))) ''claimed_branch_unverified''
     @ add_if (n \<noteq> None \<and> the n \<notin> pr_number ` set (om_pull_requests (it_remote x))) ''claimed_pull_request_unverified''"
    by (simp add: item_findings_def claim_findings_def Let_def remote_branch_names branch_published_def)
  note sets = fs branch_findings_eq set_append Int_Un_distrib2 Un_empty add_if_disjoint Un_iff in_add_if
  show thesis
  proof (rule that [OF n])
    show "set fs \<inter> set FAIL_CLOSED = {} \<longleftrightarrow> trusted x"
      unfolding sets by (cases n) (simp_all add: FAIL_CLOSED_def trusted_def claims_verified_def Let_def n
          del: not_None_eq)
    show "''repository_missing'' \<in> set fs \<longleftrightarrow> om_collected (it_remote x) \<and> \<not> or_exists (om_repository (it_remote x))"
      unfolding sets by simp
    show "set fs \<inter> set LOCAL_FINDINGS = {} \<longleftrightarrow> \<not> work_left x"
      unfolding sets by (simp add: LOCAL_FINDINGS_def work_left_def Let_def del: not_None_eq, blast)
    show "''branch_without_pull_request'' \<in> set fs \<longleftrightarrow> review_missing x"
      unfolding sets by simp
    show "set fs \<subseteq> set FINDING_ORDER"
      unfolding sets Un_subset_iff add_if_subset by (simp add: FINDING_ORDER_def)
  qed
qed

lemma findings_exhaustive:
  "set FINDING_ORDER = set FAIL_CLOSED \<union> {''repository_missing''} \<union> set LOCAL_FINDINGS \<union> {''branch_without_pull_request''}"
  by (simp add: FINDING_ORDER_def FAIL_CLOSED_def LOCAL_FINDINGS_def insert_commute)


text \<open>The verdict, as a table over what is known of the item.\<close>

definition decision :: "item \<Rightarrow> string \<times> string" where
  "decision x =
     (if \<not> tangible x then (''excluded'', ''none'')
      else if \<not> trusted x then (''blocked'', ''manual_review'')
      else if \<not> or_exists (om_repository (it_remote x)) then
        (if oi_allow_repository_creation (it_intent x) then (''actionable'', ''cli_create_repository'')
         else (''blocked'', ''manual_review''))
      else if work_left x then (''actionable'', ''cli_recover_local_artifact'')
      else if review_missing x then (''actionable'', ''open_draft_pull_request'')
      else (''complete'', ''none''))"

lemma verdict_of_decision:
  assumes fs: "item_findings x = Inr fs" and "tangible x" and "set ordered = set fs"
  defines "c \<equiv> verdict_of (oi_allow_repository_creation (it_intent x)) ordered"
  shows "(cl_status c, cl_next_action c) = decision x"
    and "cl_findings c = ordered"
    and "cl_reason c \<noteq> ''a claimed GitHub object lacks current evidence''"
proof -
  from fs obtain n where *:
      "set fs \<inter> set FAIL_CLOSED = {} \<longleftrightarrow> trusted x"
      "''repository_missing'' \<in> set fs \<longleftrightarrow> om_collected (it_remote x) \<and> \<not> or_exists (om_repository (it_remote x))"
      "set fs \<inter> set LOCAL_FINDINGS = {} \<longleftrightarrow> \<not> work_left x"
      "''branch_without_pull_request'' \<in> set fs \<longleftrightarrow> review_missing x"
      "set fs \<subseteq> set FINDING_ORDER"
    by (rule item_findingsE)
  have collected: "om_collected (it_remote x)" if "trusted x" using that by (simp add: trusted_def)
  have "set fs \<inter> set FINDING_ORDER = {} \<longleftrightarrow> trusted x \<and> or_exists (om_repository (it_remote x))
      \<and> \<not> work_left x \<and> \<not> review_missing x"
    unfolding findings_exhaustive Int_Un_distrib Un_empty using * collected by auto
  then have none: "ordered = [] \<longleftrightarrow> trusted x \<and> or_exists (om_repository (it_remote x))
      \<and> \<not> work_left x \<and> \<not> review_missing x"
    using *(5) assms(3) by (metis inf.absorb1 set_empty2)
  note table = c_def verdict_of_def assms(3) *(1-4) none Let_def
  show "(cl_status c, cl_next_action c) = decision x"
    unfolding table decision_def using assms(2) collected by simp
  show "cl_findings c = ordered"
    by (simp add: c_def verdict_of_def Let_def)
  show "cl_reason c \<noteq> ''a claimed GitHub object lacks current evidence''"
    unfolding table using collected by simp
qed

lemma FINDING_RANK_inj: "inj_on FINDING_RANK (set FINDING_ORDER)"
proof -
  have "map FINDING_RANK FINDING_ORDER = [0..<14]" unfolding FINDING_RANK_def by code_simp
  then show ?thesis by (metis distinct_map distinct_upt)
qed


lemma classify_table:
  assumes "classify x = Inr c"
  shows "(cl_status c, cl_next_action c) = decision x"
    and "sorted (map FINDING_RANK (cl_findings c))" and "distinct (cl_findings c)"
    and "set (cl_findings c) \<subseteq> set FINDING_ORDER"
    and "cl_reason c \<noteq> ''a claimed GitHub object lacks current evidence''"
proof -
  have "(cl_status c, cl_next_action c) = decision x \<and> sorted (map FINDING_RANK (cl_findings c)) \<and>
      distinct (cl_findings c) \<and> set (cl_findings c) \<subseteq> set FINDING_ORDER \<and>
      cl_reason c \<noteq> ''a claimed GitHub object lacks current evidence''"
  proof (cases "tangible x")
    case True
    with assms obtain fs where fs: "item_findings x = Inr fs"
      and c: "c = verdict_of (oi_allow_repository_creation (it_intent x)) (sort_key FINDING_RANK (remdups fs))"
      by (auto simp: classify_def tangible_def)
    have "set (sort_key FINDING_RANK (remdups fs)) = set fs" by simp
    note v = verdict_of_decision [OF fs True this, folded c]
    from fs have "set fs \<subseteq> set FINDING_ORDER" by (rule item_findingsE)
    with v show ?thesis by (simp add: distinct_sort)
  next
    case False
    then have "ot_artifact_kind (it_target x) = ''none'' \<or> \<not> oi_artifact_expected (it_intent x)"
      by (simp add: tangible_def)
    with assms have "c = \<lparr>cl_status = ''excluded'', cl_findings = [], cl_next_action = ''none'',
          cl_reason = ''ordinary conversation or no tangible artifact was intended''\<rparr>"
      by (simp add: classify_def)
    with False show ?thesis by (simp add: decision_def)
  qed
  then show "(cl_status c, cl_next_action c) = decision x"
    and "sorted (map FINDING_RANK (cl_findings c))" and "distinct (cl_findings c)"
    and "set (cl_findings c) \<subseteq> set FINDING_ORDER"
    and "cl_reason c \<noteq> ''a claimed GitHub object lacks current evidence''"
    by auto
qed

text \<open>
  \<^verbatim>\<open>int\<close> reads the pull-request number of every claim a normalised item carries, so the
  classification of a normalised item always returns.
\<close>

lemma int_of_text_digits:
  assumes "s \<noteq> []" and "list_all is_digit s"
  shows "int_of_text s = Inr (int (digits_value s))"
proof -
  have us: "\<not> is_digit (CHR ''_'')" "\<not> is_digit (CHR ''-'')" by code_simp+
  have hd: "is_digit (hd s)" "is_digit (last s)" using assms by (simp_all add: list_all_iff)
  have "\<not> contains ''__'' t" if "list_all is_digit t" for t
    using that
  proof (induction t)
    case (Cons c t)
    with us(1) show ?case by auto
  qed simp
  moreover have "filter is_digit s = s" using assms by (simp add: list_all_iff filter_id_conv)
  moreover have "list_all (\<lambda>c. is_digit c \<or> c = CHR ''_'') s" using assms(2) by (auto simp: list_all_iff)
  ultimately show ?thesis
    using assms us hd by (auto simp: int_of_text_def int_body_def Let_def)
qed

definition claims_readable :: "item \<Rightarrow> bool" where
  "claims_readable x \<longleftrightarrow> (\<exists>n. claimed_pr_number (oc_pull_request_url (it_claims x)) = Inr n)"

lemma classify_returns: "claims_readable x \<Longrightarrow> \<exists>c. classify x = Inr c"
  by (auto simp: claims_readable_def classify_def item_findings_def claim_findings_def Let_def)

lemma normalize_obs_claims_readable:
  assumes "normalize_obs_claims at identity d = Inr c"
  shows "\<exists>n. claimed_pr_number (oc_pull_request_url c) = Inr n"
proof (cases "oc_pull_request_url c")
  case (Some u)
  with assms obtain i tail where "validate_github_url u (at @ ''.claims.pull_request_url'') identity = Inr (i, tail)"
    and pr: "positive_pr tail"
    unfolding normalize_obs_claims_def by (elim bindE_InrE) (auto split: option.splits)
  then have "\<exists>w r. match_github_url u = Some (w, r, tail)"
    by (auto simp: validate_github_url_def split: option.splits)
  with pr Some show ?thesis
    by (auto simp: claimed_pr_number_def positive_pr_def int_of_text_digits split: option.splits)
qed (simp add: claimed_pr_number_def)

lemma normalize_item_readable: "normalize_observation_item iv = Inr x \<Longrightarrow> claims_readable x"
  unfolding normalize_observation_item_def Let_def claims_readable_def
  by (cases iv) (simp only: prod.case, elim bindE_InrE,
      auto dest!: normalize_obs_claims_readable)


section \<open>Folding a batch into the ledger\<close>

lemma dict_set_same: "map_of d k = Some v \<Longrightarrow> dict_set d k v = d"
  by (induction d) (auto split: if_splits)

text \<open>Sorting is stable, so the first binding of a key stays the first.\<close>

lemma map_of_filter:
  "map_of d k = (case filter (\<lambda>p. fst p = k) d of [] \<Rightarrow> None | p # _ \<Rightarrow> Some (snd p))"
  by (induction d) auto

lemma map_of_sort_fst:
  fixes d :: "('k::linorder \<times> 'v) list"
  shows "map_of (sort_key fst d) = map_of d"
  by (rule ext) (simp add: map_of_filter sort_key_stable)

lemma process_item_iff:
  "process_item now d x = Inr e \<longleftrightarrow> (\<exists>c. classify x = Inr c \<and>
     e = dict_set d (ledger_key x) (make_entry now (map_of d (ledger_key x)) x c))"
  by (auto simp: process_item_def bindE_eq_Inr_iff)

lemma process_items_outside:
  assumes "foldE (process_item now) d xs = Inr e" and "k \<notin> ledger_key ` set xs"
  shows "map_of e k = map_of d k"
  using assms
  by (induction xs arbitrary: d) (auto simp: process_item_iff map_of_dict_set)

text \<open>Every item of a batch with distinct keys gets one entry, made from the entry before the batch.\<close>

lemma process_items_inside:
  assumes "foldE (process_item now) d xs = Inr e" and "distinct (map ledger_key xs)" and "x \<in> set xs"
  obtains c where "classify x = Inr c"
    and "map_of e (ledger_key x) = Some (make_entry now (map_of d (ledger_key x)) x c)"
proof -
  have "\<exists>c. classify x = Inr c \<and>
      map_of e (ledger_key x) = Some (make_entry now (map_of d (ledger_key x)) x c)"
    using assms
  proof (induction xs arbitrary: d)
    case (Cons y ys)
    then obtain c where c: "classify y = Inr c"
      and rest: "foldE (process_item now)
        (dict_set d (ledger_key y) (make_entry now (map_of d (ledger_key y)) y c)) ys = Inr e"
      by (auto simp: process_item_iff)
    show ?case
    proof (cases "x = y")
      case True
      with Cons.prems(2) have "ledger_key x \<notin> ledger_key ` set ys" by auto
      with process_items_outside [OF rest] c True show ?thesis by (simp add: map_of_dict_set)
    next
      case False
      with Cons.prems have "x \<in> set ys" "ledger_key x \<noteq> ledger_key y" "distinct (map ledger_key ys)"
        by (auto simp: image_iff)
      with Cons.IH [OF rest] show ?thesis by (simp add: map_of_dict_set)
    qed
  qed simp
  with that show thesis by blast
qed

lemma process_items_distinct:
  assumes "foldE (process_item now) d xs = Inr e" and "distinct (map fst d)"
  shows "distinct (map fst e)"
  using assms by (induction xs arbitrary: d) (auto simp: process_item_iff distinct_dict_set)

text \<open>A second pass over the same items at the same time changes nothing.\<close>

lemma make_entry_again:
  "make_entry now (Some (make_entry now prior x c)) x c = make_entry now prior x c"
  by (cases prior) (auto simp: make_entry_def Let_def)

lemma process_items_again:
  assumes "foldE (process_item now) d xs = Inr e" and "distinct (map ledger_key xs)"
    and "map_of e' = map_of e"
  shows "foldE (process_item now) e' xs = Inr e'"
proof -
  have "process_item now e' x = Inr e'" if "x \<in> set xs" for x
  proof -
    from assms(1,2) that obtain c where "classify x = Inr c"
      "map_of e (ledger_key x) = Some (make_entry now (map_of d (ledger_key x)) x c)"
      by (rule process_items_inside)
    with assms(3) show ?thesis by (simp add: process_item_def make_entry_again dict_set_same)
  qed
  then show ?thesis by (induction xs) auto
qed

section \<open>Consistent ledgers\<close>

definition entry_ok :: "string \<times> entry \<Rightarrow> bool" where
  "entry_ok ke \<longleftrightarrow> (case ke of (k, e) \<Rightarrow>
     e_key e = k \<and> ledger_key (e_observation e) = k \<and> 1 \<le> e_attempts e \<and>
     classify (e_observation e) = Inr (e_classification e) \<and>
     sha256_value (item_json (e_observation e)) = e_observation_digest e \<and>
     evidence_links (e_observation e) = e_links e)"

definition ledger_ok :: "ledger \<Rightarrow> bool" where
  "ledger_ok l \<longleftrightarrow> sorted_wrt (<) (map fst (lg_entries l)) \<and> list_all entry_ok (lg_entries l) \<and>
     lg_summary l = summarize_entries (map snd (lg_entries l))"

lemma make_entry_ok: "classify x = Inr c \<Longrightarrow> entry_ok (ledger_key x, make_entry now prior x c)"
  by (simp add: entry_ok_def make_entry_def Let_def split: option.split)

lemma list_all_dict_set:
  "list_all P d \<Longrightarrow> P (k, v) \<Longrightarrow> list_all P (dict_set d k v)"
  by (induction d) auto

lemma process_items_ok:
  assumes "foldE (process_item now) d xs = Inr e" and "list_all entry_ok d"
  shows "list_all entry_ok e"
  by (rule foldE_invariant [where P = "list_all entry_ok", OF assms])
    (auto simp: process_item_iff intro!: list_all_dict_set make_entry_ok)


lemma map_fst_sort:
  fixes d :: "('k::linorder \<times> 'v) list"
  assumes "distinct (map fst d)"
  shows "sorted_wrt (<) (map fst (sort_key fst d))"
  using assms by (simp add: strict_sorted_iff distinct_map)

definition previous_entries :: "ledger option \<Rightarrow> (string \<times> entry) list" where
  "previous_entries previous = (case previous of None \<Rightarrow> [] | Some l \<Rightarrow> lg_entries l)"

lemma load_previous_entries:
  "load_previous now previous = Inr l \<Longrightarrow> lg_entries l = previous_entries previous"
  by (auto simp: load_previous_def previous_entries_def empty_ledger_def split: option.splits)

lemma validate_observation_items:
  assumes "validate_observation d = Inr ob"
  shows "distinct (map ledger_key (ob_items ob))" and "sorted (map ledger_key (ob_items ob))"
    and "list_all claims_readable (ob_items ob)"
proof -
  from assms obtain raw items where "mapE normalize_observation_item (enumerate 0 raw) = Inr items"
    and "distinct (map ledger_key items)" and "ob_items ob = sort_key ledger_key items"
    unfolding validate_observation_def Let_def by (elim bindE_InrE) auto
  moreover from this(1) have "list_all claims_readable items"
    by (auto simp: list_all_iff dest: mapE_elem normalize_item_readable)
  ultimately show "distinct (map ledger_key (ob_items ob))" and "sorted (map ledger_key (ob_items ob))"
    and "list_all claims_readable (ob_items ob)"
    by (simp_all add: distinct_map list_all_iff)
qed

definition batch_items :: "int \<Rightarrow> observation \<Rightarrow> item list" where
  "batch_items n ob = take (nat n) (ob_items ob)"

definition batch_record :: "string \<Rightarrow> int \<Rightarrow> observation \<Rightarrow> last_batch" where
  "batch_record now n ob = \<lparr>lb_id = ob_id ob, lb_processed_at = now, lb_processed = length (batch_items n ob),
     lb_available = length (ob_items ob), lb_source_complete = ob_complete ob,
     lb_next_cursor = ob_next_cursor ob, lb_processed_keys = map ledger_key (batch_items n ob)\<rparr>"

definition next_ledger :: "string \<Rightarrow> int \<Rightarrow> observation \<Rightarrow> ledger \<Rightarrow> (string \<times> entry) list \<Rightarrow> ledger" where
  "next_ledger now n ob l0 entries =
     \<lparr>lg_created_at = lg_created_at l0, lg_updated_at = now, lg_last_batch = Some (batch_record now n ob),
      lg_entries = sort_key fst entries, lg_summary = summarize_entries (map snd (sort_key fst entries))\<rparr>"

lemma reconcile_steps:
  "reconcile d previous now n task =
     bindE (require (1 \<le> n \<and> n \<le> MAX_BATCH_SIZE)
       (''batch_size must be between 1 and '' @ str_int MAX_BATCH_SIZE)) (\<lambda>_.
     bindE (require (is_origin_id_text task) ''target CLI task ID has an invalid shape'') (\<lambda>_.
     bindE (validate_observation d) (\<lambda>ob.
     bindE (load_previous now previous) (\<lambda>l0.
     bindE (foldE (process_item now) (lg_entries l0) (batch_items n ob)) (\<lambda>entries.
     bindE (validate_public_safety (JObj (ledger_dict (next_ledger now n ob l0 entries)))) (\<lambda>_.
     bindE (validate_public_safety (queue_json (cli_queue now task (next_ledger now n ob l0 entries)))) (\<lambda>_.
     Inr (next_ledger now n ob l0 entries, cli_queue now task (next_ledger now n ob l0 entries)))))))))"
  by (simp only: reconcile_def Let_def batch_items_def batch_record_def next_ledger_def)

text \<open>What a successful run has done, step by step.\<close>

lemma reconcileE:
  assumes "reconcile d previous now n task = Inr (l, q)"
  obtains ob l0 entries where "validate_observation d = Inr ob" and "load_previous now previous = Inr l0"
    and "foldE (process_item now) (lg_entries l0) (batch_items n ob) = Inr entries"
    and "1 \<le> n \<and> n \<le> MAX_BATCH_SIZE" and "is_origin_id_text task"
    and "distinct (map ledger_key (batch_items n ob))"
    and "l = next_ledger now n ob l0 entries" and "q = cli_queue now task l"
    and "validate_public_safety (JObj (ledger_dict l)) = Inr ()"
    and "validate_public_safety (queue_json q) = Inr ()"
proof -
  have keys: "distinct (map ledger_key (batch_items n ob))" if "validate_observation d = Inr ob" for ob
    using validate_observation_items(1) [OF that] by (simp add: batch_items_def take_map [symmetric])
  from assms show thesis
    unfolding reconcile_steps
    by (elim bindE_InrE) (rule that, assumption+, auto dest: keys)
qed


section \<open>Reading a ledger back\<close>

lemma ledger_key_not_Nil: "ledger_key x \<noteq> []"
  by (simp add: ledger_key_def)

lemma check_entries:
  "foldE (\<lambda>_. check_entry) () (map (\<lambda>(k, e). (k, entry_json e)) d) = Inr () \<longleftrightarrow> [] \<notin> fst ` set d"
  unfolding foldE_unit
  by (auto simp: check_entry_def entry_json_def bindE_eq_Inr_iff image_iff)

lemma ledger_dict_get:
  "dict_get (ledger_dict l) ''schema_version'' = JStr LEDGER_SCHEMA"
  "dict_get (ledger_dict l) ''created_at'' = JStr (lg_created_at l)"
  "dict_get (ledger_dict l) ''updated_at'' = JStr (lg_updated_at l)"
  "dict_get_default (ledger_dict l) ''entries'' v = JObj (map (\<lambda>(k, e). (k, entry_json e)) (lg_entries l))"
  by (simp_all add: ledger_dict_def dict_get_default_def)

lemma ledger_dict_stamps:
  "dict_set (dict_set (ledger_dict l) ''created_at'' (JStr c)) ''updated_at'' (JStr u) =
     ledger_dict (l\<lparr>lg_created_at := c, lg_updated_at := u\<rparr>)"
  by (simp add: ledger_dict_def)

lemma validate_ledger_again:
  assumes "valid_datetime c" "lg_created_at l = timestamp c" "valid_datetime u" "lg_updated_at l = timestamp u"
    and "length (lg_entries l) \<le> max_items" and "[] \<notin> fst ` set (lg_entries l)"
    and "validate_public_safety (JObj (ledger_dict l)) = Inr ()"
  shows "validate_ledger (ledger_dict l) = Inr (ledger_dict l)"
proof -
  have "ledger_dict (l\<lparr>lg_created_at := timestamp c, lg_updated_at := timestamp u\<rparr>) = ledger_dict l"
    using assms(2,4) by (simp add: ledger_dict_def)
  with assms check_entries [of "lg_entries l"] show ?thesis
    unfolding validate_ledger_def ledger_dict_get ledger_dict_stamps Let_def
    by (simp add: parse_timestamp_canonical)
qed

lemma validate_ledger_too_long:
  assumes "valid_datetime c" "lg_created_at l = timestamp c" "valid_datetime u" "lg_updated_at l = timestamp u"
    and "max_items < length (lg_entries l)"
  shows "validate_ledger (ledger_dict l) = Inl (Err ''ledger.entries exceeds the item limit'')"
  using assms unfolding validate_ledger_def ledger_dict_get
  by (simp add: parse_timestamp_canonical require_def)

lemma load_previous_created:
  assumes "load_previous now previous = Inr l" and "valid_datetime u" and "now = timestamp u"
  obtains c where "valid_datetime c" and "lg_created_at l = timestamp c"
proof (cases previous)
  case None
  with assms that show thesis by (auto simp: load_previous_def empty_ledger_def)
next
  case (Some p)
  with assms(1) obtain s t where "parse_timestamp (JStr (lg_created_at p)) ''ledger.created_at'' = Inr s"
    and "l = p\<lparr>lg_created_at := s, lg_updated_at := t\<rparr>"
    by (auto simp: load_previous_def)
  with that show thesis by (auto elim: parse_timestamp_cases)
qed

lemma process_items_keys:
  assumes "foldE (process_item now) d xs = Inr e"
  shows "fst ` set e = fst ` set d \<union> ledger_key ` set xs"
  using assms
proof (induction xs arbitrary: d)
  case (Cons x xs)
  then obtain c where "foldE (process_item now)
      (dict_set d (ledger_key x) (make_entry now (map_of d (ledger_key x)) x c)) xs = Inr e"
    by (auto simp: process_item_iff)
  from Cons.IH [OF this] show ?case
    using keys_dict_set [of d "ledger_key x"] by simp
qed simp

lemma load_previous_keys: "load_previous now previous = Inr l \<Longrightarrow> [] \<notin> fst ` set (lg_entries l)"
proof (cases previous)
  case (Some p)
  assume "load_previous now previous = Inr l"
  with Some obtain v where "validate_ledger (ledger_dict p) = Inr v" "lg_entries l = lg_entries p"
    by (auto simp: load_previous_def)
  then show ?thesis
    using check_entries [of "lg_entries p"] unfolding validate_ledger_def ledger_dict_get
    by (elim bindE_InrE) simp
qed (auto simp: load_previous_def empty_ledger_def)

text \<open>
  The ledger a run returns can be loaded unless it has outgrown the limit, and the same run on it
  returns it again.
\<close>

lemma reconcile_reload:
  assumes run: "reconcile d previous now n task = Inr (l, q)" and now: "valid_datetime u" "now = timestamp u"
  shows "length (lg_entries l) \<le> max_items \<Longrightarrow> load_previous t (Some l) = Inr l"
    and "max_items < length (lg_entries l) \<Longrightarrow>
      load_previous t (Some l) = Inl (Err ''ledger.entries exceeds the item limit'')"
proof -
  from run obtain ob l0 entries where *: "load_previous now previous = Inr l0"
      "foldE (process_item now) (lg_entries l0) (batch_items n ob) = Inr entries"
      "l = next_ledger now n ob l0 entries" "validate_public_safety (JObj (ledger_dict l)) = Inr ()"
    by (rule reconcileE)
  from *(1) now obtain c where c: "valid_datetime c" "lg_created_at l0 = timestamp c"
    by (rule load_previous_created)
  have stamps: "lg_created_at l = timestamp c" "lg_updated_at l = timestamp u"
    using *(3) c now by (simp_all add: next_ledger_def)
  have keys: "[] \<notin> fst ` set (lg_entries l)"
    using process_items_keys [OF *(2)] load_previous_keys [OF *(1)] *(3) ledger_key_not_Nil
    by (auto simp: next_ledger_def image_iff) metis+
  have same: "l\<lparr>lg_created_at := timestamp c, lg_updated_at := timestamp u\<rparr> = l"
    using stamps by simp
  show "load_previous t (Some l) = Inr l" if "length (lg_entries l) \<le> max_items"
    using validate_ledger_again [OF c(1) stamps(1) now(1) stamps(2) that keys *(4)] same
    by (simp add: load_previous_def stamps parse_timestamp_canonical c now)
  show "load_previous t (Some l) = Inl (Err ''ledger.entries exceeds the item limit'')"
    if "max_items < length (lg_entries l)"
    using validate_ledger_too_long [OF c(1) stamps(1) now(1) stamps(2) that]
    by (simp add: load_previous_def)
qed


section \<open>The queue\<close>

definition cli_actions :: "string set" where
  "cli_actions = {''cli_create_repository'', ''cli_recover_local_artifact''}"

lemma build_cli_item_keys:
  assumes "list_all entry_ok d"
  shows "map ci_key (List.map_filter (build_cli_item task) (map snd d)) =
    map fst (filter (\<lambda>(k, e). snd (decision (e_observation e)) \<in> cli_actions) d)"
  using assms
proof (induction d)
  case (Cons ke d)
  obtain k e where ke: "ke = (k, e)" by (cases ke)
  with Cons.prems have e: "e_key e = k" "classify (e_observation e) = Inr (e_classification e)"
    by (simp_all add: entry_ok_def)
  have "cl_next_action (e_classification e) = snd (decision (e_observation e))"
    using classify_table(1) [OF e(2)] by (metis snd_conv)
  with Cons e(1) ke show ?case
    by (simp add: List.map_filter_def build_cli_item_def cli_actions_def Let_def)
qed (simp add: List.map_filter_def)

lemma map_filter_some: "c \<in> set (List.map_filter f xs) \<longleftrightarrow> (\<exists>x\<in>set xs. f x = Some c)"
  by (force simp: List.map_filter_def image_iff)

lemma decision_cli:
  "snd (decision x) \<in> cli_actions \<longleftrightarrow> tangible x \<and> trusted x \<and>
     (if or_exists (om_repository (it_remote x)) then work_left x
      else oi_allow_repository_creation (it_intent x))"
  by (simp add: decision_def cli_actions_def)

lemma reconcile_ok:
  assumes run: "reconcile d previous now n task = Inr (l, q)"
    and prior: "list_all entry_ok (previous_entries previous)" "distinct (map fst (previous_entries previous))"
  shows "ledger_ok l"
proof -
  from run obtain ob l0 entries where *: "load_previous now previous = Inr l0"
      "foldE (process_item now) (lg_entries l0) (batch_items n ob) = Inr entries"
      "l = next_ledger now n ob l0 entries"
    by (rule reconcileE)
  note prior = prior [folded load_previous_entries [OF *(1)]]
  from process_items_ok [OF *(2) prior(1)] process_items_distinct [OF *(2) prior(2)] *(3)
  show ?thesis by (simp add: ledger_ok_def next_ledger_def map_fst_sort list_all_iff)
qed

lemma reconcile_queue_items:
  assumes run: "reconcile d previous now n task = Inr (l, q)" and ok: "ledger_ok l"
  shows "map ci_key (q_items q) =
      map fst (filter (\<lambda>(k, e). snd (decision (e_observation e)) \<in> cli_actions) (lg_entries l))"
    and "c \<in> set (q_items q) \<Longrightarrow> \<exists>e. (ci_key c, e) \<in> set (lg_entries l) \<and> build_cli_item task e = Some c"
proof -
  from run have q: "q = cli_queue now task l" by (rule reconcileE)
  have all: "list_all entry_ok (lg_entries l)" and keys: "sorted_wrt (<) (map fst (lg_entries l))"
    using ok by (simp_all add: ledger_ok_def)
  define items where "items = List.map_filter (build_cli_item task) (map snd (lg_entries l))"
  have items: "map ci_key items = map fst (filter (\<lambda>(k, e). snd (decision (e_observation e)) \<in> cli_actions) (lg_entries l))"
    unfolding items_def by (rule build_cli_item_keys [OF all])
  have "sorted (map fst (lg_entries l))" using keys by (simp add: strict_sorted_iff)
  then have "sorted (map ci_key items)" unfolding items by (rule sorted_filter)
  then have same: "q_items q = items"
    by (simp add: q cli_queue_def items_def sort_key_id_if_sorted)
  with items show "map ci_key (q_items q) =
      map fst (filter (\<lambda>(k, e). snd (decision (e_observation e)) \<in> cli_actions) (lg_entries l))" by simp
  assume "c \<in> set (q_items q)"
  then obtain k e where e: "(k, e) \<in> set (lg_entries l)" "build_cli_item task e = Some c"
    by (auto simp: same items_def map_filter_some)
  then have "ci_key c = e_key e" by (auto simp: build_cli_item_def Let_def split: if_splits)
  moreover have "e_key e = k" using e(1) all by (auto simp: list_all_iff entry_ok_def)
  ultimately show "\<exists>e. (ci_key c, e) \<in> set (lg_entries l) \<and> build_cli_item task e = Some c"
    using e by (intro exI [of _ e]) simp
qed

section \<open>Errors\<close>

lemma refuses_normalize_item [refusal_intros]:
  "refuses (normalize_origin at d)" "refuses (normalize_obs_target at d)"
  "refuses (normalize_obs_intent at kind d)" "refuses (normalize_obs_local at d)"
  "refuses (normalize_remote_branch at iv)" "refuses (normalize_commit at identity iv)"
  "refuses (check_url url field identity)"
  unfolding normalize_origin_def normalize_obs_target_def normalize_obs_intent_def normalize_obs_local_def
    normalize_remote_branch_def normalize_commit_def check_url_def Let_def
  by (intro refusal_intros)+

lemma refuses_normalize_pull_request [refusal_intros]: "refuses (normalize_pull_request at identity iv)"
proof -
  have "refuses (case v of JInt n \<Rightarrow> if n < 1 then Inl (Err s) else Inr n | _ \<Rightarrow> Inl (Err s))" for v s
    by (cases v) (auto intro!: refusal_intros)
  then show ?thesis unfolding normalize_pull_request_def Let_def by (intro refusal_intros) simp_all
qed

lemma refuses_normalize_remote [refusal_intros]:
  "refuses (normalize_obs_remote at identity d)" "refuses (normalize_obs_claims at identity d)"
  unfolding normalize_obs_remote_def normalize_obs_claims_def by (intro refusal_intros)+

lemma refuses_validate_observation [refusal_intros]: "refuses (validate_observation d)"
  unfolding validate_observation_def normalize_observation_item_def Let_def by (intro refusal_intros)

lemma refuses_validate_ledger [refusal_intros]: "refuses (validate_ledger d)"
  unfolding validate_ledger_def check_entry_def Let_def by (intro refusal_intros)

lemma refuses_load_previous [refusal_intros]: "refuses (load_previous now previous)"
  unfolding load_previous_def by (intro refusal_intros)

lemma refuses_reconcile: "refuses (reconcile d previous now n task)"
proof -
  have "refuses (process_item now s x)" if "validate_observation d = Inr ob" "x \<in> set (batch_items n ob)" for s x ob
  proof -
    from validate_observation_items(3) [OF that(1)] that(2) have "claims_readable x"
      by (auto simp: list_all_iff batch_items_def dest: in_set_takeD)
    then obtain c where "classify x = Inr c" using classify_returns by blast
    then show ?thesis by (simp add: process_item_def refusal_intros)
  qed
  then show ?thesis unfolding reconcile_steps by (intro refusal_intros)
qed


lemma required_sequence_publishable: "list_all publishable required_sequence"
  unfolding required_sequence_def list.pred_inject(2)
  by (intro conjI list.pred_inject(1); rule sentence_publishable; simp)
lemma forbidden_steps_publishable: "list_all publishable forbidden_steps"
  unfolding forbidden_steps_def list.pred_inject(2)
  by (intro conjI list.pred_inject(1); rule sentence_publishable; simp)

section \<open>A sample run\<close>

definition sample_item :: item where
  "sample_item =
     \<lparr>it_origin = \<lparr>o_source = ''file_library'', o_id = ''c1'', o_id_kind = ''task_id'', o_observed_at = timestamp sample_time\<rparr>,
      it_target = \<lparr>ot_owner = ''o'', ot_repository = ''r'', ot_identity = ''o/r'', ot_visibility = None,
        ot_artifact_kind = ''code'', ot_ownership_resolved = True\<rparr>,
      it_intent = \<lparr>oi_artifact_expected = True, oi_base_branch = None, oi_branch = None,
        oi_pull_request_required = True, oi_allow_repository_creation = True\<rparr>,
      it_local = \<lparr>ol_artifact = None, ol_git_repository = True, ol_remote_present = False, ol_branch = None,
        ol_branches = [], ol_head_sha = None, ol_dirty_paths = []\<rparr>,
      it_remote = \<lparr>om_collected = True, om_repository = \<lparr>or_exists = True, or_visibility = None,
          or_default_branch = None, or_url = None\<rparr>, om_branches = [], om_commits = [], om_pull_requests = []\<rparr>,
      it_claims = \<lparr>oc_repository_url = None, oc_commit_sha = None, oc_branch = None, oc_pull_request_url = None\<rparr>,
      it_note = None\<rparr>"

definition sample_observation :: observation where
  "sample_observation = \<lparr>ob_generated_at = timestamp sample_time, ob_id = ''b1'', ob_complete = True,
     ob_next_cursor = None, ob_source_window = None, ob_items = [sample_item]\<rparr>"

definition sample_batch :: pydict where
  "sample_batch = [(''schema_version'', JStr OBSERVATION_SCHEMA), (''generated_at'', JStr (timestamp sample_time)),
     (''batch'', JObj [(''id'', JStr ''b1''), (''complete'', JBool True)]), (''items'', JArr [item_json sample_item])]"

lemma sample_words:
  "publishable ''file_library''" "publishable ''c1''" "publishable ''task_id''" "publishable ''o''"
  "publishable ''r''" "publishable ''o/r''" "publishable ''code''" "publishable ''b1''" "publishable ''t1''"
  "publishable ''actionable''" "publishable ''cli_recover_local_artifact''" "publishable ''private''"
  "publishable ''repository_has_no_remote''" "publishable OBSERVATION_SCHEMA" "publishable LEDGER_SCHEMA"
  "publishable CLI_QUEUE_SCHEMA" "publishable ''local Git state or artifact publication is incomplete''"
  unfolding OBSERVATION_SCHEMA_def LEDGER_SCHEMA_def CLI_QUEUE_SCHEMA_def
  by (rule sentence_publishable; simp)+

lemma sample_texts:
  "publishable ''file_library:c1::o/r''" "publishable (timestamp sample_time)"
  by (rule inert_publishable, code_simp, simp) (rule timestamp_publishable [OF sample_time_valid])

lemma sample_identity: "normalize_repo ''o'' ''r'' = Inr ''o/r''" "is_origin_id_text ''c1''" "is_origin_id_text ''t1''"
  by code_simp+

lemma sample_clean:
  "clean_string 32 ''file_library''" "clean_string 200 ''c1''" "clean_string 32 ''task_id''"
  "clean_string 39 ''o''" "clean_string 100 ''r''" "clean_string 32 ''code''" "clean_string 100 ''b1''"
  by code_simp+

lemma optional_null [simp]:
  "optional_string JNull field maximum = Inr None" "normalize_branch JNull field = Inr None"
  "normalize_sha JNull field = Inr None" "normalize_visibility JNull field = Inr None"
  "normalize_artifact JNull field = Inr None"
  by (simp_all add: optional_string_def normalize_branch_def normalize_sha_def normalize_visibility_def
      normalize_artifact_def)

lemma sample_item_strings: "strings_of (item_json sample_item) \<subseteq> {s. publishable s}"
  by (simp add: item_json_def sample_item_def origin_json_def obs_target_json_def obs_intent_json_def
      obs_local_json_def remote_json_def repository_json_def claims_json_def opt_artifact_json_def
      sample_words sample_texts)

lemma sample_normal: "normalize_observation_item (i, item_json sample_item) = Inr sample_item"
proof -
  have safe: "validate_public_safety (item_json sample_item) = Inr ()"
    unfolding public_safety_iff by (rule sample_item_strings)
  define d where "d = [(''origin'', origin_json (it_origin sample_item)), (''target'', obs_target_json (it_target sample_item)),
     (''intent'', obs_intent_json (it_intent sample_item)), (''local'', obs_local_json (it_local sample_item)),
     (''remote'', remote_json (it_remote sample_item)), (''claims'', claims_json (it_claims sample_item)),
     (''note'', opt_str (it_note sample_item))]"
  have item: "item_json sample_item = JObj d" by (simp add: item_json_def d_def)
  note parts = d_def sample_item_def dict_get_default_def sample_clean sample_identity
    parse_timestamp_canonical [OF sample_time_valid]
  have "normalize_origin at d = Inr (it_origin sample_item)"
    and "normalize_obs_target at d = Inr (it_target sample_item)"
    and "normalize_obs_intent at ''code'' d = Inr (it_intent sample_item)"
    and "normalize_obs_local at d = Inr (it_local sample_item)"
    and "normalize_obs_remote at ''o/r'' d = Inr (it_remote sample_item)"
    and "normalize_obs_claims at ''o/r'' d = Inr (it_claims sample_item)" for at
    by (simp_all add: parts normalize_origin_def origin_json_def normalize_obs_target_def obs_target_json_def
      normalize_obs_intent_def obs_intent_json_def normalize_obs_local_def obs_local_json_def
      opt_artifact_json_def truthy_def present_def sorted_distinct_def normalize_obs_remote_def remote_json_def
      repository_json_def check_url_def normalize_obs_claims_def claims_json_def)
  moreover have "unsupported_keys at d [''origin'', ''target'', ''intent'', ''local'', ''remote'', ''claims'', ''note'']
      = Inr ()" for at
    by (simp add: unsupported_keys_def dict_keys_def d_def)
  moreover have "ot_artifact_kind (it_target sample_item) = ''code''" "ot_identity (it_target sample_item) = ''o/r''"
    "dict_get d ''note'' = JNull" "it_note sample_item = None" by (simp_all add: d_def sample_item_def)
  ultimately have "normalize_observation_item (i, item_json sample_item) =
      (let x = \<lparr>it_origin = it_origin sample_item, it_target = it_target sample_item,
         it_intent = it_intent sample_item, it_local = it_local sample_item, it_remote = it_remote sample_item,
         it_claims = it_claims sample_item, it_note = it_note sample_item\<rparr> in
       bindE (validate_public_safety (item_json x)) (\<lambda>_. Inr x))"
    unfolding normalize_observation_item_def item by (simp add: Let_def)
  moreover have whole: "\<lparr>it_origin = it_origin x, it_target = it_target x, it_intent = it_intent x,
      it_local = it_local x, it_remote = it_remote x, it_claims = it_claims x, it_note = it_note x\<rparr> = x" for x :: item
    by (cases x) simp
  ultimately show ?thesis unfolding whole Let_def safe by simp
qed


lemma sample_valid: "validate_observation sample_batch = Inr sample_observation"
proof -
  have safe: "validate_public_safety (observation_json sample_observation) = Inr ()"
    unfolding public_safety_iff
    using sample_item_strings
    by (simp add: observation_json_def sample_observation_def sample_words sample_texts)
  have "1 \<le> max_items" by (simp add: max_items_def)
  with safe show ?thesis
    unfolding validate_observation_def Let_def
    by (simp add: sample_batch_def dict_get_default_def sample_clean sample_normal
        parse_timestamp_canonical [OF sample_time_valid] sample_observation_def)
qed

definition sample_class :: classification where
  "sample_class = \<lparr>cl_status = ''actionable'', cl_findings = [''repository_has_no_remote''],
     cl_next_action = ''cli_recover_local_artifact'',
     cl_reason = ''local Git state or artifact publication is incomplete''\<rparr>"

lemma sample_classify: "classify sample_item = Inr sample_class"
  by (simp add: classify_def item_findings_def claim_findings_def sample_item_def sample_class_def
      claimed_pr_number_def truthy_text_def branch_findings_def add_if_def verdict_of_def FAIL_CLOSED_def
      LOCAL_FINDINGS_def Let_def)

definition sample_entry :: entry where
  "sample_entry = make_entry (timestamp sample_time) None sample_item sample_class"

definition sample_ledger :: ledger where
  "sample_ledger = next_ledger (timestamp sample_time) 50 sample_observation (empty_ledger (timestamp sample_time))
     [(''file_library:c1::o/r'', sample_entry)]"

lemma sample_key: "ledger_key sample_item = ''file_library:c1::o/r''"
  by (simp add: ledger_key_def sample_item_def)

lemma sample_run:
  "reconcile sample_batch None (timestamp sample_time) 50 ''t1''
     = Inr (sample_ledger, cli_queue (timestamp sample_time) ''t1'' sample_ledger)"
proof -
  have links: "evidence_links sample_item = []"
    by (simp add: evidence_links_def sample_item_def truthy_text_def sorted_distinct_def)
  have hex: "publishable (sha256_value v)" for v by (simp add: hex_publishable)
  have entry: "strings_of (entry_json sample_entry) \<subseteq> {s. publishable s}"
    using sample_item_strings
    by (simp add: entry_json_def sample_entry_def make_entry_def Let_def links sample_key hex
        classification_json_def sample_class_def sample_words sample_texts)
  have batch: "batch_items 50 sample_observation = [sample_item]"
    by (simp add: batch_items_def sample_observation_def)
  have counted: "strings_of (counts_json cs) = {}" for cs
    by (auto simp: counts_json_def)
  have "validate_public_safety (JObj (ledger_dict sample_ledger)) = Inr ()"
    unfolding public_safety_iff
    using entry
    by (simp add: ledger_dict_def sample_ledger_def next_ledger_def empty_ledger_def last_batch_json_def
        batch_record_def batch [unfolded sample_observation_def] sample_key summarize_entries_def Let_def counted sample_words sample_texts
        sample_observation_def)
  moreover have "validate_public_safety (queue_json (cli_queue (timestamp sample_time) ''t1'' sample_ledger)) = Inr ()"
  proof -
    have "q_items (cli_queue (timestamp sample_time) ''t1'' sample_ledger) =
        [\<lparr>ci_key = ''file_library:c1::o/r'', ci_task = ''t1'', ci_owner = ''o'', ci_repository = ''r'',
          ci_visibility = ''private'', ci_base_branch = None, ci_intended_branch = None, ci_artifact = None,
          ci_head_sha = None, ci_findings = [''repository_has_no_remote'']\<rparr>]"
      by (simp add: cli_queue_def sample_ledger_def next_ledger_def sample_entry_def make_entry_def Let_def
          List.map_filter_def build_cli_item_def sample_class_def sample_key [unfolded sample_item_def] sample_item_def
          desired_visibility_def)
    then show ?thesis
      using required_sequence_publishable forbidden_steps_publishable
      unfolding public_safety_iff
      by (simp add: queue_json_def cli_item_json_def opt_artifact_json_def sample_words sample_texts
          list_all_iff subset_iff cli_queue_def hex)
  qed
  moreover have "is_origin_id_text ''t1''" by (rule sample_identity)
  ultimately show ?thesis
    unfolding reconcile_steps
    by (simp add: MAX_BATCH_SIZE_def sample_valid load_previous_def batch process_item_def sample_classify
        empty_ledger_def sample_key flip: sample_entry_def sample_ledger_def [unfolded empty_ledger_def])
qed


section \<open>Properties\<close>

text \<open>
  C18. \<^verbatim>\<open>classify\<close> returns on every normalised item and its verdict is the decision table: excluded
  unless a tangible artifact was intended; a manual review whenever ownership is unresolved, the
  remote evidence was not collected or a claim is not borne out by it; otherwise the next step of
  the recovery (create, recover, open a pull request) or completion. The findings are strictly
  ordered by their rank and the final catch-all return of the function is unreachable.
\<close>

theorem classify_exact:
  assumes "normalize_observation_item iv = Inr x"
  shows "\<exists>c. classify x = Inr c \<and> (cl_status c, cl_next_action c) = decision x \<and>
    sorted (map FINDING_RANK (cl_findings c)) \<and> distinct (cl_findings c) \<and>
    set (cl_findings c) \<subseteq> set FINDING_ORDER \<and>
    cl_reason c \<noteq> ''a claimed GitHub object lacks current evidence''"
  using classify_returns [OF normalize_item_readable [OF assms]] classify_table by blast

lemma classify_exact_witness:
  "\<exists>c. classify sample_item = Inr c \<and> (cl_status c, cl_next_action c) = decision sample_item \<and>
    sorted (map FINDING_RANK (cl_findings c)) \<and> distinct (cl_findings c) \<and>
    set (cl_findings c) \<subseteq> set FINDING_ORDER \<and>
    cl_reason c \<noteq> ''a claimed GitHub object lacks current evidence''"
  by (rule classify_exact [OF sample_normal])

text \<open>
  C19. A run leaves a consistent ledger: keys strictly ascending, every entry stored under the key
  of its observation and bound to it by digest, classification and links, and the summary counts
  these entries. Each item of the batch has the entry made from the one before the run: first seen
  is kept, last seen is now, and the attempts grow by one exactly when the observation changed.
  Every other entry is unchanged.
\<close>

theorem reconcile_ledger:
  assumes "reconcile d previous now n task = Inr (l, q)"
    and "list_all entry_ok (previous_entries previous)" and "distinct (map fst (previous_entries previous))"
  shows "ledger_ok l \<and> (\<exists>ob. validate_observation d = Inr ob \<and>
    (\<forall>x\<in>set (batch_items n ob). \<exists>e. map_of (lg_entries l) (ledger_key x) = Some e \<and>
       e_observation e = x \<and> e_last_seen e = now \<and>
       (case map_of (previous_entries previous) (ledger_key x) of
          None \<Rightarrow> e_first_seen e = now \<and> e_attempts e = 1
        | Some p \<Rightarrow> e_first_seen e = e_first_seen p \<and>
            e_attempts e = e_attempts p + (if e_observation_digest p = e_observation_digest e then 0 else 1))) \<and>
    (\<forall>k. k \<notin> ledger_key ` set (batch_items n ob) \<longrightarrow>
       map_of (lg_entries l) k = map_of (previous_entries previous) k))"
proof -
  from assms(1) obtain ob l0 entries where *: "validate_observation d = Inr ob" "load_previous now previous = Inr l0"
      "foldE (process_item now) (lg_entries l0) (batch_items n ob) = Inr entries"
      "distinct (map ledger_key (batch_items n ob))" "l = next_ledger now n ob l0 entries"
    by (rule reconcileE)
  note prior = load_previous_entries [OF *(2)]
  have look: "map_of (lg_entries l) = map_of entries"
    by (simp add: *(5) next_ledger_def map_of_sort_fst)
  have ok: "entry_ok (k, p)" if "map_of (previous_entries previous) k = Some p" for k p
    using assms(2) map_of_SomeD [OF that] by (auto simp: list_all_iff)
  have "\<exists>e. map_of (lg_entries l) (ledger_key x) = Some e \<and> e_observation e = x \<and> e_last_seen e = now \<and>
       (case map_of (previous_entries previous) (ledger_key x) of
          None \<Rightarrow> e_first_seen e = now \<and> e_attempts e = 1
        | Some p \<Rightarrow> e_first_seen e = e_first_seen p \<and>
            e_attempts e = e_attempts p + (if e_observation_digest p = e_observation_digest e then 0 else 1))" if x: "x \<in> set (batch_items n ob)" for x
  proof -
    from process_items_inside [OF *(3,4) x] obtain c where
      "map_of (lg_entries l) (ledger_key x) =
         Some (make_entry now (map_of (previous_entries previous) (ledger_key x)) x c)"
      by (metis look prior)
    with ok [of "ledger_key x"] show ?thesis
      by (auto simp: make_entry_def Let_def entry_ok_def split: option.split)
  qed
  moreover have "ledger_ok l" by (rule reconcile_ok [OF assms])
  ultimately show ?thesis
    using *(1) process_items_outside [OF *(3)] look prior by auto
qed

lemma reconcile_ledger_witness: "ledger_ok sample_ledger"
  using reconcile_ledger [OF sample_run] by (simp add: previous_entries_def)

text \<open>
  C20. The queue of a run fails closed. It lists exactly the entries whose decision is to create a
  repository or to recover local work, once each and in key order, bound to the ledger by its
  digest; each of them is about a tangible artifact whose ownership is resolved, whose remote
  evidence was collected and whose claims it bears out, and a repository is created only when it is
  absent and its creation allowed.
\<close>

theorem reconcile_queue:
  assumes "reconcile d previous now n task = Inr (l, q)"
    and "list_all entry_ok (previous_entries previous)" and "distinct (map fst (previous_entries previous))"
  shows "map ci_key (q_items q) =
      map fst (filter (\<lambda>(k, e). snd (decision (e_observation e)) \<in> cli_actions) (lg_entries l)) \<and>
    distinct (map ci_key (q_items q)) \<and> q_ledger_digest q = sha256_value (JObj (ledger_dict l)) \<and>
    (\<forall>c\<in>set (q_items q). \<exists>e. (ci_key c, e) \<in> set (lg_entries l) \<and> build_cli_item task e = Some c \<and>
       tangible (e_observation e) \<and> trusted (e_observation e) \<and>
       (if or_exists (om_repository (it_remote (e_observation e))) then work_left (e_observation e)
        else oi_allow_repository_creation (it_intent (e_observation e))))"
proof -
  have ok: "ledger_ok l" by (rule reconcile_ok [OF assms])
  note items = reconcile_queue_items [OF assms(1) ok]
  have "distinct (map fst (lg_entries l))" using ok by (simp add: ledger_ok_def strict_sorted_iff)
  then have "distinct (map ci_key (q_items q))"
    unfolding items(1) by (rule distinct_map_filter)
  moreover have "q_ledger_digest q = sha256_value (JObj (ledger_dict l))"
    using assms(1) by (rule reconcileE) (simp add: cli_queue_def)
  moreover have "\<exists>e. (ci_key c, e) \<in> set (lg_entries l) \<and> build_cli_item task e = Some c \<and>
       snd (decision (e_observation e)) \<in> cli_actions" if c: "c \<in> set (q_items q)" for c
  proof -
    from items(2) [OF c] obtain e where e: "(ci_key c, e) \<in> set (lg_entries l)" "build_cli_item task e = Some c"
      by blast
    with ok have "classify (e_observation e) = Inr (e_classification e)"
      by (auto simp: ledger_ok_def list_all_iff entry_ok_def)
    from classify_table(1) [OF this] have "cl_next_action (e_classification e) = snd (decision (e_observation e))"
      by (metis snd_conv)
    with e show ?thesis by (auto simp: build_cli_item_def cli_actions_def split: if_splits)
  qed
  ultimately show ?thesis using items(1) unfolding decision_cli by blast
qed

lemma reconcile_queue_witness:
  "map ci_key (q_items (cli_queue (timestamp sample_time) ''t1'' sample_ledger)) = [''file_library:c1::o/r''] \<and>
   trusted sample_item"
proof -
  have "decision sample_item = (''actionable'', ''cli_recover_local_artifact'')"
    using classify_table(1) [OF sample_classify] by (simp add: sample_class_def)
  moreover have "lg_entries sample_ledger = [(''file_library:c1::o/r'', sample_entry)]" "e_observation sample_entry = sample_item"
    by (simp_all add: sample_ledger_def next_ledger_def sample_entry_def make_entry_def Let_def)
  ultimately show ?thesis
    using reconcile_queue [OF sample_run] by (auto simp: previous_entries_def cli_actions_def)
qed

text \<open>
  C21. \<^verbatim>\<open>reconcile\<close> is idempotent while the ledger fits its limit: the same batch at the same
  canonical time, on the ledger the first run returned, gives the same ledger and the same queue.
  Nothing keeps a run from returning a ledger over the limit, though, and no later run can load
  such a ledger: it stops with the item-limit error whatever its batch.
\<close>

theorem reconcile_idempotent:
  assumes "reconcile d previous now n task = Inr (l, q)"
    and "now_utc clock v = Inr now" and "valid_datetime clock"
  shows "(length (lg_entries l) \<le> max_items \<longrightarrow> reconcile d (Some l) now n task = Inr (l, q)) \<and>
    (max_items < length (lg_entries l) \<longrightarrow> (\<forall>d' now' n' task'.
       1 \<le> n' \<and> n' \<le> MAX_BATCH_SIZE \<and> is_origin_id_text task' \<and> (\<exists>ob. validate_observation d' = Inr ob) \<longrightarrow>
       reconcile d' (Some l) now' n' task' = Inl (Err ''ledger.entries exceeds the item limit'')))"
proof -
  from now_utc_canonical [OF assms(2,3)] obtain u where u: "valid_datetime u" "now = timestamp u" .
  note reload = reconcile_reload [OF assms(1) u]
  show ?thesis
  proof (intro conjI impI allI)
    assume small: "length (lg_entries l) \<le> max_items"
    from assms(1) obtain ob l0 entries where *: "validate_observation d = Inr ob"
      "foldE (process_item now) (lg_entries l0) (batch_items n ob) = Inr entries"
      "1 \<le> n \<and> n \<le> MAX_BATCH_SIZE" "is_origin_id_text task" "distinct (map ledger_key (batch_items n ob))"
      "l = next_ledger now n ob l0 entries" "q = cli_queue now task l"
      "validate_public_safety (JObj (ledger_dict l)) = Inr ()"
      "validate_public_safety (queue_json q) = Inr ()"
      by (rule reconcileE)
    from process_items_again [OF *(2,5) map_of_sort_fst]
    have "foldE (process_item now) (lg_entries l) (batch_items n ob) = Inr (lg_entries l)"
      by (simp add: *(6) next_ledger_def)
    moreover have "next_ledger now n ob l (lg_entries l) = l"
      by (simp add: *(6) next_ledger_def sort_key_again)
    ultimately show "reconcile d (Some l) now n task = Inr (l, q)"
      unfolding reconcile_steps using * reload(1) [OF small] by simp
  next
    fix d' now' n' task'
    assume "max_items < length (lg_entries l)" and
      "1 \<le> n' \<and> n' \<le> MAX_BATCH_SIZE \<and> is_origin_id_text task' \<and> (\<exists>ob. validate_observation d' = Inr ob)"
    with reload(2) show "reconcile d' (Some l) now' n' task' = Inl (Err ''ledger.entries exceeds the item limit'')"
      unfolding reconcile_steps by auto
  qed
qed

lemma reconcile_idempotent_witness:
  "reconcile sample_batch (Some sample_ledger) (timestamp sample_time) 50 ''t1''
     = Inr (sample_ledger, cli_queue (timestamp sample_time) ''t1'' sample_ledger)"
proof -
  have now: "now_utc sample_time None = Inr (timestamp sample_time)"
    by (simp add: now_utc_def replace_offset sample_time_valid)
  show ?thesis
    using reconcile_idempotent [OF sample_run now sample_time_valid]
    by (simp add: sample_ledger_def next_ledger_def max_items_def)
qed

section \<open>What is read of a previous entry\<close>

text \<open>
  \<open>reconcile\<close> takes the previous ledger as a \<open>ledger\<close>: a document it wrote itself, of which the fields are
  read back. The code has the document. What it reads of an entry are the lookups below, and on an entry
  of the tool they return the fields of the record. \<^verbatim>\<open>validate_ledger\<close> checks only that an entry is an
  object, so a ledger that was edited by hand passes it and the lookups may then raise what \<^verbatim>\<open>reconcile\<close>
  does not catch.

  \<^verbatim>\<open>int(x)\<close> for a value read from JSON: a text may have space around it, one sign and single underscores
  between its digits; a float is cut towards zero, and one with a negative exponent is below one.
\<close>

definition int_of_str :: "string \<Rightarrow> int result" where
  "int_of_str s =
     (let t = rev (dropWhile is_space (rev (dropWhile is_space s)));
          signed = (t \<noteq> [] \<and> hd t \<in> {CHR ''-'', CHR ''+''});
          body = (if signed then tl t else t); digits = filter is_digit body in
      if int_body body \<and> length digits \<le> 4300
      then Inr (if signed \<and> hd t = CHR ''-'' then - int (digits_value digits) else int (digits_value digits))
      else Inl ValueError)"

definition int_value :: "json \<Rightarrow> int result" where
  "int_value v = (case v of
      JInt n \<Rightarrow> Inr n
    | JBool b \<Rightarrow> Inr (if b then 1 else 0)
    | JFloat r (Some n) \<Rightarrow> Inr n
    | JFloat r None \<Rightarrow>
        if r = ''nan'' then Inl ValueError
        else if r \<in> {''inf'', ''-inf''} then Inl OverflowError
        else if CHR ''e'' \<in> set r then Inr 0
        else (let n = int (digits_value (filter is_digit (takeWhile (\<lambda>c. c \<noteq> CHR ''.'') r)))
              in Inr (if hd r = CHR ''-'' then - n else n))
    | JStr s \<Rightarrow> int_of_str s
    | _ \<Rightarrow> Inl TypeError)"

text \<open>\<^verbatim>\<open>v[key]\<close> with a key that is a string.\<close>

definition subscript :: "json \<Rightarrow> string \<Rightarrow> json result" where
  "subscript v key = (case v of
      JObj d \<Rightarrow> (case map_of d key of None \<Rightarrow> Inl (KeyError key) | Some x \<Rightarrow> Inr x)
    | _ \<Rightarrow> Inl TypeError)"

text \<open>\<^verbatim>\<open>prior["first_seen"]\<close>, \<^verbatim>\<open>int(prior.get("attempts", 0))\<close> and \<^verbatim>\<open>prior.get("observation_digest")\<close>.\<close>

definition read_prior :: "json \<Rightarrow> (json \<times> int \<times> json) result" where
  "read_prior prior =
     bindE (subscript prior ''first_seen'') (\<lambda>first_seen.
     bindE (expect_object prior ''prior'') (\<lambda>d.
     bindE (int_value (dict_get_default d ''attempts'' (JInt 0))) (\<lambda>attempts.
     Inr (first_seen, attempts, dict_get d ''observation_digest''))))"

text \<open>\<^verbatim>\<open>entry["classification"][name]\<close> of the summary and of the queue.\<close>

definition read_classification :: "json \<Rightarrow> string \<Rightarrow> json result" where
  "read_classification e name = bindE (subscript e ''classification'') (\<lambda>c. subscript c name)"

lemma read_prior_of_entry:
  "read_prior (entry_json e) = Inr (JStr (e_first_seen e), e_attempts e, JStr (e_observation_digest e))"
  by (simp add: read_prior_def entry_json_def subscript_def expect_object_def dict_get_default_def int_value_def)

lemma read_classification_of_entry:
  "read_classification (entry_json e) ''status'' = Inr (JStr (cl_status (e_classification e)))"
  "read_classification (entry_json e) ''findings'' = Inr (JArr (map JStr (cl_findings (e_classification e))))"
  "read_classification (entry_json e) ''next_action'' = Inr (JStr (cl_next_action (e_classification e)))"
  by (simp_all add: read_classification_def entry_json_def classification_json_def subscript_def)

text \<open>A finding: a ledger whose entry is an empty object is valid, and the lookups on the entry raise.\<close>

definition bare_ledger :: pydict where
  "bare_ledger = [(''schema_version'', JStr LEDGER_SCHEMA), (''created_at'', JStr (timestamp sample_time)),
     (''updated_at'', JStr (timestamp sample_time)), (''entries'', JObj [(''k'', JObj [])])]"

lemma malformed_ledger_accepted:
  "validate_ledger bare_ledger = Inr bare_ledger
   \<and> read_prior (JObj []) = Inl (KeyError ''first_seen'')
   \<and> read_prior (JObj [(''first_seen'', JNull), (''attempts'', JNull)]) = Inl TypeError
   \<and> read_prior (JObj [(''first_seen'', JNull), (''attempts'', JStr ''many'')]) = Inl ValueError
   \<and> read_classification (JObj []) ''status'' = Inl (KeyError ''classification'')
   \<and> read_classification (JObj [(''classification'', JNull)]) ''status'' = Inl TypeError"
proof (intro conjI)
  have "validate_public_safety (JObj bare_ledger) = Inr ()"
    unfolding public_safety_iff by (simp add: bare_ledger_def sample_words sample_texts)
  then show "validate_ledger bare_ledger = Inr bare_ledger"
    by (simp add: validate_ledger_def bare_ledger_def dict_get_default_def check_entry_def expect_object_def
        max_items_def parse_timestamp_canonical [OF sample_time_valid])
  show "read_prior (JObj [(''first_seen'', JNull), (''attempts'', JStr ''many'')]) = Inl ValueError"
    by code_simp
qed (simp_all add: read_prior_def read_classification_def subscript_def expect_object_def dict_get_default_def
    int_value_def)

text \<open>The ledgers of the tool: of a first run, and of every run on one of them.\<close>

inductive written :: "ledger \<Rightarrow> bool" where
  first_run: "reconcile d None now n task = Inr (l, q) \<Longrightarrow> written l"
| next_run: "written l \<Longrightarrow> reconcile d (Some l) now n task = Inr (l', q) \<Longrightarrow> written l'"

text \<open>They are consistent, so what holds of a run on a consistent ledger holds of every run of the tool.\<close>

lemma written_ok: "written l \<Longrightarrow> ledger_ok l"
proof (induction rule: written.induct)
  case (first_run d now n task l q)
  then show ?case by (rule reconcile_ok) (simp_all add: previous_entries_def)
next
  case (next_run l d now n task l' q)
  then show ?case
    by (intro reconcile_ok [OF next_run.hyps(2)])
      (auto simp: previous_entries_def ledger_ok_def strict_sorted_iff)
qed


end
