(* ===== verification/Diagnostics.thy ===== *)
theory Diagnostics
  imports Timestamps PyRegex Sha256
begin

text \<open>
  The validators of \<^verbatim>\<open>src/scripts/daily_briefing_receipts.py\<close> and
  \<^verbatim>\<open>src/scripts/portfolio_remediation_queue.py\<close> do not stop at the first problem: every helper appends
  its messages to one list of errors and returns what it could read. Here a helper is a
  computation that returns its value with the messages it appends, or raises; \<open>bindD\<close> runs two in
  order and appends their messages. A validator accepts when no message was appended, and the
  lemmas on \<open>clean\<close> runs reduce that to a conjunction over its helpers.

  The helpers the two modules declare with the same text are defined here once.
\<close>

type_synonym 'a diag = "('a \<times> string list) result"

definition retD :: "'a \<Rightarrow> 'a diag" where
  "retD x = Inr (x, [])"

definition bindD :: "'a diag \<Rightarrow> ('a \<Rightarrow> 'b diag) \<Rightarrow> 'b diag" where
  "bindD m f = bindE m (\<lambda>(x, es). bindE (f x) (\<lambda>(y, fs). Inr (y, es @ fs)))"

text \<open>\<^verbatim>\<open>if c: errors.append(message)\<close>, and an append followed by \<^verbatim>\<open>return value\<close>.\<close>

definition complain :: "bool \<Rightarrow> string \<Rightarrow> unit diag" where
  "complain c message = Inr ((), if c then [message] else [])"

definition blame :: "string \<Rightarrow> 'a \<Rightarrow> 'a diag" where
  "blame message x = Inr (x, [message])"

definition liftD :: "'a result \<Rightarrow> 'a diag" where
  "liftD m = bindE m retD"

text \<open>A \<^verbatim>\<open>for\<close> loop that threads local variables.\<close>

fun foldD :: "('s \<Rightarrow> 'a \<Rightarrow> 's diag) \<Rightarrow> 's \<Rightarrow> 'a list \<Rightarrow> 's diag" where
  "foldD f s [] = retD s"
| "foldD f s (x # xs) = bindD (f s x) (\<lambda>t. foldD f t xs)"

lemma bindD_assoc: "bindD (bindD m f) g = bindD m (\<lambda>x. bindD (f x) g)"
  by (cases m) (auto simp: bindD_def bindE_def split: prod.splits sum.splits)

text \<open>The branches of a function that returned.\<close>

lemma if_resultE:
  assumes "(if b then m else n) = r"
  obtains "b" and "m = r" | "\<not> b" and "n = r"
  using assms by (cases b) simp_all

section \<open>Runs without a message\<close>

definition clean :: "'a diag \<Rightarrow> 'a \<Rightarrow> bool" where
  "clean m x \<longleftrightarrow> m = Inr (x, [])"

lemma clean_unique: "clean m x \<Longrightarrow> clean m y \<Longrightarrow> x = y"
  by (simp add: clean_def)

lemma clean_retD [simp]: "clean (retD x) y \<longleftrightarrow> y = x"
  by (auto simp: clean_def retD_def)

lemma clean_bindD [simp]: "clean (bindD m f) y \<longleftrightarrow> (\<exists>x. clean m x \<and> clean (f x) y)"
  by (cases m) (auto simp: clean_def bindD_def bindE_eq_Inr_iff split: prod.splits)

lemma clean_then: "clean m x \<Longrightarrow> bindD m f = f x"
  by (cases "f x") (auto simp: clean_def bindD_def)

lemma clean_complain [simp]: "clean (complain c message) u \<longleftrightarrow> \<not> c"
  by (simp add: clean_def complain_def)

lemma clean_blame [simp]: "\<not> clean (blame message x) y"
  by (simp add: clean_def blame_def)

lemma clean_liftD [simp]: "clean (liftD m) x \<longleftrightarrow> m = Inr x"
  by (cases m) (auto simp: clean_def liftD_def retD_def)

lemma clean_if [simp]: "clean (if b then m else n) x \<longleftrightarrow> (if b then clean m x else clean n x)"
  by simp

lemma clean_foldD_Nil [simp]: "clean (foldD f s []) t \<longleftrightarrow> t = s"
  by simp

lemma clean_foldD_Cons [simp]: "clean (foldD f s (x # xs)) t \<longleftrightarrow> (\<exists>u. clean (f s x) u \<and> clean (foldD f u xs) t)"
  by simp

text \<open>A property that every clean step keeps, of the state and of the elements seen.\<close>

lemma foldD_invariant:
  assumes "clean (foldD f s xs) t" and "I [] s"
    and "\<And>seen x u w. I seen u \<Longrightarrow> x \<in> set xs \<Longrightarrow> clean (f u x) w \<Longrightarrow> I (seen @ [x]) w"
  shows "I xs t"
proof -
  have "I (seen @ ys) t" if "clean (foldD f u ys) t" "I seen u" "set ys \<subseteq> set xs" for seen ys u
    using that
  proof (induction ys arbitrary: seen u)
    case (Cons y ys)
    then obtain w where w: "clean (f u y) w" "clean (foldD f w ys) t" by auto
    with Cons.prems have "I (seen @ [y]) w" by (intro assms(3)) auto
    with Cons.IH [OF w(2), of "seen @ [y]"] Cons.prems(3) show ?case by simp
  qed simp
  from this [of s xs "[]"] assms(1,2) show ?thesis by simp
qed

section \<open>Runs that raise nothing\<close>

definition returns :: "'a diag \<Rightarrow> bool" where
  "returns m \<longleftrightarrow> (\<exists>r. m = Inr r)"

named_theorems returns_intros

lemma returns_basic [returns_intros]:
  "returns (retD x)" "returns (complain c message)" "returns (blame message x)"
  by (simp_all add: returns_def retD_def complain_def blame_def)

lemma returns_bindD [returns_intros]:
  assumes "returns m" and "\<And>x. returns (f x)"
  shows "returns (bindD m f)"
proof -
  obtain x es where "m = Inr (x, es)" using assms(1) by (auto simp: returns_def)
  moreover obtain y fs where "f x = Inr (y, fs)" using assms(2) [of x] by (auto simp: returns_def)
  ultimately show ?thesis by (simp add: returns_def bindD_def)
qed

lemma returns_if [returns_intros]: "(b \<Longrightarrow> returns m) \<Longrightarrow> (\<not> b \<Longrightarrow> returns n) \<Longrightarrow> returns (if b then m else n)"
  by simp

lemma returns_option [returns_intros]:
  "(x = None \<Longrightarrow> returns m) \<Longrightarrow> (\<And>y. x = Some y \<Longrightarrow> returns (f y)) \<Longrightarrow> returns (case x of None \<Rightarrow> m | Some y \<Rightarrow> f y)"
  by (cases x) simp_all

lemma returns_foldD [returns_intros]: "(\<And>s x. returns (f s x)) \<Longrightarrow> returns (foldD f s xs)"
  by (induction xs arbitrary: s) (simp_all add: returns_intros)

section \<open>What a run may raise\<close>

definition raises :: "py_exc set \<Rightarrow> 'a result \<Rightarrow> bool" where
  "raises E m \<longleftrightarrow> (\<forall>e. m = Inl e \<longrightarrow> e \<in> E)"

named_theorems raises_intros

lemma raises_returns: "returns m \<Longrightarrow> raises E m"
  by (auto simp: raises_def returns_def)

lemma raises_mono: "raises D m \<Longrightarrow> D \<subseteq> E \<Longrightarrow> raises E m"
  by (auto simp: raises_def)

lemma raises_liftD: "raises E (liftD m) \<longleftrightarrow> (\<forall>e. m = Inl e \<longrightarrow> e \<in> E)"
  by (cases m) (auto simp: raises_def liftD_def retD_def)

lemma raises_basic [raises_intros]: "raises E (retD x)" "raises E (complain c message)" "raises E (blame message x)" "raises E (Inr r)"
  by (simp_all add: raises_def retD_def complain_def blame_def)

lemma raises_bindD [raises_intros]: "raises E m \<Longrightarrow> (\<And>x. raises E (f x)) \<Longrightarrow> raises E (bindD m f)"
  by (cases m) (auto simp: raises_def bindD_def bindE_def split: prod.splits sum.splits)

lemma raises_bindE [raises_intros]: "raises E m \<Longrightarrow> (\<And>x. m = Inr x \<Longrightarrow> raises E (f x)) \<Longrightarrow> raises E (bindE m f)"
  by (auto simp: raises_def bindE_eq_Inl_iff)

lemma raises_if [raises_intros]: "(b \<Longrightarrow> raises E m) \<Longrightarrow> (\<not> b \<Longrightarrow> raises E n) \<Longrightarrow> raises E (if b then m else n)"
  by simp

lemma raises_cases [raises_intros]:
  "(x = None \<Longrightarrow> raises E m) \<Longrightarrow> (\<And>y. x = Some y \<Longrightarrow> raises E (f y)) \<Longrightarrow> raises E (case x of None \<Rightarrow> m | Some y \<Rightarrow> f y)"
  "(\<And>a b. raises E (g a b)) \<Longrightarrow> raises E (case p of (a, b) \<Rightarrow> g a b)"
  by (cases x, simp_all) (cases p, simp)

lemma raises_foldD [raises_intros]: "(\<And>s x. raises E (f s x)) \<Longrightarrow> raises E (foldD f s xs)"
  by (induction xs arbitrary: s) (simp_all add: raises_intros)

section \<open>The shared helpers\<close>

definition MAX_TEXT :: nat where "MAX_TEXT = 2000"

definition some_text :: "json \<Rightarrow> nat \<Rightarrow> nat \<Rightarrow> string option" where
  "some_text v lo hi = (case v of JStr s \<Rightarrow> if lo \<le> length s \<and> length s \<le> hi then Some s else None | _ \<Rightarrow> None)"

definition check_text :: "json \<Rightarrow> string \<Rightarrow> nat \<Rightarrow> nat \<Rightarrow> string option diag" where
  "check_text v path lo hi = (case some_text v lo hi of
      Some s \<Rightarrow> retD (Some s)
    | None \<Rightarrow> blame (path @ '' must be a string of length '' @ str_nat lo @ ''..'' @ str_nat hi) None)"

text \<open>The text must also match a pattern.\<close>

definition check_pattern :: "(string \<Rightarrow> bool) \<Rightarrow> string \<Rightarrow> string option \<Rightarrow> string option diag" where
  "check_pattern matches message x = (case x of
      None \<Rightarrow> retD None
    | Some s \<Rightarrow> if matches s then retD (Some s) else blame message None)"

definition check_sha :: "json \<Rightarrow> string \<Rightarrow> string option diag" where
  "check_sha v path = bindD (check_text v path 64 64)
     (check_pattern is_sha256_text (path @ '' must be lowercase SHA-256''))"

definition check_commit :: "json \<Rightarrow> string \<Rightarrow> string option diag" where
  "check_commit v path = bindD (check_text v path 40 40)
     (check_pattern is_commit_text (path @ '' must be a lowercase 40-character commit SHA''))"

text \<open>The result is the instant, in microseconds of UTC: aware dates compare by it.\<close>

definition check_timestamp :: "json \<Rightarrow> string \<Rightarrow> int option diag" where
  "check_timestamp v path = bindD (check_text v path 20 64) (\<lambda>x. case x of
      None \<Rightarrow> retD None
    | Some s \<Rightarrow> (case fromisoformat (replace_str ''Z'' ''+00:00'' s) of
        None \<Rightarrow> blame (path @ '' must be ISO-8601'') None
      | Some (t, None) \<Rightarrow> blame (path @ '' must include a UTC offset'') None
      | Some (t, Some off) \<Rightarrow> retD (Some (instant t - off))))"

text \<open>\<^verbatim>\<open>_exact_object(...) or {}\<close>.\<close>

definition exact_object :: "json \<Rightarrow> string list \<Rightarrow> string \<Rightarrow> pydict diag" where
  "exact_object v expected path = (case v of
      JObj d \<Rightarrow> bindD (complain (set (dict_keys d) \<noteq> set expected) (keys_mismatch d expected path)) (\<lambda>_. retD d)
    | _ \<Rightarrow> blame (path @ '' must be an object'') [])"

text \<open>\<^verbatim>\<open>str.casefold\<close> for the code points below 256; the micro sign, which folds outside of them, stays.\<close>

definition casefold :: "string \<Rightarrow> string" where
  "casefold s = concat (map (\<lambda>c. let n = code c in
     if is_upper c \<or> (192 \<le> n \<and> n \<le> 222 \<and> n \<noteq> 215) then [char_of (n + 32)]
     else if n = 223 then ''ss'' else [c]) s)"

text \<open>
  The walk over the whole document, one nested call for every level of the document; \<open>frames\<close> is the
  number of nested calls the interpreter has left.
\<close>

fun walk_within :: "nat \<Rightarrow> string list \<Rightarrow> json \<Rightarrow> string \<Rightarrow> string list result" where
  "walk_within 0 forbidden v path = Inl RecursionError"
| "walk_within (Suc frames) forbidden v path = (case v of
      JObj d \<Rightarrow> bindE (mapE (\<lambda>(k, child).
          bindE (walk_within frames forbidden child (path @ ''.'' @ k)) (\<lambda>es.
          Inr ((if casefold k \<in> set forbidden then [path @ ''.'' @ k @ '' is prohibited''] else []) @ es))) d)
        (\<lambda>ess. Inr (concat ess))
    | JArr xs \<Rightarrow> bindE (mapE (\<lambda>(i, child). walk_within frames forbidden child (path @ ''['' @ str_nat i @ '']''))
          (enumerate 0 xs)) (\<lambda>ess. Inr (concat ess))
    | JStr s \<Rightarrow> Inr (if MAX_TEXT < length s then [path @ '' exceeds the text bound''] else [])
    | _ \<Rightarrow> Inr [])"

text \<open>How many nested calls a document takes.\<close>

fun nesting :: "json \<Rightarrow> nat" where
  "nesting (JObj d) = Suc (foldr max (map (nesting \<circ> snd) d) 0)"
| "nesting (JArr xs) = Suc (foldr max (map nesting xs) 0)"
| "nesting _ = 1"

text \<open>The messages of the walk where the frames are enough.\<close>

fun walk_safe :: "string list \<Rightarrow> json \<Rightarrow> string \<Rightarrow> string list"
  and walk_safe_items :: "string list \<Rightarrow> pydict \<Rightarrow> string \<Rightarrow> string list"
  and walk_safe_elems :: "string list \<Rightarrow> json list \<Rightarrow> string \<Rightarrow> nat \<Rightarrow> string list" where
  "walk_safe forbidden (JObj d) path = walk_safe_items forbidden d path"
| "walk_safe forbidden (JArr xs) path = walk_safe_elems forbidden xs path 0"
| "walk_safe forbidden (JStr s) path = (if MAX_TEXT < length s then [path @ '' exceeds the text bound''] else [])"
| "walk_safe forbidden _ path = []"
| "walk_safe_items forbidden [] path = []"
| "walk_safe_items forbidden ((k, v) # d) path =
     (if casefold k \<in> set forbidden then [path @ ''.'' @ k @ '' is prohibited''] else [])
     @ walk_safe forbidden v (path @ ''.'' @ k) @ walk_safe_items forbidden d path"
| "walk_safe_elems forbidden [] path i = []"
| "walk_safe_elems forbidden (v # vs) path i =
     walk_safe forbidden v (path @ ''['' @ str_nat i @ '']'') @ walk_safe_elems forbidden vs path (Suc i)"

lemma foldr_max_le: "foldr max ns (0::nat) \<le> m \<longleftrightarrow> (\<forall>n\<in>set ns. n \<le> m)"
  by (induction ns) auto

text \<open>The walk fails exactly where the document is nested deeper than the frames that are left.\<close>

lemma walk_within_eq:
  "walk_within frames forbidden v path = (if nesting v \<le> frames then Inr (walk_safe forbidden v path) else Inl RecursionError)"
proof (induction frames arbitrary: v path)
  case 0
  then show ?case by (cases v) simp_all
next
  case (Suc frames)
  have items: "bindE (mapE (\<lambda>(k, child).
        bindE (walk_within frames forbidden child (path @ ''.'' @ k)) (\<lambda>es.
        Inr ((if casefold k \<in> set forbidden then [path @ ''.'' @ k @ '' is prohibited''] else []) @ es))) d)
      (\<lambda>ess. Inr (concat ess)) =
    (if \<forall>e\<in>set d. nesting (snd e) \<le> frames then Inr (walk_safe_items forbidden d path) else Inl RecursionError)" for d
  proof (induction d)
    case (Cons e d)
    then show ?case
      by (cases e; cases "nesting (snd e) \<le> frames"; cases "\<forall>e\<in>set d. nesting (snd e) \<le> frames")
        (auto simp: Suc.IH bindE_eq_Inr_iff bindE_eq_Inl_iff)
  qed simp
  have elems: "bindE (mapE (\<lambda>(i, child). walk_within frames forbidden child (path @ ''['' @ str_nat i @ '']''))
      (enumerate i xs)) (\<lambda>ess. Inr (concat ess)) =
    (if \<forall>v\<in>set xs. nesting v \<le> frames then Inr (walk_safe_elems forbidden xs path i) else Inl RecursionError)" for xs i
  proof (induction xs arbitrary: i)
    case (Cons x xs)
    from Cons.IH [of "Suc i"] show ?case
      by (cases "nesting x \<le> frames"; cases "\<forall>v\<in>set xs. nesting v \<le> frames")
        (auto simp: Suc.IH bindE_eq_Inr_iff bindE_eq_Inl_iff)
  qed simp
  show ?case
  proof (cases v)
    case (JArr xs)
    then show ?thesis using elems [of 0 xs] by (simp add: foldr_max_le)
  next
    case (JObj d)
    then show ?thesis using items [of d] by (simp add: foldr_max_le)
  qed simp_all
qed

text \<open>No key below is forbidden and no text is too long, wherever the value stands.\<close>

fun tame :: "string list \<Rightarrow> json \<Rightarrow> bool" where
  "tame forbidden (JObj d) \<longleftrightarrow> list_all (\<lambda>e. casefold (fst e) \<notin> set forbidden \<and> tame forbidden (snd e)) d"
| "tame forbidden (JArr xs) \<longleftrightarrow> list_all (tame forbidden) xs"
| "tame forbidden (JStr s) \<longleftrightarrow> length s \<le> MAX_TEXT"
| "tame forbidden _ \<longleftrightarrow> True"

lemma tame_walk:
  "tame forbidden v \<Longrightarrow> walk_safe forbidden v path = []"
  "list_all (\<lambda>e. casefold (fst e) \<notin> set forbidden \<and> tame forbidden (snd e)) d \<Longrightarrow> walk_safe_items forbidden d path = []"
  "list_all (tame forbidden) xs \<Longrightarrow> walk_safe_elems forbidden xs path i = []"
  by (induction forbidden v path and forbidden d path and forbidden xs path i rule: walk_safe_walk_safe_items_walk_safe_elems.induct) auto

definition check_walk :: "string list \<Rightarrow> json \<Rightarrow> unit diag" where
  "check_walk forbidden v = Inr ((), walk_safe forbidden v ''$'')"

text \<open>\<^verbatim>\<open>canonical_sha256\<close>: \<^verbatim>\<open>allow_nan=False\<close> refuses a number that is not finite.\<close>

fun finite_json :: "json \<Rightarrow> bool" where
  "finite_json (JFloat r i) \<longleftrightarrow> r \<notin> {''nan'', ''inf'', ''-inf''}"
| "finite_json (JArr xs) \<longleftrightarrow> list_all finite_json xs"
| "finite_json (JObj d) \<longleftrightarrow> list_all (finite_json \<circ> snd) d"
| "finite_json _ \<longleftrightarrow> True"

definition canonical_sha256 :: "json \<Rightarrow> string option" where
  "canonical_sha256 v = (if finite_json v then Some (sha256_hexdigest (canonical v)) else None)"

text \<open>\<^verbatim>\<open>str(value)\<close> of any document.\<close>

fun py_repr :: "json \<Rightarrow> string" where
  "py_repr (JStr s) = repr_str s"
| "py_repr (JArr xs) = ''['' @ join_with '', '' (map py_repr xs) @ '']''"
| "py_repr (JObj d) = ''{'' @ join_with '', '' (map (\<lambda>(k, text). repr_str k @ '': '' @ text)
     (map (\<lambda>(k, v). (k, py_repr v)) d)) @ ''}''"
| "py_repr v = str_scalar v"

definition py_str :: "json \<Rightarrow> string" where
  "py_str v = (case v of JStr s \<Rightarrow> s | _ \<Rightarrow> py_repr v)"

section \<open>The helpers on clean runs\<close>

lemma some_text_iff: "some_text v lo hi = Some s \<longleftrightarrow> v = JStr s \<and> lo \<le> length s \<and> length s \<le> hi"
  by (auto simp: some_text_def split: json.splits)

lemma clean_check_text [simp]:
  "clean (check_text v path lo hi) x \<longleftrightarrow> (\<exists>s. x = Some s \<and> v = JStr s \<and> lo \<le> length s \<and> length s \<le> hi)"
  by (cases v) (auto simp: check_text_def some_text_def)

lemma clean_check_pattern [simp]:
  "clean (check_pattern matches message x) y \<longleftrightarrow> y = x \<and> (case x of None \<Rightarrow> True | Some s \<Rightarrow> matches s)"
  by (cases x) (auto simp: check_pattern_def)

lemma clean_check_sha [simp]: "clean (check_sha v path) x \<longleftrightarrow> (\<exists>s. x = Some s \<and> v = JStr s \<and> is_sha256_text s)"
  by (auto simp: check_sha_def is_sha256_text_def)

lemma clean_check_commit [simp]:
  "clean (check_commit v path) x \<longleftrightarrow> (\<exists>s. x = Some s \<and> v = JStr s \<and> is_commit_text s)"
  by (auto simp: check_commit_def is_commit_text_def)

lemma clean_exact_object [simp]:
  "clean (exact_object v expected path) d \<longleftrightarrow> v = JObj d \<and> set (dict_keys d) = set expected"
  by (cases v) (auto simp: exact_object_def)

text \<open>The instant a timestamp names.\<close>

definition instant_of :: "string \<Rightarrow> int \<Rightarrow> bool" where
  "instant_of s t \<longleftrightarrow> 20 \<le> length s \<and> length s \<le> 64 \<and>
     (\<exists>u off. fromisoformat (replace_str ''Z'' ''+00:00'' s) = Some (u, Some off) \<and> t = instant u - off)"

lemma clean_check_timestamp [simp]:
  "clean (check_timestamp v path) x \<longleftrightarrow> (\<exists>t. x = Some t \<and> (\<exists>s. v = JStr s \<and> instant_of s t))"
  by (cases v) (auto simp: check_timestamp_def instant_of_def split: option.splits prod.splits)

lemma clean_check_walk [simp]: "clean (check_walk forbidden v) u \<longleftrightarrow> walk_safe forbidden v ''$'' = []"
  by (simp add: check_walk_def clean_def)

lemma ex_Some [simp]: "(\<exists>x. (\<exists>t. x = Some t \<and> P t) \<and> Q x) \<longleftrightarrow> (\<exists>t. P t \<and> Q (Some t))"
  by auto

lemma instant_of_unique: "instant_of s t \<Longrightarrow> instant_of s u \<Longrightarrow> t = u"
  by (auto simp: instant_of_def)

lemma returns_helpers [returns_intros]:
  "returns (check_text v path lo hi)" "returns (check_pattern matches message x)" "returns (check_sha v path)"
  "returns (check_commit v path)" "returns (exact_object v expected path)" "returns (check_walk forbidden v)"
  unfolding check_sha_def check_commit_def check_text_def check_pattern_def
  by (auto intro!: returns_intros simp: exact_object_def check_walk_def returns_def [of "Inr _"] split: json.split)

lemma returns_check_timestamp [returns_intros]: "returns (check_timestamp v path)"
  unfolding check_timestamp_def by (auto intro!: returns_intros split: option.split prod.split)

lemma raises_helpers [raises_intros]:
  "raises E (check_text v path lo hi)" "raises E (check_sha v path)" "raises E (check_commit v path)" "raises E (check_timestamp v path)"
  "raises E (exact_object v expected path)" "raises E (check_walk forbidden v)"
  by (intro raises_returns returns_intros)+

section \<open>Fields of an object\<close>

text \<open>What the validators ask of a field, and what a document read from JSON is like: no key twice in one object.\<close>

definition unmatched :: "(string \<Rightarrow> bool) \<Rightarrow> string option \<Rightarrow> bool" where
  "unmatched matches x = (case x of None \<Rightarrow> False | Some s \<Rightarrow> \<not> matches s)"

definition item_path :: "string \<Rightarrow> nat \<Rightarrow> string" where
  "item_path path i = path @ ''['' @ str_nat i @ '']''"

definition str_at :: "pydict \<Rightarrow> string \<Rightarrow> string" where
  "str_at d k = py_str (dict_get d k)"

definition int_at :: "pydict \<Rightarrow> string \<Rightarrow> int" where
  "int_at d k = (case dict_get d k of JInt i \<Rightarrow> i | _ \<Rightarrow> 0)"

definition bounded_text :: "nat \<Rightarrow> nat \<Rightarrow> string \<Rightarrow> bool" where
  "bounded_text lo hi s \<longleftrightarrow> lo \<le> length s \<and> length s \<le> hi"

definition text_at :: "pydict \<Rightarrow> string \<Rightarrow> nat \<Rightarrow> nat \<Rightarrow> bool" where
  "text_at d key lo hi \<longleftrightarrow> (\<exists>s. dict_get d key = JStr s \<and> bounded_text lo hi s)"

definition matched_at :: "pydict \<Rightarrow> string \<Rightarrow> (string \<Rightarrow> bool) \<Rightarrow> bool" where
  "matched_at d key matches \<longleftrightarrow> (\<exists>s. dict_get d key = JStr s \<and> matches s)"

lemma clean_at:
  "clean (check_text (dict_get d key) path lo hi) x \<longleftrightarrow> text_at d key lo hi \<and> x = Some (str_at d key)"
  "clean (check_sha (dict_get d key) path) x \<longleftrightarrow> matched_at d key is_sha256_text \<and> x = Some (str_at d key)"
  "clean (check_commit (dict_get d key) path) x \<longleftrightarrow> matched_at d key is_commit_text \<and> x = Some (str_at d key)"
  "clean (check_timestamp (dict_get d key) path) y \<longleftrightarrow> (\<exists>t. matched_at d key (\<lambda>s. instant_of s t) \<and> y = Some t)"
  by (auto simp: text_at_def matched_at_def bounded_text_def str_at_def py_str_def)

lemma ex_unit: "(\<exists>u. P (u :: unit)) \<longleftrightarrow> P ()"
  by (metis old.unit.exhaust)

lemma clean_bindI: "clean m x \<Longrightarrow> clean (f x) y \<Longrightarrow> clean (bindD m f) y"
  by auto

fun proper :: "json \<Rightarrow> bool" where
  "proper (JArr xs) \<longleftrightarrow> list_all proper xs"
| "proper (JObj d) \<longleftrightarrow> distinct (dict_keys d) \<and> list_all (proper \<circ> snd) d"
| "proper _ \<longleftrightarrow> True"

lemma proper_get: "proper (JObj d) \<Longrightarrow> proper (dict_get d k)"
  by (auto simp: dict_get_def list_all_iff split: option.split dest!: map_of_SomeD)

lemma finite_object:
  assumes "proper (JObj d)" and "set (dict_keys d) = set ks" and "\<And>k. k \<in> set ks \<Longrightarrow> finite_json (dict_get d k)"
  shows "finite_json (JObj d)"
proof -
  have "finite_json v" if "(k, v) \<in> set d" for k v
  proof -
    have "dict_get d k = v" using that assms(1) by (simp add: dict_get_def dict_keys_def)
    moreover have "k \<in> set ks" using that assms(2) by (force simp: dict_keys_def)
    ultimately show ?thesis using assms(3) by blast
  qed
  then show ?thesis by (auto simp: list_all_iff)
qed

lemma finite_text: "text_at d k lo hi \<Longrightarrow> finite_json (dict_get d k)" "matched_at d k P \<Longrightarrow> finite_json (dict_get d k)"
  by (auto simp: text_at_def matched_at_def)

lemma finite_all:
  "proper (JObj d) \<Longrightarrow> set (dict_keys d) = set ks \<Longrightarrow> list_all (\<lambda>k. finite_json (dict_get d k)) ks \<Longrightarrow> finite_json (JObj d)"
  unfolding list_all_iff using finite_object by blast

lemma returns_json [returns_intros]:
  "(\<And>xs. v = JArr xs \<Longrightarrow> returns (f xs)) \<Longrightarrow> returns m \<Longrightarrow> returns (case v of JArr xs \<Rightarrow> f xs | _ \<Rightarrow> m)"
  by (cases v) simp_all

section \<open>Sample instants\<close>

lemma instant_of_isoformat:
  assumes "valid_datetime t"
  shows "instant_of (isoformat_utc t) (instant t)"
proof -
  have "replace_str ''Z'' ''+00:00'' (isoformat_utc t) = isoformat_utc t"
    using isoformat_naive_chars [OF assms] replace_str_skip [of "CHR ''Z''" "isoformat_utc t" "[]" "''+00:00''" "[]"]
    by (simp add: isoformat_utc_def)
  moreover have "20 \<le> length (isoformat_utc t)" "length (isoformat_utc t) \<le> 64"
    by (simp_all add: isoformat_utc_def isoformat_naive_def four_digits_def two_digits_def six_digits_def)
  ultimately show ?thesis by (simp add: instant_of_def fromisoformat_canonical [OF assms])
qed

definition sample_hour :: "nat \<Rightarrow> nat \<Rightarrow> datetime" where
  "sample_hour m h = \<lparr>dt_year = 2026, dt_month = m, dt_day = 3, dt_hour = h, dt_minute = 0, dt_second = 0, dt_usec = 0\<rparr>"

definition sample_text :: "nat \<Rightarrow> nat \<Rightarrow> string" where
  "sample_text m h = isoformat_utc (sample_hour m h)"

lemma sample_instant:
  assumes "m \<in> {9, 10}" and "h < 24"
  shows "instant_of (sample_text m h) (instant (sample_hour m h))"
  unfolding sample_text_def using assms
  by (intro instant_of_isoformat) (auto simp: sample_hour_def valid_datetime_def valid_date_def days_in_month_def)

lemma sample_text_short: "length (sample_text m h) \<le> MAX_TEXT"
  by (simp add: sample_text_def MAX_TEXT_def isoformat_utc_def isoformat_naive_def four_digits_def two_digits_def six_digits_def)

lemma sample_hours_ordered:
  "instant (sample_hour 9 7) < instant (sample_hour 9 12)" "instant (sample_hour 9 12) < instant (sample_hour 9 23)"
  "instant (sample_hour 9 12) < instant (sample_hour 10 12)"
  by (simp_all add: instant_def sample_hour_def usec_of_day_def usec_per_day_def ymd2ord_def days_before_month_def days_in_month_def
      upt_conv_Cons)

end
