(* ===== verification/BriefingDelivery.thy ===== *)
theory BriefingDelivery
  imports Diagnostics FencedProtocol
begin

text \<open>
  \<^verbatim>\<open>src/scripts/daily_briefing_receipts.py\<close>, second half: the delivery-state contract. A delivery state is a JSON
  object; \<^verbatim>\<open>validate_delivery_state\<close> collects what is wrong with it and \<^verbatim>\<open>transition_delivery\<close>
  applies a command of the fenced owner, or raises and leaves the state alone.

  The abstract machine \<open>advances\<close> says which states may follow which; the refinement shows that
  the code takes exactly its steps.
\<close>

definition DELIVERY_SCHEMA :: string where "DELIVERY_SCHEMA = ''portfolio-briefing-delivery-state/v1''"

definition DELIVERY_STATES :: "string list" where
  "DELIVERY_STATES = [''prepared'', ''claimed'', ''delivering'', ''delivered'', ''retryable'', ''terminal_failed'',
     ''reconciling'']"

definition STATE_KEYS :: "string list" where
  "STATE_KEYS = [''schema_version'', ''briefing_id'', ''state'', ''content_sha256'', ''destination_id'',
     ''operation_id'', ''fencing_token'', ''attempt'', ''receipt_id'', ''remote_identity_sha256'', ''failure_class'']"

definition COMMAND_KEYS :: "string list" where
  "COMMAND_KEYS = [''kind'', ''operation_id'', ''fencing_token'', ''receipt_id'', ''remote_identity_sha256'',
     ''failure_class'']"

definition non_negative :: "json \<Rightarrow> string \<Rightarrow> int option diag" where
  "non_negative v path = (case v of
      JInt i \<Rightarrow> if 0 \<le> i then retD (Some i) else blame (path @ '' must be a non-negative integer'') None
    | _ \<Rightarrow> blame (path @ '' must be a non-negative integer'') None)"

section \<open>\<^verbatim>\<open>validate_delivery_state\<close>\<close>

text \<open>The fields that only some states carry.\<close>

definition check_outcome :: "pydict \<Rightarrow> json \<Rightarrow> unit diag" where
  "check_outcome d current = (let receipt = dict_get d ''receipt_id''; remote = dict_get d ''remote_identity_sha256'';
       failure = dict_get d ''failure_class'' in
     if current = JStr ''delivered'' then
       bindD (check_sha receipt ''delivery_state.receipt_id'') (\<lambda>_.
       bindD (check_sha remote ''delivery_state.remote_identity_sha256'') (\<lambda>_.
       complain (failure \<noteq> JNull) ''delivered state must not contain failure_class''))
     else if current \<in> {JStr ''retryable'', JStr ''terminal_failed'', JStr ''reconciling''} then
       bindD (check_text failure ''delivery_state.failure_class'' 3 96) (\<lambda>_.
       complain (receipt \<noteq> JNull \<or> remote \<noteq> JNull)
         (py_str current @ '' state must not claim a delivery receipt''))
     else
       complain (receipt \<noteq> JNull \<or> remote \<noteq> JNull \<or> failure \<noteq> JNull)
         (py_str current @ '' state must not contain receipt or failure fields''))"

definition delivery_state_errors :: "json \<Rightarrow> unit diag" where
  "delivery_state_errors v =
     bindD (exact_object v STATE_KEYS ''delivery_state'') (\<lambda>d.
     bindD (complain (dict_get d ''schema_version'' \<noteq> JStr DELIVERY_SCHEMA)
       (''delivery_state.schema_version must be '' @ DELIVERY_SCHEMA)) (\<lambda>_.
     bindD (check_text (dict_get d ''briefing_id'') ''delivery_state.briefing_id'' 5 96) (\<lambda>briefing_id.
     bindD (complain (unmatched is_slug_text briefing_id) ''delivery_state.briefing_id has an invalid format'') (\<lambda>_.
     bindD (liftD (in_str_set (dict_get d ''state'') DELIVERY_STATES)) (\<lambda>supported.
     bindD (complain (\<not> supported) ''delivery_state.state is unsupported'') (\<lambda>_.
     bindD (check_sha (dict_get d ''content_sha256'') ''delivery_state.content_sha256'') (\<lambda>_.
     bindD (check_text (dict_get d ''destination_id'') ''delivery_state.destination_id'' 3 96) (\<lambda>destination.
     bindD (complain (unmatched is_slug_text destination) ''delivery_state.destination_id has an invalid format'') (\<lambda>_.
     bindD (check_sha (dict_get d ''operation_id'') ''delivery_state.operation_id'') (\<lambda>_.
     bindD (non_negative (dict_get d ''fencing_token'') ''delivery_state.fencing_token'') (\<lambda>token.
     bindD (non_negative (dict_get d ''attempt'') ''delivery_state.attempt'') (\<lambda>attempt.
     bindD (complain (token = Some 0) ''delivery_state.fencing_token must be positive'') (\<lambda>_.
     bindD (complain (attempt = Some 0) ''delivery_state.attempt must be positive'') (\<lambda>_.
     check_outcome d (dict_get d ''state'')))))))))))))))"

text \<open>\<^verbatim>\<open>if errors: raise ContractError("; ".join(errors))\<close>.\<close>

definition raise_if_any :: "'a diag \<Rightarrow> 'a result" where
  "raise_if_any m = bindE m (\<lambda>(x, errors). bindE (require (errors = []) (join_with ''; '' errors)) (\<lambda>_. Inr x))"

definition validate_delivery_state :: "json \<Rightarrow> unit result" where
  "validate_delivery_state v = raise_if_any (delivery_state_errors v)"

section \<open>\<^verbatim>\<open>transition_delivery\<close>\<close>

definition read_command :: "json \<Rightarrow> (pydict \<times> string option \<times> string option \<times> int option) diag" where
  "read_command v =
     bindD (exact_object v COMMAND_KEYS ''command'') (\<lambda>cmd.
     bindD (check_text (dict_get cmd ''kind'') ''command.kind'' 3 64) (\<lambda>kind.
     bindD (check_sha (dict_get cmd ''operation_id'') ''command.operation_id'') (\<lambda>operation.
     bindD (non_negative (dict_get cmd ''fencing_token'') ''command.fencing_token'') (\<lambda>token.
     retD (cmd, kind, operation, token)))))"

text \<open>\<^verbatim>\<open>candidate.update(...)\<close>.\<close>

definition updated :: "pydict \<Rightarrow> (string \<times> json) list \<Rightarrow> pydict" where
  "updated d kvs = fold (\<lambda>(k, v) e. dict_set e k v) kvs d"

definition settled_as :: "string \<Rightarrow> json \<Rightarrow> (string \<times> json) list" where
  "settled_as state failure = [(''state'', JStr state), (''receipt_id'', JNull), (''remote_identity_sha256'', JNull),
     (''failure_class'', failure)]"

text \<open>\<^verbatim>\<open>command.failure_class\<close>, checked on its own.\<close>

definition read_failure :: "pydict \<Rightarrow> json result" where
  "read_failure cmd = bindE (raise_if_any (check_text (dict_get cmd ''failure_class'') ''command.failure_class'' 3 96))
     (\<lambda>failure. Inr (opt_str failure))"

definition read_receipt :: "pydict \<Rightarrow> (json \<times> json) result" where
  "read_receipt cmd = raise_if_any (
     bindD (check_sha (dict_get cmd ''receipt_id'') ''command.receipt_id'') (\<lambda>receipt.
     bindD (check_sha (dict_get cmd ''remote_identity_sha256'') ''command.remote_identity_sha256'') (\<lambda>remote.
     retD (opt_str receipt, opt_str remote))))"

definition illegal :: "string \<Rightarrow> string \<Rightarrow> string" where
  "illegal kind state = kind @ '' is illegal from '' @ state"

definition same_owner :: "pydict \<Rightarrow> string \<Rightarrow> int \<Rightarrow> unit result" where
  "same_owner d operation token =
     require (\<not> (token \<noteq> int_at d ''fencing_token'' \<or> operation \<noteq> str_at d ''operation_id''))
       ''command does not own the current fenced operation''"

text \<open>
  The commands, for a state that was validated and a command that was read: each returns the
  candidate state.
\<close>

definition claim_delivery :: "pydict \<Rightarrow> string \<Rightarrow> int \<Rightarrow> pydict result" where
  "claim_delivery d operation token = (let state = str_at d ''state'' in
     bindE (require (state \<in> {''prepared'', ''retryable''}) (illegal ''claim'' state)) (\<lambda>_.
     bindE (require (\<not> token \<le> int_at d ''fencing_token'') ''claim requires a strictly newer fencing token'') (\<lambda>_.
     Inr (updated d [(''state'', JStr ''claimed''), (''operation_id'', JStr operation),
       (''fencing_token'', JInt token),
       (''attempt'', JInt (int_at d ''attempt'' + (if state = ''retryable'' then 1 else 0))),
       (''receipt_id'', JNull), (''remote_identity_sha256'', JNull), (''failure_class'', JNull)]))))"

definition begin_delivery :: "pydict \<Rightarrow> string \<Rightarrow> int \<Rightarrow> pydict result" where
  "begin_delivery d operation token = (let state = str_at d ''state'' in
     bindE (require (state = ''claimed'') (illegal ''begin_delivery'' state)) (\<lambda>_.
     bindE (same_owner d operation token) (\<lambda>_.
     Inr (dict_set d ''state'' (JStr ''delivering'')))))"

definition accept_receipt :: "pydict \<Rightarrow> pydict \<Rightarrow> string \<Rightarrow> int \<Rightarrow> pydict result" where
  "accept_receipt d cmd operation token = (let state = str_at d ''state'' in
     bindE (require (state \<in> {''delivering'', ''reconciling''}) (illegal ''accept_receipt'' state)) (\<lambda>_.
     bindE (same_owner d operation token) (\<lambda>_.
     bindE (read_receipt cmd) (\<lambda>(receipt, remote).
     Inr (updated d [(''state'', JStr ''delivered''), (''receipt_id'', receipt),
       (''remote_identity_sha256'', remote), (''failure_class'', JNull)])))))"

text \<open>The three commands that record a failure differ in the states they start from and the state they leave.\<close>

definition record_failure :: "string \<Rightarrow> string set \<Rightarrow> string \<Rightarrow> pydict \<Rightarrow> pydict \<Rightarrow> string \<Rightarrow> int \<Rightarrow> pydict result" where
  "record_failure kind sources target d cmd operation token = (let state = str_at d ''state'' in
     bindE (require (state \<in> sources) (illegal kind state)) (\<lambda>_.
     bindE (same_owner d operation token) (\<lambda>_.
     bindE (read_failure cmd) (\<lambda>failure. Inr (updated d (settled_as target failure))))))"

definition reconcile_not_delivered :: "pydict \<Rightarrow> string \<Rightarrow> int \<Rightarrow> pydict result" where
  "reconcile_not_delivered d operation token = (let state = str_at d ''state'' in
     bindE (require (state = ''reconciling'') (illegal ''reconcile_not_delivered'' state)) (\<lambda>_.
     bindE (same_owner d operation token) (\<lambda>_.
     Inr (updated d (settled_as ''retryable'' (JStr ''reconciled_not_delivered''))))))"

definition candidate :: "pydict \<Rightarrow> pydict \<Rightarrow> string \<Rightarrow> string \<Rightarrow> int \<Rightarrow> pydict result" where
  "candidate d cmd kind operation token =
     (if kind = ''claim'' then claim_delivery d operation token
      else if kind = ''begin_delivery'' then begin_delivery d operation token
      else if kind = ''accept_receipt'' then accept_receipt d cmd operation token
      else if kind = ''record_retryable_failure'' then
        record_failure kind {''delivering''} ''retryable'' d cmd operation token
      else if kind = ''record_terminal_failure'' then
        record_failure kind {''claimed'', ''delivering'', ''reconciling''} ''terminal_failed'' d cmd operation token
      else if kind = ''mark_ambiguous'' then
        record_failure kind {''delivering''} ''reconciling'' d cmd operation token
      else if kind = ''reconcile_not_delivered'' then reconcile_not_delivered d operation token
      else Inl (Err (''unsupported command kind: '' @ kind)))"

text \<open>
  \<^verbatim>\<open>assert kind is not None and ...\<close>: a helper that returns \<^verbatim>\<open>None\<close> has appended a message, so the
  command would have been refused before.
\<close>

definition transition_delivery :: "json \<Rightarrow> json \<Rightarrow> pydict result" where
  "transition_delivery current command =
     bindE (validate_delivery_state current) (\<lambda>_.
     bindE (raise_if_any (read_command command)) (\<lambda>(cmd, kind, operation, token).
     (case (current, kind, operation, token) of
        (JObj d, Some k, Some h, Some t) \<Rightarrow>
          bindE (candidate d cmd k h t) (\<lambda>e.
          bindE (validate_delivery_state (JObj e)) (\<lambda>_. Inr e))
      | _ \<Rightarrow> Inl AssertionError)))"


section \<open>The state behind the object\<close>

record delivery =
  dv_briefing :: string
  dv_state :: string
  dv_content :: string
  dv_destination :: string
  dv_operation :: string
  dv_fence :: int
  dv_attempt :: int
  dv_receipt :: "string option"
  dv_remote :: "string option"
  dv_failure :: "string option"

definition describes :: "pydict \<Rightarrow> delivery \<Rightarrow> bool" where
  "describes d x \<longleftrightarrow> set (dict_keys d) = set STATE_KEYS
     \<and> dict_get d ''schema_version'' = JStr DELIVERY_SCHEMA \<and> dict_get d ''briefing_id'' = JStr (dv_briefing x)
     \<and> dict_get d ''state'' = JStr (dv_state x) \<and> dict_get d ''content_sha256'' = JStr (dv_content x)
     \<and> dict_get d ''destination_id'' = JStr (dv_destination x) \<and> dict_get d ''operation_id'' = JStr (dv_operation x)
     \<and> dict_get d ''fencing_token'' = JInt (dv_fence x) \<and> dict_get d ''attempt'' = JInt (dv_attempt x)
     \<and> dict_get d ''receipt_id'' = opt_str (dv_receipt x)
     \<and> dict_get d ''remote_identity_sha256'' = opt_str (dv_remote x)
     \<and> dict_get d ''failure_class'' = opt_str (dv_failure x)"

definition wf_outcome :: "delivery \<Rightarrow> bool" where
  "wf_outcome x \<longleftrightarrow>
     (if dv_state x = ''delivered'' then (\<exists>r m. dv_receipt x = Some r \<and> is_sha256_text r \<and> dv_remote x = Some m \<and>
        is_sha256_text m) \<and> dv_failure x = None
      else if dv_state x \<in> {''retryable'', ''terminal_failed'', ''reconciling''} then
        (\<exists>f. dv_failure x = Some f \<and> bounded_text 3 96 f) \<and> dv_receipt x = None \<and> dv_remote x = None
      else dv_receipt x = None \<and> dv_remote x = None \<and> dv_failure x = None)"

definition wf_delivery :: "delivery \<Rightarrow> bool" where
  "wf_delivery x \<longleftrightarrow> bounded_text 5 96 (dv_briefing x) \<and> is_slug_text (dv_briefing x)
     \<and> dv_state x \<in> set DELIVERY_STATES \<and> is_sha256_text (dv_content x)
     \<and> bounded_text 3 96 (dv_destination x) \<and> is_slug_text (dv_destination x) \<and> is_sha256_text (dv_operation x)
     \<and> 0 < dv_fence x \<and> 0 < dv_attempt x \<and> wf_outcome x"

lemma clean_non_negative [simp]: "clean (non_negative v path) x \<longleftrightarrow> (\<exists>i. x = Some i \<and> v = JInt i \<and> 0 \<le> i)"
  by (auto simp: non_negative_def split: json.splits)

lemma raise_if_any_iff [simp]: "raise_if_any m = Inr x \<longleftrightarrow> clean m x"
  by (auto simp: raise_if_any_def clean_def bindE_eq_Inr_iff)

lemma in_str_set_iff: "in_str_set v names = Inr b \<Longrightarrow> b \<Longrightarrow> \<exists>s. v = JStr s \<and> s \<in> set names"
  by (cases v) (auto simp: in_str_set_def)

lemma clean_check_outcome:
  assumes "dict_get d ''state'' = JStr s" and "dict_get d ''receipt_id'' = r" "dict_get d ''remote_identity_sha256'' = m"
    "dict_get d ''failure_class'' = f"
  shows "clean (check_outcome d (JStr s)) u \<longleftrightarrow>
     (if s = ''delivered'' then (\<exists>a b. r = JStr a \<and> is_sha256_text a \<and> m = JStr b \<and> is_sha256_text b) \<and> f = JNull
      else if s \<in> {''retryable'', ''terminal_failed'', ''reconciling''} then
        (\<exists>a. f = JStr a \<and> bounded_text 3 96 a) \<and> r = JNull \<and> m = JNull
      else r = JNull \<and> m = JNull \<and> f = JNull)"
proof -
  have eq: "JStr s = JStr ''delivered'' \<longleftrightarrow> s = ''delivered''"
    "JStr s \<in> {JStr ''retryable'', JStr ''terminal_failed'', JStr ''reconciling''} \<longleftrightarrow>
      s \<in> {''retryable'', ''terminal_failed'', ''reconciling''}"
    by simp_all
  define final where "final = (s = ''delivered'')"
  define failed where "failed = (s \<in> {''retryable'', ''terminal_failed'', ''reconciling''})"
  show ?thesis
    unfolding check_outcome_def Let_def assms eq final_def [symmetric] failed_def [symmetric]
    by (cases final; cases failed) (auto simp: bounded_text_def)
qed

lemma clean_delivery_state:
  "clean (delivery_state_errors v) u \<longleftrightarrow> (\<exists>d x. v = JObj d \<and> describes d x \<and> wf_delivery x)"
proof
  assume "clean (delivery_state_errors v) u"
  then obtain d b s cs dst op tok att where
    v: "v = JObj d" "set (dict_keys d) = set STATE_KEYS" "dict_get d ''schema_version'' = JStr DELIVERY_SCHEMA"
      "dict_get d ''briefing_id'' = JStr b" "5 \<le> length b" "length b \<le> 96" "is_slug_text b"
      "dict_get d ''state'' = JStr s" "s \<in> set DELIVERY_STATES"
      "dict_get d ''content_sha256'' = JStr cs" "is_sha256_text cs"
      "dict_get d ''destination_id'' = JStr dst" "3 \<le> length dst" "length dst \<le> 96" "is_slug_text dst"
      "dict_get d ''operation_id'' = JStr op" "is_sha256_text op" "dict_get d ''fencing_token'' = JInt tok"
      "dict_get d ''attempt'' = JInt att" "0 \<le> tok" "0 \<le> att" "tok \<noteq> 0" "att \<noteq> 0"
    and fin: "clean (check_outcome d (JStr s)) ()"
    unfolding delivery_state_errors_def unmatched_def
    by (clarsimp dest!: in_str_set_iff)
  obtain r m f where out: "dict_get d ''receipt_id'' = opt_str r" "dict_get d ''remote_identity_sha256'' = opt_str m"
    "dict_get d ''failure_class'' = opt_str f"
    and wf: "wf_outcome \<lparr>dv_briefing = b, dv_state = s, dv_content = cs, dv_destination = dst, dv_operation = op,
      dv_fence = tok, dv_attempt = att, dv_receipt = r, dv_remote = m, dv_failure = f\<rparr>"
  proof (cases "s = ''delivered''")
    case True
    with fin clean_check_outcome [OF v(8) refl refl refl] obtain a c where
      "dict_get d ''receipt_id'' = JStr a" "is_sha256_text a" "dict_get d ''remote_identity_sha256'' = JStr c"
      "is_sha256_text c" "dict_get d ''failure_class'' = JNull" by auto
    with True that [of "Some a" "Some c" None] show thesis by (simp add: wf_outcome_def)
  next
    case other: False
    show thesis
    proof (cases "s \<in> {''retryable'', ''terminal_failed'', ''reconciling''}")
      case True
      with other fin clean_check_outcome [OF v(8) refl refl refl] obtain a where
        "dict_get d ''failure_class'' = JStr a" "bounded_text 3 96 a" "dict_get d ''receipt_id'' = JNull"
        "dict_get d ''remote_identity_sha256'' = JNull" by (simp only: if_True if_False) blast
      with True other that [of None None "Some a"] show thesis by (simp add: wf_outcome_def)
    next
      case False
      with other fin clean_check_outcome [OF v(8) refl refl refl]
      have "dict_get d ''failure_class'' = JNull" "dict_get d ''receipt_id'' = JNull"
        "dict_get d ''remote_identity_sha256'' = JNull" by (simp_all only: if_False)
      with False other that [of None None None] show thesis by (simp add: wf_outcome_def)
    qed
  qed
  define x where "x = \<lparr>dv_briefing = b, dv_state = s, dv_content = cs, dv_destination = dst, dv_operation = op,
      dv_fence = tok, dv_attempt = att, dv_receipt = r, dv_remote = m, dv_failure = f\<rparr>"
  have "describes d x" using v out by (simp add: describes_def x_def)
  moreover have "wf_delivery x"
    using v wf unfolding wf_delivery_def x_def [symmetric] by (simp add: x_def bounded_text_def)
  ultimately show "\<exists>d x. v = JObj d \<and> describes d x \<and> wf_delivery x" using v(1) by blast
next
  assume "\<exists>d x. v = JObj d \<and> describes d x \<and> wf_delivery x"
  then obtain d x where v: "v = JObj d" and d: "describes d x" and wf: "wf_delivery x" by blast
  note gets = d [unfolded describes_def]
  have "clean (check_outcome d (JStr (dv_state x))) u"
    using gets wf by (subst clean_check_outcome [OF _ refl refl refl]) (auto simp: wf_delivery_def wf_outcome_def)
  then show "clean (delivery_state_errors v) u"
    using gets wf unfolding wf_delivery_def
    by (simp add: delivery_state_errors_def v unmatched_def in_str_set_def bounded_text_def ex_bool_eq)
qed

lemma valid_delivery_iff:
  "validate_delivery_state v = Inr () \<longleftrightarrow> (\<exists>d x. v = JObj d \<and> describes d x \<and> wf_delivery x)"
  by (simp add: validate_delivery_state_def clean_delivery_state)

lemma describes_unique: "describes d x \<Longrightarrow> describes d y \<Longrightarrow> x = y"
  by (cases x; cases y) (auto simp: describes_def)

section \<open>The abstract machine\<close>

text \<open>
  One step of the delivery: a newer fence claims, the owner of the fence does everything else, and a
  delivery in doubt is only reconciled, never repeated.
\<close>

inductive advances :: "delivery \<Rightarrow> delivery \<Rightarrow> bool" for x where
  claim: "dv_state x \<in> {''prepared'', ''retryable''} \<Longrightarrow> dv_fence x < f \<Longrightarrow> is_sha256_text h \<Longrightarrow>
    advances x (x\<lparr>dv_state := ''claimed'', dv_operation := h, dv_fence := f,
      dv_attempt := dv_attempt x + (if dv_state x = ''retryable'' then 1 else 0), dv_receipt := None,
      dv_remote := None, dv_failure := None\<rparr>)"
| start: "dv_state x = ''claimed'' \<Longrightarrow> advances x (x\<lparr>dv_state := ''delivering''\<rparr>)"
| accept: "dv_state x \<in> {''delivering'', ''reconciling''} \<Longrightarrow> is_sha256_text r \<Longrightarrow> is_sha256_text m \<Longrightarrow>
    advances x (x\<lparr>dv_state := ''delivered'', dv_receipt := Some r, dv_remote := Some m, dv_failure := None\<rparr>)"
| failed: "state = ''retryable'' \<and> dv_state x = ''delivering'' \<or>
     state = ''terminal_failed'' \<and> dv_state x \<in> {''claimed'', ''delivering'', ''reconciling''} \<or>
     state = ''reconciling'' \<and> dv_state x = ''delivering'' \<Longrightarrow> bounded_text 3 96 w \<Longrightarrow>
    advances x (x\<lparr>dv_state := state, dv_receipt := None, dv_remote := None, dv_failure := Some w\<rparr>)"
| absent: "dv_state x = ''reconciling'' \<Longrightarrow>
    advances x (x\<lparr>dv_state := ''retryable'', dv_receipt := None, dv_remote := None,
      dv_failure := Some ''reconciled_not_delivered''\<rparr>)"

lemma advances_wf: "advances x y \<Longrightarrow> wf_delivery x \<Longrightarrow> wf_delivery y"
proof (induction rule: advances.induct)
  case (failed state w)
  then have "state \<in> {''retryable'', ''terminal_failed'', ''reconciling''}" by blast
  with failed.hyps(2) failed.prems show ?case
    by (elim insertE emptyE) (simp_all add: wf_delivery_def wf_outcome_def DELIVERY_STATES_def)
qed (simp_all add: wf_delivery_def wf_outcome_def DELIVERY_STATES_def bounded_text_def)

section \<open>The code takes exactly these steps\<close>

lemma describes_at:
  assumes "describes d x"
  shows "str_at d ''state'' = dv_state x" "str_at d ''operation_id'' = dv_operation x"
    "int_at d ''fencing_token'' = dv_fence x" "int_at d ''attempt'' = dv_attempt x"
  using assms by (simp_all add: describes_def str_at_def int_at_def py_str_def)

lemma dict_keys_set [simp]: "set (dict_keys (dict_set d k v)) = insert k (set (dict_keys d))"
  using keys_dict_set [of d k v] by (simp add: dict_keys_def)

lemma describes_updated:
  assumes "describes d x"
  shows "describes (updated d (settled_as state (opt_str w)))
      (x\<lparr>dv_state := state, dv_receipt := None, dv_remote := None, dv_failure := w\<rparr>)"
    and "describes (dict_set d ''state'' (JStr ''delivering'')) (x\<lparr>dv_state := ''delivering''\<rparr>)"
    and "describes (updated d [(''state'', JStr ''delivered''), (''receipt_id'', opt_str r),
        (''remote_identity_sha256'', opt_str m), (''failure_class'', JNull)])
      (x\<lparr>dv_state := ''delivered'', dv_receipt := r, dv_remote := m, dv_failure := None\<rparr>)"
    and "describes (updated d [(''state'', JStr ''claimed''), (''operation_id'', JStr h), (''fencing_token'', JInt f),
        (''attempt'', JInt a), (''receipt_id'', JNull), (''remote_identity_sha256'', JNull), (''failure_class'', JNull)])
      (x\<lparr>dv_state := ''claimed'', dv_operation := h, dv_fence := f, dv_attempt := a, dv_receipt := None,
        dv_remote := None, dv_failure := None\<rparr>)"
  using assms by (simp_all add: describes_def updated_def settled_as_def STATE_KEYS_def insert_commute)

lemma read_failure_iff: "read_failure cmd = Inr w \<longleftrightarrow>
    (\<exists>s. dict_get cmd ''failure_class'' = JStr s \<and> bounded_text 3 96 s \<and> w = opt_str (Some s))"
  by (auto simp: read_failure_def bindE_eq_Inr_iff bounded_text_def)

lemma read_receipt_iff: "read_receipt cmd = Inr rm \<longleftrightarrow>
    (\<exists>r m. dict_get cmd ''receipt_id'' = JStr r \<and> is_sha256_text r \<and>
       dict_get cmd ''remote_identity_sha256'' = JStr m \<and> is_sha256_text m \<and> rm = (opt_str (Some r), opt_str (Some m)))"
  by (auto simp: read_receipt_def)

lemma same_owner_iff: "describes d x \<Longrightarrow> same_owner d h t = Inr () \<longleftrightarrow> t = dv_fence x \<and> h = dv_operation x"
  by (auto simp: same_owner_def describes_at)

text \<open>What each command does to the state behind the object.\<close>

definition reaches :: "delivery \<Rightarrow> pydict \<Rightarrow> bool" where
  "reaches x e \<longleftrightarrow> (\<exists>y. describes e y \<and> advances x y)"

lemma claim_reaches:
  assumes "describes d x" and "claim_delivery d h t = Inr e" and "is_sha256_text h"
  shows "reaches x e"
proof -
  from assms(2) have *: "dv_state x \<in> {''prepared'', ''retryable''}" "dv_fence x < t"
    and e: "e = updated d [(''state'', JStr ''claimed''), (''operation_id'', JStr h), (''fencing_token'', JInt t),
      (''attempt'', JInt (dv_attempt x + (if dv_state x = ''retryable'' then 1 else 0))), (''receipt_id'', JNull),
      (''remote_identity_sha256'', JNull), (''failure_class'', JNull)]"
    unfolding claim_delivery_def Let_def describes_at [OF assms(1)] by (elim bindE_InrE; simp)+
  show ?thesis
    unfolding reaches_def e using advances.claim [OF * assms(3)] describes_updated(4) [OF assms(1)] by blast
qed

lemma begin_reaches:
  assumes "describes d x" and "begin_delivery d h t = Inr e"
  shows "reaches x e"
proof -
  from assms(2) have "dv_state x = ''claimed''" "e = dict_set d ''state'' (JStr ''delivering'')"
    unfolding begin_delivery_def Let_def describes_at [OF assms(1)] by (elim bindE_InrE; simp)+
  then show ?thesis
    unfolding reaches_def using advances.start describes_updated(2) [OF assms(1)] by blast
qed

lemma accept_reaches:
  assumes "describes d x" and "accept_receipt d cmd h t = Inr e"
  shows "reaches x e"
proof -
  from assms(2) obtain rm where st: "dv_state x \<in> {''delivering'', ''reconciling''}" and rm: "read_receipt cmd = Inr rm"
    and e: "e = updated d [(''state'', JStr ''delivered''), (''receipt_id'', fst rm),
      (''remote_identity_sha256'', snd rm), (''failure_class'', JNull)]"
    unfolding accept_receipt_def Let_def describes_at [OF assms(1)] by (elim bindE_InrE) (auto split: prod.splits)
  from rm obtain r m where "is_sha256_text r" "is_sha256_text m" "rm = (opt_str (Some r), opt_str (Some m))"
    unfolding read_receipt_iff by blast
  then show ?thesis
    unfolding reaches_def e using advances.accept [OF st] describes_updated(3) [OF assms(1)] by (metis fst_conv snd_conv)
qed

lemma failure_reaches:
  assumes "describes d x" and "record_failure kind sources state d cmd h t = Inr e"
    and "\<And>w. dv_state x \<in> sources \<Longrightarrow> bounded_text 3 96 w \<Longrightarrow>
      advances x (x\<lparr>dv_state := state, dv_receipt := None, dv_remote := None, dv_failure := Some w\<rparr>)"
  shows "reaches x e"
proof -
  from assms(2) obtain f where st: "dv_state x \<in> sources" and f: "read_failure cmd = Inr f"
    and e: "e = updated d (settled_as state f)"
    unfolding record_failure_def Let_def describes_at [OF assms(1)] by (elim bindE_InrE) auto
  from f obtain w where "bounded_text 3 96 w" "f = opt_str (Some w)" unfolding read_failure_iff by blast
  then show ?thesis
    unfolding reaches_def e using assms(3) [OF st] describes_updated(1) [OF assms(1)] by metis
qed

lemma absent_reaches:
  assumes "describes d x" and "reconcile_not_delivered d h t = Inr e"
  shows "reaches x e"
proof -
  from assms(2) have "dv_state x = ''reconciling''"
    and e: "e = updated d (settled_as ''retryable'' (opt_str (Some ''reconciled_not_delivered'')))"
    unfolding reconcile_not_delivered_def Let_def describes_at [OF assms(1)] by (elim bindE_InrE; simp)+
  then show ?thesis
    unfolding reaches_def e using advances.absent describes_updated(1) [OF assms(1)] by blast
qed

lemma candidate_reaches:
  assumes "describes d x" and "candidate d cmd kind h t = Inr e" and "is_sha256_text h"
  shows "reaches x e"
proof -
  have failure: "reaches x e" if "record_failure kind sources state d cmd h t = Inr e"
    "dv_state x \<in> sources \<Longrightarrow> state = ''retryable'' \<and> dv_state x = ''delivering'' \<or>
     state = ''terminal_failed'' \<and> dv_state x \<in> {''claimed'', ''delivering'', ''reconciling''} \<or>
     state = ''reconciling'' \<and> dv_state x = ''delivering''" for kind sources state
    using assms(1) that(1) by (rule failure_reaches) (intro advances.failed that(2))
  show ?thesis
    using assms(2) unfolding candidate_def
    by (elim if_resultE) (erule claim_reaches [OF assms(1) _ assms(3)], erule begin_reaches [OF assms(1)],
        erule accept_reaches [OF assms(1)], (erule failure, simp)+, erule absent_reaches [OF assms(1)], simp)
qed

lemma clean_read_command:
  "clean (read_command v) q \<longleftrightarrow> (\<exists>cmd k h t. v = JObj cmd \<and> set (dict_keys cmd) = set COMMAND_KEYS \<and>
     dict_get cmd ''kind'' = JStr k \<and> bounded_text 3 64 k \<and> dict_get cmd ''operation_id'' = JStr h \<and>
     is_sha256_text h \<and> dict_get cmd ''fencing_token'' = JInt t \<and> 0 \<le> t \<and> q = (cmd, Some k, Some h, Some t))"
  by (auto simp: read_command_def bounded_text_def)

lemma transition_elim:
  assumes "transition_delivery (JObj d) c = Inr e"
  obtains x cmd k h t where "describes d x" "wf_delivery x" "clean (read_command c) (cmd, Some k, Some h, Some t)"
    "candidate d cmd k h t = Inr e" "is_sha256_text h" "validate_delivery_state (JObj e) = Inr ()"
proof -
  from assms obtain cmd kind operation token where v: "validate_delivery_state (JObj d) = Inr ()"
    and q: "clean (read_command c) (cmd, kind, operation, token)"
    and r: "(case (JObj d, kind, operation, token) of
        (JObj d, Some k, Some h, Some t) \<Rightarrow>
          bindE (candidate d cmd k h t) (\<lambda>e.
          bindE (validate_delivery_state (JObj e)) (\<lambda>_. Inr e))
      | _ \<Rightarrow> Inl AssertionError) = Inr e"
    unfolding transition_delivery_def by (elim bindE_InrE) (auto split: prod.splits)
  from q obtain k h t where kht: "kind = Some k" "operation = Some h" "token = Some t" "is_sha256_text h"
    unfolding clean_read_command by blast
  with r have "candidate d cmd k h t = Inr e" "validate_delivery_state (JObj e) = Inr ()"
    by (auto elim!: bindE_InrE)
  with v q kht that show thesis unfolding valid_delivery_iff by blast
qed

lemma transition_reaches:
  assumes "transition_delivery (JObj d) c = Inr e" and "describes d x"
  shows "\<exists>y. describes e y \<and> wf_delivery y \<and> advances x y"
proof -
  from transition_elim [OF assms(1)] obtain u cmd k h t where *: "describes d u" "wf_delivery u"
    "candidate d cmd k h t = Inr e" "is_sha256_text h" by metis
  from describes_unique [OF assms(2) *(1)] have "u = x" by simp
  with candidate_reaches [OF *(1,3,4)] obtain y where "describes e y" "advances x y"
    by (auto simp: reaches_def)
  with advances_wf * \<open>u = x\<close> show ?thesis by blast
qed

text \<open>The command that asks for a step.\<close>

definition delivery_command :: "string \<Rightarrow> string \<Rightarrow> int \<Rightarrow> string option \<Rightarrow> string option \<Rightarrow> string option \<Rightarrow> json" where
  "delivery_command kind h t r m w = JObj [(''kind'', JStr kind), (''operation_id'', JStr h), (''fencing_token'', JInt t),
     (''receipt_id'', opt_str r), (''remote_identity_sha256'', opt_str m), (''failure_class'', opt_str w)]"

lemma transition_runs:
  assumes "describes d x" and "wf_delivery x" and "is_sha256_text h" and "0 \<le> t" and "bounded_text 3 64 k"
    and "\<And>cmd. delivery_command k h t r m w = JObj cmd \<Longrightarrow> candidate d cmd k h t = Inr e"
    and "describes e y" and "wf_delivery y"
  shows "transition_delivery (JObj d) (delivery_command k h t r m w) = Inr e"
proof -
  obtain cmd where cmd: "delivery_command k h t r m w = JObj cmd" by (simp add: delivery_command_def)
  have "clean (read_command (JObj cmd)) (cmd, Some k, Some h, Some t)"
    unfolding clean_read_command using assms(3-5) cmd
    by (auto simp: delivery_command_def dict_keys_def COMMAND_KEYS_def)
  moreover have "validate_delivery_state (JObj d) = Inr ()" "validate_delivery_state (JObj e) = Inr ()"
    using assms(1,2,7,8) valid_delivery_iff by blast+
  ultimately show ?thesis
    by (simp add: transition_delivery_def cmd assms(6) [OF cmd] raise_if_any_iff [THEN iffD2])
qed

lemma command_fields:
  assumes "delivery_command k h t r m w = JObj cmd"
  shows "dict_get cmd ''receipt_id'' = opt_str r" "dict_get cmd ''remote_identity_sha256'' = opt_str m"
    "dict_get cmd ''failure_class'' = opt_str w"
  using assms by (auto simp: delivery_command_def)

lemma step_taken:
  assumes d: "describes d x" and wf: "wf_delivery x" and step: "advances x y"
  shows "\<exists>c e. transition_delivery (JObj d) c = Inr e \<and> describes e y"
proof -
  have wfy: "wf_delivery y" using advances_wf step wf by blast
  have own: "is_sha256_text (dv_operation x)" "0 \<le> dv_fence x" using wf by (auto simp: wf_delivery_def)
  note at = describes_at [OF d] and up = describes_updated [OF d]
  have mine: "same_owner d (dv_operation x) (dv_fence x) = Inr ()" by (simp add: same_owner_iff [OF d])
  have run: "\<exists>c e. transition_delivery (JObj d) c = Inr e \<and> describes e y"
    if "candidate d cmd k h t = Inr e" "delivery_command k h t r m w = JObj cmd" "is_sha256_text h" "0 \<le> t"
      "bounded_text 3 64 k" "describes e y" for h t k r m w e cmd
    using transition_runs [OF d wf that(3-5) _ that(6) wfy, of r m w] that(1,2,6) by auto
  have command: "\<exists>cmd. delivery_command k h t r m w = JObj cmd" for k h t r m w
    by (simp add: delivery_command_def)
  have failure: "\<exists>c e. transition_delivery (JObj d) c = Inr e \<and> describes e y"
    if "bounded_text 3 96 w" "bounded_text 3 64 k"
      "\<And>cmd. candidate d cmd k (dv_operation x) (dv_fence x) =
         record_failure k sources state d cmd (dv_operation x) (dv_fence x)" "dv_state x \<in> sources"
      "y = x\<lparr>dv_state := state, dv_receipt := None, dv_remote := None, dv_failure := Some w\<rparr>"
    for k state sources w
  proof -
    obtain cmd where cmd: "delivery_command k (dv_operation x) (dv_fence x) None None (Some w) = JObj cmd"
      using command by blast
    from command_fields(3) [OF cmd] that(1) have "read_failure cmd = Inr (opt_str (Some w))"
      unfolding read_failure_iff by simp
    then have "candidate d cmd k (dv_operation x) (dv_fence x) = Inr (updated d (settled_as state (opt_str (Some w))))"
      unfolding that(3) using that(4) by (simp add: record_failure_def Let_def at mine)
    then show ?thesis using cmd own that(2) by (rule run) (unfold that(5), rule up(1))
  qed
  from step show ?thesis
  proof cases
    case (claim f h)
    obtain cmd where cmd: "delivery_command ''claim'' h f None None None = JObj cmd" using command by blast
    have "candidate d cmd ''claim'' h f = Inr (updated d [(''state'', JStr ''claimed''), (''operation_id'', JStr h),
        (''fencing_token'', JInt f), (''attempt'', JInt (dv_attempt x + (if dv_state x = ''retryable'' then 1 else 0))),
        (''receipt_id'', JNull), (''remote_identity_sha256'', JNull), (''failure_class'', JNull)])"
      using claim(2,3) unfolding candidate_def claim_delivery_def Let_def at by simp
    moreover note cmd claim(4)
    moreover have "0 \<le> f" using claim(3) own by simp
    moreover have "bounded_text 3 64 ''claim''" by (simp add: bounded_text_def)
    ultimately show ?thesis by (rule run) (unfold claim(1), rule up(4))
  next
    case start
    obtain cmd where cmd: "delivery_command ''begin_delivery'' (dv_operation x) (dv_fence x) None None None = JObj cmd"
      using command by blast
    have "candidate d cmd ''begin_delivery'' (dv_operation x) (dv_fence x) = Inr (dict_set d ''state'' (JStr ''delivering''))"
      using start(2) by (simp add: candidate_def begin_delivery_def at mine)
    moreover note cmd own
    moreover have "bounded_text 3 64 ''begin_delivery''" by (simp add: bounded_text_def)
    ultimately show ?thesis by (rule run) (unfold start(1), rule up(2))
  next
    case (accept r m)
    obtain cmd where cmd: "delivery_command ''accept_receipt'' (dv_operation x) (dv_fence x) (Some r) (Some m) None = JObj cmd"
      using command by blast
    have "read_receipt cmd = Inr (opt_str (Some r), opt_str (Some m))"
      unfolding read_receipt_iff using command_fields [OF cmd] accept(3,4) by simp
    then have "candidate d cmd ''accept_receipt'' (dv_operation x) (dv_fence x) = Inr (updated d [(''state'', JStr ''delivered''),
        (''receipt_id'', opt_str (Some r)), (''remote_identity_sha256'', opt_str (Some m)), (''failure_class'', JNull)])"
      using accept(2) by (simp add: candidate_def accept_receipt_def Let_def at mine)
    moreover note cmd own
    moreover have "bounded_text 3 64 ''accept_receipt''" by (simp add: bounded_text_def)
    ultimately show ?thesis by (rule run) (unfold accept(1), rule up(3))
  next
    case (failed state w)
    from failed(2) show ?thesis
    proof (elim disjE conjE)
      assume "state = ''retryable''" "dv_state x = ''delivering''"
      with failed show ?thesis
        by (intro failure [where k = "''record_retryable_failure''" and sources = "{''delivering''}"])
          (simp_all add: candidate_def bounded_text_def)
    next
      assume "state = ''terminal_failed''" "dv_state x \<in> {''claimed'', ''delivering'', ''reconciling''}"
      with failed show ?thesis
        by (intro failure [where k = "''record_terminal_failure''" and sources = "{''claimed'', ''delivering'', ''reconciling''}"])
          (simp_all add: candidate_def bounded_text_def)
    next
      assume "state = ''reconciling''" "dv_state x = ''delivering''"
      with failed show ?thesis
        by (intro failure [where k = "''mark_ambiguous''" and sources = "{''delivering''}"])
          (simp_all add: candidate_def bounded_text_def)
    qed
  next
    case absent
    obtain cmd where cmd: "delivery_command ''reconcile_not_delivered'' (dv_operation x) (dv_fence x) None None None = JObj cmd"
      using command by blast
    have "candidate d cmd ''reconcile_not_delivered'' (dv_operation x) (dv_fence x) =
        Inr (updated d (settled_as ''retryable'' (opt_str (Some ''reconciled_not_delivered''))))"
      using absent(2) by (simp add: candidate_def reconcile_not_delivered_def at mine)
    moreover note cmd own
    moreover have "bounded_text 3 64 ''reconcile_not_delivered''" by (simp add: bounded_text_def)
    ultimately show ?thesis by (rule run) (unfold absent(1), rule up(1))
  qed
qed

section \<open>Runs of commands\<close>

definition delivery_step :: "pydict \<Rightarrow> json \<Rightarrow> pydict result" where
  "delivery_step d c = transition_delivery (JObj d) c"

definition valid_delivery :: "pydict \<Rightarrow> bool" where
  "valid_delivery d \<longleftrightarrow> validate_delivery_state (JObj d) = Inr ()"

definition behind :: "pydict \<Rightarrow> delivery" where
  "behind d = (let opt = (\<lambda>k. case dict_get d k of JStr s \<Rightarrow> Some s | _ \<Rightarrow> None) in
     \<lparr>dv_briefing = str_at d ''briefing_id'', dv_state = str_at d ''state'', dv_content = str_at d ''content_sha256'',
      dv_destination = str_at d ''destination_id'', dv_operation = str_at d ''operation_id'',
      dv_fence = int_at d ''fencing_token'', dv_attempt = int_at d ''attempt'', dv_receipt = opt ''receipt_id'',
      dv_remote = opt ''remote_identity_sha256'', dv_failure = opt ''failure_class''\<rparr>)"

lemma describes_behind: "describes d x \<Longrightarrow> behind d = x"
  by (cases x) (auto simp: describes_def behind_def Let_def str_at_def int_at_def py_str_def opt_str_def
      split: option.splits)

lemma valid_behind: "valid_delivery d \<longleftrightarrow> describes d (behind d) \<and> wf_delivery (behind d)"
  unfolding valid_delivery_def valid_delivery_iff using describes_behind by auto

text \<open>
  What no command undoes: the briefing, its content and its destination are fixed, fences and attempts
  only grow, an attempt is counted only with a newer fence, and a delivered or failed briefing
  stays exactly as it is.
\<close>

definition delivery_order :: "delivery \<Rightarrow> delivery \<Rightarrow> bool" where
  "delivery_order x y \<longleftrightarrow> dv_briefing y = dv_briefing x \<and> dv_content y = dv_content x
     \<and> dv_destination y = dv_destination x \<and> dv_fence x \<le> dv_fence y
     \<and> dv_attempt x \<le> dv_attempt y \<and> dv_attempt y - dv_attempt x \<le> dv_fence y - dv_fence x
     \<and> (dv_operation y \<noteq> dv_operation x \<longrightarrow> dv_fence x < dv_fence y)
     \<and> (dv_state x \<in> {''delivered'', ''terminal_failed''} \<longrightarrow> y = x)"

lemma advances_order:
  assumes "advances x y"
  shows "delivery_order x y"
  using assms
proof (induction rule: advances.induct)
  case (failed state w)
  then have "dv_state x \<in> {''claimed'', ''delivering'', ''reconciling''}" by blast
  then have "dv_state x \<notin> {''delivered'', ''terminal_failed''}" by auto
  then show ?case unfolding delivery_order_def by simp
next
  case (claim f h)
  then have "dv_state x \<notin> {''delivered'', ''terminal_failed''}" by auto
  with claim show ?case unfolding delivery_order_def by simp
next
  case (accept r m)
  then have "dv_state x \<notin> {''delivered'', ''terminal_failed''}" by auto
  then show ?case unfolding delivery_order_def by simp
qed (simp_all add: delivery_order_def)

lemma delivery_order_trans: "delivery_order x y \<Longrightarrow> delivery_order y z \<Longrightarrow> delivery_order x z"
  unfolding delivery_order_def by auto

lemma delivery_step_advances:
  assumes "valid_delivery d" and "delivery_step d c = Inr e"
  shows "valid_delivery e \<and> advances (behind d) (behind e)"
proof -
  from assms(1) have "describes d (behind d)" by (simp add: valid_behind)
  from transition_reaches [OF assms(2) [unfolded delivery_step_def] this] obtain y where
    "describes e y" "wf_delivery y" "advances (behind d) y" by blast
  then show ?thesis using describes_behind by (auto simp: valid_behind)
qed

interpretation delivery: ordered_protocol valid_delivery delivery_step "\<lambda>d e. delivery_order (behind d) (behind e)"
proof
  show "delivery_order (behind d) (behind d)" for d by (simp add: delivery_order_def)
qed (auto dest: delivery_step_advances advances_order intro: delivery_order_trans)

section \<open>Errors\<close>

lemma only_Err_raise_if_any [only_Err_intros]: "returns m \<Longrightarrow> only_Err (raise_if_any m)"
  unfolding raise_if_any_def returns_def by (auto intro!: only_Err_intros split: prod.split)

lemma returns_non_negative [returns_intros]: "returns (non_negative v path)"
  unfolding non_negative_def by (auto intro!: returns_intros split: json.split)

lemma returns_read_command [returns_intros]: "returns (read_command v)"
  unfolding read_command_def by (intro returns_intros)

lemma returns_check_outcome [returns_intros]: "returns (check_outcome d v)"
  unfolding check_outcome_def Let_def by (intro returns_intros)

text \<open>A state the code can look up in a set.\<close>

definition hashable :: "json \<Rightarrow> bool" where
  "hashable v \<longleftrightarrow> (case v of JArr _ \<Rightarrow> False | JObj _ \<Rightarrow> False | _ \<Rightarrow> True)"

lemma in_str_set_returns: "hashable v \<longleftrightarrow> (\<exists>b. in_str_set v names = Inr b)"
  by (cases v) (auto simp: hashable_def in_str_set_def)

lemma only_Err_candidate [only_Err_intros]: "only_Err (candidate d cmd kind h t)"
  unfolding candidate_def claim_delivery_def begin_delivery_def accept_receipt_def record_failure_def
    reconcile_not_delivered_def same_owner_def read_failure_def read_receipt_def Let_def
  by (auto intro!: only_Err_intros returns_intros split: prod.split)

lemma bindD_value: "bindD (Inr (x, es)) f = bindE (f x) (\<lambda>(y, fs). Inr (y, es @ fs))"
  by (simp add: bindD_def)

lemma bindD_raises: "returns m \<Longrightarrow> (\<And>x. f x = Inl e) \<Longrightarrow> bindD m f = Inl e"
  by (auto simp: returns_def bindD_def)

lemma exact_object_dict: "\<exists>es. exact_object (JObj d) expected path = Inr (d, es)"
  by (simp add: exact_object_def bindD_def complain_def retD_def)

lemma returns_append: "returns m \<Longrightarrow> returns (bindE m (\<lambda>(y, fs). Inr (y, es @ fs)))"
  by (auto simp: returns_def split: prod.splits)

lemma state_errors_raise:
  assumes "\<not> hashable (dict_get d ''state'')"
  shows "delivery_state_errors (JObj d) = Inl TypeError"
proof -
  obtain es where es: "exact_object (JObj d) STATE_KEYS ''delivery_state'' = Inr (d, es)"
    using exact_object_dict by blast
  have "liftD (in_str_set (dict_get d ''state'') DELIVERY_STATES) = Inl TypeError"
    using assms by (cases "dict_get d ''state''") (simp_all add: hashable_def in_str_set_def liftD_def)
  then have lookup: "bindD (liftD (in_str_set (dict_get d ''state'') DELIVERY_STATES)) f = Inl TypeError"
    for f :: "bool \<Rightarrow> unit diag" by (simp add: bindD_def)
  show ?thesis
    unfolding delivery_state_errors_def es bindD_value lookup
    by (subst bindD_raises [where e = TypeError], (intro returns_intros bindD_raises refl)+, simp)
qed

lemma state_errors_return:
  assumes "\<And>d. v = JObj d \<Longrightarrow> hashable (dict_get d ''state'')"
  shows "returns (delivery_state_errors v)"
proof -
  have rest: "returns (liftD (in_str_set (dict_get d ''state'') DELIVERY_STATES))" if "hashable (dict_get d ''state'')" for d
    using that by (cases "dict_get d ''state''") (simp_all add: hashable_def in_str_set_def returns_def liftD_def retD_def ex_bool_eq)
  show ?thesis
  proof (cases "\<exists>d. v = JObj d")
    case True
    then obtain d where d: "v = JObj d" by blast
    obtain es where es: "exact_object (JObj d) STATE_KEYS ''delivery_state'' = Inr (d, es)"
      using exact_object_dict by blast
    show ?thesis
      unfolding delivery_state_errors_def d es bindD_value
      by (intro returns_append returns_intros rest assms d)
  next
    case False
    then have es: "exact_object v STATE_KEYS ''delivery_state'' = Inr ([], [''delivery_state must be an object''])"
      by (cases v) (simp_all add: exact_object_def blame_def)
    have "hashable (dict_get [] ''state'')" by (simp add: hashable_def)
    then show ?thesis
      unfolding delivery_state_errors_def es bindD_value
      by (intro returns_append returns_intros rest)
  qed
qed

lemma candidate_state:
  assumes "candidate d cmd kind h t = Inr e"
  shows "hashable (dict_get e ''state'')"
proof -
  have "dict_get (updated d (settled_as s f)) ''state'' = JStr s" for s f
    by (simp add: updated_def settled_as_def)
  with assms show ?thesis
    unfolding candidate_def claim_delivery_def begin_delivery_def accept_receipt_def record_failure_def
      reconcile_not_delivered_def Let_def
    by (elim if_resultE bindE_InrE) (auto simp: hashable_def updated_def split: prod.splits)
qed

lemma transition_errors:
  "if \<exists>d. v = JObj d \<and> \<not> hashable (dict_get d ''state'') then transition_delivery v c = Inl TypeError
   else only_Err (transition_delivery v c)"
proof (cases "\<exists>d. v = JObj d \<and> \<not> hashable (dict_get d ''state'')")
  case True
  then show ?thesis
    by (auto simp: transition_delivery_def validate_delivery_state_def raise_if_any_def state_errors_raise)
next
  case False
  have valid: "only_Err (validate_delivery_state w)" if "\<And>d. w = JObj d \<Longrightarrow> hashable (dict_get d ''state'')" for w
    unfolding validate_delivery_state_def using that by (intro only_Err_intros state_errors_return)
  have "only_Err (transition_delivery v c)"
    unfolding transition_delivery_def
  proof (intro only_Err_bindE only_Err_raise_if_any returns_read_command)
    show "only_Err (validate_delivery_state v)" using False by (intro valid) blast
    fix u q assume "validate_delivery_state v = Inr u" and q: "raise_if_any (read_command c) = Inr q"
    then have "validate_delivery_state v = Inr ()" by simp
    then obtain d where d: "v = JObj d" unfolding valid_delivery_iff by blast
    from q obtain cmd k h t where "q = (cmd, Some k, Some h, Some t)"
      by (auto simp: clean_read_command)
    then show "only_Err (case q of (cmd, kind, operation, token) \<Rightarrow>
        (case (v, kind, operation, token) of
        (JObj d, Some k, Some h, Some t) \<Rightarrow>
          bindE (candidate d cmd k h t) (\<lambda>e.
          bindE (validate_delivery_state (JObj e)) (\<lambda>_. Inr e))
      | _ \<Rightarrow> Inl AssertionError))"
      using candidate_state by (auto simp: d intro!: only_Err_intros valid)
  qed
  then show ?thesis unfolding if_not_P [OF False] .
qed

section \<open>Ownership\<close>

lemma candidate_owned:
  assumes d: "describes d x" and c: "candidate d cmd k h t = Inr e"
  shows "dict_get e ''fencing_token'' = JInt t \<and> dict_get e ''operation_id'' = JStr h \<and>
    (if k = ''claim'' then dv_fence x < t else t = dv_fence x \<and> h = dv_operation x)"
proof (cases "k = ''claim''")
  case True
  with c show ?thesis
    unfolding candidate_def claim_delivery_def Let_def describes_at [OF d] if_P [OF True]
    by (elim bindE_InrE) (auto simp: updated_def)
next
  case False
  have gets: "dict_get d ''fencing_token'' = JInt (dv_fence x)" "dict_get d ''operation_id'' = JStr (dv_operation x)"
    using d by (simp_all add: describes_def)
  have "same_owner d h t = Inr () \<and> dict_get e ''fencing_token'' = JInt (dv_fence x) \<and>
      dict_get e ''operation_id'' = JStr (dv_operation x)"
    using c False
    unfolding candidate_def begin_delivery_def accept_receipt_def record_failure_def reconcile_not_delivered_def Let_def
    by (elim if_resultE bindE_InrE) (auto simp: gets updated_def settled_as_def split: prod.splits)
  with False show ?thesis by (simp add: same_owner_iff [OF d])
qed

section \<open>A sample delivery\<close>

definition sample_prepared :: delivery where
  "sample_prepared = \<lparr>dv_briefing = ''daily-briefing'', dv_state = ''prepared'', dv_content = digest_a,
     dv_destination = ''mailbox'', dv_operation = digest_b, dv_fence = 1, dv_attempt = 1, dv_receipt = None,
     dv_remote = None, dv_failure = None\<rparr>"

definition sample_state :: pydict where
  "sample_state = [(''schema_version'', JStr DELIVERY_SCHEMA), (''briefing_id'', JStr ''daily-briefing''),
     (''state'', JStr ''prepared''), (''content_sha256'', JStr digest_a), (''destination_id'', JStr ''mailbox''),
     (''operation_id'', JStr digest_b), (''fencing_token'', JInt 1), (''attempt'', JInt 1), (''receipt_id'', JNull),
     (''remote_identity_sha256'', JNull), (''failure_class'', JNull)]"

definition sample_claim :: json where
  "sample_claim = delivery_command ''claim'' digest_a 2 None None None"

lemma sample_described: "describes sample_state sample_prepared"
  by (simp add: describes_def sample_state_def sample_prepared_def dict_keys_def STATE_KEYS_def)

lemma sample_prepared_wf: "wf_delivery sample_prepared"
proof -
  have "is_slug_text ''daily-briefing''" "is_slug_text ''mailbox''" by code_simp+
  then show ?thesis
    by (simp add: wf_delivery_def sample_prepared_def bounded_text_def DELIVERY_STATES_def wf_outcome_def)
qed

lemma sample_behind: "behind sample_state = sample_prepared"
  by (rule describes_behind [OF sample_described])

lemma sample_prepared_valid: "valid_delivery sample_state"
  using sample_described sample_prepared_wf by (simp add: valid_behind sample_behind)

definition sample_claimed :: pydict where
  "sample_claimed = updated sample_state [(''state'', JStr ''claimed''), (''operation_id'', JStr digest_a),
     (''fencing_token'', JInt 2), (''attempt'', JInt 1), (''receipt_id'', JNull),
     (''remote_identity_sha256'', JNull), (''failure_class'', JNull)]"

lemma sample_claim_accepted: "delivery_step sample_state sample_claim = Inr sample_claimed"
  unfolding delivery_step_def sample_claim_def
proof (rule transition_runs [OF sample_described sample_prepared_wf])
  show "candidate sample_state cmd ''claim'' digest_a 2 = Inr sample_claimed" for cmd
    by (simp add: candidate_def claim_delivery_def describes_at [OF sample_described] sample_prepared_def sample_claimed_def)
  show "describes sample_claimed (sample_prepared\<lparr>dv_state := ''claimed'', dv_operation := digest_a, dv_fence := 2,
      dv_attempt := 1, dv_receipt := None, dv_remote := None, dv_failure := None\<rparr>)"
    unfolding sample_claimed_def by (rule describes_updated(4) [OF sample_described])
  show "wf_delivery (sample_prepared\<lparr>dv_state := ''claimed'', dv_operation := digest_a, dv_fence := 2,
      dv_attempt := 1, dv_receipt := None, dv_remote := None, dv_failure := None\<rparr>)"
    using sample_prepared_wf by (simp add: wf_delivery_def wf_outcome_def DELIVERY_STATES_def)
qed (simp_all add: bounded_text_def)

section \<open>Properties\<close>

text \<open>
  C26. \<^verbatim>\<open>transition_delivery\<close> refines the abstract delivery: from a valid state, the states that some
  command changes to are exactly the abstract successors, and every accepted command leaves a valid
  state.
\<close>

theorem delivery_refines:
  assumes "valid_delivery d"
  shows "{behind e |e c. delivery_step d c = Inr e} = {y. advances (behind d) y} \<and>
    (\<forall>c e. delivery_step d c = Inr e \<longrightarrow> valid_delivery e)"
proof -
  have d: "describes d (behind d)" "wf_delivery (behind d)" using assms by (simp_all add: valid_behind)
  have "\<exists>e c. y = behind e \<and> delivery_step d c = Inr e" if "advances (behind d) y" for y
    using step_taken [OF d that] describes_behind unfolding delivery_step_def by metis
  then show ?thesis using delivery_step_advances [OF assms] by blast
qed

lemma delivery_refines_witness: "\<exists>y. advances sample_prepared y \<and> valid_delivery sample_claimed"
  using delivery_refines [OF sample_prepared_valid] sample_claim_accepted unfolding sample_behind by blast

text \<open>
  C27. Along any run of commands from a valid state, accepted or refused, the briefing, its content and
  its destination never change, fences and attempts never decrease, a new attempt or owner needs a
  newer fence, and once delivered or failed for good nothing changes any more. An accepted command
  leaves the state under its own fence and operation, which for every command but a claim are the ones
  the state already had.
\<close>

theorem delivery_run_safe:
  assumes "valid_delivery d"
  shows "delivery_order (behind (run_commands delivery_step d cs)) (behind (run_commands delivery_step d (cs @ ds))) \<and>
    (\<forall>c cmd e. c = JObj cmd \<and> delivery_step (run_commands delivery_step d cs) c = Inr e \<longrightarrow>
       dict_get cmd ''fencing_token'' = JInt (dv_fence (behind e)) \<and>
       dict_get cmd ''operation_id'' = JStr (dv_operation (behind e)) \<and>
       (if dict_get cmd ''kind'' = JStr ''claim'' then dv_fence (behind (run_commands delivery_step d cs)) < dv_fence (behind e)
        else dv_fence (behind e) = dv_fence (behind (run_commands delivery_step d cs)) \<and>
          dv_operation (behind e) = dv_operation (behind (run_commands delivery_step d cs))))"
proof (intro conjI allI impI)
  show "delivery_order (behind (run_commands delivery_step d cs)) (behind (run_commands delivery_step d (cs @ ds)))"
    using delivery.run_prefix_le [OF assms] .
next
  define s where "s = run_commands delivery_step d cs"
  fix c cmd e assume c: "c = JObj cmd \<and> delivery_step (run_commands delivery_step d cs) c = Inr e"
  then have step: "transition_delivery (JObj s) (JObj cmd) = Inr e"
    unfolding s_def delivery_step_def [symmetric] by blast
  from transition_elim [OF step] obtain x cmd' k h t where *: "describes s x"
    "clean (read_command (JObj cmd)) (cmd', Some k, Some h, Some t)" "candidate s cmd' k h t = Inr e"
    "validate_delivery_state (JObj e) = Inr ()" by metis
  from *(2) have read: "dict_get cmd ''kind'' = JStr k" "dict_get cmd ''operation_id'' = JStr h"
    "dict_get cmd ''fencing_token'' = JInt t" unfolding clean_read_command by auto
  have x: "behind s = x" by (rule describes_behind [OF *(1)])
  from *(4) have "describes e (behind e)" using valid_behind by (simp add: valid_delivery_def)
  then have e: "dict_get e ''fencing_token'' = JInt (dv_fence (behind e))"
    "dict_get e ''operation_id'' = JStr (dv_operation (behind e))" by (simp_all add: describes_def)
  from candidate_owned [OF *(1,3)] e have "t = dv_fence (behind e)" "h = dv_operation (behind e)"
    "if k = ''claim'' then dv_fence x < t else t = dv_fence x \<and> h = dv_operation x" by simp_all
  then show "dict_get cmd ''fencing_token'' = JInt (dv_fence (behind e))"
    "dict_get cmd ''operation_id'' = JStr (dv_operation (behind e))"
    "if dict_get cmd ''kind'' = JStr ''claim'' then dv_fence (behind (run_commands delivery_step d cs)) < dv_fence (behind e)
        else dv_fence (behind e) = dv_fence (behind (run_commands delivery_step d cs)) \<and>
          dv_operation (behind e) = dv_operation (behind (run_commands delivery_step d cs))"
    unfolding s_def [symmetric] x read by (auto split: if_splits)
qed

lemma delivery_run_safe_witness:
  "delivery_order sample_prepared (behind (run_commands delivery_step sample_state [sample_claim])) \<and>
   dv_fence (behind sample_claimed) = 2"
proof -
  obtain cmd where cmd: "sample_claim = JObj cmd" "dict_get cmd ''fencing_token'' = JInt 2"
    by (simp add: sample_claim_def delivery_command_def)
  have "run_commands delivery_step sample_state [] = sample_state" by simp
  then have "dv_fence (behind sample_claimed) = 2"
    using delivery_run_safe [OF sample_prepared_valid, of "[]" "[]"] sample_claim_accepted cmd by (metis json.inject(2))
  then show ?thesis using delivery_run_safe [OF sample_prepared_valid, of "[]" "[sample_claim]"] sample_behind by simp
qed

text \<open>
  \<^verbatim>\<open>transition_delivery\<close> raises nothing but \<^verbatim>\<open>ContractError\<close>, whatever the state and the command are,
  with one exception: a state object whose \<^verbatim>\<open>state\<close> is a list or an object makes the set lookup
  raise \<^verbatim>\<open>TypeError\<close>.
\<close>

lemma delivery_errors:
  "if \<exists>d. v = JObj d \<and> \<not> hashable (dict_get d ''state'') then transition_delivery v c = Inl TypeError
   else only_Err (transition_delivery v c)"
  by (rule transition_errors)

end
