(* ===== verification/LaneManifest.thy ===== *)
theory LaneManifest
  imports BriefingDelivery
begin

text \<open>
  \<^verbatim>\<open>src/scripts/daily_briefing_receipts.py\<close>, first half: the manifest of the lanes that feed a daily
  briefing. \<^verbatim>\<open>validate_lane_manifest\<close> checks a document with one receipt per expected lane and says
  whether a briefing may be composed from it, which lanes block it, and under which digests. \<^verbatim>\<open>load_json\<close>
  reads a file and is not modelled.
\<close>

definition LANE_SCHEMA :: string where "LANE_SCHEMA = ''portfolio-briefing-lane-manifest/v1''"

definition READY_STATUSES :: "string list" where "READY_STATUSES = [''success'', ''no_results'']"

definition TERMINAL_LANE_STATUSES :: "string list" where
  "TERMINAL_LANE_STATUSES = READY_STATUSES @ [''failed'', ''blocked'', ''unavailable'', ''skipped'']"

definition ROOT_KEYS :: "string list" where
  "ROOT_KEYS = [''schema_version'', ''briefing_id'', ''scheduled_window'', ''policy_sha256'', ''expected_lanes'',
     ''receipts'', ''safety'']"

definition WINDOW_KEYS :: "string list" where "WINDOW_KEYS = [''start'', ''end'', ''timezone'']"

definition RECEIPT_KEYS :: "string list" where
  "RECEIPT_KEYS = [''lane_id'', ''status'', ''observed_at'', ''producer_commit'', ''schema_version'',
     ''source_cursor_sha256'', ''result_sha256'', ''result_bytes'', ''item_count'', ''operation_id'',
     ''path_identity'', ''retained_until'', ''reason_code'']"

definition SAFETY_KEYS :: "string list" where
  "SAFETY_KEYS = [''contains_source_payloads'', ''contains_credentials'', ''delivery_authorized'', ''notes'']"

definition FORBIDDEN_KEYS :: "string list" where
  "FORBIDDEN_KEYS = [''raw_payload'', ''message_body'', ''email_body'', ''prompt_text'', ''access_token'',
     ''api_key'', ''authorization'', ''credential'', ''secret'']"

section \<open>The root object\<close>

text \<open>The scheduled window; its two instants, when both could be read.\<close>

definition check_window :: "json \<Rightarrow> (int option \<times> int option) diag" where
  "check_window v =
     bindD (exact_object v WINDOW_KEYS ''scheduled_window'') (\<lambda>window.
     bindD (check_timestamp (dict_get window ''start'') ''scheduled_window.start'') (\<lambda>start.
     bindD (check_timestamp (dict_get window ''end'') ''scheduled_window.end'') (\<lambda>finish.
     bindD (check_text (dict_get window ''timezone'') ''scheduled_window.timezone'' 3 64) (\<lambda>_.
     bindD (complain (case (start, finish) of (Some s, Some f) \<Rightarrow> f \<le> s | _ \<Rightarrow> False)
       ''scheduled_window.start must be before end'') (\<lambda>_.
     retD (start, finish))))))"

definition scan_expected :: "string list \<Rightarrow> nat \<times> json \<Rightarrow> string list diag" where
  "scan_expected ids ir = (case ir of (i, raw) \<Rightarrow>
     bindD (check_text raw (item_path ''expected_lanes'' i) 3 64) (\<lambda>lane_id. case lane_id of
         None \<Rightarrow> retD ids
       | Some s \<Rightarrow>
           bindD (complain (\<not> is_slug_text s) (item_path ''expected_lanes'' i @ '' has an invalid format'')) (\<lambda>_.
           retD (ids @ [s]))))"

text \<open>A list of bounded length, or a message and the empty list.\<close>

definition list_between :: "json \<Rightarrow> nat \<Rightarrow> nat \<Rightarrow> string \<Rightarrow> json list diag" where
  "list_between v lo hi message = (case v of
      JArr xs \<Rightarrow> if lo \<le> length xs \<and> length xs \<le> hi then retD xs else blame message []
    | _ \<Rightarrow> blame message [])"

definition check_expected :: "json \<Rightarrow> string list diag" where
  "check_expected v =
     bindD (list_between v 1 64 ''expected_lanes must contain 1..64 lane IDs'') (\<lambda>expected.
     bindD (foldD scan_expected [] (enumerate 0 expected)) (\<lambda>ids.
     bindD (complain (\<not> distinct ids) ''expected_lanes must not contain duplicates'') (\<lambda>_.
     retD ids)))"

section \<open>Receipts\<close>

text \<open>The local variables of the loop over the receipts.\<close>

record lane_scan =
  ls_observed :: "string list"
  ls_normalized :: "json list"
  ls_blocking :: "string list"
  ls_operations :: "string list"
  ls_paths :: "string list"

definition scan_id :: "pydict \<Rightarrow> string \<Rightarrow> string option diag" where
  "scan_id r path =
     bindD (check_text (dict_get r ''lane_id'') (path @ ''.lane_id'') 3 64) (\<lambda>lane_id.
     bindD (complain (unmatched is_slug_text lane_id) (path @ ''.lane_id has an invalid format'')) (\<lambda>_.
     retD lane_id))"

definition scan_status :: "pydict \<Rightarrow> string \<Rightarrow> string option diag" where
  "scan_status r path =
     bindD (check_text (dict_get r ''status'') (path @ ''.status'') 3 32) (\<lambda>status.
     bindD (complain (unmatched (\<lambda>s. s \<in> set TERMINAL_LANE_STATUSES) status) (path @ ''.status is unsupported'')) (\<lambda>_.
     retD status))"

definition scan_times :: "pydict \<Rightarrow> string \<Rightarrow> int option \<Rightarrow> int option \<Rightarrow> unit diag" where
  "scan_times r path start finish =
     bindD (check_timestamp (dict_get r ''observed_at'') (path @ ''.observed_at'')) (\<lambda>observed.
     bindD (check_timestamp (dict_get r ''retained_until'') (path @ ''.retained_until'')) (\<lambda>retained.
     bindD (complain (case (observed, retained) of (Some o', Some r') \<Rightarrow> r' \<le> o' | _ \<Rightarrow> False)
       (path @ ''.retained_until must be after observed_at'')) (\<lambda>_.
     bindD (complain (case (observed, start) of (Some o', Some s) \<Rightarrow> o' < s | _ \<Rightarrow> False)
       (path @ ''.observed_at precedes the scheduled window'')) (\<lambda>_.
     complain (case (observed, finish) of (Some o', Some f) \<Rightarrow> f \<le> o' | _ \<Rightarrow> False)
       (path @ ''.observed_at must fall inside the scheduled window'')))))"

text \<open>An identity that no earlier receipt has: \<open>seen\<close> is the set so far.\<close>

definition scan_identity :: "pydict \<Rightarrow> string \<Rightarrow> string \<Rightarrow> string list \<Rightarrow> string list diag" where
  "scan_identity r path key seen =
     bindD (check_sha (dict_get r key) (path @ ''.'' @ key)) (\<lambda>x. case x of
         None \<Rightarrow> retD seen
       | Some s \<Rightarrow> bindD (complain (s \<in> set seen) (''duplicate '' @ key @ '' at '' @ path)) (\<lambda>_.
           retD (s # seen)))"

text \<open>A ready receipt names its result; any other names the reason.\<close>

definition scan_result :: "pydict \<Rightarrow> string \<Rightarrow> string option \<Rightarrow> unit diag" where
  "scan_result r path status = (let reason = dict_get r ''reason_code'' in
     if status \<in> Some ` set READY_STATUSES then
       bindD (check_sha (dict_get r ''result_sha256'') (path @ ''.result_sha256'')) (\<lambda>_.
       bindD (non_negative (dict_get r ''result_bytes'') (path @ ''.result_bytes'')) (\<lambda>byte_count.
       bindD (non_negative (dict_get r ''item_count'') (path @ ''.item_count'')) (\<lambda>count.
       bindD (complain (status = Some ''no_results'' \<and> count \<notin> {None, Some 0})
         (path @ ''.item_count must be zero for no_results'')) (\<lambda>_.
       bindD (complain (status = Some ''success'' \<and> count = Some 0)
         (path @ ''.item_count must be positive for success'')) (\<lambda>_.
       bindD (complain (byte_count = Some 0 \<and> status = Some ''success'')
         (path @ ''.result_bytes must be positive for success'')) (\<lambda>_.
       complain (reason \<noteq> JNull) (path @ ''.reason_code must be null for ready statuses'')))))))
     else
       bindD (complain (dict_get r ''result_sha256'' \<noteq> JNull \<or> dict_get r ''result_bytes'' \<noteq> JNull
           \<or> dict_get r ''item_count'' \<noteq> JNull)
         (path @ '' non-ready status must not claim result bytes, digest, or items'')) (\<lambda>_.
       bindD (check_text reason (path @ ''.reason_code'') 3 96) (\<lambda>_. retD ())))"

definition scan_receipt :: "int option \<Rightarrow> int option \<Rightarrow> lane_scan \<Rightarrow> nat \<times> json \<Rightarrow> lane_scan diag" where
  "scan_receipt start finish st ir = (case ir of (i, raw) \<Rightarrow> (let path = item_path ''receipts'' i in
     bindD (exact_object raw RECEIPT_KEYS path) (\<lambda>r.
     bindD (scan_id r path) (\<lambda>lane_id.
     bindD (scan_status r path) (\<lambda>status.
     bindD (scan_times r path start finish) (\<lambda>_.
     bindD (check_commit (dict_get r ''producer_commit'') (path @ ''.producer_commit'')) (\<lambda>_.
     bindD (check_text (dict_get r ''schema_version'') (path @ ''.schema_version'') 3 96) (\<lambda>_.
     bindD (check_sha (dict_get r ''source_cursor_sha256'') (path @ ''.source_cursor_sha256'')) (\<lambda>_.
     bindD (scan_identity r path ''operation_id'' (ls_operations st)) (\<lambda>operations.
     bindD (scan_identity r path ''path_identity'' (ls_paths st)) (\<lambda>paths.
     bindD (scan_result r path status) (\<lambda>_.
     (let own = (case lane_id of None \<Rightarrow> [] | Some s \<Rightarrow> [s]) in
     retD (st\<lparr>ls_observed := ls_observed st @ own,
       ls_normalized := ls_normalized st @ (case raw of JObj _ \<Rightarrow> [raw] | _ \<Rightarrow> []),
       ls_blocking := ls_blocking st @ (if status \<in> Some ` set READY_STATUSES then [] else own),
       ls_operations := operations, ls_paths := paths\<rparr>))))))))))))))"

section \<open>Safety and the report\<close>

definition scan_note :: "unit \<Rightarrow> nat \<times> json \<Rightarrow> unit diag" where
  "scan_note u ir = (case ir of (i, note_text) \<Rightarrow>
     bindD (check_text note_text (item_path ''safety.notes'' i) 8 500) (\<lambda>_. retD ()))"

definition check_flag :: "pydict \<Rightarrow> unit \<Rightarrow> string \<Rightarrow> unit diag" where
  "check_flag d u key = complain (dict_get d key \<noteq> JBool False) (''safety.'' @ key @ '' must be false'')"

definition check_safety :: "json \<Rightarrow> unit diag" where
  "check_safety v =
     bindD (exact_object v SAFETY_KEYS ''safety'') (\<lambda>safety.
     bindD (foldD (check_flag safety) () [''contains_source_payloads'', ''contains_credentials'', ''delivery_authorized'']) (\<lambda>_.
     (case dict_get safety ''notes'' of
        JArr notes \<Rightarrow> if notes \<noteq> [] then foldD scan_note () (enumerate 0 notes)
          else blame ''safety.notes must be a non-empty array'' ()
      | _ \<Rightarrow> blame ''safety.notes must be a non-empty array'' ())))"

definition set_minus :: "string list \<Rightarrow> string list \<Rightarrow> string list" where
  "set_minus xs ys = sort (remdups (filter (\<lambda>s. s \<notin> set ys) xs))"

record lane_facts =
  lf_briefing :: "string option"
  lf_root :: pydict
  lf_expected :: "string list"
  lf_receipts :: "json list"
  lf_scan :: lane_scan

text \<open>Everything before the envelope; the missing lanes are blocking, too.\<close>

definition lane_facts_of :: "json \<Rightarrow> lane_facts diag" where
  "lane_facts_of v =
     bindD (check_walk FORBIDDEN_KEYS v) (\<lambda>_.
     bindD (exact_object v ROOT_KEYS ''$'') (\<lambda>root.
     bindD (complain (dict_get root ''schema_version'' \<noteq> JStr LANE_SCHEMA) (''schema_version must be '' @ LANE_SCHEMA)) (\<lambda>_.
     bindD (check_text (dict_get root ''briefing_id'') ''briefing_id'' 5 96) (\<lambda>briefing_id.
     bindD (complain (unmatched is_slug_text briefing_id) ''briefing_id has an invalid format'') (\<lambda>_.
     bindD (check_sha (dict_get root ''policy_sha256'') ''policy_sha256'') (\<lambda>_.
     bindD (check_window (dict_get root ''scheduled_window'')) (\<lambda>(start, finish).
     bindD (check_expected (dict_get root ''expected_lanes'')) (\<lambda>expected_ids.
     bindD (list_between (dict_get root ''receipts'') 0 64 ''receipts must be an array of at most 64 items'') (\<lambda>receipts.
     bindD (foldD (scan_receipt start finish) \<lparr>ls_observed = [], ls_normalized = [], ls_blocking = [], ls_operations = [],
       ls_paths = []\<rparr> (enumerate 0 receipts)) (\<lambda>st.
     (let observed = ls_observed st; missing = set_minus expected_ids observed;
          unexpected = set_minus observed expected_ids in
     bindD (complain (\<not> distinct observed) ''receipts must not contain duplicate lane IDs'') (\<lambda>_.
     bindD (complain (missing \<noteq> []) (''missing lane receipts: '' @ repr_str_list missing)) (\<lambda>_.
     bindD (complain (unexpected \<noteq> []) (''unexpected lane receipts: '' @ repr_str_list unexpected)) (\<lambda>_.
     bindD (complain (length receipts \<noteq> length expected_ids) ''receipt count must equal expected lane count'') (\<lambda>_.
     bindD (check_safety (dict_get root ''safety'')) (\<lambda>_.
     retD \<lparr>lf_briefing = briefing_id, lf_root = root, lf_expected = expected_ids, lf_receipts = receipts,
       lf_scan = st\<lparr>ls_blocking := ls_blocking st @ missing\<rparr>\<rparr>))))))))))))))))"

text \<open>\<^verbatim>\<open>receipt.get("status") in READY_STATUSES\<close>; it is asked only of a manifest without errors.\<close>

definition receipt_ready :: "json \<Rightarrow> bool" where
  "receipt_ready v = (case v of JObj d \<Rightarrow> (case dict_get d ''status'' of JStr s \<Rightarrow> s \<in> set READY_STATUSES | _ \<Rightarrow> False)
     | _ \<Rightarrow> False)"

definition envelope :: "lane_facts \<Rightarrow> json" where
  "envelope lf = JObj [(''schema_version'', JStr ''portfolio_briefing_input.v1''), (''briefing_id'', opt_str (lf_briefing lf)),
     (''scheduled_window'', dict_get (lf_root lf) ''scheduled_window''),
     (''policy_sha256'', dict_get (lf_root lf) ''policy_sha256''),
     (''lane_receipts'', JArr (sort_key (\<lambda>v. case v of JObj d \<Rightarrow> py_str (dict_get_default d ''lane_id'' (JStr [])) | _ \<Rightarrow> [])
        (ls_normalized (lf_scan lf))))]"

record lane_report =
  lr_valid :: bool
  lr_ready :: bool
  lr_briefing :: "string option"
  lr_manifest_sha256 :: "string option"
  lr_envelope_sha256 :: "string option"
  lr_expected_count :: nat
  lr_receipt_count :: nat
  lr_blocking :: "string list"
  lr_errors :: "string list"

text \<open>The interpreter's wording for a number that is not finite.\<close>

definition not_compliant :: string where
  "not_compliant = ''manifest cannot be canonically serialized: Out of range float values are not JSON compliant''"

definition lane_ready :: "lane_facts \<Rightarrow> string list \<Rightarrow> bool" where
  "lane_ready lf errors \<longleftrightarrow> errors = [] \<and> ls_blocking (lf_scan lf) = []
     \<and> set (ls_observed (lf_scan lf)) = set (lf_expected lf) \<and> list_all receipt_ready (lf_receipts lf)"

definition validate_lane_manifest :: "json \<Rightarrow> lane_report result" where
  "validate_lane_manifest v = bindE (lane_facts_of v) (\<lambda>(lf, errors).
     (let ready = lane_ready lf errors;
          digests = (case (canonical_sha256 v, canonical_sha256 (envelope lf)) of
              (Some m, Some e) \<Rightarrow> (Some m, Some e) | _ \<Rightarrow> (None, None));
          errors' = (if fst digests = None then errors @ [not_compliant] else errors) in
     Inr \<lparr>lr_valid = (errors' = []), lr_ready = ready, lr_briefing = lf_briefing lf,
       lr_manifest_sha256 = fst digests, lr_envelope_sha256 = snd digests, lr_expected_count = length (lf_expected lf),
       lr_receipt_count = length (lf_receipts lf),
       lr_blocking = sort (remdups (ls_blocking (lf_scan lf))), lr_errors = errors'\<rparr>))"


section \<open>Sound manifests\<close>

definition field_text :: "string \<Rightarrow> json \<Rightarrow> string" where
  "field_text key v = (case v of JObj d \<Rightarrow> str_at d key | _ \<Rightarrow> [])"

definition sound_result :: "pydict \<Rightarrow> string \<Rightarrow> bool" where
  "sound_result d status \<longleftrightarrow>
     (if status \<in> set READY_STATUSES then
        matched_at d ''result_sha256'' is_sha256_text \<and> dict_get d ''reason_code'' = JNull \<and>
        (\<exists>b c. dict_get d ''result_bytes'' = JInt b \<and> dict_get d ''item_count'' = JInt c \<and> 0 \<le> b \<and> 0 \<le> c \<and>
           (status = ''no_results'' \<longrightarrow> c = 0) \<and> (status = ''success'' \<longrightarrow> 0 < b \<and> 0 < c))
      else dict_get d ''result_sha256'' = JNull \<and> dict_get d ''result_bytes'' = JNull \<and> dict_get d ''item_count'' = JNull \<and>
        text_at d ''reason_code'' 3 96)"

definition sound_times :: "pydict \<Rightarrow> int \<Rightarrow> int \<Rightarrow> bool" where
  "sound_times d s f \<longleftrightarrow> (\<exists>o' r. matched_at d ''observed_at'' (\<lambda>a. instant_of a o') \<and>
     matched_at d ''retained_until'' (\<lambda>b. instant_of b r) \<and> o' < r \<and> s \<le> o' \<and> o' < f)"

definition sound_receipt :: "int \<Rightarrow> int \<Rightarrow> json \<Rightarrow> bool" where
  "sound_receipt s f v \<longleftrightarrow> (\<exists>d. v = JObj d \<and> set (dict_keys d) = set RECEIPT_KEYS \<and>
     text_at d ''lane_id'' 3 64 \<and> is_slug_text (str_at d ''lane_id'') \<and>
     matched_at d ''status'' (\<lambda>s. s \<in> set TERMINAL_LANE_STATUSES) \<and> sound_times d s f \<and>
     matched_at d ''producer_commit'' is_commit_text \<and> text_at d ''schema_version'' 3 96 \<and>
     matched_at d ''source_cursor_sha256'' is_sha256_text \<and> matched_at d ''operation_id'' is_sha256_text \<and>
     matched_at d ''path_identity'' is_sha256_text \<and> sound_result d (str_at d ''status''))"

lemma clean_scan_result:
  "clean (scan_result d path (Some status)) u \<longleftrightarrow> sound_result d status"
proof -
  define ready where "ready = (status \<in> set READY_STATUSES)"
  have in_ready: "Some status \<in> Some ` set READY_STATUSES \<longleftrightarrow> ready" by (auto simp: ready_def)
  show ?thesis
    unfolding scan_result_def sound_result_def Let_def in_ready ready_def [symmetric] clean_if clean_bindD clean_at
      clean_complain clean_retD
    by (cases ready) auto
qed

lemma clean_scan_times: "clean (scan_times d path (Some s) (Some f)) u \<longleftrightarrow> sound_times d s f"
proof -
  have "clean (scan_times d path (Some s) (Some f)) u \<longleftrightarrow> (\<exists>o' r. matched_at d ''observed_at'' (\<lambda>a. instant_of a o') \<and>
     matched_at d ''retained_until'' (\<lambda>b. instant_of b r) \<and> \<not> r \<le> o' \<and> \<not> o' < s \<and> \<not> f \<le> o')"
    unfolding scan_times_def clean_bindD clean_at clean_complain by fastforce
  then show ?thesis by (simp only: sound_times_def not_le not_less)
qed

lemma clean_scan_id: "clean (scan_id d path) x \<longleftrightarrow>
    text_at d ''lane_id'' 3 64 \<and> is_slug_text (str_at d ''lane_id'') \<and> x = Some (str_at d ''lane_id'')"
  unfolding scan_id_def clean_bindD clean_at clean_complain clean_retD by (auto simp: unmatched_def ex_bool_eq)

lemma status_bounds: "status \<in> set TERMINAL_LANE_STATUSES \<Longrightarrow> bounded_text 3 32 status"
  by (auto simp: TERMINAL_LANE_STATUSES_def READY_STATUSES_def bounded_text_def)

lemma clean_scan_status: "clean (scan_status d path) x \<longleftrightarrow>
    matched_at d ''status'' (\<lambda>s. s \<in> set TERMINAL_LANE_STATUSES) \<and> x = Some (str_at d ''status'')"
  unfolding scan_status_def clean_bindD clean_at clean_complain clean_retD
  using status_bounds by (auto simp: unmatched_def text_at_def matched_at_def str_at_def py_str_def)

lemma clean_scan_identity: "clean (scan_identity d path key seen) x \<longleftrightarrow>
    matched_at d key is_sha256_text \<and> str_at d key \<notin> set seen \<and> x = str_at d key # seen"
  unfolding scan_identity_def clean_bindD clean_at by (auto simp: ex_bool_eq)

definition next_scan :: "json \<Rightarrow> lane_scan \<Rightarrow> lane_scan" where
  "next_scan raw st = st\<lparr>ls_observed := ls_observed st @ [field_text ''lane_id'' raw], ls_normalized := ls_normalized st @ [raw],
     ls_blocking := ls_blocking st @ (if receipt_ready raw then [] else [field_text ''lane_id'' raw]),
     ls_operations := field_text ''operation_id'' raw # ls_operations st,
     ls_paths := field_text ''path_identity'' raw # ls_paths st\<rparr>"

lemma ready_status: "matched_at d ''status'' P \<Longrightarrow> str_at d ''status'' \<in> set READY_STATUSES \<longleftrightarrow> receipt_ready (JObj d)"
  by (auto simp: matched_at_def receipt_ready_def str_at_def py_str_def)

declare ex_unit [simp]

lemma clean_scan_receipt:
  "clean (scan_receipt (Some s) (Some f) st (i, raw)) st' \<longleftrightarrow> sound_receipt s f raw \<and>
     field_text ''operation_id'' raw \<notin> set (ls_operations st) \<and> field_text ''path_identity'' raw \<notin> set (ls_paths st) \<and>
     st' = next_scan raw st"
proof (cases raw)
  case (JObj d)
  have fld: "field_text key (JObj d) = str_at d key" for key by (simp add: field_text_def)
  show ?thesis
    unfolding JObj scan_receipt_def prod.case Let_def clean_bindD clean_scan_id clean_scan_status clean_scan_identity
      clean_exact_object clean_at clean_retD clean_scan_times clean_scan_result sound_receipt_def next_scan_def fld
    by (auto simp: clean_scan_times clean_scan_result ready_status)
qed (simp_all add: scan_receipt_def sound_receipt_def Let_def)

lemma clean_scan_receipts:
  "clean (foldD (scan_receipt (Some s) (Some f)) st (enumerate n rs)) t \<longleftrightarrow> list_all (sound_receipt s f) rs \<and>
     distinct (map (field_text ''operation_id'') rs) \<and> distinct (map (field_text ''path_identity'') rs) \<and>
     set (map (field_text ''operation_id'') rs) \<inter> set (ls_operations st) = {} \<and>
     set (map (field_text ''path_identity'') rs) \<inter> set (ls_paths st) = {} \<and> t = fold next_scan rs st"
proof (induction rs arbitrary: st n)
  case (Cons r rs)
  have "ls_operations (next_scan r st) = field_text ''operation_id'' r # ls_operations st"
    "ls_paths (next_scan r st) = field_text ''path_identity'' r # ls_paths st"
    by (simp_all add: next_scan_def)
  then show ?case by (simp add: clean_scan_receipt Cons.IH) blast
qed simp

lemma scanned:
  "ls_observed (fold next_scan rs st) = ls_observed st @ map (field_text ''lane_id'') rs"
  "ls_normalized (fold next_scan rs st) = ls_normalized st @ rs"
  "ls_blocking (fold next_scan rs st) = ls_blocking st @ map (field_text ''lane_id'') (filter (\<lambda>r. \<not> receipt_ready r) rs)"
  by (induction rs arbitrary: st) (simp_all add: next_scan_def)

definition sound_window :: "json \<Rightarrow> int \<Rightarrow> int \<Rightarrow> bool" where
  "sound_window v s f \<longleftrightarrow> (\<exists>w. v = JObj w \<and> set (dict_keys w) = set WINDOW_KEYS \<and>
     matched_at w ''start'' (\<lambda>a. instant_of a s) \<and> matched_at w ''end'' (\<lambda>a. instant_of a f) \<and>
     text_at w ''timezone'' 3 64 \<and> s < f)"

definition sound_safety :: "json \<Rightarrow> bool" where
  "sound_safety v \<longleftrightarrow> (\<exists>d ns. v = JObj d \<and> set (dict_keys d) = set SAFETY_KEYS \<and>
     dict_get d ''contains_source_payloads'' = JBool False \<and> dict_get d ''contains_credentials'' = JBool False \<and>
     dict_get d ''delivery_authorized'' = JBool False \<and> dict_get d ''notes'' = JArr (map JStr ns) \<and>
     ns \<noteq> [] \<and> list_all (bounded_text 8 500) ns)"

text \<open>
  A manifest for the given lanes with the given receipts: one sound receipt for each lane, every
  observation inside the window, no operation and no path identity used twice, nothing authorised.
\<close>

definition sound_manifest :: "json \<Rightarrow> string list \<Rightarrow> json list \<Rightarrow> bool" where
  "sound_manifest v lanes receipts \<longleftrightarrow> (\<exists>root s f. v = JObj root \<and> set (dict_keys root) = set ROOT_KEYS \<and>
     walk_safe FORBIDDEN_KEYS v ''$'' = [] \<and>
     dict_get root ''schema_version'' = JStr LANE_SCHEMA \<and>
     text_at root ''briefing_id'' 5 96 \<and> is_slug_text (str_at root ''briefing_id'') \<and>
     matched_at root ''policy_sha256'' is_sha256_text \<and>
     sound_window (dict_get root ''scheduled_window'') s f \<and>
     dict_get root ''expected_lanes'' = JArr (map JStr lanes) \<and> 1 \<le> length lanes \<and> length lanes \<le> 64 \<and>
     list_all (\<lambda>l. bounded_text 3 64 l \<and> is_slug_text l) lanes \<and> distinct lanes \<and>
     dict_get root ''receipts'' = JArr receipts \<and> list_all (sound_receipt s f) receipts \<and>
     distinct (map (field_text ''operation_id'') receipts) \<and> distinct (map (field_text ''path_identity'') receipts) \<and>
     distinct (map (field_text ''lane_id'') receipts) \<and> field_text ''lane_id'' ` set receipts = set lanes \<and>
     sound_safety (dict_get root ''safety''))"

lemma clean_check_window: "clean (check_window v) x \<longleftrightarrow> (\<exists>s f. x = (Some s, Some f) \<and> sound_window v s f)"
proof -
  have "clean (check_window v) x \<longleftrightarrow> (\<exists>w s f. v = JObj w \<and> set (dict_keys w) = set WINDOW_KEYS \<and>
     matched_at w ''start'' (\<lambda>a. instant_of a s) \<and> matched_at w ''end'' (\<lambda>a. instant_of a f) \<and>
     text_at w ''timezone'' 3 64 \<and> \<not> f \<le> s \<and> x = (Some s, Some f))"
    unfolding check_window_def clean_bindD clean_exact_object clean_at clean_complain clean_retD by fastforce
  then show ?thesis unfolding sound_window_def not_le by blast
qed

lemma clean_list_between: "clean (list_between v lo hi message) xs \<longleftrightarrow>
    v = JArr xs \<and> lo \<le> length xs \<and> length xs \<le> hi"
  by (auto simp: list_between_def split: json.splits)

lemma clean_scan_expected:
  "clean (foldD scan_expected ids (enumerate n vs)) out \<longleftrightarrow>
     (\<exists>lanes. vs = map JStr lanes \<and> list_all (\<lambda>l. bounded_text 3 64 l \<and> is_slug_text l) lanes \<and> out = ids @ lanes)"
proof (induction vs arbitrary: ids n)
  case (Cons v vs)
  have "clean (scan_expected ids (n, v)) u \<longleftrightarrow>
      (\<exists>s. v = JStr s \<and> bounded_text 3 64 s \<and> is_slug_text s \<and> u = ids @ [s])" for u
    by (auto simp: scan_expected_def bounded_text_def)
  then have "clean (foldD scan_expected ids (enumerate n (v # vs))) out \<longleftrightarrow>
      (\<exists>s lanes. v = JStr s \<and> bounded_text 3 64 s \<and> is_slug_text s \<and> vs = map JStr lanes \<and>
         list_all (\<lambda>l. bounded_text 3 64 l \<and> is_slug_text l) lanes \<and> out = ids @ s # lanes)"
    by (auto simp: Cons.IH)
  then show ?case by (auto simp: Cons_eq_map_conv)
qed auto

lemma clean_check_expected:
  "clean (check_expected v) lanes \<longleftrightarrow> v = JArr (map JStr lanes) \<and> 1 \<le> length lanes \<and> length lanes \<le> 64 \<and>
     list_all (\<lambda>l. bounded_text 3 64 l \<and> is_slug_text l) lanes \<and> distinct lanes"
  unfolding check_expected_def clean_bindD clean_list_between clean_scan_expected clean_complain clean_retD by auto

lemma clean_scan_notes:
  "clean (foldD scan_note () (enumerate n vs)) () \<longleftrightarrow> (\<exists>ns. vs = map JStr ns \<and> list_all (bounded_text 8 500) ns)"
proof (induction vs arbitrary: n)
  case (Cons v vs)
  have "clean (scan_note () (n, v)) () \<longleftrightarrow> (\<exists>s. v = JStr s \<and> bounded_text 8 500 s)"
    by (auto simp: scan_note_def bounded_text_def)
  then have "clean (foldD scan_note () (enumerate n (v # vs))) () \<longleftrightarrow>
      (\<exists>s ns. v = JStr s \<and> bounded_text 8 500 s \<and> vs = map JStr ns \<and> list_all (bounded_text 8 500) ns)"
    by (auto simp: Cons.IH)
  then show ?case by (fastforce simp: Cons_eq_map_conv)
qed auto

lemma clean_check_safety: "clean (check_safety v) u \<longleftrightarrow> sound_safety v"
proof -
  have noted: "clean (case w of JArr ns \<Rightarrow> if ns \<noteq> [] then foldD scan_note () (enumerate 0 ns)
          else blame message () | _ \<Rightarrow> blame message ()) () \<longleftrightarrow>
      (\<exists>ns. w = JArr (map JStr ns) \<and> ns \<noteq> [] \<and> list_all (bounded_text 8 500) ns)" for w message
    by (cases w) (auto simp: clean_scan_notes)
  have flags: "clean (foldD (check_flag d) () [''contains_source_payloads'', ''contains_credentials'', ''delivery_authorized'']) () \<longleftrightarrow>
      dict_get d ''contains_source_payloads'' = JBool False \<and> dict_get d ''contains_credentials'' = JBool False \<and>
      dict_get d ''delivery_authorized'' = JBool False" for d
    by (simp add: check_flag_def)
  have u: "u = ()" by simp
  show ?thesis
    unfolding u check_safety_def clean_bindD clean_exact_object ex_unit noted flags sound_safety_def by blast
qed

lemma minus_empty: "set_minus xs ys = [] \<longleftrightarrow> set xs \<subseteq> set ys"
  by (auto simp: set_minus_def filter_empty_conv simp flip: set_empty2)

abbreviation fresh_scan :: lane_scan where
  "fresh_scan \<equiv> \<lparr>ls_observed = [], ls_normalized = [], ls_blocking = [], ls_operations = [], ls_paths = []\<rparr>"

text \<open>The counts and the two set differences say that the receipts are one for each lane.\<close>

lemma one_each:
  assumes "distinct (xs :: string list)" and "distinct ys"
  shows "set_minus xs ys = [] \<and> set_minus ys xs = [] \<longleftrightarrow> set ys = set xs"
    and "set ys = set xs \<Longrightarrow> length ys = length xs"
proof -
  show "set_minus xs ys = [] \<and> set_minus ys xs = [] \<longleftrightarrow> set ys = set xs" by (auto simp: minus_empty)
  show "length ys = length xs" if "set ys = set xs"
    using assms that by (metis distinct_card)
qed

definition facts_of_sound :: "pydict \<Rightarrow> string list \<Rightarrow> json list \<Rightarrow> lane_facts" where
  "facts_of_sound root lanes receipts = \<lparr>lf_briefing = Some (str_at root ''briefing_id''), lf_root = root,
     lf_expected = lanes, lf_receipts = receipts, lf_scan = fold next_scan receipts fresh_scan\<rparr>"

lemma clean_lane_facts:
  "clean (lane_facts_of v) lf \<longleftrightarrow>
     (\<exists>root lanes receipts. v = JObj root \<and> sound_manifest v lanes receipts \<and> lf = facts_of_sound root lanes receipts)"
  (is "_ \<longleftrightarrow> ?R")
proof
  assume "clean (lane_facts_of v) lf"
  then obtain root s f lanes receipts st where
    v: "v = JObj root" "set (dict_keys root) = set ROOT_KEYS" "walk_safe FORBIDDEN_KEYS v ''$'' = []"
      "dict_get root ''schema_version'' = JStr LANE_SCHEMA" "text_at root ''briefing_id'' 5 96"
      "is_slug_text (str_at root ''briefing_id'')" "matched_at root ''policy_sha256'' is_sha256_text"
      "sound_window (dict_get root ''scheduled_window'') s f" "clean (check_expected (dict_get root ''expected_lanes'')) lanes"
      "dict_get root ''receipts'' = JArr receipts"
    and st: "clean (foldD (scan_receipt (Some s) (Some f)) fresh_scan (enumerate 0 receipts)) st"
      "distinct (ls_observed st)" "set_minus lanes (ls_observed st) = []" "set_minus (ls_observed st) lanes = []"
      "length receipts = length lanes" "sound_safety (dict_get root ''safety'')"
    and lf: "lf = \<lparr>lf_briefing = Some (str_at root ''briefing_id''), lf_root = root, lf_expected = lanes, lf_receipts = receipts,
       lf_scan = st\<lparr>ls_blocking := ls_blocking st @ set_minus lanes (ls_observed st)\<rparr>\<rparr>"
    unfolding lane_facts_of_def clean_bindD clean_check_walk clean_exact_object clean_complain clean_at clean_check_window
      clean_list_between clean_check_safety Let_def
    by (auto simp: unmatched_def clean_check_window clean_list_between clean_check_safety clean_at)
  have lanes: "dict_get root ''expected_lanes'' = JArr (map JStr lanes)" "1 \<le> length lanes" "length lanes \<le> 64"
    "list_all (\<lambda>l. bounded_text 3 64 l \<and> is_slug_text l) lanes" "distinct lanes"
    using v(9) by (simp_all add: clean_check_expected)
  have run: "st = fold next_scan receipts fresh_scan" "list_all (sound_receipt s f) receipts"
    "distinct (map (field_text ''operation_id'') receipts)" "distinct (map (field_text ''path_identity'') receipts)"
    using st(1) by (simp_all add: clean_scan_receipts)
  have ids: "ls_observed st = map (field_text ''lane_id'') receipts" by (simp add: run(1) scanned)
  have each: "distinct (map (field_text ''lane_id'') receipts)" "field_text ''lane_id'' ` set receipts = set lanes"
    using st(2-4) one_each(1) [OF lanes(5) st(2)] by (simp_all add: ids)
  have "st\<lparr>ls_blocking := ls_blocking st @ set_minus lanes (ls_observed st)\<rparr> = st" using st(3) by simp
  then have "lf = facts_of_sound root lanes receipts" by (simp add: lf facts_of_sound_def run(1))
  moreover have "sound_manifest v lanes receipts"
    unfolding sound_manifest_def using v(1-8,10) lanes run(2-4) each st(6) by blast
  ultimately show ?R using v(1) by blast
next
  assume ?R
  then obtain root lanes receipts s f where
    v: "v = JObj root" "set (dict_keys root) = set ROOT_KEYS" "walk_safe FORBIDDEN_KEYS v ''$'' = []"
      "dict_get root ''schema_version'' = JStr LANE_SCHEMA" "text_at root ''briefing_id'' 5 96"
      "is_slug_text (str_at root ''briefing_id'')" "matched_at root ''policy_sha256'' is_sha256_text"
      "sound_window (dict_get root ''scheduled_window'') s f"
    and lanes: "dict_get root ''expected_lanes'' = JArr (map JStr lanes)" "1 \<le> length lanes" "length lanes \<le> 64"
      "list_all (\<lambda>l. bounded_text 3 64 l \<and> is_slug_text l) lanes" "distinct lanes"
    and receipts: "dict_get root ''receipts'' = JArr receipts" "list_all (sound_receipt s f) receipts"
      "distinct (map (field_text ''operation_id'') receipts)" "distinct (map (field_text ''path_identity'') receipts)"
      "distinct (map (field_text ''lane_id'') receipts)" "field_text ''lane_id'' ` set receipts = set lanes"
      "sound_safety (dict_get root ''safety'')"
    and lf: "lf = facts_of_sound root lanes receipts"
    unfolding sound_manifest_def by blast
  define st where "st = fold next_scan receipts fresh_scan"
  have ids: "ls_observed st = map (field_text ''lane_id'') receipts" by (simp add: st_def scanned)
  have minus: "set_minus lanes (ls_observed st) = []" "set_minus (ls_observed st) lanes = []"
    using one_each(1) [OF lanes(5) receipts(5)] receipts(6) by (simp_all add: ids)
  have long: "length receipts = length lanes"
    using one_each(2) [OF lanes(5) receipts(5)] receipts(6) by simp
  have run: "clean (foldD (scan_receipt (Some s) (Some f)) fresh_scan (enumerate 0 receipts)) st"
    using receipts(2-4) by (simp add: clean_scan_receipts st_def)
  have expected: "clean (check_expected (dict_get root ''expected_lanes'')) lanes"
    using lanes by (simp add: clean_check_expected)
  have got: "clean (list_between (dict_get root ''receipts'') 0 64 m) receipts" for m
    using receipts(1) long lanes(3) by (simp add: clean_list_between)
  have same: "st\<lparr>ls_blocking := ls_blocking st @ []\<rparr> = st" by simp
  have out: "clean (retD \<lparr>lf_briefing = Some (str_at root ''briefing_id''), lf_root = root, lf_expected = lanes,
      lf_receipts = receipts, lf_scan = st\<lparr>ls_blocking := ls_blocking st @ []\<rparr>\<rparr>) lf"
    by (simp add: lf facts_of_sound_def st_def)
  have window: "clean (check_window (dict_get root ''scheduled_window'')) (Some s, Some f)"
    using v(8) by (simp add: clean_check_window)
  have safe: "clean (check_safety (dict_get root ''safety'')) ()" using receipts(7) by (simp add: clean_check_safety)
  have inner: "clean (bindD (complain (\<not> distinct (ls_observed st)) m1) (\<lambda>_.
     bindD (complain (set_minus lanes (ls_observed st) \<noteq> []) m2) (\<lambda>_.
     bindD (complain (set_minus (ls_observed st) lanes \<noteq> []) m3) (\<lambda>_.
     bindD (complain (length receipts \<noteq> length lanes) m4) (\<lambda>_.
     bindD (check_safety (dict_get root ''safety'')) (\<lambda>_.
     retD \<lparr>lf_briefing = Some (str_at root ''briefing_id''), lf_root = root, lf_expected = lanes, lf_receipts = receipts,
       lf_scan = st\<lparr>ls_blocking := ls_blocking st @ set_minus lanes (ls_observed st)\<rparr>\<rparr>)))))) lf" for m1 m2 m3 m4
    unfolding minus clean_bindD ex_unit clean_complain using receipts(5) long safe out ids by simp
  have text_ok: "clean (check_text (dict_get root ''briefing_id'') ''briefing_id'' 5 96) (Some (str_at root ''briefing_id''))"
    using v(5) by (simp only: clean_at)
  have policy: "clean (check_sha (dict_get root ''policy_sha256'') ''policy_sha256'') (Some (str_at root ''policy_sha256''))"
    using v(7) by (simp only: clean_at)
  show "clean (lane_facts_of v) lf"
    unfolding lane_facts_of_def Let_def
    by (rule clean_bindI [of _ "()"], simp add: v(3), rule clean_bindI [of _ root], simp add: v(1,2),
      rule clean_bindI [of _ "()"], simp add: v(4), rule clean_bindI [OF text_ok],
      rule clean_bindI [of _ "()"], simp add: v(6) unmatched_def, rule clean_bindI [OF policy],
      rule clean_bindI [OF window], simp only: prod.case, rule clean_bindI [OF expected], rule clean_bindI [OF got],
      rule clean_bindI [OF run], rule inner)
qed

section \<open>Every leaf of a sound manifest is typed\<close>

lemma finite_receipt:
  assumes "sound_receipt s f v" and "proper v"
  shows "finite_json v"
proof -
  obtain d where d: "v = JObj d" "set (dict_keys d) = set RECEIPT_KEYS" "text_at d ''lane_id'' 3 64"
    "matched_at d ''status'' (\<lambda>s. s \<in> set TERMINAL_LANE_STATUSES)" "sound_times d s f"
    "matched_at d ''producer_commit'' is_commit_text" "text_at d ''schema_version'' 3 96"
    "matched_at d ''source_cursor_sha256'' is_sha256_text" "matched_at d ''operation_id'' is_sha256_text"
    "matched_at d ''path_identity'' is_sha256_text" "sound_result d (str_at d ''status'')"
    using assms(1) unfolding sound_receipt_def by blast
  have result: "finite_json (dict_get d ''result_sha256'')" "finite_json (dict_get d ''result_bytes'')"
    "finite_json (dict_get d ''item_count'')" "finite_json (dict_get d ''reason_code'')"
    using d(11) by (auto simp: sound_result_def finite_text split: if_splits)
  have times: "finite_json (dict_get d ''observed_at'')" "finite_json (dict_get d ''retained_until'')"
    using d(5) unfolding sound_times_def using finite_text(2) by blast+
  show ?thesis unfolding d(1)
  proof (rule finite_object [OF _ d(2)])
    show "proper (JObj d)" using assms(2) d(1) by simp
    show "finite_json (dict_get d k)" if "k \<in> set RECEIPT_KEYS" for k
      using that result times finite_text(1) [OF d(3)] finite_text(1) [OF d(7)] finite_text(2) [OF d(4)] finite_text(2) [OF d(6)]
        finite_text(2) [OF d(8)] finite_text(2) [OF d(9)] finite_text(2) [OF d(10)]
      by (auto simp: RECEIPT_KEYS_def)
  qed
qed

lemma finite_window:
  assumes "sound_window v s f" and "proper v"
  shows "finite_json v"
proof -
  from assms(1) obtain w where w: "v = JObj w" "set (dict_keys w) = set WINDOW_KEYS"
    "matched_at w ''start'' (\<lambda>a. instant_of a s)" "matched_at w ''end'' (\<lambda>a. instant_of a f)" "text_at w ''timezone'' 3 64"
    unfolding sound_window_def by blast
  show ?thesis unfolding w(1)
  proof (rule finite_all [OF _ w(2)])
    show "proper (JObj w)" using assms(2) w(1) by blast
    show "list_all (\<lambda>k. finite_json (dict_get w k)) WINDOW_KEYS"
      using finite_text(1) [OF w(5)] finite_text(2) [OF w(3)] finite_text(2) [OF w(4)] by (simp add: WINDOW_KEYS_def)
  qed
qed

lemma finite_texts: "finite_json (JArr (map JStr ss))"
  by (simp add: list_all_iff)

lemma finite_safety:
  assumes "sound_safety v" and "proper v"
  shows "finite_json v"
proof -
  from assms(1) obtain d ns where d: "v = JObj d" "set (dict_keys d) = set SAFETY_KEYS"
    "dict_get d ''contains_source_payloads'' = JBool False" "dict_get d ''contains_credentials'' = JBool False"
    "dict_get d ''delivery_authorized'' = JBool False" "dict_get d ''notes'' = JArr (map JStr ns)"
    unfolding sound_safety_def by blast
  show ?thesis unfolding d(1)
  proof (rule finite_all [OF _ d(2)])
    show "proper (JObj d)" using assms(2) d(1) by blast
    show "list_all (\<lambda>k. finite_json (dict_get d k)) SAFETY_KEYS"
      using finite_texts by (simp add: SAFETY_KEYS_def d(3-6))
  qed
qed

lemma sound_finite:
  assumes "sound_manifest v lanes receipts" and "proper v"
  shows "finite_json v"
proof -
  obtain root s f where
    v: "v = JObj root" "set (dict_keys root) = set ROOT_KEYS" "dict_get root ''schema_version'' = JStr LANE_SCHEMA"
      "text_at root ''briefing_id'' 5 96" "matched_at root ''policy_sha256'' is_sha256_text"
      "sound_window (dict_get root ''scheduled_window'') s f"
      "dict_get root ''expected_lanes'' = JArr (map JStr lanes)" 
      "dict_get root ''receipts'' = JArr receipts" "list_all (sound_receipt s f) receipts"
      "sound_safety (dict_get root ''safety'')"
    using assms(1) unfolding sound_manifest_def by blast
  have each: "proper (dict_get root k)" for k using proper_get assms(2) v(1) by blast
  from each [of "''receipts''"] v(8) have "list_all proper receipts" by simp
  then have "finite_json (JArr receipts)" using v(9) finite_receipt by (auto simp: list_all_iff)
  moreover have "finite_json (dict_get root ''scheduled_window'')" "finite_json (dict_get root ''safety'')"
    by (rule finite_window [OF v(6) each], rule finite_safety [OF v(10) each])
  ultimately have "finite_json (dict_get root k)" if "k \<in> set ROOT_KEYS" for k
    using that v(3,7,8) finite_text(1) [OF v(4)] finite_text(2) [OF v(5)] finite_texts by (auto simp: ROOT_KEYS_def)
  then show ?thesis using finite_object [OF _ v(2)] assms(2) v(1) by blast
qed

lemma finite_envelope:
  assumes "sound_manifest (JObj root) lanes receipts" and "proper (JObj root)"
  shows "finite_json (envelope (facts_of_sound root lanes receipts))"
proof -
  have each: "finite_json (dict_get root k)" for k
    using sound_finite [OF assms] by (auto simp: dict_get_def list_all_iff split: option.split dest!: map_of_SomeD)
  moreover have "finite_json (JArr receipts)"
    using each [of "''receipts''"] assms(1) by (auto simp: sound_manifest_def)
  ultimately show ?thesis
    using each by (simp add: envelope_def facts_of_sound_def opt_str_def scanned list_all_iff)
qed

section \<open>What the report says\<close>

lemma returns_list_between [returns_intros]: "returns (list_between v lo hi message)"
  unfolding list_between_def by (intro returns_intros)

lemma returns_check_window [returns_intros]: "returns (check_window v)"
  unfolding check_window_def by (intro returns_intros)

lemma returns_check_expected [returns_intros]: "returns (check_expected v)"
proof -
  have [returns_intros]: "returns (scan_expected ids ir)" for ids ir
    unfolding scan_expected_def by (cases ir) (auto intro!: returns_intros)
  show ?thesis unfolding check_expected_def by (intro returns_intros)
qed

lemma returns_scan_receipt [returns_intros]: "returns (scan_receipt start finish st ir)"
  unfolding scan_receipt_def scan_id_def scan_status_def scan_times_def scan_identity_def scan_result_def Let_def
  by (cases ir) (simp only: prod.case, intro returns_intros)

lemma returns_check_safety [returns_intros]: "returns (check_safety v)"
proof -
  have [returns_intros]: "returns (scan_note u ir)" "returns (check_flag d u key)" for u ir d key
    unfolding scan_note_def check_flag_def by (cases ir, auto intro!: returns_intros)
  show ?thesis unfolding check_safety_def by (intro returns_intros)
qed

lemma returns_lane_facts: "returns (lane_facts_of v)"
proof -
  have [returns_intros]: "(\<And>a b. returns (g a b)) \<Longrightarrow> returns (case p of (a, b) \<Rightarrow> g a b)" for g :: "'x \<Rightarrow> 'y \<Rightarrow> 'z diag" and p
    by (cases p) simp
  show ?thesis unfolding lane_facts_of_def Let_def by (intro returns_intros)
qed

lemma sound_ready:
  assumes "sound_manifest v lanes receipts" and "v = JObj root"
  shows "lane_ready (facts_of_sound root lanes receipts) [] \<longleftrightarrow> list_all receipt_ready receipts"
proof -
  have "field_text ''lane_id'' ` set receipts = set lanes" using assms(1) by (simp only: sound_manifest_def) blast
  then show ?thesis
    by (auto simp: lane_ready_def facts_of_sound_def scanned filter_empty_conv list_all_iff)
qed

lemma sound_unique:
  "sound_manifest v lanes receipts \<Longrightarrow> sound_manifest v lanes' receipts' \<Longrightarrow> lanes = lanes' \<and> receipts = receipts'"
  unfolding sound_manifest_def using inj_map_eq_map [of JStr lanes lanes'] by (auto simp: inj_on_def)

lemma not_sound_report:
  assumes "validate_lane_manifest v = Inr rep" and "\<nexists>lanes receipts. sound_manifest v lanes receipts"
  shows "\<not> lr_valid rep \<and> \<not> lr_ready rep"
proof -
  obtain lf es where run: "lane_facts_of v = Inr (lf, es)"
    using returns_lane_facts [of v] by (auto simp: returns_def)
  have "es \<noteq> []" using assms(2) run clean_lane_facts [of v lf] by (auto simp: clean_def)
  then have "lr_valid rep = False" "lr_ready rep = lane_ready lf es" using assms(1)
    by (auto simp: validate_lane_manifest_def run Let_def split del: if_split) (simp split: if_splits)
  then show ?thesis using \<open>es \<noteq> []\<close> by (simp add: lane_ready_def)
qed

lemma sound_report:
  assumes "sound_manifest v lanes receipts" and "proper v" and "validate_lane_manifest v = Inr rep"
  shows "lr_valid rep" and "lr_ready rep \<longleftrightarrow> list_all receipt_ready receipts"
    and "lr_manifest_sha256 rep = Some (sha256_hexdigest (canonical v))"
    and "lr_expected_count rep = length lanes" and "lr_receipt_count rep = length lanes"
    and "lr_blocking rep = sort (map (field_text ''lane_id'') (filter (\<lambda>r. \<not> receipt_ready r) receipts))"
proof -
  obtain root where root: "v = JObj root" using assms(1) by (auto simp: sound_manifest_def)
  define lf where "lf = facts_of_sound root lanes receipts"
  have "clean (lane_facts_of v) lf" using assms(1) root clean_lane_facts lf_def by blast
  then have run: "lane_facts_of v = Inr (lf, [])" by (simp add: clean_def)
  have "finite_json (envelope lf)" unfolding lf_def by (rule finite_envelope) (use assms root in simp_all)
  then have digests: "canonical_sha256 v = Some (sha256_hexdigest (canonical v))"
    "canonical_sha256 (envelope lf) = Some (sha256_hexdigest (canonical (envelope lf)))"
    using sound_finite [OF assms(1,2)] by (simp_all add: canonical_sha256_def)
  have rep: "rep = \<lparr>lr_valid = True, lr_ready = lane_ready lf [], lr_briefing = lf_briefing lf,
       lr_manifest_sha256 = Some (sha256_hexdigest (canonical v)),
       lr_envelope_sha256 = Some (sha256_hexdigest (canonical (envelope lf))), lr_expected_count = length (lf_expected lf),
       lr_receipt_count = length (lf_receipts lf),
       lr_blocking = sort (remdups (ls_blocking (lf_scan lf))), lr_errors = []\<rparr>"
    using assms(3) by (simp add: validate_lane_manifest_def run digests Let_def)
  have fields: "distinct lanes" "distinct (map (field_text ''lane_id'') receipts)"
    "field_text ''lane_id'' ` set receipts = set lanes" using assms(1) by (simp_all only: sound_manifest_def) blast+
  then have long: "length receipts = length lanes" using one_each(2) [OF fields(1,2)] by simp
  show "lr_valid rep" "lr_manifest_sha256 rep = Some (sha256_hexdigest (canonical v))"
    "lr_expected_count rep = length lanes" "lr_receipt_count rep = length lanes"
    by (simp_all add: rep lf_def facts_of_sound_def long)
  show "lr_ready rep \<longleftrightarrow> list_all receipt_ready receipts"
    using sound_ready [OF assms(1) root] by (simp add: rep lf_def)
  have "distinct (map (field_text ''lane_id'') (filter (\<lambda>r. \<not> receipt_ready r) receipts))"
    using fields(2) by (rule distinct_map_filter)
  then show "lr_blocking rep = sort (map (field_text ''lane_id'') (filter (\<lambda>r. \<not> receipt_ready r) receipts))"
    by (simp add: rep lf_def facts_of_sound_def scanned distinct_remdups_id)
qed

text \<open>
  The limit of the stack: the walk over the document, which comes first, fails exactly where the document
  is nested deeper than the frames left.
\<close>

definition validate_lane_within :: "nat \<Rightarrow> json \<Rightarrow> lane_report result" where
  "validate_lane_within frames v = bindE (walk_within frames FORBIDDEN_KEYS v ''$'') (\<lambda>_. validate_lane_manifest v)"

lemma lane_walk_limit:
  "validate_lane_within frames v = (if nesting v \<le> frames then validate_lane_manifest v else Inl RecursionError)"
  by (simp add: validate_lane_within_def walk_within_eq)

text \<open>
  C28. \<^verbatim>\<open>validate_lane_manifest\<close> returns a report for every document read from JSON that is not nested deeper
  than the interpreter's stack (\<open>lane_walk_limit\<close> states that limit). The report is valid
  exactly when the document is a sound manifest (each expected lane has one receipt, whose observation
  lies inside the window, no operation and no path is used twice, nothing is authorised), and it says
  that a briefing may be composed exactly when, besides, every receipt is ready. The blocking lanes of a
  sound manifest are those whose receipts are not ready, in order, and its digest covers the whole document.
\<close>

theorem lane_ready_exact:
  assumes "proper v"
  shows "\<exists>rep. validate_lane_manifest v = Inr rep \<and>
    (lr_valid rep \<longleftrightarrow> (\<exists>lanes receipts. sound_manifest v lanes receipts)) \<and>
    (lr_ready rep \<longleftrightarrow> (\<exists>lanes receipts. sound_manifest v lanes receipts \<and> list_all receipt_ready receipts)) \<and>
    (\<forall>lanes receipts. sound_manifest v lanes receipts \<longrightarrow>
       lr_blocking rep = sort (map (field_text ''lane_id'') (filter (\<lambda>r. \<not> receipt_ready r) receipts)) \<and>
       lr_expected_count rep = length lanes \<and> lr_receipt_count rep = length lanes \<and>
       lr_manifest_sha256 rep = Some (sha256_hexdigest (canonical v)))"
proof -
  obtain lf es where "lane_facts_of v = Inr (lf, es)"
    using returns_lane_facts [of v] by (auto simp: returns_def)
  then obtain rep where rep: "validate_lane_manifest v = Inr rep" by (simp add: validate_lane_manifest_def Let_def)
  show ?thesis
  proof (cases "\<exists>lanes receipts. sound_manifest v lanes receipts")
    case True
    then obtain lanes receipts where sound: "sound_manifest v lanes receipts" by blast
    show ?thesis using rep sound sound_report [OF sound assms rep] sound_unique [OF sound] by metis
  next
    case False
    then show ?thesis using not_sound_report [OF rep] rep by blast
  qed
qed

section \<open>A sample manifest\<close>

definition sample_lane_fields :: pydict where
  "sample_lane_fields = [(''lane_id'', JStr ''github''), (''status'', JStr ''success''),
     (''observed_at'', JStr (sample_text 9 12)), (''producer_commit'', JStr (replicate 40 (CHR ''1''))),
     (''schema_version'', JStr ''github-lane/v1''), (''source_cursor_sha256'', JStr digest_a),
     (''result_sha256'', JStr digest_b), (''result_bytes'', JInt 480), (''item_count'', JInt 8),
     (''operation_id'', JStr digest_a), (''path_identity'', JStr digest_b),
     (''retained_until'', JStr (sample_text 10 12)), (''reason_code'', JNull)]"

definition sample_window :: json where
  "sample_window = JObj [(''start'', JStr (sample_text 9 7)), (''end'', JStr (sample_text 9 23)),
     (''timezone'', JStr ''America/New_York'')]"

definition sample_safety_fields :: pydict where
  "sample_safety_fields = [(''contains_source_payloads'', JBool False), (''contains_credentials'', JBool False),
       (''delivery_authorized'', JBool False), (''notes'', JArr (map JStr [''Normalized metadata only.'']))]"

definition sample_safety :: json where
  "sample_safety = JObj sample_safety_fields"

definition sample_root :: pydict where
  "sample_root = [(''schema_version'', JStr LANE_SCHEMA), (''briefing_id'', JStr ''portfolio-briefing''),
     (''scheduled_window'', sample_window), (''policy_sha256'', JStr digest_a),
     (''expected_lanes'', JArr (map JStr [''github''])), (''receipts'', JArr [JObj sample_lane_fields]), (''safety'', sample_safety)]"

definition sample_manifest :: json where
  "sample_manifest = JObj sample_root"

lemma sample_matches: "is_sha256_text digest_a" "is_sha256_text digest_b" "is_commit_text (replicate 40 (CHR ''1''))"
  "is_slug_text ''github''" "is_slug_text ''portfolio-briefing''"
  by code_simp+

lemma sample_lane_sound:
  "sound_receipt (instant (sample_hour 9 7)) (instant (sample_hour 9 23)) (JObj sample_lane_fields)"
proof -
  have "sound_times sample_lane_fields (instant (sample_hour 9 7)) (instant (sample_hour 9 23))"
    unfolding sound_times_def matched_at_def
    using sample_instant [of 9 12] sample_instant [of 10 12] sample_hours_ordered
    by (intro exI [of _ "instant (sample_hour 9 12)"] exI [of _ "instant (sample_hour 10 12)"] conjI)
      (auto simp: sample_lane_fields_def)
  moreover have "sound_result sample_lane_fields ''success''"
    using sample_matches by (simp add: sound_result_def READY_STATUSES_def matched_at_def sample_lane_fields_def)
  moreover have "set (dict_keys sample_lane_fields) = set RECEIPT_KEYS"
    by (simp add: dict_keys_def sample_lane_fields_def RECEIPT_KEYS_def)
  ultimately show ?thesis
    using sample_matches
    by (simp add: sound_receipt_def text_at_def matched_at_def str_at_def py_str_def bounded_text_def sample_lane_fields_def
        TERMINAL_LANE_STATUSES_def READY_STATUSES_def)
qed

lemma sample_window_sound: "sound_window sample_window (instant (sample_hour 9 7)) (instant (sample_hour 9 23))"
  using sample_instant [of 9 7] sample_instant [of 9 23] sample_hours_ordered
  by (simp add: sound_window_def sample_window_def matched_at_def text_at_def bounded_text_def dict_keys_def WINDOW_KEYS_def)

lemma open_lane_root_keys: "list_all (\<lambda>k. casefold k \<notin> set FORBIDDEN_KEYS) ROOT_KEYS"
  by code_simp

lemma open_lane_window_keys: "list_all (\<lambda>k. casefold k \<notin> set FORBIDDEN_KEYS) WINDOW_KEYS"
  by code_simp

lemma open_lane_receipt_keys: "list_all (\<lambda>k. casefold k \<notin> set FORBIDDEN_KEYS) RECEIPT_KEYS"
  by code_simp

lemma open_lane_safety_keys: "list_all (\<lambda>k. casefold k \<notin> set FORBIDDEN_KEYS) SAFETY_KEYS"
  by code_simp

lemma sample_walk: "walk_safe FORBIDDEN_KEYS sample_manifest ''$'' = []"
proof (rule tame_walk(1))
  have short: "length digest_a \<le> MAX_TEXT" "length digest_b \<le> MAX_TEXT" by (simp_all add: digest_a_def digest_b_def MAX_TEXT_def)
  have keys: "list_all (\<lambda>k. casefold k \<notin> set FORBIDDEN_KEYS) (ROOT_KEYS @ WINDOW_KEYS @ RECEIPT_KEYS @ SAFETY_KEYS)"
    using open_lane_root_keys open_lane_window_keys open_lane_receipt_keys open_lane_safety_keys by simp
  show "tame FORBIDDEN_KEYS sample_manifest"
    using short keys sample_text_short
    by (simp add: sample_manifest_def sample_root_def sample_window_def sample_safety_def sample_safety_fields_def sample_lane_fields_def ROOT_KEYS_def WINDOW_KEYS_def
        RECEIPT_KEYS_def SAFETY_KEYS_def LANE_SCHEMA_def not_less) (simp add: MAX_TEXT_def)
qed

lemma sample_manifest_sound: "sound_manifest sample_manifest [''github''] [JObj sample_lane_fields]"
proof -
  have lane: "field_text ''lane_id'' (JObj sample_lane_fields) = ''github''"
    by (simp add: field_text_def str_at_def py_str_def sample_lane_fields_def)
  have safety: "sound_safety sample_safety"
    unfolding sound_safety_def
    by (intro exI [of _ "[''Normalized metadata only.'']"] exI [of _ sample_safety_fields])
      (simp add: sample_safety_def sample_safety_fields_def dict_keys_def SAFETY_KEYS_def bounded_text_def)
  show ?thesis
    unfolding sound_manifest_def
  proof (intro exI conjI)
    show "sample_manifest = JObj sample_root" by (simp only: sample_manifest_def)
    show "walk_safe FORBIDDEN_KEYS sample_manifest ''$'' = []" by (rule sample_walk)
    show "sound_window (dict_get sample_root ''scheduled_window'') (instant (sample_hour 9 7)) (instant (sample_hour 9 23))"
      using sample_window_sound by (simp add: sample_root_def)
    show "list_all (sound_receipt (instant (sample_hour 9 7)) (instant (sample_hour 9 23))) [JObj sample_lane_fields]"
      using sample_lane_sound by simp
    show "sound_safety (dict_get sample_root ''safety'')" using safety by (simp add: sample_root_def)
  qed (use sample_matches lane in \<open>simp_all add: sample_root_def dict_keys_def ROOT_KEYS_def text_at_def matched_at_def
      str_at_def py_str_def bounded_text_def\<close>)
qed

lemma lane_ready_exact_witness:
  "\<exists>rep. validate_lane_manifest sample_manifest = Inr rep \<and> lr_valid rep \<and> lr_ready rep \<and> lr_blocking rep = []"
proof -
  have "proper sample_manifest"
    by (simp add: sample_manifest_def sample_root_def sample_window_def sample_safety_def sample_safety_fields_def sample_lane_fields_def dict_keys_def)
  moreover have "receipt_ready (JObj sample_lane_fields)"
    by (simp add: receipt_ready_def sample_lane_fields_def READY_STATUSES_def)
  ultimately show ?thesis using lane_ready_exact [of sample_manifest] sample_manifest_sound by fastforce
qed

end
