(* ===== verification/DependencyGraph.thy ===== *)
theory DependencyGraph
  imports Prelude
begin

text \<open>
  The depth-first search for dependency cycles, \<^verbatim>\<open>_find_cycles\<close> of
  \<^verbatim>\<open>src/scripts/portfolio_remediation_queue.py\<close>; \<^verbatim>\<open>digest_provenance.py\<close> and
  \<^verbatim>\<open>zed_clean_consumer_receipt.py\<close> have the same search. A graph is the dictionary from a node to the
  nodes it depends on, in the order of insertion.

  \<^verbatim>\<open>visit\<close> calls itself, so the interpreter's limit on nested calls is part of what it does: \<open>frames\<close>
  is the number of calls of \<^verbatim>\<open>visit\<close> the limit leaves room for, and a deeper search raises
  \<^verbatim>\<open>RecursionError\<close>.
\<close>

type_synonym graph = "(string \<times> string list) list"

abbreviation nodes :: "graph \<Rightarrow> string set" where
  "nodes g \<equiv> fst ` set g"

text \<open>\<^verbatim>\<open>graph.get(node, ())\<close>.\<close>

definition dependencies_of :: "graph \<Rightarrow> string \<Rightarrow> string list" where
  "dependencies_of g node = (case map_of g node of None \<Rightarrow> [] | Some ds \<Rightarrow> ds)"

record search =
  dfs_visiting :: "string list"
  dfs_visited :: "string list"
  dfs_cycles :: "string list"

text \<open>\<^verbatim>\<open>stack[stack.index(node):] + [node]\<close>, as the message has it.\<close>

definition cycle_from :: "string list \<Rightarrow> string \<Rightarrow> string list" where
  "cycle_from stack node = dropWhile ((\<noteq>) node) stack @ [node]"

definition arrows :: "string list \<Rightarrow> string" where
  "arrows = join_with '' -> ''"

primrec visit :: "nat \<Rightarrow> graph \<Rightarrow> string \<Rightarrow> string list \<Rightarrow> search \<Rightarrow> search result" where
  "visit 0 g node stack st = Inl RecursionError"
| "visit (Suc frames) g node stack st =
     (if node \<in> set (dfs_visited st) then Inr st
      else if node \<in> set (dfs_visiting st) then
        Inr (st\<lparr>dfs_cycles := dfs_cycles st @ [arrows (cycle_from stack node)]\<rparr>)
      else bindE (foldE (\<lambda>s dependency. if dependency \<in> nodes g then visit frames g dependency (stack @ [node]) s else Inr s)
            (st\<lparr>dfs_visiting := node # dfs_visiting st\<rparr>) (dependencies_of g node))
          (\<lambda>s. Inr (s\<lparr>dfs_visiting := remove1 node (dfs_visiting s), dfs_visited := node # dfs_visited s\<rparr>)))"

definition find_cycles :: "nat \<Rightarrow> graph \<Rightarrow> string list result" where
  "find_cycles frames g =
     bindE (foldE (\<lambda>s (node, _). visit frames g node [] s)
       \<lparr>dfs_visiting = [], dfs_visited = [], dfs_cycles = []\<rparr> g) (\<lambda>s. Inr (dfs_cycles s))"

section \<open>Walks\<close>

definition edge :: "graph \<Rightarrow> string \<Rightarrow> string \<Rightarrow> bool" where
  "edge g x y \<longleftrightarrow> y \<in> set (dependencies_of g x) \<and> y \<in> nodes g"

definition edges :: "graph \<Rightarrow> (string \<times> string) set" where
  "edges g = {(x, y). edge g x y}"

lemma edge_nodes: "edge g x y \<Longrightarrow> x \<in> nodes g \<and> y \<in> nodes g"
  by (cases "map_of g x") (auto simp: edge_def dependencies_of_def dest: map_of_SomeD intro: rev_image_eqI)

text \<open>A closed walk: at least one edge, and it ends where it starts.\<close>

definition is_cycle :: "graph \<Rightarrow> string list \<Rightarrow> bool" where
  "is_cycle g c \<longleftrightarrow> 2 \<le> length c \<and> hd c = last c \<and> successively (edge g) c"

lemma walk_reaches:
  "successively (edge g) (x # xs) \<Longrightarrow> xs \<noteq> [] \<Longrightarrow> (x, last xs) \<in> (edges g)\<^sup>+"
proof (induction xs arbitrary: x)
  case (Cons y ys)
  then have "(x, y) \<in> edges g" by (simp add: edges_def)
  then show ?case using Cons.IH [of y] Cons.prems by (cases ys) (auto intro: trancl_into_trancl2)
qed simp

lemma cycle_cyclic:
  assumes "is_cycle g c"
  shows "\<not> acyclic (edges g)"
proof -
  obtain x xs where "c = x # xs" "xs \<noteq> []" using assms by (cases c; cases "tl c") (auto simp: is_cycle_def)
  moreover from this have "last xs = x" "successively (edge g) (x # xs)" using assms by (auto simp: is_cycle_def)
  ultimately have "(x, x) \<in> (edges g)\<^sup>+" using walk_reaches [of g x xs] by simp
  then show ?thesis by (auto simp: acyclic_def)
qed

lemma cycle_from_cycle:
  assumes "successively (edge g) stack" and "node \<in> set stack" and "edge g (last stack) node"
  shows "is_cycle g (cycle_from stack node)"
proof -
  define r where "r = dropWhile ((\<noteq>) node) stack"
  obtain p where p: "stack = p @ r" unfolding r_def by (metis takeWhile_dropWhile_id)
  have r: "r \<noteq> []" using assms(2) by (auto simp: r_def dropWhile_eq_Nil_conv)
  moreover from r have "hd r = node" using hd_dropWhile [of "(\<noteq>) node" stack] by (simp add: r_def)
  moreover have "successively (edge g) (r @ [node])"
    using assms(1,3) r by (simp add: p successively_append_iff)
  ultimately show ?thesis
    by (cases r) (auto simp: is_cycle_def cycle_from_def r_def [symmetric] Suc_le_eq)
qed

text \<open>An order in which every node comes after the nodes it depends on, latest first.\<close>

fun finishing_order :: "graph \<Rightarrow> string list \<Rightarrow> bool" where
  "finishing_order g [] \<longleftrightarrow> True"
| "finishing_order g (v # vs) \<longleftrightarrow> v \<notin> set vs \<and> (\<forall>w. edge g v w \<longrightarrow> w \<in> set vs) \<and> finishing_order g vs"

lemma finishing_order_closed:
  "finishing_order g vs \<Longrightarrow> v \<in> set vs \<Longrightarrow> edge g v w \<Longrightarrow> w \<in> set vs"
  by (induction vs) auto

lemma finishing_order_acyclic:
  assumes "finishing_order g vs"
  shows "v \<in> set vs \<Longrightarrow> (v, v) \<notin> (edges g)\<^sup>+"
  using assms
proof (induction vs arbitrary: v)
  case (Cons u us)
  have closed: "w \<in> set us" if "(x, w) \<in> (edges g)\<^sup>+" "x \<in> set us" for x w
    using that by (induction rule: trancl_induct) (use Cons.prems(2) finishing_order_closed in \<open>auto simp: edges_def\<close>)
  have "(u, u) \<notin> (edges g)\<^sup>+"
  proof
    assume "(u, u) \<in> (edges g)\<^sup>+"
    then obtain w where "edge g u w" "w = u \<or> (w, u) \<in> (edges g)\<^sup>+"
      by (auto simp: edges_def elim: converse_tranclE)
    then show False using closed [of w u] Cons.prems(2) by auto
  qed
  then show ?case using Cons by auto
qed simp


section \<open>What the search keeps\<close>

text \<open>
  \<open>searching g stack s\<close>: the nodes being visited are those of the stack, which is a walk; what was
  reported are cycles; and as long as nothing was reported, the visited nodes are in finishing order.
\<close>

definition searching :: "graph \<Rightarrow> string list \<Rightarrow> search \<Rightarrow> bool" where
  "searching g stack s \<longleftrightarrow> dfs_visiting s = rev stack \<and> distinct stack \<and> set stack \<subseteq> nodes g \<and>
     successively (edge g) stack \<and> set stack \<inter> set (dfs_visited s) = {} \<and>
     (\<forall>c \<in> set (dfs_cycles s). \<exists>w. c = arrows w \<and> is_cycle g w) \<and>
     (dfs_cycles s = [] \<longrightarrow> finishing_order g (dfs_visited s))"

text \<open>What a call does to the state beside: it forgets nothing it has seen or reported.\<close>

definition extends :: "search \<Rightarrow> search \<Rightarrow> bool" where
  "extends s t \<longleftrightarrow> set (dfs_visited s) \<subseteq> set (dfs_visited t) \<and> (dfs_cycles t = [] \<longrightarrow> dfs_cycles s = [])"

lemma extends_refl [simp]: "extends s s"
  by (simp add: extends_def)

lemma extends_trans: "extends s t \<Longrightarrow> extends t u \<Longrightarrow> extends s u"
  by (auto simp: extends_def)

lemma node_visit_keeps:
  assumes "visit n g node stack s = Inr t" and "searching g stack s" and "node \<in> nodes g"
    and "stack \<noteq> [] \<longrightarrow> edge g (last stack) node"
  shows "searching g stack t \<and> extends s t \<and> (dfs_cycles t = [] \<longrightarrow> node \<in> set (dfs_visited t))"
  using assms
proof (induction n arbitrary: node stack s t)
  case (Suc n)
  note keeps = Suc.prems(2) [unfolded searching_def]
  show ?case
  proof (cases "node \<in> set (dfs_visited s) \<or> node \<in> set (dfs_visiting s)")
    case True
    show ?thesis
    proof (cases "node \<in> set (dfs_visited s)")
      case True
      then show ?thesis using Suc.prems by auto
    next
      case False
      with True have "node \<in> set stack" "stack \<noteq> []" using keeps by auto
      then have "is_cycle g (cycle_from stack node)" using keeps Suc.prems(4) by (intro cycle_from_cycle) auto
      moreover have "t = s\<lparr>dfs_cycles := dfs_cycles s @ [arrows (cycle_from stack node)]\<rparr>"
        using Suc.prems(1) True False by simp
      ultimately show ?thesis using keeps by (auto simp: searching_def extends_def)
    qed
  next
    case fresh: False
    define body where "body = (\<lambda>u dependency. if dependency \<in> nodes g then visit n g dependency (stack @ [node]) u else Inr u)"
    define s0 where "s0 = s\<lparr>dfs_visiting := node # dfs_visiting s\<rparr>"
    from Suc.prems(1) fresh obtain u where u: "foldE body s0 (dependencies_of g node) = Inr u"
      "t = u\<lparr>dfs_visiting := remove1 node (dfs_visiting u), dfs_visited := node # dfs_visited u\<rparr>"
      by (auto simp: body_def s0_def)
    have s0: "searching g (stack @ [node]) s0"
      using keeps fresh Suc.prems(3,4) by (auto simp: searching_def s0_def successively_append_iff)
    have step: "searching g (stack @ [node]) w \<and> extends v w \<and> (dfs_cycles w = [] \<longrightarrow> edge g node d \<longrightarrow> d \<in> set (dfs_visited w))"
      if "body v d = Inr w" "d \<in> set (dependencies_of g node)" "searching g (stack @ [node]) v" for v w d
    proof (cases "d \<in> nodes g")
      case True
      with that(2) have "edge g node d" by (simp add: edge_def)
      with Suc.IH [of d "stack @ [node]" v w] that True show ?thesis by (simp add: body_def)
    next
      case False
      then have "\<not> edge g node d" using edge_nodes by blast
      with False that show ?thesis by (simp add: body_def)
    qed
    have loop: "searching g (stack @ [node]) w \<and> extends v w \<and>
        (dfs_cycles w = [] \<longrightarrow> (\<forall>d \<in> set ds. edge g node d \<longrightarrow> d \<in> set (dfs_visited w)))"
      if "foldE body v ds = Inr w" "set ds \<subseteq> set (dependencies_of g node)" "searching g (stack @ [node]) v" for v w ds
      using that
    proof (induction ds arbitrary: v)
      case (Cons d ds)
      then obtain x where x: "body v d = Inr x" "foldE body x ds = Inr w" by auto
      note one = step [OF x(1) _ Cons.prems(3)]
      from Cons.IH [OF x(2)] one Cons.prems(2) show ?case
        by (auto simp: extends_def)
    qed simp
    from loop [OF u(1) _ s0] have *: "searching g (stack @ [node]) u" "extends s0 u"
      "dfs_cycles u = [] \<Longrightarrow> \<forall>d \<in> set (dependencies_of g node). edge g node d \<longrightarrow> d \<in> set (dfs_visited u)"
      by simp_all
    have "edge g node d \<Longrightarrow> d \<in> set (dependencies_of g node)" for d by (simp add: edge_def)
    with * have "searching g stack t" by (auto simp: searching_def u(2) successively_append_iff)
    moreover have "extends s t" using *(2) by (auto simp: extends_def u(2) s0_def)
    ultimately show ?thesis by (simp add: u(2))
  qed
qed simp

section \<open>The search is exact\<close>

lemma find_cycles_sound:
  assumes "find_cycles n g = Inr cs"
  shows "(\<forall>c \<in> set cs. \<exists>w. c = arrows w \<and> is_cycle g w) \<and> (cs = [] \<longleftrightarrow> acyclic (edges g))"
proof -
  define body where "body = (\<lambda>s nd. visit n g (fst (nd :: string \<times> string list)) [] s)"
  define s0 :: search where "s0 = \<lparr>dfs_visiting = [], dfs_visited = [], dfs_cycles = []\<rparr>"
  have "(\<lambda>s (node, ds). visit n g node [] s) = body" by (intro ext) (simp add: body_def split: prod.split)
  with assms obtain t where t: "foldE body s0 g = Inr t" "cs = dfs_cycles t"
    by (auto simp: find_cycles_def s0_def)
  have loop: "searching g [] w \<and> extends v w \<and> (dfs_cycles w = [] \<longrightarrow> fst ` set ns \<subseteq> set (dfs_visited w))"
    if "foldE body v ns = Inr w" "set ns \<subseteq> set g" "searching g [] v" for v w ns
    using that
  proof (induction ns arbitrary: v)
    case (Cons nd ns)
    then obtain x where x: "body v nd = Inr x" "foldE body x ns = Inr w" by auto
    have "searching g [] x \<and> extends v x \<and> (dfs_cycles x = [] \<longrightarrow> fst nd \<in> set (dfs_visited x))"
      using x(1) Cons.prems(2,3) unfolding body_def by (intro node_visit_keeps) auto
    with Cons.IH [OF x(2)] Cons.prems(2) show ?case by (auto simp: extends_def)
  qed simp
  have "searching g [] s0" by (simp add: searching_def s0_def)
  with loop [OF t(1)] have *: "searching g [] t" "dfs_cycles t = [] \<Longrightarrow> nodes g \<subseteq> set (dfs_visited t)" by auto
  have cycles: "\<forall>c \<in> set cs. \<exists>w. c = arrows w \<and> is_cycle g w" using *(1) t(2) by (simp add: searching_def)
  moreover have "cs = [] \<longleftrightarrow> acyclic (edges g)"
  proof
    assume "cs = []"
    then have order: "finishing_order g (dfs_visited t)" and cover: "nodes g \<subseteq> set (dfs_visited t)"
      using * t(2) by (simp_all add: searching_def)
    have "(x, x) \<notin> (edges g)\<^sup>+" for x
    proof
      assume x: "(x, x) \<in> (edges g)\<^sup>+"
      then have "x \<in> nodes g" by (auto simp: edges_def dest!: tranclD edge_nodes)
      with cover have "x \<in> set (dfs_visited t)" by blast
      with finishing_order_acyclic [OF order] x show False by blast
    qed
    then show "acyclic (edges g)" by (simp add: acyclic_def)
  next
    assume "acyclic (edges g)"
    then show "cs = []" using cycles cycle_cyclic by (cases cs) auto
  qed
  ultimately show ?thesis by blast
qed

text \<open>A frame for every node is enough: the stack never holds a node twice.\<close>

lemma node_visit_returns:
  assumes "card (nodes g) < n + length stack" and "searching g stack s" and "node \<in> nodes g"
    and "stack \<noteq> [] \<longrightarrow> edge g (last stack) node"
  shows "\<exists>t. visit n g node stack s = Inr t"
  using assms
proof (induction n arbitrary: node stack s)
  case 0
  then have "length stack \<le> card (nodes g)"
    using distinct_card [of stack] card_mono [of "nodes g" "set stack"] by (auto simp: searching_def)
  with 0 show ?case by simp
next
  case (Suc n)
  show ?case
  proof (cases "node \<in> set (dfs_visited s) \<or> node \<in> set (dfs_visiting s)")
    case fresh: False
    define body where "body = (\<lambda>u dependency. if dependency \<in> nodes g then visit n g dependency (stack @ [node]) u else Inr u)"
    define s0 where "s0 = s\<lparr>dfs_visiting := node # dfs_visiting s\<rparr>"
    have s0: "searching g (stack @ [node]) s0"
      using Suc.prems(2-4) fresh by (auto simp: searching_def s0_def successively_append_iff)
    have step: "\<exists>w. body v d = Inr w \<and> searching g (stack @ [node]) w"
      if "d \<in> set (dependencies_of g node)" "searching g (stack @ [node]) v" for v d
    proof (cases "d \<in> nodes g")
      case True
      with that(1) have edge: "edge g node d" by (simp add: edge_def)
      note searched = that(2)
      obtain w where "visit n g d (stack @ [node]) v = Inr w"
        using Suc.IH [OF _ searched True] Suc.prems(1) edge by auto
      with node_visit_keeps [OF this that(2) True] edge True show ?thesis by (simp add: body_def)
    qed (use that in \<open>simp add: body_def\<close>)
    have "\<exists>w. foldE body v ds = Inr w"
      if "set ds \<subseteq> set (dependencies_of g node)" "searching g (stack @ [node]) v" for v ds
      using that
    proof (induction ds arbitrary: v)
      case (Cons d ds)
      then obtain w where "body v d = Inr w" "searching g (stack @ [node]) w" using step [of d v] by auto
      with Cons show ?case by auto
    qed simp
    from this [OF subset_refl s0] fresh show ?thesis by (auto simp: body_def s0_def)
  qed auto
qed

lemma find_cycles_returns:
  assumes "card (nodes g) < n"
  shows "\<exists>cs. find_cycles n g = Inr cs"
proof -
  define body where "body = (\<lambda>s nd. visit n g (fst (nd :: string \<times> string list)) [] s)"
  define s0 :: search where "s0 = \<lparr>dfs_visiting = [], dfs_visited = [], dfs_cycles = []\<rparr>"
  have body: "(\<lambda>s (node, ds). visit n g node [] s) = body" by (intro ext) (simp add: body_def split: prod.split)
  have "\<exists>w. foldE body v ns = Inr w" if "set ns \<subseteq> set g" "searching g [] v" for v ns
    using that
  proof (induction ns arbitrary: v)
    case (Cons nd ns)
    then have "fst nd \<in> nodes g" by auto
    with node_visit_returns [of g n "[]" v "fst nd"] assms Cons.prems obtain w where "body v nd = Inr w" by (auto simp: body_def)
    moreover from this have "searching g [] w" using node_visit_keeps [of n g "fst nd" "[]" v w] Cons.prems by (auto simp: body_def)
    ultimately show ?case using Cons by auto
  qed simp
  moreover have "searching g [] s0" by (simp add: searching_def s0_def)
  ultimately show ?thesis unfolding find_cycles_def body s0_def [symmetric] by (metis bindE_Inr subset_refl)
qed

section \<open>A chain that is too deep\<close>

text \<open>Node \<open>i\<close> depends on node \<open>i - 1\<close>, and the deepest node is listed first: there is no cycle.\<close>

definition chain_name :: "nat \<Rightarrow> string" where
  "chain_name i = ''item-'' @ str_nat i"

definition chain :: "nat \<Rightarrow> graph" where
  "chain n = map (\<lambda>i. (chain_name i, if i = 0 then [] else [chain_name (i - 1)])) (rev [0..<n])"

lemma chain_name_inject [simp]: "chain_name i = chain_name j \<longleftrightarrow> i = j"
  by (auto simp: chain_name_def) (metis digits_value_str_nat)

lemma map_of_chain: "map_of (chain n) (chain_name i) = (if i < n then Some (if i = 0 then [] else [chain_name (i - 1)]) else None)"
  by (induction n) (auto simp: chain_def)

lemma chain_nodes: "nodes (chain n) = chain_name ` {..<n}"
  by (force simp: chain_def)

lemma chain_acyclic: "acyclic (edges (chain n))"
proof -
  have one: "\<exists>i j. x = chain_name i \<and> y = chain_name j \<and> j < i" if "(x, y) \<in> edges (chain n)" for x y
  proof -
    have e: "edge (chain n) x y" using that by (simp add: edges_def)
    then obtain i j where ij: "x = chain_name i" "y = chain_name j" using edge_nodes [OF e] by (auto simp: chain_nodes)
    with e have "j < i" by (auto simp: edge_def dependencies_of_def map_of_chain split: if_splits)
    with ij show ?thesis by blast
  qed
  have "\<exists>i j. x = chain_name i \<and> y = chain_name j \<and> j < i" if "(x, y) \<in> (edges (chain n))\<^sup>+" for x y
    using that
  proof (induction rule: trancl_induct)
    case (step y z)
    then show ?case using one [of y z] by (metis chain_name_inject order_less_trans)
  qed (rule one)
  then show ?thesis by (force simp: acyclic_def)
qed

lemma visit_too_deep:
  assumes "m \<le> k" and "k < n" and "dfs_visited s = []" and "\<forall>i\<le>k. chain_name i \<notin> set (dfs_visiting s)"
  shows "visit m (chain n) (chain_name k) stack s = Inl RecursionError"
  using assms
proof (induction m arbitrary: k stack s)
  case (Suc m)
  then obtain j where j: "k = Suc j" by (cases k) auto
  have "visit m (chain n) (chain_name j) (stack @ [chain_name k]) (s\<lparr>dfs_visiting := chain_name k # dfs_visiting s\<rparr>) =
      Inl RecursionError"
    using Suc.prems j by (intro Suc.IH) auto
  moreover have "chain_name k \<notin> set (dfs_visiting s)" "chain_name j \<in> nodes (chain n)"
    using Suc.prems(2,4) j by (auto simp: chain_nodes)
  ultimately show ?case using Suc.prems(2,3) j by (simp add: dependencies_of_def map_of_chain)
qed simp

lemma chain_too_deep: "find_cycles n (chain (Suc n)) = Inl RecursionError"
proof -
  have "visit n (chain (Suc n)) (chain_name n) [] \<lparr>dfs_visiting = [], dfs_visited = [], dfs_cycles = []\<rparr> = Inl RecursionError"
    by (rule visit_too_deep) auto
  then show ?thesis by (simp add: find_cycles_def chain_def [of "Suc n"])
qed

text \<open>
  C32. \<^verbatim>\<open>_find_cycles\<close> returns for every dependency graph with fewer nodes than the interpreter has frames
  left. Whenever it returns, every entry is a cycle of the graph, written out, and there is none
  exactly when the dependencies are acyclic. The frames are needed: for every limit there is an acyclic
  graph with one node more on which the search raises \<^verbatim>\<open>RecursionError\<close>.
\<close>

theorem find_cycles_exact:
  "(card (nodes g) < frames \<longrightarrow> (\<exists>cs. find_cycles frames g = Inr cs)) \<and>
   (\<forall>cs. find_cycles frames g = Inr cs \<longrightarrow>
      (\<forall>c \<in> set cs. \<exists>w. c = arrows w \<and> is_cycle g w) \<and> (cs = [] \<longleftrightarrow> acyclic (edges g))) \<and>
   acyclic (edges (chain (Suc frames))) \<and> find_cycles frames (chain (Suc frames)) = Inl RecursionError"
  using find_cycles_returns find_cycles_sound chain_acyclic chain_too_deep by blast

definition sample_graph :: graph where
  "sample_graph = [(''a'', [''b'']), (''b'', [''c'', ''x'']), (''c'', [''b''])]"

lemma find_cycles_exact_witness:
  "find_cycles 4 sample_graph = Inr [''b -> c -> b''] \<and> \<not> acyclic (edges sample_graph)"
proof -
  have run: "find_cycles 4 sample_graph = Inr [''b -> c -> b'']" by code_simp
  with find_cycles_exact [of sample_graph 4] show ?thesis by auto
qed

end
