(* ===== verification/PyUrl.thy ===== *)
theory PyUrl
  imports PyRegex
begin

text \<open>
  \<^verbatim>\<open>urllib.parse.urlparse\<close> of the standard library (CPython 3.11 and 3.12, before the host of a
  bracketed address was checked for text around the brackets), for the code points below 256. An
  address in brackets must be an IPv6 address, which \<^verbatim>\<open>ipaddress\<close> parses; anything else raises
  \<^verbatim>\<open>ValueError\<close>. Below 256 the normalisation check of the host name never fails, since no
  compatibility form of these characters is one of the delimiters.
\<close>

section \<open>Searching strings\<close>

text \<open>\<^verbatim>\<open>s.partition(c)\<close>: the text before, whether the separator occurs, and the text after.\<close>

definition partition_at :: "char \<Rightarrow> string \<Rightarrow> string \<times> bool \<times> string" where
  "partition_at c s = (takeWhile ((\<noteq>) c) s, c \<in> set s, tl (dropWhile ((\<noteq>) c) s))"

text \<open>\<^verbatim>\<open>s.rpartition(c)\<close>.\<close>

definition rpartition_at :: "char \<Rightarrow> string \<Rightarrow> string \<times> bool \<times> string" where
  "rpartition_at c s = (if c \<in> set s then
       (rev (tl (dropWhile ((\<noteq>) c) (rev s))), True, rev (takeWhile ((\<noteq>) c) (rev s)))
     else ([], False, s))"

definition lstrip :: "(char \<Rightarrow> bool) \<Rightarrow> string \<Rightarrow> string" where
  "lstrip f s = dropWhile f s"

definition strip :: "(char \<Rightarrow> bool) \<Rightarrow> string \<Rightarrow> string" where
  "strip f s = rev (dropWhile f (rev (dropWhile f s)))"

section \<open>Addresses in brackets\<close>

definition is_hex :: "char \<Rightarrow> bool" where
  "is_hex c \<longleftrightarrow> is_digit c \<or> (97 \<le> code c \<and> code c \<le> 102) \<or> (65 \<le> code c \<and> code c \<le> 70)"

definition octet_ok :: "string \<Rightarrow> bool" where
  "octet_ok s \<longleftrightarrow> s \<noteq> [] \<and> list_all is_digit s \<and> length s \<le> 3 \<and> (s = ''0'' \<or> hd s \<noteq> CHR ''0'') \<and> digits_value s \<le> 255"

definition ipv4_ok :: "string \<Rightarrow> bool" where
  "ipv4_ok s \<longleftrightarrow> (let octets = split_on (CHR ''.'') s in length octets = 4 \<and> list_all octet_ok octets)"

definition hextet_ok :: "string \<Rightarrow> bool" where
  "hextet_ok s \<longleftrightarrow> s \<noteq> [] \<and> list_all is_hex s \<and> length s \<le> 4"

text \<open>The parts between the colons, where a last part in dotted notation stands for two.\<close>

definition hextets_ok :: "string list \<Rightarrow> bool" where
  "hextets_ok parts \<longleftrightarrow> length parts \<le> 9 \<and>
     (let skips = filter (\<lambda>i. parts ! i = []) [1..<length parts - 1] in
      case skips of
        [] \<Rightarrow> length parts = 8 \<and> list_all hextet_ok parts
      | [skip] \<Rightarrow>
          (let hi = skip - (if hd parts = [] then 1 else 0);
               lo = length parts - skip - 1 - (if last parts = [] then 1 else 0) in
           (hd parts = [] \<longrightarrow> hi = 0) \<and> (last parts = [] \<longrightarrow> lo = 0) \<and> hi + lo < 8 \<and>
           list_all hextet_ok (take hi parts) \<and> list_all hextet_ok (drop (length parts - lo) parts))
      | _ \<Rightarrow> False)"

definition ipv6_ok :: "string \<Rightarrow> bool" where
  "ipv6_ok s \<longleftrightarrow>
     (case partition_at (CHR ''%'') s of (address, scoped, scope) \<Rightarrow>
        \<not> (CHR ''/'' \<in> set s) \<and> (scoped \<longrightarrow> scope \<noteq> [] \<and> CHR ''%'' \<notin> set scope) \<and> address \<noteq> [] \<and>
        (let parts = split_on (CHR '':'') address in
         3 \<le> length parts \<and>
         (if CHR ''.'' \<in> set (last parts) then ipv4_ok (last parts) \<and> hextets_ok (butlast parts @ [''0'', ''0''])
          else hextets_ok parts)))"

text \<open>\<^verbatim>\<open>\Av[a-fA-F0-9]+\..+\Z\<close>, where the dot stands for anything but a newline.\<close>

definition future_ok :: "string \<Rightarrow> bool" where
  "future_ok s \<longleftrightarrow> (let version = takeWhile is_hex (tl s); rest = dropWhile is_hex (tl s) in
     version \<noteq> [] \<and> 2 \<le> length rest \<and> hd rest = CHR ''.'' \<and> CHR 0x0A \<notin> set (tl rest))"

definition bracketed_ok :: "string \<Rightarrow> bool" where
  "bracketed_ok s \<longleftrightarrow> (if is_prefix ''v'' s then future_ok s else \<not> ipv4_ok s \<and> ipv6_ok s)"

section \<open>\<^verbatim>\<open>urlparse\<close>\<close>

record url_parts =
  url_scheme :: string
  url_netloc :: string
  url_path :: string
  url_query :: string
  url_fragment :: string

definition is_scheme_char :: "char \<Rightarrow> bool" where
  "is_scheme_char c \<longleftrightarrow> is_alnum c \<or> c \<in> set ''+-.''"

definition split_scheme :: "string \<Rightarrow> string \<times> string" where
  "split_scheme s = (case partition_at (CHR '':'') s of (scheme, found, rest) \<Rightarrow>
     if found \<and> scheme \<noteq> [] \<and> is_letter (hd scheme) \<and> list_all is_scheme_char scheme then (lower scheme, rest) else ([], s))"

definition split_netloc :: "string \<Rightarrow> (string \<times> string) result" where
  "split_netloc s = (if is_prefix ''//'' s then
       (let stop = (\<lambda>c. c \<notin> set ''/?#''); netloc = takeWhile stop (drop 2 s); rest = dropWhile stop (drop 2 s);
            opens = CHR ''['' \<in> set netloc; closes = CHR '']'' \<in> set netloc;
            host = fst (partition_at (CHR '']'') (snd (snd (partition_at (CHR ''['') netloc)))) in
        if opens \<noteq> closes then Inl ValueError
        else if opens \<and> \<not> bracketed_ok host then Inl ValueError
        else Inr (netloc, rest))
     else Inr ([], s))"

text \<open>The parameters of the last segment, which every scheme used here may have.\<close>

definition split_params :: "string \<Rightarrow> string \<Rightarrow> string" where
  "split_params scheme path = (if scheme = ''https'' \<and> CHR '';'' \<in> set path then
       (case rpartition_at (CHR ''/'') path of (before_last, found, segment) \<Rightarrow>
          (if found then before_last @ ''/'' else []) @ fst (partition_at (CHR '';'') segment))
     else path)"

definition urlparse :: "string \<Rightarrow> url_parts result" where
  "urlparse text =
     (let s = filter (\<lambda>c. code c \<notin> {9, 10, 13}) (lstrip (\<lambda>c. code c \<le> 32) text) in
      case split_scheme s of (scheme, s1) \<Rightarrow>
      bindE (split_netloc s1) (\<lambda>(netloc, s2).
      (case partition_at (CHR ''#'') s2 of (s3, _, fragment) \<Rightarrow>
       case partition_at (CHR ''?'') s3 of (path, _, query) \<Rightarrow>
       Inr \<lparr>url_scheme = scheme, url_netloc = netloc, url_path = split_params scheme path, url_query = query,
         url_fragment = fragment\<rparr>)))"

text \<open>\<^verbatim>\<open>parsed.username is not None\<close>; a password needs one, too.\<close>

definition has_userinfo :: "url_parts \<Rightarrow> bool" where
  "has_userinfo u \<longleftrightarrow> CHR ''@'' \<in> set (url_netloc u)"

end
