(* ===== verification/RemediationQueue.thy ===== *)
theory RemediationQueue
  imports Diagnostics DependencyGraph PyUrl "HOL-Library.Product_Lexorder"
begin

text \<open>
  \<^verbatim>\<open>src/scripts/portfolio_remediation_queue.py\<close>: the read-only queue of findings over a portfolio of
  repositories. \<^verbatim>\<open>validate\<close> checks the inventory, the findings, their ranks and their dependencies, and
  that the queue authorises nothing. \<^verbatim>\<open>load\<close> reads a file and is not modelled.

  Two things the interpreter decides are arguments: \<open>order\<close>, the order in which it iterates over the
  set \<^verbatim>\<open>SCORE_KEYS\<close>, and \<open>frames\<close>, the depth of calls of the cycle search it allows.
\<close>

definition QUEUE_SCHEMA :: string where "QUEUE_SCHEMA = ''portfolio-remediation-queue/v1''"

definition QUEUE_KEYS :: "string list" where
  "QUEUE_KEYS = [''schema_version'', ''queue_id'', ''generated_at'', ''baseline'', ''repositories'', ''findings'', ''safety'']"

definition BASELINE_KEYS :: "string list" where
  "BASELINE_KEYS = [''observed_at'', ''catalog_sha256'', ''policy_sha256'', ''repository_count'']"

definition REPOSITORY_KEYS :: "string list" where
  "REPOSITORY_KEYS = [''repository'', ''visibility'', ''lifecycle'', ''canonical_role'', ''default_branch'', ''observed_head'',
     ''linear_project_url'', ''github_project_url'', ''agents_sha256'', ''toolchain'', ''ci_state'', ''security_policy'',
     ''license_spdx'', ''release_path'', ''test_maturity'', ''deployment_boundary'', ''expectation_profile'',
     ''current_state_sha256'']"

definition FINDING_KEYS :: "string list" where
  "FINDING_KEYS = [''id'', ''rank'', ''repository'', ''category'', ''state'', ''severity'', ''disposition'', ''evidence_sha256'',
     ''baseline_value_sha256'', ''current_value_sha256'', ''linear_anchor'', ''github_anchor'', ''owner'', ''duplicate_of'',
     ''depends_on'', ''scores'', ''remediation'']"

definition SCORE_KEYS :: "string list" where
  "SCORE_KEYS = [''security'', ''data_integrity'', ''user_impact'', ''dependency_centrality'', ''operational_risk'', ''effort'',
     ''test_evidence'']"

definition REMEDIATION_KEYS :: "string list" where
  "REMEDIATION_KEYS = [''branch_name'', ''base_commit'', ''acceptance_checks'', ''dry_run'', ''apply_authorized'', ''residual_risk'']"

definition FORBIDDEN_ACTIONS :: "string list" where
  "FORBIDDEN_ACTIONS = [''repository_creation_authorized'', ''visibility_changes_authorized'',
     ''branch_protection_changes_authorized'', ''merge_authorized'', ''deployment_authorized'', ''dns_changes_authorized'',
     ''database_changes_authorized'']"

definition QUEUE_SAFETY_KEYS :: "string list" where
  "QUEUE_SAFETY_KEYS = [''read_only'', ''dry_run'', ''repository_creation_authorized'', ''visibility_changes_authorized'',
     ''branch_protection_changes_authorized'', ''merge_authorized'', ''deployment_authorized'', ''dns_changes_authorized'',
     ''database_changes_authorized'', ''notes'']"

definition VISIBILITIES :: "string list" where "VISIBILITIES = [''public'', ''private'', ''internal'']"

definition LIFECYCLES :: "string list" where "LIFECYCLES = [''active'', ''archived'', ''superseded'', ''fork'']"

definition ROLES :: "string list" where
  "ROLES = [''interfaces'', ''clients'', ''lib_core'', ''orm_core'', ''sync'', ''web_server'', ''api_server'', ''flutter'',
     ''native_desktop'', ''lambdas'', ''infra'', ''monorepo'', ''tests'', ''docs'', ''governance'', ''package'', ''mcp'', ''cli'',
     ''control_plane'', ''other'']"

definition CI_STATES :: "string list" where "CI_STATES = [''present_green'', ''present_unknown'', ''missing'', ''exempt'']"

definition RELEASE_PATHS :: "string list" where
  "RELEASE_PATHS = [''none'', ''source_artifact'', ''native_artifact'', ''container'', ''site'', ''multiple'']"

definition TEST_MATURITIES :: "string list" where "TEST_MATURITIES = [''L0'', ''L1'', ''L2'', ''L3'', ''L4'', ''L5'']"

definition DEPLOYMENT_BOUNDARIES :: "string list" where
  "DEPLOYMENT_BOUNDARIES = [''none'', ''test'', ''production'', ''shared'']"

definition CATEGORIES :: "string list" where
  "CATEGORIES = [''missing_repository'', ''misplaced_repository'', ''instruction_drift'', ''ci_missing'',
     ''security_policy_missing'', ''license_missing'', ''release_gap'', ''test_maturity_gap'', ''deployment_isolation'',
     ''dependency_boundary'', ''branch_protection_drift'', ''stale_baseline'', ''ownership_unresolved'', ''duplicate_tracking'',
     ''visibility_mismatch'']"

definition FINDING_STATES :: "string list" where
  "FINDING_STATES = [''missing'', ''drifted'', ''superseded'', ''intentionally_exempt'', ''externally_blocked'',
     ''already_remediated'']"

definition SEVERITIES :: "string list" where "SEVERITIES = [''critical'', ''high'', ''medium'', ''low'']"

definition ACTIONABLE_DISPOSITIONS :: "string list" where "ACTIONABLE_DISPOSITIONS = [''draft_pr'', ''amend_existing'']"

definition NOOP_DISPOSITIONS :: "string list" where
  "NOOP_DISPOSITIONS = [''noop_completed'', ''noop_exempt'', ''noop_blocked'', ''noop_duplicate'']"

definition DISPOSITIONS :: "string list" where "DISPOSITIONS = ACTIONABLE_DISPOSITIONS @ NOOP_DISPOSITIONS"

definition CLOSED_STATES :: "string list" where
  "CLOSED_STATES = [''already_remediated'', ''intentionally_exempt'', ''superseded'']"

definition QUEUE_FORBIDDEN :: "string list" where
  "QUEUE_FORBIDDEN = [''access_token'', ''api_key'', ''authorization'', ''credential'', ''secret'', ''private_key'',
     ''raw_repository_payload'', ''apply_token'']"

definition severity_weight :: "string \<Rightarrow> int" where
  "severity_weight s = (if s = ''critical'' then 4 else if s = ''high'' then 3 else if s = ''medium'' then 2 else 1)"

definition disposition_tier :: "string \<Rightarrow> int" where
  "disposition_tier s = (if s \<in> set ACTIONABLE_DISPOSITIONS then 0 else if s = ''noop_blocked'' then 1 else 2)"

section \<open>Field validators\<close>

definition check_slug :: "json \<Rightarrow> string \<Rightarrow> string option diag" where
  "check_slug v path = bindD (check_text v path 3 96) (check_pattern is_slug_text (path @ '' has an invalid slug format''))"

definition optional_sha :: "json \<Rightarrow> string \<Rightarrow> string option diag" where
  "optional_sha v path = (if v = JNull then retD None else check_sha v path)"

definition check_integer :: "json \<Rightarrow> string \<Rightarrow> int \<Rightarrow> int \<Rightarrow> int option diag" where
  "check_integer v path lo hi = (let message = path @ '' must be an integer in '' @ str_int lo @ ''..'' @ str_int hi in
     case v of JInt i \<Rightarrow> if lo \<le> i \<and> i \<le> hi then retD (Some i) else blame message None | _ \<Rightarrow> blame message None)"

definition scan_string :: "string \<Rightarrow> nat \<Rightarrow> nat \<Rightarrow> string list \<Rightarrow> nat \<times> json \<Rightarrow> string list diag" where
  "scan_string path lo hi found ir = (case ir of (i, raw) \<Rightarrow>
     bindD (check_text raw (item_path path i) lo hi) (\<lambda>x. case x of None \<Rightarrow> retD found | Some s \<Rightarrow> retD (found @ [s])))"

definition check_strings :: "json \<Rightarrow> string \<Rightarrow> nat \<Rightarrow> nat \<Rightarrow> nat \<Rightarrow> nat \<Rightarrow> string list diag" where
  "check_strings v path lo hi item_lo item_hi =
     (let message = path @ '' must contain '' @ str_nat lo @ ''..'' @ str_nat hi @ '' strings'' in
      case v of
        JArr xs \<Rightarrow> if lo \<le> length xs \<and> length xs \<le> hi then
            bindD (foldD (scan_string path item_lo item_hi) [] (enumerate 0 xs)) (\<lambda>found.
            bindD (complain (\<not> distinct found) (path @ '' must not contain duplicates'')) (\<lambda>_. retD found))
          else blame message []
      | _ \<Rightarrow> blame message [])"

definition is_repository_text :: "string \<Rightarrow> bool" where
  "is_repository_text s \<longleftrightarrow> (case split_on (CHR ''/'') s of
      [owner, name] \<Rightarrow> owner \<noteq> [] \<and> name \<noteq> [] \<and> list_all (alnum_or ''_.-'') (owner @ name)
    | _ \<Rightarrow> False)"

definition check_repository :: "json \<Rightarrow> string \<Rightarrow> string option diag" where
  "check_repository v path = bindD (check_text v path 3 200)
     (check_pattern is_repository_text (path @ '' must be an owner/repository identity''))"

definition canonical_https :: "url_parts \<Rightarrow> bool" where
  "canonical_https u \<longleftrightarrow> url_scheme u = ''https'' \<and> url_netloc u \<noteq> [] \<and> \<not> has_userinfo u \<and> url_query u = []
     \<and> url_fragment u = []"

definition check_url :: "string list \<Rightarrow> json \<Rightarrow> string \<Rightarrow> string option diag" where
  "check_url hosts v path = (if v = JNull then retD None else
     bindD (check_text v path 12 1000) (\<lambda>x. case x of None \<Rightarrow> retD None
       | Some s \<Rightarrow> bindD (liftD (urlparse s)) (\<lambda>u.
           if \<not> canonical_https u then blame (path @ '' must be canonical HTTPS without userinfo, query, or fragment'') None
           else if url_netloc u \<notin> set hosts then blame (path @ '' host is not allowed'') None
           else retD (Some s))))"

text \<open>
  \<^verbatim>\<open>str.isdigit\<close> also holds for the superscripts of Latin-1, which \<^verbatim>\<open>int\<close> refuses.
\<close>

definition py_isdigit :: "string \<Rightarrow> bool" where
  "py_isdigit s \<longleftrightarrow> s \<noteq> [] \<and> list_all (\<lambda>c. is_digit c \<or> code c \<in> {178, 179, 185}) s"

definition int_of_digit_text :: "string \<Rightarrow> nat result" where
  "int_of_digit_text s = (if list_all is_digit s then Inr (digits_value s) else Inl ValueError)"

definition issue_parts :: "string list \<Rightarrow> bool result" where
  "issue_parts parts = (if length parts \<noteq> 4 \<or> parts ! 2 \<notin> {''issues'', ''pull''} \<or> \<not> py_isdigit (parts ! 3) then Inr False
     else bindE (int_of_digit_text (parts ! 3)) (\<lambda>n. Inr (1 \<le> n)))"

definition url_segments :: "url_parts \<Rightarrow> string list" where
  "url_segments u = filter (\<lambda>part. part \<noteq> []) (split_on (CHR ''/'') (url_path u))"

definition github_anchor :: "json \<Rightarrow> string \<Rightarrow> string option diag" where
  "github_anchor v path = bindD (check_url [''github.com''] v path) (\<lambda>x. case x of None \<Rightarrow> retD None
     | Some s \<Rightarrow> bindD (liftD (urlparse s)) (\<lambda>u. bindD (liftD (issue_parts (url_segments u))) (\<lambda>ok.
         if ok then retD (Some s) else blame (path @ '' must be an exact GitHub issue or pull-request URL'') None)))"

definition is_branch_text :: "string \<Rightarrow> bool" where
  "is_branch_text s \<longleftrightarrow> 3 \<le> length s \<and> length s \<le> 240 \<and> list_all (alnum_or ''._/-'') s"

definition safe_branch :: "string \<Rightarrow> bool" where
  "safe_branch s \<longleftrightarrow> is_branch_text s \<and> \<not> is_prefix ''/'' s \<and> last s \<noteq> CHR ''/'' \<and> \<not> contains ''//'' s
     \<and> \<not> contains ''..'' s \<and> last s \<noteq> CHR ''.'' \<and> \<not> contains [CHR ''@'', CHR 0x7B] s"

definition check_branch :: "json \<Rightarrow> string \<Rightarrow> string option diag" where
  "check_branch v path = bindD (check_text v path 3 240) (check_pattern safe_branch (path @ '' is not a safe Git branch name''))"

definition check_member :: "pydict \<Rightarrow> string \<Rightarrow> string \<Rightarrow> string list \<Rightarrow> unit diag" where
  "check_member d path key allowed = bindD (liftD (in_str_set (dict_get d key) allowed)) (\<lambda>ok.
     complain (\<not> ok) (path @ ''.'' @ key @ '' is unsupported''))"


section \<open>Repository records\<close>

text \<open>\<^verbatim>\<open>if value is not None: check(value)\<close>.\<close>

definition if_given :: "json \<Rightarrow> 'a option diag \<Rightarrow> unit diag" where
  "if_given v m = (if v = JNull then retD () else bindD m (\<lambda>_. retD ()))"

definition check_head :: "pydict \<Rightarrow> string \<Rightarrow> unit diag" where
  "check_head d path = (let branch = dict_get d ''default_branch''; head = dict_get d ''observed_head'';
       active = (dict_get d ''lifecycle'' = JStr ''active'') in
     bindD (if_given branch (check_branch branch (path @ ''.default_branch''))) (\<lambda>_.
     bindD (if_given head (check_commit head (path @ ''.observed_head''))) (\<lambda>_.
     bindD (complain (active \<and> branch = JNull) (path @ ''.default_branch is required for active repositories'')) (\<lambda>_.
     complain (active \<and> head = JNull) (path @ ''.observed_head is required for active repositories'')))))"

definition check_posture :: "pydict \<Rightarrow> string \<Rightarrow> unit diag" where
  "check_posture d path = (let license = dict_get d ''license_spdx'' in
     bindD (check_member d path ''ci_state'' CI_STATES) (\<lambda>_.
     bindD (complain (case dict_get d ''security_policy'' of JBool _ \<Rightarrow> False | _ \<Rightarrow> True)
       (path @ ''.security_policy must be boolean'')) (\<lambda>_.
     bindD (if_given license (check_text license (path @ ''.license_spdx'') 1 64)) (\<lambda>_.
     bindD (check_member d path ''release_path'' RELEASE_PATHS) (\<lambda>_.
     bindD (check_member d path ''test_maturity'' TEST_MATURITIES) (\<lambda>_.
     check_member d path ''deployment_boundary'' DEPLOYMENT_BOUNDARIES))))))"

definition check_repository_record :: "nat \<Rightarrow> json \<Rightarrow> string option diag" where
  "check_repository_record i raw = (let path = item_path ''repositories'' i in
     bindD (exact_object raw REPOSITORY_KEYS path) (\<lambda>d.
     bindD (check_repository (dict_get d ''repository'') (path @ ''.repository'')) (\<lambda>repository.
     bindD (check_member d path ''visibility'' VISIBILITIES) (\<lambda>_.
     bindD (check_member d path ''lifecycle'' LIFECYCLES) (\<lambda>_.
     bindD (check_member d path ''canonical_role'' ROLES) (\<lambda>_.
     bindD (check_head d path) (\<lambda>_.
     bindD (check_url [''linear.app''] (dict_get d ''linear_project_url'') (path @ ''.linear_project_url'')) (\<lambda>_.
     bindD (check_url [''github.com''] (dict_get d ''github_project_url'') (path @ ''.github_project_url'')) (\<lambda>_.
     bindD (optional_sha (dict_get d ''agents_sha256'') (path @ ''.agents_sha256'')) (\<lambda>_.
     bindD (check_strings (dict_get d ''toolchain'') (path @ ''.toolchain'') 0 24 1 120) (\<lambda>_.
     bindD (check_posture d path) (\<lambda>_.
     bindD (check_slug (dict_get d ''expectation_profile'') (path @ ''.expectation_profile'')) (\<lambda>_.
     bindD (check_sha (dict_get d ''current_state_sha256'') (path @ ''.current_state_sha256'')) (\<lambda>_.
     retD repository))))))))))))))"

definition scan_repository :: "string list \<Rightarrow> nat \<times> json \<Rightarrow> string list diag" where
  "scan_repository known ir = (case ir of (i, raw) \<Rightarrow>
     bindD (check_repository_record i raw) (\<lambda>x. case x of None \<Rightarrow> retD known | Some s \<Rightarrow> retD (known @ [s])))"

section \<open>Findings\<close>

definition score_composite :: "(string \<Rightarrow> int) \<Rightarrow> int" where
  "score_composite score = score ''security'' * 25 + score ''data_integrity'' * 20 + score ''user_impact'' * 15
     + score ''dependency_centrality'' * 15 + score ''operational_risk'' * 15 + (100 - score ''effort'') * 5
     + score ''test_evidence'' * 5"

text \<open>What an actionable finding plans, and what a finding without action must not.\<close>

definition check_plan :: "pydict \<Rightarrow> string \<Rightarrow> json \<Rightarrow> string list diag" where
  "check_plan d path disposition = (let branch = dict_get d ''branch_name''; base = dict_get d ''base_commit'';
       checks = dict_get d ''acceptance_checks'' in
     if disposition \<in> JStr ` set ACTIONABLE_DISPOSITIONS then
       bindD (check_branch branch (path @ ''.branch_name'')) (\<lambda>_.
       bindD (check_commit base (path @ ''.base_commit'')) (\<lambda>_.
       check_strings checks (path @ ''.acceptance_checks'') 2 16 8 500))
     else if disposition \<in> JStr ` set NOOP_DISPOSITIONS then
       bindD (complain (branch \<noteq> JNull \<or> base \<noteq> JNull) (path @ '' no-op dispositions must not declare a branch or base'')) (\<lambda>_.
       check_strings checks (path @ ''.acceptance_checks'') 0 8 8 500)
     else retD [])"

definition check_remediation :: "json \<Rightarrow> string \<Rightarrow> json \<Rightarrow> unit diag" where
  "check_remediation v path disposition =
     bindD (exact_object v REMEDIATION_KEYS path) (\<lambda>d.
     bindD (check_plan d path disposition) (\<lambda>_.
     bindD (complain (dict_get d ''dry_run'' \<noteq> JBool True) (path @ ''.dry_run must be true'')) (\<lambda>_.
     bindD (complain (dict_get d ''apply_authorized'' \<noteq> JBool False) (path @ ''.apply_authorized must be false'')) (\<lambda>_.
     bindD (check_text (dict_get d ''residual_risk'') (path @ ''.residual_risk'') 8 500) (\<lambda>_. retD ())))))"

text \<open>The local variables of the loop over the findings.\<close>

record rank_input =
  ri_rank :: int
  ri_tier :: int
  ri_severity :: int
  ri_score :: int
  ri_id :: string

record queue_scan =
  qs_ids :: "string list"
  qs_github :: "(string \<times> string) list"
  qs_linear :: "(string \<times> string) list"
  qs_graph :: graph
  qs_inputs :: "rank_input list"
  qs_ranks :: "(string \<times> int) list"
  qs_actionable :: nat
  qs_blocked :: nat
  qs_noop :: nat

text \<open>What the disposition adds to the three counters.\<close>

definition check_disposition :: "pydict \<Rightarrow> string \<Rightarrow> (nat \<times> nat \<times> nat) diag" where
  "check_disposition d path = (let state = dict_get d ''state''; disposition = dict_get d ''disposition'' in
     if disposition \<in> JStr ` set ACTIONABLE_DISPOSITIONS then
       bindD (complain (state \<in> JStr ` set CLOSED_STATES)
         (path @ '' state '' @ py_str state @ '' cannot use an actionable disposition'')) (\<lambda>_. retD (1, 0, 0))
     else if disposition = JStr ''noop_blocked'' then
       bindD (complain (state \<noteq> JStr ''externally_blocked'') (path @ ''.noop_blocked requires externally_blocked state'')) (\<lambda>_.
       retD (0, 1, 1))
     else if disposition \<in> JStr ` set NOOP_DISPOSITIONS then retD (0, 0, 1)
     else retD (0, 0, 0))"

definition check_enums :: "pydict \<Rightarrow> string \<Rightarrow> unit diag" where
  "check_enums d path =
     bindD (check_member d path ''category'' CATEGORIES) (\<lambda>_.
     bindD (check_member d path ''state'' FINDING_STATES) (\<lambda>_.
     bindD (check_member d path ''severity'' SEVERITIES) (\<lambda>_.
     check_member d path ''disposition'' DISPOSITIONS)))"

text \<open>\<^verbatim>\<open>LINEAR = ^DEN-[1-9][0-9]*$\<close>.\<close>

definition is_linear_text :: "string \<Rightarrow> bool" where
  "is_linear_text s \<longleftrightarrow> is_prefix ''DEN-'' s \<and> (case drop 4 s of [] \<Rightarrow> False
     | c # cs \<Rightarrow> is_digit c \<and> c \<noteq> CHR ''0'' \<and> list_all is_digit cs)"

definition check_linear :: "pydict \<Rightarrow> string \<Rightarrow> string option diag" where
  "check_linear d path =
     bindD (check_text (dict_get d ''linear_anchor'') (path @ ''.linear_anchor'') 5 32) (\<lambda>linear.
     bindD (complain (unmatched is_linear_text linear) (path @ ''.linear_anchor must be a DEN-N identifier'')) (\<lambda>_.
     retD linear))"

definition check_owner :: "pydict \<Rightarrow> string \<Rightarrow> unit diag" where
  "check_owner d path =
     bindD (check_text (dict_get d ''owner'') (path @ ''.owner'') 2 160) (\<lambda>owner.
     complain (unmatched (\<lambda>s. strip is_space s = s) owner) (path @ ''.owner must not contain edge whitespace''))"

definition check_duplicate_of :: "pydict \<Rightarrow> string \<Rightarrow> unit diag" where
  "check_duplicate_of d path = (let target = dict_get d ''duplicate_of'' in
     if dict_get d ''disposition'' = JStr ''noop_duplicate'' then
       bindD (check_slug target (path @ ''.duplicate_of'')) (\<lambda>_. retD ())
     else complain (target \<noteq> JNull) (path @ ''.duplicate_of must be null unless noop_duplicate''))"

text \<open>The scores that could be read, in the order of the iteration.\<close>

definition scan_score :: "pydict \<Rightarrow> string \<Rightarrow> (string \<times> int) list \<Rightarrow> string \<Rightarrow> (string \<times> int) list diag" where
  "scan_score d path scores name =
     bindD (check_integer (dict_get d name) (path @ ''.scores.'' @ name) 0 100) (\<lambda>x. case x of
         None \<Rightarrow> retD scores | Some i \<Rightarrow> retD (scores @ [(name, i)]))"

definition check_scores :: "string list \<Rightarrow> json \<Rightarrow> string \<Rightarrow> (string \<times> int) list diag" where
  "check_scores order v path =
     bindD (exact_object v SCORE_KEYS (path @ ''.scores'')) (\<lambda>d. foldD (scan_score d path) [] order)"

definition claim_anchor :: "string \<Rightarrow> bool \<Rightarrow> string option \<Rightarrow> string option \<Rightarrow> int option \<Rightarrow> (string \<times> string) list
    \<Rightarrow> (string \<times> string) list diag" where
  "claim_anchor label duplicate anchor finding_id rank anchors = (case (finding_id, rank, anchor) of
      (Some fid, Some _, Some a) \<Rightarrow> (case map_of anchors a of
          None \<Rightarrow> retD (anchors @ [(a, fid)])
        | Some previous \<Rightarrow> if duplicate then retD anchors
            else blame (label @ '' anchor '' @ a @ '' is shared by non-duplicate findings '' @ previous @ '' and '' @ fid) anchors)
    | _ \<Rightarrow> retD anchors)"

text \<open>A missing score is never asked for: \<^verbatim>\<open>len(scores) == len(SCORE_KEYS)\<close> holds by then.\<close>

definition score_of :: "(string \<times> int) list \<Rightarrow> string \<Rightarrow> int" where
  "score_of scores name = (case map_of scores name of Some i \<Rightarrow> i | None \<Rightarrow> 0)"

definition rank_inputs_of :: "pydict \<Rightarrow> string option \<Rightarrow> int option \<Rightarrow> (string \<times> int) list \<Rightarrow> rank_input list" where
  "rank_inputs_of d finding_id rank scores =
     (case (finding_id, rank, dict_get d ''severity'', dict_get d ''disposition'') of
        (Some fid, Some r, JStr severity, JStr disposition) \<Rightarrow>
          if severity \<in> set SEVERITIES \<and> disposition \<in> set DISPOSITIONS \<and> length scores = length SCORE_KEYS
          then [\<lparr>ri_rank = r, ri_tier = disposition_tier disposition, ri_severity = - severity_weight severity,
            ri_score = - score_composite (score_of scores), ri_id = fid\<rparr>]
          else []
      | _ \<Rightarrow> [])"

definition check_identity :: "string list \<Rightarrow> pydict \<Rightarrow> string \<Rightarrow> queue_scan \<Rightarrow> (string option \<times> int option \<times> queue_scan) diag" where
  "check_identity known d path st =
     bindD (check_slug (dict_get d ''id'') (path @ ''.id'')) (\<lambda>finding_id.
     bindD (case finding_id of None \<Rightarrow> retD ()
       | Some fid \<Rightarrow> complain (fid \<in> set (qs_ids st)) (''duplicate finding id: '' @ fid)) (\<lambda>_.
     bindD (check_integer (dict_get d ''rank'') (path @ ''.rank'') 1 100000) (\<lambda>rank.
     bindD (check_repository (dict_get d ''repository'') (path @ ''.repository'')) (\<lambda>repository.
     bindD (complain (unmatched (\<lambda>r. r \<in> set known) repository) (path @ ''.repository is absent from the inventory'')) (\<lambda>_.
     retD (finding_id, rank, st\<lparr>
       qs_ids := (case finding_id of None \<Rightarrow> qs_ids st | Some fid \<Rightarrow> fid # qs_ids st),
       qs_ranks := (case (finding_id, rank) of (Some fid, Some r) \<Rightarrow> dict_set (qs_ranks st) fid r | _ \<Rightarrow> qs_ranks st)\<rparr>))))))"

definition scan_finding :: "string list \<Rightarrow> string list \<Rightarrow> queue_scan \<Rightarrow> nat \<times> json \<Rightarrow> queue_scan diag" where
  "scan_finding order known st ir = (case ir of (i, raw) \<Rightarrow> (let path = item_path ''findings'' i in
     bindD (exact_object raw FINDING_KEYS path) (\<lambda>d.
     bindD (check_identity known d path st) (\<lambda>(finding_id, rank, st1).
     bindD (check_enums d path) (\<lambda>_.
     bindD (check_disposition d path) (\<lambda>(actionable, blocked, noop).
     bindD (check_sha (dict_get d ''evidence_sha256'') (path @ ''.evidence_sha256'')) (\<lambda>_.
     bindD (optional_sha (dict_get d ''baseline_value_sha256'') (path @ ''.baseline_value_sha256'')) (\<lambda>_.
     bindD (optional_sha (dict_get d ''current_value_sha256'') (path @ ''.current_value_sha256'')) (\<lambda>_.
     bindD (check_linear d path) (\<lambda>linear.
     bindD (github_anchor (dict_get d ''github_anchor'') (path @ ''.github_anchor'')) (\<lambda>github.
     bindD (check_owner d path) (\<lambda>_.
     bindD (check_duplicate_of d path) (\<lambda>_.
     bindD (check_strings (dict_get d ''depends_on'') (path @ ''.depends_on'') 0 32 3 96) (\<lambda>dependencies.
     bindD (check_scores order (dict_get d ''scores'') path) (\<lambda>scores.
     bindD (check_remediation (dict_get d ''remediation'') (path @ ''.remediation'') (dict_get d ''disposition'')) (\<lambda>_.
     (let duplicate = (dict_get d ''disposition'' = JStr ''noop_duplicate'') in
     bindD (claim_anchor ''Linear'' duplicate linear finding_id rank (qs_linear st1)) (\<lambda>linear_anchors.
     bindD (claim_anchor ''GitHub'' duplicate github finding_id rank (qs_github st1)) (\<lambda>github_anchors.
     retD (st1\<lparr>qs_linear := linear_anchors, qs_github := github_anchors,
       qs_graph := (case finding_id of None \<Rightarrow> qs_graph st1 | Some fid \<Rightarrow> dict_set (qs_graph st1) fid dependencies),
       qs_inputs := qs_inputs st1 @ rank_inputs_of d finding_id rank scores,
       qs_actionable := qs_actionable st1 + actionable, qs_blocked := qs_blocked st1 + blocked,
       qs_noop := qs_noop st1 + noop\<rparr>))))))))))))))))))))"


section \<open>The queue\<close>

text \<open>The baseline: the number of repositories it declares.\<close>

definition check_baseline :: "json \<Rightarrow> int option \<Rightarrow> int option diag" where
  "check_baseline v generated =
     bindD (exact_object v BASELINE_KEYS ''baseline'') (\<lambda>d.
     bindD (check_timestamp (dict_get d ''observed_at'') ''baseline.observed_at'') (\<lambda>observed.
     bindD (check_sha (dict_get d ''catalog_sha256'') ''baseline.catalog_sha256'') (\<lambda>_.
     bindD (check_sha (dict_get d ''policy_sha256'') ''baseline.policy_sha256'') (\<lambda>_.
     bindD (check_integer (dict_get d ''repository_count'') ''baseline.repository_count'' 0 100000) (\<lambda>declared.
     bindD (complain (case (generated, observed) of (Some g, Some t) \<Rightarrow> g < t | _ \<Rightarrow> False)
       ''baseline.observed_at cannot follow generated_at'') (\<lambda>_.
     bindD (complain (case (generated, observed) of (Some g, Some t) \<Rightarrow> 31 * usec_per_day < g - t | _ \<Rightarrow> False)
       ''baseline is older than the 31-day remediation limit'') (\<lambda>_.
     retD declared)))))))"

definition records_of :: "json \<Rightarrow> string \<Rightarrow> json list diag" where
  "records_of v name = (let message = name @ '' must contain 1..100000 records'' in case v of
      JArr xs \<Rightarrow> if 1 \<le> length xs \<and> length xs \<le> 100000 then retD xs else blame message []
    | _ \<Rightarrow> blame message [])"

definition check_repositories :: "json \<Rightarrow> int option \<Rightarrow> (nat \<times> string list) diag" where
  "check_repositories v declared =
     bindD (records_of v ''repositories'') (\<lambda>repositories.
     bindD (foldD scan_repository [] (enumerate 0 repositories)) (\<lambda>known.
     bindD (complain (\<not> distinct known) ''repositories must not contain duplicate identities'') (\<lambda>_.
     bindD (complain (case declared of None \<Rightarrow> False | Some n \<Rightarrow> n \<noteq> int (length repositories))
       ''baseline.repository_count must equal the repository records'') (\<lambda>_.
     retD (length repositories, known)))))"

definition rank_key :: "rank_input \<Rightarrow> int \<times> int \<times> int \<times> string" where
  "rank_key r = (ri_tier r, ri_severity r, ri_score r, ri_id r)"

definition ranks_from_one :: "nat \<Rightarrow> int list" where
  "ranks_from_one n = map int [1..<Suc n]"

definition check_ranks :: "rank_input list \<Rightarrow> nat \<Rightarrow> unit diag" where
  "check_ranks inputs n =
     bindD (complain (sort (map ri_rank inputs) \<noteq> ranks_from_one n) ''finding ranks must be unique and contiguous from 1'') (\<lambda>_.
     bindD (complain (map ri_rank (sort_key rank_key inputs) \<noteq> ranks_from_one (length inputs))
       ''finding ranks must follow disposition tier, severity, risk score, and finding-id tie-breaking'') (\<lambda>_.
     complain (length inputs \<noteq> n) ''every finding must have complete deterministic ranking data''))"

definition dependency_error :: "string list \<Rightarrow> (string \<times> int) list \<Rightarrow> string \<Rightarrow> string \<Rightarrow> string list" where
  "dependency_error ids ranks fid dependency =
     (if dependency = fid then [''finding '' @ fid @ '' cannot depend on itself'']
      else if dependency \<notin> set ids then [''finding '' @ fid @ '' depends on unknown finding '' @ dependency]
      else (case (map_of ranks fid, map_of ranks dependency) of
          (Some r, Some q) \<Rightarrow> if r \<le> q then [''finding '' @ fid @ '' dependency '' @ dependency @ '' must rank earlier''] else []
        | _ \<Rightarrow> []))"

definition check_dependencies :: "nat \<Rightarrow> queue_scan \<Rightarrow> unit diag" where
  "check_dependencies frames st =
     bindD (Inr ((), concat (map (\<lambda>(fid, ds). concat (map (dependency_error (qs_ids st) (qs_ranks st) fid) ds)) (qs_graph st)))) (\<lambda>_.
     bindD (liftD (find_cycles frames (qs_graph st))) (\<lambda>cycles.
     Inr ((), map (\<lambda>c. ''finding dependency cycle: '' @ c) cycles)))"

text \<open>\<^verbatim>\<open>by_id\<close>: the last object with a textual id, under that id.\<close>

definition findings_by_id :: "json list \<Rightarrow> (string \<times> pydict) list" where
  "findings_by_id findings = fold (\<lambda>raw byid. case raw of
       JObj d \<Rightarrow> (case dict_get d ''id'' of JStr fid \<Rightarrow> dict_set byid fid d | _ \<Rightarrow> byid) | _ \<Rightarrow> byid) findings []"

definition duplicate_target :: "(string \<times> pydict) list \<Rightarrow> unit \<Rightarrow> string \<times> pydict \<Rightarrow> unit diag" where
  "duplicate_target byid u fd = (case fd of (fid, d) \<Rightarrow>
     if dict_get d ''disposition'' = JStr ''noop_duplicate'' then
       (let target = dict_get d ''duplicate_of'' in
        bindD (liftD (in_str_set target (map fst byid))) (\<lambda>found.
        if \<not> found then blame (''duplicate finding '' @ fid @ '' references unknown target '' @ py_str target) ()
        else complain (case target of JStr t \<Rightarrow> (case map_of byid t of
              Some e \<Rightarrow> dict_get e ''disposition'' = JStr ''noop_duplicate'' | None \<Rightarrow> False) | _ \<Rightarrow> False)
            (''duplicate finding '' @ fid @ '' cannot target another duplicate'')))
     else retD ())"

definition check_forbidden :: "pydict \<Rightarrow> unit \<Rightarrow> string \<Rightarrow> unit diag" where
  "check_forbidden d u key = complain (dict_get d key \<noteq> JBool False) (''safety.'' @ key @ '' must be false'')"

definition check_queue_safety :: "json \<Rightarrow> unit diag" where
  "check_queue_safety v =
     bindD (exact_object v QUEUE_SAFETY_KEYS ''safety'') (\<lambda>d.
     bindD (complain (dict_get d ''read_only'' \<noteq> JBool True) ''safety.read_only must be true'') (\<lambda>_.
     bindD (complain (dict_get d ''dry_run'' \<noteq> JBool True) ''safety.dry_run must be true'') (\<lambda>_.
     bindD (foldD (check_forbidden d) () FORBIDDEN_ACTIONS) (\<lambda>_.
     bindD (check_strings (dict_get d ''notes'') ''safety.notes'' 1 12 8 500) (\<lambda>_. retD ())))))"

definition empty_scan :: queue_scan where
  "empty_scan = \<lparr>qs_ids = [], qs_github = [], qs_linear = [], qs_graph = [], qs_inputs = [], qs_ranks = [],
     qs_actionable = 0, qs_blocked = 0, qs_noop = 0\<rparr>"

text \<open>The findings in the document, with what is asked of them together.\<close>

definition check_findings :: "nat \<Rightarrow> string list \<Rightarrow> string list \<Rightarrow> json list \<Rightarrow> queue_scan diag" where
  "check_findings frames order known raws =
     bindD (foldD (scan_finding order known) empty_scan (enumerate 0 raws)) (\<lambda>st.
     bindD (check_ranks (qs_inputs st) (length raws)) (\<lambda>_.
     bindD (check_dependencies frames st) (\<lambda>_.
     bindD (let byid = findings_by_id raws in foldD (duplicate_target byid) () byid) (\<lambda>_. retD st))))"

text \<open>Everything before the checksum: the number of repositories, the number of findings, and what the loop left.\<close>

definition queue_facts :: "nat \<Rightarrow> string list \<Rightarrow> json \<Rightarrow> (nat \<times> nat \<times> queue_scan) diag" where
  "queue_facts frames order v =
     bindD (check_walk QUEUE_FORBIDDEN v) (\<lambda>_.
     bindD (exact_object v QUEUE_KEYS ''$'') (\<lambda>root.
     bindD (complain (dict_get root ''schema_version'' \<noteq> JStr QUEUE_SCHEMA) (''schema_version must be '' @ QUEUE_SCHEMA)) (\<lambda>_.
     bindD (check_slug (dict_get root ''queue_id'') ''queue_id'') (\<lambda>_.
     bindD (check_timestamp (dict_get root ''generated_at'') ''generated_at'') (\<lambda>generated.
     bindD (check_baseline (dict_get root ''baseline'') generated) (\<lambda>declared.
     bindD (check_repositories (dict_get root ''repositories'') declared) (\<lambda>(repository_count, known).
     bindD (records_of (dict_get root ''findings'') ''findings'') (\<lambda>findings.
     bindD (check_findings frames order known findings) (\<lambda>st.
     bindD (check_queue_safety (dict_get root ''safety'')) (\<lambda>_.
     retD (repository_count, length findings, st)))))))))))"

record queue_report =
  qr_valid :: bool
  qr_sha256 :: "string option"
  qr_repositories :: nat
  qr_findings :: nat
  qr_actionable :: nat
  qr_blocked :: nat
  qr_noop :: nat
  qr_errors :: "string list"

definition queue_not_compliant :: string where
  "queue_not_compliant = ''queue cannot be canonically serialized: Out of range float values are not JSON compliant''"

definition validate_queue :: "nat \<Rightarrow> string list \<Rightarrow> json \<Rightarrow> queue_report result" where
  "validate_queue frames order v = bindE (queue_facts frames order v) (\<lambda>((repository_count, finding_count, st), errors).
     (let checksum = canonical_sha256 v;
          errors' = (if checksum = None then errors @ [queue_not_compliant] else errors) in
     Inr \<lparr>qr_valid = (errors' = []), qr_sha256 = checksum, qr_repositories = repository_count, qr_findings = finding_count,
       qr_actionable = qs_actionable st, qr_blocked = qs_blocked st, qr_noop = qs_noop st, qr_errors = errors'\<rparr>))"


section \<open>Sound fields\<close>

definition sound_url :: "string list \<Rightarrow> json \<Rightarrow> bool" where
  "sound_url hosts v \<longleftrightarrow> v = JNull \<or> (\<exists>s u. v = JStr s \<and> bounded_text 12 1000 s \<and> urlparse s = Inr u \<and>
     canonical_https u \<and> url_netloc u \<in> set hosts)"

definition sound_texts :: "json \<Rightarrow> nat \<Rightarrow> nat \<Rightarrow> nat \<Rightarrow> nat \<Rightarrow> string list \<Rightarrow> bool" where
  "sound_texts v lo hi item_lo item_hi ss \<longleftrightarrow> v = JArr (map JStr ss) \<and> lo \<le> length ss \<and> length ss \<le> hi \<and>
     list_all (bounded_text item_lo item_hi) ss \<and> distinct ss"

definition optional_at :: "pydict \<Rightarrow> string \<Rightarrow> (string \<Rightarrow> bool) \<Rightarrow> bool" where
  "optional_at d key matches \<longleftrightarrow> dict_get d key = JNull \<or> matched_at d key matches"

definition integer_at :: "pydict \<Rightarrow> string \<Rightarrow> int \<Rightarrow> int \<Rightarrow> bool" where
  "integer_at d key lo hi \<longleftrightarrow> (\<exists>i. dict_get d key = JInt i \<and> lo \<le> i \<and> i \<le> hi)"

definition opt_text :: "json \<Rightarrow> string option" where
  "opt_text v = (case v of JStr s \<Rightarrow> Some s | _ \<Rightarrow> None)"

lemma clean_check_slug: "clean (check_slug (dict_get d key) path) x \<longleftrightarrow> matched_at d key is_slug_text \<and> x = Some (str_at d key)"
proof -
  have "is_slug_text s \<Longrightarrow> bounded_text 3 96 s" for s
    by (cases s) (auto simp: is_slug_text_def bounded_text_def)
  then show ?thesis by (auto simp: check_slug_def matched_at_def bounded_text_def str_at_def py_str_def)
qed

lemma clean_optional_sha: "clean (optional_sha (dict_get d key) path) x \<longleftrightarrow> optional_at d key is_sha256_text \<and> x = opt_text (dict_get d key)"
  by (auto simp: optional_sha_def optional_at_def matched_at_def opt_text_def)

lemma clean_check_integer: "clean (check_integer (dict_get d key) path lo hi) x \<longleftrightarrow> integer_at d key lo hi \<and> x = Some (int_at d key)"
  by (auto simp: check_integer_def integer_at_def int_at_def Let_def split: json.split)

lemma clean_check_member: "clean (check_member d path key allowed) u \<longleftrightarrow> matched_at d key (\<lambda>s. s \<in> set allowed)"
  by (cases "dict_get d key") (auto simp: check_member_def in_str_set_def matched_at_def)

lemma clean_scan_strings:
  "clean (foldD (scan_string path lo hi) found (enumerate n vs)) out \<longleftrightarrow>
     (\<exists>ss. vs = map JStr ss \<and> list_all (bounded_text lo hi) ss \<and> out = found @ ss)"
proof (induction vs arbitrary: found n)
  case (Cons v vs)
  have "clean (scan_string path lo hi found (n, v)) u \<longleftrightarrow> (\<exists>s. v = JStr s \<and> bounded_text lo hi s \<and> u = found @ [s])" for u
    by (auto simp: scan_string_def bounded_text_def)
  then have "clean (foldD (scan_string path lo hi) found (enumerate n (v # vs))) out \<longleftrightarrow>
      (\<exists>s ss. v = JStr s \<and> bounded_text lo hi s \<and> vs = map JStr ss \<and> list_all (bounded_text lo hi) ss \<and> out = found @ s # ss)"
    by (auto simp: Cons.IH)
  then show ?case by (fastforce simp: Cons_eq_map_conv)
qed auto

lemma clean_check_strings:
  "clean (check_strings v path lo hi item_lo item_hi) ss \<longleftrightarrow> sound_texts v lo hi item_lo item_hi ss"
proof (cases v)
  case (JArr xs)
  show ?thesis
    unfolding JArr check_strings_def Let_def json.case clean_if clean_bindD clean_scan_strings clean_complain clean_retD clean_blame
      sound_texts_def
    by auto
qed (simp_all add: check_strings_def sound_texts_def)

lemma clean_check_repository:
  "clean (check_repository (dict_get d key) path) x \<longleftrightarrow>
     matched_at d key (\<lambda>s. bounded_text 3 200 s \<and> is_repository_text s) \<and> x = Some (str_at d key)"
  by (auto simp: check_repository_def matched_at_def bounded_text_def str_at_def py_str_def)

lemma clean_check_url: "clean (check_url hosts v path) x \<longleftrightarrow> sound_url hosts v \<and> x = opt_text v"
  by (cases v) (auto simp: check_url_def sound_url_def opt_text_def bounded_text_def)

definition sound_anchor :: "json \<Rightarrow> bool" where
  "sound_anchor v \<longleftrightarrow> sound_url [''github.com''] v \<and>
     (\<forall>s u. v = JStr s \<and> urlparse s = Inr u \<longrightarrow> issue_parts (url_segments u) = Inr True)"

lemma clean_github_anchor: "clean (github_anchor v path) x \<longleftrightarrow> sound_anchor v \<and> x = opt_text v"
  unfolding github_anchor_def clean_bindD clean_check_url sound_anchor_def
  by (cases v) (auto simp: sound_url_def opt_text_def split: if_splits)

lemma clean_check_branch: "clean (check_branch (dict_get d key) path) x \<longleftrightarrow> matched_at d key safe_branch \<and> x = Some (str_at d key)"
  by (auto simp: check_branch_def matched_at_def safe_branch_def is_branch_text_def str_at_def py_str_def)

lemma clean_if_given:
  assumes "\<And>x. clean m x \<longleftrightarrow> P \<and> x = y"
  shows "clean (if_given v m) u \<longleftrightarrow> v = JNull \<or> P"
  using assms by (auto simp: if_given_def)

section \<open>Sound repositories\<close>

definition sound_repository :: "pydict \<Rightarrow> bool" where
  "sound_repository d \<longleftrightarrow> set (dict_keys d) = set REPOSITORY_KEYS \<and>
     matched_at d ''repository'' (\<lambda>s. bounded_text 3 200 s \<and> is_repository_text s) \<and>
     matched_at d ''visibility'' (\<lambda>s. s \<in> set VISIBILITIES) \<and> matched_at d ''lifecycle'' (\<lambda>s. s \<in> set LIFECYCLES) \<and>
     matched_at d ''canonical_role'' (\<lambda>s. s \<in> set ROLES) \<and>
     optional_at d ''default_branch'' safe_branch \<and> optional_at d ''observed_head'' is_commit_text \<and>
     (dict_get d ''lifecycle'' = JStr ''active'' \<longrightarrow> dict_get d ''default_branch'' \<noteq> JNull \<and> dict_get d ''observed_head'' \<noteq> JNull) \<and>
     sound_url [''linear.app''] (dict_get d ''linear_project_url'') \<and>
     sound_url [''github.com''] (dict_get d ''github_project_url'') \<and> optional_at d ''agents_sha256'' is_sha256_text \<and>
     (\<exists>tools. sound_texts (dict_get d ''toolchain'') 0 24 1 120 tools) \<and>
     matched_at d ''ci_state'' (\<lambda>s. s \<in> set CI_STATES) \<and> (\<exists>b. dict_get d ''security_policy'' = JBool b) \<and>
     optional_at d ''license_spdx'' (bounded_text 1 64) \<and> matched_at d ''release_path'' (\<lambda>s. s \<in> set RELEASE_PATHS) \<and>
     matched_at d ''test_maturity'' (\<lambda>s. s \<in> set TEST_MATURITIES) \<and>
     matched_at d ''deployment_boundary'' (\<lambda>s. s \<in> set DEPLOYMENT_BOUNDARIES) \<and>
     matched_at d ''expectation_profile'' is_slug_text \<and> matched_at d ''current_state_sha256'' is_sha256_text"

lemma clean_check_head: "clean (check_head d path) u \<longleftrightarrow>
    optional_at d ''default_branch'' safe_branch \<and> optional_at d ''observed_head'' is_commit_text \<and>
    (dict_get d ''lifecycle'' = JStr ''active'' \<longrightarrow> dict_get d ''default_branch'' \<noteq> JNull \<and> dict_get d ''observed_head'' \<noteq> JNull)"
proof -
  have given: "clean (if_given (dict_get d k) (check_branch (dict_get d k) p)) w \<longleftrightarrow> optional_at d k safe_branch"
    "clean (if_given (dict_get d k) (check_commit (dict_get d k) p)) w \<longleftrightarrow> optional_at d k is_commit_text" for k p w
    unfolding optional_at_def by (rule clean_if_given, rule clean_check_branch, rule clean_if_given, rule clean_at(3))
  show ?thesis unfolding check_head_def Let_def clean_bindD given clean_complain by auto
qed

lemma clean_check_posture: "clean (check_posture d path) u \<longleftrightarrow>
    matched_at d ''ci_state'' (\<lambda>s. s \<in> set CI_STATES) \<and> (\<exists>b. dict_get d ''security_policy'' = JBool b) \<and>
    optional_at d ''license_spdx'' (bounded_text 1 64) \<and> matched_at d ''release_path'' (\<lambda>s. s \<in> set RELEASE_PATHS) \<and>
    matched_at d ''test_maturity'' (\<lambda>s. s \<in> set TEST_MATURITIES) \<and>
    matched_at d ''deployment_boundary'' (\<lambda>s. s \<in> set DEPLOYMENT_BOUNDARIES)"
proof -
  have given: "clean (if_given (dict_get d k) (check_text (dict_get d k) p lo hi)) w \<longleftrightarrow> optional_at d k (bounded_text lo hi)"
    for k p lo hi w
    unfolding optional_at_def matched_at_def text_at_def [symmetric] by (rule clean_if_given, rule clean_at(1))
  have bool: "(\<not> (case w of JBool _ \<Rightarrow> False | _ \<Rightarrow> True)) \<longleftrightarrow> (\<exists>b. w = JBool b)" for w by (cases w) auto
  show ?thesis unfolding check_posture_def Let_def clean_bindD given clean_complain clean_check_member bool by auto
qed

lemma clean_check_repository_record:
  "clean (check_repository_record i raw) x \<longleftrightarrow> (\<exists>d. raw = JObj d \<and> sound_repository d \<and> x = Some (str_at d ''repository''))"
  unfolding check_repository_record_def Let_def clean_bindD clean_exact_object clean_check_repository clean_check_member
    clean_check_head clean_check_url clean_optional_sha clean_check_strings clean_check_posture clean_check_slug clean_at
    clean_retD sound_repository_def
  by (simp only: ex_simps ex_unit simp_thms conj_assoc)

lemma clean_scan_repositories:
  "clean (foldD scan_repository known (enumerate n rs)) out \<longleftrightarrow>
     (\<exists>ds. rs = map JObj ds \<and> list_all sound_repository ds \<and> out = known @ map (\<lambda>d. str_at d ''repository'') ds)"
proof (induction rs arbitrary: known n)
  case (Cons r rs)
  have "clean (scan_repository known (n, r)) u \<longleftrightarrow>
      (\<exists>d. r = JObj d \<and> sound_repository d \<and> u = known @ [str_at d ''repository''])" for u
    unfolding scan_repository_def prod.case clean_bindD clean_check_repository_record by auto
  then have "clean (foldD scan_repository known (enumerate n (r # rs))) out \<longleftrightarrow>
      (\<exists>d ds. r = JObj d \<and> sound_repository d \<and> rs = map JObj ds \<and> list_all sound_repository ds \<and>
         out = known @ str_at d ''repository'' # map (\<lambda>d. str_at d ''repository'') ds)"
    by (auto simp: Cons.IH)
  then show ?case by (fastforce simp: Cons_eq_map_conv)
qed auto

section \<open>Sound findings\<close>

text \<open>What a finding says, read from its object.\<close>

definition finding_id :: "pydict \<Rightarrow> string" where "finding_id d = str_at d ''id''"

definition finding_rank :: "pydict \<Rightarrow> int" where "finding_rank d = int_at d ''rank''"

definition texts_of :: "json \<Rightarrow> string list" where
  "texts_of v = (case v of JArr xs \<Rightarrow> map py_str xs | _ \<Rightarrow> [])"

definition finding_dependencies :: "pydict \<Rightarrow> string list" where
  "finding_dependencies d = texts_of (dict_get d ''depends_on'')"

definition is_duplicate :: "pydict \<Rightarrow> bool" where
  "is_duplicate d \<longleftrightarrow> dict_get d ''disposition'' = JStr ''noop_duplicate''"

definition is_actionable :: "pydict \<Rightarrow> bool" where
  "is_actionable d \<longleftrightarrow> dict_get d ''disposition'' \<in> JStr ` set ACTIONABLE_DISPOSITIONS"

definition is_blocked :: "pydict \<Rightarrow> bool" where
  "is_blocked d \<longleftrightarrow> dict_get d ''disposition'' = JStr ''noop_blocked''"

definition scores_of :: "pydict \<Rightarrow> string \<Rightarrow> int" where
  "scores_of d name = (case dict_get d ''scores'' of JObj sd \<Rightarrow> int_at sd name | _ \<Rightarrow> 0)"

definition priority :: "pydict \<Rightarrow> int \<times> int \<times> int \<times> string" where
  "priority d = (disposition_tier (str_at d ''disposition''), - severity_weight (str_at d ''severity''),
     - score_composite (scores_of d), finding_id d)"

definition sound_scores :: "json \<Rightarrow> bool" where
  "sound_scores v \<longleftrightarrow> (\<exists>sd. v = JObj sd \<and> set (dict_keys sd) = set SCORE_KEYS \<and> (\<forall>name \<in> set SCORE_KEYS. integer_at sd name 0 100))"

text \<open>A remediation is a dry run without authority; only an actionable finding names a branch and its base.\<close>

definition sound_remediation :: "json \<Rightarrow> json \<Rightarrow> bool" where
  "sound_remediation v disposition \<longleftrightarrow> (\<exists>d. v = JObj d \<and> set (dict_keys d) = set REMEDIATION_KEYS \<and>
     (if disposition \<in> JStr ` set ACTIONABLE_DISPOSITIONS then matched_at d ''branch_name'' safe_branch \<and>
        matched_at d ''base_commit'' is_commit_text \<and> (\<exists>ss. sound_texts (dict_get d ''acceptance_checks'') 2 16 8 500 ss)
      else if disposition \<in> JStr ` set NOOP_DISPOSITIONS then dict_get d ''branch_name'' = JNull \<and> dict_get d ''base_commit'' = JNull \<and>
        (\<exists>ss. sound_texts (dict_get d ''acceptance_checks'') 0 8 8 500 ss)
      else True) \<and>
     dict_get d ''dry_run'' = JBool True \<and> dict_get d ''apply_authorized'' = JBool False \<and> text_at d ''residual_risk'' 8 500)"

definition sound_disposition :: "pydict \<Rightarrow> bool" where
  "sound_disposition d \<longleftrightarrow> (is_actionable d \<longrightarrow> dict_get d ''state'' \<notin> JStr ` set CLOSED_STATES) \<and>
     (is_blocked d \<longrightarrow> dict_get d ''state'' = JStr ''externally_blocked'')"

definition sound_duplicate_of :: "pydict \<Rightarrow> bool" where
  "sound_duplicate_of d \<longleftrightarrow> (if is_duplicate d then matched_at d ''duplicate_of'' is_slug_text else dict_get d ''duplicate_of'' = JNull)"

definition sound_finding :: "string list \<Rightarrow> pydict \<Rightarrow> bool" where
  "sound_finding known d \<longleftrightarrow> set (dict_keys d) = set FINDING_KEYS \<and>
     matched_at d ''id'' is_slug_text \<and> integer_at d ''rank'' 1 100000 \<and>
     matched_at d ''repository'' (\<lambda>s. bounded_text 3 200 s \<and> is_repository_text s) \<and> str_at d ''repository'' \<in> set known \<and>
     matched_at d ''category'' (\<lambda>s. s \<in> set CATEGORIES) \<and> matched_at d ''state'' (\<lambda>s. s \<in> set FINDING_STATES) \<and>
     matched_at d ''severity'' (\<lambda>s. s \<in> set SEVERITIES) \<and> matched_at d ''disposition'' (\<lambda>s. s \<in> set DISPOSITIONS) \<and>
     sound_disposition d \<and> matched_at d ''evidence_sha256'' is_sha256_text \<and>
     optional_at d ''baseline_value_sha256'' is_sha256_text \<and> optional_at d ''current_value_sha256'' is_sha256_text \<and>
     matched_at d ''linear_anchor'' (\<lambda>s. bounded_text 5 32 s \<and> is_linear_text s) \<and> sound_anchor (dict_get d ''github_anchor'') \<and>
     matched_at d ''owner'' (\<lambda>s. bounded_text 2 160 s \<and> strip is_space s = s) \<and> sound_duplicate_of d \<and>
     sound_texts (dict_get d ''depends_on'') 0 32 3 96 (finding_dependencies d) \<and> sound_scores (dict_get d ''scores'') \<and>
     sound_remediation (dict_get d ''remediation'') (dict_get d ''disposition'')"

lemma sound_texts_unique: "sound_texts v lo hi a b ss \<Longrightarrow> ss = texts_of v"
  by (simp add: sound_texts_def texts_of_def py_str_def comp_def)

lemma clean_check_enums: "clean (check_enums d path) u \<longleftrightarrow>
    matched_at d ''category'' (\<lambda>s. s \<in> set CATEGORIES) \<and> matched_at d ''state'' (\<lambda>s. s \<in> set FINDING_STATES) \<and>
    matched_at d ''severity'' (\<lambda>s. s \<in> set SEVERITIES) \<and> matched_at d ''disposition'' (\<lambda>s. s \<in> set DISPOSITIONS)"
  unfolding check_enums_def clean_bindD clean_check_member by auto

definition counters :: "pydict \<Rightarrow> nat \<times> nat \<times> nat" where
  "counters d = (if is_actionable d then (1, 0, 0) else if is_blocked d then (0, 1, 1) else (0, 0, 1))"

lemma not_actionable:
  assumes "matched_at d ''disposition'' (\<lambda>s. s \<in> set DISPOSITIONS)" and "\<not> is_actionable d"
  shows "dict_get d ''disposition'' \<in> JStr ` set NOOP_DISPOSITIONS"
  using assms by (auto simp: matched_at_def is_actionable_def DISPOSITIONS_def)

lemma clean_check_disposition:
  assumes "matched_at d ''disposition'' (\<lambda>s. s \<in> set DISPOSITIONS)"
  shows "clean (check_disposition d path) c \<longleftrightarrow> sound_disposition d \<and> c = counters d"
proof -
  define noop where "noop = (dict_get d ''disposition'' \<in> JStr ` set NOOP_DISPOSITIONS)"
  have "is_blocked d \<Longrightarrow> \<not> is_actionable d" by (auto simp: is_blocked_def is_actionable_def ACTIONABLE_DISPOSITIONS_def)
  moreover have "\<not> is_actionable d \<Longrightarrow> noop" using not_actionable [OF assms] by (simp add: noop_def)
  ultimately show ?thesis
    unfolding check_disposition_def Let_def is_actionable_def [symmetric] is_blocked_def [symmetric] noop_def [symmetric]
      clean_if clean_bindD clean_complain clean_retD sound_disposition_def counters_def
    by auto
qed

lemma clean_check_linear: "clean (check_linear d path) x \<longleftrightarrow>
    matched_at d ''linear_anchor'' (\<lambda>s. bounded_text 5 32 s \<and> is_linear_text s) \<and> x = Some (str_at d ''linear_anchor'')"
  unfolding check_linear_def clean_bindD clean_at clean_complain clean_retD
  by (auto simp: unmatched_def text_at_def matched_at_def str_at_def py_str_def ex_unit)

lemma clean_check_owner: "clean (check_owner d path) u \<longleftrightarrow>
    matched_at d ''owner'' (\<lambda>s. bounded_text 2 160 s \<and> strip is_space s = s)"
  unfolding check_owner_def clean_bindD clean_at clean_complain
  by (auto simp: unmatched_def text_at_def matched_at_def str_at_def py_str_def)

lemma clean_check_duplicate_of: "clean (check_duplicate_of d path) u \<longleftrightarrow> sound_duplicate_of d"
  unfolding check_duplicate_of_def Let_def is_duplicate_def [symmetric] clean_if clean_bindD clean_check_slug clean_complain
    clean_retD sound_duplicate_of_def
  by auto

lemma clean_scan_scores:
  "clean (foldD (scan_score sd path) found names) out \<longleftrightarrow>
     (\<forall>name \<in> set names. integer_at sd name 0 100) \<and> out = found @ map (\<lambda>name. (name, int_at sd name)) names"
proof (induction names arbitrary: found)
  case (Cons name names)
  have "clean (scan_score sd path found name) u \<longleftrightarrow> integer_at sd name 0 100 \<and> u = found @ [(name, int_at sd name)]" for u
    unfolding scan_score_def clean_bindD clean_check_integer by auto
  then show ?case by (auto simp: Cons.IH)
qed auto

lemma clean_check_scores:
  assumes "set order = set SCORE_KEYS"
  shows "clean (check_scores order (dict_get d ''scores'') path) out \<longleftrightarrow>
    sound_scores (dict_get d ''scores'') \<and> out = map (\<lambda>name. (name, scores_of d name)) order"
  unfolding check_scores_def clean_bindD clean_exact_object clean_scan_scores sound_scores_def assms
  by (auto simp: scores_of_def)

lemma clean_check_plan:
  "(\<exists>x. clean (check_plan d path disposition) x) \<longleftrightarrow>
     (if disposition \<in> JStr ` set ACTIONABLE_DISPOSITIONS then matched_at d ''branch_name'' safe_branch \<and>
        matched_at d ''base_commit'' is_commit_text \<and> (\<exists>ss. sound_texts (dict_get d ''acceptance_checks'') 2 16 8 500 ss)
      else if disposition \<in> JStr ` set NOOP_DISPOSITIONS then dict_get d ''branch_name'' = JNull \<and> dict_get d ''base_commit'' = JNull \<and>
        (\<exists>ss. sound_texts (dict_get d ''acceptance_checks'') 0 8 8 500 ss)
      else True)"
proof -
  define act where "act = (disposition \<in> JStr ` set ACTIONABLE_DISPOSITIONS)"
  define noop where "noop = (disposition \<in> JStr ` set NOOP_DISPOSITIONS)"
  show ?thesis
    unfolding check_plan_def Let_def clean_if clean_bindD clean_check_branch clean_at clean_check_strings clean_complain clean_retD
      act_def [symmetric] noop_def [symmetric]
    by (cases act; cases noop) auto
qed

lemma clean_check_remediation: "clean (check_remediation v path disposition) u \<longleftrightarrow> sound_remediation v disposition"
proof -
  have "clean (check_remediation v path disposition) u \<longleftrightarrow> (\<exists>d. v = JObj d \<and> set (dict_keys d) = set REMEDIATION_KEYS \<and>
      (\<exists>x. clean (check_plan d path disposition) x) \<and> dict_get d ''dry_run'' = JBool True \<and>
      dict_get d ''apply_authorized'' = JBool False \<and> text_at d ''residual_risk'' 8 500)"
    unfolding check_remediation_def clean_bindD clean_exact_object clean_complain clean_at clean_retD by auto
  then show ?thesis unfolding clean_check_plan sound_remediation_def .
qed

section \<open>The loop over the findings\<close>

definition input_of :: "pydict \<Rightarrow> rank_input" where
  "input_of d = \<lparr>ri_rank = finding_rank d, ri_tier = disposition_tier (str_at d ''disposition''),
     ri_severity = - severity_weight (str_at d ''severity''), ri_score = - score_composite (scores_of d), ri_id = finding_id d\<rparr>"

definition linear_anchor_of :: "pydict \<Rightarrow> string option" where
  "linear_anchor_of d = Some (str_at d ''linear_anchor'')"

definition github_anchor_of :: "pydict \<Rightarrow> string option" where
  "github_anchor_of d = opt_text (dict_get d ''github_anchor'')"

definition add_anchor :: "string option \<Rightarrow> string \<Rightarrow> (string \<times> string) list \<Rightarrow> (string \<times> string) list" where
  "add_anchor a fid anchors = (case a of None \<Rightarrow> anchors
     | Some x \<Rightarrow> if x \<in> fst ` set anchors then anchors else anchors @ [(x, fid)])"

definition next_queue :: "pydict \<Rightarrow> queue_scan \<Rightarrow> queue_scan" where
  "next_queue d st = (case counters d of (actionable, blocked, noop) \<Rightarrow>
     st\<lparr>qs_ids := finding_id d # qs_ids st, qs_ranks := dict_set (qs_ranks st) (finding_id d) (finding_rank d),
       qs_linear := add_anchor (linear_anchor_of d) (finding_id d) (qs_linear st),
       qs_github := add_anchor (github_anchor_of d) (finding_id d) (qs_github st),
       qs_graph := dict_set (qs_graph st) (finding_id d) (finding_dependencies d), qs_inputs := qs_inputs st @ [input_of d],
       qs_actionable := qs_actionable st + actionable, qs_blocked := qs_blocked st + blocked, qs_noop := qs_noop st + noop\<rparr>)"

text \<open>An anchor that an earlier finding has may only be repeated by a duplicate.\<close>

definition free_anchor :: "pydict \<Rightarrow> string option \<Rightarrow> (string \<times> string) list \<Rightarrow> bool" where
  "free_anchor d a anchors \<longleftrightarrow> (\<forall>x. a = Some x \<and> x \<in> fst ` set anchors \<longrightarrow> is_duplicate d)"

lemma clean_claim_anchor:
  "clean (claim_anchor label (is_duplicate d) a (Some fid) (Some r) anchors) out \<longleftrightarrow>
     free_anchor d a anchors \<and> out = add_anchor a fid anchors"
proof (cases a)
  case (Some x)
  show ?thesis
  proof (cases "map_of anchors x")
    case None
    then have "x \<notin> fst ` set anchors" by (simp add: map_of_eq_None_iff)
    with None Some show ?thesis by (simp add: claim_anchor_def free_anchor_def add_anchor_def)
  next
    case (Some p)
    then have "x \<in> fst ` set anchors" by (auto dest: map_of_SomeD intro: rev_image_eqI)
    with Some \<open>a = Some x\<close> show ?thesis by (simp add: claim_anchor_def free_anchor_def add_anchor_def)
  qed
qed (auto simp: claim_anchor_def free_anchor_def add_anchor_def)

lemma clean_check_identity:
  "clean (check_identity known d path st) out \<longleftrightarrow> matched_at d ''id'' is_slug_text \<and> finding_id d \<notin> set (qs_ids st) \<and>
     integer_at d ''rank'' 1 100000 \<and> matched_at d ''repository'' (\<lambda>s. bounded_text 3 200 s \<and> is_repository_text s) \<and>
     str_at d ''repository'' \<in> set known \<and>
     out = (Some (finding_id d), Some (finding_rank d), st\<lparr>qs_ids := finding_id d # qs_ids st,
       qs_ranks := dict_set (qs_ranks st) (finding_id d) (finding_rank d)\<rparr>)"
  unfolding check_identity_def clean_bindD clean_check_slug clean_check_integer clean_check_repository clean_complain clean_retD
  by (auto simp: finding_id_def finding_rank_def unmatched_def ex_unit)

lemma score_of_scores:
  assumes "set order = set SCORE_KEYS"
  shows "score_composite (score_of (map (\<lambda>name. (name, scores_of d name)) order)) = score_composite (scores_of d)"
proof -
  have "score_of (map (\<lambda>name. (name, scores_of d name)) order) k = scores_of d k" if "k \<in> set SCORE_KEYS" for k
    using that assms by (simp add: score_of_def map_of_map_restrict)
  then show ?thesis by (simp add: score_composite_def SCORE_KEYS_def)
qed

lemma rank_inputs_sound:
  assumes "set order = set SCORE_KEYS" and "distinct order"
    and "matched_at d ''severity'' (\<lambda>s. s \<in> set SEVERITIES)" and "matched_at d ''disposition'' (\<lambda>s. s \<in> set DISPOSITIONS)"
  shows "rank_inputs_of d (Some (finding_id d)) (Some (finding_rank d)) (map (\<lambda>name. (name, scores_of d name)) order) = [input_of d]"
proof -
  obtain sev dis where v: "dict_get d ''severity'' = JStr sev" "sev \<in> set SEVERITIES" "dict_get d ''disposition'' = JStr dis"
    "dis \<in> set DISPOSITIONS" using assms(3,4) by (auto simp: matched_at_def)
  have "length order = card (set SCORE_KEYS)" using distinct_card [OF assms(2)] assms(1) by simp
  also have "card (set SCORE_KEYS) = length SCORE_KEYS" by (rule distinct_card) (simp add: SCORE_KEYS_def)
  finally show ?thesis
    using v by (simp add: rank_inputs_of_def input_of_def score_of_scores [OF assms(1)] str_at_def py_str_def)
qed

lemma clean_scan_finding:
  assumes "set order = set SCORE_KEYS" and "distinct order"
  shows "clean (scan_finding order known st (i, raw)) out \<longleftrightarrow> (\<exists>d. raw = JObj d \<and> sound_finding known d \<and>
     finding_id d \<notin> set (qs_ids st) \<and> free_anchor d (linear_anchor_of d) (qs_linear st) \<and>
     free_anchor d (github_anchor_of d) (qs_github st) \<and> out = next_queue d st)"
proof (cases raw)
  case (JObj d)
  define deps_ok where "deps_ok \<longleftrightarrow> sound_texts (dict_get d ''depends_on'') 0 32 3 96 (finding_dependencies d)"
  have texts: "clean (check_strings (dict_get d ''depends_on'') p 0 32 3 96) ss \<longleftrightarrow> deps_ok \<and> ss = finding_dependencies d" for p ss
    unfolding clean_check_strings deps_ok_def finding_dependencies_def using sound_texts_unique by blast
  define C where "C \<longleftrightarrow> (matched_at d ''severity'' (\<lambda>s. s \<in> set SEVERITIES) \<and> matched_at d ''disposition'' (\<lambda>s. s \<in> set DISPOSITIONS))"
  show ?thesis
  proof (cases C)
    case True
    then have sev: "matched_at d ''severity'' (\<lambda>s. s \<in> set SEVERITIES)" and dis: "matched_at d ''disposition'' (\<lambda>s. s \<in> set DISPOSITIONS)"
      by (simp_all add: C_def)
    obtain a b n where c: "counters d = (a, b, n)" by (cases "counters d")
    have fields: "Some (str_at d ''linear_anchor'') = linear_anchor_of d" "opt_text (dict_get d ''github_anchor'') = github_anchor_of d"
      by (simp_all add: linear_anchor_of_def github_anchor_of_def)
    note rules = clean_bindD clean_exact_object clean_check_identity clean_check_enums
        clean_check_disposition [OF dis] c clean_at clean_optional_sha clean_check_linear clean_github_anchor clean_check_owner
        clean_check_duplicate_of texts clean_check_scores [OF assms(1)] clean_check_remediation fields
        is_duplicate_def [symmetric] clean_claim_anchor clean_retD rank_inputs_sound [OF assms sev dis]
    show ?thesis
      unfolding JObj scan_finding_def sound_finding_def
      by (simp only: json.inject prod.case Let_def rules ex_simps ex_unit simp_thms conj_assoc)
        (auto simp: next_queue_def c C_def deps_ok_def)
  next
    case False
    then show ?thesis
      by (auto simp: JObj scan_finding_def Let_def clean_check_enums sound_finding_def C_def)
  qed
qed (simp_all add: scan_finding_def Let_def)

fun anchors_free :: "(pydict \<Rightarrow> string option) \<Rightarrow> pydict list \<Rightarrow> string set \<Rightarrow> bool" where
  "anchors_free f [] seen \<longleftrightarrow> True"
| "anchors_free f (d # ds) seen \<longleftrightarrow> (\<forall>x. f d = Some x \<and> x \<in> seen \<longrightarrow> is_duplicate d) \<and> anchors_free f ds (seen \<union> set_option (f d))"

text \<open>In the order of the document: a later finding with the anchor of an earlier one is a duplicate.\<close>

definition unshared :: "(pydict \<Rightarrow> string option) \<Rightarrow> pydict list \<Rightarrow> bool" where
  "unshared f ds \<longleftrightarrow> sorted_wrt (\<lambda>d e. f d \<noteq> None \<and> f e = f d \<longrightarrow> is_duplicate e) ds"

lemma anchors_free_iff:
  "anchors_free f ds seen \<longleftrightarrow> (\<forall>d \<in> set ds. \<forall>x \<in> seen. f d = Some x \<longrightarrow> is_duplicate d) \<and> unshared f ds"
proof (induction ds arbitrary: seen)
  case (Cons d ds)
  show ?case by (cases "f d") (auto simp: Cons.IH unshared_def)
qed (simp add: unshared_def)

lemma add_anchor_keys: "fst ` set (add_anchor a fid anchors) = fst ` set anchors \<union> set_option a"
  by (auto simp: add_anchor_def split: option.split)

lemma next_queue_anchors:
  "qs_ids (next_queue d st) = finding_id d # qs_ids st"
  "qs_linear (next_queue d st) = add_anchor (linear_anchor_of d) (finding_id d) (qs_linear st)"
  "qs_github (next_queue d st) = add_anchor (github_anchor_of d) (finding_id d) (qs_github st)"
  by (simp_all add: next_queue_def split: prod.split)

lemma clean_scan_findings:
  assumes "set order = set SCORE_KEYS" and "distinct order"
  shows "clean (foldD (scan_finding order known) st (enumerate n rs)) out \<longleftrightarrow>
    (\<exists>ds. rs = map JObj ds \<and> list_all (sound_finding known) ds \<and> distinct (map finding_id ds) \<and>
       set (map finding_id ds) \<inter> set (qs_ids st) = {} \<and> anchors_free linear_anchor_of ds (fst ` set (qs_linear st)) \<and>
       anchors_free github_anchor_of ds (fst ` set (qs_github st)) \<and> out = fold next_queue ds st)"
proof (induction rs arbitrary: st n)
  case (Cons r rs)
  have "clean (foldD (scan_finding order known) st (enumerate n (r # rs))) out \<longleftrightarrow>
      (\<exists>d ds. r = JObj d \<and> sound_finding known d \<and> finding_id d \<notin> set (qs_ids st) \<and>
         free_anchor d (linear_anchor_of d) (qs_linear st) \<and> free_anchor d (github_anchor_of d) (qs_github st) \<and>
         rs = map JObj ds \<and> list_all (sound_finding known) ds \<and> distinct (map finding_id ds) \<and>
         set (map finding_id ds) \<inter> insert (finding_id d) (set (qs_ids st)) = {} \<and>
         anchors_free linear_anchor_of ds (fst ` set (qs_linear st) \<union> set_option (linear_anchor_of d)) \<and>
         anchors_free github_anchor_of ds (fst ` set (qs_github st) \<union> set_option (github_anchor_of d)) \<and>
         out = fold next_queue ds (next_queue d st))"
    by (auto simp: clean_scan_finding [OF assms] Cons.IH next_queue_anchors add_anchor_keys)
  also have "\<dots> \<longleftrightarrow> (\<exists>d ds. r = JObj d \<and> rs = map JObj ds \<and> list_all (sound_finding known) (d # ds) \<and>
       distinct (map finding_id (d # ds)) \<and> set (map finding_id (d # ds)) \<inter> set (qs_ids st) = {} \<and>
       anchors_free linear_anchor_of (d # ds) (fst ` set (qs_linear st)) \<and>
       anchors_free github_anchor_of (d # ds) (fst ` set (qs_github st)) \<and> out = fold next_queue (d # ds) st)"
    by (auto simp: free_anchor_def)
  also have "\<dots> \<longleftrightarrow> (\<exists>ds. r # rs = map JObj ds \<and> list_all (sound_finding known) ds \<and> distinct (map finding_id ds) \<and>
       set (map finding_id ds) \<inter> set (qs_ids st) = {} \<and> anchors_free linear_anchor_of ds (fst ` set (qs_linear st)) \<and>
       anchors_free github_anchor_of ds (fst ` set (qs_github st)) \<and> out = fold next_queue ds st)" (is "?L \<longleftrightarrow> ?R")
  proof
    assume ?R
    then show ?L
    proof (elim exE conjE)
      fix es
      assume es: "r # rs = map JObj es" "list_all (sound_finding known) es" "distinct (map finding_id es)"
        "set (map finding_id es) \<inter> set (qs_ids st) = {}" "anchors_free linear_anchor_of es (fst ` set (qs_linear st))"
        "anchors_free github_anchor_of es (fst ` set (qs_github st))" "out = fold next_queue es st"
      from es(1) obtain d ds where ds: "es = d # ds" "r = JObj d" "rs = map JObj ds" by (cases es) simp_all
      show ?L using es(2-) ds(2,3) unfolding ds(1) by (intro exI [of _ d] exI [of _ ds] conjI)
    qed
  next
    assume ?L
    then show ?R
    proof (elim exE conjE)
      fix d ds
      assume ds: "r = JObj d" "rs = map JObj ds" "list_all (sound_finding known) (d # ds)"
        "distinct (map finding_id (d # ds))" "set (map finding_id (d # ds)) \<inter> set (qs_ids st) = {}"
        "anchors_free linear_anchor_of (d # ds) (fst ` set (qs_linear st))"
        "anchors_free github_anchor_of (d # ds) (fst ` set (qs_github st))" "out = fold next_queue (d # ds) st"
      have "r # rs = map JObj (d # ds)" using ds(1,2) by simp
      then show ?R using ds(3-) by (intro exI [of _ "d # ds"] conjI)
    qed
  qed
  finally show ?case .
qed auto

section \<open>What the loop leaves\<close>

lemma next_queue_tables:
  "qs_inputs (next_queue d st) = qs_inputs st @ [input_of d]"
  "qs_ranks (next_queue d st) = dict_set (qs_ranks st) (finding_id d) (finding_rank d)"
  "qs_graph (next_queue d st) = dict_set (qs_graph st) (finding_id d) (finding_dependencies d)"
  "(qs_actionable (next_queue d st), qs_blocked (next_queue d st), qs_noop (next_queue d st)) =
     (case counters d of (a, b, n) \<Rightarrow> (qs_actionable st + a, qs_blocked st + b, qs_noop st + n))"
  by (simp_all add: next_queue_def split: prod.split)

lemma after_findings:
  assumes "distinct (map finding_id ds)" and "set (map finding_id ds) \<inter> fst ` set (qs_ranks st) = {}"
    and "set (map finding_id ds) \<inter> fst ` set (qs_graph st) = {}"
  shows "qs_ids (fold next_queue ds st) = rev (map finding_id ds) @ qs_ids st"
    and "qs_inputs (fold next_queue ds st) = qs_inputs st @ map input_of ds"
    and "qs_ranks (fold next_queue ds st) = qs_ranks st @ map (\<lambda>d. (finding_id d, finding_rank d)) ds"
    and "qs_graph (fold next_queue ds st) = qs_graph st @ map (\<lambda>d. (finding_id d, finding_dependencies d)) ds"
proof -
  show "qs_ids (fold next_queue ds st) = rev (map finding_id ds) @ qs_ids st"
    by (induction ds arbitrary: st) (simp_all add: next_queue_anchors)
  show "qs_inputs (fold next_queue ds st) = qs_inputs st @ map input_of ds"
    by (induction ds arbitrary: st) (simp_all add: next_queue_tables)
  show "qs_ranks (fold next_queue ds st) = qs_ranks st @ map (\<lambda>d. (finding_id d, finding_rank d)) ds"
    using assms(1,2)
  proof (induction ds arbitrary: st)
    case (Cons d ds)
    then have "qs_ranks (next_queue d st) = qs_ranks st @ [(finding_id d, finding_rank d)]"
      by (auto simp: next_queue_tables intro: dict_set_fresh)
    with Cons show ?case by (auto simp: Cons.IH)
  qed simp
  show "qs_graph (fold next_queue ds st) = qs_graph st @ map (\<lambda>d. (finding_id d, finding_dependencies d)) ds"
    using assms(1,3)
  proof (induction ds arbitrary: st)
    case (Cons d ds)
    then have "qs_graph (next_queue d st) = qs_graph st @ [(finding_id d, finding_dependencies d)]"
      by (auto simp: next_queue_tables intro: dict_set_fresh)
    with Cons show ?case by (auto simp: Cons.IH)
  qed simp
qed

lemma after_findings_counts:
  "qs_actionable (fold next_queue ds st) = qs_actionable st + length (filter is_actionable ds)"
  "qs_blocked (fold next_queue ds st) = qs_blocked st + length (filter (\<lambda>d. \<not> is_actionable d \<and> is_blocked d) ds)"
  "qs_noop (fold next_queue ds st) = qs_noop st + length (filter (\<lambda>d. \<not> is_actionable d) ds)"
proof -
  have step: "qs_actionable (next_queue d u) = qs_actionable u + (if is_actionable d then 1 else 0)"
    "qs_blocked (next_queue d u) = qs_blocked u + (if \<not> is_actionable d \<and> is_blocked d then 1 else 0)"
    "qs_noop (next_queue d u) = qs_noop u + (if is_actionable d then 0 else 1)" for d u
    using next_queue_tables(4) [of d u] by (simp_all add: counters_def split: if_splits)
  show "qs_actionable (fold next_queue ds st) = qs_actionable st + length (filter is_actionable ds)"
    by (induction ds arbitrary: st) (simp_all add: step)
  show "qs_blocked (fold next_queue ds st) = qs_blocked st + length (filter (\<lambda>d. \<not> is_actionable d \<and> is_blocked d) ds)"
    by (induction ds arbitrary: st) (simp_all add: step)
  show "qs_noop (fold next_queue ds st) = qs_noop st + length (filter (\<lambda>d. \<not> is_actionable d) ds)"
    by (induction ds arbitrary: st) (simp_all add: step)
qed

section \<open>Ranks\<close>

text \<open>A finding's rank is its place in the order of priority.\<close>

definition ranked :: "pydict list \<Rightarrow> bool" where
  "ranked ds \<longleftrightarrow> finding_rank ` set ds = int ` {1..length ds} \<and>
     (\<forall>d \<in> set ds. \<forall>e \<in> set ds. finding_rank d < finding_rank e \<longleftrightarrow> priority d < priority e)"

lemma input_of_fields [simp]: "rank_key (input_of d) = priority d" "ri_rank (input_of d) = finding_rank d"
  by (simp_all add: rank_key_def input_of_def priority_def)

lemma ranks_from_one: "set (ranks_from_one n) = int ` {1..n}" "distinct (ranks_from_one n)" "sorted (ranks_from_one n)"
  "length (ranks_from_one n) = n"
  by (simp_all add: ranks_from_one_def distinct_map atLeastLessThanSuc_atLeastAtMost sorted_iff_nth_mono del: upt_Suc)

lemma sort_key_of_distinct:
  fixes f g :: "'a \<Rightarrow> 'b :: linorder"
  assumes "distinct xs" and "inj_on f (set xs)" and "set ys = set xs" and "distinct ys" and "sorted (map f ys)"
  shows "sort_key f xs = ys"
proof -
  have "map f (sort_key f xs) = map f ys"
    by (rule sorted_distinct_set_unique) (use assms in \<open>simp_all add: distinct_map\<close>)
  then show ?thesis using assms(2,3) inj_on_map_eq_map [of f "sort_key f xs" ys] by simp
qed

lemma ranked_iff:
  assumes "distinct (map finding_id ds)"
  shows "sort (map finding_rank ds) = ranks_from_one (length ds) \<and>
      map finding_rank (sort_key priority ds) = ranks_from_one (length ds) \<longleftrightarrow> ranked ds"
proof -
  have dist: "distinct ds" using assms by (simp add: distinct_map)
  have inj: "inj_on priority (set ds)"
  proof (rule inj_onI)
    fix d e assume "d \<in> set ds" "e \<in> set ds" "priority d = priority e"
    then have "finding_id d = finding_id e" by (simp add: priority_def)
    with assms \<open>d \<in> set ds\<close> \<open>e \<in> set ds\<close> show "d = e" by (auto simp: distinct_map inj_on_def)
  qed
  show ?thesis
  proof
    assume *: "sort (map finding_rank ds) = ranks_from_one (length ds) \<and>
      map finding_rank (sort_key priority ds) = ranks_from_one (length ds)"
    define L where "L = sort_key priority ds"
    have L: "set L = set ds" "sorted (map priority L)" "length L = length ds" "distinct L"
      using dist by (simp_all add: L_def)
    have rank: "finding_rank (L ! i) = int (Suc i)" if "i < length L" for i
    proof -
      have "map finding_rank L ! i = ranks_from_one (length ds) ! i" using * by (simp add: L_def)
      then show ?thesis using that L(3) by (simp add: ranks_from_one_def del: upt_Suc)
    qed
    have "finding_rank ` set ds = set (map finding_rank L)" using L(1) by simp
    also have "\<dots> = int ` {1..length ds}" using * ranks_from_one(1) by (simp add: L_def)
    finally have "finding_rank ` set ds = int ` {1..length ds}" .
    moreover have "finding_rank d < finding_rank e \<longleftrightarrow> priority d < priority e" if de: "d \<in> set ds" "e \<in> set ds" for d e
    proof -
      obtain i j where ij: "i < length L" "L ! i = d" "j < length L" "L ! j = e" using de L(1) by (metis in_set_conv_nth)
      have "sorted_wrt (<) (map priority L)" using L(2,4) inj L(1) by (simp add: strict_sorted_iff distinct_map)
      then have less: "i < j \<Longrightarrow> priority (L ! i) < priority (L ! j)" "j < i \<Longrightarrow> priority (L ! j) < priority (L ! i)"
        using ij by (auto simp: sorted_wrt_iff_nth_less)
      show ?thesis using less rank [OF ij(1)] rank [OF ij(3)] ij(2,4) by (cases i j rule: linorder_cases) auto
    qed
    ultimately show "ranked ds" by (simp add: ranked_def)
  next
    assume r: "ranked ds"
    have "length ds = card (finding_rank ` set ds)" using r by (simp add: ranked_def card_image)
    moreover have "card (finding_rank ` set ds) \<le> card (set ds)" by (rule card_image_le) simp
    ultimately have inj_rank: "inj_on finding_rank (set ds)" using distinct_card [OF dist] by (intro eq_card_imp_inj_on) auto
    have sorted: "sort (map finding_rank ds) = ranks_from_one (length ds)"
      by (rule sorted_distinct_set_unique)
        (use r dist inj_rank ranks_from_one in \<open>simp_all add: ranked_def distinct_map\<close>)
    define R where "R = sort_key finding_rank ds"
    have R: "set R = set ds" "distinct R" "sorted (map finding_rank R)" using dist by (simp_all add: R_def)
    have same: "map finding_rank R = sort (map finding_rank ds)"
      by (rule sorted_distinct_set_unique) (use R dist inj_rank in \<open>simp_all add: distinct_map\<close>)
    have "sorted (map priority R)"
      unfolding sorted_wrt_map
    proof (rule sorted_wrt_mono_rel [OF _ R(3) [unfolded sorted_wrt_map]])
      fix x y assume "x \<in> set R" "y \<in> set R" "finding_rank x \<le> finding_rank y"
      then show "priority x \<le> priority y" using r R(1) unfolding ranked_def by (metis not_le)
    qed
    then have "sort_key priority ds = R" using sort_key_of_distinct [OF dist inj R(1,2)] by simp
    with sorted same show "sort (map finding_rank ds) = ranks_from_one (length ds) \<and>
      map finding_rank (sort_key priority ds) = ranks_from_one (length ds)" by simp
  qed
qed


lemma sort_key_map: "sort_key f (map g xs) = map g (sort_key (\<lambda>x. f (g x)) xs)"
proof -
  have "insort_key f (g x) (map g ys) = map g (insort_key (\<lambda>x. f (g x)) x ys)" for x ys
    by (induction ys) simp_all
  then show ?thesis by (induction xs) simp_all
qed

lemma clean_check_ranks:
  assumes "distinct (map finding_id ds)"
  shows "clean (check_ranks (map input_of ds) (length ds)) u \<longleftrightarrow> ranked ds"
  using ranked_iff [OF assms] by (auto simp: check_ranks_def sort_key_map comp_def)

section \<open>Dependencies and duplicates\<close>

definition depends_first :: "pydict list \<Rightarrow> bool" where
  "depends_first ds \<longleftrightarrow> (\<forall>d \<in> set ds. \<forall>x \<in> set (finding_dependencies d). \<exists>e \<in> set ds. finding_id e = x \<and> finding_rank e < finding_rank d)"

definition dependency_graph :: "pydict list \<Rightarrow> graph" where
  "dependency_graph ds = map (\<lambda>d. (finding_id d, finding_dependencies d)) ds"

lemma id_table:
  assumes "distinct (map finding_id ds)" and "d \<in> set ds"
  shows "map_of (map (\<lambda>d. (finding_id d, f d)) ds) (finding_id d) = Some (f d)"
  using assms by (auto simp: comp_def intro!: map_of_is_SomeI)

lemma depends_first_acyclic:
  assumes "distinct (map finding_id ds)" and "depends_first ds"
  shows "acyclic (edges (dependency_graph ds))"
proof (rule acyclicI_order)
  let ?rank = "\<lambda>x. the (map_of (map (\<lambda>d. (finding_id d, finding_rank d)) ds) x)"
  fix x y assume "(x, y) \<in> edges (dependency_graph ds)"
  then have walk: "edge (dependency_graph ds) x y" by (simp add: edges_def)
  then have uses: "y \<in> set (dependencies_of (dependency_graph ds) x)" by (simp add: edge_def)
  from edge_nodes [OF walk] have "x \<in> finding_id ` set ds" by (force simp: dependency_graph_def)
  then obtain d where d: "d \<in> set ds" "x = finding_id d" by blast
  have "dependencies_of (dependency_graph ds) x = finding_dependencies d"
    using id_table [OF assms(1) d(1), of finding_dependencies] by (simp add: dependency_graph_def dependencies_of_def d(2))
  with uses assms(2) d(1) obtain e where e: "e \<in> set ds" "finding_id e = y" "finding_rank e < finding_rank d"
    unfolding depends_first_def by metis
  have "?rank x = finding_rank d" "?rank y = finding_rank e"
    using id_table [OF assms(1) d(1), of finding_rank] id_table [OF assms(1) e(1), of finding_rank] d(2) e(2) by simp_all
  with e(3) show "?rank y < ?rank x" by simp
qed

lemma clean_check_dependencies:
  assumes "distinct (map finding_id ds)" and "set (qs_ids st) = finding_id ` set ds"
    and "qs_ranks st = map (\<lambda>d. (finding_id d, finding_rank d)) ds" and "qs_graph st = dependency_graph ds"
  shows "clean (check_dependencies frames st) u \<longleftrightarrow> depends_first ds \<and> (\<exists>cs. find_cycles frames (dependency_graph ds) = Inr cs)"
proof -
  have silent: "dependency_error (qs_ids st) (qs_ranks st) (finding_id d) x = [] \<longleftrightarrow>
      (\<exists>e \<in> set ds. finding_id e = x \<and> finding_rank e < finding_rank d)" if d: "d \<in> set ds" for d x
  proof (cases "x \<in> finding_id ` set ds")
    case True
    then obtain e where e: "e \<in> set ds" "x = finding_id e" by blast
    have same: "finding_id a = finding_id b \<Longrightarrow> a \<in> set ds \<Longrightarrow> b \<in> set ds \<Longrightarrow> a = b" for a b
      using assms(1) by (auto simp: distinct_map inj_on_def)
    have "dependency_error (qs_ids st) (qs_ranks st) (finding_id d) x = [] \<longleftrightarrow> \<not> finding_rank d \<le> finding_rank e"
      using e d same [of e d] id_table [OF assms(1), of _ finding_rank] True
      by (auto simp: dependency_error_def assms(2,3))
    also have "\<dots> \<longleftrightarrow> (\<exists>e \<in> set ds. finding_id e = x \<and> finding_rank e < finding_rank d)"
      using e same by (auto simp: not_le)
    finally show ?thesis .
  next
    case False
    then have "x \<noteq> finding_id d" using d by blast
    with False show ?thesis by (auto simp: dependency_error_def assms(2))
  qed
  have "concat (map (\<lambda>(fid, xs). concat (map (dependency_error (qs_ids st) (qs_ranks st) fid) xs)) (qs_graph st)) = [] \<longleftrightarrow> depends_first ds"
    using silent by (simp add: assms(4) dependency_graph_def depends_first_def comp_def)
  moreover have "cs = []" if "depends_first ds" "find_cycles frames (dependency_graph ds) = Inr cs" for cs
    using find_cycles_sound [OF that(2)] depends_first_acyclic [OF assms(1) that(1)] by blast
  ultimately show ?thesis
    unfolding check_dependencies_def clean_bindD clean_liftD assms(4) by (auto simp: clean_def)
qed

definition duplicates_resolve :: "pydict list \<Rightarrow> bool" where
  "duplicates_resolve ds \<longleftrightarrow> (\<forall>d \<in> set ds. is_duplicate d \<longrightarrow>
     (\<exists>e \<in> set ds. dict_get d ''duplicate_of'' = JStr (finding_id e) \<and> \<not> is_duplicate e))"

lemma findings_by_id_sound:
  assumes "list_all (\<lambda>d. matched_at d ''id'' is_slug_text) ds" and "distinct (map finding_id ds)"
  shows "findings_by_id (map JObj ds) = map (\<lambda>d. (finding_id d, d)) ds"
proof -
  define body where "body = (\<lambda>raw byid. case raw of
       JObj d \<Rightarrow> (case dict_get d ''id'' of JStr fid \<Rightarrow> dict_set byid fid d | _ \<Rightarrow> byid) | _ \<Rightarrow> byid)"
  have "fold body (map JObj ds) byid = byid @ map (\<lambda>d. (finding_id d, d)) ds" if "set (map finding_id ds) \<inter> fst ` set byid = {}" for byid
    using assms that
  proof (induction ds arbitrary: byid)
    case (Cons d ds)
    then have "body (JObj d) byid = byid @ [(finding_id d, d)]"
      by (auto simp: body_def matched_at_def finding_id_def str_at_def py_str_def dict_set_fresh)
    with Cons show ?case by auto
  qed simp
  from this [of "[]"] show ?thesis by (simp add: findings_by_id_def body_def)
qed

lemma clean_unit_fold: "clean (foldD f () xs) () \<longleftrightarrow> (\<forall>x \<in> set xs. clean (f () x) ())"
  by (induction xs) (simp_all add: ex_unit)

lemma clean_duplicate_targets:
  assumes "distinct (map finding_id ds)"
  shows "clean (foldD (duplicate_target (map (\<lambda>d. (finding_id d, d)) ds)) () (map (\<lambda>d. (finding_id d, d)) ds)) () \<longleftrightarrow> duplicates_resolve ds"
proof -
  define byid where "byid = map (\<lambda>d. (finding_id d, d)) ds"
  have keys: "set (map fst byid) = finding_id ` set ds" by (simp add: byid_def)
  have table: "map_of byid (finding_id e) = Some e" if "e \<in> set ds" for e
    unfolding byid_def using id_table [OF assms that, of "\<lambda>d. d"] .
  have "clean (duplicate_target byid () (fid, d)) () \<longleftrightarrow>
      (is_duplicate d \<longrightarrow> (\<exists>e \<in> set ds. dict_get d ''duplicate_of'' = JStr (finding_id e) \<and> \<not> is_duplicate e))" for fid d
  proof (cases "dict_get d ''duplicate_of''")
    case (JStr t)
    show ?thesis
    proof (cases "t \<in> finding_id ` set ds")
      case True
      then obtain e where e: "e \<in> set ds" "t = finding_id e" by blast
      have "e' \<in> set ds \<Longrightarrow> finding_id e' = finding_id e \<Longrightarrow> e' = e" for e'
        using e assms by (auto simp: distinct_map inj_on_def)
      then show ?thesis using e table [OF e(1)] keys True
        by (auto simp: duplicate_target_def JStr in_str_set_def Let_def simp flip: is_duplicate_def)
    next
      case False
      then show ?thesis using keys by (auto simp: duplicate_target_def JStr in_str_set_def Let_def simp flip: is_duplicate_def)
    qed
  qed (auto simp: duplicate_target_def in_str_set_def Let_def simp flip: is_duplicate_def)
  then show ?thesis
    unfolding clean_unit_fold byid_def [symmetric] duplicates_resolve_def by (simp add: byid_def)
qed

section \<open>Sound queues\<close>

definition sound_queue_safety :: "json \<Rightarrow> bool" where
  "sound_queue_safety v \<longleftrightarrow> (\<exists>d. v = JObj d \<and> set (dict_keys d) = set QUEUE_SAFETY_KEYS \<and>
     dict_get d ''read_only'' = JBool True \<and> dict_get d ''dry_run'' = JBool True \<and>
     (\<forall>key \<in> set FORBIDDEN_ACTIONS. dict_get d key = JBool False) \<and> (\<exists>ss. sound_texts (dict_get d ''notes'') 1 12 8 500 ss))"

definition sound_baseline :: "json \<Rightarrow> int \<Rightarrow> int \<Rightarrow> bool" where
  "sound_baseline v generated declared \<longleftrightarrow> (\<exists>d t. v = JObj d \<and> set (dict_keys d) = set BASELINE_KEYS \<and>
     matched_at d ''observed_at'' (\<lambda>s. instant_of s t) \<and> matched_at d ''catalog_sha256'' is_sha256_text \<and>
     matched_at d ''policy_sha256'' is_sha256_text \<and> integer_at d ''repository_count'' 0 100000 \<and>
     declared = int_at d ''repository_count'' \<and> t \<le> generated \<and> generated - t \<le> 31 * usec_per_day)"

lemma clean_check_queue_safety: "clean (check_queue_safety v) u \<longleftrightarrow> sound_queue_safety v"
proof -
  have flags: "clean (foldD (check_forbidden d) () FORBIDDEN_ACTIONS) () \<longleftrightarrow> (\<forall>key \<in> set FORBIDDEN_ACTIONS. dict_get d key = JBool False)" for d
    by (simp add: clean_unit_fold check_forbidden_def)
  show ?thesis
    unfolding check_queue_safety_def clean_bindD clean_exact_object clean_complain ex_unit flags clean_check_strings clean_retD
      sound_queue_safety_def
    by auto
qed

lemma clean_check_baseline:
  "clean (check_baseline v (Some g)) x \<longleftrightarrow> (\<exists>declared. x = Some declared \<and> sound_baseline v g declared)"
proof -
  have "clean (check_baseline v (Some g)) x \<longleftrightarrow> (\<exists>d t. v = JObj d \<and> set (dict_keys d) = set BASELINE_KEYS \<and>
     matched_at d ''observed_at'' (\<lambda>s. instant_of s t) \<and> matched_at d ''catalog_sha256'' is_sha256_text \<and>
     matched_at d ''policy_sha256'' is_sha256_text \<and> integer_at d ''repository_count'' 0 100000 \<and>
     \<not> g < t \<and> \<not> 31 * usec_per_day < g - t \<and> x = Some (int_at d ''repository_count''))"
    unfolding check_baseline_def clean_bindD clean_exact_object clean_at clean_check_integer clean_complain clean_retD by fastforce
  then show ?thesis unfolding sound_baseline_def not_less by blast
qed

lemma clean_records_of: "clean (records_of v name) xs \<longleftrightarrow> v = JArr xs \<and> 1 \<le> length xs \<and> length xs \<le> 100000"
  by (cases v) (auto simp: records_of_def Let_def)

lemma clean_check_repositories:
  "clean (check_repositories v (Some declared)) out \<longleftrightarrow> (\<exists>rs. v = JArr (map JObj rs) \<and> 1 \<le> length rs \<and> length rs \<le> 100000 \<and>
     list_all sound_repository rs \<and> distinct (map (\<lambda>d. str_at d ''repository'') rs) \<and> declared = int (length rs) \<and>
     out = (length rs, map (\<lambda>d. str_at d ''repository'') rs))"
  unfolding check_repositories_def clean_bindD clean_records_of clean_scan_repositories clean_complain clean_retD by fastforce


lemma loop_tables:
  assumes "distinct (map finding_id ds)"
  shows "set (qs_ids (fold next_queue ds empty_scan)) = finding_id ` set ds"
    and "qs_inputs (fold next_queue ds empty_scan) = map input_of ds"
    and "qs_ranks (fold next_queue ds empty_scan) = map (\<lambda>d. (finding_id d, finding_rank d)) ds"
    and "qs_graph (fold next_queue ds empty_scan) = dependency_graph ds"
  using after_findings [OF assms, of empty_scan] by (simp_all add: empty_scan_def dependency_graph_def)

lemma clean_loop:
  assumes "set order = set SCORE_KEYS" and "distinct order"
  shows "clean (foldD (scan_finding order known) empty_scan (enumerate 0 raws)) st \<longleftrightarrow>
    (\<exists>ds. raws = map JObj ds \<and> list_all (sound_finding known) ds \<and> distinct (map finding_id ds) \<and>
       unshared linear_anchor_of ds \<and> unshared github_anchor_of ds \<and> st = fold next_queue ds empty_scan)"
  unfolding clean_scan_findings [OF assms] anchors_free_iff by (simp add: empty_scan_def)

text \<open>What is asked of the findings, one after the other, given the repositories.\<close>

definition sound_findings :: "pydict list \<Rightarrow> pydict list \<Rightarrow> bool" where
  "sound_findings rs ds \<longleftrightarrow> list_all (sound_finding (map (\<lambda>d. str_at d ''repository'') rs)) ds \<and> distinct (map finding_id ds) \<and>
     unshared linear_anchor_of ds \<and> unshared github_anchor_of ds \<and> ranked ds \<and> depends_first ds \<and> duplicates_resolve ds"

lemma clean_check_findings:
  assumes "set order = set SCORE_KEYS" and "distinct order"
  shows "clean (check_findings frames order (map (\<lambda>d. str_at d ''repository'') rs) raws) st \<longleftrightarrow>
    (\<exists>ds. raws = map JObj ds \<and> sound_findings rs ds \<and> (\<exists>cs. find_cycles frames (dependency_graph ds) = Inr cs) \<and>
       st = fold next_queue ds empty_scan)"
proof -
  let ?known = "map (\<lambda>d. str_at d ''repository'') rs"
  have rest: "clean (check_ranks (qs_inputs st) (length (map JObj ds))) () \<and> clean (check_dependencies frames st) () \<and>
      clean (let byid = findings_by_id (map JObj ds) in foldD (duplicate_target byid) () byid) () \<longleftrightarrow>
      ranked ds \<and> depends_first ds \<and> (\<exists>cs. find_cycles frames (dependency_graph ds) = Inr cs) \<and> duplicates_resolve ds"
    if sound: "list_all (sound_finding ?known) ds" and dist: "distinct (map finding_id ds)" and st: "st = fold next_queue ds empty_scan"
    for ds st
  proof -
    have "list_all (\<lambda>d. matched_at d ''id'' is_slug_text) ds" using sound by (simp add: list_all_iff sound_finding_def)
    then have "findings_by_id (map JObj ds) = map (\<lambda>d. (finding_id d, d)) ds" using findings_by_id_sound dist by blast
    then show ?thesis
      using clean_check_ranks [OF dist] clean_check_dependencies [OF dist loop_tables(1,3,4) [OF dist]]
        clean_duplicate_targets [OF dist] loop_tables(2) [OF dist]
      by (simp add: Let_def st)
  qed
  have "clean (check_findings frames order ?known raws) st \<longleftrightarrow>
      (\<exists>ds. raws = map JObj ds \<and> list_all (sound_finding ?known) ds \<and> distinct (map finding_id ds) \<and>
       unshared linear_anchor_of ds \<and> unshared github_anchor_of ds \<and> st = fold next_queue ds empty_scan \<and>
       clean (check_ranks (qs_inputs st) (length (map JObj ds))) () \<and> clean (check_dependencies frames st) () \<and>
       clean (let byid = findings_by_id (map JObj ds) in foldD (duplicate_target byid) () byid) ())"
    unfolding check_findings_def clean_bindD clean_loop [OF assms] ex_unit clean_retD by blast
  also have "\<dots> \<longleftrightarrow> (\<exists>ds. raws = map JObj ds \<and> sound_findings rs ds \<and>
      (\<exists>cs. find_cycles frames (dependency_graph ds) = Inr cs) \<and> st = fold next_queue ds empty_scan)"
    unfolding sound_findings_def using rest by blast
  finally show ?thesis .
qed

text \<open>A queue of the given repositories and findings.\<close>

definition sound_queue :: "json \<Rightarrow> pydict list \<Rightarrow> pydict list \<Rightarrow> bool" where
  "sound_queue v rs ds \<longleftrightarrow> (\<exists>root generated. v = JObj root \<and> set (dict_keys root) = set QUEUE_KEYS \<and>
     walk_safe QUEUE_FORBIDDEN v ''$'' = [] \<and> dict_get root ''schema_version'' = JStr QUEUE_SCHEMA \<and>
     matched_at root ''queue_id'' is_slug_text \<and> matched_at root ''generated_at'' (\<lambda>s. instant_of s generated) \<and>
     sound_baseline (dict_get root ''baseline'') generated (int (length rs)) \<and>
     dict_get root ''repositories'' = JArr (map JObj rs) \<and> 1 \<le> length rs \<and> length rs \<le> 100000 \<and> list_all sound_repository rs \<and>
     distinct (map (\<lambda>d. str_at d ''repository'') rs) \<and>
     dict_get root ''findings'' = JArr (map JObj ds) \<and> 1 \<le> length ds \<and> length ds \<le> 100000 \<and> sound_findings rs ds \<and>
     sound_queue_safety (dict_get root ''safety''))"

lemma sound_check_findings:
  assumes "set order = set SCORE_KEYS" and "distinct order" and "sound_findings rs ds"
  shows "check_findings frames order (map (\<lambda>d. str_at d ''repository'') rs) (map JObj ds) =
    bindE (find_cycles frames (dependency_graph ds)) (\<lambda>_. Inr (fold next_queue ds empty_scan, []))"
proof (cases "find_cycles frames (dependency_graph ds)")
  case (Inr cs)
  then show ?thesis using clean_check_findings [OF assms(1,2)] assms(3) unfolding clean_def by auto
next
  case (Inl e)
  define st where "st = fold next_queue ds empty_scan"
  note dist = assms(3) [unfolded sound_findings_def, THEN conjunct2, THEN conjunct1]
  have loop: "clean (foldD (scan_finding order (map (\<lambda>d. str_at d ''repository'') rs)) empty_scan (enumerate 0 (map JObj ds))) st"
    using assms(3) unfolding clean_loop [OF assms(1,2)] sound_findings_def st_def by blast
  have ranks: "clean (check_ranks (qs_inputs st) (length (map JObj ds))) ()"
    using assms(3) clean_check_ranks [OF dist] loop_tables(2) [OF dist] by (simp add: sound_findings_def st_def)
  have "check_dependencies frames st = Inl e"
    using Inl loop_tables(4) [OF dist] by (simp add: check_dependencies_def st_def bindD_def liftD_def)
  then show ?thesis unfolding check_findings_def clean_then [OF loop] clean_then [OF ranks] using Inl by (simp add: bindD_def)
qed

text \<open>A sound queue is refused only by the depth of its dependencies.\<close>

lemma sound_queue_facts:
  assumes "set order = set SCORE_KEYS" and "distinct order" and "sound_queue v rs ds"
  shows "queue_facts frames order v =
    bindE (find_cycles frames (dependency_graph ds)) (\<lambda>_. Inr ((length rs, length ds, fold next_queue ds empty_scan), []))"
proof -
  from assms(3) obtain root g where
    root: "v = JObj root" "set (dict_keys root) = set QUEUE_KEYS" "walk_safe QUEUE_FORBIDDEN v ''$'' = []"
      "dict_get root ''schema_version'' = JStr QUEUE_SCHEMA" "matched_at root ''queue_id'' is_slug_text"
      "matched_at root ''generated_at'' (\<lambda>s. instant_of s g)" "sound_baseline (dict_get root ''baseline'') g (int (length rs))"
    and rs: "dict_get root ''repositories'' = JArr (map JObj rs)" "1 \<le> length rs" "length rs \<le> 100000"
      "list_all sound_repository rs" "distinct (map (\<lambda>d. str_at d ''repository'') rs)"
    and ds: "dict_get root ''findings'' = JArr (map JObj ds)" "1 \<le> length ds" "length ds \<le> 100000" "sound_findings rs ds"
      "sound_queue_safety (dict_get root ''safety'')"
    unfolding sound_queue_def by blast
  have slug: "clean (check_slug (dict_get root ''queue_id'') ''queue_id'') (Some (str_at root ''queue_id''))"
    using root(5) by (simp only: clean_check_slug)
  have time: "clean (check_timestamp (dict_get root ''generated_at'') ''generated_at'') (Some g)"
    using root(6) by (simp only: clean_at) blast
  have base: "clean (check_baseline (dict_get root ''baseline'') (Some g)) (Some (int (length rs)))"
    using root(7) by (simp only: clean_check_baseline) blast
  have repos: "clean (check_repositories (dict_get root ''repositories'') (Some (int (length rs))))
      (length rs, map (\<lambda>d. str_at d ''repository'') rs)"
    unfolding clean_check_repositories using rs by blast
  have raws: "clean (records_of (dict_get root ''findings'') ''findings'') (map JObj ds)"
    using ds(1-3) by (simp add: clean_records_of)
  have safe: "clean (check_queue_safety (dict_get root ''safety'')) ()" using ds(5) by (simp only: clean_check_queue_safety)
  have start: "clean (check_walk QUEUE_FORBIDDEN v) ()" "clean (exact_object v QUEUE_KEYS ''$'') root"
    "clean (complain (dict_get root ''schema_version'' \<noteq> JStr QUEUE_SCHEMA) m) ()" for m
    using root(1-4) by simp_all
  have "queue_facts frames order v = bindD (check_findings frames order (map (\<lambda>d. str_at d ''repository'') rs) (map JObj ds))
      (\<lambda>st. retD (length rs, length (map JObj ds), st))"
    unfolding queue_facts_def clean_then [OF start(1)] clean_then [OF start(2)] clean_then [OF start(3)] clean_then [OF slug]
      clean_then [OF time] clean_then [OF base] clean_then [OF repos] prod.case clean_then [OF raws] clean_then [OF safe] ..
  also have "\<dots> = bindE (find_cycles frames (dependency_graph ds))
      (\<lambda>_. Inr ((length rs, length ds, fold next_queue ds empty_scan), []))"
    unfolding sound_check_findings [OF assms(1,2) ds(4)]
    by (cases "find_cycles frames (dependency_graph ds)") (simp_all add: bindD_def retD_def)
  finally show ?thesis .
qed

lemma clean_queue_facts:
  assumes "set order = set SCORE_KEYS" and "distinct order"
  shows "clean (queue_facts frames order v) out \<longleftrightarrow> (\<exists>rs ds. sound_queue v rs ds \<and>
    (\<exists>cs. find_cycles frames (dependency_graph ds) = Inr cs) \<and> out = (length rs, length ds, fold next_queue ds empty_scan))"
proof
  assume "clean (queue_facts frames order v) out"
  then obtain root generated declared known count raws st where
    root: "v = JObj root" "set (dict_keys root) = set QUEUE_KEYS" "walk_safe QUEUE_FORBIDDEN v ''$'' = []"
      "dict_get root ''schema_version'' = JStr QUEUE_SCHEMA" "matched_at root ''queue_id'' is_slug_text"
      "matched_at root ''generated_at'' (\<lambda>s. instant_of s generated)" "sound_baseline (dict_get root ''baseline'') generated declared"
      "clean (check_repositories (dict_get root ''repositories'') (Some declared)) (count, known)"
      "dict_get root ''findings'' = JArr raws" "1 \<le> length raws" "length raws \<le> 100000"
      "clean (check_findings frames order known raws) st" "sound_queue_safety (dict_get root ''safety'')"
    and out: "out = (count, length raws, st)"
    unfolding queue_facts_def clean_bindD clean_exact_object clean_complain clean_check_slug clean_at clean_check_walk ex_unit
      clean_check_queue_safety clean_records_of
    by (auto simp: clean_check_baseline clean_records_of clean_check_queue_safety)
  from root(8) obtain rs where rs: "dict_get root ''repositories'' = JArr (map JObj rs)" "1 \<le> length rs" "length rs \<le> 100000"
    "list_all sound_repository rs" "distinct (map (\<lambda>d. str_at d ''repository'') rs)" "declared = int (length rs)"
    "count = length rs" "known = map (\<lambda>d. str_at d ''repository'') rs" by (auto simp: clean_check_repositories)
  from root(12) obtain ds where ds: "raws = map JObj ds" "sound_findings rs ds" "\<exists>cs. find_cycles frames (dependency_graph ds) = Inr cs"
    "st = fold next_queue ds empty_scan" unfolding rs(8) clean_check_findings [OF assms] by blast
  have "sound_queue v rs ds"
    unfolding sound_queue_def using root(1-7,9-11,13) rs(1-6) ds(1,2) by (intro exI [of _ root] exI [of _ generated]) simp
  then show "\<exists>rs ds. sound_queue v rs ds \<and>
    (\<exists>cs. find_cycles frames (dependency_graph ds) = Inr cs) \<and> out = (length rs, length ds, fold next_queue ds empty_scan)"
    using out rs(7) ds by auto
next
  assume "\<exists>rs ds. sound_queue v rs ds \<and>
    (\<exists>cs. find_cycles frames (dependency_graph ds) = Inr cs) \<and> out = (length rs, length ds, fold next_queue ds empty_scan)"
  then show "clean (queue_facts frames order v) out" using sound_queue_facts [OF assms] by (auto simp: clean_def)
qed

section \<open>The report\<close>

lemma queue_report_of:
  assumes "queue_facts frames order v = Inr ((count, amount, st), errors)"
  shows "validate_queue frames order v = Inr \<lparr>qr_valid = (errors = [] \<and> finite_json v), qr_sha256 = canonical_sha256 v,
    qr_repositories = count, qr_findings = amount, qr_actionable = qs_actionable st, qr_blocked = qs_blocked st, qr_noop = qs_noop st,
    qr_errors = (if finite_json v then errors else errors @ [queue_not_compliant])\<rparr>"
  using assms by (simp add: validate_queue_def Let_def canonical_sha256_def)

definition sound_report_of :: "json \<Rightarrow> pydict list \<Rightarrow> pydict list \<Rightarrow> queue_report" where
  "sound_report_of v rs ds = \<lparr>qr_valid = True, qr_sha256 = Some (sha256_hexdigest (canonical v)),
     qr_repositories = length rs, qr_findings = length ds, qr_actionable = length (filter is_actionable ds),
     qr_blocked = length (filter (\<lambda>d. \<not> is_actionable d \<and> is_blocked d) ds),
     qr_noop = length (filter (\<lambda>d. \<not> is_actionable d) ds), qr_errors = []\<rparr>"

lemma queue_valid_iff:
  assumes "set order = set SCORE_KEYS" and "distinct order"
  shows "(\<forall>rep. validate_queue frames order v = Inr rep \<longrightarrow>
      (qr_valid rep \<longleftrightarrow> finite_json v \<and> (\<exists>rs ds. sound_queue v rs ds))) \<and>
    (\<forall>rs ds. sound_queue v rs ds \<and> finite_json v \<longrightarrow>
      validate_queue frames order v = bindE (find_cycles frames (dependency_graph ds)) (\<lambda>_. Inr (sound_report_of v rs ds)) \<and>
      (length ds < frames \<longrightarrow> validate_queue frames order v = Inr (sound_report_of v rs ds)))"
proof -
  have facts: "errors = [] \<longleftrightarrow> (\<exists>rs ds. sound_queue v rs ds)"
    if run: "queue_facts frames order v = Inr (out, errors)" for out errors
  proof
    assume "errors = []"
    then show "\<exists>rs ds. sound_queue v rs ds" using run clean_queue_facts [OF assms] unfolding clean_def by blast
  next
    assume "\<exists>rs ds. sound_queue v rs ds"
    then obtain rs ds where "sound_queue v rs ds" by blast
    from sound_queue_facts [OF assms this, of frames] run show "errors = []"
      by (cases "find_cycles frames (dependency_graph ds)") simp_all
  qed
  have "qr_valid rep \<longleftrightarrow> finite_json v \<and> (\<exists>rs ds. sound_queue v rs ds)" if "validate_queue frames order v = Inr rep" for rep
  proof -
    from that obtain count amount st errors where run: "queue_facts frames order v = Inr ((count, amount, st), errors)"
      by (auto simp: validate_queue_def)
    with that queue_report_of [OF run] have "qr_valid rep \<longleftrightarrow> errors = [] \<and> finite_json v" by auto
    with facts [OF run] show ?thesis by blast
  qed
  moreover have "validate_queue frames order v = bindE (find_cycles frames (dependency_graph ds)) (\<lambda>_. Inr (sound_report_of v rs ds))"
    if "sound_queue v rs ds" "finite_json v" for rs ds
  proof (cases "find_cycles frames (dependency_graph ds)")
    case (Inl e)
    then show ?thesis using sound_queue_facts [OF assms that(1), of frames] by (simp add: validate_queue_def)
  next
    case (Inr cs)
    then have "queue_facts frames order v = Inr ((length rs, length ds, fold next_queue ds empty_scan), [])"
      using sound_queue_facts [OF assms that(1), of frames] by simp
    from queue_report_of [OF this] Inr that(2) show ?thesis
      by (simp add: sound_report_of_def after_findings_counts empty_scan_def canonical_sha256_def)
  qed
  moreover have "bindE (find_cycles frames (dependency_graph ds)) (\<lambda>_. Inr y) = Inr y" if "length ds < frames" for ds and y :: queue_report
  proof -
    have "card (nodes (dependency_graph ds)) < frames"
      using that card_length [of "map fst (dependency_graph ds)"] by (simp add: dependency_graph_def image_image)
    from find_cycles_returns [OF this] show ?thesis by auto
  qed
  ultimately show ?thesis by metis
qed

text \<open>
  C29. For a document without numbers that are not finite, \<^verbatim>\<open>validate\<close> reports a valid queue exactly when the queue
  is sound: every record and every finding is well formed and authorises nothing, no two findings share an id, a later
  finding repeats an anchor of an earlier one only as a duplicate, the ranks are the places in the order of tier,
  severity, score and id, what a finding depends on ranks earlier, and every duplicate names a finding that is none.
  A sound queue is refused only where the search for cycles runs out of frames, which a frame for every finding
  excludes; the counters of its report are those of its findings.
\<close>

theorem queue_valid_exact:
  assumes "set order = set SCORE_KEYS" and "distinct order"
  shows "(\<forall>rep. validate_queue frames order v = Inr rep \<longrightarrow>
      (qr_valid rep \<longleftrightarrow> finite_json v \<and> (\<exists>rs ds. sound_queue v rs ds))) \<and>
    (\<forall>rs ds. sound_queue v rs ds \<and> finite_json v \<longrightarrow>
      validate_queue frames order v = bindE (find_cycles frames (dependency_graph ds)) (\<lambda>_. Inr (sound_report_of v rs ds)) \<and>
      (length ds < frames \<longrightarrow> validate_queue frames order v = Inr (sound_report_of v rs ds)))"
  by (rule queue_valid_iff [OF assms])

lemma sound_plan:
  assumes "sound_findings rs ds"
  shows "map finding_rank (sort_key finding_rank ds) = ranks_from_one (length ds)"
    and "sorted_wrt (\<lambda>d e. priority d < priority e) (sort_key finding_rank ds)"
    and "i < length ds \<Longrightarrow> x \<in> set (finding_dependencies (sort_key finding_rank ds ! i)) \<Longrightarrow>
      \<exists>j<i. finding_id (sort_key finding_rank ds ! j) = x"
proof -
  define plan where "plan = sort_key finding_rank ds"
  have ds: "distinct (map finding_id ds)" "ranked ds" "depends_first ds" using assms by (simp_all add: sound_findings_def)
  have ranks: "sort (map finding_rank ds) = ranks_from_one (length ds)" using ranked_iff [OF ds(1)] ds(2) by blast
  have plan: "map finding_rank plan = sort (map finding_rank ds)"
    using sort_key_map [of "\<lambda>r. r" finding_rank ds] by (simp add: plan_def)
  with ranks show by_rank: "map finding_rank (sort_key finding_rank ds) = ranks_from_one (length ds)" by (simp add: plan_def)
  have increasing: "sorted_wrt (\<lambda>d e. finding_rank d < finding_rank e) plan"
    using ranks_from_one(2,3) [of "length ds"] unfolding sorted_wrt_map [symmetric] plan ranks
    by (simp add: strict_sorted_iff)
  show "sorted_wrt (\<lambda>d e. priority d < priority e) (sort_key finding_rank ds)"
    unfolding plan_def [symmetric]
    by (rule sorted_wrt_mono_rel [OF _ increasing]) (use ds(2) in \<open>auto simp: ranked_def plan_def\<close>)
  show "\<exists>j<i. finding_id (sort_key finding_rank ds ! j) = x"
    if i: "i < length ds" and x: "x \<in> set (finding_dependencies (sort_key finding_rank ds ! i))"
  proof -
    have "plan ! i \<in> set ds" using i by (metis length_sort nth_mem plan_def set_sort)
    with ds(3) x obtain e where e: "e \<in> set ds" "finding_id e = x" "finding_rank e < finding_rank (plan ! i)"
      unfolding depends_first_def plan_def by metis
    then obtain j where j: "j < length plan" "plan ! j = e" by (metis in_set_conv_nth plan_def set_sort)
    have "\<not> i \<le> j"
    proof
      assume "i \<le> j"
      then have "i = j \<or> finding_rank (plan ! i) < finding_rank (plan ! j)"
        using sorted_wrt_nth_less [OF increasing, of i j] j(1) by (auto simp: le_less)
      with e(3) j(2) show False by auto
    qed
    with j e(2) show ?thesis by (auto simp: plan_def not_le)
  qed
qed

text \<open>
  C30. Working through a queue that was reported as valid in the order of its ranks is safe: the ranks are exactly 1
  to the number of findings and follow the priorities strictly, every finding comes after the findings it depends on,
  every remediation is a dry run without authority to apply it, the safety block authorises nothing, and every finding
  is counted as actionable or as one without action.
\<close>

theorem queue_plan:
  assumes "set order = set SCORE_KEYS" and "distinct order"
    and "validate_queue frames order v = Inr rep" and "qr_valid rep"
  shows "\<exists>rs ds. sound_queue v rs ds \<and> map finding_rank (sort_key finding_rank ds) = ranks_from_one (length ds) \<and>
    sorted_wrt (\<lambda>d e. priority d < priority e) (sort_key finding_rank ds) \<and>
    (\<forall>i < length ds. \<forall>x \<in> set (finding_dependencies (sort_key finding_rank ds ! i)).
       \<exists>j<i. finding_id (sort_key finding_rank ds ! j) = x) \<and>
    (\<forall>d \<in> set ds. \<exists>r. dict_get d ''remediation'' = JObj r \<and> dict_get r ''dry_run'' = JBool True \<and>
       dict_get r ''apply_authorized'' = JBool False) \<and>
    qr_findings rep = length ds \<and> qr_actionable rep + qr_noop rep = qr_findings rep \<and> qr_blocked rep \<le> qr_noop rep"
proof -
  from queue_valid_iff [OF assms(1,2)] assms(3,4) obtain rs ds where sound: "sound_queue v rs ds" and fin: "finite_json v"
    by blast
  have findings: "sound_findings rs ds" using sound by (auto simp: sound_queue_def)
  have rep: "rep = sound_report_of v rs ds"
    using queue_valid_iff [OF assms(1,2)] sound fin assms(3)
    by (cases "find_cycles frames (dependency_graph ds)") fastforce+
  have "\<exists>r. dict_get d ''remediation'' = JObj r \<and> dict_get r ''dry_run'' = JBool True \<and> dict_get r ''apply_authorized'' = JBool False"
    if "d \<in> set ds" for d
    using findings that by (auto simp: sound_findings_def list_all_iff sound_finding_def sound_remediation_def)
  moreover have "qr_actionable rep + qr_noop rep = qr_findings rep"
    by (simp add: rep sound_report_of_def sum_length_filter_compl)
  moreover have "length (filter (\<lambda>d. \<not> is_actionable d \<and> is_blocked d) ds) \<le> length (filter (\<lambda>d. \<not> is_actionable d) ds)"
    by (induction ds) auto
  ultimately show ?thesis
    using sound sound_plan [OF findings] by (intro exI [of _ rs] exI [of _ ds]) (simp add: rep sound_report_of_def)
qed


section \<open>What validation raises\<close>

definition findings_count :: "json \<Rightarrow> nat" where
  "findings_count v = (case v of JObj root \<Rightarrow> (case dict_get root ''findings'' of JArr xs \<Rightarrow> length xs | _ \<Rightarrow> 0) | _ \<Rightarrow> 0)"

definition lookup_errors :: "py_exc set" where
  "lookup_errors = {TypeError, ValueError}"

lemma raises_fields [raises_intros]:
  "raises lookup_errors (check_slug v path)" "raises lookup_errors (optional_sha v path)"
  "raises lookup_errors (check_integer v path i j)" "raises lookup_errors (check_strings v path lo hi a b)"
  "raises lookup_errors (check_repository v path)" "raises lookup_errors (check_branch v path)"
proof -
  have "returns (check_slug v path)" "returns (optional_sha v path)" "returns (check_repository v path)" "returns (check_branch v path)"
    unfolding check_slug_def optional_sha_def check_repository_def check_branch_def by (intro returns_intros)+
  moreover have "returns (check_integer v path i j)"
    by (cases v) (auto simp: check_integer_def Let_def intro!: returns_intros)
  moreover have "returns (check_strings v path lo hi a b)"
  proof -
    have [returns_intros]: "returns (scan_string p l h found ir)" for p l h found ir
      unfolding scan_string_def by (cases ir) (auto intro!: returns_intros)
    show ?thesis unfolding check_strings_def Let_def by (intro returns_intros)
  qed
  ultimately show "raises lookup_errors (check_slug v path)" "raises lookup_errors (optional_sha v path)"
    "raises lookup_errors (check_integer v path i j)" "raises lookup_errors (check_strings v path lo hi a b)"
    "raises lookup_errors (check_repository v path)" "raises lookup_errors (check_branch v path)"
    by (blast intro: raises_returns)+
qed

lemma raises_urlparse: "urlparse s = Inl e \<Longrightarrow> e = ValueError"
  by (auto simp: urlparse_def split_netloc_def Let_def bindE_def split: prod.splits if_splits sum.splits)

lemma raises_lifted [raises_intros]:
  "raises lookup_errors (liftD (urlparse s))" "raises lookup_errors (liftD (in_str_set v names))"
  "raises lookup_errors (liftD (issue_parts parts))"
  using raises_urlparse
  by (auto simp: raises_liftD lookup_errors_def in_str_set_def issue_parts_def int_of_digit_text_def bindE_def
      split: json.splits if_splits sum.splits)

lemma raises_check_url [raises_intros]: "raises lookup_errors (check_url hosts v path)"
  unfolding check_url_def by (intro raises_intros)

lemma raises_anchors [raises_intros]:
  "raises lookup_errors (github_anchor v path)" "raises lookup_errors (check_member d path key allowed)"
  unfolding github_anchor_def check_member_def by (intro raises_intros)+

lemma raises_repository [raises_intros]: "raises lookup_errors (scan_repository known ir)"
  unfolding scan_repository_def check_repository_record_def check_head_def check_posture_def if_given_def Let_def
  by (cases ir) (simp only: prod.case, intro raises_intros)

lemma raises_finding_parts [raises_intros]:
  "raises lookup_errors (check_remediation v path disposition)" "raises lookup_errors (check_enums d path)"
  "raises lookup_errors (check_disposition d path)" "raises lookup_errors (check_linear d path)" "raises lookup_errors (check_owner d path)"
  "raises lookup_errors (check_duplicate_of d path)" "raises lookup_errors (check_scores order v path)"
  "raises lookup_errors (claim_anchor label duplicate a fid rank anchors)" "raises lookup_errors (check_identity known d path st)"
proof -
  have [raises_intros]: "raises lookup_errors (scan_score sd p found name)" for sd p found name
    unfolding scan_score_def by (intro raises_intros)
  show "raises lookup_errors (check_identity known d path st)"
    unfolding check_identity_def by (intro raises_intros)
  show "raises lookup_errors (claim_anchor label duplicate a fid rank anchors)"
    by (cases fid; cases rank; cases a) (auto simp: claim_anchor_def intro!: raises_intros split: option.split)
  show "raises lookup_errors (check_remediation v path disposition)" "raises lookup_errors (check_enums d path)"
    "raises lookup_errors (check_disposition d path)" "raises lookup_errors (check_linear d path)" "raises lookup_errors (check_owner d path)"
    "raises lookup_errors (check_duplicate_of d path)" "raises lookup_errors (check_scores order v path)"
    unfolding check_remediation_def check_plan_def check_enums_def check_disposition_def check_linear_def check_owner_def
      check_duplicate_of_def check_scores_def Let_def
    by (intro raises_intros)+
qed

lemma raises_scan_finding [raises_intros]: "raises lookup_errors (scan_finding order known st ir)"
  unfolding scan_finding_def Let_def by (cases ir) (simp only: prod.case, intro raises_intros)

text \<open>The loop adds at most one node to the graph for each finding.\<close>

definition gives :: "('a \<Rightarrow> bool) \<Rightarrow> 'a diag \<Rightarrow> bool" where
  "gives P m \<longleftrightarrow> (\<forall>x es. m = Inr (x, es) \<longrightarrow> P x)"

lemma gives_bindD: "gives Q m \<Longrightarrow> (\<And>x. Q x \<Longrightarrow> gives P (f x)) \<Longrightarrow> gives P (bindD m f)"
  by (cases m) (fastforce simp: gives_def bindD_def bindE_eq_Inr_iff)+

lemma gives_after: "(\<And>x. gives P (f x)) \<Longrightarrow> gives P (bindD m f)"
  by (rule gives_bindD [of "\<lambda>_. True"]) (simp_all add: gives_def)

lemma gives_retD: "P x \<Longrightarrow> gives P (retD x)"
  by (simp add: gives_def retD_def)

lemma length_dict_set: "length (dict_set d k v) \<le> Suc (length d)"
  by (induction d) auto

lemma scan_finding_graph: "gives (\<lambda>t. length (qs_graph t) \<le> Suc (length (qs_graph st))) (scan_finding order known st (i, raw))"
proof -
  have ident: "gives (\<lambda>(_, _, t). qs_graph t = qs_graph st) (check_identity known d path st)" for d path
    unfolding check_identity_def by (intro gives_after gives_retD) simp
  show ?thesis
    unfolding scan_finding_def prod.case Let_def
    by (rule gives_after, rule gives_bindD [OF ident], clarify, (rule gives_after | clarify)+, rule gives_retD)
      (auto simp: length_dict_set split: option.split)
qed

lemma loop_graph:
  assumes "foldD (scan_finding order known) st (enumerate n raws) = Inr (t, es)"
  shows "length (qs_graph t) \<le> length (qs_graph st) + length raws"
  using assms
proof (induction raws arbitrary: st n es)
  case (Cons raw raws)
  then obtain u ds ts where "scan_finding order known st (n, raw) = Inr (u, ds)"
    "foldD (scan_finding order known) u (enumerate (Suc n) raws) = Inr (t, ts)"
    by (auto simp: bindD_def bindE_eq_Inr_iff)
  with Cons.IH [of u "Suc n" ts] scan_finding_graph [of st order known n raw] show ?case by (auto simp: gives_def)
qed (simp add: retD_def)

lemma raises_visit: "visit n g node stack s = Inl e \<Longrightarrow> e = RecursionError"
proof (induction n arbitrary: node stack s)
  case (Suc n)
  have loop: "foldE (\<lambda>u x. if x \<in> nodes g then visit n g x (stack @ [node]) u else Inr u) v xs = Inl e \<Longrightarrow> e = RecursionError" for v xs
    by (induction xs arbitrary: v) (auto simp: bindE_eq_Inl_iff split: if_splits intro: Suc.IH)
  from Suc.prems show ?case by (auto simp: bindE_eq_Inl_iff split: if_splits intro: loop)
qed simp

lemma raises_find_cycles: "find_cycles n g = Inl e \<Longrightarrow> e = RecursionError \<and> n \<le> length g"
proof
  assume run: "find_cycles n g = Inl e"
  have "card (nodes g) \<le> length g" using card_length [of "map fst g"] by simp
  then show "n \<le> length g" using find_cycles_returns [of g n] run by (cases "card (nodes g) < n") auto
  have "foldE (\<lambda>s (node, ds). visit n g node [] s) v xs = Inl e \<Longrightarrow> e = RecursionError" for v and xs :: graph
    by (induction xs arbitrary: v) (auto simp: bindE_eq_Inl_iff dest: raises_visit)
  then show "e = RecursionError" using run by (auto simp: find_cycles_def bindE_eq_Inl_iff)
qed

lemma raises_check_findings:
  "raises (lookup_errors \<union> (if frames \<le> length raws then {RecursionError} else {})) (check_findings frames order known raws)"
proof -
  let ?E = "lookup_errors \<union> (if frames \<le> length raws then {RecursionError} else {})"
  note wide = raises_mono [of lookup_errors _ ?E]
  have loop: "raises ?E (foldD (scan_finding order known) empty_scan (enumerate 0 raws))"
    by (rule wide) (intro raises_intros, simp)
  have tail: "raises ?E (bindD (check_ranks (qs_inputs st) (length raws)) (\<lambda>_. bindD (check_dependencies frames st) (\<lambda>_.
     bindD (let byid = findings_by_id raws in foldD (duplicate_target byid) () byid) (\<lambda>_. retD st))))"
    if "length (qs_graph st) \<le> length raws" for st
  proof -
    have "raises ?E (check_dependencies frames st)"
      unfolding check_dependencies_def
      by (intro raises_intros) (use raises_find_cycles [of frames "qs_graph st"] that in \<open>auto simp: raises_liftD\<close>)
    moreover have "raises lookup_errors (duplicate_target byid u fd)" for byid u fd
      unfolding duplicate_target_def Let_def by (cases fd) (simp only: prod.case, intro raises_intros)
    then have "raises ?E (let byid = findings_by_id raws in foldD (duplicate_target byid) () byid)"
      unfolding Let_def by (intro wide raises_foldD) auto
    ultimately show ?thesis unfolding check_ranks_def by (intro raises_intros)
  qed
  show ?thesis
  proof (cases "foldD (scan_finding order known) empty_scan (enumerate 0 raws)")
    case (Inl e)
    then show ?thesis using loop by (simp add: check_findings_def raises_def bindD_def)
  next
    case (Inr r)
    obtain st es where r: "r = (st, es)" by (cases r)
    have "length (qs_graph st) \<le> length raws" using loop_graph [OF Inr [unfolded r]] by (simp add: empty_scan_def)
    from tail [OF this] show ?thesis
      using Inr unfolding check_findings_def by (auto simp: raises_def bindD_def r bindE_eq_Inl_iff)
  qed
qed

lemma raises_given: "gives Q m \<Longrightarrow> raises E m \<Longrightarrow> (\<And>x. Q x \<Longrightarrow> raises E (f x)) \<Longrightarrow> raises E (bindD m f)"
  by (cases m) (fastforce simp: gives_def raises_def bindD_def bindE_eq_Inl_iff)+

lemma raises_sections [raises_intros]:
  "raises lookup_errors (check_baseline w g)" "raises lookup_errors (check_queue_safety w)" "raises lookup_errors (records_of w name)"
  "raises lookup_errors (check_repositories w declared)"
proof -
  have [raises_intros]: "raises lookup_errors (check_forbidden d u k)" for d u k
    unfolding check_forbidden_def by (intro raises_intros)
  have [raises_intros]: "raises lookup_errors (records_of w n)" for w n
    by (cases w) (auto simp: records_of_def Let_def intro!: raises_intros)
  show "raises lookup_errors (check_baseline w g)" "raises lookup_errors (check_queue_safety w)"
    "raises lookup_errors (records_of w name)" "raises lookup_errors (check_repositories w declared)"
    unfolding check_baseline_def check_queue_safety_def check_repositories_def by (intro raises_intros)+
qed

definition queue_errors_of :: "nat \<Rightarrow> json \<Rightarrow> py_exc set" where
  "queue_errors_of frames v = lookup_errors \<union> (if frames \<le> findings_count v then {RecursionError} else {})"

lemma findings_given:
  assumes "v = JObj root \<or> root = []"
  shows "gives (\<lambda>xs. length xs \<le> findings_count v) (records_of (dict_get root ''findings'') ''findings'')"
  using assms by (cases "dict_get root ''findings''") (auto simp: gives_def records_of_def Let_def retD_def blame_def findings_count_def)

lemma raises_queue_facts: "raises (queue_errors_of frames v) (queue_facts frames order v)"
proof -
  have wide: "raises lookup_errors m \<Longrightarrow> raises (queue_errors_of frames v) m" for m :: "'x diag"
    by (rule raises_mono) (auto simp: queue_errors_of_def)
  have root: "gives (\<lambda>root. v = JObj root \<or> root = []) (exact_object v QUEUE_KEYS ''$'')"
    by (cases v) (auto simp: gives_def exact_object_def blame_def bindD_def retD_def complain_def)
  have shape: "raises (queue_errors_of frames v) (exact_object v QUEUE_KEYS ''$'')" "raises (queue_errors_of frames v) (check_walk QUEUE_FORBIDDEN v)"
    by (intro raises_intros)+
  have findings: "raises (queue_errors_of frames v) (check_findings frames order known xs)" if "length xs \<le> findings_count v" for known xs
    by (rule raises_mono [OF raises_check_findings]) (use that in \<open>auto simp: queue_errors_of_def\<close>)
  have timestamp: "raises (queue_errors_of frames v) (check_timestamp w p)" for w p by (intro raises_intros)
  have fields: "raises (queue_errors_of frames v) (check_slug w p)" "raises (queue_errors_of frames v) (check_baseline w g)"
    "raises (queue_errors_of frames v) (check_repositories w d)" "raises (queue_errors_of frames v) (check_queue_safety w)"
    "raises (queue_errors_of frames v) (records_of w p)" for w p g d
    by (intro wide raises_intros)+
  show ?thesis
    unfolding queue_facts_def
    by (rule raises_bindD [OF shape(2)], rule raises_given [OF root shape(1)])
      (intro raises_bindD [OF fields(1)] raises_bindD [OF fields(2)] raises_bindD [OF fields(3)] raises_bindD [OF timestamp]
        raises_bindD [OF raises_basic(2)] raises_bindD [OF fields(4)] raises_cases(2) raises_given [OF findings_given fields(5)]
        raises_bindD [OF findings] raises_basic(1); assumption)
qed

text \<open>
  \<^verbatim>\<open>validate\<close> on an interpreter with a bounded stack: the walk over the document comes first and needs a
  frame for every level of nesting, the cycle search needs one for every finding on a chain of dependencies.
  \<open>depth\<close> and \<open>frames\<close> are the nested calls that the two have left.
\<close>

definition validate_within :: "nat \<Rightarrow> nat \<Rightarrow> string list \<Rightarrow> json \<Rightarrow> queue_report result" where
  "validate_within depth frames order v =
     bindE (walk_within depth QUEUE_FORBIDDEN v ''$'') (\<lambda>_. validate_queue frames order v)"

lemma validate_within_eq:
  "validate_within depth frames order v = (if nesting v \<le> depth then validate_queue frames order v else Inl RecursionError)"
  by (simp add: validate_within_def walk_within_eq)

text \<open>
  C31. Validation returns a report for almost every document. What escapes it is a TypeError (a field compared with an
  enumeration holds a list or an object), a ValueError (an anchor whose address the parser refuses, or whose number is
  made of superscript digits) or a RecursionError, and the last only where the document is nested deeper than the
  frames left to the walk, when it always does, or has as many findings as the frames left to the cycle search.
\<close>

theorem queue_errors:
  assumes "validate_within depth frames order v = Inl e"
  shows "(e = TypeError \<or> e = ValueError \<or> e = RecursionError \<and> (depth < nesting v \<or> frames \<le> findings_count v)) \<and>
    (depth < nesting v \<longrightarrow> e = RecursionError)"
proof (intro conjI impI)
  have within: "e = TypeError \<or> e = ValueError \<or> e = RecursionError \<and> frames \<le> findings_count v" if "nesting v \<le> depth"
  proof -
    from assms that have "validate_queue frames order v = Inl e" by (simp add: validate_within_eq)
    then have "queue_facts frames order v = Inl e" by (auto simp: validate_queue_def Let_def bindE_eq_Inl_iff split: prod.splits)
    with raises_queue_facts [of frames v order] show ?thesis
      by (auto simp: raises_def queue_errors_of_def lookup_errors_def split: if_splits)
  qed
  from within assms show "e = TypeError \<or> e = ValueError \<or> e = RecursionError \<and> (depth < nesting v \<or> frames \<le> findings_count v)"
    by (cases "nesting v \<le> depth") (auto simp: validate_within_eq)
  show "e = RecursionError" if "depth < nesting v" using assms that by (simp add: validate_within_eq)
qed

section \<open>A sample queue\<close>

definition sample_commit :: string where "sample_commit = replicate 40 (CHR ''1'')"

definition sample_repository :: pydict where
  "sample_repository = [(''repository'', JStr ''ores/core''), (''visibility'', JStr ''private''), (''lifecycle'', JStr ''active''),
     (''canonical_role'', JStr ''monorepo''), (''default_branch'', JStr ''main''), (''observed_head'', JStr sample_commit),
     (''linear_project_url'', JNull), (''github_project_url'', JStr ''https://github.com/orgs/ores''), (''agents_sha256'', JStr digest_a),
     (''toolchain'', JArr (map JStr [''rust''])), (''ci_state'', JStr ''missing''), (''security_policy'', JBool False),
     (''license_spdx'', JStr ''MIT''), (''release_path'', JStr ''none''), (''test_maturity'', JStr ''L1''),
     (''deployment_boundary'', JStr ''test''), (''expectation_profile'', JStr ''rust-service''), (''current_state_sha256'', JStr digest_b)]"

definition sample_scores :: pydict where
  "sample_scores = map (\<lambda>name. (name, JInt 40)) SCORE_KEYS"

definition sample_finding :: "string \<Rightarrow> int \<Rightarrow> string \<Rightarrow> string \<Rightarrow> string \<Rightarrow> json \<Rightarrow> string list \<Rightarrow> pydict \<Rightarrow> pydict" where
  "sample_finding fid rank state disposition linear github needs remediation =
     [(''id'', JStr fid), (''rank'', JInt rank), (''repository'', JStr ''ores/core''), (''category'', JStr ''ci_missing''),
      (''state'', JStr state), (''severity'', JStr ''high''), (''disposition'', JStr disposition), (''evidence_sha256'', JStr digest_a),
      (''baseline_value_sha256'', JNull), (''current_value_sha256'', JStr digest_b), (''linear_anchor'', JStr linear),
      (''github_anchor'', github), (''owner'', JStr ''platform''), (''duplicate_of'', JNull), (''depends_on'', JArr (map JStr needs)),
      (''scores'', JObj sample_scores), (''remediation'', JObj remediation)]"

definition sample_remediation :: "json \<Rightarrow> json \<Rightarrow> string list \<Rightarrow> pydict" where
  "sample_remediation branch base checks = [(''branch_name'', branch), (''base_commit'', base),
     (''acceptance_checks'', JArr (map JStr checks)), (''dry_run'', JBool True), (''apply_authorized'', JBool False),
     (''residual_risk'', JStr ''low residual risk'')]"

definition sample_first :: pydict where
  "sample_first = sample_finding ''add-ci'' 1 ''missing'' ''draft_pr'' ''DEN-1'' (JStr ''https://github.com/ores/core/issues/7'') []
     (sample_remediation (JStr ''ci/add'') (JStr sample_commit) [''workflow runs'', ''tests pass''])"

definition sample_second :: pydict where
  "sample_second = sample_finding ''gate-merge'' 2 ''externally_blocked'' ''noop_blocked'' ''DEN-2'' JNull [''add-ci'']
     (sample_remediation JNull JNull [])"

definition sample_guard :: pydict where
  "sample_guard = [(''read_only'', JBool True), (''dry_run'', JBool True)] @ map (\<lambda>key. (key, JBool False)) FORBIDDEN_ACTIONS
     @ [(''notes'', JArr (map JStr [''Draft plans only.'']))]"

definition sample_queue_root :: pydict where
  "sample_queue_root = [(''schema_version'', JStr QUEUE_SCHEMA), (''queue_id'', JStr ''portfolio-queue''),
     (''generated_at'', JStr (sample_text 9 12)),
     (''baseline'', JObj [(''observed_at'', JStr (sample_text 9 7)), (''catalog_sha256'', JStr digest_a),
        (''policy_sha256'', JStr digest_b), (''repository_count'', JInt 1)]),
     (''repositories'', JArr (map JObj [sample_repository])), (''findings'', JArr (map JObj [sample_first, sample_second])),
     (''safety'', JObj sample_guard)]"

definition sample_queue :: json where "sample_queue = JObj sample_queue_root"

lemma sample_queue_texts: "is_sha256_text digest_a" "is_sha256_text digest_b" "is_commit_text sample_commit"
  "is_slug_text ''portfolio-queue''" "is_slug_text ''rust-service''" "is_slug_text ''add-ci''" "is_slug_text ''gate-merge''"
  "safe_branch ''main''" "safe_branch ''ci/add''" "is_repository_text ''ores/core''" "is_linear_text ''DEN-1''" "is_linear_text ''DEN-2''"
  "strip is_space ''platform'' = ''platform''"
  by code_simp+

lemma sample_links:
  "sound_url hosts JNull" "sound_url [''github.com''] (JStr ''https://github.com/orgs/ores'')" "sound_anchor JNull"
  "sound_anchor (JStr ''https://github.com/ores/core/issues/7'')"
proof -
  have project: "urlparse ''https://github.com/orgs/ores'' =
    Inr \<lparr>url_scheme = ''https'', url_netloc = ''github.com'', url_path = ''/orgs/ores'', url_query = [], url_fragment = []\<rparr>"
    by code_simp
  have issue: "urlparse ''https://github.com/ores/core/issues/7'' =
    Inr \<lparr>url_scheme = ''https'', url_netloc = ''github.com'', url_path = ''/ores/core/issues/7'', url_query = [], url_fragment = []\<rparr>"
    by code_simp
  have plain: "canonical_https \<lparr>url_scheme = ''https'', url_netloc = ''github.com'', url_path = ''/orgs/ores'', url_query = [], url_fragment = []\<rparr>"
    "canonical_https \<lparr>url_scheme = ''https'', url_netloc = ''github.com'', url_path = ''/ores/core/issues/7'', url_query = [], url_fragment = []\<rparr>"
    "issue_parts (url_segments \<lparr>url_scheme = ''https'', url_netloc = ''github.com'', url_path = ''/ores/core/issues/7'', url_query = [],
      url_fragment = []\<rparr>) = Inr True"
    by code_simp+
  show "sound_url hosts JNull" "sound_anchor JNull" by (simp_all add: sound_url_def sound_anchor_def)
  show "sound_url [''github.com''] (JStr ''https://github.com/orgs/ores'')"
    using project plain(1) by (simp add: sound_url_def bounded_text_def)
  show "sound_anchor (JStr ''https://github.com/ores/core/issues/7'')"
    using issue plain(2,3) by (simp add: sound_url_def sound_anchor_def bounded_text_def)
qed

lemma sound_texts_sample:
  "(\<exists>ss. sound_texts (JArr (map JStr xs)) lo hi a b ss) \<longleftrightarrow> lo \<le> length xs \<and> length xs \<le> hi \<and> list_all (bounded_text a b) xs \<and> distinct xs"
  by (auto simp: sound_texts_def inj_map_eq_map inj_def)

lemma sample_repository_sound: "sound_repository sample_repository"
proof -
  have "set (dict_keys sample_repository) = set REPOSITORY_KEYS"
    by (simp add: sample_repository_def dict_keys_def REPOSITORY_KEYS_def)
  moreover have "\<exists>tools. sound_texts (dict_get sample_repository ''toolchain'') 0 24 1 120 tools"
    using sound_texts_sample [of "[''rust'']" 0 24 1 120] by (simp add: sample_repository_def bounded_text_def)
  ultimately show ?thesis
    using sample_queue_texts sample_links unfolding sound_repository_def
    by (simp add: sample_repository_def matched_at_def optional_at_def bounded_text_def VISIBILITIES_def LIFECYCLES_def ROLES_def
        CI_STATES_def RELEASE_PATHS_def TEST_MATURITIES_def DEPLOYMENT_BOUNDARIES_def ex_bool_eq)
qed

lemma sample_finding_keys: "set (dict_keys (sample_finding fid rank state disposition linear github needs remediation)) = set FINDING_KEYS"
  by (simp add: sample_finding_def dict_keys_def FINDING_KEYS_def)

lemma sample_scores_sound: "sound_scores (JObj sample_scores)"
  by (simp add: sound_scores_def sample_scores_def dict_keys_def integer_at_def SCORE_KEYS_def)

lemma sample_plans:
  "sound_remediation (JObj (sample_remediation (JStr ''ci/add'') (JStr sample_commit) [''workflow runs'', ''tests pass''])) (JStr ''draft_pr'')"
  "sound_remediation (JObj (sample_remediation JNull JNull [])) (JStr ''noop_blocked'')"
proof -
  have keys: "set (dict_keys (sample_remediation b c xs)) = set REMEDIATION_KEYS" for b c xs
    by (simp add: sample_remediation_def dict_keys_def REMEDIATION_KEYS_def)
  have gets: "dict_get (sample_remediation b c xs) ''branch_name'' = b" "dict_get (sample_remediation b c xs) ''base_commit'' = c"
    "dict_get (sample_remediation b c xs) ''acceptance_checks'' = JArr (map JStr xs)"
    "dict_get (sample_remediation b c xs) ''dry_run'' = JBool True" "dict_get (sample_remediation b c xs) ''apply_authorized'' = JBool False"
    "text_at (sample_remediation b c xs) ''residual_risk'' 8 500" for b c xs
    by (simp_all add: sample_remediation_def text_at_def bounded_text_def)
  show "sound_remediation (JObj (sample_remediation (JStr ''ci/add'') (JStr sample_commit) [''workflow runs'', ''tests pass''])) (JStr ''draft_pr'')"
    "sound_remediation (JObj (sample_remediation JNull JNull [])) (JStr ''noop_blocked'')"
    using sample_queue_texts unfolding sound_remediation_def sound_texts_sample [symmetric]
    by (simp_all add: keys gets sound_texts_sample matched_at_def bounded_text_def ACTIONABLE_DISPOSITIONS_def NOOP_DISPOSITIONS_def del: list.map)
qed

lemma sample_finding_gets:
  "dict_get (sample_finding fid r st disp lin gh needs rem) ''id'' = JStr fid"
  "dict_get (sample_finding fid r st disp lin gh needs rem) ''rank'' = JInt r"
  "dict_get (sample_finding fid r st disp lin gh needs rem) ''repository'' = JStr ''ores/core''"
  "dict_get (sample_finding fid r st disp lin gh needs rem) ''category'' = JStr ''ci_missing''"
  "dict_get (sample_finding fid r st disp lin gh needs rem) ''state'' = JStr st"
  "dict_get (sample_finding fid r st disp lin gh needs rem) ''severity'' = JStr ''high''"
  "dict_get (sample_finding fid r st disp lin gh needs rem) ''disposition'' = JStr disp"
  "dict_get (sample_finding fid r st disp lin gh needs rem) ''evidence_sha256'' = JStr digest_a"
  "dict_get (sample_finding fid r st disp lin gh needs rem) ''baseline_value_sha256'' = JNull"
  "dict_get (sample_finding fid r st disp lin gh needs rem) ''current_value_sha256'' = JStr digest_b"
  "dict_get (sample_finding fid r st disp lin gh needs rem) ''linear_anchor'' = JStr lin"
  "dict_get (sample_finding fid r st disp lin gh needs rem) ''github_anchor'' = gh"
  "dict_get (sample_finding fid r st disp lin gh needs rem) ''owner'' = JStr ''platform''"
  "dict_get (sample_finding fid r st disp lin gh needs rem) ''duplicate_of'' = JNull"
  "dict_get (sample_finding fid r st disp lin gh needs rem) ''depends_on'' = JArr (map JStr needs)"
  "dict_get (sample_finding fid r st disp lin gh needs rem) ''scores'' = JObj sample_scores"
  "dict_get (sample_finding fid r st disp lin gh needs rem) ''remediation'' = JObj rem"
  by (simp_all add: sample_finding_def)

lemma sample_parts:
  "finding_id (sample_finding fid r st disp lin gh needs rem) = fid"
  "finding_rank (sample_finding fid r st disp lin gh needs rem) = r"
  "finding_dependencies (sample_finding fid r st disp lin gh needs rem) = needs"
  "is_duplicate (sample_finding fid r st disp lin gh needs rem) \<longleftrightarrow> disp = ''noop_duplicate''"
  "is_actionable (sample_finding fid r st disp lin gh needs rem) \<longleftrightarrow> disp \<in> set ACTIONABLE_DISPOSITIONS"
  "is_blocked (sample_finding fid r st disp lin gh needs rem) \<longleftrightarrow> disp = ''noop_blocked''"
  "linear_anchor_of (sample_finding fid r st disp lin gh needs rem) = Some lin"
  "github_anchor_of (sample_finding fid r st disp lin gh needs rem) = opt_text gh"
  "fst (priority (sample_finding fid r st disp lin gh needs rem)) = disposition_tier disp"
  by (simp_all add: finding_id_def finding_rank_def finding_dependencies_def texts_of_def is_duplicate_def is_actionable_def is_blocked_def
      linear_anchor_of_def github_anchor_of_def priority_def sample_finding_gets str_at_def int_at_def py_str_def comp_def image_iff)

lemma sample_findings_each:
  "sound_finding [''ores/core''] sample_first" "sound_finding [''ores/core''] sample_second"
  using sample_queue_texts sample_links sample_plans sample_scores_sound unfolding sample_first_def sample_second_def sound_finding_def
  by (simp_all add: sample_finding_keys sample_finding_gets sample_parts matched_at_def optional_at_def integer_at_def bounded_text_def
      str_at_def py_str_def CATEGORIES_def FINDING_STATES_def SEVERITIES_def DISPOSITIONS_def ACTIONABLE_DISPOSITIONS_def
      NOOP_DISPOSITIONS_def CLOSED_STATES_def sound_disposition_def sound_duplicate_of_def sound_texts_def image_iff)

lemma sample_findings_sound: "sound_findings [sample_repository] [sample_first, sample_second]"
proof -
  have order: "priority sample_first < priority sample_second"
    using sample_parts(9) by (simp add: less_prod_def sample_first_def sample_second_def disposition_tier_def ACTIONABLE_DISPOSITIONS_def)
  have known: "map (\<lambda>d. str_at d ''repository'') [sample_repository] = [''ores/core'']"
    by (simp add: str_at_def py_str_def sample_repository_def)
  have "ranked [sample_first, sample_second]"
  proof -
    have "int ` {1..length [sample_first, sample_second]} = {1, 2}" by (auto simp: image_iff)
    then show ?thesis
      using order less_asym [OF order] unfolding ranked_def by (simp add: sample_first_def sample_second_def sample_parts)
  qed
  then show ?thesis
    unfolding sound_findings_def known
    using sample_findings_each
    by (simp add: sample_first_def sample_second_def sample_parts unshared_def depends_first_def duplicates_resolve_def opt_text_def)
qed


lemma tame_object:
  "list_all (\<lambda>k. casefold k \<notin> set forbidden) (map fst d) \<Longrightarrow> list_all (tame forbidden) (map snd d) \<Longrightarrow> tame forbidden (JObj d)"
  by (induction d) auto

definition open_key :: "string \<Rightarrow> bool" where "open_key k \<longleftrightarrow> casefold k \<notin> set QUEUE_FORBIDDEN"

lemma open_queue_keys: "list_all open_key QUEUE_KEYS"
  by code_simp

lemma open_baseline_keys: "list_all open_key BASELINE_KEYS"
  by code_simp

lemma open_repository_keys: "list_all open_key REPOSITORY_KEYS"
  by code_simp

lemma open_finding_keys: "list_all open_key FINDING_KEYS"
  by code_simp

lemma open_score_keys: "list_all open_key SCORE_KEYS"
  by code_simp

lemma open_remediation_keys: "list_all open_key REMEDIATION_KEYS"
  by code_simp

lemma open_safety_keys: "list_all open_key QUEUE_SAFETY_KEYS"
  by code_simp

lemmas open_keys = open_queue_keys open_baseline_keys open_repository_keys open_finding_keys open_score_keys open_remediation_keys open_safety_keys

lemma tame_dict:
  "list_all open_key (map fst d) \<Longrightarrow> list_all (tame QUEUE_FORBIDDEN) (map snd d) \<Longrightarrow> tame QUEUE_FORBIDDEN (JObj d)"
  unfolding open_key_def by (rule tame_object)

lemma sample_tame:
  "tame QUEUE_FORBIDDEN (JStr digest_a)" "tame QUEUE_FORBIDDEN (JStr digest_b)" "tame QUEUE_FORBIDDEN (JStr sample_commit)"
  "tame QUEUE_FORBIDDEN (JStr (sample_text m h))"
  using sample_text_short by (simp_all add: digest_a_def digest_b_def sample_commit_def MAX_TEXT_def)

lemma sample_parts_tame:
  "tame QUEUE_FORBIDDEN (JObj sample_repository)" "tame QUEUE_FORBIDDEN (JObj sample_scores)" "tame QUEUE_FORBIDDEN (JObj sample_guard)"
proof -
  show "tame QUEUE_FORBIDDEN (JObj sample_repository)"
    by (rule tame_dict) (use open_keys sample_tame in \<open>simp_all add: sample_repository_def REPOSITORY_KEYS_def MAX_TEXT_def del: tame.simps(1)\<close>)
  show "tame QUEUE_FORBIDDEN (JObj sample_scores)"
    by (rule tame_dict) (use open_keys in \<open>simp_all add: sample_scores_def comp_def list_all_iff del: tame.simps(1)\<close>)
  show "tame QUEUE_FORBIDDEN (JObj sample_guard)"
    by (rule tame_dict) (use open_keys in \<open>simp_all add: sample_guard_def FORBIDDEN_ACTIONS_def QUEUE_SAFETY_KEYS_def MAX_TEXT_def del: tame.simps(1)\<close>)
qed

lemma sample_findings_tame: "tame QUEUE_FORBIDDEN (JObj sample_first)" "tame QUEUE_FORBIDDEN (JObj sample_second)"
proof -
  have plan: "tame QUEUE_FORBIDDEN (JObj (sample_remediation b c xs))"
    if "tame QUEUE_FORBIDDEN b" "tame QUEUE_FORBIDDEN c" "tame QUEUE_FORBIDDEN (JArr (map JStr xs))" for b c xs
    by (rule tame_dict)
      (use open_keys that in \<open>simp_all add: sample_remediation_def REMEDIATION_KEYS_def MAX_TEXT_def del: tame.simps(1)\<close>)
  have finding: "tame QUEUE_FORBIDDEN (JObj (sample_finding fid r st disp lin gh needs rem))"
    if "tame QUEUE_FORBIDDEN gh" "tame QUEUE_FORBIDDEN (JObj rem)" "list_all (\<lambda>s. length s \<le> MAX_TEXT) ([fid, st, disp, lin] @ needs)"
    for fid r st disp lin gh needs rem
    by (rule tame_dict)
      (use open_keys that sample_tame sample_parts_tame in
        \<open>simp_all add: sample_finding_def FINDING_KEYS_def list.pred_map comp_def MAX_TEXT_def del: tame.simps(1)\<close>)
  show "tame QUEUE_FORBIDDEN (JObj sample_first)" unfolding sample_first_def
    by (rule finding, simp add: MAX_TEXT_def, rule plan) (use sample_tame in \<open>simp_all add: MAX_TEXT_def\<close>)
  show "tame QUEUE_FORBIDDEN (JObj sample_second)" unfolding sample_second_def
    by (rule finding, simp, rule plan) (simp_all add: MAX_TEXT_def)
qed

lemma sample_queue_walk: "walk_safe QUEUE_FORBIDDEN sample_queue ''$'' = []"
proof (rule tame_walk(1))
  have base: "tame QUEUE_FORBIDDEN (JObj [(''observed_at'', JStr (sample_text 9 7)), (''catalog_sha256'', JStr digest_a),
      (''policy_sha256'', JStr digest_b), (''repository_count'', JInt 1)])"
    by (rule tame_dict) (use open_keys sample_tame in \<open>simp_all add: BASELINE_KEYS_def\<close>)
  show "tame QUEUE_FORBIDDEN sample_queue"
    unfolding sample_queue_def
    by (rule tame_dict) (use open_keys base sample_tame sample_parts_tame sample_findings_tame in
      \<open>simp_all add: sample_queue_root_def QUEUE_KEYS_def QUEUE_SCHEMA_def MAX_TEXT_def del: tame.simps(1)\<close>)
qed

lemma sample_guard_sound: "sound_queue_safety (JObj sample_guard)"
proof -
  have texts: "\<exists>ss. sound_texts (dict_get sample_guard ''notes'') 1 12 8 500 ss"
    using sound_texts_sample [of "[''Draft plans only.'']" 1 12 8 500]
    by (simp add: sample_guard_def FORBIDDEN_ACTIONS_def bounded_text_def)
  show ?thesis
    unfolding sound_queue_safety_def
    by (intro exI [of _ sample_guard] conjI refl texts)
      (simp_all add: sample_guard_def FORBIDDEN_ACTIONS_def QUEUE_SAFETY_KEYS_def dict_keys_def)
qed

lemma sample_queue_sound: "sound_queue sample_queue [sample_repository] [sample_first, sample_second]"
proof -
  have "instant (sample_hour 9 12) - instant (sample_hour 9 7) \<le> 31 * usec_per_day"
    by (simp add: instant_def sample_hour_def usec_of_day_def usec_per_day_def)
  moreover have "dict_get sample_queue_root ''baseline'' = JObj [(''observed_at'', JStr (sample_text 9 7)), (''catalog_sha256'', JStr digest_a),
        (''policy_sha256'', JStr digest_b), (''repository_count'', JInt 1)]"
    by (simp add: sample_queue_root_def)
  ultimately have base: "sound_baseline (dict_get sample_queue_root ''baseline'') (instant (sample_hour 9 12)) 1"
    using sample_instant [of 9 7] sample_hours_ordered sample_queue_texts
    by (simp add: sound_baseline_def matched_at_def integer_at_def int_at_def dict_keys_def BASELINE_KEYS_def exI [of _ "instant (sample_hour 9 7)"])
  show ?thesis
    unfolding sound_queue_def
  proof (intro exI conjI)
    show "sample_queue = JObj sample_queue_root" by (rule sample_queue_def)
    show "walk_safe QUEUE_FORBIDDEN sample_queue ''$'' = []" by (rule sample_queue_walk)
    show "sound_baseline (dict_get sample_queue_root ''baseline'') (instant (sample_hour 9 12)) (int (length [sample_repository]))"
      using base by simp
    show "matched_at sample_queue_root ''generated_at'' (\<lambda>s. instant_of s (instant (sample_hour 9 12)))"
      using sample_instant [of 9 12] by (simp add: sample_queue_root_def matched_at_def)
    show "sound_findings [sample_repository] [sample_first, sample_second]" by (rule sample_findings_sound)
    show "list_all sound_repository [sample_repository]" using sample_repository_sound by simp
    show "sound_queue_safety (dict_get sample_queue_root ''safety'')" using sample_guard_sound by (simp add: sample_queue_root_def)
  qed (use sample_queue_texts in \<open>simp_all add: sample_queue_root_def matched_at_def dict_keys_def QUEUE_KEYS_def\<close>)
qed

lemma sample_queue_finite: "finite_json sample_queue"
  by (simp add: sample_queue_def sample_queue_root_def sample_repository_def sample_first_def sample_second_def sample_finding_def
      sample_scores_def sample_remediation_def sample_guard_def FORBIDDEN_ACTIONS_def SCORE_KEYS_def)

lemma score_keys_order: "set SCORE_KEYS = set SCORE_KEYS" "distinct SCORE_KEYS"
  by (rule refl) (simp add: SCORE_KEYS_def)

lemma queue_valid_exact_witness:
  "validate_queue 3 SCORE_KEYS sample_queue = Inr (sound_report_of sample_queue [sample_repository] [sample_first, sample_second])"
  by (rule queue_valid_exact [OF score_keys_order, THEN conjunct2, rule_format, OF conjI [OF sample_queue_sound sample_queue_finite],
      THEN conjunct2, rule_format]) simp

lemma sample_queue_report:
  "validate_queue 3 SCORE_KEYS sample_queue = Inr (sound_report_of sample_queue [sample_repository] [sample_first, sample_second])"
  by (rule queue_valid_iff [OF score_keys_order, THEN conjunct2, rule_format, OF conjI [OF sample_queue_sound sample_queue_finite],
      THEN conjunct2, rule_format]) simp

lemma queue_plan_witness:
  "\<exists>rep. validate_queue 3 SCORE_KEYS sample_queue = Inr rep \<and> qr_findings rep = 2 \<and> qr_actionable rep + qr_noop rep = 2"
proof -
  have valid: "qr_valid (sound_report_of sample_queue [sample_repository] [sample_first, sample_second])"
    and two: "qr_findings (sound_report_of sample_queue [sample_repository] [sample_first, sample_second]) = 2"
    by (simp_all add: sound_report_of_def)
  from queue_plan [OF score_keys_order sample_queue_report valid] two sample_queue_report show ?thesis by auto
qed

text \<open>A record with a list where a visibility belongs stops the validation.\<close>

lemma raising_bindD: "returns m \<Longrightarrow> (\<And>x. f x = Inl e) \<Longrightarrow> bindD m f = Inl e"
  by (auto simp: returns_def bindD_def)

lemma unhashable_member: "dict_get d key = JArr xs \<Longrightarrow> check_member d path key allowed = Inl TypeError"
  by (simp add: check_member_def in_str_set_def liftD_def bindD_def)

lemma exact_object_bind: "f d = Inl e \<Longrightarrow> bindD (exact_object (JObj d) ks path) f = Inl e"
  by (simp add: exact_object_def bindD_def complain_def retD_def)

definition sample_odd_record :: pydict where "sample_odd_record = [(''visibility'', JArr [])]"

definition sample_unhashable :: json where
  "sample_unhashable = JObj [(''repositories'', JArr [JObj sample_odd_record])]"

lemma sample_odd_record_raises: "check_repository_record 0 (JObj sample_odd_record) = Inl TypeError"
proof -
  have member: "bindD (check_member sample_odd_record p ''visibility'' VISIBILITIES) f = (Inl TypeError :: 'b diag)" for p and f :: "unit \<Rightarrow> 'b diag"
    by (simp add: unhashable_member sample_odd_record_def bindD_def)
  have identity: "returns (check_repository v p)" for v p
    unfolding check_repository_def by (intro returns_intros)
  show ?thesis
    unfolding check_repository_record_def Let_def by (intro exact_object_bind raising_bindD [OF identity]) (rule member)
qed

lemma sample_unhashable_raises: "validate_queue 3 SCORE_KEYS sample_unhashable = Inl TypeError"
proof -
  let ?root = "[(''repositories'', JArr [JObj sample_odd_record])]"
  have repos: "bindD (check_repositories (dict_get ?root ''repositories'') declared) f = (Inl TypeError :: 'b diag)" for declared and f :: "_ \<Rightarrow> 'b diag"
    by (simp add: check_repositories_def records_of_def scan_repository_def sample_odd_record_raises bindD_def retD_def)
  have parts: "returns (check_slug v p)" "returns (check_baseline v g)" for v p g
  proof -
    have "returns (check_integer v p lo hi)" for v p lo hi
      by (cases v) (auto simp: check_integer_def Let_def intro!: returns_intros)
    then show "returns (check_slug v p)" "returns (check_baseline v g)"
      unfolding check_slug_def check_baseline_def by (intro returns_intros; assumption?)+
  qed
  have "queue_facts 3 SCORE_KEYS (JObj ?root) = Inl TypeError"
    unfolding queue_facts_def by (intro raising_bindD [OF returns_helpers(6)] exact_object_bind raising_bindD [OF returns_basic(2)]
      raising_bindD [OF parts(1)] raising_bindD [OF returns_check_timestamp] raising_bindD [OF parts(2)]) (rule repos)
  then show ?thesis by (simp add: validate_queue_def sample_unhashable_def)
qed

lemma queue_errors_witness:
  "validate_within 4 3 SCORE_KEYS sample_unhashable = Inl TypeError \<and>
     (TypeError = TypeError \<or> TypeError = ValueError \<or>
       TypeError = RecursionError \<and> (4 < nesting sample_unhashable \<or> 3 \<le> findings_count sample_unhashable))"
proof -
  have "nesting sample_unhashable \<le> 4" by (simp add: sample_unhashable_def sample_odd_record_def)
  then have run: "validate_within 4 3 SCORE_KEYS sample_unhashable = Inl TypeError"
    by (simp add: validate_within_eq sample_unhashable_raises)
  from queue_errors [OF run] run show ?thesis by blast
qed

text \<open>A document of nested lists, with no finding at all, overflows the stack of the walk.\<close>

fun nested_lists :: "nat \<Rightarrow> json" where
  "nested_lists 0 = JArr []"
| "nested_lists (Suc n) = JArr [nested_lists n]"

lemma deep_document_raises: "validate_within depth frames order (nested_lists depth) = Inl RecursionError"
proof -
  have "nesting (nested_lists n) = Suc n" for n by (induction n) simp_all
  then show ?thesis by (simp add: validate_within_eq)
qed

section \<open>Addresses the anchor check misreads\<close>

text \<open>A superscript passes \<^verbatim>\<open>isdigit\<close> and stops \<^verbatim>\<open>int\<close>; unbalanced brackets stop the parser.\<close>

lemma anchor_raises:
  "github_anchor (JStr (''https://github.com/a/b/issues/'' @ [CHR 0xB2])) path = Inl ValueError"
  "github_anchor (JStr ''https://[github.com/a/b/issues/1'') path = Inl ValueError"
proof -
  have issue: "urlparse (''https://github.com/a/b/issues/'' @ [CHR 0xB2]) = Inr \<lparr>url_scheme = ''https'', url_netloc = ''github.com'',
      url_path = ''/a/b/issues/'' @ [CHR 0xB2], url_query = [], url_fragment = []\<rparr>"
    "canonical_https \<lparr>url_scheme = ''https'', url_netloc = ''github.com'', url_path = ''/a/b/issues/'' @ [CHR 0xB2], url_query = [],
      url_fragment = []\<rparr>"
    "issue_parts (url_segments \<lparr>url_scheme = ''https'', url_netloc = ''github.com'', url_path = ''/a/b/issues/'' @ [CHR 0xB2],
      url_query = [], url_fragment = []\<rparr>) = Inl ValueError"
    by code_simp+
  show "github_anchor (JStr (''https://github.com/a/b/issues/'' @ [CHR 0xB2])) path = Inl ValueError"
    using issue by (simp add: github_anchor_def check_url_def check_text_def some_text_def bindD_def retD_def liftD_def)
  have "urlparse ''https://[github.com/a/b/issues/1'' = Inl ValueError" by code_simp
  then show "github_anchor (JStr ''https://[github.com/a/b/issues/1'') path = Inl ValueError"
    by (simp add: github_anchor_def check_url_def check_text_def some_text_def bindD_def retD_def liftD_def)
qed

text \<open>The same issue has several anchors, which the check for shared anchors tells apart.\<close>

lemma anchor_aliases: "sound_anchor (JStr ''https://github.com/a/b/issues/7'')" "sound_anchor (JStr ''https://github.com/a/b/issues/07'')"
  "sound_anchor (JStr ''https://github.com/a//b/issues/7/'')"
proof -
  have accepted: "sound_anchor (JStr s)"
    if "bounded_text 12 1000 s" "urlparse s = Inr u" "canonical_https u" "url_netloc u = ''github.com''"
      "issue_parts (url_segments u) = Inr True" for s u
    using that by (simp add: sound_anchor_def sound_url_def)
  have checks: "bounded_text 12 1000 s \<and> (case urlparse s of Inl _ \<Rightarrow> False | Inr u \<Rightarrow> canonical_https u \<and> url_netloc u = ''github.com'' \<and>
      issue_parts (url_segments u) = Inr True) \<Longrightarrow> sound_anchor (JStr s)" for s
    by (cases "urlparse s") (auto intro: accepted)
  show "sound_anchor (JStr ''https://github.com/a/b/issues/7'')" by (rule checks) code_simp
  show "sound_anchor (JStr ''https://github.com/a/b/issues/07'')" by (rule checks) code_simp
  show "sound_anchor (JStr ''https://github.com/a//b/issues/7/'')" by (rule checks) code_simp
qed

end
