(* ===== verification/CronSchedule.thy ===== *)
theory CronSchedule
  imports Timestamps PyUrl
begin

text \<open>
  The schedules of \<^verbatim>\<open>src/tools/scheduled_task_digest_core.py\<close>: \<^verbatim>\<open>compile_cron\<close> reads a cron expression and
  \<^verbatim>\<open>expected_occurrences\<close> counts the minutes of a window in which one of several is due, by stepping through
  every minute.

  A set of numbers is the list of its members. The time zone is an argument: \<open>zone t\<close> is the offset from
  UTC, in microseconds, that the database of \<^verbatim>\<open>zoneinfo\<close> gives for the instant \<open>t\<close>. An aware date
  is its fields with their offset.

  The second half of the theory is the grammar the parser is meant for, printed as text: the parser
  reads every printed expression back with the meaning the grammar gives it.
\<close>

section \<open>Numbers\<close>

text \<open>
  \<^verbatim>\<open>int(text)\<close>: white space around the number, a sign, and single underscores between its digits; a number of
  more than 4300 digits is refused, as everything else.
\<close>

definition py_int :: "string \<Rightarrow> int option" where
  "py_int s = (let t = strip is_space s; negative = is_prefix ''-'' t;
       body = (if negative \<or> is_prefix ''+'' t then tl t else t);
       groups = split_on (CHR ''_'') body; digits = concat groups in
     if list_all (\<lambda>g. g \<noteq> [] \<and> list_all is_digit g) groups \<and> length digits \<le> 4300
     then Some (if negative then - int (digits_value digits) else int (digits_value digits)) else None)"

text \<open>\<^verbatim>\<open>text.split()\<close>.\<close>

definition words :: "string \<Rightarrow> string list" where
  "words s = filter (\<lambda>w. w \<noteq> []) (split_on (CHR '' '') (map (\<lambda>c. if is_space c then CHR '' '' else c) s))"

section \<open>Expressions\<close>

record compiled_cron =
  cc_minutes :: "int list"
  cc_hours :: "int list"
  cc_days :: "int list"
  cc_months :: "int list"
  cc_weekdays :: "int list"
  cc_day_wildcard :: bool
  cc_weekday_wildcard :: bool

definition cron_error :: "string \<Rightarrow> string \<Rightarrow> 'a result" where
  "cron_error message culprit = Inl (Err (message @ '': '' @ repr_str culprit))"

text \<open>The first and the last value an atom stands for.\<close>

definition atom_span :: "string \<Rightarrow> string \<Rightarrow> int \<Rightarrow> int \<Rightarrow> (int \<times> int) result" where
  "atom_span atom base minimum maximum =
     (if base = ''*'' then Inr (minimum, maximum)
      else if CHR ''-'' \<in> set base then
        (case partition_at (CHR ''-'') base of (left, _, right) \<Rightarrow>
           (case (py_int left, py_int right) of
              (Some start, Some stop) \<Rightarrow> Inr (start, stop)
            | _ \<Rightarrow> cron_error ''invalid cron range'' atom))
      else (case py_int base of
          Some start \<Rightarrow> Inr (start, start)
        | None \<Rightarrow> cron_error ''invalid cron value'' atom))"

definition expand_atom :: "string \<Rightarrow> int \<Rightarrow> int \<Rightarrow> bool \<Rightarrow> int list result" where
  "expand_atom atom minimum maximum weekday =
     (case partition_at (CHR ''/'') atom of (base, slash, step_text) \<Rightarrow>
      (case if slash then py_int step_text else Some 1 of
         None \<Rightarrow> cron_error ''invalid cron step'' atom
       | Some step \<Rightarrow>
           if step < 1 then cron_error ''invalid cron step'' atom
           else bindE (atom_span atom base minimum maximum) (\<lambda>(start, stop).
             if \<not> (minimum \<le> start \<and> start \<le> maximum \<and> minimum \<le> stop \<and> stop \<le> maximum) \<or> stop < start
             then cron_error ''cron value out of range'' atom
             else Inr (map (\<lambda>v. if weekday \<and> v = 7 then 0 else v) (filter (\<lambda>v. (v - start) mod step = 0) [start..stop])))))"

definition cron_field :: "string \<Rightarrow> int \<Rightarrow> int \<Rightarrow> bool \<Rightarrow> (int list \<times> bool) result" where
  "cron_field field minimum maximum weekday =
     (let s = strip is_space field in
      if s = [] then Inl (Err ''empty cron field'')
      else bindE (mapE (\<lambda>atom. expand_atom (strip is_space atom) minimum maximum weekday) (split_on (CHR '','') s))
        (\<lambda>values. Inr (concat values, s = ''*'')))"

definition compile_cron :: "string \<Rightarrow> compiled_cron result" where
  "compile_cron expression =
     (case words (strip is_space expression) of
        [minute, hour, day, month, weekday] \<Rightarrow>
          bindE (cron_field minute 0 59 False) (\<lambda>(minutes, _).
          bindE (cron_field hour 0 23 False) (\<lambda>(hours, _).
          bindE (cron_field day 1 31 False) (\<lambda>(days, day_wildcard).
          bindE (cron_field month 1 12 False) (\<lambda>(months, _).
          bindE (cron_field weekday 0 7 True) (\<lambda>(weekdays, weekday_wildcard).
          Inr \<lparr>cc_minutes = minutes, cc_hours = hours, cc_days = days, cc_months = months, cc_weekdays = weekdays,
            cc_day_wildcard = day_wildcard, cc_weekday_wildcard = weekday_wildcard\<rparr>)))))
      | _ \<Rightarrow> cron_error ''cron must contain five fields'' expression)"

text \<open>\<^verbatim>\<open>weekday()\<close>: Monday is 0. The first of January of year 1 was a Monday.\<close>

definition weekday_of :: "datetime \<Rightarrow> int" where
  "weekday_of t = (ymd2ord (dt_year t) (dt_month t) (dt_day t) + 6) mod 7"

definition matches :: "compiled_cron \<Rightarrow> datetime \<Rightarrow> bool" where
  "matches c t =
     (if int (dt_minute t) \<notin> set (cc_minutes c) \<or> int (dt_hour t) \<notin> set (cc_hours c) \<or> int (dt_month t) \<notin> set (cc_months c)
      then False
      else (let day_ok = int (dt_day t) \<in> set (cc_days c); weekday_ok = (weekday_of t + 1) mod 7 \<in> set (cc_weekdays c) in
        if cc_day_wildcard c \<and> cc_weekday_wildcard c then True
        else if cc_day_wildcard c then weekday_ok
        else if cc_weekday_wildcard c then day_ok
        else day_ok \<or> weekday_ok))"

section \<open>Occurrences\<close>

definition usec_per_minute :: int where "usec_per_minute = 60000000"

text \<open>\<^verbatim>\<open>cursor.astimezone(zone)\<close> and \<^verbatim>\<open>cursor + timedelta(minutes=1)\<close> for a date in UTC.\<close>

definition to_zone :: "(int \<Rightarrow> int) \<Rightarrow> datetime \<Rightarrow> datetime result" where
  "to_zone zone t = to_utc t (- zone (instant t))"

definition next_minute :: "datetime \<Rightarrow> datetime result" where
  "next_minute t = to_utc t (- usec_per_minute)"

partial_function (option) count_minutes ::
    "(int \<Rightarrow> int) \<Rightarrow> compiled_cron list \<Rightarrow> datetime \<Rightarrow> datetime \<Rightarrow> nat \<Rightarrow> nat result option" where
  "count_minutes zone crons limit cursor count =
     (if instant cursor < instant limit then
        (case to_zone zone cursor of
           Inl e \<Rightarrow> Some (Inl e)
         | Inr local \<Rightarrow>
             (case next_minute cursor of
                Inl e \<Rightarrow> Some (Inl e)
              | Inr cursor' \<Rightarrow>
                  count_minutes zone crons limit cursor' (if list_ex (\<lambda>c. matches c local) crons then count + 1 else count)))
      else Some (Inr count))"

text \<open>The bounds of the window with their offsets; no offset is a naive date.\<close>

definition expected_occurrences ::
    "(int \<Rightarrow> int) \<Rightarrow> string list \<Rightarrow> datetime \<times> int option \<Rightarrow> datetime \<times> int option \<Rightarrow> nat result option" where
  "expected_occurrences zone expressions start stop =
     (case (snd start, snd stop) of
        (Some a, Some b) \<Rightarrow>
          if instant (fst stop) - b \<le> instant (fst start) - a
          then Some (Inl (Err ''cron window must be ordered and timezone-aware''))
          else (case bindE (mapE compile_cron expressions) (\<lambda>crons.
              bindE (to_utc (fst start) a) (\<lambda>cursor. bindE (to_utc (fst stop) b) (\<lambda>limit.
              Inr (crons, cursor\<lparr>dt_second := 0, dt_usec := 0\<rparr>, limit)))) of
              Inl e \<Rightarrow> Some (Inl e)
            | Inr (crons, cursor, limit) \<Rightarrow> count_minutes zone crons limit cursor 0)
      | _ \<Rightarrow> Some (Inl (Err ''cron window must be ordered and timezone-aware'')))"

declare count_minutes.simps [code]

section \<open>What the parser accepts\<close>

lemma expand_atom_bounds:
  assumes "expand_atom atom lo hi weekday = Inr vs"
  shows "vs \<noteq> [] \<and> (\<forall>v \<in> set vs. (lo \<le> v \<and> v \<le> hi \<or> weekday \<and> v = 0) \<and> (weekday \<longrightarrow> v \<noteq> 7))"
proof -
  obtain base slash step_text where parts: "partition_at (CHR ''/'') atom = (base, slash, step_text)" by (cases "partition_at (CHR ''/'') atom")
  obtain step where step: "(if slash then py_int step_text else Some 1) = Some step"
    using assms by (auto simp: expand_atom_def parts cron_error_def split: option.splits)
  define finish where "finish = (\<lambda>(start, stop). if \<not> (lo \<le> start \<and> start \<le> hi \<and> lo \<le> stop \<and> stop \<le> hi) \<or> stop < start
      then cron_error ''cron value out of range'' atom
      else Inr (map (\<lambda>v. if weekday \<and> v = 7 then 0 else v) (filter (\<lambda>v. (v - start) mod step = 0) [start..stop])))"
  have "bindE (atom_span atom base lo hi) finish = Inr vs"
    using assms unfolding expand_atom_def parts prod.case step option.case finish_def [symmetric]
    by (simp add: cron_error_def split: if_splits)
  then obtain span where rest: "finish span = Inr vs" by (elim bindE_InrE)
  obtain start stop where pair: "span = (start, stop)" by (cases span)
  define good where "good \<longleftrightarrow> lo \<le> start \<and> start \<le> hi \<and> lo \<le> stop \<and> stop \<le> hi"
  have "good \<and> start \<le> stop \<and> vs = map (\<lambda>v. if weekday \<and> v = 7 then 0 else v) (filter (\<lambda>v. (v - start) mod step = 0) [start..stop])"
    using rest unfolding pair finish_def prod.case good_def [symmetric]
    by (cases "\<not> good \<or> stop < start") (simp_all add: cron_error_def not_less)
  then have span: "lo \<le> start" "start \<le> stop" "stop \<le> hi"
    and vs: "vs = map (\<lambda>v. if weekday \<and> v = 7 then 0 else v) (filter (\<lambda>v. (v - start) mod step = 0) [start..stop])"
    unfolding good_def by blast+
  have "start \<in> set (filter (\<lambda>v. (v - start) mod step = 0) [start..stop])" using span by simp
  then have "vs \<noteq> []" unfolding vs map_is_Nil_conv by (intro notI) simp
  then show ?thesis using span by (auto simp: vs)
qed

lemma cron_field_bounds:
  assumes "cron_field field lo hi weekday = Inr (vs, wild)"
  shows "vs \<noteq> [] \<and> (\<forall>v \<in> set vs. (lo \<le> v \<and> v \<le> hi \<or> weekday \<and> v = 0) \<and> (weekday \<longrightarrow> v \<noteq> 7))"
proof -
  define s where "s = strip is_space field"
  obtain vss where run: "mapE (\<lambda>atom. expand_atom (strip is_space atom) lo hi weekday) (split_on (CHR '','') s) = Inr vss"
    and vs: "vs = concat vss"
    using assms by (auto simp: cron_field_def Let_def s_def [symmetric] bindE_eq_Inr_iff split: if_splits)
  have each: "v \<noteq> [] \<and> (\<forall>x \<in> set v. (lo \<le> x \<and> x \<le> hi \<or> weekday \<and> x = 0) \<and> (weekday \<longrightarrow> x \<noteq> 7))" if "v \<in> set vss" for v
    using mapE_elem [OF run that] expand_atom_bounds by blast
  have "split_on (CHR '','') s \<noteq> []" by (cases s) (auto split: list.split)
  then have "vss \<noteq> []" using mapE_length [OF run] by auto
  then show ?thesis using each by (cases vss) (auto simp: vs)
qed

lemma compile_cronE:
  assumes "compile_cron expression = Inr c"
  obtains minute hour day month weekday where "words (strip is_space expression) = [minute, hour, day, month, weekday]"
    and "\<exists>w. cron_field minute 0 59 False = Inr (cc_minutes c, w)" and "\<exists>w. cron_field hour 0 23 False = Inr (cc_hours c, w)"
    and "cron_field day 1 31 False = Inr (cc_days c, cc_day_wildcard c)" and "\<exists>w. cron_field month 1 12 False = Inr (cc_months c, w)"
    and "cron_field weekday 0 7 True = Inr (cc_weekdays c, cc_weekday_wildcard c)"
proof -
  obtain minute hour day month weekday where parts: "words (strip is_space expression) = [minute, hour, day, month, weekday]"
    using assms by (auto simp: compile_cron_def cron_error_def split: list.splits)
  show thesis
    by (rule that [OF parts]) (use assms in \<open>auto simp: compile_cron_def parts bindE_eq_Inr_iff\<close>)
qed

lemma compile_cron_bounds:
  assumes "compile_cron expression = Inr c"
  shows "cc_minutes c \<noteq> [] \<and> set (cc_minutes c) \<subseteq> {0..59} \<and> cc_hours c \<noteq> [] \<and> set (cc_hours c) \<subseteq> {0..23} \<and>
    cc_days c \<noteq> [] \<and> set (cc_days c) \<subseteq> {1..31} \<and> cc_months c \<noteq> [] \<and> set (cc_months c) \<subseteq> {1..12} \<and>
    cc_weekdays c \<noteq> [] \<and> set (cc_weekdays c) \<subseteq> {0..6}"
  using assms
proof (elim compile_cronE)
  fix minute hour day month weekday
  assume "\<exists>w. cron_field minute 0 59 False = Inr (cc_minutes c, w)" "\<exists>w. cron_field hour 0 23 False = Inr (cc_hours c, w)"
    and "cron_field day 1 31 False = Inr (cc_days c, cc_day_wildcard c)" and "\<exists>w. cron_field month 1 12 False = Inr (cc_months c, w)"
    and weekday: "cron_field weekday 0 7 True = Inr (cc_weekdays c, cc_weekday_wildcard c)"
  then have plain: "cc_minutes c \<noteq> [] \<and> set (cc_minutes c) \<subseteq> {0..59}" "cc_hours c \<noteq> [] \<and> set (cc_hours c) \<subseteq> {0..23}"
    "cc_days c \<noteq> [] \<and> set (cc_days c) \<subseteq> {1..31}" "cc_months c \<noteq> [] \<and> set (cc_months c) \<subseteq> {1..12}"
    by (auto dest!: cron_field_bounds)
  have "v \<in> {0..6}" if "v \<in> set (cc_weekdays c)" for v
    using cron_field_bounds [OF weekday] that by fastforce
  then show ?thesis using plain cron_field_bounds [OF weekday] by blast
qed

section \<open>The grammar\<close>

datatype cron_base = Every | Only nat | Between nat nat

type_synonym cron_atom = "cron_base \<times> nat option"

record cron_expr =
  ce_minute :: "cron_atom list"
  ce_hour :: "cron_atom list"
  ce_day :: "cron_atom list"
  ce_month :: "cron_atom list"
  ce_weekday :: "cron_atom list"

fun show_base :: "cron_base \<Rightarrow> string" where
  "show_base Every = ''*''"
| "show_base (Only n) = str_nat n"
| "show_base (Between a b) = str_nat a @ ''-'' @ str_nat b"

definition show_atom :: "cron_atom \<Rightarrow> string" where
  "show_atom x = show_base (fst x) @ (case snd x of None \<Rightarrow> [] | Some k \<Rightarrow> ''/'' @ str_nat k)"

definition show_field :: "cron_atom list \<Rightarrow> string" where
  "show_field xs = join_with '','' (map show_atom xs)"

definition show_cron :: "cron_expr \<Rightarrow> string" where
  "show_cron e = join_with '' '' (map show_field [ce_minute e, ce_hour e, ce_day e, ce_month e, ce_weekday e])"

text \<open>The values an atom stands for between the bounds of its field.\<close>

fun base_span :: "nat \<Rightarrow> nat \<Rightarrow> cron_base \<Rightarrow> nat \<times> nat" where
  "base_span lo hi Every = (lo, hi)"
| "base_span lo hi (Only n) = (n, n)"
| "base_span lo hi (Between a b) = (a, b)"

definition step_of :: "cron_atom \<Rightarrow> nat" where
  "step_of x = (case snd x of None \<Rightarrow> 1 | Some k \<Rightarrow> k)"

definition wf_atom :: "nat \<Rightarrow> nat \<Rightarrow> cron_atom \<Rightarrow> bool" where
  "wf_atom lo hi x \<longleftrightarrow> (case base_span lo hi (fst x) of (a, b) \<Rightarrow> lo \<le> a \<and> a \<le> b \<and> b \<le> hi) \<and> 1 \<le> step_of x \<and>
     length (str_nat (step_of x)) \<le> 4300"

definition atom_values :: "nat \<Rightarrow> nat \<Rightarrow> cron_atom \<Rightarrow> nat set" where
  "atom_values lo hi x = (case base_span lo hi (fst x) of (a, b) \<Rightarrow> {v. a \<le> v \<and> v \<le> b \<and> step_of x dvd v - a})"

definition field_values :: "nat \<Rightarrow> nat \<Rightarrow> cron_atom list \<Rightarrow> nat set" where
  "field_values lo hi xs = (\<Union>x \<in> set xs. atom_values lo hi x)"

definition wf_field :: "nat \<Rightarrow> nat \<Rightarrow> cron_atom list \<Rightarrow> bool" where
  "wf_field lo hi xs \<longleftrightarrow> xs \<noteq> [] \<and> list_all (wf_atom lo hi) xs"

definition wf_cron :: "cron_expr \<Rightarrow> bool" where
  "wf_cron e \<longleftrightarrow> wf_field 0 59 (ce_minute e) \<and> wf_field 0 23 (ce_hour e) \<and> wf_field 1 31 (ce_day e) \<and> wf_field 1 12 (ce_month e) \<and>
     wf_field 0 7 (ce_weekday e)"

text \<open>
  When an expression is due: if both the day and the weekday are restricted, either is enough. Sunday
  is 0 or 7.
\<close>

definition cron_due :: "cron_expr \<Rightarrow> datetime \<Rightarrow> bool" where
  "cron_due e t \<longleftrightarrow> dt_minute t \<in> field_values 0 59 (ce_minute e) \<and> dt_hour t \<in> field_values 0 23 (ce_hour e) \<and>
     dt_month t \<in> field_values 1 12 (ce_month e) \<and>
     (let any = [(Every, None)]; day = (dt_day t \<in> field_values 1 31 (ce_day e));
          weekday = (\<exists>v \<in> field_values 0 7 (ce_weekday e). int v mod 7 = ymd2ord (dt_year t) (dt_month t) (dt_day t) mod 7) in
      (ce_day e = any \<or> day \<or> ce_weekday e \<noteq> any \<and> weekday) \<and> (ce_weekday e = any \<or> weekday \<or> ce_day e \<noteq> any \<and> day))"

section \<open>Printed expressions are read back\<close>

lemma strip_none: "list_all (\<lambda>c. \<not> f c) s \<Longrightarrow> strip f s = s"
proof -
  assume s: "list_all (\<lambda>c. \<not> f c) s"
  then have "dropWhile f s = s" by (cases s) auto
  moreover have "dropWhile f (rev s) = rev s" using s by (metis dropWhile_eq_self_iff hd_in_set list_all_iff rev_is_Nil_conv set_rev)
  ultimately show ?thesis by (simp add: strip_def)
qed

lemma split_on_none: "c \<notin> set s \<Longrightarrow> split_on c s = [s]"
  by (induction s) auto

lemma split_on_append: "c \<notin> set s \<Longrightarrow> split_on c (s @ c # t) = s # split_on c t"
  by (induction s) auto

lemma split_on_join: "xs \<noteq> [] \<Longrightarrow> \<forall>x \<in> set xs. c \<notin> set x \<Longrightarrow> split_on c (join_with [c] xs) = xs"
  by (induction "[c]" xs rule: join_with.induct) (simp_all add: split_on_none split_on_append)

lemma partition_at_found: "c \<notin> set s \<Longrightarrow> partition_at c (s @ c # t) = (s, True, t)"
  by (induction s) (auto simp: partition_at_def)

lemma partition_at_none: "c \<notin> set s \<Longrightarrow> partition_at c s = (s, False, [])"
  by (induction s) (auto simp: partition_at_def)

lemma str_nat_chars: "list_all is_digit (str_nat n)"
  by (rule str_nat_digits)

lemma digit_plain: "is_digit c \<Longrightarrow> \<not> is_space c \<and> c \<notin> {CHR '','', CHR ''/'', CHR ''-'', CHR '' '', CHR ''_'', CHR ''+'', CHR ''*''}"
proof -
  assume c: "is_digit c"
  have "\<not> is_digit (CHR '','') \<and> \<not> is_digit (CHR ''/'') \<and> \<not> is_digit (CHR ''-'') \<and> \<not> is_digit (CHR '' '') \<and> \<not> is_digit (CHR ''_'') \<and>
      \<not> is_digit (CHR ''+'') \<and> \<not> is_digit (CHR ''*'')"
    by code_simp
  then show ?thesis using c by (auto simp: is_space_def is_digit_def)
qed

lemma py_int_str_nat:
  assumes "length (str_nat n) \<le> 4300"
  shows "py_int (str_nat n) = Some (int n)"
proof -
  have plain: "c \<in> set (str_nat n) \<Longrightarrow> is_digit c" for c using str_nat_chars [of n] by (simp add: list_all_iff)
  have "strip is_space (str_nat n) = str_nat n"
    by (rule strip_none) (use plain digit_plain in \<open>auto simp: list_all_iff\<close>)
  moreover have "\<not> is_prefix ''-'' (str_nat n) \<and> \<not> is_prefix ''+'' (str_nat n)"
    using plain [of "hd (str_nat n)"] digit_plain str_nat_not_Nil [of n] by (cases "str_nat n") auto
  moreover have "split_on (CHR ''_'') (str_nat n) = [str_nat n]"
    by (rule split_on_none) (use plain digit_plain in blast)
  ultimately show ?thesis
    using assms str_nat_chars [of n] str_nat_not_Nil [of n] by (simp add: py_int_def Let_def digits_value_str_nat)
qed


text \<open>The characters of printed atoms.\<close>

definition atom_char :: "char \<Rightarrow> bool" where
  "atom_char c \<longleftrightarrow> is_digit c \<or> c \<in> {CHR ''*'', CHR ''-'', CHR ''/''}"

lemma atom_char_plain: "atom_char c \<Longrightarrow> \<not> is_space c \<and> c \<noteq> CHR '','' \<and> c \<noteq> CHR '' ''"
proof -
  assume c: "atom_char c"
  have "\<not> is_space (CHR ''*'') \<and> \<not> is_space (CHR ''-'') \<and> \<not> is_space (CHR ''/'')" by code_simp
  then show ?thesis using c digit_plain [of c] by (auto simp: atom_char_def)
qed

lemma show_base_chars: "c \<in> set (show_base b) \<Longrightarrow> is_digit c \<or> c = CHR ''*'' \<or> c = CHR ''-''"
  using str_nat_chars by (cases b) (auto simp: list_all_iff)

lemma show_atom_chars: "c \<in> set (show_atom x) \<Longrightarrow> atom_char c"
  using show_base_chars [of c "fst x"] str_nat_chars by (auto simp: show_atom_def atom_char_def list_all_iff split: option.splits)

lemma show_atom_not_Nil: "show_atom x \<noteq> []"
  using str_nat_not_Nil by (cases "fst x") (auto simp: show_atom_def)

lemma partition_show_atom:
  "partition_at (CHR ''/'') (show_atom x) = (show_base (fst x), snd x \<noteq> None, case snd x of None \<Rightarrow> [] | Some k \<Rightarrow> str_nat k)"
proof -
  have "CHR ''/'' \<notin> set (show_base (fst x))" using show_base_chars digit_plain by blast
  then show ?thesis by (auto simp: show_atom_def partition_at_found partition_at_none split: option.split)
qed

lemma short_str_nat: "n < 100 \<Longrightarrow> length (str_nat n) \<le> 4300"
  using less_mult_imp_div_less [of n 10 10] by (simp add: str_nat.simps [of n] str_nat.simps [of "n div 10"])

lemma atom_span_show:
  assumes "base_span lo hi b = (a, z)" and "a \<le> z" and "z < 100"
  shows "atom_span text (show_base b) (int lo) (int hi) = Inr (int a, int z)"
proof (cases b)
  case Every
  then show ?thesis using assms by (simp add: atom_span_def)
next
  case (Only n)
  have plain: "c \<in> set (str_nat n) \<Longrightarrow> is_digit c" for c using str_nat_chars [of n] by (simp add: list_all_iff)
  have "str_nat n \<noteq> ''*''" "CHR ''-'' \<notin> set (str_nat n)" using plain digit_plain by force+
  then show ?thesis using assms Only py_int_str_nat [OF short_str_nat] by (simp add: atom_span_def)
next
  case (Between m n)
  have plain: "c \<in> set (str_nat m) \<Longrightarrow> is_digit c" for c using str_nat_chars [of m] by (simp add: list_all_iff)
  have dash: "CHR ''-'' \<notin> set (str_nat m)" using plain digit_plain by force
  have "str_nat m @ ''-'' @ str_nat n \<noteq> ''*''" using str_nat_not_Nil [of m] str_nat_not_Nil [of n] by (cases "str_nat m") auto
  then show ?thesis
    using assms Between py_int_str_nat [OF short_str_nat] partition_at_found [OF dash, of "str_nat n"] by (simp add: atom_span_def)
qed

text \<open>The values as the parser lists them.\<close>

definition atom_list :: "nat \<Rightarrow> nat \<Rightarrow> bool \<Rightarrow> cron_atom \<Rightarrow> int list" where
  "atom_list lo hi weekday x = (case base_span lo hi (fst x) of (a, z) \<Rightarrow>
     map (\<lambda>v. if weekday \<and> v = 7 then 0 else v) (filter (\<lambda>v. (v - int a) mod int (step_of x) = 0) [int a..int z]))"

lemma expand_show_atom:
  assumes "wf_atom lo hi x" and "hi < 100"
  shows "expand_atom (show_atom x) (int lo) (int hi) weekday = Inr (atom_list lo hi weekday x)"
proof -
  obtain a z where span: "base_span lo hi (fst x) = (a, z)" by (cases "base_span lo hi (fst x)")
  have wf: "lo \<le> a" "a \<le> z" "z \<le> hi" "1 \<le> step_of x" "length (str_nat (step_of x)) \<le> 4300"
    using assms(1) by (simp_all add: wf_atom_def span)
  have "(if snd x \<noteq> None then py_int (case snd x of None \<Rightarrow> [] | Some k \<Rightarrow> str_nat k) else Some 1) = Some (int (step_of x))"
    using wf(5) py_int_str_nat by (auto simp: step_of_def split: option.splits)
  then show ?thesis
    unfolding expand_atom_def partition_show_atom prod.case
    using wf assms(2) atom_span_show [OF span, of "show_atom x"] by (simp add: atom_list_def span)
qed

lemma set_atom_list:
  assumes "wf_atom lo hi x"
  shows "set (atom_list lo hi weekday x) = (\<lambda>v. if weekday \<and> v = 7 then 0 else int v) ` atom_values lo hi x"
proof -
  obtain a z where span: "base_span lo hi (fst x) = (a, z)" by (cases "base_span lo hi (fst x)")
  have dvd: "(int v - int a) mod int k = 0 \<longleftrightarrow> k dvd v - a" if "a \<le> v" for v k
    using that by (metis dvd_eq_mod_eq_0 int_dvd_int_iff of_nat_diff)
  have "{v. int a \<le> v \<and> v \<le> int z \<and> (v - int a) mod int (step_of x) = 0} = int ` {v. a \<le> v \<and> v \<le> z \<and> step_of x dvd v - a}"
  proof (intro set_eqI iffI)
    fix v assume v: "v \<in> {v. int a \<le> v \<and> v \<le> int z \<and> (v - int a) mod int (step_of x) = 0}"
    then have "0 \<le> v" by auto
    then obtain n where n: "v = int n" by (elim nonneg_int_cases)
    with v dvd [of n] show "v \<in> int ` {v. a \<le> v \<and> v \<le> z \<and> step_of x dvd v - a}" by auto
  qed (use dvd in auto)
  then have listed: "set (filter (\<lambda>v. (v - int a) mod int (step_of x) = 0) [int a..int z]) =
      int ` {v. a \<le> v \<and> v \<le> z \<and> step_of x dvd v - a}"
    by (simp add: conj_assoc)
  show ?thesis
    unfolding atom_list_def span prod.case atom_values_def set_map listed image_image by (rule image_cong) simp_all
qed

lemma strip_atoms: "strip is_space (show_atom x) = show_atom x"
  using show_atom_chars atom_char_plain by (intro strip_none) (auto simp: list_all_iff)

lemma join_with_chars: "c \<in> set (join_with sep xs) \<Longrightarrow> c \<in> set sep \<or> (\<exists>x \<in> set xs. c \<in> set x)"
  by (induction sep xs rule: join_with.induct) auto

lemma show_field_chars: "c \<in> set (show_field xs) \<Longrightarrow> atom_char c \<or> c = CHR '',''"
  unfolding show_field_def by (drule join_with_chars) (auto dest: show_atom_chars)

lemma show_field_not_Nil: "xs \<noteq> [] \<Longrightarrow> show_field xs \<noteq> []"
  unfolding show_field_def by (cases xs; cases "tl xs") (auto simp: show_atom_not_Nil)

lemma show_field_plain: "c \<in> set (show_field xs) \<Longrightarrow> \<not> is_space c \<and> c \<noteq> CHR '' ''"
proof -
  have "\<not> is_space (CHR '','')" by code_simp
  then show "c \<in> set (show_field xs) \<Longrightarrow> \<not> is_space c \<and> c \<noteq> CHR '' ''" using show_field_chars [of c xs] atom_char_plain by auto
qed

lemma show_atom_star: "show_atom x = ''*'' \<longleftrightarrow> x = (Every, None)"
proof (cases x)
  case (Pair b s)
  have digits: "str_nat n \<noteq> ''*'' @ t" for n t
    using str_nat_chars [of n] digit_plain by (cases "str_nat n") auto
  show ?thesis
  proof (cases b)
    case Every
    then show ?thesis using Pair by (auto simp: show_atom_def split: option.split)
  next
    case (Only n)
    then show ?thesis
      using Pair digits [of n "[]"] str_nat_not_Nil [of n] by (cases "str_nat n") (auto simp: show_atom_def split: option.split)
  next
    case (Between m n)
    then show ?thesis
      using Pair str_nat_not_Nil [of m] by (cases "str_nat m") (auto simp: show_atom_def split: option.split)
  qed
qed

lemma show_field_star: "xs \<noteq> [] \<Longrightarrow> show_field xs = ''*'' \<longleftrightarrow> xs = [(Every, None)]"
proof (cases xs)
  case (Cons x ys)
  then show ?thesis
  proof (cases ys)
    case Nil
    then show ?thesis using Cons by (simp add: show_field_def show_atom_star)
  next
    fix y zs assume "ys = y # zs"
    then have "CHR '','' \<in> set (show_field xs)" using Cons by (simp add: show_field_def)
    then show ?thesis using Cons \<open>ys = y # zs\<close> by auto
  qed
qed simp

lemma mapE_all: "\<forall>x \<in> set xs. f x = Inr (g x) \<Longrightarrow> mapE f xs = Inr (map g xs)"
  by (induction xs) simp_all

lemma cron_show_field:
  assumes "wf_field lo hi xs" and "hi < 100"
  shows "cron_field (show_field xs) (int lo) (int hi) weekday =
    Inr (concat (map (atom_list lo hi weekday) xs), xs = [(Every, None)])"
proof -
  have xs: "xs \<noteq> []" "\<forall>x \<in> set xs. wf_atom lo hi x" using assms(1) by (auto simp: wf_field_def list_all_iff)
  have whole: "strip is_space (show_field xs) = show_field xs"
    by (rule strip_none) (use show_field_plain in \<open>auto simp: list_all_iff\<close>)
  have atoms: "split_on (CHR '','') (show_field xs) = map show_atom xs"
    unfolding show_field_def using xs(1) by (intro split_on_join) (auto dest: show_atom_chars atom_char_plain)
  have run: "mapE (\<lambda>atom. expand_atom (strip is_space atom) (int lo) (int hi) weekday) (map show_atom xs) =
      Inr (map (atom_list lo hi weekday) xs)"
  proof -
    have "mapE (\<lambda>atom. expand_atom (strip is_space atom) (int lo) (int hi) weekday) (map show_atom xs) =
        mapE (\<lambda>x. expand_atom (strip is_space (show_atom x)) (int lo) (int hi) weekday) xs" by (induction xs) simp_all
    also have "\<dots> = Inr (map (atom_list lo hi weekday) xs)"
      by (rule mapE_all) (use xs(2) assms(2) in \<open>simp add: strip_atoms expand_show_atom\<close>)
    finally show ?thesis .
  qed
  show ?thesis
    using run show_field_not_Nil [OF xs(1)] show_field_star [OF xs(1)] by (simp add: cron_field_def whole atoms)
qed

lemma set_cron_field:
  assumes "wf_field lo hi xs"
  shows "set (concat (map (atom_list lo hi weekday) xs)) = (\<lambda>v. if weekday \<and> v = 7 then 0 else int v) ` field_values lo hi xs"
  using assms by (auto simp: wf_field_def list_all_iff field_values_def set_atom_list)


lemma strip_edges: "s \<noteq> [] \<Longrightarrow> \<not> f (hd s) \<Longrightarrow> \<not> f (last s) \<Longrightarrow> strip f s = s"
proof -
  assume "s \<noteq> []" and "\<not> f (hd s)" and "\<not> f (last s)"
  then have "dropWhile f s = s" and "dropWhile f (rev s) = rev s" by (simp_all add: dropWhile_eq_self_iff hd_rev)
  then show "strip f s = s" by (simp add: strip_def)
qed

lemma words_show_cron:
  assumes "wf_cron e"
  shows "words (strip is_space (show_cron e)) =
    [show_field (ce_minute e), show_field (ce_hour e), show_field (ce_day e), show_field (ce_month e), show_field (ce_weekday e)]"
proof -
  define fields where "fields = [ce_minute e, ce_hour e, ce_day e, ce_month e, ce_weekday e]"
  have filled: "\<forall>xs \<in> set fields. xs \<noteq> []" using assms by (simp add: fields_def wf_cron_def wf_field_def)
  have shown: "show_cron e = join_with '' '' (map show_field fields)" by (simp add: show_cron_def fields_def)
  have chars: "is_space c \<longrightarrow> c = CHR '' ''" if "c \<in> set (show_cron e)" for c
    using join_with_chars [OF that [unfolded shown]] show_field_plain by auto
  have hd: "\<not> is_space (hd (show_cron e))"
  proof -
    have "hd (show_cron e) = hd (show_field (ce_minute e))" and "show_field (ce_minute e) \<noteq> []"
      using show_field_not_Nil [of "ce_minute e"] filled by (auto simp: show_cron_def fields_def)
    then show ?thesis using show_field_plain hd_in_set by metis
  qed
  have last: "\<not> is_space (last (show_cron e))"
  proof -
    have "last (show_cron e) = last (show_field (ce_weekday e))" and "show_field (ce_weekday e) \<noteq> []"
      using show_field_not_Nil [of "ce_weekday e"] filled by (auto simp: show_cron_def fields_def)
    then show ?thesis using show_field_plain last_in_set by metis
  qed
  have "show_cron e \<noteq> []" by (simp add: show_cron_def)
  then have strip: "strip is_space (show_cron e) = show_cron e" using hd last by (rule strip_edges)
  have same: "map (\<lambda>c. if is_space c then CHR '' '' else c) (show_cron e) = show_cron e"
    using chars by (intro map_idI) auto
  have "split_on (CHR '' '') (show_cron e) = map show_field fields"
    unfolding shown using show_field_plain by (intro split_on_join) (auto simp: fields_def)
  moreover have "filter (\<lambda>w. w \<noteq> []) (map show_field fields) = map show_field fields"
    using filled show_field_not_Nil by (intro filter_True) auto
  ultimately show ?thesis by (simp add: words_def strip same fields_def)
qed

definition meaning :: "cron_expr \<Rightarrow> compiled_cron" where
  "meaning e = \<lparr>cc_minutes = concat (map (atom_list 0 59 False) (ce_minute e)), cc_hours = concat (map (atom_list 0 23 False) (ce_hour e)),
     cc_days = concat (map (atom_list 1 31 False) (ce_day e)), cc_months = concat (map (atom_list 1 12 False) (ce_month e)),
     cc_weekdays = concat (map (atom_list 0 7 True) (ce_weekday e)), cc_day_wildcard = (ce_day e = [(Every, None)]),
     cc_weekday_wildcard = (ce_weekday e = [(Every, None)])\<rparr>"

lemma compile_show_cron:
  assumes "wf_cron e"
  shows "compile_cron (show_cron e) = Inr (meaning e)"
proof -
  have wf: "wf_field 0 59 (ce_minute e)" "wf_field 0 23 (ce_hour e)" "wf_field 1 31 (ce_day e)" "wf_field 1 12 (ce_month e)"
    "wf_field 0 7 (ce_weekday e)" using assms by (simp_all add: wf_cron_def)
  have fields: "cron_field (show_field (ce_minute e)) 0 59 False = Inr (cc_minutes (meaning e), ce_minute e = [(Every, None)])"
    "cron_field (show_field (ce_hour e)) 0 23 False = Inr (cc_hours (meaning e), ce_hour e = [(Every, None)])"
    "cron_field (show_field (ce_day e)) 1 31 False = Inr (cc_days (meaning e), cc_day_wildcard (meaning e))"
    "cron_field (show_field (ce_month e)) 1 12 False = Inr (cc_months (meaning e), ce_month e = [(Every, None)])"
    "cron_field (show_field (ce_weekday e)) 0 7 True = Inr (cc_weekdays (meaning e), cc_weekday_wildcard (meaning e))"
    using cron_show_field [OF wf(1), of False] cron_show_field [OF wf(2), of False] cron_show_field [OF wf(3), of False]
      cron_show_field [OF wf(4), of False] cron_show_field [OF wf(5), of True]
    by (simp_all add: meaning_def)
  show ?thesis
    unfolding compile_cron_def words_show_cron [OF assms] list.case fields by (simp add: meaning_def)
qed

lemma matches_meaning:
  assumes "wf_cron e"
  shows "matches (meaning e) t \<longleftrightarrow> cron_due e t"
proof -
  have wf: "wf_field 0 59 (ce_minute e)" "wf_field 0 23 (ce_hour e)" "wf_field 1 31 (ce_day e)" "wf_field 1 12 (ce_month e)"
    "wf_field 0 7 (ce_weekday e)" using assms by (simp_all add: wf_cron_def)
  have plain: "int n \<in> set (concat (map (atom_list lo hi False) xs)) \<longleftrightarrow> n \<in> field_values lo hi xs" if "wf_field lo hi xs" for n lo hi xs
    unfolding set_cron_field [OF that] by auto
  have small: "v \<le> 7" if "v \<in> field_values 0 7 (ce_weekday e)" for v
  proof -
    from that obtain x where x: "x \<in> set (ce_weekday e)" "v \<in> atom_values 0 7 x" by (auto simp: field_values_def)
    with wf(5) have "wf_atom 0 7 x" by (auto simp: wf_field_def list_all_iff)
    with x(2) show ?thesis by (cases "base_span 0 7 (fst x)") (auto simp: atom_values_def wf_atom_def)
  qed
  have sunday: "(if True \<and> v = 7 then 0 else int v) = int v mod 7" if "v \<le> 7" for v :: nat
    using that by (cases "v = 7") auto
  have "(weekday_of t + 1) mod 7 = ymd2ord (dt_year t) (dt_month t) (dt_day t) mod 7"
    by (simp add: weekday_of_def mod_simps)
  then have weekday: "(weekday_of t + 1) mod 7 \<in> set (concat (map (atom_list 0 7 True) (ce_weekday e))) \<longleftrightarrow>
      (\<exists>v \<in> field_values 0 7 (ce_weekday e). int v mod 7 = ymd2ord (dt_year t) (dt_month t) (dt_day t) mod 7)"
    unfolding set_cron_field [OF wf(5)] using sunday small by (force simp: image_iff)
  show ?thesis
    unfolding matches_def cron_due_def Let_def meaning_def compiled_cron.select_convs plain [OF wf(1)] plain [OF wf(2)] plain [OF wf(3)]
      plain [OF wf(4)] weekday
    by auto
qed


section \<open>Dates and instants\<close>

lemma days_before_month_mono: "m \<le> n \<Longrightarrow> 1 \<le> m \<Longrightarrow> days_before_month y m \<le> days_before_month y n"
proof (induction n rule: nat_induct_at_least [of m])
  case (Suc n)
  then show ?case using days_before_month_Suc [of n y] by simp
qed simp

lemma ymd2ord_year_less:
  assumes "valid_date y m d" and "valid_date z n e" and "y < z"
  shows "ymd2ord y m d < ymd2ord z n e"
proof -
  have "ymd2ord y m d \<le> days_before_year (Suc y)"
    using assms(1) day_of_year_bound [of m d y] by (auto simp: ymd2ord_def valid_date_def days_before_year_Suc split: if_splits)
  also have "\<dots> \<le> days_before_year z" using assms(3) by (intro days_before_year_mono) simp
  also have "\<dots> < ymd2ord z n e" using assms(2) by (simp add: ymd2ord_def valid_date_def)
  finally show ?thesis .
qed

lemma ymd2ord_month_less:
  assumes "valid_date y m d" and "valid_date y n e" and "m < n"
  shows "ymd2ord y m d < ymd2ord y n e"
proof -
  have "days_before_month y m + d \<le> days_before_month y (Suc m)"
    using assms(1) days_before_month_Suc [of m y] by (simp add: valid_date_def)
  also have "\<dots> \<le> days_before_month y n" using assms by (intro days_before_month_mono) auto
  finally show ?thesis using assms(2) by (simp add: ymd2ord_def valid_date_def)
qed

lemma ymd2ord_inject:
  assumes "valid_date y m d" and "valid_date z n e" and "ymd2ord y m d = ymd2ord z n e"
  shows "y = z \<and> m = n \<and> d = e"
proof -
  have "y = z" using ymd2ord_year_less assms by (metis less_irrefl linorder_neqE_nat)
  moreover from this have "m = n" using ymd2ord_month_less assms by (metis less_irrefl linorder_neqE_nat)
  ultimately show ?thesis using assms(3) by (simp add: ymd2ord_def)
qed

lemma instant_parts:
  assumes "valid_datetime t"
  shows "instant t div usec_per_day = ymd2ord (dt_year t) (dt_month t) (dt_day t)" and "instant t mod usec_per_day = usec_of_day t"
proof -
  have "instant t = usec_of_day t + ymd2ord (dt_year t) (dt_month t) (dt_day t) * usec_per_day" by (simp add: instant_def)
  then show "instant t div usec_per_day = ymd2ord (dt_year t) (dt_month t) (dt_day t)" "instant t mod usec_per_day = usec_of_day t"
    using usec_of_day_bounds [OF assms] by (simp_all add: usec_per_day_def)
qed

lemma instant_inject:
  assumes "valid_datetime t" and "valid_datetime u" and "instant t = instant u"
  shows "t = u"
proof -
  have "dt_year t = dt_year u \<and> dt_month t = dt_month u \<and> dt_day t = dt_day u"
    using assms instant_parts [OF assms(1)] instant_parts [OF assms(2)] by (intro ymd2ord_inject) (auto simp: valid_datetime_def)
  moreover have "usec_of_day t = usec_of_day u" using instant_parts [OF assms(1)] instant_parts [OF assms(2)] assms(3) by simp
  ultimately show ?thesis using split_usec_of_day assms(1,2) by metis
qed

text \<open>The minute of the day a date falls in.\<close>

lemma minute_of_day:
  assumes "valid_datetime t"
  shows "instant t div usec_per_minute mod 1440 = int (dt_hour t) * 60 + int (dt_minute t)"
proof -
  let ?clock = "int (dt_hour t) * 60 + int (dt_minute t)"
  have "instant t = (int (dt_second t) * 1000000 + int (dt_usec t)) +
      (?clock + ymd2ord (dt_year t) (dt_month t) (dt_day t) * 1440) * usec_per_minute"
    by (simp add: instant_def usec_of_day_def usec_per_day_def usec_per_minute_def algebra_simps)
  moreover have "0 \<le> int (dt_second t) * 1000000 + int (dt_usec t)" "int (dt_second t) * 1000000 + int (dt_usec t) < usec_per_minute"
    using assms by (auto simp: valid_datetime_def usec_per_minute_def)
  ultimately have "instant t div usec_per_minute = ?clock + ymd2ord (dt_year t) (dt_month t) (dt_day t) * 1440"
    by (simp add: usec_per_minute_def)
  moreover have "0 \<le> ?clock" "?clock < 1440" using assms by (auto simp: valid_datetime_def)
  ultimately show ?thesis by simp
qed

lemma truncate_minute:
  assumes "valid_datetime t"
  shows "valid_datetime (t\<lparr>dt_second := 0, dt_usec := 0\<rparr>)"
    and "instant (t\<lparr>dt_second := 0, dt_usec := 0\<rparr>) = instant t - instant t mod usec_per_minute"
proof -
  let ?u = "t\<lparr>dt_second := 0, dt_usec := 0\<rparr>"
  let ?rest = "int (dt_second t) * 1000000 + int (dt_usec t)"
  have split: "instant t = ?rest + instant ?u" by (simp add: instant_def usec_of_day_def algebra_simps)
  have "instant ?u = ((int (dt_hour t) * 60 + int (dt_minute t)) + ymd2ord (dt_year t) (dt_month t) (dt_day t) * 1440) * usec_per_minute"
    by (simp add: instant_def usec_of_day_def usec_per_day_def usec_per_minute_def algebra_simps)
  then have "instant ?u mod usec_per_minute = 0" by simp
  moreover have "0 \<le> ?rest" "?rest < usec_per_minute" using assms by (auto simp: valid_datetime_def usec_per_minute_def)
  ultimately have "instant t mod usec_per_minute = ?rest"
    unfolding split by (metis add.right_neutral mod_add_right_eq mod_pos_pos_trivial)
  then show "instant ?u = instant t - instant t mod usec_per_minute" using split by simp
  show "valid_datetime ?u" using assms by (simp add: valid_datetime_def)
qed

section \<open>Counting\<close>

text \<open>Whether one of the expressions is due in the minute at the instant \<open>t\<close>, on the clock of the zone.\<close>

definition due_at :: "(int \<Rightarrow> int) \<Rightarrow> compiled_cron list \<Rightarrow> int \<Rightarrow> bool" where
  "due_at zone crons t \<longleftrightarrow> (\<exists>u. valid_datetime u \<and> instant u = t + zone t \<and> (\<exists>c \<in> set crons. matches c u))"

lemma due_at_date:
  assumes "valid_datetime u" and "instant u = t + zone t"
  shows "due_at zone crons t \<longleftrightarrow> (\<exists>c \<in> set crons. matches c u)"
  unfolding due_at_def using assms instant_inject by metis

definition due_minutes :: "(int \<Rightarrow> int) \<Rightarrow> compiled_cron list \<Rightarrow> int \<Rightarrow> int \<Rightarrow> int set" where
  "due_minutes zone crons start stop = {t. start \<le> t \<and> t < stop \<and> usec_per_minute dvd t \<and> due_at zone crons t}"

lemma due_minutes_step:
  assumes "usec_per_minute dvd start" and "start < stop"
  shows "due_minutes zone crons start stop =
    (if due_at zone crons start then {start} else {}) \<union> due_minutes zone crons (start + usec_per_minute) stop"
proof -
  have "start + usec_per_minute \<le> t" if later: "start < t" and whole: "usec_per_minute dvd t" for t
  proof -
    obtain i where "start = usec_per_minute * i" using assms(1) by (rule dvdE)
    moreover obtain j where "t = usec_per_minute * j" using whole by (rule dvdE)
    ultimately have "start = usec_per_minute * i" "t = usec_per_minute * j" by simp_all
    with later show ?thesis by (simp add: usec_per_minute_def)
  qed
  moreover have "0 < usec_per_minute" by (simp add: usec_per_minute_def)
  ultimately show ?thesis
    using assms by (auto simp: due_minutes_def le_less)
qed

lemma finite_due_minutes: "finite (due_minutes zone crons start stop)"
  by (rule finite_subset [of _ "{start..<stop}"]) (auto simp: due_minutes_def)

lemma count_minutes_exact:
  assumes "\<forall>t. \<bar>zone t\<bar> < usec_per_day" and "valid_datetime cursor" and "valid_datetime limit"
    and "usec_per_minute dvd instant cursor" and "2 * usec_per_day \<le> instant cursor" and "instant limit \<le> max_instant - usec_per_day"
  shows "count_minutes zone crons limit cursor count = Some (Inr (count + card (due_minutes zone crons (instant cursor) (instant limit))))"
  using assms(2,4,5)
proof (induction "nat (instant limit - instant cursor)" arbitrary: cursor count rule: less_induct)
  case less
  show ?case
  proof (cases "instant cursor < instant limit")
    case False
    then have "due_minutes zone crons (instant cursor) (instant limit) = {}" by (auto simp: due_minutes_def)
    then show ?thesis using False by (simp add: count_minutes.simps)
  next
    case True
    have zone: "\<bar>- zone (instant cursor)\<bar> < usec_per_day" using assms(1) by simp
    obtain u where u: "to_zone zone cursor = Inr u" "valid_datetime u" "instant u = instant cursor + zone (instant cursor)"
    proof (cases "to_zone zone cursor")
      case (Inl e)
      then show ?thesis
        using to_utc_correct [OF less.prems(1) zone] True less.prems(3) assms(6) assms(1) [rule_format, of "instant cursor"]
        unfolding to_zone_def min_instant_def by simp linarith
    qed (use to_utc_correct [OF less.prems(1) zone] that in \<open>auto simp: to_zone_def\<close>)
    obtain next_one where n: "next_minute cursor = Inr next_one" "valid_datetime next_one" "instant next_one = instant cursor + usec_per_minute"
    proof (cases "next_minute cursor")
      case (Inl e)
      then show ?thesis
        using to_utc_correct [OF less.prems(1), of "- usec_per_minute"] True less.prems(3) assms(6)
        by (auto simp: next_minute_def min_instant_def usec_per_minute_def usec_per_day_def)
    qed (use to_utc_correct [OF less.prems(1), of "- usec_per_minute"] that in \<open>auto simp: next_minute_def usec_per_minute_def usec_per_day_def\<close>)
    have due: "list_ex (\<lambda>c. matches c u) crons \<longleftrightarrow> due_at zone crons (instant cursor)"
      unfolding list_ex_iff using due_at_date [where zone = zone and t = "instant cursor", OF u(2,3)] by blast
    have rest: "count_minutes zone crons limit next_one k =
        Some (Inr (k + card (due_minutes zone crons (instant cursor + usec_per_minute) (instant limit))))" for k
      using less.hyps [of next_one k] less.prems True n by (simp add: usec_per_minute_def)
    have "instant cursor \<notin> due_minutes zone crons (instant cursor + usec_per_minute) (instant limit)"
      by (simp add: due_minutes_def usec_per_minute_def)
    then have "card (due_minutes zone crons (instant cursor) (instant limit)) =
        (if due_at zone crons (instant cursor) then 1 else 0) + card (due_minutes zone crons (instant cursor + usec_per_minute) (instant limit))"
      unfolding due_minutes_step [OF less.prems(2) True] using finite_due_minutes by simp
    then show ?thesis
      unfolding count_minutes.simps [of zone crons limit cursor] using True by (simp add: u(1) n(1) rest due)
  qed
qed

lemma occurrences_count:
  assumes "valid_datetime start" and "valid_datetime stop" and "\<bar>a\<bar> < usec_per_day" and "\<bar>b\<bar> < usec_per_day"
    and "\<forall>t. \<bar>zone t\<bar> < usec_per_day" and "3 * usec_per_day \<le> instant start - a" and "instant stop - b \<le> max_instant - usec_per_day"
    and "instant start - a < instant stop - b" and "mapE compile_cron expressions = Inr crons"
  shows "expected_occurrences zone expressions (start, Some a) (stop, Some b) = Some (Inr (card
    (due_minutes zone crons ((instant start - a) div usec_per_minute * usec_per_minute) (instant stop - b))))"
proof -
  obtain cursor where cursor: "to_utc start a = Inr cursor" "valid_datetime cursor" "instant cursor = instant start - a"
    using to_utc_correct [OF assms(1,3)] assms(6-8) by (cases "to_utc start a") (auto simp: min_instant_def usec_per_day_def)
  obtain limit where limit: "to_utc stop b = Inr limit" "valid_datetime limit" "instant limit = instant stop - b"
    using to_utc_correct [OF assms(2,4)] assms(6-8) by (cases "to_utc stop b") (auto simp: min_instant_def usec_per_day_def)
  let ?c = "cursor\<lparr>dt_second := 0, dt_usec := 0\<rparr>"
  have whole: "instant ?c = (instant start - a) div usec_per_minute * usec_per_minute"
    using truncate_minute(2) [OF cursor(2)] cursor(3) by (simp add: minus_mod_eq_div_mult)
  have "instant start - a - usec_per_minute < instant ?c"
    unfolding truncate_minute(2) [OF cursor(2)] cursor(3) by (simp add: usec_per_minute_def)
  then have "2 * usec_per_day \<le> instant ?c" using assms(6) by (simp add: usec_per_minute_def usec_per_day_def)
  then have "count_minutes zone crons limit ?c 0 = Some (Inr (0 + card (due_minutes zone crons (instant ?c) (instant limit))))"
    using assms(5,7) limit truncate_minute(1) [OF cursor(2)] whole by (intro count_minutes_exact) auto
  then show ?thesis
    using assms(8,9) cursor(1) limit whole by (simp add: expected_occurrences_def)
qed

section \<open>A daily schedule\<close>

lemma ordinal_date:
  assumes "n < 3652059"
  shows "\<exists>y m d. valid_date y m d \<and> ymd2ord y m d = int n + 1"
  using assms
proof (induction n)
  case 0
  have "valid_date 1 1 1 \<and> ymd2ord 1 1 1 = int 0 + 1" by (simp add: valid_date_def ymd2ord_def days_before_year_def days_in_month_def)
  then show ?case by blast
next
  case (Suc n)
  then obtain y m d where date: "valid_date y m d" "ymd2ord y m d = int n + 1" by auto
  show ?case
  proof (cases "next_day (y, m, d)")
    case (Inl e)
    then show ?thesis using next_day_ordinal [OF date(1)] date(2) Suc.prems by simp
  next
    case (Inr later)
    obtain y' m' d' where "later = (y', m', d')" by (cases later)
    then have "valid_date y' m' d' \<and> ymd2ord y' m' d' = int (Suc n) + 1"
      using next_day_ordinal [OF date(1)] date(2) Inr by simp
    then show ?thesis by blast
  qed
qed

lemma instant_date:
  assumes "min_instant \<le> t" and "t \<le> max_instant"
  obtains u where "valid_datetime u" and "instant u = t"
proof -
  define n where "n = nat (t div usec_per_day - 1)"
  have "1 \<le> t div usec_per_day" "t div usec_per_day \<le> 3652059"
    using assms by (simp_all add: min_instant_def max_instant_def usec_per_day_def)
  then have n: "t div usec_per_day = int n + 1" "n < 3652059" by (auto simp: n_def)
  then obtain y m d where date: "valid_date y m d" "ymd2ord y m d = t div usec_per_day" using ordinal_date [of n] by auto
  have time: "0 \<le> t mod usec_per_day" "t mod usec_per_day < usec_per_day" by (simp_all add: usec_per_day_def)
  show thesis
  proof (rule that)
    show "valid_datetime (make_datetime (y, m, d) (split_usec (t mod usec_per_day)))"
      using split_usec_combines(2) [OF time] date(1) by simp
    show "instant (make_datetime (y, m, d) (split_usec (t mod usec_per_day))) = t"
      unfolding instant_make split_usec_combines(1) [OF time] date(2) by simp
  qed
qed

definition daily :: "nat \<Rightarrow> nat \<Rightarrow> cron_expr" where
  "daily m h = \<lparr>ce_minute = [(Only m, None)], ce_hour = [(Only h, None)], ce_day = [(Every, None)], ce_month = [(Every, None)],
     ce_weekday = [(Every, None)]\<rparr>"

lemma wf_daily: "m < 60 \<Longrightarrow> h < 24 \<Longrightarrow> wf_cron (daily m h)"
  by (simp add: wf_cron_def daily_def wf_field_def wf_atom_def step_of_def short_str_nat)

lemma daily_due:
  assumes "valid_datetime t"
  shows "cron_due (daily m h) t \<longleftrightarrow> dt_minute t = m \<and> dt_hour t = h"
proof -
  have "1 \<le> dt_month t \<and> dt_month t \<le> 12" using assms by (simp add: valid_datetime_def valid_date_def)
  then show ?thesis by (auto simp: cron_due_def daily_def field_values_def atom_values_def step_of_def)
qed

lemma next_residue:
  fixes k :: int
  assumes "0 < M" and "l \<le> k" and "k < l + M" and "k mod M = r"
  shows "k = l + (r - l) mod M"
proof -
  have "(k - l) mod M = (r - l) mod M" using assms(4) by (metis mod_diff_left_eq)
  moreover have "(k - l) mod M = k - l" using assms by (intro mod_pos_pos_trivial) auto
  ultimately show ?thesis by simp
qed

lemma residue_hit:
  fixes l :: int
  assumes "0 < M" and "0 \<le> r" and "r < M"
  shows "{k. l \<le> k \<and> k < l + M \<and> k mod M = r} = {l + (r - l) mod M}"
proof -
  have "(l + (r - l) mod M) mod M = r" using assms by (simp add: mod_add_right_eq)
  moreover have "0 \<le> (r - l) mod M" "(r - l) mod M < M" using assms(1) by simp_all
  ultimately show ?thesis using next_residue [OF assms(1)] by auto
qed

lemma residue_count:
  fixes l :: int
  assumes "0 < M" and "0 \<le> r" and "r < M"
  shows "finite {k. l \<le> k \<and> k < l + M * int n \<and> k mod M = r} \<and> card {k. l \<le> k \<and> k < l + M * int n \<and> k mod M = r} = n"
proof (induction n)
  case 0
  have "{k. l \<le> k \<and> k < l + M * int 0 \<and> k mod M = r} = {}" by auto
  then show ?case by (simp only: finite.emptyI card.empty)
next
  case (Suc n)
  let ?s = "\<lambda>n. {k. l \<le> k \<and> k < l + M * int n \<and> k mod M = r}"
  let ?h = "l + M * int n"
  have "?s (Suc n) = ?s n \<union> {k. ?h \<le> k \<and> k < ?h + M \<and> k mod M = r}"
    using assms(1) by (auto simp: algebra_simps) (smt (verit) assms(1) mult_nonneg_nonneg of_nat_0_le_iff)+
  moreover have "?s n \<inter> {k. ?h \<le> k \<and> k < ?h + M \<and> k mod M = r} = {}" by auto
  ultimately show ?case using Suc.IH unfolding residue_hit [OF assms, of ?h] by simp
qed

lemma clock_inject: "b < 60 \<Longrightarrow> d < 60 \<Longrightarrow> int a * 60 + int b = int c * 60 + int d \<longleftrightarrow> a = c \<and> b = d"
proof (rule iffI)
  assume small: "b < 60" "d < 60" and same: "int a * 60 + int b = int c * 60 + int d"
  then have "int (a * 60 + b) = int (c * 60 + d)" by simp
  then have "a * 60 + b = c * 60 + d" by (simp only: of_nat_eq_iff)
  with div_mod_radix [OF small(1), of a] div_mod_radix [OF small(2), of c] show "a = c \<and> b = d" by simp
qed simp

lemma daily_minutes:
  assumes "m < 60" and "h < 24" and "3 * usec_per_day \<le> start" and "start + int n * usec_per_day \<le> max_instant - usec_per_day"
  shows "card (due_minutes (\<lambda>_. 0) [meaning (daily m h)] (start div usec_per_minute * usec_per_minute) (start + int n * usec_per_day)) =
    n + (if start mod usec_per_minute \<noteq> 0 \<and> start div usec_per_minute mod 1440 = int h * 60 + int m then 1 else 0)"
proof -
  define l where "l = start div usec_per_minute"
  define rest where "rest = start mod usec_per_minute"
  define r where "r = int h * 60 + int m"
  have start: "start = l * usec_per_minute + rest" by (simp add: l_def rest_def)
  have rest: "0 \<le> rest" "rest < usec_per_minute" by (simp_all add: rest_def usec_per_minute_def)
  have r: "0 \<le> r" "r < 1440" using assms(1,2) by (auto simp: r_def)
  have day: "usec_per_day = 1440 * usec_per_minute" by (simp add: usec_per_day_def usec_per_minute_def)
  have due: "due_at (\<lambda>_. 0) [meaning (daily m h)] (k * usec_per_minute) \<longleftrightarrow> k mod 1440 = r"
    if bounds: "l \<le> k" "k * usec_per_minute < start + int n * usec_per_day" for k
  proof -
    have "l * usec_per_minute \<le> k * usec_per_minute" using bounds(1) by (simp add: usec_per_minute_def)
    moreover have "0 < usec_per_minute" by (simp add: usec_per_minute_def)
    ultimately have "min_instant \<le> k * usec_per_minute" "k * usec_per_minute \<le> max_instant"
      using assms(3,4) bounds(2) start rest(2) unfolding min_instant_def day by linarith+
    then obtain u where u: "valid_datetime u" "instant u = k * usec_per_minute" by (rule instant_date)
    have "due_at (\<lambda>_. 0) [meaning (daily m h)] (k * usec_per_minute) \<longleftrightarrow> cron_due (daily m h) u"
      using due_at_date [of u "k * usec_per_minute" "\<lambda>_. 0"] u matches_meaning [OF wf_daily [OF assms(1,2)]] by simp
    also have "\<dots> \<longleftrightarrow> int (dt_hour u) * 60 + int (dt_minute u) = r"
      unfolding daily_due [OF u(1)] r_def using clock_inject [of "dt_minute u" m "dt_hour u" h] assms(1) u(1) by (auto simp: valid_datetime_def)
    also have "\<dots> \<longleftrightarrow> k mod 1440 = r"
      using minute_of_day [OF u(1)] u(2) by (simp add: usec_per_minute_def)
    finally show ?thesis .
  qed
  have "due_minutes (\<lambda>_. 0) [meaning (daily m h)] (l * usec_per_minute) (start + int n * usec_per_day) =
      (\<lambda>k. k * usec_per_minute) ` {k. l \<le> k \<and> k * usec_per_minute < start + int n * usec_per_day \<and> k mod 1440 = r}"
  proof (intro set_eqI iffI)
    fix t assume t: "t \<in> due_minutes (\<lambda>_. 0) [meaning (daily m h)] (l * usec_per_minute) (start + int n * usec_per_day)"
    then have "usec_per_minute dvd t" by (simp add: due_minutes_def)
    then obtain k where k: "t = k * usec_per_minute" by (metis dvdE mult.commute)
    then have "l \<le> k" using t by (simp add: due_minutes_def usec_per_minute_def)
    with t k due [of k] show "t \<in> (\<lambda>k. k * usec_per_minute) ` {k. l \<le> k \<and> k * usec_per_minute < start + int n * usec_per_day \<and> k mod 1440 = r}"
      by (auto simp: due_minutes_def)
  next
    fix t assume "t \<in> (\<lambda>k. k * usec_per_minute) ` {k. l \<le> k \<and> k * usec_per_minute < start + int n * usec_per_day \<and> k mod 1440 = r}"
    then obtain k where k: "t = k * usec_per_minute" "l \<le> k" "k * usec_per_minute < start + int n * usec_per_day" "k mod 1440 = r" by auto
    then have "l * usec_per_minute \<le> t" by (simp add: usec_per_minute_def)
    with k due [of k] show "t \<in> due_minutes (\<lambda>_. 0) [meaning (daily m h)] (l * usec_per_minute) (start + int n * usec_per_day)"
      by (simp add: due_minutes_def)
  qed
  moreover have "inj (\<lambda>k. k * usec_per_minute)" by (simp add: inj_def usec_per_minute_def)
  ultimately have card: "card (due_minutes (\<lambda>_. 0) [meaning (daily m h)] (l * usec_per_minute) (start + int n * usec_per_day)) =
      card {k. l \<le> k \<and> k * usec_per_minute < start + int n * usec_per_day \<and> k mod 1440 = r}"
    by (simp add: card_image inj_on_subset)
  have before: "k * usec_per_minute < start + int n * usec_per_day \<longleftrightarrow> k < l + 1440 * int n \<or> k = l + 1440 * int n \<and> rest \<noteq> 0" for k
  proof -
    have "start + int n * usec_per_day = (l + 1440 * int n) * usec_per_minute + rest" by (simp add: start day algebra_simps)
    then show ?thesis using rest by (auto simp: usec_per_minute_def)
  qed
  have "{k. l \<le> k \<and> k * usec_per_minute < start + int n * usec_per_day \<and> k mod 1440 = r} =
      {k. l \<le> k \<and> k < l + 1440 * int n \<and> k mod 1440 = r} \<union> (if rest \<noteq> 0 \<and> l mod 1440 = r then {l + 1440 * int n} else {})"
    unfolding before by auto
  then show ?thesis
    unfolding l_def [symmetric] rest_def [symmetric] r_def [symmetric] card using residue_count [of 1440 r l n] r by simp
qed


section \<open>Properties\<close>

text \<open>
  C33. \<^verbatim>\<open>compile_cron\<close> reads every expression of the grammar back from its text, and the compiled expression
  matches a date exactly when the grammar says it is due: minute, hour and month by their fields, and
  the day by the day field, the weekday field, or either when both are restricted. Whatever text it accepts,
  the five sets it compiles are not empty and lie within the bounds of their fields, with Sunday only as 0.
\<close>

theorem cron_exact:
  "(wf_cron e \<longrightarrow> (\<exists>c. compile_cron (show_cron e) = Inr c \<and> (\<forall>t. matches c t \<longleftrightarrow> cron_due e t))) \<and>
   (\<forall>c. compile_cron expression = Inr c \<longrightarrow>
      cc_minutes c \<noteq> [] \<and> set (cc_minutes c) \<subseteq> {0..59} \<and> cc_hours c \<noteq> [] \<and> set (cc_hours c) \<subseteq> {0..23} \<and>
      cc_days c \<noteq> [] \<and> set (cc_days c) \<subseteq> {1..31} \<and> cc_months c \<noteq> [] \<and> set (cc_months c) \<subseteq> {1..12} \<and>
      cc_weekdays c \<noteq> [] \<and> set (cc_weekdays c) \<subseteq> {0..6})"
  using compile_show_cron matches_meaning compile_cron_bounds by blast

definition working_days :: cron_expr where
  "working_days = \<lparr>ce_minute = [(Only 30, None), (Only 45, None)], ce_hour = [(Between 8 18, Some 2)], ce_day = [(Every, None)],
     ce_month = [(Every, None)], ce_weekday = [(Between 1 5, None), (Only 7, None)]\<rparr>"

lemma cron_exact_witness:
  "show_cron working_days = ''30,45 8-18/2 * * 1-5,7'' \<and>
   (\<exists>c. compile_cron ''30,45 8-18/2 * * 1-5,7'' = Inr c \<and> (\<forall>t. matches c t \<longleftrightarrow> cron_due working_days t) \<and> set (cc_weekdays c) \<subseteq> {0..6})"
proof -
  have shown: "show_cron working_days = ''30,45 8-18/2 * * 1-5,7''" by code_simp
  have "wf_cron working_days"
    by (simp add: wf_cron_def working_days_def wf_field_def wf_atom_def step_of_def short_str_nat)
  with cron_exact [of working_days "show_cron working_days"] show ?thesis unfolding shown by blast
qed

text \<open>
  C34. For expressions that compile and an ordered window of aware dates, away from the ends of the
  calendar, \<^verbatim>\<open>expected_occurrences\<close> returns, and its result is the number of whole minutes of the window in
  which an expression is due on the clock of the zone. The window starts with the minute its first instant
  lies in. An unordered or naive window is refused.
\<close>

theorem occurrences_exact:
  assumes "valid_datetime start" and "valid_datetime stop" and "\<bar>a\<bar> < usec_per_day" and "\<bar>b\<bar> < usec_per_day"
    and "\<forall>t. \<bar>zone t\<bar> < usec_per_day" and "3 * usec_per_day \<le> instant start - a" and "instant stop - b \<le> max_instant - usec_per_day"
    and "mapE compile_cron expressions = Inr crons"
  shows "expected_occurrences zone expressions (start, Some a) (stop, Some b) =
    (if instant start - a < instant stop - b
     then Some (Inr (card (due_minutes zone crons ((instant start - a) div usec_per_minute * usec_per_minute) (instant stop - b))))
     else Some (Inl (Err ''cron window must be ordered and timezone-aware'')))"
  using occurrences_count [OF assms(1-7) _ assms(8)] by (auto simp: expected_occurrences_def)

text \<open>
  A daily schedule in UTC is expected once for each day of a window of whole days, and once more when the
  window does not start on a whole minute and starts within the minute of the schedule: that minute is
  counted although it began before the window.
\<close>

lemma daily_expected:
  assumes "valid_datetime start" and "valid_datetime stop" and "\<bar>a\<bar> < usec_per_day" and "\<bar>b\<bar> < usec_per_day"
    and "3 * usec_per_day \<le> instant start - a" and "instant stop - b \<le> max_instant - usec_per_day"
    and "m < 60" and "h < 24" and "0 < n" and "instant stop - b = instant start - a + int n * usec_per_day"
  shows "expected_occurrences (\<lambda>_. 0) [show_cron (daily m h)] (start, Some a) (stop, Some b) =
    Some (Inr (n + (if (instant start - a) mod usec_per_minute \<noteq> 0 \<and>
      (instant start - a) div usec_per_minute mod 1440 = int h * 60 + int m then 1 else 0)))"
proof -
  have crons: "mapE compile_cron [show_cron (daily m h)] = Inr [meaning (daily m h)]"
    using compile_show_cron [OF wf_daily [OF assms(7,8)]] by simp
  have "0 < int n * usec_per_day" using assms(9) by (simp add: usec_per_day_def)
  then have ordered: "instant start - a < instant stop - b" using assms(10) by linarith
  have zone: "\<forall>t::int. \<bar>0\<bar> < usec_per_day" by (simp add: usec_per_day_def)
  show ?thesis
    using occurrences_count [OF assms(1-4) zone assms(5,6) ordered crons] daily_minutes [OF assms(7,8,5), of n] assms(6,10) by simp
qed

definition sample_start :: datetime where
  "sample_start = \<lparr>dt_year = 2026, dt_month = 8, dt_day = 3, dt_hour = 7, dt_minute = 30, dt_second = 1, dt_usec = 0\<rparr>"

definition sample_stop :: datetime where
  "sample_stop = sample_start\<lparr>dt_day := 5\<rparr>"

lemma window_instants: "instant sample_start = 63921425401000000" "instant sample_stop = 63921598201000000"
  by (simp_all add: sample_start_def sample_stop_def instant_def ymd2ord_def days_before_year_def days_before_month_def days_in_month_def
      is_leap_def upt_conv_Cons usec_of_day_def usec_per_day_def)

lemma sample_window_dates:
  "valid_datetime sample_start" "valid_datetime sample_stop" "3 * usec_per_day \<le> instant sample_start"
  "instant sample_stop \<le> max_instant - usec_per_day" "instant sample_stop = instant sample_start + int 2 * usec_per_day"
  "instant sample_start mod usec_per_minute = 1000000" "instant sample_start div usec_per_minute mod 1440 = 450"
  unfolding window_instants
  by (simp_all add: valid_datetime_def valid_date_def days_in_month_def sample_start_def sample_stop_def usec_per_day_def usec_per_minute_def
      max_instant_def)

lemma occurrences_exact_witness:
  "expected_occurrences (\<lambda>_. 0) [show_cron (daily 30 7)] (sample_start, Some 0) (sample_stop, Some 0) =
    Some (Inr (card (due_minutes (\<lambda>_. 0) [meaning (daily 30 7)] (instant sample_start div usec_per_minute * usec_per_minute) (instant sample_stop))))"
proof -
  have crons: "mapE compile_cron [show_cron (daily 30 7)] = Inr [meaning (daily 30 7)]"
    using compile_show_cron [OF wf_daily, of 30 7] by simp
  have zero: "\<bar>0::int\<bar> < usec_per_day" "\<forall>t::int. \<bar>0\<bar> < usec_per_day" by (simp_all add: usec_per_day_def)
  have "instant sample_start < instant sample_stop" unfolding sample_window_dates(5) by (simp add: usec_per_day_def)
  then show ?thesis
    using occurrences_exact [OF sample_window_dates(1,2) zero(1) zero(1) zero(2) _ _ crons] sample_window_dates(3,4) by simp
qed

lemma daily_expected_witness:
  "expected_occurrences (\<lambda>_. 0) [show_cron (daily 30 7)] (sample_start, Some 0) (sample_stop, Some 0) = Some (Inr 3)"
proof -
  have zero: "\<bar>0::int\<bar> < usec_per_day" by (simp add: usec_per_day_def)
  show ?thesis
    using daily_expected [OF sample_window_dates(1,2) zero zero, of 30 7 2] sample_window_dates by simp
qed

text \<open>The step of a single value is read and then ignored, and names of days and months are refused.\<close>

definition odd_step :: cron_expr where
  "odd_step = \<lparr>ce_minute = [(Only 20, Some 15)], ce_hour = [(Every, None)], ce_day = [(Every, None)], ce_month = [(Every, None)],
     ce_weekday = [(Every, None)]\<rparr>"

lemma cron_gaps:
  "\<exists>c. compile_cron ''20/15 * * * *'' = Inr c \<and> cc_minutes c = [20]"
  "compile_cron ''0 7 * * MON'' = Inl (Err (''invalid cron value: '' @ repr_str ''MON''))"
proof -
  have shown: "show_cron odd_step = ''20/15 * * * *''" by code_simp
  have "wf_cron odd_step" by (simp add: odd_step_def wf_cron_def wf_field_def wf_atom_def step_of_def short_str_nat)
  from compile_show_cron [OF this, unfolded shown] show "\<exists>c. compile_cron ''20/15 * * * *'' = Inr c \<and> cc_minutes c = [20]"
    by (simp add: meaning_def odd_step_def atom_list_def step_of_def)
  show "compile_cron ''0 7 * * MON'' = Inl (Err (''invalid cron value: '' @ repr_str ''MON''))" by code_simp
qed

end
