(* ===== verification/ScheduleDigest.thy ===== *)
theory ScheduleDigest
  imports Diagnostics CronSchedule
begin

text \<open>
  The daily digest of scheduled workflows: how \<^verbatim>\<open>src/tools/scheduled_task_digest_core.py\<close> finds the schedules in
  a workflow file and classifies a run from its jobs, how \<^verbatim>\<open>scan_repository\<close> of
  \<^verbatim>\<open>src/tools/scheduled_task_digest_scan.py\<close> decides the status of a workflow from its schedules and runs,
  and how \<^verbatim>\<open>collect_digest\<close> sums the statuses up. Requests to GitHub, mail and files are not modelled:
  the text of the workflow, its state, its runs and their jobs are arguments.
\<close>

section \<open>Schedules in a workflow file\<close>

text \<open>\<^verbatim>\<open>text.splitlines()\<close>: the boundaries are those of \<^verbatim>\<open>str\<close> below code point 256.\<close>

definition is_line_end :: "char \<Rightarrow> bool" where
  "is_line_end c \<longleftrightarrow> code c \<in> {10, 11, 12, 13, 28, 29, 30, 133}"

fun split_lines :: "string \<Rightarrow> string \<Rightarrow> string list" where
  "split_lines line [] = (if line = [] then [] else [rev line])"
| "split_lines line (c # cs) =
     (if code c = 13 \<and> cs \<noteq> [] \<and> code (hd cs) = 10 then rev line # split_lines [] (tl cs)
      else if is_line_end c then rev line # split_lines [] cs
      else split_lines (c # line) cs)"

definition splitlines :: "string \<Rightarrow> string list" where
  "splitlines = split_lines []"

text \<open>\<^verbatim>\<open>^\s*-?\s*cron\s*:\s*(?P<value>.+?)\s*$\<close>: the value without the space around it.\<close>

definition cron_value :: "string \<Rightarrow> string option" where
  "cron_value line =
     (let item = lstrip is_space line;
          key = lstrip is_space (if is_prefix ''-'' item then tl item else item);
          colon = lstrip is_space (drop 4 key) in
      if is_prefix ''cron'' key \<and> is_prefix '':'' colon \<and> tl colon \<noteq> [] then Some (strip is_space (tl colon)) else None)"

text \<open>\<^verbatim>\<open>re.sub(r"\s+#.*$", "", value)\<close>.\<close>

fun cut_comment :: "string \<Rightarrow> string" where
  "cut_comment [] = []"
| "cut_comment (c # cs) = (if is_space c \<and> is_prefix ''#'' (lstrip is_space cs) then [] else c # cut_comment cs)"

definition unquote :: "string \<Rightarrow> string" where
  "unquote s = (if 2 \<le> length s \<and> hd s = last s \<and> code (hd s) \<in> {34, 39} then butlast (tl s) else s)"

definition extract_crons :: "string \<Rightarrow> string list" where
  "extract_crons workflow_text = concat (map (\<lambda>line. case cron_value line of
       None \<Rightarrow> []
     | Some raw \<Rightarrow> (let text = unquote (strip is_space (cut_comment (strip is_space raw))) in
         if text = [] then [] else [text]))
     (splitlines workflow_text))"

section \<open>When the digest is due\<close>

definition parse_local_time :: "string \<Rightarrow> (nat \<times> nat) result" where
  "parse_local_time s = (let invalid = Inl (Err (''invalid local time: '' @ repr_str s)) in
     case partition_at (CHR '':'') (strip is_space s) of (hours, colon, minutes) \<Rightarrow>
       if colon \<and> length hours \<in> {1, 2} \<and> length minutes = 2 \<and> list_all is_digit (hours @ minutes) then
         (if 23 < digits_value hours \<or> 59 < digits_value minutes then invalid
          else Inr (digits_value hours, digits_value minutes))
       else invalid)"

text \<open>Whether the digest is due at the local date, and the day it is for.\<close>

definition schedule_due :: "datetime \<Rightarrow> string \<Rightarrow> bool \<Rightarrow> bool result" where
  "schedule_due local local_time force = bindE (parse_local_time local_time) (\<lambda>(hour, minute).
     Inr (force \<or> dt_hour local = hour \<and> minute \<le> dt_minute local))"

section \<open>Runs\<close>

definition falsy :: "json \<Rightarrow> bool" where
  "falsy v \<longleftrightarrow> (case v of JNull \<Rightarrow> True | JBool b \<Rightarrow> \<not> b | JInt i \<Rightarrow> i = 0 | JFloat r i \<Rightarrow> i = Some 0
     | JStr s \<Rightarrow> s = [] | JArr xs \<Rightarrow> xs = [] | JObj d \<Rightarrow> d = [])"

text \<open>\<^verbatim>\<open>str.lower\<close> below code point 256.\<close>

definition latin_lower :: "string \<Rightarrow> string" where
  "latin_lower = map (\<lambda>c. if is_upper c \<or> (192 \<le> code c \<and> code c \<le> 222 \<and> code c \<noteq> 215) then char_of (code c + 32) else c)"

text \<open>\<^verbatim>\<open>str(d.get(key) or "").lower()\<close>.\<close>

definition lower_field :: "pydict \<Rightarrow> string \<Rightarrow> string" where
  "lower_field d key = (let v = dict_get d key in latin_lower (if falsy v then [] else py_str v))"

definition FAILURES :: "string list" where
  "FAILURES = [''failure'', ''timed_out'', ''action_required'', ''startup_failure'', ''stale'']"

definition VALIDATION_HINTS :: "string list" where
  "VALIDATION_HINTS = [''validate'', ''validation'', ''lint'', ''actionlint'', ''compile'', ''unit test'', ''tests'', ''schema'', ''matrix'',
     ''render'', ''summary'', ''report'', ''upload'', ''collector'']"

definition WORKLOAD_HINTS :: "string list" where
  "WORKLOAD_HINTS = [''enqueue'', ''deliver'', ''discover'', ''audit'', ''maintain'', ''reconcile'', ''recovery'', ''outreach'', ''contact'',
     ''publish'', ''deploy'', ''build fleet'', ''execute'', ''worker'', ''scan'', ''harden'']"

definition GUARD_HINTS :: "string list" where
  "GUARD_HINTS = [''timezone-guard'', ''timezone guard'', ''schedule guard'']"

definition job_name :: "pydict \<Rightarrow> string" where
  "job_name job = (let v = dict_get job ''name'' in
     join_with '' '' (words (latin_lower (strip is_space (if falsy v then [] else py_str v)))))"

definition has_hint :: "string \<Rightarrow> string list \<Rightarrow> bool" where
  "has_hint name hints \<longleftrightarrow> list_ex (\<lambda>hint. contains hint name) hints"

definition job_results :: "pydict list \<Rightarrow> (string \<times> string) list" where
  "job_results jobs = map (\<lambda>job. (job_name job, lower_field job ''conclusion'')) jobs"

definition classify_jobs :: "(string \<times> string) list \<Rightarrow> string \<times> string" where
  "classify_jobs normalized =
     (let guard_ok = list_ex (\<lambda>(name, outcome). has_hint name GUARD_HINTS \<and> outcome = ''success'') normalized;
          workload = filter (\<lambda>(name, _). has_hint name WORKLOAD_HINTS) normalized in
      if guard_ok \<and> workload \<noteq> [] \<and> list_all (\<lambda>(_, outcome). outcome = ''skipped'') workload
      then (''not_due'', ''timezone guard rejected the alternate UTC invocation'')
      else if list_ex (\<lambda>(_, outcome). outcome = ''success'') workload
      then (''success'', ''a substantive workload job completed successfully'')
      else if workload \<noteq> [] \<and> list_ex (\<lambda>(_, outcome). outcome \<in> {''skipped'', ''cancelled'', []}) workload
      then (''false_green'', ''workflow was green while substantive workload jobs were skipped or absent'')
      else if normalized \<noteq> [] \<and> list_all (\<lambda>(name, _). has_hint name VALIDATION_HINTS) normalized
      then (''unverified_success'', ''only validation/reporting jobs completed; workload execution was not certified'')
      else (''unverified_success'', ''top-level success lacks certified substantive job evidence''))"

definition classify_run :: "pydict \<Rightarrow> pydict list \<Rightarrow> string \<times> string" where
  "classify_run run jobs =
     (let status = lower_field run ''status''; conclusion = lower_field run ''conclusion'' in
      if status \<noteq> [] \<and> status \<noteq> ''completed'' then (''running'', ''run is '' @ status)
      else if conclusion \<in> set FAILURES then (''failure'', ''run concluded '' @ conclusion)
      else if conclusion = ''cancelled'' then (''cancelled'', ''run was cancelled'')
      else if conclusion = ''skipped'' then (''skipped'', ''workflow run was skipped'')
      else if conclusion \<in> {''neutral'', ''action_required''} then (''neutral'', ''run concluded '' @ conclusion)
      else if conclusion \<noteq> ''success'' then (''unknown'', ''run conclusion is '' @ (if conclusion = [] then ''unset'' else conclusion))
      else classify_jobs (job_results jobs))"

section \<open>Workflows\<close>

definition CRITICAL :: "string list" where
  "CRITICAL = [''failure'', ''cancelled'', ''false_green'', ''missed'', ''missing'', ''not_deployed'', ''closed_unmerged'', ''delivery_failed'']"

definition ATTENTION :: "string list" where
  "ATTENTION = [''suspended'', ''disabled'', ''skipped'', ''unverified_success'', ''unobserved'', ''partial'', ''neutral'', ''running'',
     ''unknown'', ''source_merged_unobserved'']"

definition STATUS_ORDER :: "string list" where
  "STATUS_ORDER = [''failure'', ''cancelled'', ''false_green'', ''missed'', ''missing'', ''not_deployed'', ''closed_unmerged'',
     ''delivery_failed'', ''suspended'', ''disabled'', ''partial'', ''skipped'', ''unverified_success'', ''unobserved'', ''running'', ''unknown'',
     ''neutral'', ''source_merged_unobserved'', ''success'', ''not_due'']"

fun position :: "string \<Rightarrow> string list \<Rightarrow> nat option" where
  "position s [] = None"
| "position s (x # xs) = (if s = x then Some 0 else map_option Suc (position s xs))"

definition severity_index :: "string \<Rightarrow> nat" where
  "severity_index s = (case position s STATUS_ORDER of None \<Rightarrow> 999 | Some i \<Rightarrow> i)"

definition worst_status :: "string list \<Rightarrow> string" where
  "worst_status statuses = (let ss = (if statuses = [] then [''unknown''] else statuses) in
     fold (\<lambda>s best. if severity_index s < severity_index best then s else best) (tl ss) (hd ss))"

text \<open>
  The status of a workflow: the occurrences its schedules promise, its state, and its runs in the window with
  their statuses and reasons, newest first.
\<close>

definition workflow_status :: "nat \<Rightarrow> string \<Rightarrow> (string \<times> string) list \<Rightarrow> string \<times> string" where
  "workflow_status expected state runs =
     (let observed = length runs in
      if expected = 0 \<and> observed = 0 then (''not_due'', ''no cron occurrence fell inside the 24-hour window'')
      else if state \<notin> {''active'', []} \<and> 0 < expected then (''disabled'', ''workflow state is '' @ state)
      else if observed = 0 \<and> 0 < expected
      then (''missed'', ''expected '' @ str_nat expected @ '' scheduled invocation(s), observed none'')
      else (let overall = worst_status (map fst runs);
                reason = (if runs \<noteq> [] then snd (hd runs) else ''runtime evidence is unavailable'') in
        if observed < expected \<and> overall \<notin> set CRITICAL
        then (''partial'', ''expected '' @ str_nat expected @ '' invocation(s), observed '' @ str_nat observed)
        else (overall, reason)))"

text \<open>
  Only the ten newest successful runs are asked for their jobs. A schedule that cannot be read promises
  nothing; a file without schedules has no record. The window is the one of the digest, in UTC.
\<close>

definition classify_runs :: "(pydict \<times> pydict list) list \<Rightarrow> (string \<times> string) list" where
  "classify_runs runs = map (\<lambda>(i, run, jobs).
     classify_run run (if lower_field run ''conclusion'' = ''success'' \<and> i < 10 then jobs else [])) (enumerate (0::nat) runs)"

definition scan_workflow ::
    "string \<Rightarrow> string \<Rightarrow> (pydict \<times> pydict list) list \<Rightarrow> datetime \<times> int option \<Rightarrow> datetime \<times> int option
      \<Rightarrow> (string \<times> string) option result option" where
  "scan_workflow workflow_text state runs start stop =
     (let crons = extract_crons workflow_text in
      if crons = [] then Some (Inr None)
      else (case expected_occurrences (\<lambda>_. 0) crons start stop of
          None \<Rightarrow> None
        | Some (Inr expected) \<Rightarrow> Some (Inr (Some (workflow_status expected state (classify_runs runs))))
        | Some (Inl (Err message)) \<Rightarrow> Some (Inr (Some (workflow_status 0 state (classify_runs runs))))
        | Some (Inl e) \<Rightarrow> Some (Inl e)))"

text \<open>How many records are critical, need attention, succeeded and were not due.\<close>

record digest_summary =
  sm_critical :: nat
  sm_attention :: nat
  sm_success :: nat
  sm_not_due :: nat
  sm_total :: nat

definition status_count :: "string list \<Rightarrow> string \<Rightarrow> nat" where
  "status_count statuses s = length (filter ((=) s) statuses)"

definition summarize :: "string list \<Rightarrow> digest_summary" where
  "summarize statuses = \<lparr>sm_critical = sum_list (map (status_count statuses) CRITICAL),
     sm_attention = sum_list (map (status_count statuses) ATTENTION), sm_success = status_count statuses ''success'',
     sm_not_due = status_count statuses ''not_due'', sm_total = length statuses\<rparr>"

section \<open>The worst status\<close>

definition RUN_STATUSES :: "string list" where
  "RUN_STATUSES = [''running'', ''failure'', ''cancelled'', ''skipped'', ''neutral'', ''unknown'', ''not_due'', ''success'', ''false_green'',
     ''unverified_success'']"

lemma classify_jobs_statuses: "fst (classify_jobs normalized) \<in> {''not_due'', ''success'', ''false_green'', ''unverified_success''}"
  by (simp add: classify_jobs_def Let_def)

lemma classify_run_statuses: "fst (classify_run run jobs) \<in> set RUN_STATUSES"
  using classify_jobs_statuses [of "job_results jobs"] by (auto simp: classify_run_def Let_def RUN_STATUSES_def)

lemma classify_runs_statuses: "set (map fst (classify_runs runs)) \<subseteq> set RUN_STATUSES"
  using classify_run_statuses by (auto simp: classify_runs_def)

lemma length_classify_runs [simp]: "length (classify_runs runs) = length runs"
  by (simp add: classify_runs_def)

lemma run_statuses_known: "set RUN_STATUSES \<subseteq> set STATUS_ORDER"
  by (simp add: RUN_STATUSES_def STATUS_ORDER_def)

lemma severity_table: "list_all (\<lambda>s. (severity_index s \<le> 7 \<longleftrightarrow> s \<in> set CRITICAL) \<and> (severity_index s = 18 \<longleftrightarrow> s = ''success'') \<and>
    (severity_index s = 19 \<longleftrightarrow> s = ''not_due'') \<and> severity_index s \<le> 19) STATUS_ORDER"
  by code_simp

lemma severity_known:
  assumes "s \<in> set STATUS_ORDER"
  shows "severity_index s \<le> 7 \<longleftrightarrow> s \<in> set CRITICAL" and "severity_index s = 18 \<longleftrightarrow> s = ''success''"
    and "severity_index s = 19 \<longleftrightarrow> s = ''not_due''" and "severity_index s \<le> 19"
  using severity_table assms unfolding list_all_iff by blast+

lemma worst_fold:
  "fold (\<lambda>s best. if severity_index s < severity_index best then s else best) ss b \<in> insert b (set ss) \<and>
   (\<forall>s \<in> insert b (set ss). severity_index (fold (\<lambda>s best. if severity_index s < severity_index best then s else best) ss b) \<le> severity_index s)"
proof (induction ss arbitrary: b)
  case (Cons s ss)
  show ?case
  proof (cases "severity_index s < severity_index b")
    case True
    with Cons [of s] show ?thesis by (auto intro: order.trans less_imp_le)
  next
    case False
    with Cons [of b] show ?thesis by (auto intro: order.trans)
  qed
qed simp

lemma worst_status_least:
  assumes "ss \<noteq> []"
  shows "worst_status ss \<in> set ss" and "s \<in> set ss \<Longrightarrow> severity_index (worst_status ss) \<le> severity_index s"
proof -
  obtain b ts where ss: "ss = b # ts" using assms by (cases ss) auto
  have worst: "worst_status (b # ts) = fold (\<lambda>s best. if severity_index s < severity_index best then s else best) ts b"
    by (simp add: worst_status_def)
  show "worst_status ss \<in> set ss" using worst_fold [of ts b] unfolding ss worst by simp
  show "s \<in> set ss \<Longrightarrow> severity_index (worst_status ss) \<le> severity_index s" using worst_fold [of ts b] unfolding ss worst by auto
qed

lemma worst_status_critical:
  assumes "ss \<noteq> []" and "set ss \<subseteq> set STATUS_ORDER"
  shows "worst_status ss \<in> set CRITICAL \<longleftrightarrow> (\<exists>s \<in> set ss. s \<in> set CRITICAL)"
proof
  assume "\<exists>s \<in> set ss. s \<in> set CRITICAL"
  then obtain s where s: "s \<in> set ss" "s \<in> set CRITICAL" by blast
  then have "severity_index s \<le> 7" using severity_known(1) [of s] assms(2) by blast
  then have "severity_index (worst_status ss) \<le> 7" using worst_status_least(2) [OF assms(1) s(1)] by simp
  then show "worst_status ss \<in> set CRITICAL" using severity_known(1) worst_status_least(1) [OF assms(1)] assms(2) by blast
qed (use worst_status_least(1) [OF assms(1)] in blast)

lemma worst_status_success:
  assumes "ss \<noteq> []" and "set ss \<subseteq> set STATUS_ORDER"
  shows "worst_status ss = ''success'' \<longleftrightarrow> set ss \<subseteq> {''success'', ''not_due''} \<and> ''success'' \<in> set ss"
proof
  assume worst: "worst_status ss = ''success''"
  have "s \<in> {''success'', ''not_due''}" if "s \<in> set ss" for s
  proof -
    have "18 \<le> severity_index s" using worst_status_least(2) [OF assms(1) that] unfolding worst by (simp add: severity_index_def STATUS_ORDER_def)
    then have "severity_index s = 18 \<or> severity_index s = 19" using severity_known(4) [of s] that assms(2) by force
    then show ?thesis using severity_known(2,3) [of s] that assms(2) by blast
  qed
  then show "set ss \<subseteq> {''success'', ''not_due''} \<and> ''success'' \<in> set ss" using worst_status_least(1) [OF assms(1)] worst by auto
next
  assume all: "set ss \<subseteq> {''success'', ''not_due''} \<and> ''success'' \<in> set ss"
  then have "severity_index (worst_status ss) \<le> severity_index ''success''" using worst_status_least(2) [OF assms(1)] by blast
  moreover have "worst_status ss \<in> {''success'', ''not_due''}" using worst_status_least(1) [OF assms(1)] all by blast
  ultimately show "worst_status ss = ''success''" by (auto simp: severity_index_def STATUS_ORDER_def)
qed

lemma workflow_critical:
  assumes "set (map fst runs) \<subseteq> set STATUS_ORDER"
  shows "fst (workflow_status expected state runs) \<in> set CRITICAL \<longleftrightarrow> (state \<in> {''active'', []} \<or> expected = 0) \<and>
    (runs = [] \<and> 0 < expected \<or> (\<exists>s \<in> set (map fst runs). s \<in> set CRITICAL))"
proof (cases "runs = []")
  case True
  then show ?thesis by (simp add: workflow_status_def CRITICAL_def)
next
  case False
  then have "map fst runs \<noteq> []" by simp
  from worst_status_critical [OF this assms] False show ?thesis
    by (auto simp: workflow_status_def Let_def CRITICAL_def)
qed

lemma workflow_success:
  assumes "set (map fst runs) \<subseteq> set STATUS_ORDER"
  shows "fst (workflow_status expected state runs) = ''success'' \<longleftrightarrow> (state \<in> {''active'', []} \<or> expected = 0) \<and>
    expected \<le> length runs \<and> set (map fst runs) \<subseteq> {''success'', ''not_due''} \<and> ''success'' \<in> set (map fst runs)"
proof (cases "runs = []")
  case True
  then show ?thesis by (simp add: workflow_status_def)
next
  case False
  then have ss: "map fst runs \<noteq> []" by simp
  define overall where "overall = worst_status (map fst runs)"
  have success: "overall = ''success'' \<longleftrightarrow> set (map fst runs) \<subseteq> {''success'', ''not_due''} \<and> ''success'' \<in> set (map fst runs)"
    unfolding overall_def by (rule worst_status_success [OF ss assms])
  have "fst (workflow_status expected state runs) =
      (if state \<notin> {''active'', []} \<and> 0 < expected then ''disabled'' else if length runs < expected \<and> overall \<notin> set CRITICAL then ''partial'' else overall)"
    using False by (simp add: workflow_status_def Let_def overall_def)
  moreover have "''success'' \<notin> set CRITICAL" by (simp add: CRITICAL_def)
  ultimately show ?thesis unfolding success [symmetric] by auto
qed

text \<open>A run counts as a success exactly when one of its workload jobs succeeded in a green, completed run.\<close>

lemma classify_success:
  "fst (classify_run run jobs) = ''success'' \<longleftrightarrow> lower_field run ''status'' \<in> {[], ''completed''} \<and> lower_field run ''conclusion'' = ''success'' \<and>
    (\<exists>job \<in> set jobs. has_hint (job_name job) WORKLOAD_HINTS \<and> lower_field job ''conclusion'' = ''success'')"
proof -
  define work where "work = filter (\<lambda>(name, _). has_hint name WORKLOAD_HINTS) (job_results jobs)"
  define hit where "hit = list_ex (\<lambda>(_, outcome). outcome = ''success'') work"
  have "hit \<Longrightarrow> \<not> list_all (\<lambda>(_, outcome). outcome = ''skipped'') work"
    unfolding hit_def list_ex_iff list_all_iff by fastforce
  then have "fst (classify_jobs (job_results jobs)) = ''success'' \<longleftrightarrow> hit"
    unfolding classify_jobs_def Let_def work_def [symmetric] hit_def [symmetric] by simp
  moreover have "hit \<longleftrightarrow> (\<exists>job \<in> set jobs. has_hint (job_name job) WORKLOAD_HINTS \<and> lower_field job ''conclusion'' = ''success'')"
    by (auto simp: hit_def work_def job_results_def list_ex_iff)
  ultimately have "fst (classify_jobs (job_results jobs)) = ''success'' \<longleftrightarrow>
      (\<exists>job \<in> set jobs. has_hint (job_name job) WORKLOAD_HINTS \<and> lower_field job ''conclusion'' = ''success'')" by blast
  then show ?thesis by (auto simp: classify_run_def Let_def FAILURES_def)
qed

section \<open>The summary\<close>

lemma status_count_one: "status_count statuses s = count_list statuses s"
  by (induction statuses) (auto simp: status_count_def)

lemma summarize_Cons:
  "summarize (s # ss) = \<lparr>sm_critical = sm_critical (summarize ss) + count_list CRITICAL s,
    sm_attention = sm_attention (summarize ss) + count_list ATTENTION s,
    sm_success = sm_success (summarize ss) + count_list [''success''] s, sm_not_due = sm_not_due (summarize ss) + count_list [''not_due''] s,
    sm_total = Suc (sm_total (summarize ss))\<rparr>"
proof -
  have "sum_list (map (status_count (s # ss)) names) = sum_list (map (status_count ss) names) + count_list names s" for names
    by (induction names) (auto simp: status_count_def)
  then show ?thesis by (simp add: summarize_def status_count_def)
qed

lemma status_classes: "list_all (\<lambda>s. count_list CRITICAL s + count_list ATTENTION s + count_list [''success''] s + count_list [''not_due''] s = 1)
    STATUS_ORDER"
  by code_simp

lemma summary_complete:
  assumes "set statuses \<subseteq> set STATUS_ORDER"
  shows "sm_critical (summarize statuses) + sm_attention (summarize statuses) + sm_success (summarize statuses) + sm_not_due (summarize statuses)
    = sm_total (summarize statuses)"
  using assms
proof (induction statuses)
  case Nil
  then show ?case by (simp add: summarize_def status_count_def CRITICAL_def ATTENTION_def)
next
  case (Cons s ss)
  then have "count_list CRITICAL s + count_list ATTENTION s + count_list [''success''] s + count_list [''not_due''] s = 1"
    using status_classes unfolding list_all_iff by (meson list.set_intros(1) subsetD)
  with Cons show ?case unfolding summarize_Cons digest_summary.select_convs by simp
qed

lemma workflow_status_known:
  assumes "set (map fst runs) \<subseteq> set STATUS_ORDER"
  shows "fst (workflow_status expected state runs) \<in> set STATUS_ORDER"
proof -
  have "worst_status (map fst runs) \<in> set STATUS_ORDER"
  proof (cases "runs = []")
    case True
    then show ?thesis by (simp add: worst_status_def STATUS_ORDER_def)
  next
    case False
    then show ?thesis using worst_status_least(1) [of "map fst runs"] assms by auto
  qed
  moreover have "''not_due'' \<in> set STATUS_ORDER" "''disabled'' \<in> set STATUS_ORDER" "''missed'' \<in> set STATUS_ORDER" "''partial'' \<in> set STATUS_ORDER"
    by (simp_all add: STATUS_ORDER_def)
  ultimately show ?thesis by (simp add: workflow_status_def Let_def)
qed


section \<open>Schedules are read back from a workflow file\<close>

definition schedule_line :: "cron_expr \<Rightarrow> string" where
  "schedule_line e = ''    - cron: '' @ [CHR 0x22] @ show_cron e @ [CHR 0x22]"

definition schedule_block :: "cron_expr list \<Rightarrow> string" where
  "schedule_block es = concat (map (\<lambda>e. schedule_line e @ [CHR 0x0A]) es)"

lemma split_lines_line: "list_all (\<lambda>c. \<not> is_line_end c) line \<Longrightarrow>
    split_lines acc (line @ CHR 0x0A # rest) = (rev acc @ line) # split_lines [] rest"
proof (induction line arbitrary: acc)
  case Nil
  then show ?case by (simp add: is_line_end_def code_def)
next
  case (Cons c line)
  then have "\<not> is_line_end c" by simp
  moreover from this have "code c \<noteq> 13" by (auto simp: is_line_end_def)
  ultimately show ?case using Cons by simp
qed

lemma splitlines_block: "\<forall>x \<in> set lines. list_all (\<lambda>c. \<not> is_line_end c) x \<Longrightarrow>
    splitlines (concat (map (\<lambda>x. x @ [CHR 0x0A]) lines)) = lines"
  unfolding splitlines_def by (induction lines) (simp_all add: split_lines_line)

lemma line_end_space: "is_line_end c \<Longrightarrow> is_space c"
  by (auto simp: is_line_end_def is_space_def)

lemma show_cron_chars: "c \<in> set (show_cron e) \<Longrightarrow> c = CHR '' '' \<or> c = CHR '','' \<or> atom_char c"
  unfolding show_cron_def by (drule join_with_chars) (auto dest: show_field_chars)

lemma plain_chars: "\<not> is_line_end (CHR '' '')" "\<not> is_line_end (CHR '','')" "\<not> is_line_end (CHR 0x22)" "\<not> is_line_end (CHR ''-'')"
  "\<not> is_line_end (CHR ''c'')" "\<not> is_line_end (CHR ''r'')" "\<not> is_line_end (CHR ''o'')" "\<not> is_line_end (CHR ''n'')" "\<not> is_line_end (CHR '':'')"
  "\<not> is_space (CHR 0x22)" "is_space (CHR '' '')" "\<not> is_space (CHR ''-'')" "\<not> is_space (CHR ''c'')" "\<not> is_space (CHR '':'')" "\<not> atom_char (CHR ''#'')"
  "code (CHR 0x22) = 34"
  by code_simp+

lemma schedule_line_ends: "list_all (\<lambda>c. \<not> is_line_end c) (schedule_line e)"
  using show_cron_chars plain_chars line_end_space atom_char_plain by (auto simp: schedule_line_def list_all_iff)

lemma cut_comment_none: "CHR ''#'' \<notin> set s \<Longrightarrow> cut_comment s = s"
proof (induction s)
  case (Cons c s)
  have "CHR ''#'' \<notin> set (lstrip is_space s)" using Cons.prems set_dropWhileD unfolding lstrip_def by fastforce
  then have "\<not> is_prefix ''#'' (lstrip is_space s)" by (cases "lstrip is_space s") auto
  with Cons show ?case by simp
qed simp

lemma extract_block:
  assumes "\<forall>e \<in> set es. wf_cron e"
  shows "extract_crons (schedule_block es) = map show_cron es"
proof -
  have line: "(case cron_value (schedule_line e) of None \<Rightarrow> [] | Some raw \<Rightarrow>
      (let text = unquote (strip is_space (cut_comment (strip is_space raw))) in if text = [] then [] else [text])) = [show_cron e]" for e
  proof -
    define quoted where "quoted = [CHR 0x22] @ show_cron e @ [CHR 0x22]"
    have "cron_value (schedule_line e) = Some (strip is_space (CHR '' '' # quoted))"
      by (simp add: cron_value_def schedule_line_def quoted_def lstrip_def plain_chars Let_def)
    moreover have "strip is_space (CHR '' '' # quoted) = quoted" "strip is_space quoted = quoted"
      by (simp_all add: strip_def quoted_def plain_chars)
    moreover have "cut_comment quoted = quoted"
      using show_cron_chars plain_chars by (intro cut_comment_none) (auto simp: quoted_def)
    moreover have "unquote quoted = show_cron e" by (simp add: unquote_def quoted_def plain_chars butlast_append)
    moreover have "show_cron e \<noteq> []" by (simp add: show_cron_def)
    ultimately show ?thesis by simp
  qed
  have "schedule_block es = concat (map (\<lambda>x. x @ [CHR 0x0A]) (map schedule_line es))" by (simp add: schedule_block_def comp_def)
  then have "splitlines (schedule_block es) = map schedule_line es"
    using splitlines_block [of "map schedule_line es"] schedule_line_ends by auto
  then show ?thesis unfolding extract_crons_def by (simp only: map_map comp_def line concat_map_singleton)
qed

section \<open>Properties\<close>

lemma classify_run_jobs: "classify_run run (if lower_field run ''conclusion'' = ''success'' then jobs else []) = classify_run run jobs"
  by (simp add: classify_run_def Let_def)

lemma classify_without_jobs: "fst (classify_run run []) \<notin> {''success'', ''not_due''}"
  by (simp add: classify_run_def classify_jobs_def job_results_def Let_def)

lemma pairs_image:
  "set (map (\<lambda>(x, y). g x y) ps) \<subseteq> S \<longleftrightarrow> (\<forall>(x, y) \<in> set ps. g x y \<in> S)"
  "v \<in> set (map (\<lambda>(x, y). g x y) ps) \<longleftrightarrow> (\<exists>(x, y) \<in> set ps. g x y = v)"
  by (induction ps) auto

lemma classify_runs_few:
  assumes "length runs \<le> 10"
  shows "map fst (classify_runs runs) = map (\<lambda>(run, jobs). fst (classify_run run jobs)) runs"
proof (rule nth_equalityI)
  fix i assume "i < length (map fst (classify_runs runs))"
  then have i: "i < length runs" "i < 10" using assms by simp_all
  obtain run jobs where pair: "runs ! i = (run, jobs)" by (cases "runs ! i")
  show "map fst (classify_runs runs) ! i = map (\<lambda>(run, jobs). fst (classify_run run jobs)) runs ! i"
    using i pair classify_run_jobs [of run jobs] by (simp add: classify_runs_def nth_enumerate_eq)
qed simp

lemma classify_runs_many:
  assumes "10 < length runs"
  shows "\<not> set (map fst (classify_runs runs)) \<subseteq> {''success'', ''not_due''}"
proof -
  obtain run jobs where pair: "runs ! 10 = (run, jobs)" by (cases "runs ! 10")
  have "classify_runs runs ! 10 = classify_run run []" using assms pair by (simp add: classify_runs_def nth_enumerate_eq)
  then have "fst (classify_run run []) \<in> set (map fst (classify_runs runs))" using assms by (metis length_classify_runs length_map nth_map nth_mem)
  then show ?thesis using classify_without_jobs by blast
qed

text \<open>The statuses a workflow has besides the worst of its runs.\<close>

lemma worst_status_not_due:
  assumes "ss \<noteq> []" and "set ss \<subseteq> set STATUS_ORDER"
  shows "worst_status ss = ''not_due'' \<longleftrightarrow> set ss \<subseteq> {''not_due''}"
proof
  assume worst: "worst_status ss = ''not_due''"
  show "set ss \<subseteq> {''not_due''}"
  proof
    fix s assume s: "s \<in> set ss"
    then have "19 \<le> severity_index s" using worst_status_least(2) [OF assms(1) s] unfolding worst by (simp add: severity_index_def STATUS_ORDER_def)
    then show "s \<in> {''not_due''}" using severity_known(3,4) [of s] s assms(2) by force
  qed
qed (use worst_status_least(1) [OF assms(1)] in blast)

lemma workflow_status_cases:
  fixes expected :: nat and state :: string
  assumes "set (map fst runs) \<subseteq> set RUN_STATUSES"
  defines "answers \<equiv> state \<in> {''active'', []} \<or> expected = 0"
    and "critical \<equiv> \<exists>s \<in> set (map fst runs). s \<in> set CRITICAL"
  shows "fst (workflow_status expected state runs) = ''disabled'' \<longleftrightarrow> \<not> answers" (is ?disabled)
    and "fst (workflow_status expected state runs) = ''missed'' \<longleftrightarrow> answers \<and> runs = [] \<and> 0 < expected" (is ?missed)
    and "fst (workflow_status expected state runs) = ''partial'' \<longleftrightarrow>
      answers \<and> runs \<noteq> [] \<and> length runs < expected \<and> \<not> critical" (is ?partial)
    and "fst (workflow_status expected state runs) = ''not_due'' \<longleftrightarrow>
      answers \<and> expected \<le> length runs \<and> set (map fst runs) \<subseteq> {''not_due''}" (is ?not_due)
proof -
  have "?disabled \<and> ?missed \<and> ?partial \<and> ?not_due"
  proof (cases "runs = []")
    case True
    then show ?thesis unfolding workflow_status_def answers_def critical_def by simp
  next
    case False
    then have ss: "map fst runs \<noteq> []" by simp
    define overall where "overall = worst_status (map fst runs)"
    have known: "set (map fst runs) \<subseteq> set STATUS_ORDER" using assms(1) run_statuses_known by blast
    have "overall \<in> set RUN_STATUSES" using worst_status_least(1) [OF ss] assms(1) unfolding overall_def by blast
    then have "overall \<noteq> ''disabled''" "overall \<noteq> ''missed''" "overall \<noteq> ''partial''" by (auto simp: RUN_STATUSES_def)
    moreover have "overall \<in> set CRITICAL \<longleftrightarrow> critical"
      unfolding overall_def critical_def by (rule worst_status_critical [OF ss known])
    moreover have "overall = ''not_due'' \<longleftrightarrow> set (map fst runs) \<subseteq> {''not_due''}"
      unfolding overall_def by (rule worst_status_not_due [OF ss known])
    moreover have "''not_due'' \<notin> set CRITICAL" by (simp add: CRITICAL_def)
    moreover have "fst (workflow_status expected state runs) = (if \<not> answers then ''disabled''
        else if length runs < expected \<and> overall \<notin> set CRITICAL then ''partial'' else overall)"
      using False by (simp add: workflow_status_def answers_def Let_def overall_def)
    ultimately show ?thesis using False by (auto simp: not_less)
  qed
  then show ?disabled ?missed ?partial ?not_due by blast+
qed

text \<open>
  C35. When a workflow is reported as what. It is \<^verbatim>\<open>disabled\<close> exactly when runs were expected of it and it is not
  active. Otherwise it is a success exactly when it ran at least as often as its schedules promise and at most ten times,
  every run either succeeded or was turned away by its time-zone guard, and in at least one completed, green run a
  workload job succeeded; \<^verbatim>\<open>not_due\<close> exactly when it ran that often, at most ten times, and every run was turned away (or
  nothing was expected and nothing ran); \<^verbatim>\<open>missed\<close> exactly when a run was expected and there was none; \<^verbatim>\<open>partial\<close> exactly
  when it ran, less often than promised, without a critical run; and critical exactly when it was missed or had a critical run.
\<close>

theorem digest_status_exact:
  "(fst (workflow_status expected state (classify_runs runs)) = ''success'' \<longleftrightarrow>
      (state \<in> {''active'', []} \<or> expected = 0) \<and> expected \<le> length runs \<and> length runs \<le> 10 \<and>
      (\<forall>(run, jobs) \<in> set runs. fst (classify_run run jobs) \<in> {''success'', ''not_due''}) \<and>
      (\<exists>(run, jobs) \<in> set runs. lower_field run ''status'' \<in> {[], ''completed''} \<and> lower_field run ''conclusion'' = ''success'' \<and>
         (\<exists>job \<in> set jobs. has_hint (job_name job) WORKLOAD_HINTS \<and> lower_field job ''conclusion'' = ''success''))) \<and>
   (fst (workflow_status expected state (classify_runs runs)) \<in> set CRITICAL \<longleftrightarrow>
      (state \<in> {''active'', []} \<or> expected = 0) \<and>
      (runs = [] \<and> 0 < expected \<or> (\<exists>s \<in> set (map fst (classify_runs runs)). s \<in> set CRITICAL))) \<and>
   (fst (workflow_status expected state (classify_runs runs)) = ''disabled'' \<longleftrightarrow>
      state \<notin> {''active'', []} \<and> 0 < expected) \<and>
   (fst (workflow_status expected state (classify_runs runs)) = ''missed'' \<longleftrightarrow>
      state \<in> {''active'', []} \<and> runs = [] \<and> 0 < expected) \<and>
   (fst (workflow_status expected state (classify_runs runs)) = ''partial'' \<longleftrightarrow>
      state \<in> {''active'', []} \<and> runs \<noteq> [] \<and> length runs < expected \<and>
      \<not> (\<exists>s \<in> set (map fst (classify_runs runs)). s \<in> set CRITICAL)) \<and>
   (fst (workflow_status expected state (classify_runs runs)) = ''not_due'' \<longleftrightarrow>
      (state \<in> {''active'', []} \<or> expected = 0) \<and> expected \<le> length runs \<and> length runs \<le> 10 \<and>
      (\<forall>(run, jobs) \<in> set runs. fst (classify_run run jobs) = ''not_due''))"
proof -
  have known: "set (map fst (classify_runs runs)) \<subseteq> set STATUS_ORDER" using classify_runs_statuses run_statuses_known by blast
  have none: "classify_runs runs = [] \<longleftrightarrow> runs = []" by (metis length_0_conv length_classify_runs)
  have success: "fst (workflow_status expected state (classify_runs runs)) = ''success'' \<longleftrightarrow>
      (state \<in> {''active'', []} \<or> expected = 0) \<and> expected \<le> length runs \<and> length runs \<le> 10 \<and>
      (\<forall>(run, jobs) \<in> set runs. fst (classify_run run jobs) \<in> {''success'', ''not_due''}) \<and>
      (\<exists>(run, jobs) \<in> set runs. fst (classify_run run jobs) = ''success'')"
  proof (cases "length runs \<le> 10")
    case True
    show ?thesis
      unfolding workflow_success [OF known] unfolding classify_runs_few [OF True] length_classify_runs pairs_image using True by simp
  next
    case False
    then show ?thesis using workflow_success [OF known] classify_runs_many [of runs] by auto
  qed
  note cases = workflow_status_cases [OF classify_runs_statuses]
  have turned: "set (map fst (classify_runs runs)) \<subseteq> {''not_due''} \<longleftrightarrow>
      length runs \<le> 10 \<and> (\<forall>(run, jobs) \<in> set runs. fst (classify_run run jobs) = ''not_due'')"
  proof (cases "length runs \<le> 10")
    case True
    show ?thesis unfolding classify_runs_few [OF True] pairs_image using True by auto
  next
    case False
    then show ?thesis using classify_runs_many [of runs] by auto
  qed
  show ?thesis
    unfolding success classify_success workflow_critical [OF known] cases turned none length_classify_runs
    by (intro conjI) (rule refl, rule refl, (cases "expected = 0"; simp)+)
qed

text \<open>A further schedule only adds minutes to those that are due.\<close>

lemma more_schedules:
  assumes "valid_datetime start" and "valid_datetime stop" and "3 * usec_per_day \<le> instant start"
    and "instant stop \<le> max_instant - usec_per_day" and "instant start < instant stop"
    and "e \<in> set es" and "\<forall>e \<in> set es. \<exists>c. compile_cron e = Inr c"
    and "expected_occurrences (\<lambda>_. 0) [e] (start, Some 0) (stop, Some 0) = Some (Inr k)"
  obtains k' where "expected_occurrences (\<lambda>_. 0) es (start, Some 0) (stop, Some 0) = Some (Inr k')" and "k \<le> k'"
proof -
  have zero: "\<bar>0::int\<bar> < usec_per_day" "\<forall>t::int. \<bar>0\<bar> < usec_per_day" by (simp_all add: usec_per_day_def)
  have "\<exists>cs. mapE compile_cron es = Inr cs" using assms(7) by (induction es) auto
  then obtain cs where cs: "mapE compile_cron es = Inr cs" ..
  from cs assms(6) have "\<exists>c \<in> set cs. compile_cron e = Inr c" by (induction es arbitrary: cs) auto
  then obtain c where c: "c \<in> set cs" "compile_cron e = Inr c" by blast
  from c(2) have one: "mapE compile_cron [e] = Inr [c]" by simp
  define lo where "lo = instant start div usec_per_minute * usec_per_minute"
  have count: "expected_occurrences (\<lambda>_. 0) xs (start, Some 0) (stop, Some 0) = Some (Inr (card (due_minutes (\<lambda>_. 0) ys lo (instant stop))))"
    if "mapE compile_cron xs = Inr ys" for xs ys
    using occurrences_count [OF assms(1,2) zero(1) zero(1) zero(2) _ _ _ that] assms(3-5) by (simp add: lo_def)
  have "finite (due_minutes (\<lambda>_. 0) cs lo (instant stop))" by (rule finite_due_minutes)
  moreover have "due_minutes (\<lambda>_. 0) [c] lo (instant stop) \<subseteq> due_minutes (\<lambda>_. 0) cs lo (instant stop)"
    using c(1) by (auto simp: due_minutes_def due_at_def list_ex_iff)
  ultimately have "card (due_minutes (\<lambda>_. 0) [c] lo (instant stop)) \<le> card (due_minutes (\<lambda>_. 0) cs lo (instant stop))"
    by (rule card_mono)
  then show thesis using that [OF count [OF cs]] count [OF one] assms(8) by simp
qed

text \<open>
  C36. A missed daily run is reported: if an active workflow file, whatever else it holds, has a daily schedule and
  every schedule found in it can be read, and the window covers whole days, then the workflow is \<^verbatim>\<open>missed\<close> when it did
  not run at all, and neither a success nor \<^verbatim>\<open>not_due\<close> when it ran less often than there are days.
\<close>

theorem missed_daily_reported:
  assumes "m < 60" and "h < 24" and "show_cron (daily m h) \<in> set (extract_crons text)"
    and "\<forall>e \<in> set (extract_crons text). \<exists>c. compile_cron e = Inr c"
    and "state \<in> {''active'', []}" and "0 < n"
    and "valid_datetime start" and "valid_datetime stop" and "3 * usec_per_day \<le> instant start" and "instant stop \<le> max_instant - usec_per_day"
    and "instant stop = instant start + int n * usec_per_day"
  shows "(\<exists>reason. scan_workflow text state [] (start, Some 0) (stop, Some 0) = Some (Inr (Some (''missed'', reason)))) \<and>
    (length runs < n \<longrightarrow> (\<exists>status reason. scan_workflow text state runs (start, Some 0) (stop, Some 0) =
       Some (Inr (Some (status, reason))) \<and> status \<notin> {''success'', ''not_due''}))"
proof -
  have zero: "\<bar>0::int\<bar> < usec_per_day" by (simp add: usec_per_day_def)
  have later: "instant start < instant stop" using assms(6,11) by (simp add: usec_per_day_def)
  obtain k where k: "expected_occurrences (\<lambda>_. 0) [show_cron (daily m h)] (start, Some 0) (stop, Some 0) = Some (Inr k)" "n \<le> k"
    using daily_expected [OF assms(7,8) zero zero, of m h n] assms(1,2,6,9-11) by fastforce
  obtain expected where expected: "expected_occurrences (\<lambda>_. 0) (extract_crons text) (start, Some 0) (stop, Some 0) = Some (Inr expected)"
    and le: "n \<le> expected"
    using more_schedules [OF assms(7-10) later assms(3,4) k(1)] k(2) by (metis order.trans)
  have some: "extract_crons text \<noteq> []" using assms(3) by auto
  have scan: "scan_workflow text state rs (start, Some 0) (stop, Some 0) =
      Some (Inr (Some (workflow_status expected state (classify_runs rs))))" for rs
    by (simp add: scan_workflow_def some expected)
  have "fst (workflow_status expected state (classify_runs [])) = ''missed''"
    unfolding workflow_status_cases(2) [OF classify_runs_statuses] using assms(5,6) le by (simp add: classify_runs_def)
  moreover have "fst (workflow_status expected state (classify_runs runs)) \<notin> {''success'', ''not_due''}" if "length runs < n"
    using that le workflow_status_cases(4) [OF classify_runs_statuses, of expected state runs]
      workflow_success [OF order.trans [OF classify_runs_statuses run_statuses_known], of expected state runs] by auto
  ultimately show ?thesis unfolding scan by (metis prod.collapse)
qed

text \<open>A workflow file with a second schedule and other lines.\<close>

definition sample_workflow :: string where
  "sample_workflow = ''name: nightly'' @ [CHR 0x0A] @ ''on:'' @ [CHR 0x0A] @ ''  schedule:'' @ [CHR 0x0A] @ schedule_line (daily 30 7) @ [CHR 0x0A]
     @ ''    - cron: */20 * * * * # often'' @ [CHR 0x0A] @ ''jobs:'' @ [CHR 0x0A]"

lemma missed_daily_reported_witness:
  "\<exists>reason. scan_workflow sample_workflow ''active'' [] (sample_start, Some 0) (sample_stop, Some 0) =
     Some (Inr (Some (''missed'', reason)))"
proof -
  have found: "extract_crons sample_workflow = [show_cron (daily 30 7), ''*/20 * * * *'']" by code_simp
  have "\<exists>c. compile_cron ''*/20 * * * *'' = Inr c"
  proof -
    have "(case compile_cron ''*/20 * * * *'' of Inl e \<Rightarrow> False | Inr c \<Rightarrow> True)" by code_simp
    then show ?thesis by (auto split: sum.splits)
  qed
  moreover have "\<exists>c. compile_cron (show_cron (daily 30 7)) = Inr c"
    using compile_show_cron [OF wf_daily, of 30 7] by simp
  ultimately have readable: "\<forall>e \<in> set (extract_crons sample_workflow). \<exists>c. compile_cron e = Inr c" by (simp add: found)
  have "show_cron (daily 30 7) \<in> set (extract_crons sample_workflow)" by (simp add: found)
  from missed_daily_reported [OF _ _ this readable, of "''active''" 2 sample_start sample_stop "[]"] sample_window_dates
  show ?thesis by simp
qed

text \<open>
  Nothing falls out of the summary: for the statuses of scanned workflows, the critical ones, those that
  need attention, the successes and those not due add up to the number of records.
\<close>

lemma digest_summary_complete:
  assumes "\<forall>s \<in> set statuses. \<exists>expected state runs. s = fst (workflow_status expected state (classify_runs runs))"
  shows "sm_critical (summarize statuses) + sm_attention (summarize statuses) + sm_success (summarize statuses) + sm_not_due (summarize statuses)
    = sm_total (summarize statuses)"
proof (rule summary_complete, rule subsetI)
  fix s assume "s \<in> set statuses"
  with assms obtain expected state runs where "s = fst (workflow_status expected state (classify_runs runs))" by blast
  then show "s \<in> set STATUS_ORDER"
    using workflow_status_known [OF order.trans [OF classify_runs_statuses run_statuses_known]] by simp
qed

lemma digest_summary_complete_witness:
  "sm_critical (summarize [''missed'', ''not_due'']) + sm_attention (summarize [''missed'', ''not_due'']) + sm_success (summarize [''missed'', ''not_due''])
     + sm_not_due (summarize [''missed'', ''not_due'']) = 2"
proof -
  have "fst (workflow_status 1 ''active'' (classify_runs [])) = ''missed''" "fst (workflow_status 0 ''active'' (classify_runs [])) = ''not_due''"
    by (simp_all add: workflow_status_def classify_runs_def)
  then have "\<forall>s \<in> set [''missed'', ''not_due'']. \<exists>expected state runs. s = fst (workflow_status expected state (classify_runs runs))" by (metis empty_iff empty_set set_ConsD)
  from digest_summary_complete [OF this] show ?thesis by (simp add: summarize_def)
qed

text \<open>A schedule that cannot be read hides every missed run of its workflow.\<close>

definition weekday_names :: string where
  "weekday_names = ''    - cron: '' @ [CHR 0x22] @ ''0 7 * * MON-FRI'' @ [CHR 0x22, CHR 0x0A]"

lemma unreadable_schedule_not_due:
  "\<exists>reason. scan_workflow weekday_names ''active'' [] (sample_start, Some 0) (sample_stop, Some 0) = Some (Inr (Some (''not_due'', reason)))"
proof -
  have found: "extract_crons weekday_names = [''0 7 * * MON-FRI'']" by code_simp
  have bad: "\<exists>message. compile_cron ''0 7 * * MON-FRI'' = Inl (Err message)"
  proof -
    have "(case compile_cron ''0 7 * * MON-FRI'' of Inl (Err message) \<Rightarrow> True | _ \<Rightarrow> False)" by code_simp
    then show ?thesis by (auto split: sum.splits py_exc.splits)
  qed
  have "instant sample_start < instant sample_stop" unfolding sample_window_dates(5) by (simp add: usec_per_day_def)
  then show ?thesis using bad by (auto simp: scan_workflow_def found expected_occurrences_def workflow_status_def classify_runs_def)
qed

text \<open>One green run whose delivery job succeeded.\<close>

definition sample_green :: "pydict \<times> pydict list" where
  "sample_green = ([(''status'', JStr ''completed''), (''conclusion'', JStr ''success'')],
     [[(''name'', JStr ''Deliver digest''), (''conclusion'', JStr ''success'')]])"

lemma digest_status_exact_witness:
  "fst (workflow_status 1 ''active'' (classify_runs [sample_green])) = ''success'' \<and>
   fst (workflow_status 1 ''active'' (classify_runs [sample_green])) \<notin> set CRITICAL"
proof -
  have green: "fst (classify_run (fst sample_green) (snd sample_green)) = ''success''"
    "lower_field (fst sample_green) ''status'' = ''completed''" "lower_field (fst sample_green) ''conclusion'' = ''success''"
    "has_hint (job_name (hd (snd sample_green))) WORKLOAD_HINTS" "lower_field (hd (snd sample_green)) ''conclusion'' = ''success''"
    "snd sample_green = [hd (snd sample_green)]"
    by code_simp+
  obtain run job where pair: "sample_green = (run, [job])" using green(6) by (metis prod.collapse)
  have "fst (workflow_status 1 ''active'' (classify_runs [sample_green])) = ''success''"
    using digest_status_exact [of 1 "''active''" "[sample_green]"] green unfolding pair by simp
  then show ?thesis by (simp add: CRITICAL_def)
qed

end
