(* ===== verification/OvernightWatchdog.thy ===== *)
theory OvernightWatchdog
  imports ScheduleDigest RecoveryCommon
begin

text \<open>
  The watchdog of the overnight jobs, \<^verbatim>\<open>src/tools/overnight_job_watchdog.py\<close>: the catalog of the jobs, the
  night a run belongs to, the appraisal of one attempt and the report that certifies the night.

  The database of \<^verbatim>\<open>zoneinfo\<close> is an argument that answers a key with a zone, with
  \<^verbatim>\<open>ZoneInfoNotFoundError\<close>, or with the \<^verbatim>\<open>ValueError\<close> of a malformed key. Two dates of one zone are compared
  and subtracted by their fields, whatever their offsets are, and adding minutes to one moves its fields:
  a local date is therefore its fields alone. The client is what its three listings return; the one that
  reads a snapshot is defined here. The report keeps its dates as dates, not as their text.
\<close>

section \<open>Helpers\<close>

datatype zone_answer = Zone "int \<Rightarrow> int" | ZoneNotFound | ZoneKeyInvalid

definition find_zone :: "(string \<Rightarrow> zone_answer) \<Rightarrow> string \<Rightarrow> (int \<Rightarrow> int) result" where
  "find_zone zones name = (case zones name of
      Zone zone \<Rightarrow> Inr zone
    | ZoneNotFound \<Rightarrow> Inl (Err (''unknown timezone: '' @ name))
    | ZoneKeyInvalid \<Rightarrow> Inl ValueError)"

definition expect_objects :: "json \<Rightarrow> string \<Rightarrow> pydict list result" where
  "expect_objects v field = (case v of
      JArr xs \<Rightarrow> mapE (\<lambda>x. case x of JObj d \<Rightarrow> Inr d | _ \<Rightarrow> Inl (Err (field @ '' must be an array of objects''))) xs
    | _ \<Rightarrow> Inl (Err (field @ '' must be an array of objects'')))"

definition expect_text :: "json \<Rightarrow> string \<Rightarrow> nat \<Rightarrow> string result" where
  "expect_text v field maximum = (case v of
      JStr s \<Rightarrow>
        bindE (require (strip is_space s \<noteq> [] \<and> length s \<le> maximum) (field @ '' must be non-empty bounded text'')) (\<lambda>_.
        bindE (require (list_all (\<lambda>c. 32 \<le> code c) s) (field @ '' contains control characters'')) (\<lambda>_. Inr s))
    | _ \<Rightarrow> Inl (Err (field @ '' must be non-empty bounded text'')))"

definition expect_natural :: "json \<Rightarrow> string \<Rightarrow> int result" where
  "expect_natural v field = (case v of
      JInt i \<Rightarrow> bindE (require (0 \<le> i) (field @ '' must be a non-negative integer'')) (\<lambda>_. Inr i)
    | _ \<Rightarrow> Inl (Err (field @ '' must be a non-negative integer'')))"

definition parse_instant :: "string \<Rightarrow> datetime result" where
  "parse_instant value =
     (let normalized = (if value \<noteq> [] \<and> last value = CHR ''Z'' then butlast value @ ''+00:00'' else value) in
      case fromisoformat normalized of
        None \<Rightarrow> Inl (Err ''timestamp must use ISO-8601'')
      | Some (parsed, None) \<Rightarrow> Inl (Err ''timestamp must include an offset'')
      | Some (parsed, Some off) \<Rightarrow> to_utc parsed off)"

text \<open>\<^verbatim>\<open>datetime.strptime(value, "%H:%M")\<close>: one or two digits each.\<close>

definition parse_clock :: "string \<Rightarrow> (nat \<times> nat) result" where
  "parse_clock value = (case partition_at (CHR '':'') value of (hours, colon, minutes) \<Rightarrow>
     bindE (require (colon \<and> length hours \<in> {1, 2} \<and> length minutes \<in> {1, 2} \<and> list_all is_digit (hours @ minutes)
         \<and> digits_value hours \<le> 23 \<and> digits_value minutes \<le> 59) ''local_time must use HH:MM'') (\<lambda>_.
     Inr (digits_value hours, digits_value minutes)))"

text \<open>\<^verbatim>\<open>date.fromisoformat\<close> and \<^verbatim>\<open>date.isoformat\<close>.\<close>

definition date_fromisoformat :: "string \<Rightarrow> (nat \<times> nat \<times> nat) option" where
  "date_fromisoformat s = (let p = utf8 s in
     if length p \<in> {7, 8, 10} then
       (case parse_isoformat_date p (length p) of
          None \<Rightarrow> None
        | Some (y, m, d) \<Rightarrow> if valid_date y m d then Some (y, m, d) else None)
     else None)"

definition isoformat_date :: "nat \<times> nat \<times> nat \<Rightarrow> string" where
  "isoformat_date date = (case date of (y, m, d) \<Rightarrow> four_digits y @ ''-'' @ two_digits m @ ''-'' @ two_digits d)"

text \<open>\<^verbatim>\<open>t + timedelta(minutes=n)\<close> for at most one day.\<close>

definition plus_minutes :: "datetime \<Rightarrow> int \<Rightarrow> datetime result" where
  "plus_minutes t n = to_utc t (- (n * usec_per_minute))"

definition date_of :: "datetime \<Rightarrow> nat \<times> nat \<times> nat" where
  "date_of t = (dt_year t, dt_month t, dt_day t)"

definition wall_clock :: "nat \<times> nat \<times> nat \<Rightarrow> nat \<Rightarrow> nat \<Rightarrow> datetime" where
  "wall_clock date hour minute = make_datetime date (hour, minute, 0, 0)"

section \<open>Files\<close>

text \<open>
  Reading a file is an argument: what it holds, or why that is not known. \<open>NotRegular\<close> and \<open>TooLarge\<close> are what
  the tests before the reading find, \<open>Unreadable\<close> is every \<^verbatim>\<open>OSError\<close> of the tests and of the reading, and
  \<open>NotText\<close> stands for bytes that are not UTF-8, for which \<^verbatim>\<open>read_text\<close> raises \<^verbatim>\<open>UnicodeDecodeError\<close>, a
  \<^verbatim>\<open>ValueError\<close>. The text of a document may not be JSON (\<^verbatim>\<open>JSONDecodeError\<close>), hold an integer of more digits than
  the interpreter converts (\<^verbatim>\<open>ValueError\<close>) or be nested too deeply for the parser (\<^verbatim>\<open>RecursionError\<close>). Printing,
  comparing and hashing what was parsed are taken to need no deeper stack than parsing it.
\<close>

datatype 'a reading = NotRegular | TooLarge | Unreadable | NotText | Content 'a

datatype parsed = NotJson | LongInteger | TooDeep | Parsed json

definition read_json :: "parsed reading \<Rightarrow> string \<Rightarrow> pydict result" where
  "read_json found field = (case found of
      NotRegular \<Rightarrow> Inl (Err (field @ '' is not a regular file''))
    | TooLarge \<Rightarrow> Inl (Err (field @ '' exceeded the size limit''))
    | Unreadable \<Rightarrow> Inl (Err (field @ '' is not readable JSON''))
    | NotText \<Rightarrow> Inl ValueError
    | Content NotJson \<Rightarrow> Inl (Err (field @ '' is not readable JSON''))
    | Content LongInteger \<Rightarrow> Inl ValueError
    | Content TooDeep \<Rightarrow> Inl RecursionError
    | Content (Parsed v) \<Rightarrow> expect_object v field)"

text \<open>The files on which the reading lets an exception of the interpreter escape.\<close>

definition undecodable :: "parsed reading \<Rightarrow> bool" where
  "undecodable found \<longleftrightarrow> found = NotText \<or> found = Content LongInteger"

definition reading_exceptions :: "parsed reading list \<Rightarrow> py_exc set" where
  "reading_exceptions files = {e. (\<exists>m. e = Err m) \<or> e = ValueError \<and> (\<exists>f \<in> set files. undecodable f) \<or>
     e = RecursionError \<and> Content TooDeep \<in> set files}"

lemma read_json_iff [simp]: "read_json found field = Inr d \<longleftrightarrow> found = Content (Parsed (JObj d))"
  by (auto simp: read_json_def expect_object_def split: reading.splits parsed.splits json.splits)

lemma read_json_raises: "found \<in> set files \<Longrightarrow> raises (reading_exceptions files) (read_json found field)"
  by (auto simp: raises_def reading_exceptions_def undecodable_def read_json_def expect_object_def
      split: reading.splits parsed.splits json.splits)

section \<open>The catalog\<close>

record job_entry =
  je_id :: string
  je_workflow :: string
  je_branch :: string
  je_timezone :: string
  je_local_time :: string
  je_max_delay :: int
  je_settlement :: int
  je_execution_job :: string
  je_run_key_prefix :: string
  je_terminal_prefix :: string
  je_report_prefix :: string
  je_terminal_file :: string
  je_terminal_schema :: string
  je_ledger_file :: string
  je_markdown_file :: string

definition minutes_between :: "json \<Rightarrow> string \<Rightarrow> int \<Rightarrow> int \<Rightarrow> int result" where
  "minutes_between v field lower_bound upper_bound =
     (let refused = Inl (Err (field @ '' must be between '' @ str_int lower_bound @ '' and '' @ str_int upper_bound)) in
      case v of JInt i \<Rightarrow> if lower_bound \<le> i \<and> i \<le> upper_bound then Inr i else refused | _ \<Rightarrow> refused)"

definition is_yaml_name :: "string \<Rightarrow> bool" where
  "is_yaml_name s \<longleftrightarrow> is_prefix (rev ''.yml'') (rev s) \<or> is_prefix (rev ''.yaml'') (rev s)"

text \<open>One entry of the document, given the identifiers before it.\<close>

definition load_entry :: "(string \<Rightarrow> zone_answer) \<Rightarrow> string list \<Rightarrow> pydict \<Rightarrow> job_entry result" where
  "load_entry zones seen raw =
     bindE (expect_text (dict_get raw ''id'') ''job.id'' 80) (\<lambda>job_id.
     bindE (require (job_id \<notin> set seen) ''watchdog job IDs must be unique'') (\<lambda>_.
     (let named = (\<lambda>name maximum. expect_text (dict_get raw name) (job_id @ ''.'' @ name) maximum) in
     bindE (named ''workflow'' 160) (\<lambda>workflow.
     bindE (require (is_yaml_name workflow) (job_id @ ''.workflow must name YAML'')) (\<lambda>_.
     bindE (named ''branch'' 255) (\<lambda>branch.
     bindE (named ''timezone'' 100) (\<lambda>timezone_name.
     bindE (find_zone zones timezone_name) (\<lambda>_.
     bindE (named ''local_time'' 5) (\<lambda>local_time.
     bindE (parse_clock local_time) (\<lambda>_.
     bindE (minutes_between (dict_get raw ''max_dispatch_delay_minutes'') (job_id @ ''.max_dispatch_delay_minutes'') 1 720) (\<lambda>delay.
     bindE (minutes_between (dict_get raw ''settlement_minutes'') (job_id @ ''.settlement_minutes'') 1 1440) (\<lambda>settlement.
     bindE (require (delay \<le> settlement) (job_id @ ''.settlement_minutes precedes dispatch window'')) (\<lambda>_.
     bindE (named ''execution_job'' 100) (\<lambda>execution_job.
     bindE (named ''run_key_prefix'' 100) (\<lambda>run_key_prefix.
     bindE (named ''terminal_artifact_prefix'' 160) (\<lambda>terminal_prefix.
     bindE (named ''report_artifact_prefix'' 160) (\<lambda>report_prefix.
     bindE (named ''terminal_receipt_file'' 160) (\<lambda>terminal_file.
     bindE (named ''terminal_receipt_schema'' 160) (\<lambda>terminal_schema.
     bindE (named ''report_ledger_file'' 160) (\<lambda>ledger_file.
     bindE (named ''report_markdown_file'' 160) (\<lambda>markdown_file.
     Inr \<lparr>je_id = job_id, je_workflow = workflow, je_branch = branch, je_timezone = timezone_name, je_local_time = local_time,
       je_max_delay = delay, je_settlement = settlement, je_execution_job = execution_job, je_run_key_prefix = run_key_prefix,
       je_terminal_prefix = terminal_prefix, je_report_prefix = report_prefix, je_terminal_file = terminal_file,
       je_terminal_schema = terminal_schema, je_ledger_file = ledger_file, je_markdown_file = markdown_file\<rparr>)))))))))))))))))))))"

definition load_catalog :: "(string \<Rightarrow> zone_answer) \<Rightarrow> pydict \<Rightarrow> job_entry list result" where
  "load_catalog zones document =
     bindE (require (dict_get document ''schema_version'' = JStr ''overnight_jobs.v2'') ''unsupported watchdog catalog schema'') (\<lambda>_.
     bindE (expect_objects (dict_get document ''jobs'') ''watchdog catalog.jobs'') (\<lambda>jobs.
     bindE (require (jobs \<noteq> []) ''watchdog catalog must contain jobs'') (\<lambda>_.
     foldE (\<lambda>validated raw. bindE (load_entry zones (map je_id validated) raw) (\<lambda>entry. Inr (validated @ [entry]))) [] jobs)))"

definition select_entry :: "job_entry list \<Rightarrow> string \<Rightarrow> job_entry result" where
  "select_entry entries job_id = (case filter (\<lambda>entry. je_id entry = job_id) entries of
      [entry] \<Rightarrow> Inr entry
    | _ \<Rightarrow> Inl (Err (''catalog must contain exactly one job '' @ repr_str job_id)))"

section \<open>The night\<close>

record logical_night =
  ln_date :: "nat \<times> nat \<times> nat"
  ln_scheduled :: datetime
  ln_latest :: datetime
  ln_settlement :: datetime
  ln_run_key :: string

text \<open>The date a run is looked for: the given one, or the last whose settlement has passed on the wall clock.\<close>

definition night_date :: "datetime \<Rightarrow> nat \<Rightarrow> nat \<Rightarrow> int \<Rightarrow> string option \<Rightarrow> (nat \<times> nat \<times> nat) result" where
  "night_date local hour minute settlement explicit =
     (if explicit \<noteq> None \<and> explicit \<noteq> Some [] then
        (case date_fromisoformat (the explicit) of
           None \<Rightarrow> Inl (Err ''logical date must use YYYY-MM-DD'')
         | Some date \<Rightarrow> Inr date)
      else bindE (plus_minutes (wall_clock (date_of local) hour minute) settlement) (\<lambda>deadline.
        if instant deadline \<le> instant local then Inr (date_of local) else prev_day (date_of local)))"

definition find_night :: "(string \<Rightarrow> zone_answer) \<Rightarrow> datetime \<Rightarrow> job_entry \<Rightarrow> string option \<Rightarrow> logical_night result" where
  "find_night zones now entry explicit =
     bindE (find_zone zones (je_timezone entry)) (\<lambda>zone.
     bindE (to_zone zone now) (\<lambda>local.
     bindE (parse_clock (je_local_time entry)) (\<lambda>(hour, minute).
     bindE (night_date local hour minute (je_settlement entry) explicit) (\<lambda>date.
     (let scheduled = wall_clock date hour minute in
     bindE (plus_minutes scheduled (je_max_delay entry)) (\<lambda>latest.
     bindE (plus_minutes scheduled (je_settlement entry)) (\<lambda>settlement.
     Inr \<lparr>ln_date = date, ln_scheduled = scheduled, ln_latest = latest, ln_settlement = settlement,
       ln_run_key = je_run_key_prefix entry @ '':scheduled:'' @ isoformat_date date\<rparr>)))))))"

section \<open>Listings\<close>

record run_client =
  rc_runs :: "string \<Rightarrow> pydict list result"
  rc_jobs :: "int \<Rightarrow> pydict list result"
  rc_artifacts :: "int \<Rightarrow> pydict list result"

text \<open>\<^verbatim>\<open>SnapshotClient\<close>: the listings of a document.\<close>

definition snapshot_items :: "pydict \<Rightarrow> string \<Rightarrow> int \<Rightarrow> pydict list result" where
  "snapshot_items by_run field run_id =
     expect_objects (dict_get_default by_run (str_int run_id) (JArr [])) (field @ ''.'' @ str_int run_id)"

definition snapshot_client :: "pydict \<Rightarrow> run_client result" where
  "snapshot_client payload =
     bindE (expect_objects (dict_get payload ''workflow_runs'') ''workflow_runs'') (\<lambda>runs.
     bindE (expect_object (dict_get payload ''jobs_by_run'') ''jobs_by_run'') (\<lambda>jobs.
     bindE (expect_object (dict_get payload ''artifacts_by_run'') ''artifacts_by_run'') (\<lambda>artifacts.
     Inr \<lparr>rc_runs = (\<lambda>_. Inr runs), rc_jobs = snapshot_items jobs ''jobs_by_run'',
       rc_artifacts = snapshot_items artifacts ''artifacts_by_run''\<rparr>)))"

definition unique_named :: "pydict list \<Rightarrow> string \<Rightarrow> string \<Rightarrow> pydict option result" where
  "unique_named items name kind = (case filter (\<lambda>item. dict_get item ''name'' = JStr name) items of
      [] \<Rightarrow> Inr None
    | [item] \<Rightarrow> Inr (Some item)
    | _ \<Rightarrow> Inl (Err (''duplicate '' @ kind @ '' '' @ repr_str name)))"

section \<open>One attempt\<close>

record attempt_report =
  ar_run_id :: int
  ar_run_attempt :: int
  ar_run_url :: json
  ar_head_sha :: json
  ar_started :: datetime
  ar_local :: datetime
  ar_delay :: int
  ar_terminal_name :: string
  ar_terminal_id :: json
  ar_report_name :: string
  ar_report_id :: json
  ar_status :: string
  ar_reasons :: "string list"

text \<open>\<^verbatim>\<open>d.get(k) or d.get(l)\<close>.\<close>

definition either_field :: "pydict \<Rightarrow> string \<Rightarrow> string \<Rightarrow> json" where
  "either_field d k l = (if falsy (dict_get d k) then dict_get d l else dict_get d k)"

definition run_started :: "pydict \<Rightarrow> datetime result" where
  "run_started run = bindE (expect_text (either_field run ''run_started_at'' ''created_at'') ''run.started_at'' 64) parse_instant"

definition succeeded :: "pydict \<Rightarrow> bool" where
  "succeeded d \<longleftrightarrow> dict_get d ''status'' = JStr ''completed'' \<and> dict_get d ''conclusion'' = JStr ''success''"

definition complaint :: "bool \<Rightarrow> string \<Rightarrow> string list" where
  "complaint b message = (if b then [message] else [])"

definition run_reasons :: "job_entry \<Rightarrow> pydict \<Rightarrow> int \<Rightarrow> string list" where
  "run_reasons entry run delay =
     complaint (dict_get run ''event'' \<noteq> JStr ''schedule'') ''event was not schedule''
     @ complaint (dict_get run ''head_branch'' \<noteq> JStr (je_branch entry)) ''run did not use expected default branch''
     @ complaint (\<not> (0 \<le> delay \<and> delay \<le> je_max_delay entry)) (''dispatch delay '' @ str_int delay @ ''m was outside governed window'')
     @ complaint (\<not> succeeded run) (''workflow concluded '' @ py_str (either_field run ''conclusion'' ''status''))"

definition job_reasons :: "string \<Rightarrow> pydict option \<Rightarrow> string list" where
  "job_reasons name execution = (case execution of
      None \<Rightarrow> [''required job '' @ repr_str name @ '' was absent'']
    | Some job \<Rightarrow> complaint (\<not> succeeded job)
        (''required job '' @ repr_str name @ '' concluded '' @ py_str (either_field job ''conclusion'' ''status'')))"

definition sized :: "json \<Rightarrow> bool" where
  "sized extent \<longleftrightarrow> (case extent of JNull \<Rightarrow> True | JInt i \<Rightarrow> 0 < i | _ \<Rightarrow> False)"

definition artifact_reasons :: "string \<Rightarrow> string \<Rightarrow> pydict option \<Rightarrow> string list" where
  "artifact_reasons label name artifact = (case artifact of
      None \<Rightarrow> [label @ '' artifact '' @ repr_str name @ '' was absent'']
    | Some item \<Rightarrow> complaint (dict_get item ''expired'' \<noteq> JBool False) (label @ '' artifact is expired'')
        @ complaint (\<not> sized (dict_get item ''size_in_bytes'')) (label @ '' artifact is empty''))"

definition artifact_name :: "string \<Rightarrow> int \<Rightarrow> int \<Rightarrow> string" where
  "artifact_name prefix run_id run_attempt = prefix @ str_int run_id @ ''-'' @ str_int run_attempt"

definition item_id :: "pydict option \<Rightarrow> json" where
  "item_id item = (case item of None \<Rightarrow> JNull | Some d \<Rightarrow> dict_get d ''id'')"

definition delay_minutes :: "logical_night \<Rightarrow> datetime \<Rightarrow> int" where
  "delay_minutes night local = (instant local - instant (ln_scheduled night)) div usec_per_minute"

definition evaluate_attempt ::
    "(string \<Rightarrow> zone_answer) \<Rightarrow> job_entry \<Rightarrow> logical_night \<Rightarrow> pydict list \<Rightarrow> pydict list \<Rightarrow> pydict \<Rightarrow> attempt_report result" where
  "evaluate_attempt zones entry night jobs artifacts run =
     bindE (expect_positive (dict_get run ''id'') ''run.id'') (\<lambda>run_id.
     bindE (expect_positive (dict_get_default run ''run_attempt'' (JInt 1)) ''run.run_attempt'') (\<lambda>run_attempt.
     bindE (run_started run) (\<lambda>started.
     bindE (find_zone zones (je_timezone entry)) (\<lambda>zone.
     bindE (to_zone zone started) (\<lambda>local.
     (let delay = delay_minutes night local;
          terminal_name = artifact_name (je_terminal_prefix entry) run_id run_attempt;
          report_name = artifact_name (je_report_prefix entry) run_id run_attempt in
     bindE (unique_named jobs (je_execution_job entry) ''job'') (\<lambda>execution.
     bindE (unique_named artifacts terminal_name ''artifact'') (\<lambda>terminal.
     bindE (unique_named artifacts report_name ''artifact'') (\<lambda>report.
     (let reasons = run_reasons entry run delay @ job_reasons (je_execution_job entry) execution
          @ artifact_reasons ''terminal'' terminal_name terminal @ artifact_reasons ''report'' report_name report in
     Inr \<lparr>ar_run_id = run_id, ar_run_attempt = run_attempt, ar_run_url = dict_get run ''html_url'', ar_head_sha = dict_get run ''head_sha'',
       ar_started = started, ar_local = local, ar_delay = delay, ar_terminal_name = terminal_name, ar_terminal_id = item_id terminal,
       ar_report_name = report_name, ar_report_id = item_id report,
       ar_status = (if reasons = [] then ''success'' else ''failure''), ar_reasons = reasons\<rparr>))))))))))"

section \<open>The report\<close>

record watchdog_report =
  wr_generated_at :: datetime
  wr_job_id :: string
  wr_workflow :: string
  wr_timezone :: string
  wr_night :: logical_night
  wr_status :: string
  wr_selected :: "attempt_report option"
  wr_attempts :: "attempt_report list"
  wr_inspection_errors :: nat
  wr_reasons :: "string list"

text \<open>The body of the loop over the runs: the attempt with its start, or nothing for a run outside the window.\<close>

definition inspect_run ::
    "(string \<Rightarrow> zone_answer) \<Rightarrow> job_entry \<Rightarrow> logical_night \<Rightarrow> (int \<Rightarrow> pydict list result) \<Rightarrow> (int \<Rightarrow> pydict list result)
      \<Rightarrow> pydict \<Rightarrow> (datetime \<times> attempt_report) option result" where
  "inspect_run zones entry night list_jobs list_artifacts run =
     bindE (run_started run) (\<lambda>started.
     bindE (find_zone zones (je_timezone entry)) (\<lambda>zone.
     bindE (to_zone zone started) (\<lambda>local.
     if \<not> (instant (ln_scheduled night) \<le> instant local \<and> instant local \<le> instant (ln_latest night)) then Inr None
     else bindE (expect_positive (dict_get run ''id'') ''run.id'') (\<lambda>run_id.
       bindE (list_jobs run_id) (\<lambda>jobs.
       bindE (list_artifacts run_id) (\<lambda>artifacts.
       bindE (evaluate_attempt zones entry night jobs artifacts run) (\<lambda>attempt.
       Inr (Some (started, attempt)))))))))"

definition collect_run ::
    "('r \<Rightarrow> 'a option result) \<Rightarrow> 'a list \<times> nat \<Rightarrow> 'r \<Rightarrow> ('a list \<times> nat) result" where
  "collect_run inspect found run = (case inspect run of
      Inl (Err message) \<Rightarrow> Inr (fst found, Suc (snd found))
    | Inl e \<Rightarrow> Inl e
    | Inr None \<Rightarrow> Inr found
    | Inr (Some attempt) \<Rightarrow> Inr (fst found @ [attempt], snd found))"

definition night_reasons :: "bool \<Rightarrow> attempt_report list \<Rightarrow> attempt_report list \<Rightarrow> nat \<Rightarrow> string list" where
  "night_reasons early ordered successful inspection_errors =
     complaint early ''settlement deadline has not passed''
     @ (if ordered = [] then [''no scheduled workflow run began inside governed window'']
        else complaint (successful = []) ''no attempt had successful execution and both evidence artifacts'')
     @ complaint (0 < inspection_errors) ''one or more attempts could not be inspected safely''"

definition build_report ::
    "(string \<Rightarrow> zone_answer) \<Rightarrow> run_client \<Rightarrow> job_entry \<Rightarrow> logical_night \<Rightarrow> datetime \<Rightarrow> watchdog_report result" where
  "build_report zones client entry night now =
     bindE (rc_runs client (je_workflow entry)) (\<lambda>runs.
     bindE (foldE (collect_run (inspect_run zones entry night (rc_jobs client) (rc_artifacts client))) ([], 0) (take 30 runs))
       (\<lambda>(attempts, inspection_errors).
     (let ordered = map snd (sort_key (instant \<circ> fst) attempts);
          successful = filter (\<lambda>a. ar_status a = ''success'') ordered;
          selected = (if successful = [] then None else Some (last successful)) in
     bindE (find_zone zones (je_timezone entry)) (\<lambda>zone.
     bindE (to_zone zone now) (\<lambda>local_now.
     (let reasons = night_reasons (instant local_now < instant (ln_settlement night)) ordered successful inspection_errors in
     Inr \<lparr>wr_generated_at = now, wr_job_id = je_id entry, wr_workflow = je_workflow entry, wr_timezone = je_timezone entry,
       wr_night = night, wr_status = (if selected \<noteq> None \<and> reasons = [] then ''success'' else ''failure''),
       wr_selected = selected, wr_attempts = ordered, wr_inspection_errors = inspection_errors, wr_reasons = reasons\<rparr>))))))"

text \<open>
  The report of \<^verbatim>\<open>locate\<close> from a snapshot: the lines before the outputs are written. The clock is read when no time is
  given; what a successful report selects is what the next step downloads.
\<close>

definition locate_report ::
    "(string \<Rightarrow> zone_answer) \<Rightarrow> parsed reading \<Rightarrow> string \<Rightarrow> datetime \<Rightarrow> string option \<Rightarrow> string option \<Rightarrow> parsed reading
      \<Rightarrow> watchdog_report result" where
  "locate_report zones catalog job_id clock now_text explicit snapshot =
     bindE (read_json catalog ''watchdog catalog'') (\<lambda>document.
     bindE (load_catalog zones document) (\<lambda>entries.
     bindE (select_entry entries job_id) (\<lambda>entry.
     bindE (case now_text of None \<Rightarrow> Inr clock | Some value \<Rightarrow> parse_instant value) (\<lambda>now.
     bindE (find_night zones now entry explicit) (\<lambda>night.
     bindE (read_json snapshot ''snapshot'') (\<lambda>payload.
     bindE (snapshot_client payload) (\<lambda>client.
     build_report zones client entry night now)))))))"

definition exit_code :: "watchdog_report \<Rightarrow> int" where
  "exit_code report = (if wr_status report = ''success'' then 0 else 1)"


section \<open>Dates\<close>

lemma plus_minutes_correct:
  assumes "valid_datetime t" and "0 \<le> n" and "n \<le> 1440"
  shows "case plus_minutes t n of
      Inl e \<Rightarrow> e = OverflowError \<and> max_instant < instant t + n * usec_per_minute
    | Inr u \<Rightarrow> valid_datetime u \<and> instant u = instant t + n * usec_per_minute"
proof (cases "n = 1440")
  case False
  then have "\<bar>- (n * usec_per_minute)\<bar> < usec_per_day" using assms by (simp add: usec_per_minute_def usec_per_day_def)
  moreover have "min_instant \<le> instant t + n * usec_per_minute"
    using instant_bounds [OF assms(1)] assms(2) by (simp add: usec_per_minute_def)
  ultimately show ?thesis
    using to_utc_correct [OF assms(1), of "- (n * usec_per_minute)"] unfolding plus_minutes_def by (auto split: sum.splits)
next
  case True
  obtain y m d where ymd: "dt_year t = y" "dt_month t = m" "dt_day t = d" by simp
  have date: "valid_date y m d" using assms(1) ymd by (simp add: valid_datetime_def)
  have day: "n * usec_per_minute = usec_per_day" by (simp add: True usec_per_minute_def usec_per_day_def)
  have time: "0 \<le> usec_of_day t" "usec_of_day t < usec_per_day" using usec_of_day_bounds [OF assms(1)] by simp_all
  have run: "plus_minutes t n = bindE (next_day (y, m, d)) (\<lambda>ymd. Inr (make_datetime ymd (split_usec (usec_of_day t))))"
    unfolding plus_minutes_def to_utc_def day using time by (simp add: ymd Let_def)
  show ?thesis
  proof (cases "next_day (y, m, d)")
    case (Inl e)
    then show ?thesis
      using next_day_ordinal [OF date] time unfolding run day by (simp add: max_instant_def instant_def ymd usec_per_day_def)
  next
    case (Inr later)
    obtain y' m' d' where later: "later = (y', m', d')" by (cases later)
    then have "valid_date y' m' d' \<and> ymd2ord y' m' d' = ymd2ord y m d + 1" using next_day_ordinal [OF date] Inr by simp
    then show ?thesis
      unfolding run day Inr later
      using split_usec_combines [OF time, of "(y', m', d')"] by (simp add: instant_make) (simp add: instant_def ymd algebra_simps)
  qed
qed

lemma plus_minutesD:
  assumes "plus_minutes t n = Inr u" and "valid_datetime t" and "0 \<le> n" and "n \<le> 1440"
  shows "valid_datetime u" and "instant u = instant t + n * usec_per_minute"
  using plus_minutes_correct [OF assms(2-4)] assms(1) by simp_all

lemma parse_clock_bounds: "parse_clock value = Inr (hour, minute) \<Longrightarrow> hour < 24 \<and> minute < 60"
  by (auto simp: parse_clock_def bindE_require split: prod.splits if_splits)

lemma wall_clock_instant:
  assumes "valid_date y m d" and "hour < 24" and "minute < 60"
  shows "valid_datetime (wall_clock (y, m, d) hour minute)"
    and "instant (wall_clock (y, m, d) hour minute) = ymd2ord y m d * usec_per_day + (int hour * 60 + int minute) * usec_per_minute"
  using assms by (simp_all add: wall_clock_def make_datetime_def valid_datetime_def instant_def usec_of_day_def usec_per_minute_def algebra_simps)

lemma to_zone_exact:
  assumes "to_zone zone t = Inr u" and "valid_datetime t" and "\<bar>zone (instant t)\<bar> < usec_per_day"
  shows "valid_datetime u" and "instant u = instant t + zone (instant t)"
  using to_utc_correct [OF assms(2), of "- zone (instant t)"] assms(1,3) by (simp_all add: to_zone_def)

section \<open>The catalog\<close>

text \<open>What the other operations rely on in an entry.\<close>

definition sound_entry :: "(string \<Rightarrow> zone_answer) \<Rightarrow> job_entry \<Rightarrow> bool" where
  "sound_entry zones entry \<longleftrightarrow> (\<exists>zone. zones (je_timezone entry) = Zone zone) \<and>
     (\<exists>hour minute. parse_clock (je_local_time entry) = Inr (hour, minute)) \<and>
     1 \<le> je_max_delay entry \<and> je_max_delay entry \<le> 720 \<and> je_max_delay entry \<le> je_settlement entry \<and> je_settlement entry \<le> 1440"

lemma find_zone_iff [simp]: "find_zone zones name = Inr zone \<longleftrightarrow> zones name = Zone zone"
  by (simp add: find_zone_def split: zone_answer.split)

lemma minutes_between_iff [simp]: "minutes_between v field lo hi = Inr i \<longleftrightarrow> v = JInt i \<and> lo \<le> i \<and> i \<le> hi"
  by (auto simp: minutes_between_def Let_def split: json.splits)

lemma load_entry_sound:
  assumes "load_entry zones seen raw = Inr entry"
  shows "sound_entry zones entry \<and> je_id entry \<notin> set seen"
  using assms unfolding load_entry_def Let_def
  apply (elim bindE_InrE)
  apply (simp only: require_eq_Inr_iff find_zone_iff minutes_between_iff sum.inject)
  apply (drule sym [of _ entry])
  apply (simp only: sound_entry_def job_entry.select_convs)
  apply (metis surj_pair)
  done

lemma load_entries:
  assumes "foldE (\<lambda>validated raw. bindE (load_entry zones (map je_id validated) raw) (\<lambda>entry. Inr (validated @ [entry]))) es raws = Inr entries"
    and "list_all (sound_entry zones) es" and "distinct (map je_id es)"
  shows "list_all (sound_entry zones) entries \<and> distinct (map je_id entries) \<and> length entries = length es + length raws"
  using assms
proof (induction raws arbitrary: es)
  case (Cons raw raws)
  then obtain entry where entry: "load_entry zones (map je_id es) raw = Inr entry"
    and rest: "foldE (\<lambda>validated raw. bindE (load_entry zones (map je_id validated) raw) (\<lambda>entry. Inr (validated @ [entry])))
      (es @ [entry]) raws = Inr entries" by auto
  show ?case using Cons.IH [OF rest] load_entry_sound [OF entry] Cons.prems(2,3) by simp
qed simp

lemma load_catalog_sound:
  assumes "load_catalog zones document = Inr entries"
  shows "list_all (sound_entry zones) entries" and "distinct (map je_id entries)" and "entries \<noteq> []"
proof -
  obtain jobs where jobs: "jobs \<noteq> []"
    "foldE (\<lambda>validated raw. bindE (load_entry zones (map je_id validated) raw) (\<lambda>entry. Inr (validated @ [entry]))) [] jobs = Inr entries"
    using assms unfolding load_catalog_def by auto
  show "list_all (sound_entry zones) entries" "distinct (map je_id entries)" "entries \<noteq> []"
    using load_entries [OF jobs(2)] jobs(1) by auto
qed

lemma select_entry_iff:
  assumes "distinct (map je_id entries)"
  shows "select_entry entries job_id = Inr entry \<longleftrightarrow> entry \<in> set entries \<and> je_id entry = job_id"
proof -
  have "filter (\<lambda>e. je_id e = job_id) entries = [entry]" if "entry \<in> set entries" "je_id entry = job_id"
    using assms that
  proof (induction entries)
    case (Cons e es)
    show ?case
    proof (cases "e = entry")
      case True
      with Cons.prems have "job_id \<notin> je_id ` set es" by simp
      then have "filter (\<lambda>e. je_id e = job_id) es = []" by (auto simp: filter_empty_conv)
      with True Cons.prems show ?thesis by simp
    next
      case False
      with Cons show ?thesis by force
    qed
  qed simp
  moreover have "entry \<in> set entries \<and> je_id entry = job_id" if "filter (\<lambda>e. je_id e = job_id) entries = [entry]"
  proof -
    have "entry \<in> set (filter (\<lambda>e. je_id e = job_id) entries)" using that by simp
    then show ?thesis by simp
  qed
  ultimately show ?thesis by (auto simp: select_entry_def split: list.splits)
qed

section \<open>The night\<close>

lemma night_dateE:
  assumes "night_date local hour minute settlement explicit = Inr date" and "explicit = None \<or> explicit = Some []"
  obtains deadline where "plus_minutes (wall_clock (date_of local) hour minute) settlement = Inr deadline"
    and "if instant deadline \<le> instant local then date = date_of local else prev_day (date_of local) = Inr date"
proof -
  have "\<not> (explicit \<noteq> None \<and> explicit \<noteq> Some [])" using assms(2) by auto
  then obtain deadline where d: "plus_minutes (wall_clock (date_of local) hour minute) settlement = Inr deadline"
    and rest: "(if instant deadline \<le> instant local then Inr (date_of local) else prev_day (date_of local)) = Inr date"
    using assms(1) unfolding night_date_def by (simp only: if_False) (elim bindE_InrE)
  show thesis by (rule that [OF d]) (use rest in \<open>cases "instant deadline \<le> instant local"; simp\<close>)
qed

text \<open>The minutes of the night behind the schedule are counted on the wall clock.\<close>

lemma night_of_today:
  assumes "valid_datetime local" and "hour < 24" and "minute < 60" and "0 \<le> settlement" and "settlement \<le> 1440"
    and "night_date local hour minute settlement explicit = Inr date" and "explicit = None \<or> explicit = Some []"
    and "n = instant (wall_clock date hour minute) + settlement * usec_per_minute"
  shows "valid_datetime (wall_clock date hour minute)" and "instant local < n + usec_per_day"
    and "n \<le> instant local \<or> usec_of_day local < (int hour * 60 + int minute + settlement - 1440) * usec_per_minute"
proof -
  obtain y m d where ymd: "date_of local = (y, m, d)" by (cases "date_of local")
  have today: "valid_date y m d" using assms(1) ymd by (simp add: valid_datetime_def date_of_def)
  have clock: "instant local = ymd2ord y m d * usec_per_day + usec_of_day local" using ymd by (simp add: instant_def date_of_def)
  have time: "0 \<le> usec_of_day local" "usec_of_day local < usec_per_day" using usec_of_day_bounds [OF assms(1)] by simp_all
  have pos: "0 \<le> (int hour * 60 + int minute) * usec_per_minute" by (simp add: usec_per_minute_def)
  have later: "0 \<le> settlement * usec_per_minute" using assms(4) by (simp add: usec_per_minute_def)
  obtain deadline where deadline: "plus_minutes (wall_clock (y, m, d) hour minute) settlement = Inr deadline"
    and choice: "if instant deadline \<le> instant local then date = (y, m, d) else prev_day (y, m, d) = Inr date"
    using night_dateE [OF assms(6,7)] unfolding ymd by blast
  note start = wall_clock_instant [OF today assms(2,3)]
  have due: "instant deadline = instant (wall_clock (y, m, d) hour minute) + settlement * usec_per_minute"
    using plus_minutesD(2) [OF deadline start(1) assms(4,5)] .
  have "valid_datetime (wall_clock date hour minute) \<and> instant local < n + usec_per_day \<and>
      (n \<le> instant local \<or> usec_of_day local < (int hour * 60 + int minute + settlement - 1440) * usec_per_minute)"
  proof (cases "instant deadline \<le> instant local")
    case True
    then have date: "date = (y, m, d)" using choice by simp
    have "instant local < n + usec_per_day"
      unfolding assms(8) date start(2) clock using pos later time(2) by linarith
    then show ?thesis using start(1) True due assms(8) unfolding date by simp
  next
    case False
    then have prev: "prev_day (y, m, d) = Inr date" using choice by simp
    obtain y' m' d' where date: "date = (y', m', d')" by (cases date)
    have day: "valid_date y' m' d'" "ymd2ord y' m' d' = ymd2ord y m d - 1" using prev_day_ordinal [OF today] prev date by simp_all
    note eve = wall_clock_instant [OF day(1) assms(2,3)]
    have n: "n = instant deadline - usec_per_day"
      unfolding due assms(8) date start(2) eve(2) day(2) by (simp add: algebra_simps)
    have "n \<le> instant local \<or> usec_of_day local < (int hour * 60 + int minute + settlement - 1440) * usec_per_minute"
      unfolding n due start(2) clock by (simp add: usec_per_day_def usec_per_minute_def algebra_simps) linarith
    then show ?thesis using False n eve(1) unfolding date by simp
  qed
  then show "valid_datetime (wall_clock date hour minute)" "instant local < n + usec_per_day"
    "n \<le> instant local \<or> usec_of_day local < (int hour * 60 + int minute + settlement - 1440) * usec_per_minute"
    by blast+
qed

lemma find_nightE:
  assumes "find_night zones now entry explicit = Inr night" and "zones (je_timezone entry) = Zone zone"
  obtains local hour minute latest settlement where "to_zone zone now = Inr local" and "parse_clock (je_local_time entry) = Inr (hour, minute)"
    and "night_date local hour minute (je_settlement entry) explicit = Inr (ln_date night)"
    and "ln_scheduled night = wall_clock (ln_date night) hour minute"
    and "plus_minutes (ln_scheduled night) (je_max_delay entry) = Inr (ln_latest night)"
    and "plus_minutes (ln_scheduled night) (je_settlement entry) = Inr (ln_settlement night)"
    and "ln_run_key night = je_run_key_prefix entry @ '':scheduled:'' @ isoformat_date (ln_date night)"
proof -
  have found: "find_zone zones (je_timezone entry) = Inr zone" using assms(2) by simp
  obtain local where local: "to_zone zone now = Inr local" and rest: "bindE (parse_clock (je_local_time entry)) (\<lambda>(hour, minute).
     bindE (night_date local hour minute (je_settlement entry) explicit) (\<lambda>date.
     (let scheduled = wall_clock date hour minute in
     bindE (plus_minutes scheduled (je_max_delay entry)) (\<lambda>latest.
     bindE (plus_minutes scheduled (je_settlement entry)) (\<lambda>settlement.
     Inr \<lparr>ln_date = date, ln_scheduled = scheduled, ln_latest = latest, ln_settlement = settlement,
       ln_run_key = je_run_key_prefix entry @ '':scheduled:'' @ isoformat_date date\<rparr>))))) = Inr night"
    using assms(1) unfolding find_night_def found bindE_Inr by (rule bindE_InrE)
  obtain hour minute where clock: "parse_clock (je_local_time entry) = Inr (hour, minute)"
    using rest by (elim bindE_InrE) auto
  show thesis
    using rest unfolding clock bindE_Inr prod.case Let_def
    by (elim bindE_InrE) (rule that [OF local clock]; force)
qed


section \<open>The appraisal of an attempt\<close>

lemma complaint_Nil [simp]: "complaint b message = [] \<longleftrightarrow> \<not> b"
  by (simp add: complaint_def)

lemma job_reasons_Nil [simp]: "job_reasons name execution = [] \<longleftrightarrow> (\<exists>job. execution = Some job \<and> succeeded job)"
  by (cases execution) (simp_all add: job_reasons_def)

text \<open>An artifact that is kept and not empty.\<close>

definition kept :: "pydict \<Rightarrow> bool" where
  "kept item \<longleftrightarrow> dict_get item ''expired'' = JBool False \<and> sized (dict_get item ''size_in_bytes'')"

lemma artifact_reasons_Nil [simp]: "artifact_reasons label name artifact = [] \<longleftrightarrow> (\<exists>item. artifact = Some item \<and> kept item)"
  by (cases artifact) (auto simp: artifact_reasons_def kept_def)

text \<open>The only item of a name.\<close>

definition sole :: "pydict list \<Rightarrow> string \<Rightarrow> pydict \<Rightarrow> bool" where
  "sole items name item \<longleftrightarrow> filter (\<lambda>i. dict_get i ''name'' = JStr name) items = [item]"

lemma unique_named_Some [simp]: "unique_named items name kind = Inr (Some item) \<longleftrightarrow> sole items name item"
  unfolding unique_named_def sole_def
  by (cases "filter (\<lambda>i. dict_get i ''name'' = JStr name) items"; cases "tl (filter (\<lambda>i. dict_get i ''name'' = JStr name) items)") auto

lemma run_reasons_Nil:
  "run_reasons entry run delay = [] \<longleftrightarrow> dict_get run ''event'' = JStr ''schedule'' \<and> dict_get run ''head_branch'' = JStr (je_branch entry)
     \<and> 0 \<le> delay \<and> delay \<le> je_max_delay entry \<and> succeeded run"
  by (auto simp: run_reasons_def)

text \<open>What an attempt without a reason has shown, with its number, its attempt and its artifacts.\<close>

definition fulfilled ::
    "job_entry \<Rightarrow> pydict list \<Rightarrow> pydict list \<Rightarrow> pydict \<Rightarrow> int \<Rightarrow> int \<Rightarrow> bool" where
  "fulfilled entry jobs artifacts run run_id run_attempt \<longleftrightarrow>
     dict_get run ''id'' = JInt run_id \<and> 0 < run_id \<and>
     dict_get_default run ''run_attempt'' (JInt 1) = JInt run_attempt \<and> 0 < run_attempt \<and>
     dict_get run ''event'' = JStr ''schedule'' \<and> dict_get run ''head_branch'' = JStr (je_branch entry) \<and> succeeded run \<and>
     (\<exists>job. sole jobs (je_execution_job entry) job \<and> succeeded job) \<and>
     (\<exists>terminal. sole artifacts (artifact_name (je_terminal_prefix entry) run_id run_attempt) terminal \<and> kept terminal) \<and>
     (\<exists>report. sole artifacts (artifact_name (je_report_prefix entry) run_id run_attempt) report \<and> kept report)"

lemma evaluate_attempt_success:
  assumes "zones (je_timezone entry) = Zone zone"
  shows "(evaluate_attempt zones entry night jobs artifacts run = Inr a \<and> ar_status a = ''success'') \<longleftrightarrow>
    (\<exists>started local run_id run_attempt terminal report. run_started run = Inr started \<and> to_zone zone started = Inr local \<and>
       fulfilled entry jobs artifacts run run_id run_attempt \<and> 0 \<le> delay_minutes night local \<and> delay_minutes night local \<le> je_max_delay entry \<and>
       sole artifacts (artifact_name (je_terminal_prefix entry) run_id run_attempt) terminal \<and>
       sole artifacts (artifact_name (je_report_prefix entry) run_id run_attempt) report \<and>
       a = \<lparr>ar_run_id = run_id, ar_run_attempt = run_attempt, ar_run_url = dict_get run ''html_url'', ar_head_sha = dict_get run ''head_sha'',
         ar_started = started, ar_local = local, ar_delay = delay_minutes night local,
         ar_terminal_name = artifact_name (je_terminal_prefix entry) run_id run_attempt, ar_terminal_id = dict_get terminal ''id'',
         ar_report_name = artifact_name (je_report_prefix entry) run_id run_attempt, ar_report_id = dict_get report ''id'',
         ar_status = ''success'', ar_reasons = []\<rparr>)" (is "?run \<longleftrightarrow> ?spec")
proof
  assume ?run
  then have run: "evaluate_attempt zones entry night jobs artifacts run = Inr a" and status: "ar_status a = ''success''" by simp_all
  have found: "find_zone zones (je_timezone entry) = Inr zone" using assms by simp
  obtain run_id run_attempt started local where heads: "dict_get run ''id'' = JInt run_id" "0 < run_id"
      "dict_get_default run ''run_attempt'' (JInt 1) = JInt run_attempt" "0 < run_attempt"
      "run_started run = Inr started" "to_zone zone started = Inr local"
    using run unfolding evaluate_attempt_def found bindE_Inr by (elim bindE_InrE) (simp only: expect_positive_iff)
  define tn where "tn = artifact_name (je_terminal_prefix entry) run_id run_attempt"
  define rn where "rn = artifact_name (je_report_prefix entry) run_id run_attempt"
  define delay where "delay = delay_minutes night local"
  have steps: "expect_positive (dict_get run ''id'') ''run.id'' = Inr run_id"
    "expect_positive (dict_get_default run ''run_attempt'' (JInt 1)) ''run.run_attempt'' = Inr run_attempt" using heads by simp_all
  obtain execution terminal report where named: "unique_named jobs (je_execution_job entry) ''job'' = Inr execution"
      "unique_named artifacts tn ''artifact'' = Inr terminal" "unique_named artifacts rn ''artifact'' = Inr report"
    and a: "(let reasons = run_reasons entry run delay @ job_reasons (je_execution_job entry) execution
          @ artifact_reasons ''terminal'' tn terminal @ artifact_reasons ''report'' rn report in
     Inr \<lparr>ar_run_id = run_id, ar_run_attempt = run_attempt, ar_run_url = dict_get run ''html_url'', ar_head_sha = dict_get run ''head_sha'',
       ar_started = started, ar_local = local, ar_delay = delay, ar_terminal_name = tn, ar_terminal_id = item_id terminal,
       ar_report_name = rn, ar_report_id = item_id report,
       ar_status = (if reasons = [] then ''success'' else ''failure''), ar_reasons = reasons\<rparr>) = (Inr a :: attempt_report result)"
    using run unfolding evaluate_attempt_def found steps heads(5,6) bindE_Inr
      tn_def [symmetric] rn_def [symmetric] delay_def [symmetric] Let_def [of delay] Let_def [of tn] Let_def [of rn]
    by (elim bindE_InrE)
  define reasons where "reasons = run_reasons entry run delay @ job_reasons (je_execution_job entry) execution
          @ artifact_reasons ''terminal'' tn terminal @ artifact_reasons ''report'' rn report"
  have none: "reasons = []"
  proof (rule ccontr)
    assume "reasons \<noteq> []"
    then have "ar_status a = ''failure''" using a unfolding reasons_def [symmetric] Let_def by auto
    then show False using status by simp
  qed
  then have facts: "run_reasons entry run delay = []" "job_reasons (je_execution_job entry) execution = []"
    "artifact_reasons ''terminal'' tn terminal = []" "artifact_reasons ''report'' rn report = []" by (simp_all only: reasons_def append_is_Nil_conv)
  obtain job titem ritem where items: "execution = Some job" "succeeded job" "terminal = Some titem" "kept titem"
    "report = Some ritem" "kept ritem" using facts by (simp only: job_reasons_Nil artifact_reasons_Nil) blast
  have a: "a = \<lparr>ar_run_id = run_id, ar_run_attempt = run_attempt, ar_run_url = dict_get run ''html_url'', ar_head_sha = dict_get run ''head_sha'',
       ar_started = started, ar_local = local, ar_delay = delay, ar_terminal_name = tn, ar_terminal_id = dict_get titem ''id'',
       ar_report_name = rn, ar_report_id = dict_get ritem ''id'', ar_status = ''success'', ar_reasons = []\<rparr>"
    using a unfolding reasons_def [symmetric] Let_def none unfolding items(3,5) item_id_def option.case by simp
  have "sole jobs (je_execution_job entry) job" "sole artifacts tn titem" "sole artifacts rn ritem"
    using named unfolding items(1,3,5) unique_named_Some by blast+
  then show ?spec
    using heads items(2,4,6) facts(1) a unfolding run_reasons_Nil fulfilled_def tn_def rn_def delay_def by blast
next
  assume ?spec
  then obtain started local run_id run_attempt terminal report where s: "run_started run = Inr started" "to_zone zone started = Inr local"
      "fulfilled entry jobs artifacts run run_id run_attempt" "0 \<le> delay_minutes night local" "delay_minutes night local \<le> je_max_delay entry"
      "sole artifacts (artifact_name (je_terminal_prefix entry) run_id run_attempt) terminal"
      "sole artifacts (artifact_name (je_report_prefix entry) run_id run_attempt) report"
    and a: "a = \<lparr>ar_run_id = run_id, ar_run_attempt = run_attempt, ar_run_url = dict_get run ''html_url'', ar_head_sha = dict_get run ''head_sha'',
         ar_started = started, ar_local = local, ar_delay = delay_minutes night local,
         ar_terminal_name = artifact_name (je_terminal_prefix entry) run_id run_attempt, ar_terminal_id = dict_get terminal ''id'',
         ar_report_name = artifact_name (je_report_prefix entry) run_id run_attempt, ar_report_id = dict_get report ''id'',
         ar_status = ''success'', ar_reasons = []\<rparr>"
    by blast
  have found: "find_zone zones (je_timezone entry) = Inr zone" using assms by simp
  obtain job where job: "sole jobs (je_execution_job entry) job" "succeeded job" using s(3) unfolding fulfilled_def by blast
  have same: "kept terminal" "kept report"
    using s(3,6,7) unfolding fulfilled_def sole_def by (metis list.inject)+
  have named: "unique_named jobs (je_execution_job entry) ''job'' = Inr (Some job)"
    "unique_named artifacts (artifact_name (je_terminal_prefix entry) run_id run_attempt) ''artifact'' = Inr (Some terminal)"
    "unique_named artifacts (artifact_name (je_report_prefix entry) run_id run_attempt) ''artifact'' = Inr (Some report)"
    using job(1) s(6,7) by simp_all
  have steps: "expect_positive (dict_get run ''id'') ''run.id'' = Inr run_id"
    "expect_positive (dict_get_default run ''run_attempt'' (JInt 1)) ''run.run_attempt'' = Inr run_attempt"
    using s(3) unfolding fulfilled_def by simp_all
  have "run_reasons entry run (delay_minutes night local) = []" using s(3-5) unfolding run_reasons_Nil fulfilled_def by blast
  moreover have "job_reasons (je_execution_job entry) (Some job) = []" using job(2) by simp
  moreover have "artifact_reasons l m (Some terminal) = []" "artifact_reasons l m (Some report) = []" for l m using same by simp_all
  ultimately show ?run
    unfolding evaluate_attempt_def found steps s(1,2) named bindE_Inr Let_def by (simp add: a item_id_def)
qed


section \<open>The certification of a night\<close>

text \<open>A run that certifies the night: it began in the window, and the listings of its number fulfil the entry.\<close>

definition certified ::
    "(int \<Rightarrow> int) \<Rightarrow> job_entry \<Rightarrow> logical_night \<Rightarrow> (int \<Rightarrow> pydict list result) \<Rightarrow> (int \<Rightarrow> pydict list result) \<Rightarrow> pydict \<Rightarrow> datetime \<Rightarrow> bool" where
  "certified zone entry night list_jobs list_artifacts run started \<longleftrightarrow> run_started run = Inr started \<and>
     (\<exists>local. to_zone zone started = Inr local \<and> instant (ln_scheduled night) \<le> instant local \<and> instant local \<le> instant (ln_latest night)) \<and>
     (\<exists>run_id run_attempt jobs artifacts. list_jobs run_id = Inr jobs \<and> list_artifacts run_id = Inr artifacts \<and>
        fulfilled entry jobs artifacts run run_id run_attempt)"

lemma sole_exists:
  assumes "fulfilled entry jobs artifacts run run_id run_attempt"
  obtains terminal report where "sole artifacts (artifact_name (je_terminal_prefix entry) run_id run_attempt) terminal"
    and "sole artifacts (artifact_name (je_report_prefix entry) run_id run_attempt) report"
  using assms unfolding fulfilled_def by blast

lemma window_delay:
  assumes "instant (ln_latest night) = instant (ln_scheduled night) + n * usec_per_minute"
    and "instant (ln_scheduled night) \<le> instant local" and "instant local \<le> instant (ln_latest night)"
  shows "0 \<le> delay_minutes night local \<and> delay_minutes night local \<le> n"
proof -
  have "instant local - instant (ln_scheduled night) \<le> n * usec_per_minute" using assms(1,3) by simp
  then have "(instant local - instant (ln_scheduled night)) div usec_per_minute \<le> n * usec_per_minute div usec_per_minute"
    by (rule zdiv_mono1) (simp add: usec_per_minute_def)
  then show ?thesis using assms(2) by (simp add: delay_minutes_def usec_per_minute_def pos_imp_zdiv_nonneg_iff)
qed

text \<open>The attempt recorded for a certified run.\<close>

lemma inspect_success:
  assumes "zones (je_timezone entry) = Zone zone"
    and "instant (ln_latest night) = instant (ln_scheduled night) + je_max_delay entry * usec_per_minute"
  shows "(\<exists>a. inspect_run zones entry night list_jobs list_artifacts run = Inr (Some (started, a)) \<and> ar_status a = ''success'') \<longleftrightarrow>
      certified zone entry night list_jobs list_artifacts run started" (is "?run \<longleftrightarrow> ?spec")
    and "inspect_run zones entry night list_jobs list_artifacts run = Inr (Some (started, a)) \<Longrightarrow> ar_status a = ''success'' \<Longrightarrow>
      ar_started a = started \<and> dict_get run ''id'' = JInt (ar_run_id a)"
proof -
  have found: "find_zone zones (je_timezone entry) = Inr zone" using assms(1) by simp
  have inspected: "certified zone entry night list_jobs list_artifacts run started \<and> ar_started a = started \<and> dict_get run ''id'' = JInt (ar_run_id a)"
    if run: "inspect_run zones entry night list_jobs list_artifacts run = Inr (Some (started, a))" and status: "ar_status a = ''success''" for a
  proof -
    obtain begun local where start: "run_started run = Inr begun" "to_zone zone begun = Inr local"
      and rest: "(if \<not> (instant (ln_scheduled night) \<le> instant local \<and> instant local \<le> instant (ln_latest night)) then Inr None
     else bindE (expect_positive (dict_get run ''id'') ''run.id'') (\<lambda>run_id.
       bindE (list_jobs run_id) (\<lambda>jobs. bindE (list_artifacts run_id) (\<lambda>artifacts.
       bindE (evaluate_attempt zones entry night jobs artifacts run) (\<lambda>attempt. Inr (Some (begun, attempt))))))) = Inr (Some (started, a))"
      using run unfolding inspect_run_def found bindE_Inr by (elim bindE_InrE)
    have inside: "instant (ln_scheduled night) \<le> instant local \<and> instant local \<le> instant (ln_latest night)" using rest by (rule if_resultE) simp_all
    obtain run_id jobs artifacts where listed: "expect_positive (dict_get run ''id'') ''run.id'' = Inr run_id"
        "list_jobs run_id = Inr jobs" "list_artifacts run_id = Inr artifacts"
        "evaluate_attempt zones entry night jobs artifacts run = Inr a" and same: "begun = started"
      using rest inside by (simp only: simp_thms if_False) (elim bindE_InrE, simp)
    obtain run_attempt number where met: "fulfilled entry jobs artifacts run number run_attempt" "ar_started a = begun" "ar_run_id a = number"
      using evaluate_attempt_success [where zones = zones and entry = entry, OF assms(1), of night jobs artifacts run a] listed(4) status start(1) by fastforce
    then have "dict_get run ''id'' = JInt number" unfolding fulfilled_def by blast
    then have "number = run_id" using listed(1) by simp
    then show ?thesis unfolding certified_def using start inside listed(2,3) met same \<open>dict_get run ''id'' = JInt number\<close> by blast
  qed
  show "?run \<longleftrightarrow> ?spec"
  proof
    assume ?spec
    then obtain local run_id run_attempt jobs artifacts where c: "run_started run = Inr started" "to_zone zone started = Inr local"
        "instant (ln_scheduled night) \<le> instant local" "instant local \<le> instant (ln_latest night)"
        "list_jobs run_id = Inr jobs" "list_artifacts run_id = Inr artifacts" "fulfilled entry jobs artifacts run run_id run_attempt"
      unfolding certified_def by blast
    obtain terminal report where "sole artifacts (artifact_name (je_terminal_prefix entry) run_id run_attempt) terminal"
      "sole artifacts (artifact_name (je_report_prefix entry) run_id run_attempt) report" using sole_exists [OF c(7)] .
    then obtain a where a: "evaluate_attempt zones entry night jobs artifacts run = Inr a" "ar_status a = ''success''"
      using evaluate_attempt_success [where zones = zones and entry = entry, OF assms(1), of night jobs artifacts run] c(1,2,7) window_delay [OF assms(2) c(3,4)] by blast
    have "expect_positive (dict_get run ''id'') ''run.id'' = Inr run_id" using c(7) unfolding fulfilled_def by simp
    then have "inspect_run zones entry night list_jobs list_artifacts run = Inr (Some (started, a))"
      unfolding inspect_run_def found c(1,2) bindE_Inr using c(3-6) a(1) by simp
    then show ?run using a(2) by blast
  qed (use inspected in blast)
  show "ar_started a = started \<and> dict_get run ''id'' = JInt (ar_run_id a)"
    if "inspect_run zones entry night list_jobs list_artifacts run = Inr (Some (started, a))" "ar_status a = ''success''"
    using inspected [OF that] by blast
qed

text \<open>What the loop over the runs collects.\<close>

definition recorded :: "('r \<Rightarrow> 'a option result) \<Rightarrow> 'r list \<Rightarrow> 'a list" where
  "recorded inspect runs = List.map_filter (\<lambda>run. case inspect run of Inr (Some a) \<Rightarrow> Some a | _ \<Rightarrow> None) runs"

lemma set_recorded: "a \<in> set (recorded inspect runs) \<longleftrightarrow> (\<exists>run \<in> set runs. inspect run = Inr (Some a))"
proof (induction runs)
  case (Cons run runs)
  have "(case inspect run of Inr (Some a) \<Rightarrow> Some a | _ \<Rightarrow> None) = Some b \<longleftrightarrow> inspect run = Inr (Some b)" for b
    by (simp split: sum.split option.split)
  then show ?case
    using Cons by (cases "case inspect run of Inr (Some a) \<Rightarrow> Some a | _ \<Rightarrow> None") (auto simp: recorded_def map_filter_simps)
qed (simp add: recorded_def map_filter_simps)

lemma collect_runs:
  assumes "foldE (collect_run inspect) (as, n) runs = Inr (bs, k)"
  shows "bs = as @ recorded inspect runs \<and> n \<le> k \<and> (k = n \<longleftrightarrow> (\<forall>run \<in> set runs. \<forall>m. inspect run \<noteq> Inl (Err m)))"
  using assms
proof (induction runs arbitrary: as n)
  case (Cons run runs)
  obtain mid where mid: "collect_run inspect (as, n) run = Inr mid" and rest: "foldE (collect_run inspect) mid runs = Inr (bs, k)"
    using Cons.prems by (simp only: foldE.simps) (elim bindE_InrE)
  obtain as' n' where pair: "mid = (as', n')" by (cases mid)
  note IH = Cons.IH [OF rest [unfolded pair]]
  consider m where "inspect run = Inl (Err m)" "as' = as" "n' = Suc n" | "inspect run = Inr None" "as' = as" "n' = n"
    | a where "inspect run = Inr (Some a)" "as' = as @ [a]" "n' = n"
    using mid unfolding pair by (auto simp: collect_run_def split: sum.splits option.splits py_exc.splits)
  then show ?case
  proof cases
    case 1
    then show ?thesis using IH by (auto simp: recorded_def map_filter_simps)
  qed (use IH in \<open>auto simp: recorded_def map_filter_simps\<close>)
qed (simp add: recorded_def map_filter_simps)

lemma last_sorted:
  assumes "ys \<noteq> []" and "sorted (map f ys)" and "y \<in> set ys"
  shows "f y \<le> f (last ys)"
  using assms by (induction ys rule: rev_induct) (auto simp: sorted_append)


lemma night_reasons_Nil:
  "night_reasons early ordered successful errors = [] \<longleftrightarrow> \<not> early \<and> ordered \<noteq> [] \<and> successful \<noteq> [] \<and> errors = 0"
  by (simp add: night_reasons_def)

lemma night_dates:
  assumes "find_night zones moment entry explicit = Inr night" and "zones (je_timezone entry) = Zone zone" and "sound_entry zones entry"
    and "valid_datetime moment" and "\<bar>zone (instant moment)\<bar> < usec_per_day"
  shows "valid_datetime (ln_scheduled night)"
    and "instant (ln_latest night) = instant (ln_scheduled night) + je_max_delay entry * usec_per_minute"
    and "instant (ln_settlement night) = instant (ln_scheduled night) + je_settlement entry * usec_per_minute"
proof -
  have minutes: "0 \<le> je_max_delay entry" "je_max_delay entry \<le> 1440" "0 \<le> je_settlement entry" "je_settlement entry \<le> 1440"
    using assms(3) unfolding sound_entry_def by linarith+
  obtain local hour minute where local: "to_zone zone moment = Inr local" and clock: "parse_clock (je_local_time entry) = Inr (hour, minute)"
    and date: "night_date local hour minute (je_settlement entry) explicit = Inr (ln_date night)"
    and start: "ln_scheduled night = wall_clock (ln_date night) hour minute"
    and sums: "plus_minutes (ln_scheduled night) (je_max_delay entry) = Inr (ln_latest night)"
      "plus_minutes (ln_scheduled night) (je_settlement entry) = Inr (ln_settlement night)"
    using find_nightE [OF assms(1,2)] .
  have valid: "valid_datetime local" using to_zone_exact(1) [OF local assms(4,5)] .
  have hm: "hour < 24" "minute < 60" using parse_clock_bounds [OF clock] by simp_all
  have "valid_datetime (wall_clock (ln_date night) hour minute)"
  proof (cases "explicit = None \<or> explicit = Some []")
    case True
    show ?thesis using night_of_today(1) [OF valid hm minutes(3,4) date True refl] .
  next
    case False
    then have "explicit \<noteq> None \<and> explicit \<noteq> Some []" by simp
    then have "date_fromisoformat (the explicit) = Some (ln_date night)"
      using date unfolding night_date_def by (simp only: if_True) (simp split: option.splits)
    moreover obtain y m d where "ln_date night = (y, m, d)" by (cases "ln_date night")
    ultimately have "ln_date night = (y, m, d)" "valid_date y m d"
      by (auto simp: date_fromisoformat_def Let_def split: if_splits option.splits)
    then show ?thesis using wall_clock_instant(1) hm by simp
  qed
  then show valid: "valid_datetime (ln_scheduled night)" using start by simp
  show "instant (ln_latest night) = instant (ln_scheduled night) + je_max_delay entry * usec_per_minute"
    using plus_minutesD(2) [OF sums(1) valid minutes(1,2)] .
  show "instant (ln_settlement night) = instant (ln_scheduled night) + je_settlement entry * usec_per_minute"
    using plus_minutesD(2) [OF sums(2) valid minutes(3,4)] .
qed

section \<open>Properties\<close>

text \<open>
  C37. The night the watchdog chooses by itself is the last one that has settled on the wall clock of the job: less
  than a day has passed since its settlement, and the settlement has passed unless the schedule and the minutes of the
  settlement reach into the next day and the local time is still before them. Its dispatch window and its
  settlement lie the minutes of the entry after the schedule.
\<close>

theorem night_exact:
  assumes "find_night zones now entry explicit = Inr night" and "explicit = None \<or> explicit = Some []"
    and "sound_entry zones entry" and "zones (je_timezone entry) = Zone zone" and "valid_datetime now" and "\<bar>zone (instant now)\<bar> < usec_per_day"
  shows "\<exists>local hour minute. to_zone zone now = Inr local \<and> instant local = instant now + zone (instant now) \<and>
    parse_clock (je_local_time entry) = Inr (hour, minute) \<and> ln_scheduled night = wall_clock (ln_date night) hour minute \<and>
    instant (ln_latest night) = instant (ln_scheduled night) + je_max_delay entry * usec_per_minute \<and>
    instant (ln_settlement night) = instant (ln_scheduled night) + je_settlement entry * usec_per_minute \<and>
    instant local < instant (ln_settlement night) + usec_per_day \<and>
    (instant (ln_settlement night) \<le> instant local \<or>
     usec_of_day local < (int hour * 60 + int minute + je_settlement entry - 1440) * usec_per_minute)"
proof -
  obtain local hour minute where n: "to_zone zone now = Inr local" "parse_clock (je_local_time entry) = Inr (hour, minute)"
    "night_date local hour minute (je_settlement entry) explicit = Inr (ln_date night)" "ln_scheduled night = wall_clock (ln_date night) hour minute"
    using find_nightE [OF assms(1,4)] .
  have minutes: "0 \<le> je_settlement entry" "je_settlement entry \<le> 1440" using assms(3) unfolding sound_entry_def by linarith+
  note dates = night_dates [OF assms(1,4,3,5,6)]
  have due: "instant (ln_settlement night) = instant (wall_clock (ln_date night) hour minute) + je_settlement entry * usec_per_minute"
    using dates(3) n(4) by simp
  show ?thesis
    using n dates to_zone_exact [OF n(1) assms(5,6)]
      night_of_today [OF to_zone_exact(1) [OF n(1) assms(5,6)] _ _ minutes n(3) assms(2) due] parse_clock_bounds [OF n(2)] by blast
qed

text \<open>
  C38. A report certifies the night exactly when its settlement has passed, none of the first thirty listed runs failed
  to be inspected, and one of them is certified: scheduled, on the branch, begun in the window, completed with
  success, with exactly one job of the name, successful, and exactly one artifact of each name, kept and not
  empty. The attempt it selects is the certified run that began last; there is one whenever a run is certified.
\<close>

theorem watchdog_report_exact:
  assumes "sound_entry zones entry" and "zones (je_timezone entry) = Zone zone" and "valid_datetime moment" and "\<forall>t. \<bar>zone t\<bar> < usec_per_day"
    and "find_night zones moment entry explicit = Inr night" and "build_report zones client entry night now = Inr r"
  shows "\<exists>runs local_now. rc_runs client (je_workflow entry) = Inr runs \<and> to_zone zone now = Inr local_now \<and>
    (wr_status r = ''success'' \<longleftrightarrow> instant (ln_settlement night) \<le> instant local_now \<and>
       (\<forall>run \<in> set (take 30 runs). \<forall>m. inspect_run zones entry night (rc_jobs client) (rc_artifacts client) run \<noteq> Inl (Err m)) \<and>
       (\<exists>run \<in> set (take 30 runs). \<exists>started. certified zone entry night (rc_jobs client) (rc_artifacts client) run started)) \<and>
    (wr_selected r = None \<longleftrightarrow>
       (\<forall>run \<in> set (take 30 runs). \<forall>started. \<not> certified zone entry night (rc_jobs client) (rc_artifacts client) run started)) \<and>
    (\<forall>a. wr_selected r = Some a \<longrightarrow>
       (\<exists>run \<in> set (take 30 runs). certified zone entry night (rc_jobs client) (rc_artifacts client) run (ar_started a) \<and>
          dict_get run ''id'' = JInt (ar_run_id a)) \<and>
       (\<forall>run \<in> set (take 30 runs). \<forall>started. certified zone entry night (rc_jobs client) (rc_artifacts client) run started \<longrightarrow>
          instant started \<le> instant (ar_started a)))"
proof -
  have latest: "instant (ln_latest night) = instant (ln_scheduled night) + je_max_delay entry * usec_per_minute"
    using night_dates(2) [OF assms(5,2,1,3)] assms(4) by blast
  define inspect where "inspect = inspect_run zones entry night (rc_jobs client) (rc_artifacts client)"
  define ok where "ok = certified zone entry night (rc_jobs client) (rc_artifacts client)"
  have exact: "(\<exists>a. inspect run = Inr (Some (started, a)) \<and> ar_status a = ''success'') \<longleftrightarrow> ok run started" for run started
    using inspect_success(1) [where zones = zones and entry = entry and night = night, OF assms(2) latest] unfolding inspect_def ok_def by blast
  have same: "ar_started a = started \<and> dict_get run ''id'' = JInt (ar_run_id a)"
    if "inspect run = Inr (Some (started, a))" "ar_status a = ''success''" for run started a
    using inspect_success(2) [where zones = zones and entry = entry and night = night, OF assms(2) latest] that unfolding inspect_def by blast
  have found: "find_zone zones (je_timezone entry) = Inr zone" using assms(2) by simp
  obtain runs attempts errors local_now where runs: "rc_runs client (je_workflow entry) = Inr runs"
    and loop: "foldE (collect_run inspect) ([], 0) (take 30 runs) = Inr (attempts, errors)" and local: "to_zone zone now = Inr local_now"
    and r: "(let ordered = map snd (sort_key (instant \<circ> fst) attempts); successful = filter (\<lambda>a. ar_status a = ''success'') ordered;
         selected = (if successful = [] then None else Some (last successful));
         reasons = night_reasons (instant local_now < instant (ln_settlement night)) ordered successful errors in
       \<lparr>wr_generated_at = now, wr_job_id = je_id entry, wr_workflow = je_workflow entry, wr_timezone = je_timezone entry,
       wr_night = night, wr_status = (if selected \<noteq> None \<and> reasons = [] then ''success'' else ''failure''),
       wr_selected = selected, wr_attempts = ordered, wr_inspection_errors = errors, wr_reasons = reasons\<rparr>) = r"
    using assms(6) unfolding build_report_def found inspect_def by (elim bindE_InrE) (auto simp: Let_def)
  define pairs where "pairs = sort_key (instant \<circ> fst) attempts"
  define good where "good = filter (\<lambda>p. ar_status (snd p) = ''success'') pairs"
  have successful: "filter (\<lambda>a. ar_status a = ''success'') (map snd pairs) = map snd good" by (simp add: good_def filter_map comp_def)
  have all: "attempts = recorded inspect (take 30 runs)" and clean_loop: "errors = 0 \<longleftrightarrow> (\<forall>run \<in> set (take 30 runs). \<forall>m. inspect run \<noteq> Inl (Err m))"
    using collect_runs [OF loop] by auto
  have member: "(started, a) \<in> set good \<longleftrightarrow> (\<exists>run \<in> set (take 30 runs). inspect run = Inr (Some (started, a))) \<and> ar_status a = ''success''" for started a
    unfolding good_def pairs_def by (simp add: all set_recorded)
  have some: "good \<noteq> [] \<longleftrightarrow> (\<exists>run \<in> set (take 30 runs). \<exists>started. ok run started)"
  proof -
    have "good \<noteq> [] \<longleftrightarrow> (\<exists>started a. (started, a) \<in> set good)" by (cases good) auto
    then show ?thesis unfolding member using exact by blast
  qed
  have sorted: "sorted (map (instant \<circ> fst) good)" unfolding good_def pairs_def by (rule sorted_filter) simp
  have selected: "wr_selected r = (if good = [] then None else Some (snd (last good)))"
    and status: "wr_status r = ''success'' \<longleftrightarrow> good \<noteq> [] \<and> instant (ln_settlement night) \<le> instant local_now \<and> errors = 0"
  proof -
    define reasons where "reasons = night_reasons (instant local_now < instant (ln_settlement night)) (map snd pairs) (map snd good) errors"
    have fields: "wr_selected r = (if map snd good = [] then None else Some (last (map snd good)))"
      "wr_status r = (if wr_selected r \<noteq> None \<and> reasons = [] then ''success'' else ''failure'')"
      using r unfolding Let_def pairs_def [symmetric] successful reasons_def [symmetric] by (auto simp only: watchdog_report.select_convs)
    then show "wr_selected r = (if good = [] then None else Some (snd (last good)))" by (simp add: last_map)
    have "pairs \<noteq> []" if "good \<noteq> []" using that by (auto simp: good_def)
    then have "good \<noteq> [] \<and> reasons = [] \<longleftrightarrow> good \<noteq> [] \<and> \<not> instant local_now < instant (ln_settlement night) \<and> errors = 0"
      unfolding reasons_def night_reasons_Nil by auto
    moreover have "wr_status r = ''success'' \<longleftrightarrow> good \<noteq> [] \<and> reasons = []" unfolding fields by simp
    ultimately show "wr_status r = ''success'' \<longleftrightarrow> good \<noteq> [] \<and> instant (ln_settlement night) \<le> instant local_now \<and> errors = 0"
      by (simp only: not_less)
  qed
  have best: "(\<exists>run \<in> set (take 30 runs). ok run (ar_started a) \<and> dict_get run ''id'' = JInt (ar_run_id a)) \<and>
      (\<forall>run \<in> set (take 30 runs). \<forall>started. ok run started \<longrightarrow> instant started \<le> instant (ar_started a))"
    if chosen: "wr_selected r = Some a" for a
  proof -
    have good: "good \<noteq> []" and a: "a = snd (last good)" using chosen selected by (auto split: if_splits)
    define started where "started = fst (last good)"
    have "(started, a) \<in> set good" using good by (simp add: a started_def)
    then obtain run where run: "run \<in> set (take 30 runs)" "inspect run = Inr (Some (started, a))" "ar_status a = ''success''" using member by blast
    have "instant s \<le> instant started" if here: "run' \<in> set (take 30 runs)" and fine: "ok run' s" for run' s
    proof -
      obtain b where "inspect run' = Inr (Some (s, b))" "ar_status b = ''success''" using exact fine by blast
      then have "(s, b) \<in> set good" using member here by blast
      then show ?thesis using last_sorted [OF good sorted] by (fastforce simp: started_def)
    qed
    then show ?thesis using run same [OF run(2,3)] exact by metis
  qed
  show ?thesis
    unfolding inspect_def [symmetric] ok_def [symmetric]
    using runs local status selected some clean_loop best by (intro exI [of _ runs] exI [of _ local_now]) auto
qed


section \<open>A sample night\<close>

definition sample_zones :: "string \<Rightarrow> zone_answer" where
  "sample_zones name = (if name = ''America/Lima'' then Zone (\<lambda>_. - 18000000000) else ZoneNotFound)"

definition sample_job :: job_entry where
  "sample_job = \<lparr>je_id = ''recent-chat-reconciliation'', je_workflow = ''last-30-hours-introspection.yml'', je_branch = ''main'',
     je_timezone = ''America/Lima'', je_local_time = ''00:30'', je_max_delay = 240, je_settlement = 315,
     je_execution_job = ''enqueue-and-verify'', je_run_key_prefix = ''recent-chat-reconciliation'', je_terminal_prefix = ''terminal-'',
     je_report_prefix = ''report-'', je_terminal_file = ''terminal.json'', je_terminal_schema = ''recent_chat_reconciliation_receipt.v1'',
     je_ledger_file = ''run-ledger.json'', je_markdown_file = ''report.md''\<rparr>"

definition august :: "nat \<Rightarrow> nat \<Rightarrow> datetime" where
  "august h m = make_datetime (2026, 8, 10) (h, m, 0, 0)"

definition sample_night :: logical_night where
  "sample_night = \<lparr>ln_date = (2026, 8, 10), ln_scheduled = august 0 30, ln_latest = august 4 30, ln_settlement = august 5 45,
     ln_run_key = ''recent-chat-reconciliation:scheduled:'' @ isoformat_date (2026, 8, 10)\<rparr>"

definition sample_run :: pydict where
  "sample_run = [(''id'', JInt 42), (''run_attempt'', JInt 1), (''event'', JStr ''schedule''), (''status'', JStr ''completed''),
     (''conclusion'', JStr ''success''), (''head_branch'', JStr ''main''), (''run_started_at'', JStr ''2026-08-10T05:34:00+00:00'')]"

definition sample_items :: run_client where
  "sample_items = \<lparr>rc_runs = (\<lambda>_. Inr [sample_run]),
     rc_jobs = (\<lambda>_. Inr [[(''name'', JStr ''enqueue-and-verify''), (''status'', JStr ''completed''), (''conclusion'', JStr ''success'')]]),
     rc_artifacts = (\<lambda>_. Inr [[(''id'', JInt 101), (''name'', JStr ''terminal-42-1''), (''expired'', JBool False), (''size_in_bytes'', JInt 1024)],
       [(''id'', JInt 102), (''name'', JStr ''report-42-1''), (''expired'', JBool False), (''size_in_bytes'', JInt 2048)]])\<rparr>"

lemma sample_clock: "parse_clock ''00:30'' = Inr (0, 30)"
  by code_simp

lemma sample_job_sound: "sound_entry sample_zones sample_job"
proof -
  show ?thesis using sample_clock by (simp add: sound_entry_def sample_job_def sample_zones_def)
qed

lemma sample_zone: "sample_zones (je_timezone sample_job) = Zone (\<lambda>_. - 18000000000)"
  by (simp add: sample_zones_def sample_job_def)

lemma august_valid: "h < 24 \<Longrightarrow> m < 60 \<Longrightarrow> valid_datetime (august h m)"
  by (simp add: august_def make_datetime_def valid_datetime_def valid_date_def days_in_month_def)

lemma august_instant: "instant (august h m) = ymd2ord 2026 8 10 * usec_per_day + (int h * 60 + int m) * usec_per_minute"
  by (simp add: august_def instant_make) (simp add: make_datetime_def usec_of_day_def usec_per_minute_def)

lemma august_dates:
  "to_zone (\<lambda>_. - 18000000000) (august 11 0) = Inr (august 6 0)" "to_zone (\<lambda>_. - 18000000000) (august 5 34) = Inr (august 0 34)"
  "plus_minutes (august 0 30) 240 = Inr (august 4 30)" "plus_minutes (august 0 30) 315 = Inr (august 5 45)"
  by (simp_all add: to_zone_def plus_minutes_def to_utc_def august_def make_datetime_def usec_of_day_def split_usec_def
      usec_per_day_def usec_per_minute_def)

lemma sample_night_found: "find_night sample_zones (august 11 0) sample_job None = Inr sample_night"
proof -
  have zone: "find_zone sample_zones (je_timezone sample_job) = Inr (\<lambda>_. - 18000000000)" using sample_zone by simp
  have fields: "je_local_time sample_job = ''00:30''" "je_settlement sample_job = 315" "je_max_delay sample_job = 240"
    "je_run_key_prefix sample_job = ''recent-chat-reconciliation''" by (simp_all add: sample_job_def)
  have wall: "wall_clock (2026, 8, 10) 0 30 = august 0 30" "date_of (august 6 0) = (2026, 8, 10)"
    by (simp_all add: wall_clock_def august_def date_of_def make_datetime_def)
  have "instant (august 5 45) \<le> instant (august 6 0)" by (simp add: august_instant usec_per_minute_def)
  then have date: "night_date (august 6 0) 0 30 315 None = Inr (2026, 8, 10)"
    by (simp add: night_date_def wall august_dates)
  show ?thesis
    unfolding find_night_def zone fields sample_clock august_dates bindE_Inr prod.case date Let_def wall
    by (simp add: sample_night_def)
qed

lemma night_exact_witness:
  "instant (ln_settlement sample_night) \<le> instant (august 11 0) - 18000000000 \<and>
   instant (august 11 0) - 18000000000 < instant (ln_settlement sample_night) + usec_per_day"
proof -
  obtain local hour minute where n: "instant local = instant (august 11 0) + (- 18000000000)"
    "parse_clock (je_local_time sample_job) = Inr (hour, minute)"
    "instant local < instant (ln_settlement sample_night) + usec_per_day"
    "instant (ln_settlement sample_night) \<le> instant local \<or>
     usec_of_day local < (int hour * 60 + int minute + je_settlement sample_job - 1440) * usec_per_minute" "to_zone (\<lambda>_. - 18000000000) (august 11 0) = Inr local"
    using night_exact [OF sample_night_found _ sample_job_sound sample_zone august_valid [of 11 0]] by (auto simp: usec_per_day_def)
  have "parse_clock (je_local_time sample_job) = Inr (0, 30)" using sample_clock by (simp add: sample_job_def)
  then have "hour = 0" "minute = 30" using n(2) by simp_all
  moreover have "valid_datetime local" using to_zone_exact(1) [OF n(5) august_valid [of 11 0]] by (simp add: usec_per_day_def)
  ultimately show ?thesis
    using n(1,3,4) usec_of_day_bounds [of local] by (auto simp: sample_job_def usec_per_minute_def)
qed

lemma sample_started: "run_started sample_run = Inr (august 5 34)"
proof -
  have digits: "digit_char 0 = CHR ''0''" "digit_char 2 = CHR ''2''" "digit_char 6 = CHR ''6''" "digit_char 8 = CHR ''8''"
    "digit_char (Suc 0) = CHR ''1''" "digit_char 3 = CHR ''3''" "digit_char 4 = CHR ''4''" "digit_char 5 = CHR ''5''"
    by code_simp+
  have shown: "isoformat_utc (august 5 34) = ''2026-08-10T05:34:00+00:00''"
    by (simp add: isoformat_utc_def isoformat_naive_def august_def make_datetime_def four_digits_def two_digits_def digits)
  have "expect_text (JStr ''2026-08-10T05:34:00+00:00'') ''run.started_at'' 64 = Inr ''2026-08-10T05:34:00+00:00''" by code_simp
  moreover have "to_utc (august 5 34) 0 = Inr (august 5 34)"
    by (simp add: to_utc_def august_def make_datetime_def usec_of_day_def split_usec_def usec_per_day_def)
  then have "parse_instant ''2026-08-10T05:34:00+00:00'' = Inr (august 5 34)"
    using fromisoformat_canonical [OF august_valid [of 5 34]] by (simp add: parse_instant_def shown)
  ultimately show ?thesis by (simp add: run_started_def either_field_def sample_run_def falsy_def)
qed

lemma sample_artifact_names:
  "artifact_name ''terminal-'' 42 1 = ''terminal-42-1''" "artifact_name ''report-'' 42 1 = ''report-42-1''"
  by code_simp+

lemma sample_certified:
  "certified (\<lambda>_. - 18000000000) sample_job sample_night (rc_jobs sample_items) (rc_artifacts sample_items) sample_run (august 5 34)"
proof -
  obtain jobs where jobs: "rc_jobs sample_items 42 = Inr jobs" "sole jobs ''enqueue-and-verify'' (hd jobs)" "succeeded (hd jobs)"
    by (simp add: sample_items_def sole_def succeeded_def)
  obtain artifacts where artifacts: "rc_artifacts sample_items 42 = Inr artifacts" "sole artifacts ''terminal-42-1'' (artifacts ! 0)"
    "sole artifacts ''report-42-1'' (artifacts ! 1)" "kept (artifacts ! 0)" "kept (artifacts ! 1)"
    by (simp add: sample_items_def sole_def kept_def sized_def)
  have "fulfilled sample_job jobs artifacts sample_run 42 1"
    unfolding fulfilled_def using jobs(2,3) artifacts(2-5) sample_artifact_names
    by (auto simp: sample_job_def sample_run_def succeeded_def dict_get_default_def)
  moreover have "instant (august 0 30) \<le> instant (august 0 34)" "instant (august 0 34) \<le> instant (august 4 30)"
    by (simp_all add: august_instant usec_per_minute_def)
  ultimately show ?thesis
    unfolding certified_def using sample_started august_dates(2) jobs(1) artifacts(1) by (auto simp: sample_night_def)
qed

lemma sample_latest: "instant (ln_latest sample_night) = instant (ln_scheduled sample_night) + je_max_delay sample_job * usec_per_minute"
  by (simp add: sample_night_def sample_job_def august_instant usec_per_minute_def)

lemma sample_report: "\<exists>r. build_report sample_zones sample_items sample_job sample_night (august 11 0) = Inr r \<and> wr_status r = ''success''"
proof -
  obtain a where a: "inspect_run sample_zones sample_job sample_night (rc_jobs sample_items) (rc_artifacts sample_items) sample_run
      = Inr (Some (august 5 34, a))" "ar_status a = ''success''"
    using inspect_success(1) [where zones = sample_zones and entry = sample_job and night = sample_night, OF sample_zone sample_latest]
      sample_certified by blast
  have zone: "find_zone sample_zones (je_timezone sample_job) = Inr (\<lambda>_. - 18000000000)" using sample_zone by simp
  have runs: "rc_runs sample_items (je_workflow sample_job) = Inr [sample_run]" by (simp add: sample_items_def)
  have "\<not> instant (august 6 0) < instant (ln_settlement sample_night)" by (simp add: sample_night_def august_instant usec_per_minute_def)
  then show ?thesis
    unfolding build_report_def runs zone august_dates bindE_Inr
    by (simp add: a collect_run_def night_reasons_def)
qed

lemma watchdog_report_exact_witness:
  "\<exists>r a. build_report sample_zones sample_items sample_job sample_night (august 11 0) = Inr r \<and> wr_selected r = Some a \<and>
     ar_run_id a = 42 \<and> certified (\<lambda>_. - 18000000000) sample_job sample_night (rc_jobs sample_items) (rc_artifacts sample_items) sample_run (ar_started a)"
proof -
  obtain r where r: "build_report sample_zones sample_items sample_job sample_night (august 11 0) = Inr r" "wr_status r = ''success''"
    using sample_report by blast
  have bound: "\<forall>t::int. \<bar>- 18000000000 :: int\<bar> < usec_per_day" by (simp add: usec_per_day_def)
  have runs: "rc_runs sample_items (je_workflow sample_job) = Inr [sample_run]" by (simp add: sample_items_def)
  obtain a where a: "wr_selected r = Some a"
      "certified (\<lambda>_. - 18000000000) sample_job sample_night (rc_jobs sample_items) (rc_artifacts sample_items) sample_run (ar_started a)"
      "dict_get sample_run ''id'' = JInt (ar_run_id a)"
    using watchdog_report_exact [OF sample_job_sound sample_zone august_valid [of 11 0] bound sample_night_found r(1)] r(2)
    unfolding runs by fastforce
  then have "ar_run_id a = 42" by (simp add: sample_run_def)
  then show ?thesis using r(1) a by blast
qed


text \<open>
  The minutes of an attempt are those of the wall clock: where the clocks are put back an hour between two starts an
  hour apart, both have the same local date, and the same delay.
\<close>

lemma repeated_hour:
  assumes "valid_datetime s" and "valid_datetime t" and "\<forall>u. \<bar>zone u\<bar> < usec_per_day" and "instant t = instant s + 60 * usec_per_minute"
    and "zone (instant t) = zone (instant s) - 60 * usec_per_minute" and "to_zone zone s = Inr a" and "to_zone zone t = Inr b"
  shows "delay_minutes night a = delay_minutes night b"
proof -
  have "instant a = instant b"
    using to_zone_exact(2) [OF assms(6,1)] to_zone_exact(2) [OF assms(7,2)] assms(3-5) by simp
  then show ?thesis by (simp add: delay_minutes_def)
qed

section \<open>What may be raised\<close>

text \<open>The exceptions of the watchdog: its own, dates that overflow, and the keys \<^verbatim>\<open>ZoneInfo\<close> refuses.\<close>

definition watchdog_exceptions :: "(string \<Rightarrow> zone_answer) \<Rightarrow> py_exc set" where
  "watchdog_exceptions zones = {e. (\<exists>m. e = Err m) \<or> e = OverflowError \<or> e = ValueError \<and> (\<exists>name. zones name = ZoneKeyInvalid)}"

lemma raises_refuses: "refuses m \<Longrightarrow> raises (watchdog_exceptions zones) m"
  by (auto simp: refuses_def raises_def watchdog_exceptions_def)

lemma raises_only_Err: "only_Err m \<Longrightarrow> raises (watchdog_exceptions zones) m"
  by (intro raises_refuses only_Err_refuses)

lemma raises_Err [raises_intros]: "raises (watchdog_exceptions zones) (Inl (Err m))" "raises (watchdog_exceptions zones) (Inr x)"
  by (simp_all add: raises_def watchdog_exceptions_def)

lemma raises_require [raises_intros]: "raises (watchdog_exceptions zones) (require b m)"
  by (simp add: raises_only_Err only_Err_require)

lemma raises_find_zone [raises_intros]: "raises (watchdog_exceptions zones) (find_zone zones name)"
  by (auto simp: raises_def watchdog_exceptions_def find_zone_def split: zone_answer.splits)

lemma raises_days [raises_intros]:
  "raises (watchdog_exceptions zones) (prev_day date)" "raises (watchdog_exceptions zones) (next_day date)"
  by (cases date; simp add: raises_def watchdog_exceptions_def prev_day_def next_day_def)+

lemma raises_to_utc [raises_intros]: "raises (watchdog_exceptions zones) (to_utc t off)"
  unfolding to_utc_def Let_def by (intro raises_intros)

lemma raises_dates [raises_intros]:
  "raises (watchdog_exceptions zones) (to_zone zone t)" "raises (watchdog_exceptions zones) (plus_minutes t n)"
  unfolding to_zone_def plus_minutes_def by (rule raises_to_utc)+

lemma only_Err_json: "(\<And>d. only_Err (f d)) \<Longrightarrow> only_Err g \<Longrightarrow> only_Err (case x of JObj d \<Rightarrow> f d | _ \<Rightarrow> g)"
  "(\<And>s. only_Err (h s)) \<Longrightarrow> only_Err g \<Longrightarrow> only_Err (case x of JStr s \<Rightarrow> h s | _ \<Rightarrow> g)"
  "(\<And>i. only_Err (k i)) \<Longrightarrow> only_Err g \<Longrightarrow> only_Err (case x of JInt i \<Rightarrow> k i | _ \<Rightarrow> g)"
  "(\<And>xs. only_Err (l xs)) \<Longrightarrow> only_Err g \<Longrightarrow> only_Err (case x of JArr xs \<Rightarrow> l xs | _ \<Rightarrow> g)"
  by (cases x; simp)+

lemma only_Err_mapE: "(\<And>x. only_Err (f x)) \<Longrightarrow> only_Err (mapE f xs)"
  by (induction xs) (auto intro!: only_Err_intros)

lemma only_Err_fields:
  "only_Err (expect_text v field n)" "only_Err (expect_objects v field)" "only_Err (minutes_between v field lo hi)"
  "only_Err (expect_object v field)" "only_Err (expect_natural v field)"
  unfolding expect_text_def expect_objects_def minutes_between_def expect_object_def expect_natural_def Let_def
  by (intro only_Err_json only_Err_mapE only_Err_intros)+

lemma only_Err_parse_clock: "only_Err (parse_clock value)"
  unfolding parse_clock_def by (auto intro!: only_Err_intros split: prod.split)

lemma only_Err_unique_named: "only_Err (unique_named items name kind)"
  unfolding unique_named_def by (auto intro!: only_Err_intros split: list.split)

lemma only_Err_select_entry: "only_Err (select_entry entries job_id)"
  unfolding select_entry_def by (auto intro!: only_Err_intros split: list.split)

lemmas raises_fields [raises_intros] = only_Err_fields [THEN raises_only_Err] only_Err_parse_clock [THEN raises_only_Err]
  only_Err_unique_named [THEN raises_only_Err] only_Err_select_entry [THEN raises_only_Err] only_Err_expect(3) [THEN raises_only_Err]

lemma raises_parse_instant [raises_intros]: "raises (watchdog_exceptions zones) (parse_instant value)"
proof -
  have "raises (watchdog_exceptions zones) (case x of None \<Rightarrow> Inl (Err a) | Some (parsed, None) \<Rightarrow> Inl (Err b)
      | Some (parsed, Some off) \<Rightarrow> to_utc parsed off)" for x :: "(datetime \<times> int option) option" and a b
    by (auto split: option.split intro: raises_intros)
  then show ?thesis unfolding parse_instant_def Let_def .
qed

lemma raises_run_started [raises_intros]: "raises (watchdog_exceptions zones) (run_started run)"
  unfolding run_started_def by (intro raises_intros)

lemma raises_load_entry [raises_intros]: "raises (watchdog_exceptions zones) (load_entry zones seen raw)"
  unfolding load_entry_def Let_def by (intro raises_intros)

lemma raises_foldE: "(\<And>s x. raises E (f s x)) \<Longrightarrow> raises E (foldE f s xs)"
  by (induction xs arbitrary: s) (auto simp: raises_def bindE_eq_Inl_iff)

lemma raises_load_catalog [raises_intros]: "raises (watchdog_exceptions zones) (load_catalog zones document)"
  unfolding load_catalog_def by (intro raises_foldE raises_intros)

lemma raises_night_date [raises_intros]: "raises (watchdog_exceptions zones) (night_date local hour minute settlement explicit)"
  unfolding night_date_def by (intro raises_intros)

lemma raises_find_night [raises_intros]: "raises (watchdog_exceptions zones) (find_night zones now entry explicit)"
  unfolding find_night_def Let_def by (intro raises_intros)

lemma raises_evaluate [raises_intros]: "raises (watchdog_exceptions zones) (evaluate_attempt zones entry night jobs artifacts run)"
  unfolding evaluate_attempt_def Let_def by (intro raises_intros)

text \<open>The listings a client reads: they raise nothing but the watchdog's own exception.\<close>

locale listings =
  fixes list_jobs :: "int \<Rightarrow> pydict list result"
    and list_artifacts :: "int \<Rightarrow> pydict list result"
  assumes jobs_refused: "only_Err (list_jobs run_id)"
    and artifacts_refused: "only_Err (list_artifacts run_id)"
begin

lemma inspection_raises: "raises (watchdog_exceptions zones) (inspect_run zones entry night list_jobs list_artifacts run)"
  unfolding inspect_run_def
  by (intro raises_intros raises_only_Err [OF jobs_refused] raises_only_Err [OF artifacts_refused])

lemma collection_raises:
  "raises (watchdog_exceptions zones) (foldE (collect_run (inspect_run zones entry night list_jobs list_artifacts)) found runs)"
proof (rule raises_foldE)
  fix s :: "(datetime \<times> attempt_report) list \<times> nat" and run
  show "raises (watchdog_exceptions zones) (collect_run (inspect_run zones entry night list_jobs list_artifacts) s run)"
    using inspection_raises [of zones entry night run]
    by (auto simp: collect_run_def raises_def watchdog_exceptions_def split: sum.splits option.splits py_exc.splits)
qed

end

interpretation snapshot: listings "snapshot_items jobs job_field" "snapshot_items artifacts artifact_field"
  for jobs job_field artifacts artifact_field
  by unfold_locales (simp_all add: snapshot_items_def only_Err_fields)

text \<open>
  C39. The report that \<^verbatim>\<open>locate\<close> makes from a snapshot, up to the writing of its outputs. Making it raises nothing but
  \<^verbatim>\<open>WatchdogError\<close>; \<^verbatim>\<open>OverflowError\<close> for a date that leaves the years 1 to 9999; \<^verbatim>\<open>ValueError\<close>, only where \<^verbatim>\<open>ZoneInfo\<close>
  refuses a key, or the catalog or the snapshot is not UTF-8 or holds an integer too long for the interpreter; and
  \<^verbatim>\<open>RecursionError\<close>, only where one of them is nested too deeply for the parser. A report is for the one entry of the
  catalog with the identifier, under a sound entry.
\<close>

theorem locate_exceptions:
  "(locate_report zones catalog job_id clock now_text explicit snapshot = Inl e \<longrightarrow>
      (\<exists>m. e = Err m) \<or> e = OverflowError \<or>
      e = ValueError \<and> ((\<exists>name. zones name = ZoneKeyInvalid) \<or> undecodable catalog \<or> undecodable snapshot) \<or>
      e = RecursionError \<and> (catalog = Content TooDeep \<or> snapshot = Content TooDeep)) \<and>
   (locate_report zones catalog job_id clock now_text explicit snapshot = Inr r \<longrightarrow>
      (\<exists>document entries entry. catalog = Content (Parsed (JObj document)) \<and> load_catalog zones document = Inr entries \<and>
         sound_entry zones entry \<and> wr_job_id r = job_id \<and> {e \<in> set entries. je_id e = job_id} = {entry}))"
proof -
  define E where "E = watchdog_exceptions zones \<union> reading_exceptions [catalog, snapshot]"
  have built: "raises (watchdog_exceptions zones) (build_report zones client entry night now)" if "snapshot_client payload = Inr client"
    for client entry night now payload
  proof -
    obtain runs jobs artifacts where client: "client = \<lparr>rc_runs = (\<lambda>_. Inr runs), rc_jobs = snapshot_items jobs ''jobs_by_run'',
       rc_artifacts = snapshot_items artifacts ''artifacts_by_run''\<rparr>"
      using \<open>snapshot_client payload = Inr client\<close> unfolding snapshot_client_def by (elim bindE_InrE) (simp only: sum.inject, metis)
    show ?thesis unfolding build_report_def client run_client.select_convs Let_def
      by (intro raises_intros snapshot.collection_raises)
  qed
  have wide: "raises E m" if "raises (watchdog_exceptions zones) m" for m :: "'x result"
    using that unfolding E_def by (rule raises_mono) blast
  have files: "raises E (read_json catalog f)" "raises E (read_json snapshot f)" for f
    unfolding E_def by (rule raises_mono [OF read_json_raises]; auto)+
  have client: "raises (watchdog_exceptions zones) (snapshot_client payload)" for payload
    unfolding snapshot_client_def by (intro raises_intros)
  have "raises (watchdog_exceptions zones) (case now_text of None \<Rightarrow> Inr clock | Some value \<Rightarrow> parse_instant value)"
    by (intro raises_intros)
  then have "raises E (locate_report zones catalog job_id clock now_text explicit snapshot)"
    unfolding locate_report_def
    by (intro raises_bindE files wide [OF raises_load_catalog] wide [OF only_Err_select_entry [THEN raises_only_Err]] wide [OF raises_find_night] wide [OF client]
        wide [OF built] | assumption | rule wide)+
  moreover have "\<exists>document entries entry. catalog = Content (Parsed (JObj document)) \<and> load_catalog zones document = Inr entries \<and>
      sound_entry zones entry \<and> wr_job_id r = job_id \<and> {e \<in> set entries. je_id e = job_id} = {entry}"
    if "locate_report zones catalog job_id clock now_text explicit snapshot = Inr r"
  proof -
    obtain document entries entry now night client where run: "read_json catalog ''watchdog catalog'' = Inr document"
        "load_catalog zones document = Inr entries" "select_entry entries job_id = Inr entry"
        "build_report zones client entry night now = Inr r"
      using \<open>locate_report _ _ _ _ _ _ _ = Inr r\<close> unfolding locate_report_def by (elim bindE_InrE)
    note entries = load_catalog_sound [OF run(2)]
    have chosen: "x \<in> set entries \<and> je_id x = job_id \<longleftrightarrow> x = entry" for x
      using select_entry_iff [OF entries(2), of job_id] run(3) by (metis sum.inject(2))
    have "wr_job_id r = je_id entry" using run(4) unfolding build_report_def Let_def by (elim bindE_InrE) (auto elim!: bindE_InrE)
    moreover have "sound_entry zones entry" using entries(1) chosen [of entry] by (simp add: list_all_iff)
    moreover have "{e \<in> set entries. je_id e = job_id} = {entry}" "je_id entry = job_id" using chosen by auto
    moreover have "catalog = Content (Parsed (JObj document))" using run(1) by simp
    ultimately show ?thesis using run(2) by blast
  qed
  moreover have "(\<exists>m. e = Err m) \<or> e = OverflowError \<or>
      e = ValueError \<and> ((\<exists>name. zones name = ZoneKeyInvalid) \<or> undecodable catalog \<or> undecodable snapshot) \<or>
      e = RecursionError \<and> (catalog = Content TooDeep \<or> snapshot = Content TooDeep)" if "e \<in> E"
    using that by (auto simp: E_def watchdog_exceptions_def reading_exceptions_def)
  ultimately show ?thesis unfolding raises_def by blast
qed

definition odd_catalog :: pydict where
  "odd_catalog = [(''schema_version'', JStr ''overnight_jobs.v2''), (''jobs'', JArr [JObj [(''id'', JStr ''nightly''),
     (''workflow'', JStr ''nightly.yml''), (''branch'', JStr ''main''), (''timezone'', JStr ''/etc'')]])]"

lemma locate_exceptions_witness:
  "locate_report (\<lambda>_. ZoneKeyInvalid) (Content (Parsed (JObj odd_catalog))) ''nightly'' (august 11 0) None None NotRegular = Inl ValueError \<and>
   (\<exists>name. (\<lambda>_. ZoneKeyInvalid) (name :: string) = ZoneKeyInvalid)"
proof -
  have texts: "expect_text (JStr ''nightly'') ''job.id'' 80 = Inr ''nightly''" "expect_text (JStr ''nightly.yml'') f 160 = Inr ''nightly.yml''"
    "expect_text (JStr ''main'') f 255 = Inr ''main''" "expect_text (JStr ''/etc'') f 100 = Inr ''/etc''" "is_yaml_name ''nightly.yml''" for f
    by (simp_all add: expect_text_def strip_def is_yaml_name_def is_space_def code_def)
  have "load_catalog (\<lambda>_. ZoneKeyInvalid) odd_catalog = Inl ValueError"
    by (simp add: load_catalog_def odd_catalog_def expect_objects_def load_entry_def texts find_zone_def)
  then have "locate_report (\<lambda>_. ZoneKeyInvalid) (Content (Parsed (JObj odd_catalog))) ''nightly'' (august 11 0) None None NotRegular = Inl ValueError"
    by (simp add: locate_report_def read_json_def expect_object_def)
  with locate_exceptions [of "\<lambda>_. ZoneKeyInvalid" "Content (Parsed (JObj odd_catalog))" "''nightly''" "august 11 0" None None NotRegular ValueError]
  show ?thesis by simp
qed

text \<open>A finding: what the interpreter raises while a file is read passes the handlers of the module.\<close>

lemma undecodable_catalog_escapes:
  "locate_report zones NotText job_id clock now_text explicit snapshot = Inl ValueError"
  "locate_report zones (Content LongInteger) job_id clock now_text explicit snapshot = Inl ValueError"
  "locate_report zones (Content TooDeep) job_id clock now_text explicit snapshot = Inl RecursionError"
  by (simp_all add: locate_report_def read_json_def)

end
