(* ===== verification/WatchdogEvidence.thy ===== *)
theory WatchdogEvidence
  imports OvernightWatchdog
begin

text \<open>
  The second step of the watchdog, \<^verbatim>\<open>validate_evidence\<close> of \<^verbatim>\<open>src/tools/overnight_job_watchdog.py\<close>: the
  downloaded receipt, ledger and report of the run the report selected must agree with one another and say that
  the work of the night is complete.

  Files are read as in \<open>OvernightWatchdog\<close>. The tests of the directory are outside of every handler: their answer is
  an argument that may be an exception.
\<close>

section \<open>The report\<close>

definition read_markdown :: "string reading \<Rightarrow> string result" where
  "read_markdown found = (case found of
      NotRegular \<Rightarrow> Inl (Err ''report markdown is not a regular file'')
    | TooLarge \<Rightarrow> Inl (Err ''report markdown exceeded the size limit'')
    | Unreadable \<Rightarrow> Inl (Err ''report markdown is unreadable'')
    | NotText \<Rightarrow> Inl ValueError
    | Content s \<Rightarrow> Inr s)"

section \<open>The checks\<close>

text \<open>\<^verbatim>\<open>d.pop(key, None)\<close> on a copy.\<close>

definition without :: "pydict \<Rightarrow> string \<Rightarrow> pydict" where
  "without d key = filter (\<lambda>(k, v). k \<noteq> key) d"

definition check_receipt :: "job_entry \<Rightarrow> string \<Rightarrow> pydict \<Rightarrow> string result" where
  "check_receipt entry run_key receipt =
     bindE (require (dict_get receipt ''schema_version'' = JStr (je_terminal_schema entry)) ''unsupported terminal receipt schema'') (\<lambda>_.
     bindE (expect_digest (dict_get receipt ''receipt_sha256'') ''receipt.receipt_sha256'') (\<lambda>supplied.
     bindE (require (sha256_value (JObj (without receipt ''receipt_sha256'')) = supplied) ''terminal receipt digest mismatch'') (\<lambda>_.
     bindE (require (dict_get receipt ''status'' = JStr ''complete'' \<and> dict_get receipt ''work_status'' = JStr ''complete'')
       ''terminal receipt does not report complete work'') (\<lambda>_.
     bindE (require (dict_get receipt ''job_status'' = JStr ''succeeded'') ''terminal receipt job did not succeed'') (\<lambda>_.
     bindE (require (dict_get receipt ''run_key'' = JStr run_key) ''terminal receipt run key mismatch'') (\<lambda>_.
     bindE (expect_text (dict_get receipt ''job_id'') ''receipt.job_id'' 200) (\<lambda>_.
     bindE (expect_positive (dict_get receipt ''attempts'') ''receipt.attempts'') (\<lambda>_.
     Inr supplied))))))))"

text \<open>The prompts scanned, the items, the items dispositioned, and the digests of the report and of the manifest.\<close>

definition check_validation :: "string \<Rightarrow> pydict \<Rightarrow> (int \<times> int \<times> int \<times> string \<times> string) result" where
  "check_validation run_key receipt =
     bindE (expect_object (dict_get receipt ''validation'') ''receipt.validation'') (\<lambda>validation.
     bindE (require (dict_get validation ''run_key'' = JStr run_key \<and> dict_get validation ''status'' = JStr ''complete'')
       ''completion validation does not bind to logical night'') (\<lambda>_.
     bindE (require (dict_get validation ''source_coverage_status'' = JStr ''complete'') ''source coverage is incomplete'') (\<lambda>_.
     bindE (expect_natural (dict_get validation ''prompts_scanned'') ''prompts_scanned'') (\<lambda>prompts.
     bindE (expect_natural (dict_get validation ''actionable_items'') ''actionable_items'') (\<lambda>actionable.
     bindE (expect_natural (dict_get validation ''dispositioned_items'') ''dispositioned_items'') (\<lambda>dispositioned.
     bindE (require (actionable = dispositioned) ''not every actionable item was dispositioned'') (\<lambda>_.
     bindE (expect_digest (dict_get validation ''report_sha256'') ''report_sha256'') (\<lambda>report_sha256.
     bindE (expect_digest (dict_get validation ''manifest_sha256'') ''manifest_sha256'') (\<lambda>manifest_sha256.
     Inr (prompts, actionable, dispositioned, report_sha256, manifest_sha256))))))))))"

definition OPEN_DISPOSITIONS :: "string list" where
  "OPEN_DISPOSITIONS = [''in_review'', ''blocked_with_owner'', ''deferred_with_owner'']"

definition check_dispositions :: "pydict \<Rightarrow> int \<Rightarrow> unit result" where
  "check_dispositions dispositions actionable =
     (let count = (\<lambda>name. expect_natural (dict_get_default dispositions name (JInt 0)) (''dispositions.'' @ name)) in
     bindE (count ''complete'') (\<lambda>finished.
     bindE (count ''already_landed'') (\<lambda>landed.
     bindE (foldE (\<lambda>_ name. bindE (count name) (\<lambda>n. require (n = 0) (''dispositions.'' @ name @ '' must be zero''))) () OPEN_DISPOSITIONS) (\<lambda>_.
     require (finished + landed = actionable) ''finished dispositions do not equal actionable items''))))"

definition check_completion :: "pydict \<Rightarrow> int \<Rightarrow> int \<Rightarrow> pydict result" where
  "check_completion receipt prompts actionable =
     bindE (expect_object (dict_get receipt ''completion_summary'') ''completion_summary'') (\<lambda>completion.
     bindE (require (dict_get completion ''all_work_complete'' = JBool True) ''all_work_complete is not true'') (\<lambda>_.
     bindE (expect_natural (dict_get completion ''unfinished_items'') ''unfinished_items'') (\<lambda>unfinished.
     bindE (require (unfinished = 0) ''unfinished_items must be zero'') (\<lambda>_.
     bindE (expect_natural (dict_get completion ''prompts_scanned'') ''completion.prompts_scanned'') (\<lambda>scanned.
     bindE (require (scanned = prompts) ''prompt counts disagree'') (\<lambda>_.
     bindE (expect_natural (dict_get completion ''actionable_items'') ''completion.actionable_items'') (\<lambda>items.
     bindE (require (items = actionable) ''actionable counts disagree'') (\<lambda>_.
     bindE (expect_object (dict_get completion ''dispositions'') ''completion.dispositions'') (\<lambda>dispositions.
     bindE (check_dispositions dispositions actionable) (\<lambda>_.
     Inr completion))))))))))"

definition check_ledger ::
    "job_entry \<Rightarrow> pydict \<Rightarrow> string \<Rightarrow> pydict \<Rightarrow> int \<Rightarrow> int \<Rightarrow> string \<Rightarrow> string \<Rightarrow> unit result" where
  "check_ledger entry ledger supplied completion run_id run_attempt terminal_name report_name =
     bindE (require (dict_get ledger ''schema_version'' = JStr ''overnight_run_ledger.v1'') ''unsupported run ledger schema'') (\<lambda>_.
     bindE (require (dict_get ledger ''job_id'' = JStr (je_id entry) \<and> dict_get ledger ''workflow'' = JStr (je_workflow entry))
       ''run ledger job identity mismatch'') (\<lambda>_.
     bindE (require (py_eq (JInt run_id) (dict_get ledger ''run_id'') \<and> py_eq (JInt run_attempt) (dict_get ledger ''run_attempt''))
       ''run ledger execution identity mismatch'') (\<lambda>_.
     bindE (require (dict_get ledger ''outcome'' = JStr ''success'') ''run ledger outcome is not success'') (\<lambda>_.
     bindE (require (dict_get ledger ''reconciliation_complete'' = JBool True) ''run ledger reconciliation_complete is not true'') (\<lambda>_.
     bindE (require (dict_get ledger ''all_work_complete'' = JBool True) ''run ledger all_work_complete is not true'') (\<lambda>_.
     bindE (expect_natural (dict_get ledger ''unfinished_items'') ''ledger.unfinished_items'') (\<lambda>unfinished.
     bindE (require (unfinished = 0) ''run ledger unfinished_items must be zero'') (\<lambda>_.
     bindE (require (dict_get ledger ''terminal_receipt_sha256'' = JStr supplied) ''run ledger terminal receipt digest mismatch'') (\<lambda>_.
     bindE (require (dict_get ledger ''artifact_manifest'' = JArr [JStr terminal_name, JStr report_name])
       ''run ledger artifact manifest mismatch'') (\<lambda>_.
     bindE (expect_object (dict_get ledger ''completion_summary'') ''ledger.completion_summary'') (\<lambda>ledger_completion.
     require (py_eq (JObj ledger_completion) (JObj completion)) ''run ledger completion summary mismatch'')))))))))))"

section \<open>The validation\<close>

definition evidence_result ::
    "job_entry \<Rightarrow> string \<Rightarrow> int \<Rightarrow> int \<Rightarrow> int \<Rightarrow> int \<Rightarrow> int \<Rightarrow> string \<Rightarrow> string \<Rightarrow> string \<Rightarrow> pydict" where
  "evidence_result entry run_key run_id run_attempt prompts actionable dispositioned supplied report_sha256 manifest_sha256 =
     [(''schema_version'', JStr ''recent_chat_reconciliation_evidence_validation.v1''), (''status'', JStr ''success''),
       (''job_id'', JStr (je_id entry)), (''run_key'', JStr run_key), (''run_id'', JInt run_id), (''run_attempt'', JInt run_attempt),
       (''prompts_scanned'', JInt prompts), (''actionable_items'', JInt actionable), (''dispositioned_items'', JInt dispositioned),
       (''unfinished_items'', JInt 0), (''all_work_complete'', JBool True), (''source_coverage_status'', JStr ''complete''),
       (''terminal_receipt_sha256'', JStr supplied), (''report_sha256'', JStr report_sha256),
       (''manifest_sha256'', JStr manifest_sha256)]"

text \<open>\<^verbatim>\<open>if report_dir.is_symlink() or not report_dir.is_dir()\<close>.\<close>

definition check_directory :: "bool result \<Rightarrow> unit result" where
  "check_directory directory =
     bindE directory (\<lambda>regular. require regular ''report evidence is not a regular directory'')"

text \<open>
  The receipt, the answer of the tests of the report's directory (or what they raise), and its files by name; then the run key, the
  run, its attempt and the names of its artifacts.
\<close>

definition validate_evidence ::
    "job_entry \<Rightarrow> parsed reading \<Rightarrow> bool result \<Rightarrow> (string \<Rightarrow> parsed reading) \<Rightarrow> (string \<Rightarrow> string reading)
      \<Rightarrow> string \<Rightarrow> int \<Rightarrow> int \<Rightarrow> string \<Rightarrow> string \<Rightarrow> pydict result" where
  "validate_evidence entry receipt_file directory documents texts run_key run_id run_attempt terminal_name report_name =
     bindE (read_json receipt_file ''terminal receipt'') (\<lambda>receipt.
     bindE (check_receipt entry run_key receipt) (\<lambda>supplied.
     bindE (check_validation run_key receipt) (\<lambda>(prompts, actionable, dispositioned, report_sha256, manifest_sha256).
     bindE (check_completion receipt prompts actionable) (\<lambda>completion.
     bindE (check_directory directory) (\<lambda>_.
     bindE (read_json (documents (je_ledger_file entry)) ''run ledger'') (\<lambda>ledger.
     bindE (read_markdown (texts (je_markdown_file entry))) (\<lambda>markdown.
     bindE (require (strip is_space markdown \<noteq> [] \<and> contains ''Outcome: **SUCCESS**'' markdown)
       ''report markdown does not record success'') (\<lambda>_.
     bindE (check_ledger entry ledger supplied completion run_id run_attempt terminal_name report_name) (\<lambda>_.
     Inr (evidence_result entry run_key run_id run_attempt prompts actionable dispositioned supplied report_sha256 manifest_sha256))))))))))"

section \<open>Sound evidence\<close>

text \<open>A count of a document, where one is missing the default.\<close>

definition counted :: "json \<Rightarrow> int \<Rightarrow> bool" where
  "counted v n \<longleftrightarrow> v = JInt n \<and> 0 \<le> n"

text \<open>A short line of text.\<close>

definition line_of :: "nat \<Rightarrow> json \<Rightarrow> bool" where
  "line_of maximum v \<longleftrightarrow> (\<exists>s. v = JStr s \<and> strip is_space s \<noteq> [] \<and> length s \<le> maximum \<and> list_all (\<lambda>c. 32 \<le> code c) s)"

lemma expect_natural_iff [simp]: "expect_natural v field = Inr n \<longleftrightarrow> counted v n"
  by (auto simp: expect_natural_def counted_def split: json.splits)

lemma expect_text_line: "(\<exists>s. expect_text v field n = Inr s) \<longleftrightarrow> line_of n v"
  by (cases v) (auto simp: expect_text_def line_of_def bindE_require)

text \<open>The receipt of a night, sealed by its digest over everything else it holds.\<close>

definition sound_receipt :: "job_entry \<Rightarrow> string \<Rightarrow> pydict \<Rightarrow> string \<Rightarrow> bool" where
  "sound_receipt entry run_key receipt supplied \<longleftrightarrow>
     dict_get receipt ''receipt_sha256'' = JStr supplied \<and> supplied = sha256_value (JObj (without receipt ''receipt_sha256'')) \<and>
     dict_get receipt ''schema_version'' = JStr (je_terminal_schema entry) \<and> dict_get receipt ''run_key'' = JStr run_key \<and>
     dict_get receipt ''status'' = JStr ''complete'' \<and> dict_get receipt ''work_status'' = JStr ''complete'' \<and>
     dict_get receipt ''job_status'' = JStr ''succeeded'' \<and> line_of 200 (dict_get receipt ''job_id'') \<and>
     (\<exists>n. dict_get receipt ''attempts'' = JInt n \<and> 0 < n)"

text \<open>The account of the work: every item is finished, and the summary counts what the validation counted.\<close>

definition sound_account :: "string \<Rightarrow> pydict \<Rightarrow> pydict \<Rightarrow> int \<Rightarrow> int \<Rightarrow> bool" where
  "sound_account run_key validation completion prompts actionable \<longleftrightarrow>
     dict_get validation ''run_key'' = JStr run_key \<and> dict_get validation ''status'' = JStr ''complete'' \<and>
     dict_get validation ''source_coverage_status'' = JStr ''complete'' \<and>
     dict_get completion ''all_work_complete'' = JBool True \<and> counted (dict_get completion ''unfinished_items'') 0 \<and>
     (\<forall>d \<in> {validation, completion}. counted (dict_get d ''prompts_scanned'') prompts \<and> counted (dict_get d ''actionable_items'') actionable) \<and>
     counted (dict_get validation ''dispositioned_items'') actionable \<and>
     (\<exists>dispositions finished landed. dict_get completion ''dispositions'' = JObj dispositions \<and>
        counted (dict_get_default dispositions ''complete'' (JInt 0)) finished \<and>
        counted (dict_get_default dispositions ''already_landed'' (JInt 0)) landed \<and> finished + landed = actionable \<and>
        (\<forall>name \<in> set OPEN_DISPOSITIONS. dict_get_default dispositions name (JInt 0) = JInt 0))"

text \<open>The ledger of the run, for this job, run, attempt and receipt, with the same summary.\<close>

definition sound_ledger :: "job_entry \<Rightarrow> pydict \<Rightarrow> string \<Rightarrow> pydict \<Rightarrow> int \<Rightarrow> int \<Rightarrow> string list \<Rightarrow> bool" where
  "sound_ledger entry ledger supplied completion run_id run_attempt names \<longleftrightarrow>
     dict_get ledger ''schema_version'' = JStr ''overnight_run_ledger.v1'' \<and>
     dict_get ledger ''job_id'' = JStr (je_id entry) \<and> dict_get ledger ''workflow'' = JStr (je_workflow entry) \<and>
     num_val (dict_get ledger ''run_id'') = Some run_id \<and> num_val (dict_get ledger ''run_attempt'') = Some run_attempt \<and>
     dict_get ledger ''outcome'' = JStr ''success'' \<and> dict_get ledger ''reconciliation_complete'' = JBool True \<and>
     dict_get ledger ''all_work_complete'' = JBool True \<and> counted (dict_get ledger ''unfinished_items'') 0 \<and>
     dict_get ledger ''terminal_receipt_sha256'' = JStr supplied \<and> dict_get ledger ''artifact_manifest'' = JArr (map JStr names) \<and>
     (\<exists>summary. dict_get ledger ''completion_summary'' = JObj summary \<and> py_eq (JObj summary) (JObj completion))"

lemma sha256_value_text: "is_sha256_text (sha256_value v)"
  by simp

lemma check_receipt_iff: "check_receipt entry run_key receipt = Inr supplied \<longleftrightarrow> sound_receipt entry run_key receipt supplied"
proof -
  have texts: "(\<exists>s. expect_text v f 200 = Inr s \<and> Q) \<longleftrightarrow> line_of 200 v \<and> Q" for v f Q using expect_text_line by blast
  have "check_receipt entry run_key receipt = Inr supplied \<longleftrightarrow>
     dict_get receipt ''schema_version'' = JStr (je_terminal_schema entry) \<and>
     dict_get receipt ''receipt_sha256'' = JStr supplied \<and> is_sha256_text supplied \<and>
     sha256_value (JObj (without receipt ''receipt_sha256'')) = supplied \<and>
     (dict_get receipt ''status'' = JStr ''complete'' \<and> dict_get receipt ''work_status'' = JStr ''complete'') \<and>
     dict_get receipt ''job_status'' = JStr ''succeeded'' \<and> dict_get receipt ''run_key'' = JStr run_key \<and>
     line_of 200 (dict_get receipt ''job_id'') \<and> (\<exists>n. dict_get receipt ''attempts'' = JInt n \<and> 0 < n)"
    unfolding check_receipt_def bindE_eq_Inr_iff require_eq_Inr_iff expect_digest_iff expect_positive_iff texts sum.inject by blast
  then show ?thesis unfolding sound_receipt_def using sha256_value_text by metis
qed

lemma foldE_checks: "foldE (\<lambda>_ x. f x) () xs = Inr () \<longleftrightarrow> (\<forall>x \<in> set xs. f x = Inr ())"
  by (induction xs) (auto simp: bindE_eq_Inr_iff)

lemma check_dispositions_iff:
  "check_dispositions dispositions actionable = Inr () \<longleftrightarrow>
     (\<exists>finished landed. counted (dict_get_default dispositions ''complete'' (JInt 0)) finished \<and>
        counted (dict_get_default dispositions ''already_landed'' (JInt 0)) landed \<and> finished + landed = actionable \<and>
        (\<forall>name \<in> set OPEN_DISPOSITIONS. dict_get_default dispositions name (JInt 0) = JInt 0))"
proof -
  have zero: "(\<exists>n. counted v n \<and> n = 0) \<longleftrightarrow> v = JInt 0" for v by (auto simp: counted_def)
  show ?thesis
    unfolding check_dispositions_def Let_def bindE_eq_Inr_iff expect_natural_iff foldE_checks require_eq_Inr_iff ex_unit zero
    by blast
qed

lemma check_account_iff:
  "(\<exists>dispositioned. check_validation run_key receipt = Inr (prompts, actionable, dispositioned, report_sha256, manifest_sha256) \<and>
      dispositioned = actionable') \<and> check_completion receipt prompts actionable = Inr completion \<longleftrightarrow>
   actionable' = actionable \<and> (\<exists>validation. dict_get receipt ''validation'' = JObj validation \<and> dict_get receipt ''completion_summary'' = JObj completion \<and>
      sound_account run_key validation completion prompts actionable \<and>
      dict_get validation ''report_sha256'' = JStr report_sha256 \<and> is_sha256_text report_sha256 \<and>
      dict_get validation ''manifest_sha256'' = JStr manifest_sha256 \<and> is_sha256_text manifest_sha256)" (is "?run \<longleftrightarrow> ?spec")
proof -
  have unit: "(\<exists>u. check_dispositions d n = Inr u \<and> Q) \<longleftrightarrow> check_dispositions d n = Inr () \<and> Q" for d n Q by auto
  have zero: "(\<exists>n. counted v n \<and> n = k \<and> Q) \<longleftrightarrow> counted v k \<and> Q" for v k Q by blast
  have validation: "check_validation run_key receipt = Inr (prompts, actionable, dispositioned, report_sha256, manifest_sha256) \<longleftrightarrow>
    dispositioned = actionable \<and> (\<exists>validation. dict_get receipt ''validation'' = JObj validation \<and>
       dict_get validation ''run_key'' = JStr run_key \<and> dict_get validation ''status'' = JStr ''complete'' \<and>
       dict_get validation ''source_coverage_status'' = JStr ''complete'' \<and> counted (dict_get validation ''prompts_scanned'') prompts \<and>
       counted (dict_get validation ''actionable_items'') actionable \<and> counted (dict_get validation ''dispositioned_items'') actionable \<and>
       dict_get validation ''report_sha256'' = JStr report_sha256 \<and> is_sha256_text report_sha256 \<and>
       dict_get validation ''manifest_sha256'' = JStr manifest_sha256 \<and> is_sha256_text manifest_sha256)" for dispositioned
    unfolding check_validation_def bindE_eq_Inr_iff require_eq_Inr_iff expect_object_iff expect_natural_iff expect_digest_iff sum.inject prod.inject
    by blast
  have completion: "check_completion receipt prompts actionable = Inr completion \<longleftrightarrow>
    dict_get receipt ''completion_summary'' = JObj completion \<and> dict_get completion ''all_work_complete'' = JBool True \<and>
    counted (dict_get completion ''unfinished_items'') 0 \<and> counted (dict_get completion ''prompts_scanned'') prompts \<and>
    counted (dict_get completion ''actionable_items'') actionable \<and>
    (\<exists>dispositions. dict_get completion ''dispositions'' = JObj dispositions \<and> check_dispositions dispositions actionable = Inr ())"
    unfolding check_completion_def bindE_eq_Inr_iff require_eq_Inr_iff expect_object_iff expect_natural_iff unit sum.inject
    by blast
  show ?thesis
    unfolding validation completion check_dispositions_iff sound_account_def by auto
qed

lemma check_ledger_iff:
  "check_ledger entry ledger supplied completion run_id run_attempt terminal_name report_name = Inr () \<longleftrightarrow>
     sound_ledger entry ledger supplied completion run_id run_attempt [terminal_name, report_name]"
  unfolding check_ledger_def sound_ledger_def bindE_eq_Inr_iff require_eq_Inr_iff expect_object_iff expect_natural_iff py_eq.simps
    list.map ex_unit
  by blast

lemma check_directory_iff [simp]: "check_directory directory = Inr u \<longleftrightarrow> directory = Inr True"
  by (cases directory) (auto simp: check_directory_def bindE_eq_Inr_iff)

lemma read_markdown_iff [simp]: "read_markdown found = Inr s \<longleftrightarrow> found = Content s"
  by (cases found) (simp_all add: read_markdown_def)

section \<open>What may be raised\<close>

lemma raises_checks: "only_Err m \<Longrightarrow> (\<And>message. Err message \<in> E) \<Longrightarrow> raises E m"
  by (auto simp: only_Err_def raises_def)

lemma only_Err_foldE_unit: "(\<And>x. only_Err (f x)) \<Longrightarrow> only_Err (foldE (\<lambda>_. f) () xs)"
  by (induction xs) (auto intro!: only_Err_intros)

lemma only_Err_checks:
  "only_Err (check_receipt entry run_key receipt)" "only_Err (check_validation run_key receipt)"
  "only_Err (check_completion receipt prompts actionable)"
  "only_Err (check_ledger entry ledger supplied completion run_id run_attempt terminal_name report_name)"
proof -
  have dispositions: "only_Err (check_dispositions d n)" for d n
    unfolding check_dispositions_def Let_def by (intro only_Err_intros only_Err_fields only_Err_foldE_unit)
  show "only_Err (check_receipt entry run_key receipt)" "only_Err (check_validation run_key receipt)"
    "only_Err (check_completion receipt prompts actionable)"
    "only_Err (check_ledger entry ledger supplied completion run_id run_attempt terminal_name report_name)"
    unfolding check_receipt_def check_validation_def check_completion_def check_ledger_def
    by (intro only_Err_intros only_Err_fields dispositions)+
qed

lemma evidence_raises:
  "raises {e. (\<exists>m. e = Err m) \<or> e = ValueError \<and>
      (undecodable receipt_file \<or> undecodable (documents (je_ledger_file entry)) \<or> texts (je_markdown_file entry) = NotText) \<or>
      e = RecursionError \<and> (receipt_file = Content TooDeep \<or> documents (je_ledger_file entry) = Content TooDeep) \<or>
      directory = Inl e}
    (validate_evidence entry receipt_file directory documents texts run_key run_id run_attempt terminal_name report_name)"
    (is "raises ?E _")
proof -
  have declared: "Err message \<in> ?E" for message by simp
  have markdown: "raises ?E (read_markdown (texts (je_markdown_file entry)))"
    by (auto simp: raises_def read_markdown_def split: reading.splits)
  have files: "raises ?E (read_json receipt_file f)" "raises ?E (read_json (documents (je_ledger_file entry)) f)" for f
    by (rule raises_mono [OF read_json_raises [of _ "[receipt_file, documents (je_ledger_file entry)]"]];
        auto simp: reading_exceptions_def)+
  have folder: "raises ?E (check_directory directory)"
    by (auto simp: raises_def check_directory_def bindE_eq_Inl_iff require_eq_Inl_iff)
  show ?thesis
    unfolding validate_evidence_def
    by (intro raises_bindE files markdown folder raises_checks [OF only_Err_checks(1) declared] raises_checks [OF only_Err_checks(2) declared]
        raises_checks [OF only_Err_checks(3) declared] raises_checks [OF only_Err_checks(4) declared]
        raises_checks [OF only_Err_require declared] raises_checks [OF only_Err_Inr declared] raises_cases(2))
qed

lemma read_content [simp]: "read_json (Content (Parsed (JObj d))) field = Inr d" "read_markdown (Content s) = Inr s" "check_directory (Inr True) = Inr ()"
  by simp_all

lemma contains_chars: "contains needle s \<Longrightarrow> set needle \<subseteq> set s"
proof -
  have prefix: "is_prefix p s \<Longrightarrow> set p \<subseteq> set s" for p s by (induction p s rule: is_prefix.induct) auto
  show "contains needle s \<Longrightarrow> set needle \<subseteq> set s"
  proof (induction s)
    case (Cons c s)
    then show ?case using prefix [of needle "c # s"] by auto
  qed simp
qed

lemma strip_blank: "strip f s = [] \<Longrightarrow> \<forall>c \<in> set s. f c"
  by (auto simp: strip_def dropWhile_eq_Nil_conv) (metis Un_iff set_append set_takeWhileD takeWhile_dropWhile_id)

lemma success_line: "contains ''Outcome: **SUCCESS**'' s \<Longrightarrow> strip is_space s \<noteq> []"
proof
  assume "contains ''Outcome: **SUCCESS**'' s" "strip is_space s = []"
  then have "is_space (CHR ''O'')" using contains_chars strip_blank by fastforce
  then show False by (simp add: is_space_def code_def)
qed

section \<open>Properties\<close>

text \<open>
  C40. Evidence is accepted exactly when the files can be read and hold a receipt of the night sealed by its own digest,
  an account in which every actionable item is finished and both counts of the receipt agree, a ledger of the very job, run,
  attempt, receipt and artifacts with the same summary, and a report that says success; the result repeats what was
  found. What else leaves the validation is the declared error; \<^verbatim>\<open>ValueError\<close>, only for a file that is not UTF-8 or a document
  with an integer too long for the interpreter; \<^verbatim>\<open>RecursionError\<close>, only for a document nested too deeply for the parser;
  or what the tests of the directory raise.
\<close>

theorem evidence_accepted_exact:
  "(validate_evidence entry receipt_file directory documents texts run_key run_id run_attempt terminal_name report_name = Inr result \<longleftrightarrow>
     (\<exists>receipt ledger markdown validation completion supplied prompts actionable report_sha256 manifest_sha256.
        receipt_file = Content (Parsed (JObj receipt)) \<and> directory = Inr True \<and> documents (je_ledger_file entry) = Content (Parsed (JObj ledger)) \<and>
        texts (je_markdown_file entry) = Content markdown \<and> contains ''Outcome: **SUCCESS**'' markdown \<and>
        sound_receipt entry run_key receipt supplied \<and>
        dict_get receipt ''validation'' = JObj validation \<and> dict_get receipt ''completion_summary'' = JObj completion \<and>
        sound_account run_key validation completion prompts actionable \<and>
        dict_get validation ''report_sha256'' = JStr report_sha256 \<and> is_sha256_text report_sha256 \<and>
        dict_get validation ''manifest_sha256'' = JStr manifest_sha256 \<and> is_sha256_text manifest_sha256 \<and>
        sound_ledger entry ledger supplied completion run_id run_attempt [terminal_name, report_name] \<and>
        result = evidence_result entry run_key run_id run_attempt prompts actionable actionable supplied report_sha256 manifest_sha256)) \<and>
   (\<forall>e. validate_evidence entry receipt_file directory documents texts run_key run_id run_attempt terminal_name report_name = Inl e \<longrightarrow>
      (\<exists>m. e = Err m) \<or> e = ValueError \<and>
        (undecodable receipt_file \<or> undecodable (documents (je_ledger_file entry)) \<or> texts (je_markdown_file entry) = NotText) \<or>
        e = RecursionError \<and> (receipt_file = Content TooDeep \<or> documents (je_ledger_file entry) = Content TooDeep) \<or>
        directory = Inl e)"
proof -
  define run where "run = validate_evidence entry receipt_file directory documents texts run_key run_id run_attempt terminal_name report_name"
  have same: "dispositioned = actionable"
    if "check_validation run_key receipt = Inr (prompts, actionable, dispositioned, r, m)" for receipt prompts actionable dispositioned r m
    using that unfolding check_validation_def by (elim bindE_InrE) simp
  have steps: "run = Inr result \<longleftrightarrow> (\<exists>receipt supplied prompts actionable r m completion ledger markdown.
      receipt_file = Content (Parsed (JObj receipt)) \<and> check_receipt entry run_key receipt = Inr supplied \<and>
      (\<exists>dispositioned. check_validation run_key receipt = Inr (prompts, actionable, dispositioned, r, m) \<and> dispositioned = actionable) \<and>
      check_completion receipt prompts actionable = Inr completion \<and> directory = Inr True \<and> documents (je_ledger_file entry) = Content (Parsed (JObj ledger)) \<and>
      texts (je_markdown_file entry) = Content markdown \<and> strip is_space markdown \<noteq> [] \<and> contains ''Outcome: **SUCCESS**'' markdown \<and>
      check_ledger entry ledger supplied completion run_id run_attempt terminal_name report_name = Inr () \<and>
      result = evidence_result entry run_key run_id run_attempt prompts actionable actionable supplied r m)" (is "_ \<longleftrightarrow> ?steps")
  proof
    assume "run = Inr result"
    then obtain receipt supplied counts where heads: "receipt_file = Content (Parsed (JObj receipt))" "check_receipt entry run_key receipt = Inr supplied"
        "check_validation run_key receipt = Inr counts"
      and rest: "(case counts of (prompts, actionable, dispositioned, report_sha256, manifest_sha256) \<Rightarrow>
       bindE (check_completion receipt prompts actionable) (\<lambda>completion.
       bindE (check_directory directory) (\<lambda>_.
       bindE (read_json (documents (je_ledger_file entry)) ''run ledger'') (\<lambda>ledger.
       bindE (read_markdown (texts (je_markdown_file entry))) (\<lambda>markdown.
       bindE (require (strip is_space markdown \<noteq> [] \<and> contains ''Outcome: **SUCCESS**'' markdown)
         ''report markdown does not record success'') (\<lambda>_.
       bindE (check_ledger entry ledger supplied completion run_id run_attempt terminal_name report_name) (\<lambda>_.
       Inr (evidence_result entry run_key run_id run_attempt prompts actionable dispositioned supplied report_sha256 manifest_sha256))))))))
       = Inr result"
      unfolding run_def validate_evidence_def by (elim bindE_InrE) (simp only: read_json_iff)
    obtain prompts actionable dispositioned r m where counts: "counts = (prompts, actionable, dispositioned, r, m)" by (cases counts)
    note account = same [OF heads(3) [unfolded counts]]
    obtain completion ledger markdown where tail: "check_completion receipt prompts actionable = Inr completion" "directory = Inr True"
        "documents (je_ledger_file entry) = Content (Parsed (JObj ledger))" "texts (je_markdown_file entry) = Content markdown"
        "strip is_space markdown \<noteq> [] \<and> contains ''Outcome: **SUCCESS**'' markdown"
        "check_ledger entry ledger supplied completion run_id run_attempt terminal_name report_name = Inr ()"
        "evidence_result entry run_key run_id run_attempt prompts actionable actionable supplied r m = result"
      using rest unfolding counts prod.case account
      by (elim bindE_InrE, unfold read_json_iff read_markdown_iff check_directory_iff require_eq_Inr_iff sum.inject) (rule that; simp)
    show ?steps using heads counts account tail by blast
  next
    assume ?steps
    then show "run = Inr result" unfolding run_def validate_evidence_def by auto
  qed
  have "run = Inr result \<longleftrightarrow> (\<exists>receipt ledger markdown validation completion supplied prompts actionable report_sha256 manifest_sha256.
        receipt_file = Content (Parsed (JObj receipt)) \<and> directory = Inr True \<and> documents (je_ledger_file entry) = Content (Parsed (JObj ledger)) \<and>
        texts (je_markdown_file entry) = Content markdown \<and> contains ''Outcome: **SUCCESS**'' markdown \<and>
        sound_receipt entry run_key receipt supplied \<and>
        dict_get receipt ''validation'' = JObj validation \<and> dict_get receipt ''completion_summary'' = JObj completion \<and>
        sound_account run_key validation completion prompts actionable \<and>
        dict_get validation ''report_sha256'' = JStr report_sha256 \<and> is_sha256_text report_sha256 \<and>
        dict_get validation ''manifest_sha256'' = JStr manifest_sha256 \<and> is_sha256_text manifest_sha256 \<and>
        sound_ledger entry ledger supplied completion run_id run_attempt [terminal_name, report_name] \<and>
        result = evidence_result entry run_key run_id run_attempt prompts actionable actionable supplied report_sha256 manifest_sha256)"
    (is "_ \<longleftrightarrow> ?spec")
  proof
    assume "run = Inr result"
    then obtain receipt supplied prompts actionable r m completion ledger markdown where s:
      "receipt_file = Content (Parsed (JObj receipt))" "check_receipt entry run_key receipt = Inr supplied"
      "(\<exists>dispositioned. check_validation run_key receipt = Inr (prompts, actionable, dispositioned, r, m) \<and> dispositioned = actionable)"
      "check_completion receipt prompts actionable = Inr completion" "directory = Inr True" "documents (je_ledger_file entry) = Content (Parsed (JObj ledger))"
      "texts (je_markdown_file entry) = Content markdown" "contains ''Outcome: **SUCCESS**'' markdown"
      "check_ledger entry ledger supplied completion run_id run_attempt terminal_name report_name = Inr ()"
      "result = evidence_result entry run_key run_id run_attempt prompts actionable actionable supplied r m"
      unfolding steps by blast
    show ?spec
      using s(1,5-8,10) s(2) [unfolded check_receipt_iff] conjI [OF s(3,4), unfolded check_account_iff] s(9) [unfolded check_ledger_iff] by blast
  next
    assume ?spec
    then obtain receipt ledger markdown validation completion supplied prompts actionable r m where s:
        "receipt_file = Content (Parsed (JObj receipt))" "directory = Inr True" "documents (je_ledger_file entry) = Content (Parsed (JObj ledger))"
        "texts (je_markdown_file entry) = Content markdown" "contains ''Outcome: **SUCCESS**'' markdown"
        "check_receipt entry run_key receipt = Inr supplied"
        "check_ledger entry ledger supplied completion run_id run_attempt terminal_name report_name = Inr ()"
        "result = evidence_result entry run_key run_id run_attempt prompts actionable actionable supplied r m"
      and account: "(\<exists>dispositioned. check_validation run_key receipt = Inr (prompts, actionable, dispositioned, r, m) \<and> dispositioned = actionable) \<and>
          check_completion receipt prompts actionable = Inr completion"
      unfolding check_receipt_iff check_ledger_iff check_account_iff by blast
    show "run = Inr result" unfolding steps using s success_line [OF s(5)] account by blast
  qed
  moreover have "(\<exists>m. e = Err m) \<or> e = ValueError \<and>
        (undecodable receipt_file \<or> undecodable (documents (je_ledger_file entry)) \<or> texts (je_markdown_file entry) = NotText) \<or>
        e = RecursionError \<and> (receipt_file = Content TooDeep \<or> documents (je_ledger_file entry) = Content TooDeep) \<or>
        directory = Inl e" if "run = Inl e" for e
    using evidence_raises [of receipt_file documents entry texts directory run_key run_id run_attempt terminal_name report_name] that
    unfolding run_def [symmetric] raises_def by blast
  ultimately show ?thesis unfolding run_def [symmetric] by blast
qed

text \<open>The evidence of a night with three items.\<close>

definition sample_completion :: pydict where
  "sample_completion = [(''prompts_scanned'', JInt 12), (''actionable_items'', JInt 3),
     (''dispositions'', JObj [(''complete'', JInt 2), (''already_landed'', JInt 1)]), (''unfinished_items'', JInt 0),
     (''all_work_complete'', JBool True)]"

definition sample_validation :: pydict where
  "sample_validation = [(''run_key'', JStr ''night''), (''status'', JStr ''complete''), (''prompts_scanned'', JInt 12),
     (''actionable_items'', JInt 3), (''dispositioned_items'', JInt 3), (''source_coverage_status'', JStr ''complete''),
     (''report_sha256'', JStr digest_a), (''manifest_sha256'', JStr digest_b)]"

definition unsigned_receipt :: pydict where
  "unsigned_receipt = [(''schema_version'', JStr ''recent_chat_reconciliation_receipt.v1''), (''status'', JStr ''complete''),
     (''work_status'', JStr ''complete''), (''run_key'', JStr ''night''), (''job_id'', JStr ''job-1''), (''job_status'', JStr ''succeeded''),
     (''attempts'', JInt 1), (''validation'', JObj sample_validation), (''completion_summary'', JObj sample_completion)]"

definition signed_receipt :: pydict where
  "signed_receipt = (''receipt_sha256'', JStr (sha256_value (JObj unsigned_receipt))) # unsigned_receipt"

definition sample_run_ledger :: pydict where
  "sample_run_ledger = [(''schema_version'', JStr ''overnight_run_ledger.v1''), (''job_id'', JStr ''recent-chat-reconciliation''),
     (''workflow'', JStr ''last-30-hours-introspection.yml''), (''run_id'', JInt 42), (''run_attempt'', JInt 1), (''outcome'', JStr ''success''),
     (''reconciliation_complete'', JBool True), (''all_work_complete'', JBool True), (''unfinished_items'', JInt 0),
     (''completion_summary'', JObj sample_completion), (''terminal_receipt_sha256'', JStr (sha256_value (JObj unsigned_receipt))),
     (''artifact_manifest'', JArr [JStr ''terminal-42-1'', JStr ''report-42-1''])]"

lemma sample_receipt_sound: "sound_receipt sample_job ''night'' signed_receipt (sha256_value (JObj unsigned_receipt))"
proof -
  have "without signed_receipt ''receipt_sha256'' = unsigned_receipt" by (simp add: without_def signed_receipt_def unsigned_receipt_def)
  moreover have "line_of 200 (JStr ''job-1'')" by (simp add: line_of_def strip_def is_space_def code_def)
  ultimately show ?thesis
    unfolding sound_receipt_def by (simp add: signed_receipt_def sample_job_def) (simp add: unsigned_receipt_def)
qed

lemma sample_account_sound: "sound_account ''night'' sample_validation sample_completion 12 3"
  by (simp add: sound_account_def sample_validation_def sample_completion_def counted_def dict_get_default_def OPEN_DISPOSITIONS_def)

lemma sample_ledger_sound:
  "sound_ledger sample_job sample_run_ledger (sha256_value (JObj unsigned_receipt)) sample_completion 42 1 [''terminal-42-1'', ''report-42-1'']"
proof -
  have "plain (JObj sample_completion)" by (simp add: sample_completion_def)
  from py_eq_refl [OF this] show ?thesis
    by (simp add: sound_ledger_def sample_run_ledger_def sample_job_def counted_def num_val_def del: py_eq.simps)
qed

lemma evidence_accepted_exact_witness:
  "validate_evidence sample_job (Content (Parsed (JObj signed_receipt))) (Inr True) (\<lambda>_. Content (Parsed (JObj sample_run_ledger)))
      (\<lambda>_. Content ''- Outcome: **SUCCESS**'') ''night'' 42 1 ''terminal-42-1'' ''report-42-1'' =
    Inr (evidence_result sample_job ''night'' 42 1 12 3 3 (sha256_value (JObj unsigned_receipt)) digest_a digest_b)"
proof -
  have line: "contains ''Outcome: **SUCCESS**'' ''- Outcome: **SUCCESS**''" by simp
  have fields: "dict_get signed_receipt ''validation'' = JObj sample_validation" "dict_get signed_receipt ''completion_summary'' = JObj sample_completion"
    "dict_get sample_validation ''report_sha256'' = JStr digest_a" "dict_get sample_validation ''manifest_sha256'' = JStr digest_b"
    by (simp_all add: signed_receipt_def unsigned_receipt_def sample_validation_def)
  show ?thesis
    by (rule evidence_accepted_exact [THEN conjunct1, THEN iffD2])
      (use line fields sample_receipt_sound sample_account_sound sample_ledger_sound sample_digests in blast)
qed

end
