(* ===== verification/Spec2Isabelle.thy ===== *)
theory Spec2Isabelle
  imports BriefingAtomicity FabricationRecovery RecoverySupervisor RecoveryPool MutationReceipts SourceCoverage EvidenceAdmissibility RecoveryLedger LaneManifest RemediationQueue ScheduleDigest WatchdogEvidence
begin

text \<open>
  A verification library for the Python programs of the ai-agent-coordinator repository that decide what
  may be done and remember what was done: the fenced delivery protocols, the supervisor of the recovery
  workers, the recovery tools and the validators of the daily briefing and of the remediation queue. Paths
  below are relative to \<^verbatim>\<open>src/\<close>.

  \<^bold>\<open>How the parts interact.\<close> Coordinator jobs (\<^verbatim>\<open>scripts/fabrication_recovery_protocol.py\<close>) and daily
  briefings (\<^verbatim>\<open>scripts/daily_briefing_atomicity_model.py\<close>, \<^verbatim>\<open>scripts/daily_briefing_receipts.py\<close>) are taken by
  workers under fencing tokens; a command changes an immutable state or is refused. The recovery workers run
  under a pool (\<^verbatim>\<open>tools/run_continuous_artifact_recovery_pool.py\<close>), which the repository models itself
  (\<^verbatim>\<open>formal/continuous_recovery_supervisor.py\<close>). What the workers find goes through the recovery tools
  (\<^verbatim>\<open>tools/artifact_recovery\<close>): observations are normalised and reconciled into a ledger, the coverage of the
  sources and the admissibility of evidence are reported, and a write needs a mutation receipt. The
  portfolio queue (\<^verbatim>\<open>scripts/portfolio_remediation_queue.py\<close>) ranks the findings that remain. The digest of the
  scheduled tasks (\<^verbatim>\<open>tools/scheduled_task_digest_core.py\<close>, \<^verbatim>\<open>tools/scheduled_task_digest_scan.py\<close>) compares what
  the workflows of the repositories promised in a window with the runs they had, and the watchdog
  (\<^verbatim>\<open>tools/overnight_job_watchdog.py\<close>) certifies that the overnight jobs ran and left their evidence.

  \<^bold>\<open>Theories, in the order of import.\<close>
  \<^item> \<open>Prelude\<close>: results with the exceptions of Python, steps that may raise, folds and maps over them,
    decimal numerals, strings.
  \<^item> \<open>PyValue\<close>: JSON values, dictionaries in insertion order, equality, \<^verbatim>\<open>json.dumps\<close> in canonical form, the
    shapes of digests and identifiers. \<open>Sha256\<close>: the digest, over words of 32 bits. \<open>PyRegex\<close>, \<open>PyUrl\<close>,
    \<open>Timestamps\<close>: what the programs use of \<^verbatim>\<open>re\<close>, \<^verbatim>\<open>urllib.parse\<close> and \<^verbatim>\<open>datetime\<close>.
  \<^item> \<open>FencedProtocol\<close>: the locales of a protocol whose operation maps a state and a command to a state or an
    exception (\<open>validated_protocol\<close>: validity is kept; \<open>ordered_protocol\<close>: runs only move forward;
    \<open>replayable_protocol\<close>: a command repeated after itself changes nothing). They are interpreted in
    \<open>BriefingAtomicity\<close>, \<open>FabricationRecovery\<close>, \<open>BriefingDelivery\<close> and, without the order, \<open>RecoverySupervisor\<close>.
  \<^item> \<open>BriefingAtomicity\<close> (\<^verbatim>\<open>DeliveryState\<close>, \<^verbatim>\<open>apply\<close>, \<^verbatim>\<open>attempt\<close>, \<^verbatim>\<open>run_fixture\<close>) and \<open>FabricationRecovery\<close>
    (\<^verbatim>\<open>JobState\<close>, \<^verbatim>\<open>apply\<close>, \<^verbatim>\<open>attempt\<close>, \<^verbatim>\<open>run_fixture\<close>): one definition per command, an abstract step relation
    that the successors of \<^verbatim>\<open>apply\<close> refine exactly, what runs of any length keep, replays, the budget of
    deliveries, and the atomicity of \<^verbatim>\<open>attempt\<close>.
  \<^item> \<open>RecoverySupervisor\<close> (\<^verbatim>\<open>SupervisorState\<close>, \<^verbatim>\<open>enabled_events\<close>, \<^verbatim>\<open>transition\<close>, \<^verbatim>\<open>invariant_errors\<close>,
    \<^verbatim>\<open>explore\<close>): the invariant for runs of any length, no respawn after a stop, the end of every shutdown, and
    that the exploration visits exactly the states within its depth.
  \<^item> \<open>RecoveryPool\<close> (\<^verbatim>\<open>bounded_int\<close>, \<^verbatim>\<open>PoolConfig\<close>, \<^verbatim>\<open>RestartBudget\<close>, the loop of \<^verbatim>\<open>main\<close>): the budget refines the
    supervisor model, one worker per slot whatever signals are handled wherever, a bounded shutdown, and the race that
    raises \<^verbatim>\<open>KeyError\<close>.
  \<^item> \<open>RecoveryCommon\<close>, \<open>MutationContract\<close>, \<open>DerivedReport\<close>, \<open>MutationReceipts\<close>, \<open>RecoveryObservation\<close>,
    \<open>RecoveryLedger\<close>, \<open>SourceCoverage\<close>, \<open>EvidenceAdmissibility\<close> (\<^verbatim>\<open>common.py\<close>, \<^verbatim>\<open>mutation_receipts_contract.py\<close>,
    \<^verbatim>\<open>mutation_receipts.py\<close>, \<^verbatim>\<open>observation.py\<close>, \<^verbatim>\<open>ledger.py\<close>, \<^verbatim>\<open>source_coverage.py\<close>,
    \<^verbatim>\<open>evidence_admissibility.py\<close>): normalised dictionaries are records, and each normaliser is proved to return
    well-formed records and to accept them again. The locale \<open>derived_report\<close> states what a report builder
    promises given that what it derives is stable, and is interpreted for the three builders. The properties give the decision
    of every assessment exactly, the consistency of the ledger and of its queue, and idempotence. A previous ledger is
    one the tool wrote; the last section of \<open>RecoveryLedger\<close> gives what is read of an entry of any other, and what it raises.
  \<^item> \<open>Diagnostics\<close>: validators that collect messages (\<open>bindD\<close>), runs without a message (\<open>clean\<close>) as
    conjunctions of their checks, what a run may raise (\<open>raises\<close>), and the checks the validators share.
    \<open>LaneManifest\<close> (\<^verbatim>\<open>validate_lane_manifest\<close>), \<open>BriefingDelivery\<close> (\<^verbatim>\<open>validate_delivery_state\<close>,
    \<^verbatim>\<open>transition_delivery\<close>), \<open>DependencyGraph\<close> (\<^verbatim>\<open>_find_cycles\<close>) and \<open>RemediationQueue\<close> (\<^verbatim>\<open>validate\<close>): a
    document is reported valid exactly when it satisfies a declarative predicate (\<open>sound_manifest\<close>,
    \<open>valid_delivery\<close>, \<open>sound_queue\<close>), what such a document guarantees, and what escapes the validator.
  \<^item> \<open>CronSchedule\<close> (\<^verbatim>\<open>compile_cron\<close>, \<^verbatim>\<open>CompiledCron.matches\<close>, \<^verbatim>\<open>expected_occurrences\<close>): schedules against a
    grammar with its meaning, and the loop over minutes against the set of the minutes due.
    \<open>ScheduleDigest\<close> (\<^verbatim>\<open>extract_crons\<close>, \<^verbatim>\<open>classify_run\<close>, \<^verbatim>\<open>worst_status\<close>, the decision of \<^verbatim>\<open>scan_repository\<close>, the
    counts of \<^verbatim>\<open>collect_digest\<close>): when a workflow is a success, disabled, not due, missed, partial or critical.
  \<^item> \<open>OvernightWatchdog\<close> (\<^verbatim>\<open>_read_json\<close>, \<^verbatim>\<open>load_catalog\<close>, \<^verbatim>\<open>logical_night\<close>, \<^verbatim>\<open>SnapshotClient\<close>, \<^verbatim>\<open>evaluate_attempt\<close>, \<^verbatim>\<open>build_report\<close>,
    \<^verbatim>\<open>locate\<close> on a snapshot, up to its outputs): which night is chosen, when a report certifies it, and what may be
    raised. The locale \<open>listings\<close> states what the client's listings may raise and is interpreted for the snapshot client.
    \<open>WatchdogEvidence\<close> (\<^verbatim>\<open>validate_evidence\<close>): the evidence of the selected run is accepted exactly when it is sound.
  \<^item> \<open>Spec2Isabelle\<close>: the properties of several components at once.

  \<^bold>\<open>State and exceptions.\<close> A frozen dataclass or a normalised dictionary is a record, a raised exception is
  \<open>Inl\<close>, and \<open>Err\<close> is the class the module declares; what the interpreter raises by itself has constructors
  of its own. Loops over lists are folds; Python integers are \<open>int\<close> or, where they cannot be negative, \<open>nat\<close>.

  \<^bold>\<open>Bounds and fuel.\<close> \<open>explore\<close> decreases a measure and is total. The pool loop runs over the list of its
  inputs, one for each iteration; the shutdown theorem says that it has returned once one of them lies past the
  deadline and a later one past the kill grace, however many there are. The
  cycle search takes the number of nested calls the interpreter allows; one call for every node of the graph
  and one more are enough, and the property shows that fewer are not. The walks of the two validators over a raw
  document are given with that number as well (\<open>walk_within\<close>, \<open>validate_within\<close>, \<open>validate_lane_within\<close>) and proved equal to
  the structural ones where the document is nested less deeply, and to raise \<^verbatim>\<open>RecursionError\<close> where it is not. The loop
  over the minutes of a window is a partial function, proved to return. All other recursion over documents (\<^verbatim>\<open>json.dumps\<close>, equality, copies, the walk of
  \<^verbatim>\<open>common.py\<close>) is structural: the recovery tools apply it to what their normalisers build, which is a few levels deep.

  \<^bold>\<open>What is assumed of the interpreter.\<close> Characters are the code points below 256: a text with others is
  outside the model. The interpreter's bound on nested calls is part of the cycle search and of the walks over raw documents;
  printing, comparing and hashing a parsed document are taken to need no deeper stack than parsing it. Its bound of
  4300 digits is part of the pool's configuration, of the attempts of a ledger entry, and of the documents the watchdog reads.
  Sums of clock readings and differences of dates are exact where the code uses floats. The order of iteration over a set is an argument where it can be observed. A signal of
  the pool may be handled at any point of its start-up and of its loop, and handlers may interrupt each other; starting
  a process, signalling it and printing are taken to succeed. A time zone
  is an argument: the offset of every instant, or the answer of the database to a key. Dates follow CPython 3.12.

  \<^bold>\<open>Not modelled\<close>, and why.
  \<^item> Reading and writing files and printing: \<^verbatim>\<open>load\<close>, \<^verbatim>\<open>load_json\<close>, \<^verbatim>\<open>atomic_write_json\<close>, \<^verbatim>\<open>write_outputs\<close> and the
    command lines. A document is an argument, and so is the clock;
    what the watchdog reads is an argument with the ways a reading may fail.
  \<^item> The builders of example documents for the tests, and the parts of the supervisor model that run the pool on
    test vectors: the refinement proves for all inputs what they test.
  \<^item> The worker runtime, the job queue clients, the nightly maintenance, the requests and the mail of the digests and of
    the watchdog, the publishers and the bootstrappers: processes, Git, HTTP and text templates, with little logic of their own.
  \<^item> \<^verbatim>\<open>scripts/digest_provenance.py\<close>, \<^verbatim>\<open>scripts/zed_clean_consumer_receipt.py\<close> and
    \<^verbatim>\<open>scripts/portfolio_release_manifest.py\<close>: validators like the modelled ones, which could be modelled over
    \<open>Diagnostics\<close> and \<open>DependencyGraph\<close> in the same way.
  \<^item> \<^verbatim>\<open>scripts/semantic_merge_guard.py\<close>, the registries and the homepages: their logic is what third-party parsers
    of YAML, Markdown and other formats return.
  \<^item> The Rust server under \<^verbatim>\<open>src/\<close>, the deployment and the workflows: other languages.
\<close>

section \<open>Properties that span components\<close>

text \<open>
  C24. The report builders of the artifact-recovery tools are idempotent: a report that one of them
  accepted, written out with its derived fields and digests, is accepted again by the same builder and
  gives the same report.
\<close>

theorem recovery_reports_revalidate:
  "(build_mutation_receipts_report raw_report clock = Inr mutation_report \<longrightarrow>
      build_mutation_receipts_report (report_json mutation_report) clock = Inr mutation_report) \<and>
   (build_source_coverage_report raw_report clock = Inr cov_report \<longrightarrow>
      build_source_coverage_report (JObj (coverage_dict cov_report)) clock = Inr cov_report) \<and>
   (build_evidence_admissibility_report raw_report clock = Inr adm_report \<longrightarrow>
      build_evidence_admissibility_report (JObj (admissibility_dict adm_report)) clock = Inr adm_report)"
  by (simp add: receipts_revalidate coverage.revalidate admissibility.revalidate)

lemma recovery_reports_revalidate_witness:
  "build_source_coverage_report (JObj (coverage_dict sample_coverage)) None = Inr sample_coverage \<and>
   build_evidence_admissibility_report (JObj (admissibility_dict sample_admissibility)) None = Inr sample_admissibility"
  using recovery_reports_revalidate [of _ None _ sample_coverage] recovery_reports_revalidate [of _ None _ _ sample_admissibility]
    sample_coverage_build sample_admissibility_build by blast

text \<open>
  C25. The three report builders of the artifact-recovery tools, on any document, raise nothing but
  \<^verbatim>\<open>RecoveryError\<close>, or \<^verbatim>\<open>OverflowError\<close> when a date leaves the years 1 to 9999: no lookup, conversion or
  ordering fails. The same holds of \<^verbatim>\<open>reconcile\<close> on any batch, without a previous ledger and with one that
  runs of the tool wrote. (\<open>malformed_ledger_accepted\<close> shows what a ledger of other origin can raise.)
\<close>

theorem recovery_errors:
  "refuses (build_mutation_receipts_report raw_report clock) \<and>
   refuses (build_source_coverage_report raw_report clock) \<and>
   refuses (build_evidence_admissibility_report raw_report clock) \<and>
   refuses (reconcile batch None at_time bound task) \<and>
   (written earlier \<longrightarrow> refuses (reconcile batch (Some earlier) at_time bound task))"
  by (simp add: receipts_errors coverage.build_refuses admissibility.build_refuses refuses_reconcile)

lemma recovery_errors_witness: "refuses (reconcile [] (Some sample_ledger) [] 0 [])"
proof -
  have "written sample_ledger" by (rule first_run [OF sample_run])
  then show ?thesis using recovery_errors [of JNull None "[]" "[]" 0 "[]" sample_ledger] by blast
qed

end
